(* ===== verification/Py_Decimal.thy ===== *)
theory Py_Decimal
  imports Prelude "HOL-Library.Log_Nat"
begin

text \<open>
  Python's \<open>decimal.Decimal\<close> as the backend uses it.  A finite decimal is the rational it
  denotes.  \<open>quantize\<close> is modelled for the two rounding modes of the code: \<open>ROUND_HALF_UP\<close>
  (half away from zero, the mode of \<open>q2\<close>) and the context default \<open>ROUND_HALF_EVEN\<close>
  (\<open>quantize\<close> without a mode).  Quotients, and products with a quotient, are rounded to the
  28 significant digits of the default context by \<open>ctx28\<close>; sums and products of column values
  need at most 28 digits and are exact.
\<close>

section \<open>Rounding to a grid\<close>

definition round_half_up :: "rat \<Rightarrow> int" where
  "round_half_up x = (if 0 \<le> x then \<lfloor>x + 1/2\<rfloor> else - \<lfloor>- x + 1/2\<rfloor>)"

definition round_half_even :: "rat \<Rightarrow> int" where
  "round_half_even x =
     (let f = \<lfloor>x\<rfloor>; r = x - of_int f in
      if r < 1/2 then f else if 1/2 < r then f + 1 else if even f then f else f + 1)"

definition quantize_up :: "nat \<Rightarrow> rat \<Rightarrow> rat" where
  "quantize_up n x = of_int (round_half_up (x * 10 ^ n)) / 10 ^ n"

definition quantize_even :: "nat \<Rightarrow> rat \<Rightarrow> rat" where
  "quantize_even n x = of_int (round_half_even (x * 10 ^ n)) / 10 ^ n"

definition q2 :: "rat \<Rightarrow> rat" where
  "q2 value = quantize_up 2 value"

definition q_rupee :: "rat \<Rightarrow> rat" where
  "q_rupee value = quantize_up 0 value"

section \<open>The 28-digit context\<close>

text \<open>The adjusted exponent \<open>e\<close> of a positive number: \<open>10\<^sup>e \<le> x < 10\<^sup>e\<^sup>+\<^sup>1\<close>.\<close>

definition dec_exp :: "rat \<Rightarrow> int" where
  "dec_exp x = (if 1 \<le> x then int (floorlog 10 (nat \<lfloor>x\<rfloor>)) - 1
                else - int (floorlog 10 (nat (\<lceil>1 / x\<rceil> - 1))))"

definition ctx28 :: "rat \<Rightarrow> rat" where
  "ctx28 x = (if x = 0 then 0
     else let s = 27 - dec_exp \<bar>x\<bar> in
       of_int (round_half_even (x * 10 powi s)) / 10 powi s)"

definition ddiv :: "rat \<Rightarrow> rat \<Rightarrow> rat" where
  "ddiv a b = ctx28 (a / b)"

definition dmul :: "rat \<Rightarrow> rat \<Rightarrow> rat" where
  "dmul a b = ctx28 (a * b)"

section \<open>What a rounding function promises\<close>

text \<open>
  \<open>quantizer q u\<close>: \<open>q\<close> rounds to the multiples of \<open>u\<close>, monotonically, with an error of
  at most half a unit, and symmetrically around zero.  Everything the money code needs of a
  rounding function is derived from these laws once.
\<close>

locale quantizer =
  fixes q :: "rat \<Rightarrow> rat" and u :: rat
  assumes unit_pos: "0 < u"
    and on_grid: "\<exists>k::int. q x = of_int k * u"
    and near: "\<bar>q x - x\<bar> \<le> u / 2"
    and mono_q: "x \<le> y \<Longrightarrow> q x \<le> q y"
    and odd_q: "q (- x) = - q x"
begin

lemma grid_near_eq:
  assumes "\<bar>of_int a * u - of_int b * u\<bar> < u"
  shows "a = b"
proof -
  have "\<bar>of_int a * u - of_int b * u\<bar> = of_int \<bar>a - b\<bar> * u"
    using unit_pos by (simp add: abs_mult left_diff_distrib [symmetric])
  with assms have "of_int \<bar>a - b\<bar> * u < 1 * u" by simp
  then have "of_int \<bar>a - b\<bar> < (1::rat)"
    using unit_pos by (simp only: mult_less_cancel_right_pos)
  then show ?thesis by linarith
qed

lemma fix_grid: "q (of_int k * u) = of_int k * u"
proof -
  obtain j where j: "q (of_int k * u) = of_int j * u" using on_grid by blast
  have "\<bar>of_int j * u - of_int k * u\<bar> \<le> u / 2" using near [of "of_int k * u"] j by simp
  also have "\<dots> < u" using unit_pos by simp
  finally have "j = k" by (rule grid_near_eq)
  then show ?thesis using j by simp
qed

lemma zero [simp]: "q 0 = 0"
  using fix_grid [of 0] by simp

lemma idem [simp]: "q (q x) = q x"
  using on_grid [of x] fix_grid by metis

lemma nonneg: "0 \<le> x \<Longrightarrow> 0 \<le> q x"
  using mono_q [of 0 x] by simp

lemma nonpos: "x \<le> 0 \<Longrightarrow> q x \<le> 0"
  using mono_q [of x 0] by simp

lemma le_grid: "x \<le> of_int k * u \<Longrightarrow> q x \<le> of_int k * u"
  using mono_q [of x "of_int k * u"] fix_grid by simp

lemma ge_grid: "of_int k * u \<le> x \<Longrightarrow> of_int k * u \<le> q x"
  using mono_q [of "of_int k * u" x] fix_grid by simp

lemma le_fixed: "q y = y \<Longrightarrow> x \<le> y \<Longrightarrow> q x \<le> y"
  using mono_q [of x y] by simp

lemma fixed_add: "q x = x \<Longrightarrow> q y = y \<Longrightarrow> q (x + y) = x + y"
proof -
  assume "q x = x" "q y = y"
  then obtain a b where "x = of_int a * u" "y = of_int b * u" using on_grid by metis
  then have "x + y = of_int (a + b) * u" by (simp add: algebra_simps)
  then show ?thesis using fix_grid by metis
qed

lemma fixed_minus: "q x = x \<Longrightarrow> q (- x) = - x"
  by (simp add: odd_q)

lemma fixed_diff: "q x = x \<Longrightarrow> q y = y \<Longrightarrow> q (x - y) = x - y"
  using fixed_add [of x "- y"] fixed_minus [of y] by simp

lemma fixed_sum_list: "(\<And>x. x \<in> set xs \<Longrightarrow> q (f x) = f x) \<Longrightarrow> q (\<Sum>x\<leftarrow>xs. f x) = (\<Sum>x\<leftarrow>xs. f x)"
  by (induction xs) (auto intro: fixed_add)

lemma fixed_min: "q x = x \<Longrightarrow> q y = y \<Longrightarrow> q (min x y) = min x y"
  by (simp add: min_def)

lemma fixed_max: "q x = x \<Longrightarrow> q y = y \<Longrightarrow> q (max x y) = max x y"
  by (simp add: max_def)

end

lemma round_half_up_near: "\<bar>of_int (round_half_up x) - x\<bar> \<le> 1/2"
proof (cases "0 \<le> x")
  case True
  define k where "k = \<lfloor>x + 1/2\<rfloor>"
  have "of_int k \<le> x + 1/2" "x + 1/2 < of_int k + 1" unfolding k_def by linarith+
  then have "\<bar>of_int k - x\<bar> \<le> 1/2" unfolding abs_le_iff by linarith
  with True show ?thesis unfolding round_half_up_def k_def [symmetric] by simp
next
  case False
  define k where "k = \<lfloor>- x + 1/2\<rfloor>"
  have "of_int k \<le> - x + 1/2" "- x + 1/2 < of_int k + 1" unfolding k_def by linarith+
  then have "\<bar>of_int (- k) - x\<bar> \<le> 1/2" unfolding abs_le_iff of_int_minus by linarith
  with False show ?thesis unfolding round_half_up_def k_def [symmetric] by simp
qed

lemma round_half_even_near: "\<bar>of_int (round_half_even x) - x\<bar> \<le> 1/2"
proof -
  have "of_int \<lfloor>x\<rfloor> \<le> x" "x < of_int \<lfloor>x\<rfloor> + 1" by linarith+
  then show ?thesis
    unfolding round_half_even_def Let_def by (auto simp: abs_le_iff)
qed

lemma round_half_up_mono:
  assumes le: "x \<le> y"
  shows "round_half_up x \<le> round_half_up y"
proof -
  have neg: "0 \<le> \<lfloor>- z + 1/2\<rfloor>" if "\<not> 0 \<le> z" for z :: rat
    using that by (simp add: le_floor_iff)
  have pos: "0 \<le> \<lfloor>z + 1/2\<rfloor>" if "0 \<le> z" for z :: rat
    using that by (simp add: le_floor_iff)
  have a: "\<lfloor>x + 1/2\<rfloor> \<le> \<lfloor>y + 1/2\<rfloor>" "\<lfloor>- y + 1/2\<rfloor> \<le> \<lfloor>- x + 1/2\<rfloor>"
    using le by (auto intro!: floor_mono)
  consider "0 \<le> x" "0 \<le> y" | "\<not> 0 \<le> x" "0 \<le> y" | "\<not> 0 \<le> x" "\<not> 0 \<le> y"
    using le by linarith
  then show ?thesis
  proof cases
    case 1
    then show ?thesis using a unfolding round_half_up_def by simp
  next
    case 2
    then have "- \<lfloor>- x + 1/2\<rfloor> \<le> 0" "0 \<le> \<lfloor>y + 1/2\<rfloor>" using neg [of x] pos [of y] by linarith+
    then have "- \<lfloor>- x + 1/2\<rfloor> \<le> \<lfloor>y + 1/2\<rfloor>" by (rule order_trans)
    then show ?thesis using 2 by (simp only: round_half_up_def if_True if_False)
  next
    case 3
    then show ?thesis using a unfolding round_half_up_def by simp
  qed
qed

lemma round_half_even_mono:
  assumes le: "x \<le> y"
  shows "round_half_even x \<le> round_half_even y"
proof (cases "\<lfloor>x\<rfloor> = \<lfloor>y\<rfloor>")
  case True
  then show ?thesis using le unfolding round_half_even_def Let_def by auto
next
  case False
  then have "\<lfloor>x\<rfloor> + 1 \<le> \<lfloor>y\<rfloor>" using floor_mono [OF le] by linarith
  then show ?thesis unfolding round_half_even_def Let_def by auto
qed

lemma round_half_up_minus: "round_half_up (- x) = - round_half_up x"
proof -
  have "\<lfloor>1/2 :: rat\<rfloor> = 0" by (rule floor_unique) auto
  then show ?thesis unfolding round_half_up_def by (cases "x = 0") auto
qed

lemma floor_minus_not_int:
  assumes "x \<noteq> of_int \<lfloor>x\<rfloor>"
  shows "\<lfloor>- x :: rat\<rfloor> = - \<lfloor>x\<rfloor> - 1"
proof (rule floor_unique)
  have "of_int \<lfloor>x\<rfloor> \<le> x" "x < of_int \<lfloor>x\<rfloor> + 1" by linarith+
  then show "of_int (- \<lfloor>x\<rfloor> - 1) \<le> - x" "- x < of_int (- \<lfloor>x\<rfloor> - 1) + 1"
    using assms by (simp_all add: order_less_le)
qed

lemma round_half_even_minus: "round_half_even (- x) = - round_half_even x"
proof (cases "x = of_int \<lfloor>x\<rfloor>")
  case True
  define k where "k = \<lfloor>x\<rfloor>"
  have "x = of_int k" using True k_def by simp
  then show ?thesis by (simp add: round_half_even_def)
next
  case False
  define k where "k = \<lfloor>x\<rfloor>"
  have n: "\<lfloor>- x\<rfloor> = - k - 1" using floor_minus_not_int [OF False] k_def by simp
  show ?thesis
    unfolding round_half_even_def Let_def n k_def [symmetric] by (auto simp: algebra_simps)
qed

lemma scaled_error:
  fixes a x p :: rat
  assumes "0 < p"
  shows "\<bar>a / p - x\<bar> = \<bar>a - x * p\<bar> / p"
proof -
  have "a / p - x = (a - x * p) / p" using assms by (simp add: diff_divide_distrib)
  then show ?thesis using assms by (simp add: abs_divide)
qed

lemma quantize_up_quantizer: "quantizer (quantize_up n) (1 / 10 ^ n)"
proof
  fix x y :: rat
  show "(0::rat) < 1 / 10 ^ n" by simp
  show "\<exists>k::int. quantize_up n x = of_int k * (1 / 10 ^ n)"
    by (auto simp: quantize_up_def)
  have "\<bar>quantize_up n x - x\<bar> = \<bar>of_int (round_half_up (x * 10 ^ n)) - x * 10 ^ n\<bar> / 10 ^ n"
    unfolding quantize_up_def by (rule scaled_error) simp
  also have "\<dots> \<le> (1/2) / 10 ^ n"
    by (rule divide_right_mono [OF round_half_up_near]) simp
  finally show "\<bar>quantize_up n x - x\<bar> \<le> 1 / 10 ^ n / 2" by simp
  show "quantize_up n (- x) = - quantize_up n x"
    by (simp add: quantize_up_def round_half_up_minus)
  assume "x \<le> y"
  then show "quantize_up n x \<le> quantize_up n y"
    unfolding quantize_up_def
    by (intro divide_right_mono) (simp_all add: round_half_up_mono mult_right_mono)
qed

lemma quantize_even_quantizer: "quantizer (quantize_even n) (1 / 10 ^ n)"
proof
  fix x y :: rat
  show "(0::rat) < 1 / 10 ^ n" by simp
  show "\<exists>k::int. quantize_even n x = of_int k * (1 / 10 ^ n)"
    by (auto simp: quantize_even_def)
  have "\<bar>quantize_even n x - x\<bar> = \<bar>of_int (round_half_even (x * 10 ^ n)) - x * 10 ^ n\<bar> / 10 ^ n"
    unfolding quantize_even_def by (rule scaled_error) simp
  also have "\<dots> \<le> (1/2) / 10 ^ n"
    by (rule divide_right_mono [OF round_half_even_near]) simp
  finally show "\<bar>quantize_even n x - x\<bar> \<le> 1 / 10 ^ n / 2" by simp
  show "quantize_even n (- x) = - quantize_even n x"
    by (simp add: quantize_even_def round_half_even_minus)
  assume "x \<le> y"
  then show "quantize_even n x \<le> quantize_even n y"
    unfolding quantize_even_def
    by (intro divide_right_mono) (simp_all add: round_half_even_mono mult_right_mono)
qed

interpretation paisa: quantizer q2 "1 / 100"
proof -
  have "q2 = quantize_up 2" by (rule ext) (simp add: q2_def)
  then show "quantizer q2 (1 / 100)" using quantize_up_quantizer [of 2] by simp
qed

interpretation rupee: quantizer q_rupee "1"
proof -
  have "q_rupee = quantize_up 0" by (rule ext) (simp add: q_rupee_def)
  then show "quantizer q_rupee 1" using quantize_up_quantizer [of 0] by simp
qed

interpretation cost4: quantizer "quantize_even 4" "1 / 10000"
  using quantize_even_quantizer [of 4] by simp

lemmas paisa_fixed = paisa.fixed_add paisa.fixed_diff paisa.fixed_minus paisa.fixed_min
  paisa.fixed_max paisa.idem paisa.zero

lemma q2_rupee [simp]: "q2 (q_rupee x) = q_rupee x"
proof -
  obtain k where "q_rupee x = of_int k * 1" using rupee.on_grid by blast
  then have "q_rupee x = of_int (100 * k) * (1 / 100)" by simp
  then show ?thesis using paisa.fix_grid by metis
qed

section \<open>Facts about the context\<close>

lemma dec_exp_bounds:
  assumes "0 < x"
  shows "10 powi dec_exp x \<le> x" and "x < 10 powi (dec_exp x + 1)"
proof -
  have "10 powi dec_exp x \<le> x \<and> x < 10 powi (dec_exp x + 1)"
  proof (cases "1 \<le> x")
    case True
    define n where "n = nat \<lfloor>x\<rfloor>"
    have n: "0 < n" "of_nat n \<le> x" "x < of_nat n + 1"
      using True n_def by (auto simp: le_floor_iff of_nat_nat) linarith+
    have fl: "10 ^ (floorlog 10 n - 1) \<le> n" "n < 10 ^ floorlog 10 n" "0 < floorlog 10 n"
      using floorlog_bounds [of n 10] n(1) by (auto simp: floorlog_def)
    have e: "dec_exp x = int (floorlog 10 n - 1)" "dec_exp x + 1 = int (floorlog 10 n)"
      using True fl(3) by (auto simp: dec_exp_def n_def)
    have "(10::rat) ^ (floorlog 10 n - 1) \<le> of_nat n"
      using fl(1) by (metis of_nat_le_iff of_nat_numeral of_nat_power)
    moreover have "of_nat n + 1 \<le> (10::rat) ^ floorlog 10 n"
    proof -
      have "n + 1 \<le> 10 ^ floorlog 10 n" using fl(2) by simp
      then have "(of_nat (n + 1) :: rat) \<le> of_nat (10 ^ floorlog 10 n)" by (simp only: of_nat_le_iff)
      then show ?thesis by simp
    qed
    ultimately have "10 powi int (floorlog 10 n - 1) \<le> x" "x < 10 powi int (floorlog 10 n)"
      using n by (simp_all only: power_int_of_nat)
    then show ?thesis using e by simp
  next
    case False
    define y where "y = 1 / x"
    define m where "m = nat (\<lceil>y\<rceil> - 1)"
    have y: "1 < y" using False assms by (simp add: y_def)
    have c: "2 \<le> \<lceil>y\<rceil>" using y by (simp add: le_ceiling_iff)
    have m: "0 < m" "of_nat m < y" "y \<le> of_nat m + 1"
      using c unfolding m_def by (auto simp: of_nat_nat less_ceiling_iff) linarith+
    have fl: "10 ^ (floorlog 10 m - 1) \<le> m" "m < 10 ^ floorlog 10 m" "0 < floorlog 10 m"
      using floorlog_bounds [of m 10] m(1) by (auto simp: floorlog_def)
    have e: "dec_exp x = - int (floorlog 10 m)" "dec_exp x + 1 = - int (floorlog 10 m - 1)"
      using False fl(3) by (auto simp: dec_exp_def m_def y_def)
    have lo: "(10::rat) ^ (floorlog 10 m - 1) < y"
      using fl(1) m(2) by (metis le_less_trans of_nat_le_iff of_nat_numeral of_nat_power)
    have hi: "y \<le> (10::rat) ^ floorlog 10 m"
    proof -
      have "m + 1 \<le> 10 ^ floorlog 10 m" using fl(2) by simp
      then have "(of_nat (m + 1) :: rat) \<le> of_nat (10 ^ floorlog 10 m)" by (simp only: of_nat_le_iff)
      then show ?thesis using m(3) by simp
    qed
    have x: "x = 1 / y" by (simp add: y_def)
    have "1 / (10::rat) ^ floorlog 10 m \<le> x"
      unfolding x using hi y by (intro divide_left_mono) auto
    moreover have "x < 1 / (10::rat) ^ (floorlog 10 m - 1)"
      unfolding x using lo y by (intro divide_strict_left_mono) auto
    ultimately show ?thesis
      unfolding e(2) unfolding e(1)
      by (simp only: power_int_minus power_int_of_nat inverse_eq_divide simp_thms)
  qed
  then show "10 powi dec_exp x \<le> x" "x < 10 powi (dec_exp x + 1)" by auto
qed

lemma ctx28_near: "\<bar>ctx28 x - x\<bar> \<le> \<bar>x\<bar> / (2 * 10 ^ 27)"
proof (cases "x = 0")
  case True
  then show ?thesis by (simp add: ctx28_def)
next
  case False
  define e where "e = dec_exp \<bar>x\<bar>"
  define p where "p = (10::rat) powi (27 - e)"
  have p: "0 < p" by (simp add: p_def)
  have "\<bar>ctx28 x - x\<bar> = \<bar>of_int (round_half_even (x * p)) - x * p\<bar> / p"
    using False scaled_error [OF p] by (simp add: ctx28_def Let_def e_def [symmetric] p_def [symmetric])
  also have "\<dots> \<le> (1/2) / p"
    by (rule divide_right_mono [OF round_half_even_near]) (use p in simp)
  also have "\<dots> \<le> \<bar>x\<bar> / (2 * 10 ^ 27)"
  proof -
    have "10 powi e \<le> \<bar>x\<bar>" using dec_exp_bounds(1) [of "\<bar>x\<bar>"] False by (simp add: e_def)
    moreover have "p * 10 powi e = 10 ^ 27"
      by (simp add: p_def flip: power_int_add)
    ultimately have "10 ^ 27 \<le> p * \<bar>x\<bar>" using p by (metis mult_left_mono order_less_imp_le)
    then have "1 / p \<le> \<bar>x\<bar> / 10 ^ 27" using p
      by (simp add: pos_divide_le_eq pos_le_divide_eq mult.commute)
    then show ?thesis by simp
  qed
  finally show ?thesis .
qed

lemma ctx28_0 [simp]: "ctx28 0 = 0"
  by (simp add: ctx28_def)

lemma ctx28_minus: "ctx28 (- x) = - ctx28 x"
  by (simp add: ctx28_def Let_def round_half_even_minus)

lemma ctx28_ge_half: "0 \<le> x \<Longrightarrow> x / 2 \<le> ctx28 x"
proof -
  assume x: "0 \<le> x"
  have "x - ctx28 x \<le> \<bar>ctx28 x - x\<bar>" by (simp add: abs_if)
  also have "\<dots> \<le> x / (2 * 10 ^ 27)" using ctx28_near [of x] x by (simp only: abs_of_nonneg)
  also have "\<dots> \<le> x / 2" using x by (intro divide_left_mono) simp_all
  finally show ?thesis by simp
qed

lemma ctx28_nonneg: "0 \<le> x \<Longrightarrow> 0 \<le> ctx28 x"
  using ctx28_ge_half [of x] by linarith

lemma ctx28_pos: "0 < x \<Longrightarrow> 0 < ctx28 x"
  using ctx28_ge_half [of x] by linarith

lemma ddiv_nonneg: "0 \<le> a \<Longrightarrow> 0 \<le> b \<Longrightarrow> 0 \<le> ddiv a b"
  by (simp add: ddiv_def ctx28_nonneg)

lemma dmul_nonneg: "0 \<le> a \<Longrightarrow> 0 \<le> b \<Longrightarrow> 0 \<le> dmul a b"
  by (simp add: dmul_def ctx28_nonneg)

text \<open>Rounding to 28 digits is monotone on non-negative numbers.\<close>

lemma round_half_even_of_int: "round_half_even (of_int n) = n"
  by (simp add: round_half_even_def Let_def)

lemma ctx28_decade:
  assumes "0 < x"
  shows "10 powi dec_exp x \<le> ctx28 x" and "ctx28 x \<le> 10 powi (dec_exp x + 1)"
proof -
  define p where "p = (10::rat) powi (27 - dec_exp x)"
  have p: "0 < p" by (simp add: p_def)
  have c: "ctx28 x = of_int (round_half_even (x * p)) / p"
    using assms by (simp add: ctx28_def p_def Let_def)
  have p27: "p * 10 powi dec_exp x = 10 ^ 27" "p * 10 powi (dec_exp x + 1) = 10 ^ 28"
    by (simp_all add: p_def flip: power_int_add)
  have "p * 10 powi dec_exp x \<le> p * x" "p * x \<le> p * 10 powi (dec_exp x + 1)"
    using dec_exp_bounds [OF assms] p by simp_all
  then have "of_int (10 ^ 27) \<le> x * p" "x * p \<le> of_int (10 ^ 28)"
    unfolding p27 by (simp_all add: mult.commute)
  then have r: "10 ^ 27 \<le> round_half_even (x * p)" "round_half_even (x * p) \<le> 10 ^ 28"
    using round_half_even_mono [of "of_int (10 ^ 27)" "x * p"]
      round_half_even_mono [of "x * p" "of_int (10 ^ 28)"] unfolding round_half_even_of_int by blast+
  have "(10::rat) ^ 27 \<le> of_int (round_half_even (x * p))" "of_int (round_half_even (x * p)) \<le> (10::rat) ^ 28"
    using r by (metis of_int_le_iff of_int_numeral of_int_power)+
  then show "10 powi dec_exp x \<le> ctx28 x" "ctx28 x \<le> 10 powi (dec_exp x + 1)"
    unfolding c p27 [symmetric] using p by (simp_all add: pos_le_divide_eq pos_divide_le_eq mult.commute)
qed

lemma ctx28_mono:
  assumes "0 \<le> x" and le: "x \<le> y"
  shows "ctx28 x \<le> ctx28 y"
proof (cases "x = 0")
  case True
  then show ?thesis using le by (simp add: ctx28_nonneg)
next
  case False
  then have x: "0 < x" and y: "0 < y" using assms by auto
  show ?thesis
  proof (cases "dec_exp x = dec_exp y")
    case True
    have "round_half_even (x * 10 powi (27 - dec_exp y)) \<le> round_half_even (y * 10 powi (27 - dec_exp y))"
      using le by (intro round_half_even_mono) simp
    then show ?thesis using x y True by (simp add: ctx28_def Let_def divide_right_mono)
  next
    case False
    have "dec_exp x \<le> dec_exp y"
    proof (rule ccontr)
      assume "\<not> dec_exp x \<le> dec_exp y"
      then have "(10::rat) powi (dec_exp y + 1) \<le> 10 powi dec_exp x" by (intro power_int_increasing) auto
      then show False using dec_exp_bounds(2) [OF y] dec_exp_bounds(1) [OF x] le by linarith
    qed
    then have "(10::rat) powi (dec_exp x + 1) \<le> 10 powi dec_exp y"
      using False by (intro power_int_increasing) auto
    then show ?thesis using ctx28_decade(2) [OF x] ctx28_decade(1) [OF y] by linarith
  qed
qed

text \<open>Amounts in paise of an ordinary size pass the context unchanged.\<close>

lemma ctx28_paise:
  assumes "q2 x = x" and "\<bar>x\<bar> < 10 ^ 20"
  shows "ctx28 x = x"
proof (cases "x = 0")
  case False
  define s where "s = 27 - dec_exp \<bar>x\<bar>"
  have x: "0 < \<bar>x\<bar>" using False by simp
  have "dec_exp \<bar>x\<bar> < 20"
  proof (rule ccontr)
    assume "\<not> dec_exp \<bar>x\<bar> < 20"
    then have "(10::rat) powi 20 \<le> 10 powi dec_exp \<bar>x\<bar>" by (intro power_int_increasing) auto
    then show False using dec_exp_bounds(1) [OF x] assms(2) by simp
  qed
  then have "0 \<le> s - 2" by (simp add: s_def)
  then obtain m where "s - 2 = int m" by (rule nonneg_int_cases)
  then obtain n where n: "s = int (n + 2)" by (metis diff_add_cancel of_nat_add of_nat_numeral)
  obtain k where k: "x = of_int k * (1/100)" using paisa.on_grid [of x] assms(1) by auto
  have pw: "(10::rat) powi s = 10 ^ n * 100" unfolding n power_int_of_nat by (simp add: power_add)
  have "x * 10 powi s = of_int (k * 10 ^ n)" by (simp add: k pw)
  then have "ctx28 x = of_int (k * 10 ^ n) / 10 powi s"
    unfolding ctx28_def Let_def s_def [symmetric] using False by (simp only: round_half_even_of_int if_False)
  also have "\<dots> = x" by (simp add: k pw)
  finally show ?thesis .
qed simp

lemma ddiv_mono: "0 \<le> a \<Longrightarrow> a \<le> b \<Longrightarrow> 0 < c \<Longrightarrow> ddiv a c \<le> ddiv b c"
  unfolding ddiv_def by (intro ctx28_mono) (auto intro: divide_right_mono)

lemma dmul_mono: "0 \<le> a \<Longrightarrow> a \<le> b \<Longrightarrow> 0 \<le> c \<Longrightarrow> dmul a c \<le> dmul b c"
  unfolding dmul_def by (intro ctx28_mono) (auto intro: mult_right_mono)

text \<open>Evaluation of closed instances by the simplifier.\<close>

lemma floor_rat_numeral [simp]:
  "\<lfloor>numeral a / numeral b :: rat\<rfloor> = numeral a div numeral b"
  "\<lfloor>- (numeral a / numeral b) :: rat\<rfloor> = - numeral a div numeral b"
  "\<lfloor>1 / numeral b :: rat\<rfloor> = 1 div numeral b"
  "\<lfloor>- (1 / numeral b) :: rat\<rfloor> = - 1 div numeral b"
  using floor_divide_of_int_eq [where 'a = rat, of "numeral a" "numeral b"]
    floor_divide_of_int_eq [where 'a = rat, of "- numeral a" "numeral b"]
    floor_divide_of_int_eq [where 'a = rat, of 1 "numeral b"]
    floor_divide_of_int_eq [where 'a = rat, of "- 1" "numeral b"]
  by simp_all

lemmas q_eval = q2_def q_rupee_def quantize_up_def quantize_even_def round_half_up_def
  round_half_even_def Let_def

end
