(* ===== verification/Discount_Alloc.thy ===== *)
theory Discount_Alloc
  imports Py_Decimal
begin

text \<open>
  The allocation of a document-level BEFORE_TAX discount over the line taxables, inside
  \<open>compute_document_totals\<close> of \<open>core/services/tax_engine/india.py\<close>: a proportional first pass,
  clamped to each line, and a loop that spreads what rounding left over.  The loop's guard
  (\<open>len(adjusted) + 2\<close> rounds) is the fuel of \<open>spread\<close>; \<open>spread_exhausts\<close> shows that the
  guard is never what stops it.
\<close>

section \<open>The code\<close>

text \<open>First pass: the share of each line, at most the line itself.\<close>

definition share_of :: "rat \<Rightarrow> rat \<Rightarrow> rat \<Rightarrow> rat" where
  "share_of taxable_sum remaining t = min (q2 (dmul (ddiv t taxable_sum) remaining)) t"

text \<open>One round that takes up to \<open>per\<close> from every line with headroom.\<close>

fun give :: "rat \<Rightarrow> rat list \<Rightarrow> rat \<Rightarrow> rat list \<times> rat" where
  "give per [] residual = ([], residual)"
| "give per (a # as) residual =
    (if 0 < a then
       let t = min (min per a) residual;
           (as', r') = give per as (q2 (residual - t)) in (q2 (a - t) # as', r')
     else let (as', r') = give per as residual in (a # as', r'))"

text \<open>The last round: one paisa from each line with headroom until nothing is left.\<close>

fun give_paise :: "rat list \<Rightarrow> rat \<Rightarrow> rat list \<times> rat" where
  "give_paise [] residual = ([], residual)"
| "give_paise (a # as) residual =
    (if 0 < a \<and> 0 < residual then
       let t = min (min (1/100) a) residual;
           (as', r') = give_paise as (q2 (residual - t)) in (q2 (a - t) # as', r')
     else let (as', r') = give_paise as residual in (a # as', r'))"

definition heads :: "rat list \<Rightarrow> nat" where
  "heads adj = length (filter (\<lambda>a. 0 < a) adj)"

fun spread :: "nat \<Rightarrow> rat list \<Rightarrow> rat \<Rightarrow> rat list \<times> rat" where
  "spread 0 adj residual = (adj, residual)"
| "spread (Suc guard) adj residual =
    (if 0 < residual then
       (if heads adj = 0 then (adj, residual)
        else let per = q2 (ddiv residual (of_nat (heads adj))) in
          if per \<le> 0 then give_paise adj residual
          else let (adj', r') = give per adj residual in spread guard adj' r')
     else (adj, residual))"

definition allocate_discount :: "rat list \<Rightarrow> rat \<Rightarrow> rat list" where
  "allocate_discount taxables inv_discount =
    (let taxable_sum = sum_list taxables in
     if 0 < taxable_sum then
       (let remaining = min inv_discount taxable_sum;
            shares = map (share_of taxable_sum remaining) taxables;
            adjusted = map (\<lambda>t. q2 (t - share_of taxable_sum remaining t)) taxables;
            residual = q2 (remaining - sum_list shares)
        in fst (spread (length adjusted + 2) adjusted residual))
     else map (\<lambda>_. 0) taxables)"

section \<open>Amounts on the paisa grid\<close>

definition money_ok :: "rat \<Rightarrow> bool" where
  "money_ok x = (q2 x = x \<and> 0 \<le> x)"

lemma money_ok_q2 [simp]: "0 \<le> x \<Longrightarrow> money_ok (q2 x)"
  by (simp add: money_ok_def paisa.nonneg)

lemma money_ok_diff [intro]: "money_ok x \<Longrightarrow> money_ok y \<Longrightarrow> y \<le> x \<Longrightarrow> money_ok (x - y)"
  by (simp add: money_ok_def paisa.fixed_diff)

lemma money_ok_min [intro]: "money_ok x \<Longrightarrow> money_ok y \<Longrightarrow> money_ok (min x y)"
  by (simp add: money_ok_def paisa.fixed_min)

lemma money_ok_paisa [simp]: "money_ok (1/100)"
  using paisa.fix_grid [of 1] by (simp add: money_ok_def)

lemma money_ok_zero [simp]: "money_ok 0"
  by (simp add: money_ok_def)

lemma money_ok_sum: "(\<And>x. x \<in> set xs \<Longrightarrow> money_ok x) \<Longrightarrow> money_ok (sum_list xs)"
  by (induction xs) (auto simp: money_ok_def paisa.fixed_add)

lemma money_ok_pos_paisa:
  assumes "money_ok x" and "0 < x"
  shows "1/100 \<le> x"
proof -
  obtain k where k: "x = of_int k * (1/100)" using assms paisa.on_grid by (metis money_ok_def)
  then have "1 \<le> k" using assms(2) by (cases "1 \<le> k") auto
  then have "(1::rat) \<le> of_int k" by simp
  then show ?thesis using k by simp
qed

lemma heads_Nil [simp]: "heads [] = 0"
  by (simp add: heads_def)

lemma heads_Cons [simp]: "heads (a # as) = (if 0 < a then Suc (heads as) else heads as)"
  by (simp add: heads_def)

lemma sum_pos_heads: "(\<And>x. x \<in> set adj \<Longrightarrow> money_ok x) \<Longrightarrow> 0 < sum_list adj \<Longrightarrow> 0 < heads adj"
  by (induction adj) (auto simp: money_ok_def)

section \<open>One round\<close>

lemma give_conserves:
  assumes "give per adj res = (adj', res')" and "list_all money_ok adj" and "money_ok res"
    and "money_ok per"
  shows "list_all money_ok adj' \<and> money_ok res' \<and> list_all2 (\<lambda>a' a. a' \<le> a) adj' adj
    \<and> sum_list adj - sum_list adj' = res - res'"
  using assms
proof (induction adj arbitrary: res adj' res')
  case Nil
  then show ?case by auto
next
  case (Cons a as)
  show ?case
  proof (cases "0 < a")
    case True
    define t where "t = min (min per a) res"
    obtain as' where g: "give per as (q2 (res - t)) = (as', res')" and adj': "adj' = q2 (a - t) # as'"
      using Cons.prems(1) True by (auto simp: t_def Let_def split: prod.splits)
    have a: "money_ok a" and t: "money_ok t" using Cons.prems by (auto simp: t_def)
    have le: "t \<le> a" "t \<le> res" "0 \<le> t" using t by (auto simp: t_def money_ok_def)
    have r: "money_ok (res - t)" "money_ok (a - t)" using Cons.prems(3) a t le by auto
    then have q: "q2 (res - t) = res - t" "q2 (a - t) = a - t" by (auto simp: money_ok_def)
    show ?thesis
      using Cons.IH [of "res - t" as' res'] g r Cons.prems(2,4) adj' q le by auto
  next
    case False
    then obtain as' where "give per as res = (as', res')" "adj' = a # as'"
      using Cons.prems(1) by (auto split: prod.splits)
    then show ?thesis using Cons.IH [of res as' res'] Cons.prems by auto
  qed
qed

lemma give_full:
  assumes "give per adj res = (adj', res')" and "list_all money_ok adj" and "money_ok res"
    and "money_ok per" and "0 < res'"
  shows "adj' = map (\<lambda>a. if 0 < a then a - min per a else a) adj"
  using assms
proof (induction adj arbitrary: res adj' res')
  case Nil
  then show ?case by auto
next
  case (Cons a as)
  show ?case
  proof (cases "0 < a")
    case True
    define t where "t = min (min per a) res"
    obtain as' where g: "give per as (q2 (res - t)) = (as', res')" and adj': "adj' = q2 (a - t) # as'"
      using Cons.prems(1) True by (auto simp: t_def Let_def split: prod.splits)
    have a: "money_ok a" and t: "money_ok t" using Cons.prems by (auto simp: t_def)
    have r: "money_ok (res - t)" "money_ok (a - t)" using Cons.prems(3) a t by (auto simp: t_def)
    then have q: "q2 (res - t) = res - t" "q2 (a - t) = a - t" by (auto simp: money_ok_def)
    have l: "list_all2 (\<lambda>a' a. a' \<le> a) as' as" and c: "sum_list as - sum_list as' = res - t - res'"
      using give_conserves [OF g] r(1) q Cons.prems by auto
    from l have "sum_list as' \<le> sum_list as" by (induction rule: list_all2_induct) auto
    then have "res' \<le> res - t" using c by simp
    then have "t < res" using Cons.prems(5) by simp
    then have "t = min per a" by (auto simp: t_def)
    then show ?thesis
      using Cons.IH [of "res - t" as' res'] g r Cons.prems adj' q True by auto
  next
    case False
    then obtain as' where "give per as res = (as', res')" "adj' = a # as'"
      using Cons.prems(1) by (auto split: prod.splits)
    then show ?thesis using Cons.IH [of res as' res'] Cons.prems False by auto
  qed
qed

lemma give_paise_conserves:
  assumes "give_paise adj res = (adj', res')" and "list_all money_ok adj" and "money_ok res"
  shows "list_all money_ok adj' \<and> money_ok res' \<and> list_all2 (\<lambda>a' a. a' \<le> a) adj' adj
    \<and> sum_list adj - sum_list adj' = res - res'
    \<and> (res \<le> of_nat (heads adj) / 100 \<longrightarrow> res' = 0)"
  using assms
proof (induction adj arbitrary: res adj' res')
  case Nil
  then show ?case by (auto simp: money_ok_def)
next
  case (Cons a as)
  show ?case
  proof (cases "0 < a \<and> 0 < res")
    case True
    define t where "t = min (min (1/100) a) res"
    obtain as' where g: "give_paise as (q2 (res - t)) = (as', res')"
      and adj': "adj' = q2 (a - t) # as'"
      using Cons.prems(1) True by (auto simp: t_def Let_def split: prod.splits)
    have a: "money_ok a" using Cons.prems by auto
    have t: "t = 1/100"
      using money_ok_pos_paisa [OF a] money_ok_pos_paisa [OF Cons.prems(3)] True by (auto simp: t_def)
    have mt: "money_ok t" unfolding t by (rule money_ok_paisa)
    have le: "t \<le> a" "t \<le> res" by (auto simp: t_def)
    have r: "money_ok (res - t)" "money_ok (a - t)" using Cons.prems(3) a mt le by auto
    then have q: "q2 (res - t) = res - t" "q2 (a - t) = a - t" by (auto simp: money_ok_def)
    show ?thesis
      using Cons.IH [of "res - t" as' res'] g r Cons.prems(2) adj' q le t True
      by (auto simp: add_divide_distrib)
  next
    case False
    then obtain as' where g: "give_paise as res = (as', res')" "adj' = a # as'"
      using Cons.prems(1) by (auto split: prod.splits)
    have "res \<le> of_nat (heads (a # as)) / 100 \<longrightarrow> res \<le> of_nat (heads as) / 100"
      using False Cons.prems(3) by (auto simp: money_ok_def)
    then show ?thesis using Cons.IH [of res as' res'] Cons.prems g by auto
  qed
qed

section \<open>The loop\<close>

text \<open>
  Everything a caller may rely on after the loop: the lines stay on the paisa grid, none grows,
  and what the lines lose is what the residual loses.
\<close>

definition step_ok :: "rat list \<Rightarrow> rat \<Rightarrow> rat list \<Rightarrow> rat \<Rightarrow> bool" where
  "step_ok adj res adj' res' =
    (list_all money_ok adj' \<and> money_ok res' \<and> list_all2 (\<lambda>a' a. a' \<le> a) adj' adj
      \<and> sum_list adj - sum_list adj' = res - res')"

lemma step_ok_refl: "list_all money_ok adj \<Longrightarrow> money_ok res \<Longrightarrow> step_ok adj res adj res"
  by (simp add: step_ok_def list_all2_refl)

lemma step_ok_trans:
  assumes "step_ok a r b s" and "step_ok b s c t"
  shows "step_ok a r c t"
proof -
  have "list_all2 (\<lambda>x y. x \<le> y) c a"
    by (rule list_all2_trans [where ?P1.0 = "\<lambda>x y. x \<le> y" and ?P2.0 = "\<lambda>x y. x \<le> y"])
      (use assms in \<open>auto simp: step_ok_def\<close>)
  then show ?thesis using assms by (simp add: step_ok_def)
qed

lemma per_bounds:
  assumes n: "0 < n" and r: "0 \<le> r" "r \<le> 10 ^ 20"
  defines "per \<equiv> q2 (ddiv r (of_nat n))"
  shows "money_ok per" and "r \<le> of_nat n * (per + 1/100)" and "r \<le> of_nat n / 100 \<Longrightarrow> per \<le> 1/100"
    and "per \<le> 0 \<Longrightarrow> r \<le> of_nat n / 100"
proof -
  define x where "x = r / of_nat n"
  have x: "0 \<le> x" "x \<le> 10 ^ 20"
  proof -
    show "0 \<le> x" using r n by (simp add: x_def)
    have "x \<le> r / 1" unfolding x_def using r n by (intro divide_left_mono) auto
    then show "x \<le> 10 ^ 20" using r by simp
  qed
  have near: "\<bar>ctx28 x - x\<bar> \<le> 1/1000"
  proof -
    have "\<bar>ctx28 x - x\<bar> \<le> \<bar>x\<bar> / (2 * 10 ^ 27)" by (rule ctx28_near)
    also have "\<dots> \<le> 10 ^ 20 / (2 * 10 ^ 27)" using x by (intro divide_right_mono) auto
    also have "\<dots> \<le> 1/1000" by simp
    finally show ?thesis .
  qed
  have per: "per = q2 (ctx28 x)" by (simp add: per_def ddiv_def x_def)
  have pn: "\<bar>per - ctx28 x\<bar> \<le> 1/200" using paisa.near [of "ctx28 x"] per by simp
  show ok: "money_ok per" unfolding per using x by (intro money_ok_q2 ctx28_nonneg)
  have xle: "x \<le> per + 1/100" using near pn unfolding abs_le_iff by linarith
  then have "of_nat n * x \<le> of_nat n * (per + 1/100)" using n by (intro mult_left_mono) auto
  then show le: "r \<le> of_nat n * (per + 1/100)" using n by (simp add: x_def)
  show "per \<le> 0 \<Longrightarrow> r \<le> of_nat n / 100"
  proof -
    assume "per \<le> 0"
    then have "per = 0" using ok by (simp add: money_ok_def)
    then show ?thesis using le by simp
  qed
  assume "r \<le> of_nat n / 100"
  then have "x \<le> 1/100" using n by (simp add: x_def field_simps)
  then have "per < 2/100" using near pn unfolding abs_le_iff by linarith
  show "per \<le> 1/100"
  proof (rule ccontr)
    assume "\<not> per \<le> 1/100"
    then have "1/100 \<le> per - 1/100"
      using ok by (intro money_ok_pos_paisa money_ok_diff) auto
    then show False using \<open>per < 2/100\<close> by simp
  qed
qed

lemma heads_after_full:
  assumes "list_all money_ok adj" and "0 < per"
  shows "heads (map (\<lambda>a. if 0 < a then a - min per a else a) adj) \<le> heads adj"
    and "heads (map (\<lambda>a. if 0 < a then a - min per a else a) adj) = heads adj \<Longrightarrow>
      sum_list adj - sum_list (map (\<lambda>a. if 0 < a then a - min per a else a) adj)
        = of_nat (heads adj) * per"
  using assms
proof (induction adj)
  case Nil
  { case 1 then show ?case by simp }
  { case 2 then show ?case by simp }
next
  case (Cons a as)
  { case 1 then show ?case using Cons.IH(1) by auto }
  { case 2
    then show ?case using Cons.IH Cons.IH(1)
      by (auto simp: min_def algebra_simps split: if_splits) }
qed

lemma give_paise_step: 
  assumes "give_paise adj res = (adj', res')" and "list_all money_ok adj" and "money_ok res"
    and "res \<le> of_nat (heads adj) / 100"
  shows "step_ok adj res adj' 0 \<and> res' = 0"
  using give_paise_conserves [OF assms(1-3)] assms(4) by (auto simp: step_ok_def)

lemma spread_done [simp]: "spread guard adj 0 = (adj, 0)"
  by (cases guard) auto

lemma spread_last_rounds:
  assumes ok: "list_all money_ok adj" "money_ok res" and small: "res \<le> of_nat (heads adj) / 100"
    and big: "res \<le> 10 ^ 20" and res: "0 < res"
  shows "\<exists>adj'. spread (Suc guard) adj res = (adj', 0) \<and> step_ok adj res adj' 0"
proof -
  have n: "0 < heads adj" using small res by (cases "heads adj") auto
  define per where "per = q2 (ddiv res (of_nat (heads adj)))"
  have r0: "0 \<le> res" using res by simp
  note per = per_bounds [OF n r0 big, folded per_def]
  show ?thesis
  proof (cases "per \<le> 0")
    case True
    obtain adj' res' where g: "give_paise adj res = (adj', res')" by fastforce
    have "step_ok adj res adj' 0 \<and> res' = 0" by (rule give_paise_step [OF g ok small])
    then show ?thesis using True n res g by (auto simp: per_def Let_def)
  next
    case False
    obtain adj' res' where g: "give per adj res = (adj', res')" by fastforce
    have c: "step_ok adj res adj' res'" using give_conserves [OF g ok per(1)] by (simp add: step_ok_def)
    have "res' = 0"
    proof (rule ccontr)
      assume "res' \<noteq> 0"
      then have pos: "0 < res'" using c by (simp add: step_ok_def money_ok_def)
      have p: "per = 1/100"
        using per(3) [OF small] money_ok_pos_paisa [OF per(1)] False by simp
      have adj': "adj' = map (\<lambda>a. if 0 < a then a - min per a else a) adj"
        by (rule give_full [OF g ok per(1) pos])
      have "map (\<lambda>a. if 0 < a then a - min per a else a) adj
          = map (\<lambda>a. if 0 < a then a - per else a) adj"
      proof (rule map_cong [OF refl])
        fix a assume a: "a \<in> set adj"
        have "0 < a \<Longrightarrow> per \<le> a"
          using a ok(1) money_ok_pos_paisa [of a] p by (auto simp: list_all_iff)
        then show "(if 0 < a then a - min per a else a) = (if 0 < a then a - per else a)" by auto
      qed
      moreover have "sum_list adj - sum_list (map (\<lambda>a. if 0 < a then a - per else a) adj)
          = of_nat (heads adj) * per"
        by (induction adj) (auto simp: algebra_simps)
      ultimately have "sum_list adj - sum_list adj' = of_nat (heads adj) * per"
        unfolding adj' by (simp only:)
      then have "res - res' = of_nat (heads adj) * per"
        using c by (simp only: step_ok_def simp_thms)
      then show False using small p pos by simp
    qed
    then show ?thesis using False n res g c by (auto simp: per_def Let_def)
  qed
qed

lemma spread_exhausts:
  assumes "list_all money_ok adj" "money_ok res" and "res \<le> sum_list adj" and "res \<le> 10 ^ 20"
    and "heads adj + 2 \<le> guard"
  shows "\<exists>adj'. spread guard adj res = (adj', 0) \<and> step_ok adj res adj' 0"
  using assms
proof (induction guard arbitrary: adj res)
  case 0
  then show ?case by simp
next
  case (Suc guard)
  note ok = Suc.prems(1,2)
  have r0: "0 \<le> res" using ok by (simp add: money_ok_def)
  show ?case
  proof (cases "res = 0")
    case True
    then show ?thesis using step_ok_refl [OF ok] by simp
  next
    case False
    then have res: "0 < res" using r0 by simp
    then have n: "0 < heads adj"
      using ok(1) Suc.prems(3) by (intro sum_pos_heads) (auto simp: list_all_iff)
    define per where "per = q2 (ddiv res (of_nat (heads adj)))"
    note per = per_bounds [OF n r0 Suc.prems(4), folded per_def]
    show ?thesis
    proof (cases "per \<le> 0")
      case True
      then show ?thesis using spread_last_rounds [OF ok per(4) Suc.prems(4) res] by blast
    next
      case perpos: False
      obtain adj' res' where g: "give per adj res = (adj', res')" by fastforce
      have c: "step_ok adj res adj' res'"
        using give_conserves [OF g ok per(1)] by (simp add: step_ok_def)
      have s: "spread (Suc guard) adj res = spread guard adj' res'"
        using perpos n res g by (simp add: per_def Let_def)
      have sum_le: "sum_list adj' \<le> sum_list adj"
      proof -
        have "list_all2 (\<lambda>a' a. a' \<le> a) adj' adj" using c by (simp add: step_ok_def)
        then show ?thesis by (induction rule: list_all2_induct) auto
      qed
      have ok': "list_all money_ok adj'" "money_ok res'" using c by (auto simp: step_ok_def)
      have le': "res' \<le> sum_list adj'" "res' \<le> 10 ^ 20"
        using c Suc.prems(3,4) sum_le by (auto simp: step_ok_def)
      have "\<exists>adj''. spread guard adj' res' = (adj'', 0) \<and> step_ok adj' res' adj'' 0"
      proof (cases "res' = 0")
        case True
        then show ?thesis using step_ok_refl [OF ok'] by simp
      next
        case False
        then have pos: "0 < res'" using ok' by (simp add: money_ok_def)
        have adj': "adj' = map (\<lambda>a. if 0 < a then a - min per a else a) adj"
          by (rule give_full [OF g ok per(1) pos])
        have per0: "0 < per" using perpos by simp
        show ?thesis
        proof (cases "heads adj' = heads adj")
          case True
          then have "res - res' = of_nat (heads adj) * per"
            using heads_after_full(2) [OF ok(1) per0] c unfolding adj' by (simp add: step_ok_def)
          then have "res' \<le> of_nat (heads adj') / 100"
            using per(2) True by (simp add: algebra_simps)
          moreover obtain g' where "guard = Suc g'" using Suc.prems(5) n by (cases guard) auto
          ultimately show ?thesis using spread_last_rounds [OF ok' _ le'(2) pos] by auto
        next
          case False
          then have "heads adj' < heads adj"
            using heads_after_full(1) [OF ok(1) per0] unfolding adj' by linarith
          then show ?thesis using Suc.IH [OF ok' le'] Suc.prems(5) by simp
        qed
      qed
      then show ?thesis using s c step_ok_trans by metis
    qed
  qed
qed

section \<open>The allocation as a whole\<close>

lemma share_of_bounds:
  assumes "money_ok t" and "0 < S" and "0 \<le> r"
  shows "money_ok (share_of S r t)" and "share_of S r t \<le> t"
proof -
  have "money_ok (q2 (dmul (ddiv t S) r))"
    using assms by (intro money_ok_q2 dmul_nonneg ddiv_nonneg) (auto simp: money_ok_def)
  then show "money_ok (share_of S r t)" using assms(1) unfolding share_of_def by (rule money_ok_min)
  show "share_of S r t \<le> t" by (simp add: share_of_def)
qed

lemma sum_list_pointwise_le:
  fixes xs ys :: "rat list"
  shows "list_all2 (\<lambda>x y. x \<le> y) xs ys \<Longrightarrow> sum_list xs \<le> sum_list ys"
  by (induction rule: list_all2_induct) auto

text \<open>
  C30. A BEFORE_TAX invoice discount is never lost: whatever rounding does to the proportional
  shares, the loop over the leftover ends with nothing left over, inside its guard.  The lines
  stay non-negative, on the paisa grid and never above their taxable value, and together they
  give up the larger of the discount and of the rounded shares.
\<close>

theorem discount_allocation_complete:
  assumes lines: "list_all money_ok taxables" and d: "money_ok d" and le: "d \<le> sum_list taxables"
    and pos: "0 < d" and bound: "d \<le> 10 ^ 20"
  shows "list_all money_ok (allocate_discount taxables d) \<and>
    list_all2 (\<lambda>a t. a \<le> t) (allocate_discount taxables d) taxables \<and>
    sum_list taxables - sum_list (allocate_discount taxables d)
      = max d (\<Sum>t\<leftarrow>taxables. share_of (sum_list taxables) d t)"
proof -
  define S where "S = sum_list taxables"
  define shares where "shares = map (share_of S d) taxables"
  define adjusted where "adjusted = map (\<lambda>t. q2 (t - share_of S d t)) taxables"
  define res where "res = q2 (d - sum_list shares)"
  have S: "0 < S" using pos le by (simp add: S_def)
  have sh: "money_ok (share_of S d t) \<and> share_of S d t \<le> t" if "t \<in> set taxables" for t
    using share_of_bounds [of t S d] lines that S pos by (auto simp: list_all_iff)
  have adj: "adjusted = map (\<lambda>t. t - share_of S d t) taxables"
    unfolding adjusted_def using sh lines
    by (intro map_cong) (auto simp: list_all_iff money_ok_def paisa.fixed_diff)
  have adj_ok: "list_all money_ok adjusted"
    unfolding adj using sh lines by (auto simp: list_all_iff)
  have adj_le: "list_all2 (\<lambda>a t. a \<le> t) adjusted taxables"
    unfolding adj using sh by (auto simp: list_all2_conv_all_nth money_ok_def)
  have adj_sum: "sum_list adjusted = S - sum_list shares"
    unfolding adj shares_def S_def by (simp add: sum_list_subtractf)
  have shares_ok: "money_ok (sum_list shares)"
    unfolding shares_def using sh by (intro money_ok_sum) auto
  then have res: "res = d - sum_list shares"
    using d by (simp add: res_def money_ok_def paisa.fixed_diff)
  have run: "allocate_discount taxables d = fst (spread (length adjusted + 2) adjusted res)"
    using S le by (simp add: allocate_discount_def S_def shares_def adjusted_def res_def Let_def)
  show ?thesis
  proof (cases "0 < res")
    case True
    have r: "money_ok res" using res True d shares_ok by (auto simp: money_ok_def paisa.fixed_diff)
    have "res \<le> sum_list adjusted" "res \<le> 10 ^ 20" "heads adjusted + 2 \<le> length adjusted + 2"
      using res adj_sum le bound shares_ok by (auto simp: S_def money_ok_def heads_def)
    then obtain a where a: "spread (length adjusted + 2) adjusted res = (a, 0)"
      "step_ok adjusted res a 0"
      using spread_exhausts [OF adj_ok r] by blast
    have "list_all2 (\<lambda>x y. x \<le> y) a taxables"
      by (rule list_all2_trans [where ?P1.0 = "\<lambda>x y. x \<le> y" and ?P2.0 = "\<lambda>x y. x \<le> y"])
        (use a(2) adj_le in \<open>auto simp: step_ok_def\<close>)
    moreover have "S - sum_list a = d"
      using a(2) adj_sum res by (simp add: step_ok_def)
    ultimately show ?thesis
      using a True res run by (simp add: step_ok_def S_def shares_def max_def)
  next
    case False
    then have "spread (length adjusted + 2) adjusted res = (adjusted, res)" by simp
    then show ?thesis
      using False res run adj_ok adj_le adj_sum by (simp add: S_def shares_def max_def)
  qed
qed

theorem discount_allocation_complete_witness:
  "sum_list (allocate_discount [100, 100, 100] 1) = 299"
proof -
  have "list_all money_ok [100, 100, 100]" "money_ok 1" by code_simp+
  then have "sum_list [100, 100, 100] - sum_list (allocate_discount [100, 100, 100] 1)
      = max 1 (\<Sum>t\<leftarrow>[100, 100, 100]. share_of (sum_list [100, 100, 100]) 1 t)"
    using discount_allocation_complete [of "[100, 100, 100]" 1] by simp
  moreover have "(\<Sum>t\<leftarrow>[100, 100, 100]. share_of (sum_list [100, 100, 100]) 1 t) = 99/100"
    by code_simp
  ultimately show ?thesis by simp
qed

text \<open>
  Rounding may however take more than the discount, and the loop does not give it back: a
  discount of 0.05 over three lines of 100.00 removes 0.06 of taxable value.
\<close>

theorem discount_over_allocation:
  "sum_list [100, 100, 100] - sum_list (allocate_discount [100, 100, 100] (5/100)) = 6/100"
proof -
  have share: "share_of 300 (1/20) 100 = 2/100" by code_simp
  have q: "q2 (1/20 - 6/100) = - (1/100)" "q2 (100 - 2/100) = 9998/100" by (simp_all add: q_eval)
  have "spread n adj (- (1/100)) = (adj, - (1/100))" for n adj by (cases n) auto
  then show ?thesis
    using q by (simp add: allocate_discount_def Let_def share)
qed

end
