(* ===== verification/Py_String.thy ===== *)
theory Py_String
  imports Prelude "HOL-Library.Sublist"
begin

text \<open>
  Python's \<open>str\<close> methods that the backend relies on, over ASCII text (a HOL \<open>string\<close> is a
  list of characters): \<open>strip\<close>, \<open>upper\<close>, \<open>lower\<close>, \<open>split\<close>, \<open>isdigit\<close>, decimal numerals with
  zero padding, and \<open>int\<close>.  The round trip between a number and its padded numeral is what the
  uniqueness of document numbers rests on.
\<close>

section \<open>Characters\<close>

definition ch_code :: "char \<Rightarrow> nat" where
  "ch_code c = of_char c"

definition ch_space :: "char \<Rightarrow> bool" where
  "ch_space c = (let n = ch_code c in (9 \<le> n \<and> n \<le> 13) \<or> (28 \<le> n \<and> n \<le> 32))"

definition ch_digit :: "char \<Rightarrow> bool" where
  "ch_digit c = (48 \<le> ch_code c \<and> ch_code c \<le> 57)"

definition ch_upper :: "char \<Rightarrow> bool" where
  "ch_upper c = (65 \<le> ch_code c \<and> ch_code c \<le> 90)"

definition ch_lower :: "char \<Rightarrow> bool" where
  "ch_lower c = (97 \<le> ch_code c \<and> ch_code c \<le> 122)"

definition to_upper :: "char \<Rightarrow> char" where
  "to_upper c = (if ch_lower c then char_of (ch_code c - 32) else c)"

definition to_lower :: "char \<Rightarrow> char" where
  "to_lower c = (if ch_upper c then char_of (ch_code c + 32) else c)"

section \<open>Strings\<close>

definition py_upper :: "string \<Rightarrow> string" where "py_upper s = map to_upper s"

definition py_lower :: "string \<Rightarrow> string" where "py_lower s = map to_lower s"

definition lstrip_by :: "(char \<Rightarrow> bool) \<Rightarrow> string \<Rightarrow> string" where
  "lstrip_by p s = dropWhile p s"

definition rstrip_by :: "(char \<Rightarrow> bool) \<Rightarrow> string \<Rightarrow> string" where
  "rstrip_by p s = rev (dropWhile p (rev s))"

definition py_strip :: "string \<Rightarrow> string" where
  "py_strip s = rstrip_by ch_space (lstrip_by ch_space s)"

definition py_isdigit :: "string \<Rightarrow> bool" where
  "py_isdigit s = (s \<noteq> [] \<and> list_all ch_digit s)"

text \<open>\<open>s.split()\<close>: the maximal runs of characters that are not white space.\<close>

fun split_ws :: "string \<Rightarrow> string \<Rightarrow> string list" where
  "split_ws acc [] = (if acc = [] then [] else [rev acc])"
| "split_ws acc (c # s) =
     (if ch_space c then (if acc = [] then split_ws [] s else rev acc # split_ws [] s)
      else split_ws (c # acc) s)"

definition py_split :: "string \<Rightarrow> string list" where
  "py_split s = split_ws [] s"

text \<open>\<open>s.split(sep)\<close> for one separator character: empty pieces are kept.\<close>

fun split_on :: "char \<Rightarrow> string \<Rightarrow> string list" where
  "split_on sep [] = [[]]"
| "split_on sep (c # s) =
     (if c = sep then [] # split_on sep s
      else (case split_on sep s of [] \<Rightarrow> [[c]] | p # ps \<Rightarrow> (c # p) # ps))"

fun join_with :: "string \<Rightarrow> string list \<Rightarrow> string" where
  "join_with sep [] = []"
| "join_with sep [p] = p"
| "join_with sep (p # q # ps) = p @ sep @ join_with sep (q # ps)"

definition last_n :: "nat \<Rightarrow> 'a list \<Rightarrow> 'a list" where
  "last_n n s = drop (length s - n) s"

section \<open>Numerals\<close>

definition digit_ch :: "nat \<Rightarrow> char" where
  "digit_ch d = char_of (48 + d)"

definition digit_val :: "char \<Rightarrow> nat" where
  "digit_val c = ch_code c - 48"

fun show_nat :: "nat \<Rightarrow> string" where
  "show_nat n = (if n < 10 then [digit_ch n] else show_nat (n div 10) @ [digit_ch (n mod 10)])"

declare show_nat.simps [simp del]

definition nat_of_digits :: "string \<Rightarrow> nat" where
  "nat_of_digits s = foldl (\<lambda>a c. 10 * a + digit_val c) 0 s"

text \<open>The format \<open>{n:0{p}d}\<close>: at least \<open>p\<close> digits, filled with zeros on the left.\<close>

definition pad_nat :: "nat \<Rightarrow> nat \<Rightarrow> string" where
  "pad_nat p n = (let s = show_nat n in replicate (p - length s) (digit_ch 0) @ s)"

lemma ch_code_digit: "d < 10 \<Longrightarrow> ch_code (digit_ch d) = 48 + d"
  by (simp add: ch_code_def digit_ch_def)

lemma digit_val_digit [simp]: "d < 10 \<Longrightarrow> digit_val (digit_ch d) = d"
  by (simp add: digit_val_def ch_code_digit)

lemma ch_digit_digit [simp]: "d < 10 \<Longrightarrow> ch_digit (digit_ch d)"
  by (simp add: ch_digit_def ch_code_digit)

lemma nat_of_digits_snoc [simp]:
  "nat_of_digits (s @ [c]) = 10 * nat_of_digits s + digit_val c"
  by (simp add: nat_of_digits_def)

lemma nat_of_digits_Nil [simp]: "nat_of_digits [] = 0"
  by (simp add: nat_of_digits_def)

lemma nat_of_digits_show [simp]: "nat_of_digits (show_nat n) = n"
proof (induction n rule: show_nat.induct)
  case (1 n)
  show ?case
  proof (cases "n < 10")
    case True
    then show ?thesis
      by (subst show_nat.simps) (simp add: nat_of_digits_def)
  next
    case False
    then show ?thesis using 1 by (subst show_nat.simps) simp
  qed
qed

lemma show_nat_digits: "list_all ch_digit (show_nat n)"
proof (induction n rule: show_nat.induct)
  case (1 n)
  then show ?case by (cases "n < 10") (subst show_nat.simps, simp)+
qed

lemma show_nat_nonempty [simp]: "show_nat n \<noteq> []"
  by (subst show_nat.simps) simp

lemma nat_of_digits_zeros:
  "nat_of_digits (replicate k (digit_ch 0) @ s) = nat_of_digits s"
proof -
  have "foldl (\<lambda>a c. 10 * a + digit_val c) 0 (replicate k (digit_ch 0)) = 0"
    by (induction k) auto
  then show ?thesis by (simp add: nat_of_digits_def)
qed

lemma nat_of_digits_pad [simp]: "nat_of_digits (pad_nat p n) = n"
  by (simp add: pad_nat_def Let_def nat_of_digits_zeros)

lemma pad_nat_isdigit [simp]: "py_isdigit (pad_nat p n)"
  using show_nat_digits [of n]
  by (auto simp: py_isdigit_def pad_nat_def Let_def list_all_iff)

lemma pad_nat_inject [simp]: "pad_nat p m = pad_nat p n \<longleftrightarrow> m = n"
  by (metis nat_of_digits_pad)

lemma pad_nat_length: "p \<le> length (pad_nat p n)"
  by (simp add: pad_nat_def Let_def)

section \<open>Facts about stripping and case\<close>

lemma lstrip_by_idem [simp]: "lstrip_by p (lstrip_by p s) = lstrip_by p s"
  by (simp add: lstrip_by_def dropWhile_idem)

lemma rstrip_by_append:
  "rstrip_by p (xs @ [x]) = (if p x then rstrip_by p xs else xs @ [x])"
  by (simp add: rstrip_by_def)

lemma rstrip_by_id: "s = [] \<or> \<not> p (last s) \<Longrightarrow> rstrip_by p s = s"
  by (cases s rule: rev_cases) (auto simp: rstrip_by_def)

lemma lstrip_by_id: "s = [] \<or> \<not> p (hd s) \<Longrightarrow> lstrip_by p s = s"
  by (cases s) (auto simp: lstrip_by_def)

lemma py_strip_id:
  "s = [] \<or> (\<not> ch_space (hd s) \<and> \<not> ch_space (last s)) \<Longrightarrow> py_strip s = s"
  by (auto simp: py_strip_def lstrip_by_id rstrip_by_id)

lemma ch_code_lt: "ch_code c < 256"
  by (simp add: ch_code_def)

lemma ch_code_char_of: "n < 256 \<Longrightarrow> ch_code (char_of n) = n"
  by (simp add: ch_code_def)

lemma char_of_ch_code [simp]: "char_of (ch_code c) = c"
  by (simp add: ch_code_def)

lemma to_upper_idem [simp]: "to_upper (to_upper c) = to_upper c"
  using ch_code_lt [of c]
  by (auto simp: to_upper_def ch_lower_def ch_code_char_of)

lemma py_upper_idem [simp]: "py_upper (py_upper s) = py_upper s"
  by (simp add: py_upper_def)

lemma py_upper_append: "py_upper (s @ t) = py_upper s @ py_upper t"
  by (simp add: py_upper_def)

lemma to_upper_digit: "ch_digit c \<Longrightarrow> to_upper c = c"
  by (auto simp: to_upper_def ch_lower_def ch_digit_def)

lemmas py_string_eval = ch_code_def ch_space_def ch_digit_def ch_upper_def ch_lower_def
  to_upper_def to_lower_def py_upper_def py_lower_def lstrip_by_def rstrip_by_def py_strip_def
  py_isdigit_def py_split_def last_n_def digit_ch_def digit_val_def nat_of_digits_def
  pad_nat_def

end
