(* ===== verification/Gst_State.thy ===== *)
theory Gst_State
  imports Py_String
begin

text \<open>
  Place of supply: \<open>core/services/tax_engine/india.py\<close> (\<open>extract_state_code\<close>,
  \<open>place_of_supply_known\<close>, \<open>is_intra_state\<close>) and \<open>core/services/place_of_supply.py\<close>.
  A GST state code is a two-digit string; a party's code comes from its GSTIN, or from the text
  of its state.  \<open>None\<close> arguments of the code are the empty string here (every use begins with
  \<open>or ""\<close> or tests truth).
\<close>

section \<open>Shapes of identifiers\<close>

text \<open>
  A fixed-length regular expression is a list of character classes.  \<open>re.match\<close> with \<open>$\<close> also
  accepts one trailing newline (\<open>re_match_dollar\<close>); \<open>fullmatch\<close> does not (\<open>re_full\<close>).
\<close>

definition re_full :: "(char \<Rightarrow> bool) list \<Rightarrow> string \<Rightarrow> bool" where
  "re_full ps s = list_all2 (\<lambda>p c. p c) ps s"

definition re_match_dollar :: "(char \<Rightarrow> bool) list \<Rightarrow> string \<Rightarrow> bool" where
  "re_match_dollar ps s =
     (re_full ps s \<or> (s \<noteq> [] \<and> ch_code (last s) = 10 \<and> re_full ps (butlast s)))"

definition ch_alnum_up :: "char \<Rightarrow> bool" where
  "ch_alnum_up c = (ch_digit c \<or> ch_upper c)"

definition ch_1_9 :: "char \<Rightarrow> bool" where
  "ch_1_9 c = (49 \<le> ch_code c \<and> ch_code c \<le> 57)"

definition GSTIN_SHAPE :: "(char \<Rightarrow> bool) list" where
  "GSTIN_SHAPE = replicate 2 ch_digit @ replicate 5 ch_upper @ replicate 4 ch_digit @ [ch_upper]
     @ [\<lambda>c. ch_1_9 c \<or> ch_upper c] @ [\<lambda>c. c = CHR ''Z''] @ [ch_alnum_up]"

lemma re_full_length: "re_full ps s \<Longrightarrow> length s = length ps"
  unfolding re_full_def by (simp add: list_all2_lengthD)

lemma re_full_nth: "re_full ps s \<Longrightarrow> i < length ps \<Longrightarrow> (ps ! i) (s ! i)"
  unfolding re_full_def by (simp add: list_all2_conv_all_nth)

lemma GSTIN_SHAPE_length [simp]: "length GSTIN_SHAPE = 15"
  by (simp add: GSTIN_SHAPE_def)

section \<open>State codes\<close>

definition IN_STATE_NAME_TO_CODE :: "(string \<times> string) list" where
  "IN_STATE_NAME_TO_CODE =
  [(''andaman and nicobar islands'', ''35''), (''andaman & nicobar islands'', ''35''),
   (''andhra pradesh'', ''37''), (''arunachal pradesh'', ''12''),
   (''assam'', ''18''), (''bihar'', ''10''),
   (''chandigarh'', ''04''), (''chhattisgarh'', ''22''),
   (''dadra and nagar haveli and daman and diu'', ''26''), (''dadra and nagar haveli'', ''26''),
   (''daman and diu'', ''26''), (''delhi'', ''07''),
   (''nct of delhi'', ''07''), (''goa'', ''30''),
   (''gujarat'', ''24''), (''haryana'', ''06''),
   (''himachal pradesh'', ''02''), (''jammu and kashmir'', ''01''),
   (''jammu & kashmir'', ''01''), (''jharkhand'', ''20''),
   (''karnataka'', ''29''), (''kerala'', ''32''),
   (''ladakh'', ''38''), (''lakshadweep'', ''31''),
   (''madhya pradesh'', ''23''), (''maharashtra'', ''27''),
   (''manipur'', ''14''), (''meghalaya'', ''17''),
   (''mizoram'', ''15''), (''nagaland'', ''13''),
   (''odisha'', ''21''), (''orissa'', ''21''),
   (''puducherry'', ''34''), (''pondicherry'', ''34''),
   (''punjab'', ''03''), (''rajasthan'', ''08''),
   (''sikkim'', ''11''), (''tamil nadu'', ''33''),
   (''telangana'', ''36''), (''tripura'', ''16''),
   (''uttar pradesh'', ''09''), (''uttarakhand'', ''05''),
   (''west bengal'', ''19''), (''an'', ''35''),
   (''ap'', ''37''), (''ar'', ''12''),
   (''as'', ''18''), (''br'', ''10''),
   (''ch'', ''04''), (''cg'', ''22''),
   (''ct'', ''22''), (''dn'', ''26''),
   (''dd'', ''26''), (''dl'', ''07''),
   (''ga'', ''30''), (''gj'', ''24''),
   (''hr'', ''06''), (''hp'', ''02''),
   (''jk'', ''01''), (''jh'', ''20''),
   (''ka'', ''29''), (''kl'', ''32''),
   (''la'', ''38''), (''ld'', ''31''),
   (''mp'', ''23''), (''mh'', ''27''),
   (''mn'', ''14''), (''ml'', ''17''),
   (''mz'', ''15''), (''nl'', ''13''),
   (''od'', ''21''), (''or'', ''21''),
   (''py'', ''34''), (''pb'', ''03''),
   (''rj'', ''08''), (''sk'', ''11''),
   (''tn'', ''33''), (''ts'', ''36''),
   (''tg'', ''36''), (''tr'', ''16''),
   (''up'', ''09''), (''uk'', ''05''),
   (''ua'', ''05''), (''wb'', ''19''),
   (''other territory'', ''96''), (''other country'', ''96''),
   (''foreign'', ''96''), (''export'', ''96'')]"

definition VALID_GST_STATE_CODES :: "string list" where
  "VALID_GST_STATE_CODES = map snd IN_STATE_NAME_TO_CODE @ [''96'', ''97'']"

definition extract_state_code :: "string \<Rightarrow> string option" where
  "extract_state_code value =
    (if value = [] then None
     else let trimmed = py_strip value in
       if trimmed = [] then None
       else if length trimmed = 15 \<and> re_match_dollar GSTIN_SHAPE (py_upper trimmed) then
         (let code = take 2 trimmed in
          if code \<in> set VALID_GST_STATE_CODES then Some code else None)
       else if length trimmed = 2 \<and> py_isdigit trimmed \<and> trimmed \<in> set VALID_GST_STATE_CODES then
         Some trimmed
       else let key = join_with '' '' (py_split (filter (\<lambda>c. c \<noteq> CHR ''.'') (py_lower trimmed))) in
         map_of IN_STATE_NAME_TO_CODE key)"

definition or_else :: "'a option \<Rightarrow> 'a option \<Rightarrow> 'a option" where
  "or_else x y = (case x of None \<Rightarrow> y | Some _ \<Rightarrow> x)"

definition place_of_supply_known :: "string \<Rightarrow> string \<Rightarrow> bool" where
  "place_of_supply_known party_state party_gstin =
    (if extract_state_code party_gstin \<noteq> None then True
     else if extract_state_code party_state \<noteq> None then True
     else False)"

definition is_intra_state :: "string \<Rightarrow> string \<Rightarrow> string \<Rightarrow> string \<Rightarrow> bool" where
  "is_intra_state company_state party_state company_gstin party_gstin =
    (let company_code = or_else (extract_state_code company_gstin) (extract_state_code company_state);
         party_code = or_else (extract_state_code party_gstin) (extract_state_code party_state) in
     if company_code \<noteq> None \<and> party_code \<noteq> None then company_code = party_code
     else let a = py_lower (py_strip company_state); b = py_lower (py_strip party_state) in
       if b = [] \<and> party_code = None then False
       else if a = [] \<and> company_code = None then False
       else if b = [] \<or> a = [] then False
       else a = b)"

section \<open>Place-of-supply guards\<close>

record gst_company =
  gc_state :: string
  gc_gstin :: string
  gc_assume_local :: bool  \<comment> \<open>\<open>assume_local_state_for_blank_party\<close>\<close>

definition EXPORT_SEZ_SUPPLY_TYPES :: "string list" where
  "EXPORT_SEZ_SUPPLY_TYPES = [''SEZWP'', ''SEZWOP'', ''EXPWP'', ''EXPWOP'']"

definition DEEMED_EXPORT_SUPPLY_TYPES :: "string list" where
  "DEEMED_EXPORT_SUPPLY_TYPES = [''DEXP'']"

definition EXPORT_POS_CODE :: string where "EXPORT_POS_CODE = ''96''"

definition is_export_or_sez_supply :: "string \<Rightarrow> bool" where
  "is_export_or_sez_supply supply_type =
     (py_upper (py_strip supply_type) \<in> set EXPORT_SEZ_SUPPLY_TYPES)"

definition is_deemed_export_supply :: "string \<Rightarrow> bool" where
  "is_deemed_export_supply supply_type =
     (py_upper (py_strip supply_type) \<in> set DEEMED_EXPORT_SUPPLY_TYPES)"

definition party_state_code :: "string \<Rightarrow> string \<Rightarrow> string option" where
  "party_state_code party_state party_gstin =
     or_else (extract_state_code party_gstin) (extract_state_code party_state)"

definition resolve_place_of_supply_code ::
  "string \<Rightarrow> string \<Rightarrow> string \<Rightarrow> gst_company option \<Rightarrow> string \<Rightarrow> string \<Rightarrow> bool \<Rightarrow> string option" where
  "resolve_place_of_supply_code party_state party_gstin supply_type company
      seller_gstin seller_state confirm_blank_pos =
    (if is_export_or_sez_supply supply_type then Some EXPORT_POS_CODE
     else case party_state_code party_state party_gstin of
       Some code \<Rightarrow> Some code
     | None \<Rightarrow>
        (case company of
           None \<Rightarrow> None
         | Some co \<Rightarrow>
            if gc_assume_local co \<or> confirm_blank_pos then
              or_else (extract_state_code seller_gstin)
                (or_else (extract_state_code seller_state)
                  (or_else (extract_state_code (gc_gstin co)) (extract_state_code (gc_state co))))
            else None))"

definition assert_place_of_supply_for_gst ::
  "gst_company \<Rightarrow> string \<Rightarrow> string \<Rightarrow> bool \<Rightarrow> string \<Rightarrow> bool \<Rightarrow> unit res" where
  "assert_place_of_supply_for_gst company party_state party_gstin tax_enabled supply_type confirm_blank_pos =
    (if \<not> tax_enabled then Inr ()
     else if is_export_or_sez_supply supply_type then Inr ()
     else if place_of_supply_known party_state party_gstin then Inr ()
     else if py_strip party_state = [] \<and> (gc_assume_local company \<or> confirm_blank_pos) then Inr ()
     else Inl (Business_Rule ''PLACE_OF_SUPPLY_UNRESOLVED''))"

definition nonblank_or :: "string \<Rightarrow> string \<Rightarrow> string" where
  "nonblank_or a b = (if a = [] then b else a)"

definition party_intra_state ::
  "gst_company \<Rightarrow> string \<Rightarrow> string \<Rightarrow> string \<Rightarrow> string \<Rightarrow> string \<Rightarrow> bool" where
  "party_intra_state company party_state party_gstin seller_state seller_gstin supply_type =
    (if is_export_or_sez_supply supply_type then False
     else if \<not> place_of_supply_known party_state party_gstin then gc_assume_local company
     else is_intra_state (nonblank_or seller_state (gc_state company)) party_state
            (nonblank_or seller_gstin (gc_gstin company)) party_gstin)"

section \<open>Facts\<close>

lemma or_else_simps [simp]: "or_else None y = y" "or_else (Some x) y = Some x"
  by (simp_all add: or_else_def)

lemma or_else_eq_None [simp]: "or_else x y = None \<longleftrightarrow> x = None \<and> y = None"
  by (cases x) auto

lemma or_else_exists: "(\<exists>z. or_else x y = Some z) \<longleftrightarrow> x \<noteq> None \<or> y \<noteq> None"
  by (cases x) auto

lemma extract_state_code_in_valid:
  assumes "extract_state_code value = Some c"
  shows "c \<in> set VALID_GST_STATE_CODES"
proof -
  have *: "map_of IN_STATE_NAME_TO_CODE key = Some c \<Longrightarrow> c \<in> set VALID_GST_STATE_CODES" for key
    by (auto simp: VALID_GST_STATE_CODES_def dest!: map_of_SomeD intro: rev_image_eqI)
  show ?thesis using assms
    unfolding extract_state_code_def Let_def by (auto split: if_splits intro: *)
qed

lemma valid_codes_shape: "\<forall>c\<in>set VALID_GST_STATE_CODES. length c = 2 \<and> py_isdigit c"
  by code_simp

lemma place_of_supply_known_iff:
  "place_of_supply_known ps pg \<longleftrightarrow> party_state_code ps pg \<noteq> None"
  by (auto simp: place_of_supply_known_def party_state_code_def)

lemma is_intra_state_codes:
  assumes "party_state_code cs cg = Some a" and "party_state_code ps pg = Some b"
  shows "is_intra_state cs ps cg pg \<longleftrightarrow> a = b"
  using assms by (simp add: is_intra_state_def party_state_code_def Let_def)

text \<open>Case and surrounding white space do not matter.\<close>

lemma ch_space_upper [simp]: "ch_space (to_upper c) = ch_space c"
  using ch_code_lt [of c]
  by (auto simp: ch_space_def to_upper_def ch_lower_def ch_code_char_of Let_def)

lemma ch_digit_upper [simp]: "ch_digit (to_upper c) = ch_digit c"
  using ch_code_lt [of c]
  by (auto simp: ch_digit_def to_upper_def ch_lower_def ch_code_char_of)

lemma to_lower_upper [simp]: "to_lower (to_upper c) = to_lower c"
  using ch_code_lt [of c]
  by (auto simp: to_lower_def to_upper_def ch_lower_def ch_upper_def ch_code_char_of)

lemma py_lower_upper [simp]: "py_lower (py_upper s) = py_lower s"
  by (simp add: py_lower_def py_upper_def)

lemma py_strip_upper: "py_strip (py_upper s) = py_upper (py_strip s)"
  by (simp add: py_strip_def lstrip_by_def rstrip_by_def py_upper_def dropWhile_map rev_map
      comp_def)

lemma py_isdigit_upper [simp]: "py_isdigit (py_upper s) = py_isdigit s"
  by (auto simp: py_isdigit_def py_upper_def list_all_iff)

lemma py_upper_digits: "list_all ch_digit s \<Longrightarrow> py_upper s = s"
  by (auto simp: py_upper_def list_all_iff to_upper_digit intro: map_idI)

lemma py_upper_Nil [simp]: "py_upper s = [] \<longleftrightarrow> s = []"
  by (simp add: py_upper_def)

lemma py_upper_length [simp]: "length (py_upper s) = length s"
  by (simp add: py_upper_def)

lemma gstin_shape_digits:
  assumes "re_match_dollar GSTIN_SHAPE (py_upper t)" and "length t = 15"
  shows "list_all ch_digit (take 2 t)"
proof -
  have "re_full GSTIN_SHAPE (py_upper t)"
    using assms re_full_length [of GSTIN_SHAPE "butlast (py_upper t)"]
    by (auto simp: re_match_dollar_def)
  then have "(GSTIN_SHAPE ! i) (py_upper t ! i)" if "i < 15" for i
    using re_full_nth that by simp
  then have "ch_digit (py_upper t ! 0)" "ch_digit (py_upper t ! 1)"
    by (force simp: GSTIN_SHAPE_def nth_append eval_nat_numeral)+
  then have "ch_digit (t ! 0)" "ch_digit (t ! 1)"
    using assms(2) by (simp_all add: py_upper_def)
  moreover have "take 2 t = [t ! 0, t ! 1]"
    using assms(2) by (cases t; cases "tl t") (auto simp: eval_nat_numeral)
  ultimately show ?thesis by simp
qed

lemma extract_state_code_upper: "extract_state_code (py_upper v) = extract_state_code v"
proof -
  define t where "t = py_strip v"
  have t: "py_strip (py_upper v) = py_upper t" by (simp add: t_def py_strip_upper)
  show ?thesis
  proof (cases "length t = 15 \<and> re_match_dollar GSTIN_SHAPE (py_upper t)")
    case True
    then have "take 2 (py_upper t) = take 2 t"
      using gstin_shape_digits py_upper_digits by (metis py_upper_def take_map)
    with True show ?thesis
      by (auto simp: extract_state_code_def t t_def [symmetric] Let_def)
  next
    case False
    have d: "py_isdigit t \<Longrightarrow> py_upper t = t"
      by (simp add: py_isdigit_def py_upper_digits)
    show ?thesis
      unfolding extract_state_code_def t t_def [symmetric] Let_def using False
      by (auto simp: d)
  qed
qed

lemma py_strip_spaces:
  assumes "list_all ch_space w"
  shows "py_strip (w @ v) = py_strip v" and "py_strip (v @ w) = py_strip v"
proof -
  have w: "dropWhile ch_space w = []" "dropWhile ch_space (rev w) = []"
    using assms by (auto simp: list_all_iff)
  show "py_strip (w @ v) = py_strip v"
    using assms by (simp add: py_strip_def lstrip_by_def dropWhile_append list_all_iff w)
  show "py_strip (v @ w) = py_strip v"
  proof (cases "\<forall>x\<in>set v. ch_space x")
    case True
    then have "dropWhile ch_space v = []" "dropWhile ch_space (v @ w) = []"
      using w by (auto simp: dropWhile_append)
    then show ?thesis unfolding py_strip_def lstrip_by_def by (simp only:)
  next
    case False
    then have "dropWhile ch_space (v @ w) = dropWhile ch_space v @ w" by auto
    then show ?thesis using assms
      by (simp add: py_strip_def lstrip_by_def rstrip_by_def dropWhile_append list_all_iff w)
  qed
qed

lemma extract_state_code_spaces:
  assumes "list_all ch_space w1" and "list_all ch_space w2"
  shows "extract_state_code (w1 @ v @ w2) = extract_state_code v"
proof -
  have s: "py_strip (w1 @ v @ w2) = py_strip v"
    using py_strip_spaces assms by metis
  have "py_strip [] = []" by (simp add: py_strip_id)
  then show ?thesis
    unfolding extract_state_code_def s Let_def by (auto simp: s [symmetric])
qed

section \<open>Properties\<close>

text \<open>
  Every state code that \<open>extract_state_code\<close> returns is a two-digit code of the GST table,
  and the answer depends neither on letter case nor on surrounding white space.
\<close>

theorem state_code_canonical:
  assumes "list_all ch_space w1" and "list_all ch_space w2"
  shows "extract_state_code (w1 @ py_upper v @ w2) = extract_state_code v
    \<and> (case extract_state_code v of None \<Rightarrow> True
       | Some c \<Rightarrow> c \<in> set VALID_GST_STATE_CODES \<and> length c = 2 \<and> py_isdigit c)"
  using assms valid_codes_shape extract_state_code_in_valid [of v]
  by (auto simp: extract_state_code_spaces extract_state_code_upper split: option.split)

theorem state_code_canonical_witness:
  "extract_state_code ('' '' @ py_upper ''Tamil  Nadu'' @ '' '') = Some ''33''"
proof -
  have "extract_state_code ''Tamil  Nadu'' = Some ''33''" by code_simp
  then show ?thesis
    using state_code_canonical [of "'' ''" "'' ''" "''Tamil  Nadu''"]
    by (simp add: ch_space_def ch_code_def)
qed

text \<open>
  The intra-state decision that picks CGST+SGST or IGST agrees with the place of supply
  that is filed: for a party whose state is known, a supply is intra-state exactly when the
  filed place-of-supply code is the seller's own state code; an export or SEZ supply is never
  intra-state and is filed under code 96.
\<close>

theorem intra_state_agrees_with_place_of_supply:
  assumes known: "place_of_supply_known ps pg"
    and seller: "party_state_code (nonblank_or ss (gc_state co)) (nonblank_or sg (gc_gstin co)) = Some sc"
    and sc: "sc \<noteq> EXPORT_POS_CODE"
  shows "party_intra_state co ps pg ss sg st \<longleftrightarrow>
    resolve_place_of_supply_code ps pg st (Some co) sg ss cb = Some sc"
proof (cases "is_export_or_sez_supply st")
  case True
  then show ?thesis using sc by (simp add: party_intra_state_def resolve_place_of_supply_code_def)
next
  case False
  obtain pc where pc: "party_state_code ps pg = Some pc"
    using known place_of_supply_known_iff by auto
  show ?thesis
    using False known is_intra_state_codes [OF seller pc]
    by (auto simp: party_intra_state_def resolve_place_of_supply_code_def pc)
qed

theorem intra_state_agrees_with_place_of_supply_witness:
  "party_intra_state \<lparr>gc_state = ''Karnataka'', gc_gstin = [], gc_assume_local = False\<rparr>
     ''KA'' [] [] [] []
   \<longleftrightarrow> resolve_place_of_supply_code ''KA'' [] []
        (Some \<lparr>gc_state = ''Karnataka'', gc_gstin = [], gc_assume_local = False\<rparr>) [] [] False
       = Some ''29''"
proof -
  have 1: "place_of_supply_known ''KA'' []" by code_simp
  have 2: "party_state_code ''Karnataka'' [] = Some ''29''" by code_simp
  have 3: "(''29'' :: string) \<noteq> EXPORT_POS_CODE" by code_simp
  show ?thesis
    by (rule intra_state_agrees_with_place_of_supply [OF 1 _ 3]) (simp add: nonblank_or_def 2)
qed

text \<open>
  What the guard promises: when it lets a taxed supply through, a place of supply is
  resolvable, provided the seller's own state is known.
\<close>

theorem place_of_supply_guard_sound:
  assumes "assert_place_of_supply_for_gst co ps pg True st cb = Inr ()"
    and "extract_state_code (gc_state co) \<noteq> None"
  shows "resolve_place_of_supply_code ps pg st (Some co) sg ss cb \<noteq> None"
  using assms
  by (auto simp: assert_place_of_supply_for_gst_def resolve_place_of_supply_code_def
      place_of_supply_known_iff or_else_exists split: if_splits option.splits)

theorem place_of_supply_guard_sound_witness:
  "resolve_place_of_supply_code [] [] []
     (Some \<lparr>gc_state = ''Goa'', gc_gstin = [], gc_assume_local = False\<rparr>) [] [] True \<noteq> None"
  by (rule place_of_supply_guard_sound) code_simp+

text \<open>
  A blank party state that the user confirmed (\<open>confirm_blank_pos\<close>, ``Confirm this sale is
  intra-state'') is filed under the seller's own state but taxed as an inter-state supply,
  unless the company-wide assumption is switched on: \<open>party_intra_state\<close> never sees the
  confirmation.
\<close>

theorem confirmed_blank_supply_is_taxed_inter_state:
  assumes "party_state_code ps pg = None" and "\<not> is_export_or_sez_supply st"
    and "\<not> gc_assume_local co" and "extract_state_code sg = Some sc"
  shows "resolve_place_of_supply_code ps pg st (Some co) sg ss True = Some sc
    \<and> \<not> party_intra_state co ps pg ss sg st"
  using assms
  by (simp_all add: resolve_place_of_supply_code_def party_intra_state_def place_of_supply_known_iff)

theorem confirmed_blank_supply_is_taxed_inter_state_witness:
  "resolve_place_of_supply_code [] [] []
      (Some \<lparr>gc_state = ''Goa'', gc_gstin = [], gc_assume_local = False\<rparr>) ''30'' [] True = Some ''30''
   \<and> \<not> party_intra_state \<lparr>gc_state = ''Goa'', gc_gstin = [], gc_assume_local = False\<rparr> [] [] [] ''30'' []"
proof -
  let ?co = "\<lparr>gc_state = ''Goa'', gc_gstin = [], gc_assume_local = False\<rparr> :: gst_company"
  have h: "party_state_code [] [] = None" "\<not> is_export_or_sez_supply []"
    "\<not> gc_assume_local ?co" "extract_state_code ''30'' = Some ''30''"
    by code_simp+
  show ?thesis
    by (rule confirmed_blank_supply_is_taxed_inter_state [OF h])
qed

end
