(* ===== verification/Py_Date.thy ===== *)
theory Py_Date
  imports Prelude
begin

text \<open>
  \<open>datetime.date\<close>: the proleptic Gregorian calendar, its order, the month ends of
  \<open>calendar.monthrange\<close> and addition of a number of days (\<open>timedelta\<close>).
\<close>

datatype date = Date (d_year: int) (d_month: int) (d_day: int)

instantiation date :: linorder
begin

definition less_eq_date :: "date \<Rightarrow> date \<Rightarrow> bool" where
  "less_eq_date a b =
    (d_year a < d_year b \<or> (d_year a = d_year b \<and>
      (d_month a < d_month b \<or> (d_month a = d_month b \<and> d_day a \<le> d_day b))))"

definition less_date :: "date \<Rightarrow> date \<Rightarrow> bool" where
  "less_date a b = (a \<le> b \<and> \<not> b \<le> a)"

instance
proof
  fix x y z :: date
  show "(x < y) = (x \<le> y \<and> \<not> y \<le> x)" by (simp add: less_date_def)
  show "x \<le> x" by (simp add: less_eq_date_def)
  show "x \<le> y \<Longrightarrow> y \<le> z \<Longrightarrow> x \<le> z" by (auto simp: less_eq_date_def)
  show "x \<le> y \<Longrightarrow> y \<le> x \<Longrightarrow> x = y" by (cases x; cases y) (auto simp: less_eq_date_def)
  show "x \<le> y \<or> y \<le> x" by (auto simp: less_eq_date_def)
qed

end

definition is_leap :: "int \<Rightarrow> bool" where
  "is_leap y = (y mod 4 = 0 \<and> (y mod 100 \<noteq> 0 \<or> y mod 400 = 0))"

definition days_in_month :: "int \<Rightarrow> int \<Rightarrow> int" where
  "days_in_month y m =
    (if m = 2 then (if is_leap y then 29 else 28)
     else if m = 4 \<or> m = 6 \<or> m = 9 \<or> m = 11 then 30 else 31)"

definition valid_date :: "date \<Rightarrow> bool" where
  "valid_date d = (1 \<le> d_month d \<and> d_month d \<le> 12 \<and> 1 \<le> d_day d
     \<and> d_day d \<le> days_in_month (d_year d) (d_month d))"

definition next_day :: "date \<Rightarrow> date" where
  "next_day d =
    (if d_day d < days_in_month (d_year d) (d_month d)
     then Date (d_year d) (d_month d) (d_day d + 1)
     else if d_month d < 12 then Date (d_year d) (d_month d + 1) 1
     else Date (d_year d + 1) 1 1)"

definition prev_day :: "date \<Rightarrow> date" where
  "prev_day d =
    (if 1 < d_day d then Date (d_year d) (d_month d) (d_day d - 1)
     else if 1 < d_month d
       then Date (d_year d) (d_month d - 1) (days_in_month (d_year d) (d_month d - 1))
     else Date (d_year d - 1) 12 31)"

definition add_days :: "nat \<Rightarrow> date \<Rightarrow> date" where
  "add_days n d = (next_day ^^ n) d"

definition sub_days :: "nat \<Rightarrow> date \<Rightarrow> date" where
  "sub_days n d = (prev_day ^^ n) d"

definition month_end :: "date \<Rightarrow> date" where
  "month_end d = Date (d_year d) (d_month d) (days_in_month (d_year d) (d_month d))"

lemma days_in_month_bounds: "28 \<le> days_in_month y m" "days_in_month y m \<le> 31"
  by (auto simp: days_in_month_def)

lemma days_in_month_pos [simp]: "1 \<le> days_in_month y m"
  using days_in_month_bounds(1) [of y m] by linarith

lemma valid_next_day [simp]: "valid_date d \<Longrightarrow> valid_date (next_day d)"
  by (auto simp: valid_date_def next_day_def)

lemma days_december: "days_in_month y 12 = 31"
  by (simp add: days_in_month_def)

lemma valid_prev_day [simp]: "valid_date d \<Longrightarrow> valid_date (prev_day d)"
  by (auto simp: valid_date_def prev_day_def days_december)

lemma prev_next_day: "valid_date d \<Longrightarrow> prev_day (next_day d) = d"
  using days_in_month_bounds(1) [of "d_year d" "d_month d"]
  by (cases d) (auto simp: valid_date_def next_day_def prev_day_def days_december)

lemma next_prev_day: "valid_date d \<Longrightarrow> next_day (prev_day d) = d"
  by (cases d) (auto simp: valid_date_def next_day_def prev_day_def days_december)

lemma less_next_day: "valid_date d \<Longrightarrow> d < next_day d"
  by (cases d) (auto simp: valid_date_def next_day_def less_date_def less_eq_date_def)

lemma prev_day_less: "valid_date d \<Longrightarrow> prev_day d < d"
  using less_next_day [of "prev_day d"] by (simp add: next_prev_day)

lemma le_prev_day_iff:
  assumes "valid_date a" and "valid_date b"
  shows "a \<le> prev_day b \<longleftrightarrow> a < b"
  using assms days_in_month_bounds
  by (cases "d_month a = d_month b - 1"; cases a; cases b)
    (auto simp: valid_date_def prev_day_def less_date_def less_eq_date_def days_december)

lemma next_day_le_iff:
  assumes "valid_date a" and "valid_date b"
  shows "next_day a \<le> b \<longleftrightarrow> a < b"
  using le_prev_day_iff [OF assms] assms
  by (metis le_prev_day_iff less_next_day linorder_not_le next_prev_day order_le_less_trans
      prev_next_day valid_next_day valid_prev_day less_le_not_le order.trans)

lemma month_end_valid: "valid_date d \<Longrightarrow> valid_date (month_end d)"
  by (simp add: month_end_def valid_date_def)

lemma le_month_end: "valid_date d \<Longrightarrow> d \<le> month_end d"
  by (simp add: month_end_def valid_date_def less_eq_date_def)

end
