(* ===== verification/Hsn_Rates.thy ===== *)
theory Hsn_Rates
  imports Py_String Py_Date Py_Decimal "HOL-Library.List_Lexorder" "HOL-Library.Char_ord"
    "HOL-Library.Product_Lexorder"
begin

text \<open>
  The HSN rate table of \<open>masters/hsn_catalog.py\<close>: which row is in force for a code on a date
  (\<open>rate_for\<close>), and whether the table may replace the rate the user entered
  (\<open>line_gst_decision\<close>).  The rows of \<open>HsnRate\<close> are a list; the text of a notice is the
  datatype \<open>gst_notice\<close>, one constructor per wording.
\<close>

section \<open>Rows and decisions\<close>

record hsn_rate =
  hr_id :: int
  hr_hsn :: string
  hr_rate :: rat
  hr_cess :: rat
  hr_from :: date
  hr_to :: "date option"
  hr_version :: string

datatype gst_notice =
    No_Notice
  | Apparel_Price_Missing
  | Slab_Reason rat
  | Changed_By_Slab rat rat
  | Pack_Attribute_Missing
  | Changed_By_Pack rat rat
  | Changed_By_Table rat rat

record gst_decision =
  gd_apply :: bool
  gd_rate :: rat
  gd_cess :: "rat option"
  gd_version :: string
  gd_notice :: gst_notice

datatype rate_kind = Single | Ambiguous | Slab

definition hsn_digits :: "string \<Rightarrow> string" where
  "hsn_digits hsn = filter ch_digit hsn"

definition hsn_prefixes :: "string \<Rightarrow> string list" where
  "hsn_prefixes hsn =
    (let digits = hsn_digits hsn;
         out = map (\<lambda>n. take n digits) (filter (\<lambda>n. n \<le> length digits) [8, 6, 4]) in
     if digits \<noteq> [] \<and> digits \<notin> set out then out @ [digits] else out)"

definition AMBIGUOUS_PACK_RATES :: "(string \<times> (string \<times> rat) list) list" where
  "AMBIGUOUS_PACK_RATES =
    [(''1006'', [(''UNBRANDED'', 0), (''BRANDED_PREPACKED'', 5)]),
     (''1101'', [(''UNBRANDED'', 0), (''BRANDED_PREPACKED'', 5)])]"

definition APPAREL_SLAB_HSNS :: "string list" where
  "APPAREL_SLAB_HSNS = [''6104'', ''6105'', ''6108'', ''6109'', ''6110'', ''6203'', ''6204'',
     ''6205'', ''6211'']"

definition APPAREL_SLAB_FROM :: date where "APPAREL_SLAB_FROM = Date 2025 9 22"

definition APPAREL_SLAB_LIMIT :: rat where "APPAREL_SLAB_LIMIT = 2500"

definition hsn4 :: "string \<Rightarrow> string" where
  "hsn4 hsn = (let digits = hsn_digits hsn in if 4 \<le> length digits then take 4 digits else digits)"

definition hsn_rate_kind :: "string \<Rightarrow> rate_kind" where
  "hsn_rate_kind hsn =
    (let prefix = hsn4 hsn in
     if prefix \<in> set APPAREL_SLAB_HSNS then Slab
     else if map_of AMBIGUOUS_PACK_RATES prefix \<noteq> None then Ambiguous
     else Single)"

section \<open>The row in force\<close>

definition row_in_force :: "date \<Rightarrow> hsn_rate \<Rightarrow> bool" where
  "row_in_force d r = (hr_from r \<le> d \<and> (case hr_to r of None \<Rightarrow> True | Some t \<Rightarrow> d \<le> t))"

definition row_rank :: "hsn_rate \<Rightarrow> nat \<times> date \<times> string \<times> int" where
  "row_rank r = (length (hr_hsn r), hr_from r, hr_version r, hr_id r)"

definition rate_for :: "hsn_rate list \<Rightarrow> string \<Rightarrow> date option \<Rightarrow> hsn_rate option" where
  "rate_for table hsn on_date =
    (case on_date of
       None \<Rightarrow> None
     | Some d \<Rightarrow>
        let prefixes = hsn_prefixes hsn in
        if prefixes = [] then None
        else let rows = filter (\<lambda>r. hr_hsn r \<in> set prefixes \<and> row_in_force d r) table in
          if rows = [] then None
          else Some (hd (rev (sort_key row_rank rows))))"

definition line_gst_decision ::
  "hsn_rate list \<Rightarrow> string \<Rightarrow> rat \<Rightarrow> string \<Rightarrow> date option \<Rightarrow> rat option \<Rightarrow> gst_decision" where
  "line_gst_decision table hsn entered supply_form on_date unit_price =
    (let keep = (\<lambda>n. \<lparr>gd_apply = False, gd_rate = entered, gd_cess = None, gd_version = [],
                       gd_notice = n\<rparr>) in
     case hsn_rate_kind hsn of
       Slab \<Rightarrow>
        (let price_missing = (case unit_price of None \<Rightarrow> True | Some p \<Rightarrow> p \<le> 0);
             early = (case on_date of None \<Rightarrow> True | Some d \<Rightarrow> d < APPAREL_SLAB_FROM) in
         if early \<or> price_missing then
           keep (if price_missing \<and> \<not> early then Apparel_Price_Missing else No_Notice)
         else
           let rate = (if or0 unit_price \<le> APPAREL_SLAB_LIMIT then 5 else 18) in
           \<lparr>gd_apply = True, gd_rate = rate, gd_cess = Some 0,
             gd_version = ''gst2.0-apparel-2500'',
             gd_notice = (if rate \<noteq> entered then Changed_By_Slab entered rate else Slab_Reason rate)\<rparr>)
     | Ambiguous \<Rightarrow>
        (let choices = (case map_of AMBIGUOUS_PACK_RATES (hsn4 hsn) of None \<Rightarrow> [] | Some c \<Rightarrow> c) in
         case map_of choices (py_strip supply_form) of
           None \<Rightarrow> keep Pack_Attribute_Missing
         | Some chosen \<Rightarrow>
             \<lparr>gd_apply = True, gd_rate = chosen, gd_cess = Some 0, gd_version = ''pack-attribute'',
               gd_notice = (if chosen \<noteq> entered then Changed_By_Pack entered chosen else No_Notice)\<rparr>)
     | Single \<Rightarrow>
        (case rate_for table hsn on_date of
           None \<Rightarrow> keep No_Notice
         | Some r \<Rightarrow>
             \<lparr>gd_apply = True, gd_rate = hr_rate r, gd_cess = Some (hr_cess r),
               gd_version = hr_version r,
               gd_notice = (if hr_rate r \<noteq> entered then Changed_By_Table entered (hr_rate r)
                            else No_Notice)\<rparr>))"

section \<open>Facts\<close>

lemma last_sort_key_max:
  assumes "xs \<noteq> []"
  shows "hd (rev (sort_key f xs)) \<in> set xs \<and> (\<forall>x\<in>set xs. f x \<le> f (hd (rev (sort_key f xs))))"
proof -
  let ?ys = "sort_key f xs"
  have ne: "?ys \<noteq> []" using assms by (metis length_0_conv length_sort)
  then have l: "hd (rev ?ys) = last ?ys" by (simp add: hd_rev)
  have s: "sorted (map f ?ys)" by simp
  have "f x \<le> f (last ?ys)" if x: "x \<in> set ?ys" for x
  proof -
    obtain i where i: "i < length ?ys" "?ys ! i = x" using x by (metis in_set_conv_nth)
    have "map f ?ys ! i \<le> map f ?ys ! (length ?ys - 1)"
      using s i(1) by (intro sorted_nth_mono) auto
    then show ?thesis using i ne by (auto simp: last_conv_nth)
  qed
  then show ?thesis using l ne by (metis last_in_set set_sort)
qed

lemma rate_for_SomeD:
  assumes "rate_for table hsn (Some d) = Some r"
  shows "r \<in> set table" and "row_in_force d r" and "hr_hsn r \<in> set (hsn_prefixes hsn)"
    and "\<forall>r'\<in>set table. row_in_force d r' \<longrightarrow> hr_hsn r' \<in> set (hsn_prefixes hsn) \<longrightarrow>
           row_rank r' \<le> row_rank r"
proof -
  define rows where "rows = filter (\<lambda>r. hr_hsn r \<in> set (hsn_prefixes hsn) \<and> row_in_force d r) table"
  have "rows \<noteq> []" and r: "r = hd (rev (sort_key row_rank rows))"
    using assms unfolding rate_for_def rows_def Let_def by (auto split: if_splits)
  then have "r \<in> set rows" "\<forall>x\<in>set rows. row_rank x \<le> row_rank r"
    using last_sort_key_max [of rows row_rank] by auto
  then show "r \<in> set table" "row_in_force d r" "hr_hsn r \<in> set (hsn_prefixes hsn)"
    "\<forall>r'\<in>set table. row_in_force d r' \<longrightarrow> hr_hsn r' \<in> set (hsn_prefixes hsn) \<longrightarrow>
           row_rank r' \<le> row_rank r"
    by (auto simp: rows_def)
qed

lemma rate_for_NoneD:
  assumes "rate_for table hsn (Some d) = None"
  shows "\<forall>r\<in>set table. row_in_force d r \<longrightarrow> hr_hsn r \<notin> set (hsn_prefixes hsn)"
  using assms unfolding rate_for_def Let_def by (auto simp: filter_empty_conv split: if_splits)

text \<open>
  The rate table never invents a rate: \<open>rate_for\<close> answers with a row of the table that
  covers the date and whose code is a prefix of the product's code, and no other such row is
  more specific or, at equal length, took effect later; it answers nothing exactly when no row
  covers the code on that date.
\<close>

theorem rate_for_most_specific:
  "case rate_for table hsn (Some d) of
     Some r \<Rightarrow> r \<in> set table \<and> row_in_force d r \<and> hr_hsn r \<in> set (hsn_prefixes hsn) \<and>
       list_all (\<lambda>r'. row_in_force d r' \<and> hr_hsn r' \<in> set (hsn_prefixes hsn) \<longrightarrow>
         length (hr_hsn r') < length (hr_hsn r) \<or>
         (length (hr_hsn r') = length (hr_hsn r) \<and> hr_from r' \<le> hr_from r)) table
   | None \<Rightarrow> list_all (\<lambda>r. \<not> (row_in_force d r \<and> hr_hsn r \<in> set (hsn_prefixes hsn))) table"
proof (cases "rate_for table hsn (Some d)")
  case None
  then show ?thesis using rate_for_NoneD [OF None] by (auto simp: list_all_iff)
next
  case (Some r)
  have "length (hr_hsn r') < length (hr_hsn r) \<or>
      (length (hr_hsn r') = length (hr_hsn r) \<and> hr_from r' \<le> hr_from r)"
    if "row_rank r' \<le> row_rank r" for r'
    using that by (auto simp: row_rank_def less_eq_prod_def less_prod_def)
  then show ?thesis using Some rate_for_SomeD [OF Some] by (auto simp: list_all_iff)
qed

theorem rate_for_most_specific_witness:
  "rate_for [\<lparr>hr_id = 1, hr_hsn = ''3304'', hr_rate = 28, hr_cess = 0, hr_from = Date 2017 7 1,
               hr_to = Some (Date 2025 9 21), hr_version = ''a''\<rparr>,
             \<lparr>hr_id = 2, hr_hsn = ''3304'', hr_rate = 18, hr_cess = 0, hr_from = Date 2025 9 22,
               hr_to = None, hr_version = ''b''\<rparr>] ''33049910'' (Some (Date 2026 1 1)) \<noteq> None"
  (is "rate_for ?t ?h (Some ?d) \<noteq> None")
proof
  assume "rate_for ?t ?h (Some ?d) = None"
  then have "list_all (\<lambda>r. \<not> (row_in_force ?d r \<and> hr_hsn r \<in> set (hsn_prefixes ?h))) ?t"
    using rate_for_most_specific [where table = ?t and hsn = ?h and d = ?d] by (simp only: option.case)
  moreover have "\<not> list_all (\<lambda>r. \<not> (row_in_force ?d r \<and> hr_hsn r \<in> set (hsn_prefixes ?h))) ?t"
    by code_simp
  ultimately show False by simp
qed

text \<open>
  The table is never silent: when \<open>line_gst_decision\<close> is applied and changes the entered
  rate it carries a notice of the change, and when it is not applied the entered rate stands.
  From 22 September 2025 a priced garment is taxed at 5% up to 2,500 per piece and at 18% above.
\<close>

theorem gst_decision_never_silent:
  "(let g = line_gst_decision table hsn entered form on_date price in
      (gd_apply g \<and> gd_rate g \<noteq> entered \<longrightarrow> gd_notice g \<noteq> No_Notice) \<and>
      (\<not> gd_apply g \<longrightarrow> gd_rate g = entered \<and> gd_cess g = None) \<and>
      (hsn_rate_kind hsn = Slab \<longrightarrow> gd_apply g =
         (case (on_date, price) of (Some d, Some p) \<Rightarrow> Date 2025 9 22 \<le> d \<and> 0 < p | _ \<Rightarrow> False)) \<and>
      (hsn_rate_kind hsn = Slab \<and> gd_apply g \<longrightarrow>
         gd_rate g = (if or0 price \<le> 2500 then 5 else 18)))"
  by (cases "hsn_rate_kind hsn")
    (auto simp: line_gst_decision_def Let_def APPAREL_SLAB_FROM_def APPAREL_SLAB_LIMIT_def
      not_less not_le split: option.splits)

theorem gst_decision_never_silent_witness:
  "gd_rate (line_gst_decision [] ''6205'' 12 [] (Some (Date 2026 1 1)) (Some 2501)) = 18"
proof -
  have "hsn_rate_kind ''6205'' = Slab" by code_simp
  then show ?thesis
    using gst_decision_never_silent [where table = "[]" and hsn = "''6205''" and entered = 12
        and form = "[]" and on_date = "Some (Date 2026 1 1)" and price = "Some 2501"]
    by (simp add: Let_def less_eq_date_def)
qed

end
