(* ===== verification/Tax_Lines.thy ===== *)
theory Tax_Lines
  imports Discount_Alloc Gst_State Hsn_Rates
begin

text \<open>
  One document line in the tax engine (\<open>core/services/tax_engine/india.py\<close>): the rate that
  applies to it, the tax on it, and the conversion of a tax-inclusive price.  A line carries the
  attributes of \<open>SalesItem\<close>; the two attributes that some callers' lines lack (\<open>cess\<close>,
  \<open>applied_rate\<close>) have a presence flag, and the transient attributes (leading underscore in the
  code) are ordinary fields.  The notice that overwrites \<open>rate_override_reason\<close> is kept in
  \<open>it_notice\<close>.
\<close>

section \<open>Lines and documents\<close>

record tax_item =
  it_qty :: rat
  it_price :: rat
  it_price_incl :: "rat option"      \<comment> \<open>\<open>unit_price_inclusive\<close>\<close>
  it_disc :: rat                     \<comment> \<open>\<open>discount_percent\<close>\<close>
  it_gst :: rat
  it_cess_rate :: rat
  it_cess_amount :: rat
  it_has_cess :: bool
  it_nature :: string
  it_hsn :: string
  it_product_hsn :: string
  it_form :: string                  \<comment> \<open>\<open>product.gst_supply_form\<close>\<close>
  it_override :: bool
  it_reason :: string
  it_version :: string
  it_has_applied :: bool
  it_applied :: rat
  it_notice :: gst_notice
  it_taxable :: rat
  it_cgst :: rat
  it_sgst :: rat
  it_igst :: rat
  it_cess :: rat
  it_total :: rat
  it_bill_rate :: rat
  it_bill_gross :: rat
  it_bill_disc :: rat
  it_incl_taxable :: "rat option"
  it_incl_disc :: "rat option"

record tax_doc =
  dc_class :: string                 \<comment> \<open>\<open>document.__class__.__name__\<close>\<close>
  dc_preview :: bool                 \<comment> \<open>\<open>_preview_rateable\<close>\<close>
  dc_status :: string
  dc_tax_date :: "date option"       \<comment> \<open>\<open>_document_tax_date(document)\<close>\<close>
  dc_price_mode :: string
  dc_charges :: rat                  \<comment> \<open>\<open>additional_charges\<close>\<close>
  dc_charges_hsn :: string
  dc_charges_rate :: rat
  dc_inv_disc :: rat                 \<comment> \<open>\<open>invoice_discount\<close>\<close>
  dc_disc_mode :: string
  dc_auto_round :: bool
  dc_rcm :: bool                     \<comment> \<open>\<open>is_reverse_charge\<close>\<close>
  dc_subtotal :: rat
  dc_discount_total :: rat
  dc_taxable :: rat
  dc_cgst :: rat
  dc_sgst :: rat
  dc_igst :: rat
  dc_cess :: rat
  dc_round_off :: rat
  dc_grand :: rat
  dc_rcm_taxable :: rat
  dc_rcm_cgst :: rat
  dc_rcm_sgst :: rat
  dc_rcm_igst :: rat
  dc_rcm_cess :: rat

text \<open>A fresh line and a fresh draft, for concrete examples.\<close>

definition fresh_item :: tax_item where
  "fresh_item = \<lparr>it_qty = 1, it_price = 100, it_price_incl = None, it_disc = 0, it_gst = 18,
     it_cess_rate = 0, it_cess_amount = 0, it_has_cess = True, it_nature = [], it_hsn = [],
     it_product_hsn = [], it_form = [], it_override = False, it_reason = [], it_version = [],
     it_has_applied = True, it_applied = 0, it_notice = No_Notice, it_taxable = 0, it_cgst = 0,
     it_sgst = 0, it_igst = 0, it_cess = 0, it_total = 0, it_bill_rate = 0, it_bill_gross = 0,
     it_bill_disc = 0, it_incl_taxable = None, it_incl_disc = None\<rparr>"

definition fresh_doc :: tax_doc where
  "fresh_doc = \<lparr>dc_class = ''SalesInvoice'', dc_preview = False, dc_status = ''DRAFT'',
     dc_tax_date = None, dc_price_mode = ''EXCLUSIVE'', dc_charges = 0, dc_charges_hsn = [],
     dc_charges_rate = 0, dc_inv_disc = 0, dc_disc_mode = ''AFTER_TAX'', dc_auto_round = True,
     dc_rcm = False, dc_subtotal = 0, dc_discount_total = 0, dc_taxable = 0, dc_cgst = 0,
     dc_sgst = 0, dc_igst = 0, dc_cess = 0, dc_round_off = 0, dc_grand = 0, dc_rcm_taxable = 0,
     dc_rcm_cgst = 0, dc_rcm_sgst = 0, dc_rcm_igst = 0, dc_rcm_cess = 0\<rparr>"

section \<open>Tax on a line\<close>

definition apply_line_tax :: "tax_item \<Rightarrow> rat \<Rightarrow> rat \<Rightarrow> bool \<Rightarrow> bool \<Rightarrow> tax_item" where
  "apply_line_tax item taxable rate tax_enabled intra_state =
    (let tax = (if tax_enabled then taxable * rate / 100 else 0);
         half = q2 (tax / 2);
         i1 = (if intra_state then item\<lparr>it_cgst := half, it_sgst := half, it_igst := 0\<rparr>
               else item\<lparr>it_cgst := 0, it_sgst := 0, it_igst := q2 tax\<rparr>);
         i2 = i1\<lparr>it_taxable := taxable\<rparr> in
     if it_has_cess i2 then
       (let ad_valorem = (if it_cess_rate i2 \<noteq> 0 then q2 (taxable * it_cess_rate i2 / 100) else 0);
            specific = (if 0 < it_cess_amount i2 then q2 (it_qty i2 * it_cess_amount i2) else 0);
            i3 = i2\<lparr>it_cess := (if tax_enabled then q2 (ad_valorem + specific) else 0)\<rparr> in
        i3\<lparr>it_total := q2 (taxable + it_cgst i3 + it_sgst i3 + it_igst i3 + it_cess i3)\<rparr>)
     else i2\<lparr>it_total := q2 (taxable + it_cgst i2 + it_sgst i2 + it_igst i2)\<rparr>)"

section \<open>Tax-inclusive prices\<close>

definition extract_exclusive_from_inclusive_line ::
  "rat \<Rightarrow> rat \<Rightarrow> rat \<Rightarrow> rat \<Rightarrow> rat \<Rightarrow> rat \<Rightarrow> rat \<times> rat" where
  "extract_exclusive_from_inclusive_line quantity unit_price_inclusive discount_percent gst_rate
      cess_rate cess_amount =
    (if quantity \<le> 0 then (q2 unit_price_inclusive, 0)
     else
       let line_gross_inclusive = q2 (quantity * unit_price_inclusive);
           discount_amt = q2 (line_gross_inclusive * discount_percent / 100);
           net0 = q2 (line_gross_inclusive - discount_amt);
           specific = q2 (quantity * cess_amount);
           net_inclusive = (if 0 < specific then q2 (max 0 (net0 - specific)) else net0);
           rate = gst_rate + cess_rate;
           taxable = (if 0 < rate then q2 (ddiv (net_inclusive * 100) (100 + rate))
                      else net_inclusive)
       in (q2 (ddiv taxable quantity), taxable))"

definition apply_inclusive_item :: "tax_item \<Rightarrow> tax_item" where
  "apply_inclusive_item item =
    (let original_discount = it_disc item;
         first_save = (it_price_incl item = None \<or> it_price_incl item = Some 0);
         inclusive = (if first_save then it_price item else or0 (it_price_incl item));
         i1 = (if first_save then item\<lparr>it_price_incl := Some (q2 inclusive)\<rparr> else item);
         (exclusive_unit, taxable) = extract_exclusive_from_inclusive_line (it_qty i1) inclusive
            original_discount (it_gst i1) (it_cess_rate i1) (it_cess_amount i1);
         line_gross_inclusive = q2 (it_qty i1 * inclusive) in
     i1\<lparr>it_price := exclusive_unit, it_incl_taxable := Some taxable,
        it_incl_disc := Some (q2 (line_gross_inclusive * original_discount / 100)),
        it_disc := 0\<rparr>)"

definition apply_inclusive_prices_to_items ::
  "tax_item list \<Rightarrow> string \<Rightarrow> tax_item list \<times> rat list" where
  "apply_inclusive_prices_to_items items price_mode =
    (if (if price_mode = [] then ''EXCLUSIVE'' else price_mode) \<noteq> ''INCLUSIVE'' then (items, [])
     else (map apply_inclusive_item items, map it_disc items))"

section \<open>The rate of a line\<close>

definition RATEABLE_DOCS :: "string list" where
  "RATEABLE_DOCS = [''SalesInvoice'', ''PurchaseInvoice'', ''Quotation'', ''SalesOrder'',
     ''PurchaseOrder'']"

definition FROZEN_STATUS :: "string list" where
  "FROZEN_STATUS = [''COMPLETED'', ''RETURNED'', ''CANCELLED'']"

definition set_applied :: "rat \<Rightarrow> tax_item \<Rightarrow> tax_item" where
  "set_applied r item = (if it_has_applied item then item\<lparr>it_applied := r\<rparr> else item)"

definition apply_effective_gst_rate ::
  "hsn_rate list \<Rightarrow> tax_doc \<Rightarrow> tax_item \<Rightarrow> bool \<Rightarrow> tax_item res" where
  "apply_effective_gst_rate table document item tax_enabled =
    (if \<not> tax_enabled then Inr (set_applied 0 item)
     else if py_upper (dc_status document) \<in> set FROZEN_STATUS then
       Inr ((if it_has_applied item \<and> it_applied item = 0 then item\<lparr>it_applied := it_gst item\<rparr>
             else item)\<lparr>it_bill_rate := it_gst item\<rparr>)
     else if dc_class document \<notin> set RATEABLE_DOCS \<and> \<not> dc_preview document then
       Inr (set_applied (it_gst item) item)
     else if it_override item then
       (if py_strip (it_reason item) = [] then
          Inl (Business_Rule ''GST rate override requires a reason.'')
        else Inr (item\<lparr>it_applied := it_gst item, it_has_applied := True,
                    it_version := (if it_version item = [] then ''override'' else it_version item),
                    it_bill_rate := it_gst item\<rparr>))
     else
       let hsn = nonblank_or (it_hsn item) (it_product_hsn item);
           entered = it_gst item;
           slab_price = quantize_even 2 (it_price item * (100 - it_disc item) / 100);
           decision = line_gst_decision table hsn entered (it_form item) (dc_tax_date document)
                        (Some slab_price);
           item' =
             (if gd_apply decision then
                item\<lparr>it_gst := gd_rate decision, it_applied := gd_rate decision, it_has_applied := True,
                     it_version := gd_version decision,
                     it_cess_rate := (if or0 (gd_cess decision) \<noteq> 0 \<and> it_cess_rate item = 0
                                      then or0 (gd_cess decision) else it_cess_rate item),
                     it_bill_rate := gd_rate decision\<rparr>
              else if it_has_applied item then item\<lparr>it_applied := entered, it_bill_rate := entered\<rparr>
              else item)
       in Inr (item'\<lparr>it_notice := gd_notice decision\<rparr>))"

section \<open>The loop over the lines\<close>

text \<open>
  The body of the first loop of \<open>compute_document_totals\<close>: the line's gross, discount and
  taxable value before any invoice-level discount, and its rate.  The result is the updated line
  with its taxable value and its share of the subtotal.
\<close>

definition bill_line ::
  "hsn_rate list \<Rightarrow> tax_doc \<Rightarrow> string \<Rightarrow> bool \<Rightarrow> tax_item \<Rightarrow> (tax_item \<times> rat \<times> rat \<times> rat) res" where
  "bill_line table document price_mode tax_enabled item =
    (let gross = q2 (it_qty item * it_price item);
         inclusive = (price_mode = ''INCLUSIVE'' \<and> it_incl_taxable item \<noteq> None);
         discount = (if inclusive then q2 (or0 (it_incl_disc item))
                     else q2 (gross * it_disc item / 100));
         taxable = (if inclusive then q2 (or0 (it_incl_taxable item)) else q2 (gross - discount));
         incl_unit = or0 (it_price_incl item);
         line_subtotal = (if inclusive \<and> 0 < incl_unit then q2 (it_qty item * incl_unit) else gross);
         nature = py_upper (if it_nature item = [] then ''TAXABLE'' else it_nature item) in
     bind_res
       (if nature \<in> set [''NIL'', ''EXEMPT'', ''NON_GST''] then
          Inr (item\<lparr>it_gst := 0, it_cess_rate := 0, it_cess_amount := 0, it_bill_rate := 0\<rparr>)
        else apply_effective_gst_rate table document
               (item\<lparr>it_bill_rate := (if tax_enabled then it_gst item else 0)\<rparr>) tax_enabled)
       (\<lambda>item'. Inr (item'\<lparr>it_bill_gross := gross, it_bill_disc := discount\<rparr>,
                     taxable, line_subtotal, discount)))"

section \<open>Facts about a line\<close>

lemma apply_line_tax_fields [simp]:
  "it_taxable (apply_line_tax item t r e intra) = t"
  "it_cgst (apply_line_tax item t r e intra) =
     (if intra then q2 ((if e then t * r / 100 else 0) / 2) else 0)"
  "it_sgst (apply_line_tax item t r e intra) =
     (if intra then q2 ((if e then t * r / 100 else 0) / 2) else 0)"
  "it_igst (apply_line_tax item t r e intra) =
     (if intra then 0 else q2 (if e then t * r / 100 else 0))"
  by (simp_all add: apply_line_tax_def Let_def)

lemma apply_line_tax_keeps [simp]:
  "it_has_cess (apply_line_tax item t r e intra) = it_has_cess item"
  "it_disc (apply_line_tax item t r e intra) = it_disc item"
  "it_qty (apply_line_tax item t r e intra) = it_qty item"
  by (simp_all add: apply_line_tax_def Let_def)

definition line_cess :: "tax_item \<Rightarrow> rat" where
  "line_cess item = (if it_has_cess item then it_cess item else 0)"

lemma apply_line_tax_cess:
  "line_cess (apply_line_tax item t r e intra) =
    (if it_has_cess item \<and> e then
       (if it_cess_rate item \<noteq> 0 then q2 (t * it_cess_rate item / 100) else 0)
       + (if 0 < it_cess_amount item then q2 (it_qty item * it_cess_amount item) else 0)
     else 0)"
  by (simp add: line_cess_def apply_line_tax_def Let_def paisa.fixed_add)

lemma line_cess_money [simp]: "q2 (line_cess (apply_line_tax item t r e intra))
    = line_cess (apply_line_tax item t r e intra)"
  by (simp add: apply_line_tax_cess paisa.fixed_add)

lemma apply_line_tax_total:
  assumes "q2 t = t"
  shows "it_total (apply_line_tax item t r e intra) =
    t + it_cgst (apply_line_tax item t r e intra) + it_sgst (apply_line_tax item t r e intra)
      + it_igst (apply_line_tax item t r e intra) + line_cess (apply_line_tax item t r e intra)"
proof -
  let ?i = "apply_line_tax item t r e intra"
  have "it_total ?i = q2 (t + it_cgst ?i + it_sgst ?i + it_igst ?i + line_cess ?i)"
    by (simp add: line_cess_def apply_line_tax_def Let_def)
  also have "\<dots> = t + it_cgst ?i + it_sgst ?i + it_igst ?i + line_cess ?i"
    by (intro paisa.fixed_add assms) simp_all
  finally show ?thesis .
qed

text \<open>
  Tax on a line: CGST and SGST are equal and exclude IGST; each leg is within half a paisa of
  its exact value, so the tax is within one paisa; without tax every leg is zero; and the line
  total is the taxable value plus every leg.
\<close>

theorem line_tax_split:
  assumes "q2 t = t"
  shows "(let i = apply_line_tax item t r e intra;
              tax = (if e then t * r / 100 else 0) in
    it_cgst i = it_sgst i \<and>
    (if intra then it_igst i = 0 else it_cgst i = 0) \<and>
    \<bar>it_cgst i + it_sgst i + it_igst i - tax\<bar> \<le> 1/100 \<and>
    it_total i = t + it_cgst i + it_sgst i + it_igst i + line_cess i)"
proof -
  let ?tax = "if e then t * r / 100 else 0"
  have half: "\<bar>q2 (x / 2) + q2 (x / 2) - x\<bar> \<le> 1/100" for x
    using paisa.near [of "x / 2"] unfolding abs_le_iff by linarith
  have "\<bar>q2 (?tax / 2) + q2 (?tax / 2) - ?tax\<bar> \<le> 1/100" by (rule half)
  moreover have "\<bar>q2 ?tax - ?tax\<bar> \<le> 1/100" using paisa.near [of ?tax] by simp
  ultimately show ?thesis
    using apply_line_tax_total [OF assms, of item r e intra] by (auto simp: Let_def)
qed

theorem line_tax_split_witness:
  "it_cgst (apply_line_tax fresh_item 101 5 True True) = 253/100
   \<and> it_sgst (apply_line_tax fresh_item 101 5 True True) = 253/100"
proof -
  have "q2 101 = 101" by (simp add: q_eval)
  from line_tax_split [OF this, of fresh_item 5 True True]
  show ?thesis by (simp add: Let_def q_eval)
qed

section \<open>Facts about inclusive prices\<close>

text \<open>The discounted, tax-inclusive amount the tax is extracted from.\<close>

definition net_inclusive_of :: "rat \<Rightarrow> rat \<Rightarrow> rat \<Rightarrow> rat \<Rightarrow> rat" where
  "net_inclusive_of quantity price disc cess_amount =
    (let gross = q2 (quantity * price); net = q2 (gross - q2 (gross * disc / 100));
         specific = q2 (quantity * cess_amount)
     in if 0 < specific then q2 (max 0 (net - specific)) else net)"

lemma extract_taxable:
  assumes "0 < quantity"
  shows "snd (extract_exclusive_from_inclusive_line quantity price disc gst cr ca) =
    (if 0 < gst + cr
     then q2 (ddiv (net_inclusive_of quantity price disc ca * 100) (100 + (gst + cr)))
     else net_inclusive_of quantity price disc ca)"
  using assms
  by (simp add: extract_exclusive_from_inclusive_line_def net_inclusive_of_def Let_def)

lemma net_inclusive_nonneg:
  assumes "0 \<le> quantity" "0 \<le> price" "0 \<le> disc" "disc \<le> 100"
  shows "money_ok (net_inclusive_of quantity price disc ca)"
proof -
  let ?g = "q2 (quantity * price)"
  have g: "0 \<le> ?g" using assms by (intro paisa.nonneg) simp
  have "?g * disc / 100 \<le> ?g" using g assms(4) mult_left_mono [of disc 100 ?g] by simp
  then have "q2 (?g * disc / 100) \<le> ?g" by (rule paisa.le_fixed [OF paisa.idem])
  then have "0 \<le> q2 (?g - q2 (?g * disc / 100))" by (intro paisa.nonneg) simp
  then show ?thesis
    unfolding net_inclusive_of_def Let_def money_ok_def by (auto intro: paisa.nonneg)
qed

lemma extraction_error:
  assumes net: "money_ok net" "net \<le> 10 ^ 20" and rate: "0 < rate"
  shows "\<bar>q2 (ddiv (net * 100) (100 + rate)) * (100 + rate) / 100 - net\<bar> \<le> (100 + rate) / 10000"
    and "money_ok (q2 (ddiv (net * 100) (100 + rate)))"
proof -
  define x where "x = net * 100 / (100 + rate)"
  have n0: "0 \<le> net" using net by (simp add: money_ok_def)
  have "x \<le> net * 100 / 100" unfolding x_def using n0 rate by (intro divide_left_mono) auto
  then have x: "0 \<le> x" "x \<le> 10 ^ 20" using n0 rate net by (auto simp: x_def)
  have "\<bar>ctx28 x - x\<bar> \<le> \<bar>x\<bar> / (2 * 10 ^ 27)" by (rule ctx28_near)
  also have "\<dots> \<le> 10 ^ 20 / (2 * 10 ^ 27)" using x by (intro divide_right_mono) auto
  also have "\<dots> \<le> 1/200" by simp
  finally have c: "\<bar>ctx28 x - x\<bar> \<le> 1/200" .
  have t: "\<bar>q2 (ctx28 x) - x\<bar> \<le> 1/100"
    using c paisa.near [of "ctx28 x"] unfolding abs_le_iff by linarith
  have e: "q2 (ctx28 x) * (100 + rate) / 100 - net = (q2 (ctx28 x) - x) * ((100 + rate) / 100)"
    using rate by (simp add: x_def field_simps)
  have "\<bar>q2 (ctx28 x) * (100 + rate) / 100 - net\<bar> = \<bar>q2 (ctx28 x) - x\<bar> * ((100 + rate) / 100)"
    unfolding e abs_mult using rate by simp
  also have "\<dots> \<le> 1/100 * ((100 + rate) / 100)" using t rate by (intro mult_right_mono) auto
  finally show "\<bar>q2 (ddiv (net * 100) (100 + rate)) * (100 + rate) / 100 - net\<bar> \<le> (100 + rate) / 10000"
    by (simp add: ddiv_def x_def)
  show "money_ok (q2 (ddiv (net * 100) (100 + rate)))"
    using n0 rate by (intro money_ok_q2 ddiv_nonneg) auto
qed

text \<open>
  C39. Extracting the tax of an inclusive price: the taxable value is a non-negative amount on
  the paisa grid, and adding GST and ad-valorem cess back gives the discounted inclusive amount
  to within a paisa (scaled by the rate).
\<close>

theorem inclusive_extraction_accurate:
  assumes "0 < quantity" "0 \<le> price" "0 \<le> disc" "disc \<le> 100" "0 < gst + cr"
    and "net_inclusive_of quantity price disc ca \<le> 10 ^ 20"
  shows "(let t = snd (extract_exclusive_from_inclusive_line quantity price disc gst cr ca);
              net = net_inclusive_of quantity price disc ca in
    money_ok t \<and> \<bar>t * (100 + (gst + cr)) / 100 - net\<bar> \<le> (100 + (gst + cr)) / 10000)"
  using extraction_error [OF net_inclusive_nonneg assms(6) assms(5)] assms
  by (simp add: extract_taxable Let_def)

theorem inclusive_extraction_accurate_witness:
  "money_ok (snd (extract_exclusive_from_inclusive_line 3 118 0 18 0 0))"
proof -
  have "net_inclusive_of 3 118 0 0 = 354" by (simp add: net_inclusive_of_def q_eval)
  then show ?thesis
    using inclusive_extraction_accurate [of 3 118 0 18 0 0] by (simp add: Let_def)
qed

definition restore_line :: "tax_item \<Rightarrow> rat \<Rightarrow> tax_item" where
  "restore_line item disc = item\<lparr>it_disc := disc, it_incl_taxable := None, it_incl_disc := None\<rparr>"

lemma extract_zero:
  "extract_exclusive_from_inclusive_line q 0 d g cr ca = (0, 0)"
  by (auto simp: extract_exclusive_from_inclusive_line_def Let_def ddiv_def max_def)

text \<open>
  Saving an inclusive document again does not extract the tax twice: once the line's
  discount is restored (and the transient attributes dropped, as the end of
  \<open>compute_document_totals\<close> does), converting it again reproduces the same line.
\<close>

theorem inclusive_conversion_idempotent:
  assumes grid: "q2 (it_price item) = it_price item"
  shows "apply_inclusive_item (restore_line (apply_inclusive_item item) (it_disc item))
    = apply_inclusive_item item"
proof -
  obtain u t where ut: "extract_exclusive_from_inclusive_line (it_qty item)
      (if it_price_incl item = None \<or> it_price_incl item = Some 0 then it_price item
       else or0 (it_price_incl item)) (it_disc item) (it_gst item) (it_cess_rate item)
      (it_cess_amount item) = (u, t)" by fastforce
  consider "it_price_incl item = None \<or> it_price_incl item = Some 0" "it_price item = 0"
    | "it_price_incl item = None \<or> it_price_incl item = Some 0" "it_price item \<noteq> 0"
    | p where "it_price_incl item = Some p" "p \<noteq> 0"
    by (cases "it_price_incl item") auto
  then show ?thesis
  proof cases
    case 1
    then show ?thesis
      by (auto simp: apply_inclusive_item_def restore_line_def Let_def extract_zero grid)
  next
    case 2
    then show ?thesis using ut grid
      by (auto simp: apply_inclusive_item_def restore_line_def Let_def)
  next
    case 3
    then show ?thesis using ut
      by (auto simp: apply_inclusive_item_def restore_line_def Let_def)
  qed
qed

theorem inclusive_conversion_idempotent_witness:
  "apply_inclusive_item (restore_line (apply_inclusive_item fresh_item) 0)
    = apply_inclusive_item fresh_item"
proof -
  have "q2 (it_price fresh_item) = it_price fresh_item" by (simp add: fresh_item_def q_eval)
  from inclusive_conversion_idempotent [OF this] show ?thesis by (simp add: fresh_item_def)
qed

text \<open>
  A document's rates are frozen once it is completed, returned or cancelled: the rate
  resolution then never changes the rate, the cess or the reason of a line, whatever the table
  says; before that, an override is
  accepted only with a reason (\<open>rate_override_needs_reason\<close>).
\<close>

theorem frozen_documents_keep_rates:
  assumes "py_upper (dc_status doc) \<in> set FROZEN_STATUS"
  shows "\<exists>item'. apply_effective_gst_rate table doc item True = Inr item' \<and>
    it_gst item' = it_gst item \<and> it_cess_rate item' = it_cess_rate item \<and>
    it_notice item' = it_notice item \<and> it_bill_rate item' = it_gst item"
  using assms by (simp add: apply_effective_gst_rate_def)

theorem frozen_documents_keep_rates_witness:
  "\<exists>item'. apply_effective_gst_rate [] (fresh_doc\<lparr>dc_status := ''Completed''\<rparr>) fresh_item True
     = Inr item' \<and> it_gst item' = 18"
proof -
  have "py_upper (dc_status (fresh_doc\<lparr>dc_status := ''Completed''\<rparr>)) \<in> set FROZEN_STATUS"
    by code_simp
  from frozen_documents_keep_rates [OF this, of "[]" fresh_item]
  show ?thesis by (auto simp: fresh_item_def)
qed

lemma rate_override_needs_reason:
  assumes "it_override item" and "py_strip (it_reason item) = []"
    and "dc_class doc \<in> set RATEABLE_DOCS" and "py_upper (dc_status doc) \<notin> set FROZEN_STATUS"
  shows "apply_effective_gst_rate table doc item True
    = Inl (Business_Rule ''GST rate override requires a reason.'')"
  using assms by (simp add: apply_effective_gst_rate_def)

end
