(* ===== verification/Tax_Document.thy ===== *)
theory Tax_Document
  imports Tax_Lines
begin

text \<open>
  Document totals: \<open>compute_document_totals\<close>, \<open>apply_rcm_memo_after_tax\<close>,
  \<open>recompute_totals_for_stamped_gstin\<close> and \<open>fold_tds_from_rate\<close> of
  \<open>core/services/tax_engine/india.py\<close>, and the taxable freight line of
  \<open>core/services/charges.py\<close>.  A call returns the updated document and lines, or the
  business-rule error it raises.
\<close>

section \<open>Charges\<close>

definition charges_are_taxable :: "tax_doc \<Rightarrow> bool" where
  "charges_are_taxable document =
    (let charges = q2 (dc_charges document); rate = dc_charges_rate document;
         hsn = py_strip (dc_charges_hsn document)
     in 0 < charges \<and> 0 < rate \<and> hsn \<noteq> [])"

record charge =
  ch_hsn :: string
  ch_rate :: rat
  ch_taxable :: rat
  ch_cgst :: rat
  ch_sgst :: rat
  ch_igst :: rat
  ch_total :: rat

definition charge_line :: "tax_doc \<Rightarrow> bool \<Rightarrow> charge option" where
  "charge_line document intra_state =
    (if \<not> charges_are_taxable document then None
     else let charges = q2 (dc_charges document); rate = dc_charges_rate document;
              tax = q2 (charges * rate / 100); half = q2 (tax / 2);
              cgst = (if intra_state then half else 0); sgst = (if intra_state then half else 0);
              igst = (if intra_state then 0 else tax)
       in Some \<lparr>ch_hsn = py_strip (dc_charges_hsn document), ch_rate = rate, ch_taxable = charges,
                ch_cgst = cgst, ch_sgst = sgst, ch_igst = igst,
                ch_total = q2 (charges + cgst + sgst + igst)\<rparr>)"

section \<open>Totals\<close>

definition effective_mode :: "tax_doc \<Rightarrow> string option \<Rightarrow> string" where
  "effective_mode document invoice_discount_mode =
    (case invoice_discount_mode of
       Some m \<Rightarrow> m
     | None \<Rightarrow> (if dc_disc_mode document = [] then ''AFTER_TAX'' else dc_disc_mode document))"

definition opt_arg :: "'a \<Rightarrow> 'a option \<Rightarrow> 'a" where
  "opt_arg d x = (case x of None \<Rightarrow> d | Some v \<Rightarrow> v)"

definition tax_lines :: "bool \<Rightarrow> bool \<Rightarrow> tax_item list \<Rightarrow> rat list \<Rightarrow> tax_item list" where
  "tax_lines tax_enabled intra_state items adjusted =
    map2 (\<lambda>item t. apply_line_tax item t (it_bill_rate item) tax_enabled intra_state) items adjusted"

definition adjust_taxables :: "string \<Rightarrow> rat \<Rightarrow> rat list \<Rightarrow> rat list res" where
  "adjust_taxables mode inv_discount taxables =
    (if mode = ''BEFORE_TAX'' \<and> 0 < inv_discount \<and> taxables \<noteq> [] then
       guard_res (sum_list taxables < inv_discount)
         (Business_Rule ''Invoice discount exceeds the line taxable value.'')
         (Inr (allocate_discount taxables inv_discount))
     else Inr taxables)"

definition finish_totals ::
  "tax_doc \<Rightarrow> tax_item list \<Rightarrow> rat list \<Rightarrow> bool \<Rightarrow> bool \<Rightarrow> rat \<Rightarrow> rat \<Rightarrow> bool \<Rightarrow> string
    \<Rightarrow> rat \<Rightarrow> rat \<Rightarrow> (tax_doc \<times> tax_item list) res" where
  "finish_totals document items adjusted tax_enabled intra_state charges inv_discount do_round mode
      subtotal line_discount_total =
    (let taxed = tax_lines tax_enabled intra_state items adjusted;
         charge = (if tax_enabled then charge_line document intra_state else None);
         taxable_total = (\<Sum>i\<leftarrow>taxed. it_taxable i) + (case charge of None \<Rightarrow> 0 | Some c \<Rightarrow> ch_taxable c);
         cgst_total = (\<Sum>i\<leftarrow>taxed. it_cgst i) + (case charge of None \<Rightarrow> 0 | Some c \<Rightarrow> ch_cgst c);
         sgst_total = (\<Sum>i\<leftarrow>taxed. it_sgst i) + (case charge of None \<Rightarrow> 0 | Some c \<Rightarrow> ch_sgst c);
         igst_total = (\<Sum>i\<leftarrow>taxed. it_igst i) + (case charge of None \<Rightarrow> 0 | Some c \<Rightarrow> ch_igst c);
         cess_total = (\<Sum>i\<leftarrow>taxed. line_cess i);
         charges_in_grand = (if charge \<noteq> None then 0 else charges);
         pre_discount = taxable_total + cgst_total + sgst_total + igst_total + cess_total
                          + charges_in_grand in
     guard_res (mode \<noteq> ''BEFORE_TAX'' \<and> pre_discount < inv_discount)
       (Business_Rule ''Invoice discount exceeds the invoice value.'')
       (let raw0 = (if mode = ''BEFORE_TAX'' then pre_discount else pre_discount - inv_discount);
            raw_total = (if raw0 < 0 then 0 else raw0);
            grand_total = (if do_round then q_rupee raw_total else q2 raw_total)
        in Inr (document\<lparr>dc_charges := charges, dc_inv_disc := inv_discount, dc_disc_mode := mode,
                  dc_subtotal := q2 subtotal, dc_discount_total := q2 line_discount_total,
                  dc_taxable := q2 taxable_total, dc_cgst := q2 cgst_total,
                  dc_sgst := q2 sgst_total, dc_igst := q2 igst_total, dc_cess := q2 cess_total,
                  dc_round_off := q2 (grand_total - raw_total), dc_grand := q2 grand_total\<rparr>,
                taxed)))"

definition restore_discounts :: "tax_item list \<Rightarrow> rat list \<Rightarrow> tax_item list" where
  "restore_discounts items stashed =
    (if stashed = [] then items else map2 restore_line items stashed)"

definition compute_document_totals ::
  "hsn_rate list \<Rightarrow> tax_doc \<Rightarrow> tax_item list \<Rightarrow> bool \<Rightarrow> bool \<Rightarrow> rat option \<Rightarrow> rat option
    \<Rightarrow> bool option \<Rightarrow> string option \<Rightarrow> (tax_doc \<times> tax_item list) res" where
  "compute_document_totals table document items tax_enabled intra_state additional_charges
      invoice_discount auto_round_off invoice_discount_mode =
    (let price_mode = nonblank_or (dc_price_mode document) ''EXCLUSIVE'';
         (items1, stashed) = apply_inclusive_prices_to_items items price_mode in
     bind_res (map_res (bill_line table document price_mode tax_enabled) items1) (\<lambda>lines.
       let items2 = map fst lines; taxables = map (\<lambda>l. fst (snd l)) lines;
           subtotal = (\<Sum>l\<leftarrow>lines. fst (snd (snd l)));
           line_discount_total = (\<Sum>l\<leftarrow>lines. snd (snd (snd l)));
           charges = q2 (opt_arg (dc_charges document) additional_charges);
           inv_discount = q2 (opt_arg (dc_inv_disc document) invoice_discount);
           mode = effective_mode document invoice_discount_mode;
           do_round = opt_arg (dc_auto_round document) auto_round_off in
       bind_res (adjust_taxables mode inv_discount taxables) (\<lambda>adjusted.
       bind_res (finish_totals document items2 adjusted tax_enabled intra_state charges inv_discount
                   do_round mode subtotal line_discount_total) (\<lambda>(document', taxed).
         Inr (document', restore_discounts taxed stashed)))))"

section \<open>Reverse charge\<close>

definition apply_rcm_memo_after_tax ::
  "tax_doc \<Rightarrow> tax_item list \<Rightarrow> (tax_doc \<times> tax_item list) res" where
  "apply_rcm_memo_after_tax document items =
    (if \<not> dc_rcm document then Inr (document, items)
     else
       let d1 = document\<lparr>dc_rcm_taxable := q2 (dc_taxable document),
                  dc_rcm_cgst := q2 (dc_cgst document), dc_rcm_sgst := q2 (dc_sgst document),
                  dc_rcm_igst := q2 (dc_igst document), dc_rcm_cess := q2 (dc_cess document),
                  dc_cgst := 0, dc_sgst := 0, dc_igst := 0, dc_cess := 0\<rparr>;
           items' = map (\<lambda>i. i\<lparr>it_cgst := 0, it_sgst := 0, it_igst := 0,
                  it_cess := (if it_has_cess i then 0 else it_cess i),
                  it_total := q2 (it_taxable i)\<rparr>) items;
           charges = q2 (dc_charges d1); discount = q2 (dc_inv_disc d1);
           mode = (if dc_disc_mode d1 = [] then ''AFTER_TAX'' else dc_disc_mode d1);
           taxable = q2 (dc_taxable d1) in
       guard_res (mode \<noteq> ''BEFORE_TAX'' \<and> taxable + charges < discount)
         (Business_Rule ''Invoice discount exceeds the invoice value.'')
         (let raw0 = (if mode = ''BEFORE_TAX'' then taxable + charges
                      else taxable + charges - discount);
              raw_total = (if raw0 < 0 then 0 else raw0);
              grand_total = (if dc_auto_round d1 then q_rupee raw_total else q2 raw_total)
          in Inr (d1\<lparr>dc_round_off := q2 (grand_total - raw_total), dc_grand := q2 grand_total\<rparr>,
                  items')))"

section \<open>Completing under a filing GSTIN\<close>

text \<open>
  \<open>recompute_totals_for_stamped_gstin\<close>: the stamp is the state and GSTIN of the filing
  registration; \<open>flag_on\<close> is \<open>company.recompute_tax_on_complete\<close>.
\<close>

definition recompute_totals_for_stamped_gstin ::
  "hsn_rate list \<Rightarrow> gst_company \<Rightarrow> bool \<Rightarrow> (string \<times> string) option \<Rightarrow> string \<Rightarrow> tax_doc
    \<Rightarrow> tax_item list \<Rightarrow> string \<Rightarrow> string \<Rightarrow> bool \<Rightarrow> bool \<Rightarrow> bool \<Rightarrow> (tax_doc \<times> tax_item list) res" where
  "recompute_totals_for_stamped_gstin table company flag_on stamp supply_type document items
      party_state party_gstin tax_enabled confirm_gstin_total_change is_opening =
    (case stamp of
       None \<Rightarrow> Inr (document, items)
     | Some (stamp_state, stamp_gstin) \<Rightarrow>
        if \<not> tax_enabled \<or> is_opening then Inr (document, items)
        else if dc_rcm document then Inr (document, items)
        else
          let intra_now = party_intra_state company party_state party_gstin stamp_state stamp_gstin
                            supply_type;
              lines_intra = 0 < (\<Sum>i\<leftarrow>items. it_cgst i);
              lines_inter = 0 < (\<Sum>i\<leftarrow>items. it_igst i) in
          if \<not> flag_on \<and> \<not> (lines_intra \<or> lines_inter) then Inr (document, items)
          else if \<not> flag_on \<and> intra_now = lines_intra then Inr (document, items)
          else
            bind_res (compute_document_totals table document items tax_enabled intra_now
                (Some (dc_charges document)) (Some (dc_inv_disc document))
                (Some (dc_auto_round document)) (Some (dc_disc_mode document)))
              (\<lambda>(document', items').
                guard_res (flag_on \<and> 1/100 < \<bar>dc_grand document' - dc_grand document\<bar>
                    \<and> \<not> confirm_gstin_total_change)
                  (Business_Rule ''GSTIN_TOTAL_CHANGED'') (Inr (document', items'))))"

section \<open>TDS\<close>

text \<open>
  \<open>fold_tds_from_rate\<close> with a document to annotate: the amount, and the override record (rate,
  supplied amount, amount from the rate) it leaves on the document.
\<close>

definition fold_tds_from_rate ::
  "rat option \<Rightarrow> rat option \<Rightarrow> rat option \<Rightarrow> rat \<times> (rat \<times> rat \<times> rat) option" where
  "fold_tds_from_rate tds_rate tds_amount taxable_total =
    (let rate = or0 tds_rate; amount = or0 tds_amount;
         from_rate = q2 (or0 taxable_total * rate / 100) in
     if 0 < rate \<and> amount = 0 then (from_rate, None)
     else (q2 amount,
       (if 0 < rate \<and> 0 < amount \<and> 5/100 < \<bar>from_rate - q2 amount\<bar>
        then Some (rate, q2 amount, from_rate) else None)))"

section \<open>Facts about the lines of a document\<close>

definition on_paisa :: "rat list \<Rightarrow> bool" where
  "on_paisa xs = list_all (\<lambda>x. q2 x = x) xs"

lemma on_paisa_Cons [simp]: "on_paisa (x # xs) \<longleftrightarrow> q2 x = x \<and> on_paisa xs"
  by (simp add: on_paisa_def)

lemma on_paisa_Nil [simp]: "on_paisa []"
  by (simp add: on_paisa_def)

lemma give_on_paisa: "on_paisa adj \<Longrightarrow> on_paisa (fst (give per adj res))"
  by (induction per adj res rule: give.induct) (auto simp: Let_def split: prod.splits)

lemma give_paise_on_paisa: "on_paisa adj \<Longrightarrow> on_paisa (fst (give_paise adj res))"
  by (induction adj res rule: give_paise.induct) (auto simp: Let_def split: prod.splits)

lemma spread_on_paisa: "on_paisa adj \<Longrightarrow> on_paisa (fst (spread guard adj res))"
proof (induction guard adj res rule: spread.induct)
  case (2 guard adj res)
  then show ?case
    using give_on_paisa [OF 2(2), of "q2 (ddiv res (of_nat (heads adj)))" res]
      give_paise_on_paisa [OF 2(2), of res]
    by (auto simp: Let_def split: prod.splits)
qed simp

lemma on_paisa_map_q2 [simp]: "on_paisa (map (\<lambda>x. q2 (f x)) xs)" "on_paisa (map (\<lambda>x. 0) xs)"
  by (simp_all add: on_paisa_def list_all_iff)

lemma allocate_discount_on_paisa: "on_paisa (allocate_discount ts d)"
  unfolding allocate_discount_def Let_def by (simp add: spread_on_paisa del: spread.simps)

lemma adjust_taxables_on_paisa:
  "adjust_taxables mode d ts = Inr adj \<Longrightarrow> on_paisa ts \<Longrightarrow> on_paisa adj"
  by (auto simp: adjust_taxables_def guard_res_Inr_iff allocate_discount_on_paisa split: if_splits)

lemma bill_line_on_paisa:
  "bill_line table document pm e item = Inr (item', t, s, d) \<Longrightarrow> q2 t = t \<and> q2 s = s \<and> q2 d = d"
  by (auto simp: bill_line_def Let_def bind_res_Inr_iff)

lemma bill_lines_on_paisa:
  assumes "map_res (bill_line table document pm e) items = Inr lines"
  shows "on_paisa (map (\<lambda>l. fst (snd l)) lines)"
proof -
  have "q2 (fst (snd l)) = fst (snd l)" if l: "l \<in> set lines" for l
  proof -
    obtain k where k: "k < length lines" "l = lines ! k" using l by (metis in_set_conv_nth)
    then have "bill_line table document pm e (items ! k) = Inr l"
      using assms by (simp add: map_res_Inr_list_all2 list_all2_conv_all_nth)
    then show ?thesis using bill_line_on_paisa [of table document pm e "items ! k" "fst l" "fst (snd l)"
        "fst (snd (snd l))" "snd (snd (snd l))"] by simp
  qed
  then show ?thesis by (simp add: on_paisa_def list_all_iff)
qed

text \<open>Sums of the taxed lines: every leg is on the grid, and intra-state the two halves agree.\<close>

lemma tax_lines_sums:
  fixes items e intra
  assumes "on_paisa adjusted"
  defines "taxed \<equiv> tax_lines e intra items adjusted"
  shows "q2 (\<Sum>i\<leftarrow>taxed. it_taxable i) = (\<Sum>i\<leftarrow>taxed. it_taxable i)"
    and "q2 (\<Sum>i\<leftarrow>taxed. it_cgst i) = (\<Sum>i\<leftarrow>taxed. it_cgst i)"
    and "q2 (\<Sum>i\<leftarrow>taxed. it_sgst i) = (\<Sum>i\<leftarrow>taxed. it_sgst i)"
    and "q2 (\<Sum>i\<leftarrow>taxed. it_igst i) = (\<Sum>i\<leftarrow>taxed. it_igst i)"
    and "q2 (\<Sum>i\<leftarrow>taxed. line_cess i) = (\<Sum>i\<leftarrow>taxed. line_cess i)"
    and "(\<Sum>i\<leftarrow>taxed. it_cgst i) = (\<Sum>i\<leftarrow>taxed. it_sgst i)"
    and "if intra then (\<Sum>i\<leftarrow>taxed. it_igst i) = 0 else (\<Sum>i\<leftarrow>taxed. it_cgst i) = 0"
    and "length items = length adjusted \<Longrightarrow> (\<Sum>i\<leftarrow>taxed. it_taxable i) = sum_list adjusted"
proof -
  have mem: "\<exists>it t. i = apply_line_tax it t (it_bill_rate it) e intra \<and> q2 t = t"
    if "i \<in> set taxed" for i
    using that assms by (auto simp: tax_lines_def on_paisa_def list_all_iff dest: set_zip_rightD)
  show "q2 (\<Sum>i\<leftarrow>taxed. it_taxable i) = (\<Sum>i\<leftarrow>taxed. it_taxable i)"
    and "q2 (\<Sum>i\<leftarrow>taxed. it_cgst i) = (\<Sum>i\<leftarrow>taxed. it_cgst i)"
    and "q2 (\<Sum>i\<leftarrow>taxed. it_sgst i) = (\<Sum>i\<leftarrow>taxed. it_sgst i)"
    and "q2 (\<Sum>i\<leftarrow>taxed. it_igst i) = (\<Sum>i\<leftarrow>taxed. it_igst i)"
    and "q2 (\<Sum>i\<leftarrow>taxed. line_cess i) = (\<Sum>i\<leftarrow>taxed. line_cess i)"
    by (rule paisa.fixed_sum_list, drule mem, clarsimp)+
  have "map it_cgst taxed = map it_sgst taxed" by (rule map_cong [OF refl], drule mem, clarsimp)
  then show "(\<Sum>i\<leftarrow>taxed. it_cgst i) = (\<Sum>i\<leftarrow>taxed. it_sgst i)" by (simp only:)
  have "map (if intra then it_igst else it_cgst) taxed = map (\<lambda>_. 0) taxed"
    by (rule map_cong [OF refl], drule mem, clarsimp)
  then have "sum_list (map (if intra then it_igst else it_cgst) taxed) = (\<Sum>_\<leftarrow>taxed. 0)"
    by (simp only:)
  then show "if intra then (\<Sum>i\<leftarrow>taxed. it_igst i) = 0 else (\<Sum>i\<leftarrow>taxed. it_cgst i) = 0"
    by (cases intra) simp_all
  show "(\<Sum>i\<leftarrow>taxed. it_taxable i) = sum_list adjusted" if "length items = length adjusted"
    using that unfolding taxed_def tax_lines_def
    by (induction items adjusted rule: list_induct2) auto
qed

lemma charge_line_on_paisa:
  assumes "charge_line document intra = Some c"
  shows "q2 (ch_taxable c) = ch_taxable c \<and> q2 (ch_cgst c) = ch_cgst c \<and> q2 (ch_igst c) = ch_igst c
    \<and> ch_sgst c = ch_cgst c \<and> (if intra then ch_igst c = 0 else ch_cgst c = 0)"
  using assms by (auto simp: charge_line_def Let_def split: if_splits)

section \<open>Facts about the totals\<close>

text \<open>The amount a charge contributes to one leg of the totals.\<close>

definition charge_leg :: "(charge \<Rightarrow> rat) \<Rightarrow> charge option \<Rightarrow> rat" where
  "charge_leg f c = (case c of None \<Rightarrow> 0 | Some c \<Rightarrow> f c)"

definition payable_of :: "tax_doc \<Rightarrow> bool \<Rightarrow> rat" where
  "payable_of d charge_taxed = dc_taxable d + dc_cgst d + dc_sgst d + dc_igst d + dc_cess d
     + (if charge_taxed then 0 else dc_charges d)
     - (if dc_disc_mode d = ''BEFORE_TAX'' then 0 else dc_inv_disc d)"

lemma finish_totals_foots:
  fixes e document intra
  assumes fin: "finish_totals document items adjusted e intra charges inv_discount do_round mode s l
      = Inr (d, taxed)"
    and grid: "on_paisa adjusted" "q2 charges = charges" "q2 inv_discount = inv_discount"
  defines "c \<equiv> (if e then charge_line document intra else None)"
  shows "taxed = tax_lines e intra items adjusted"
    and "dc_taxable d = (\<Sum>i\<leftarrow>taxed. it_taxable i) + charge_leg ch_taxable c"
    and "dc_cgst d = (\<Sum>i\<leftarrow>taxed. it_cgst i) + charge_leg ch_cgst c"
    and "dc_sgst d = dc_cgst d"
    and "dc_igst d = (\<Sum>i\<leftarrow>taxed. it_igst i) + charge_leg ch_igst c"
    and "if intra then dc_igst d = 0 else dc_cgst d = 0"
    and "dc_cess d = (\<Sum>i\<leftarrow>taxed. line_cess i)"
    and "dc_grand d = max 0 (payable_of d (c \<noteq> None)) + dc_round_off d"
    and "if do_round then \<bar>dc_round_off d\<bar> \<le> 1/2 else dc_round_off d = 0"
    and "mode = ''BEFORE_TAX'' \<or> 0 \<le> payable_of d (c \<noteq> None)"
proof -
  define T where "T = tax_lines e intra items adjusted"
  note T = tax_lines_sums [OF grid(1), where items = items and e = e and intra = intra, folded T_def]
  define tx where "tx = (\<Sum>i\<leftarrow>T. it_taxable i) + charge_leg ch_taxable c"
  define cg where "cg = (\<Sum>i\<leftarrow>T. it_cgst i) + charge_leg ch_cgst c"
  define sg where "sg = (\<Sum>i\<leftarrow>T. it_sgst i) + charge_leg ch_sgst c"
  define ig where "ig = (\<Sum>i\<leftarrow>T. it_igst i) + charge_leg ch_igst c"
  define cs where "cs = (\<Sum>i\<leftarrow>T. line_cess i)"
  have legs: "q2 (charge_leg ch_taxable c) = charge_leg ch_taxable c"
    "q2 (charge_leg ch_cgst c) = charge_leg ch_cgst c"
    "q2 (charge_leg ch_igst c) = charge_leg ch_igst c"
    "charge_leg ch_sgst c = charge_leg ch_cgst c"
    "if intra then charge_leg ch_igst c = 0 else charge_leg ch_cgst c = 0"
    using charge_line_on_paisa [of document intra]
    by (auto simp: charge_leg_def c_def split: option.splits if_splits)
  have q: "q2 tx = tx" "q2 cg = cg" "q2 ig = ig" "q2 cs = cs" "sg = cg"
    using T legs unfolding tx_def cg_def sg_def ig_def cs_def by (simp_all add: paisa.fixed_add)
  define pre where "pre = tx + cg + sg + ig + cs + (if c \<noteq> None then 0 else charges)"
  have pre: "q2 pre = pre" unfolding pre_def \<open>sg = cg\<close> by (intro paisa.fixed_add q) (simp add: grid)
  define raw where "raw = (if mode = ''BEFORE_TAX'' then pre else pre - inv_discount)"
  have raw: "q2 raw = raw" "q2 (max 0 raw) = max 0 raw"
    unfolding raw_def using pre grid(3) by (auto simp: paisa.fixed_diff paisa.fixed_max)
  define g where "g = (if do_round then q_rupee (max 0 raw) else q2 (max 0 raw))"
  have g: "q2 g = g" unfolding g_def by simp
  have ro: "q2 (g - max 0 raw) = g - max 0 raw" by (rule paisa.fixed_diff [OF g raw(2)])
  have clip: "(if x < 0 then 0 else x) = max 0 (x::rat)" for x by (simp add: max_def)
  have eq: "finish_totals document items adjusted e intra charges inv_discount do_round mode s l =
      guard_res (mode \<noteq> ''BEFORE_TAX'' \<and> pre < inv_discount)
        (Business_Rule ''Invoice discount exceeds the invoice value.'')
        (Inr (document\<lparr>dc_charges := charges, dc_inv_disc := inv_discount, dc_disc_mode := mode,
                  dc_subtotal := q2 s, dc_discount_total := q2 l,
                  dc_taxable := q2 tx, dc_cgst := q2 cg, dc_sgst := q2 sg, dc_igst := q2 ig,
                  dc_cess := q2 cs, dc_round_off := q2 (g - max 0 raw), dc_grand := q2 g\<rparr>, T))"
    unfolding finish_totals_def Let_def c_def [symmetric] T_def [symmetric]
      charge_leg_def [symmetric] tx_def [symmetric] cg_def [symmetric] sg_def [symmetric]
      ig_def [symmetric] cs_def [symmetric] pre_def [symmetric] raw_def [symmetric] clip
      g_def [symmetric] ..
  note res = fin [unfolded eq guard_res_Inr_iff sum.inject prod.inject]
  have guard: "mode = ''BEFORE_TAX'' \<or> inv_discount \<le> pre"
    and d: "d = document\<lparr>dc_charges := charges, dc_inv_disc := inv_discount, dc_disc_mode := mode,
                  dc_subtotal := q2 s, dc_discount_total := q2 l,
                  dc_taxable := q2 tx, dc_cgst := q2 cg, dc_sgst := q2 sg, dc_igst := q2 ig,
                  dc_cess := q2 cs, dc_round_off := q2 (g - max 0 raw), dc_grand := q2 g\<rparr>"
    and taxed: "taxed = T"
    using res [THEN conjunct1] res [THEN conjunct2, THEN conjunct1, symmetric]
      res [THEN conjunct2, THEN conjunct2, symmetric] by (simp_all only: not_less de_Morgan_conj not_not)
  have pay: "payable_of d (c \<noteq> None) = raw"
    unfolding d payable_of_def by (simp add: q raw_def pre_def grid \<open>sg = cg\<close>)
  show "taxed = tax_lines e intra items adjusted" using taxed T_def by simp
  show "dc_taxable d = (\<Sum>i\<leftarrow>taxed. it_taxable i) + charge_leg ch_taxable c"
    "dc_cgst d = (\<Sum>i\<leftarrow>taxed. it_cgst i) + charge_leg ch_cgst c"
    "dc_sgst d = dc_cgst d"
    "dc_igst d = (\<Sum>i\<leftarrow>taxed. it_igst i) + charge_leg ch_igst c"
    "dc_cess d = (\<Sum>i\<leftarrow>taxed. line_cess i)"
    unfolding d taxed by (simp_all add: q tx_def [symmetric] cg_def [symmetric] ig_def [symmetric]
        cs_def [symmetric])
  show "if intra then dc_igst d = 0 else dc_cgst d = 0"
    using T(7) legs(5) unfolding d by (simp add: q) (auto simp: cg_def ig_def)
  show "dc_grand d = max 0 (payable_of d (c \<noteq> None)) + dc_round_off d"
    unfolding pay unfolding d by (simp add: g ro)
  show "if do_round then \<bar>dc_round_off d\<bar> \<le> 1/2 else dc_round_off d = 0"
    unfolding d using rupee.near [of "max 0 raw"] by (simp add: ro) (simp add: g_def raw)
  show "mode = ''BEFORE_TAX'' \<or> 0 \<le> payable_of d (c \<noteq> None)"
    using guard unfolding pay by (auto simp: raw_def)
qed

lemma give_length [simp]: "length (fst (give per adj res)) = length adj"
  by (induction per adj res rule: give.induct) (auto simp: Let_def split: prod.splits)

lemma give_paise_length [simp]: "length (fst (give_paise adj res)) = length adj"
  by (induction adj res rule: give_paise.induct) (auto simp: Let_def split: prod.splits)

lemma spread_length: "length (fst (spread guard adj res)) = length adj"
proof (induction guard adj res rule: spread.induct)
  case (2 guard adj res)
  then show ?case
    using give_length [of "q2 (ddiv res (of_nat (heads adj)))" adj res] give_paise_length [of adj res]
    by (auto simp: Let_def simp del: give_length give_paise_length split: prod.splits)
qed simp

lemma allocate_discount_length [simp]: "length (allocate_discount ts d) = length ts"
  unfolding allocate_discount_def Let_def by (simp add: spread_length del: spread.simps)

lemma adjust_taxables_length: "adjust_taxables mode d ts = Inr adj \<Longrightarrow> length adj = length ts"
  by (auto simp: adjust_taxables_def guard_res_Inr_iff split: if_splits)

lemma restore_discounts_keeps:
  assumes "stashed = [] \<or> length stashed = length items"
    and "\<And>i d. f (restore_line i d) = f i"
  shows "map f (restore_discounts items stashed) = map f items"
  using assms(1)
proof
  assume "length stashed = length items"
  then have "map f (map2 restore_line items stashed) = map f items"
    by (induction stashed items rule: list_induct2) (auto simp: assms(2))
  then show ?thesis by (simp add: restore_discounts_def)
qed (simp add: restore_discounts_def)

lemma compute_document_totals_elim:
  assumes "compute_document_totals table document items e intra ch disc ro m = Inr (d, lines)"
  obtains bills adjusted taxed stashed pm where
    "map_res (bill_line table document pm e) (fst (apply_inclusive_prices_to_items items pm)) = Inr bills"
    "pm = nonblank_or (dc_price_mode document) ''EXCLUSIVE''"
    "adjust_taxables (effective_mode document m) (q2 (opt_arg (dc_inv_disc document) disc))
       (map (\<lambda>l. fst (snd l)) bills) = Inr adjusted"
    "finish_totals document (map fst bills) adjusted e intra (q2 (opt_arg (dc_charges document) ch))
       (q2 (opt_arg (dc_inv_disc document) disc)) (opt_arg (dc_auto_round document) ro)
       (effective_mode document m) (\<Sum>l\<leftarrow>bills. fst (snd (snd l))) (\<Sum>l\<leftarrow>bills. snd (snd (snd l)))
       = Inr (d, taxed)"
    "lines = restore_discounts taxed stashed" "on_paisa adjusted"
    "stashed = [] \<or> length stashed = length taxed" "length bills = length adjusted"
proof -
  define pm where "pm = nonblank_or (dc_price_mode document) ''EXCLUSIVE''"
  define items1 where "items1 = fst (apply_inclusive_prices_to_items items pm)"
  define stashed where "stashed = snd (apply_inclusive_prices_to_items items pm)"
  have len: "length items1 = length items" "stashed = [] \<or> length stashed = length items"
    by (auto simp: items1_def stashed_def apply_inclusive_prices_to_items_def)
  obtain bills adjusted taxed where
    b: "map_res (bill_line table document pm e) items1 = Inr bills" and
    a: "adjust_taxables (effective_mode document m) (q2 (opt_arg (dc_inv_disc document) disc))
       (map (\<lambda>l. fst (snd l)) bills) = Inr adjusted" and
    f: "finish_totals document (map fst bills) adjusted e intra (q2 (opt_arg (dc_charges document) ch))
       (q2 (opt_arg (dc_inv_disc document) disc)) (opt_arg (dc_auto_round document) ro)
       (effective_mode document m) (\<Sum>l\<leftarrow>bills. fst (snd (snd l))) (\<Sum>l\<leftarrow>bills. snd (snd (snd l)))
       = Inr (d, taxed)" and
    l: "lines = restore_discounts taxed stashed"
    using assms unfolding compute_document_totals_def Let_def pm_def [symmetric]
    by (auto simp: bind_res_Inr_iff items1_def stashed_def split: prod.splits)
  have grid: "on_paisa adjusted" using a bill_lines_on_paisa [OF b] by (rule adjust_taxables_on_paisa)
  have la: "length bills = length adjusted" using adjust_taxables_length [OF a] by simp
  have "taxed = tax_lines e intra (map fst bills) adjusted"
    using finish_totals_foots(1) [OF f grid] by simp
  then have "length taxed = length items"
    using la map_res_length [OF b] len(1) by (simp add: tax_lines_def)
  then show thesis using that [OF b [unfolded items1_def] pm_def a f l grid] len la by simp
qed

lemma document_totals_facts:
  fixes e document intra
  assumes ok: "compute_document_totals table document items e intra ch disc ro m = Inr (d, lines)"
  defines "c \<equiv> (if e then charge_line document intra else None)"
  shows "dc_taxable d = (\<Sum>i\<leftarrow>lines. it_taxable i) + charge_leg ch_taxable c"
    and "dc_cgst d = (\<Sum>i\<leftarrow>lines. it_cgst i) + charge_leg ch_cgst c"
    and "dc_sgst d = dc_cgst d" and "(\<Sum>i\<leftarrow>lines. it_sgst i) = (\<Sum>i\<leftarrow>lines. it_cgst i)"
    and "dc_igst d = (\<Sum>i\<leftarrow>lines. it_igst i) + charge_leg ch_igst c"
    and "if intra then dc_igst d = 0 else dc_cgst d = 0"
    and "dc_cess d = (\<Sum>i\<leftarrow>lines. line_cess i)"
    and "dc_grand d = max 0 (payable_of d (c \<noteq> None)) + dc_round_off d"
    and "if opt_arg (dc_auto_round document) ro then \<bar>dc_round_off d\<bar> \<le> 1/2 else dc_round_off d = 0"
    and "dc_disc_mode d = ''BEFORE_TAX'' \<or> 0 \<le> payable_of d (c \<noteq> None)"
    and "on_paisa [dc_cgst d, dc_sgst d, dc_igst d, dc_cess d, dc_round_off d, dc_grand d, dc_taxable d, dc_charges d,
      dc_inv_disc d]"
    and "0 \<le> dc_grand d" and "dc_rcm d = dc_rcm document" and "dc_disc_mode d = effective_mode document m"
    and "(dc_charges d, dc_charges_hsn d, dc_charges_rate d)
      = (q2 (opt_arg (dc_charges document) ch), dc_charges_hsn document, dc_charges_rate document)"
proof -
  obtain bills :: "(tax_item \<times> rat \<times> rat \<times> rat) list" and adjusted taxed stashed where
    fin: "finish_totals document (map fst bills) adjusted e intra (q2 (opt_arg (dc_charges document) ch))
       (q2 (opt_arg (dc_inv_disc document) disc)) (opt_arg (dc_auto_round document) ro)
       (effective_mode document m) (\<Sum>l\<leftarrow>bills. fst (snd (snd l))) (\<Sum>l\<leftarrow>bills. snd (snd (snd l)))
       = Inr (d, taxed)"
    and lines: "lines = restore_discounts taxed stashed" and adj: "on_paisa adjusted"
    and st: "stashed = [] \<or> length stashed = length taxed"
    by (rule compute_document_totals_elim [OF ok]) blast
  have keep: "map it_taxable lines = map it_taxable taxed" "map it_cgst lines = map it_cgst taxed"
    "map it_sgst lines = map it_sgst taxed" "map it_igst lines = map it_igst taxed"
    "map line_cess lines = map line_cess taxed"
    unfolding lines by (rule restore_discounts_keeps [OF st], simp add: restore_line_def line_cess_def)+
  note foot = finish_totals_foots [OF fin adj, simplified, folded c_def]
  show "dc_taxable d = (\<Sum>i\<leftarrow>lines. it_taxable i) + charge_leg ch_taxable c"
    "dc_cgst d = (\<Sum>i\<leftarrow>lines. it_cgst i) + charge_leg ch_cgst c" "dc_sgst d = dc_cgst d"
    "dc_igst d = (\<Sum>i\<leftarrow>lines. it_igst i) + charge_leg ch_igst c"
    "if intra then dc_igst d = 0 else dc_cgst d = 0" "dc_cess d = (\<Sum>i\<leftarrow>lines. line_cess i)"
    "dc_grand d = max 0 (payable_of d (c \<noteq> None)) + dc_round_off d"
    "if opt_arg (dc_auto_round document) ro then \<bar>dc_round_off d\<bar> \<le> 1/2 else dc_round_off d = 0"
    unfolding keep using foot by simp_all
  show "(\<Sum>i\<leftarrow>lines. it_sgst i) = (\<Sum>i\<leftarrow>lines. it_cgst i)"
    unfolding keep using tax_lines_sums(6) [OF adj, folded foot(1)] foot(1) by simp
  show "on_paisa [dc_cgst d, dc_sgst d, dc_igst d, dc_cess d, dc_round_off d, dc_grand d, dc_taxable d, dc_charges d,
      dc_inv_disc d]" "0 \<le> dc_grand d" "dc_rcm d = dc_rcm document" "dc_disc_mode d = effective_mode document m"
    "(dc_charges d, dc_charges_hsn d, dc_charges_rate d)
      = (q2 (opt_arg (dc_charges document) ch), dc_charges_hsn document, dc_charges_rate document)"
    using fin by (auto simp: finish_totals_def Let_def guard_res_Inr_iff intro!: paisa.nonneg rupee.nonneg)
  then show "dc_disc_mode d = ''BEFORE_TAX'' \<or> 0 \<le> payable_of d (c \<noteq> None)" using foot(10) by simp
qed

section \<open>Properties\<close>

text \<open>
  C5. Document totals foot.  Whenever the computation succeeds, each header total is the sum of
  the lines' legs (plus the taxed freight line), CGST equals SGST, intra-state excludes IGST and
  inter-state excludes CGST, and the grand total is the sum of the legs plus untaxed charges less
  an after-tax discount, plus a round-off of at most half a rupee that is zero when rounding is off.
\<close>

theorem document_totals_foot:
  assumes "compute_document_totals table document items e intra ch disc ro m = Inr (d, lines)"
  shows "(let c = (if e then charge_line document intra else None) in
    dc_taxable d = (\<Sum>i\<leftarrow>lines. it_taxable i) + charge_leg ch_taxable c \<and>
    dc_cgst d = (\<Sum>i\<leftarrow>lines. it_cgst i) + charge_leg ch_cgst c \<and>
    dc_sgst d = dc_cgst d \<and>
    dc_igst d = (\<Sum>i\<leftarrow>lines. it_igst i) + charge_leg ch_igst c \<and>
    (if intra then dc_igst d = 0 else dc_cgst d = 0) \<and>
    dc_cess d = (\<Sum>i\<leftarrow>lines. line_cess i) \<and>
    dc_grand d = max 0 (payable_of d (c \<noteq> None)) + dc_round_off d \<and>
    (if opt_arg (dc_auto_round document) ro then \<bar>dc_round_off d\<bar> \<le> 1/2 else dc_round_off d = 0))"
  unfolding Let_def using document_totals_facts [OF assms] by simp

text \<open>A draft with one line of 100 at 18 percent, for concrete examples.\<close>

definition sample_item :: tax_item where
  "sample_item = fresh_item\<lparr>it_applied := 18, it_bill_rate := 18, it_bill_gross := 100, it_bill_disc := 0\<rparr>"

lemma sample_bill_line:
  "bill_line [] fresh_doc ''EXCLUSIVE'' True fresh_item = Inr (sample_item, 100, 100, 0)"
  by code_simp

lemma fresh_price_mode [simp]: "nonblank_or (dc_price_mode fresh_doc) ''EXCLUSIVE'' = ''EXCLUSIVE''"
  by code_simp

lemma sample_totals:
  "\<exists>d lines. compute_document_totals [] fresh_doc [fresh_item] True True None None None None
      = Inr (d, lines) \<and> dc_cgst d = 9 \<and> dc_grand d = 118 \<and> dc_subtotal d = 100
      \<and> list_all (\<lambda>x. x = 0) [dc_igst d, dc_cess d, dc_charges d, dc_inv_disc d, dc_round_off d] \<and> dc_taxable d = 100"
proof -
  have doc: "dc_charges fresh_doc = 0" "dc_inv_disc fresh_doc = 0" "dc_auto_round fresh_doc"
    "effective_mode fresh_doc None = ''AFTER_TAX''"
    by code_simp+
  have "(case finish_totals fresh_doc [sample_item] [100] True True 0 0 True ''AFTER_TAX'' 100 0 of
      Inr (d, lines) \<Rightarrow> dc_cgst d = 9 \<and> dc_grand d = 118 \<and> dc_subtotal d = 100
      \<and> list_all (\<lambda>x. x = 0) [dc_igst d, dc_cess d, dc_charges d, dc_inv_disc d, dc_round_off d] \<and> dc_taxable d = 100 | Inl _ \<Rightarrow> False)"
    by code_simp
  then obtain d lines where f: "finish_totals fresh_doc [sample_item] [100] True True 0 0 True
      ''AFTER_TAX'' 100 0 = Inr (d, lines)" "dc_cgst d = 9" "dc_grand d = 118" "dc_subtotal d = 100"
      "list_all (\<lambda>x. x = 0) [dc_igst d, dc_cess d, dc_charges d, dc_inv_disc d, dc_round_off d]" "dc_taxable d = 100"
    by (auto split: sum.splits)
  then show ?thesis
    by (simp add: compute_document_totals_def doc sample_bill_line apply_inclusive_prices_to_items_def
        opt_arg_def adjust_taxables_def)
qed

theorem document_totals_foot_witness:
  "\<exists>d lines. compute_document_totals [] fresh_doc [fresh_item] True True None None None None
      = Inr (d, lines) \<and> dc_cgst d = 9 \<and> dc_sgst d = dc_cgst d"
proof -
  obtain d lines where r: "compute_document_totals [] fresh_doc [fresh_item] True True None None None
      None = Inr (d, lines)" "dc_cgst d = 9"
    using sample_totals by blast
  from document_totals_foot [OF r(1)] r show ?thesis by (auto simp: Let_def)
qed

lemma exclusive_bill_line:
  assumes "bill_line table document pm e item = Inr (item', t, s, d)" and "pm \<noteq> ''INCLUSIVE''"
  shows "t = s - d"
  using assms by (auto simp: bill_line_def Let_def bind_res_Inr_iff paisa.fixed_diff)

lemma exclusive_bill_lines:
  assumes "map_res (bill_line table document pm e) items = Inr bills" and "pm \<noteq> ''INCLUSIVE''"
  shows "(\<Sum>l\<leftarrow>bills. fst (snd l)) = (\<Sum>l\<leftarrow>bills. fst (snd (snd l))) - (\<Sum>l\<leftarrow>bills. snd (snd (snd l)))"
    and "q2 (\<Sum>l\<leftarrow>bills. fst (snd (snd l))) = (\<Sum>l\<leftarrow>bills. fst (snd (snd l)))"
    and "q2 (\<Sum>l\<leftarrow>bills. snd (snd (snd l))) = (\<Sum>l\<leftarrow>bills. snd (snd (snd l)))"
proof -
  have "list_all2 (\<lambda>i l. fst (snd l) = fst (snd (snd l)) - snd (snd (snd l))
      \<and> q2 (fst (snd (snd l))) = fst (snd (snd l)) \<and> q2 (snd (snd (snd l))) = snd (snd (snd l)))
      items bills"
    using assms(1) unfolding map_res_Inr_list_all2
  proof (rule list_all2_mono)
    fix i l assume "bill_line table document pm e i = Inr l"
    then have "bill_line table document pm e i = Inr (fst l, fst (snd l), fst (snd (snd l)), snd (snd (snd l)))"
      by simp
    from exclusive_bill_line [OF this assms(2)] bill_line_on_paisa [OF this]
    show "fst (snd l) = fst (snd (snd l)) - snd (snd (snd l))
      \<and> q2 (fst (snd (snd l))) = fst (snd (snd l)) \<and> q2 (snd (snd (snd l))) = snd (snd (snd l))"
      by simp
  qed
  then show "(\<Sum>l\<leftarrow>bills. fst (snd l)) = (\<Sum>l\<leftarrow>bills. fst (snd (snd l))) - (\<Sum>l\<leftarrow>bills. snd (snd (snd l)))"
    and "q2 (\<Sum>l\<leftarrow>bills. fst (snd (snd l))) = (\<Sum>l\<leftarrow>bills. fst (snd (snd l)))"
    and "q2 (\<Sum>l\<leftarrow>bills. snd (snd (snd l))) = (\<Sum>l\<leftarrow>bills. snd (snd (snd l)))"
    by (induction items bills rule: list_all2_induct) (auto simp: paisa.fixed_add)
qed

text \<open>
  The BILL-04 footing: with exclusive prices and an after-tax discount the printed identity
  subtotal - line discounts - invoice discount + taxes + charges + round-off = grand total holds,
  whether the charges are taxed or not.  (The same identity is claimed for BEFORE_TAX, where
  \<open>discount_over_allocation\<close> breaks it.)
\<close>

theorem bill04_footing:
  assumes ok: "compute_document_totals table document items e intra ch disc ro m = Inr (d, lines)"
    and excl: "nonblank_or (dc_price_mode document) ''EXCLUSIVE'' \<noteq> ''INCLUSIVE''"
    and after: "effective_mode document m \<noteq> ''BEFORE_TAX''"
    and ch: "opt_arg (dc_charges document) ch = dc_charges document"
  shows "dc_subtotal d - dc_discount_total d - dc_inv_disc d + dc_cgst d + dc_sgst d + dc_igst d
    + dc_cess d + dc_charges d + dc_round_off d = dc_grand d"
proof (rule compute_document_totals_elim [OF ok], goal_cases)
  case (1 bills adjusted taxed stashed pm)
  note foot = finish_totals_foots [OF 1(4,6), simplified]
  let ?c = "if e then charge_line document intra else None"
  have pm: "pm \<noteq> ''INCLUSIVE''" using excl 1(2) by simp
  note bills = exclusive_bill_lines [OF 1(1) pm]
  have adj: "adjusted = map (\<lambda>l. fst (snd l)) bills" using 1(3) after by (simp add: adjust_taxables_def)
  have d: "dc_charges d = q2 (dc_charges document)" "dc_disc_mode d = effective_mode document m"
    "dc_subtotal d = (\<Sum>l\<leftarrow>bills. fst (snd (snd l)))"
    "dc_discount_total d = (\<Sum>l\<leftarrow>bills. snd (snd (snd l)))"
    using 1(4) ch bills by (auto simp: finish_totals_def Let_def guard_res_Inr_iff)
  have ct: "ch_taxable c = q2 (dc_charges document)" if "?c = Some c" for c
    using that by (auto simp: charge_line_def Let_def split: if_splits)
  have lines: "(\<Sum>i\<leftarrow>taxed. it_taxable i) = sum_list adjusted"
    unfolding foot(1) using tax_lines_sums(8) [OF 1(6)] 1(8) by simp
  have "dc_taxable d + (if ?c \<noteq> None then 0 else dc_charges d)
      = dc_subtotal d - dc_discount_total d + dc_charges d"
    using foot(2) ct d(1,3,4) lines bills(1) adj by (cases ?c) (auto simp: charge_leg_def)
  then show ?case
    using foot(8,10) after d(2) unfolding payable_of_def by (auto simp: max_def)
qed

theorem bill04_footing_witness:
  "\<exists>d lines. compute_document_totals [] fresh_doc [fresh_item] True True None None None None
      = Inr (d, lines) \<and> dc_subtotal d - dc_discount_total d - dc_inv_disc d + dc_cgst d + dc_sgst d
    + dc_igst d + dc_cess d + dc_charges d + dc_round_off d = 118"
proof -
  obtain d lines where r: "compute_document_totals [] fresh_doc [fresh_item] True True None None None
      None = Inr (d, lines)" "dc_grand d = 118"
    using sample_totals by blast
  have "nonblank_or (dc_price_mode fresh_doc) ''EXCLUSIVE'' \<noteq> ''INCLUSIVE''"
    "effective_mode fresh_doc None \<noteq> ''BEFORE_TAX''" by code_simp+
  from bill04_footing [OF r(1) this] r show ?thesis by (simp add: opt_arg_def)
qed

lemma rcm_memo_facts:
  assumes "apply_rcm_memo_after_tax document items = Inr (d, lines)" and "dc_rcm document"
  defines "raw \<equiv> q2 (dc_taxable document) + q2 (dc_charges document)
      - (if dc_disc_mode document = ''BEFORE_TAX'' then 0 else q2 (dc_inv_disc document))"
  shows "dc_cgst d = 0" "dc_sgst d = 0" "dc_igst d = 0" "dc_cess d = 0"
    and "(dc_rcm_cgst d, dc_rcm_sgst d, dc_rcm_igst d, dc_rcm_cess d) =
      (q2 (dc_cgst document), q2 (dc_sgst document), q2 (dc_igst document), q2 (dc_cess document))"
    and "lines = map (\<lambda>i. i\<lparr>it_cgst := 0, it_sgst := 0, it_igst := 0,
                  it_cess := (if it_has_cess i then 0 else it_cess i), it_total := q2 (it_taxable i)\<rparr>) items"
    and "dc_grand d = max 0 raw + dc_round_off d" and "\<bar>dc_round_off d\<bar> \<le> 1/2"
    and "dc_disc_mode document = ''BEFORE_TAX'' \<or> 0 \<le> raw"
    and "q2 (dc_round_off d) = dc_round_off d" and "dc_rcm d"
    and "(dc_taxable d, dc_charges d, dc_inv_disc d, dc_disc_mode d) =
      (dc_taxable document, dc_charges document, dc_inv_disc document, dc_disc_mode document)"
proof -
  define g where "g = (if dc_auto_round document then q_rupee (max 0 raw) else q2 (max 0 raw))"
  have raw: "q2 (max 0 raw) = max 0 raw" by (simp add: raw_def paisa.fixed_max paisa.fixed_add paisa.fixed_diff)
  have g: "q2 g = g" unfolding g_def by simp
  have clip: "(if x < 0 then 0 else x) = max 0 (x::rat)" for x by (simp add: max_def)
  have mode: "(if dc_disc_mode document = [] then ''AFTER_TAX'' else dc_disc_mode document)
      = ''BEFORE_TAX'' \<longleftrightarrow> dc_disc_mode document = ''BEFORE_TAX''" by auto
  have d: "dc_cgst d = 0" "dc_sgst d = 0" "dc_igst d = 0" "dc_cess d = 0"
    "dc_rcm_cgst d = q2 (dc_cgst document)" "dc_rcm_sgst d = q2 (dc_sgst document)"
    "dc_rcm_igst d = q2 (dc_igst document)" "dc_rcm_cess d = q2 (dc_cess document)"
    "dc_grand d = q2 g" "dc_round_off d = q2 (g - max 0 raw)" "dc_rcm d"
    "(dc_taxable d, dc_charges d, dc_inv_disc d, dc_disc_mode d) =
      (dc_taxable document, dc_charges document, dc_inv_disc document, dc_disc_mode document)"
    and l: "lines = map (\<lambda>i. i\<lparr>it_cgst := 0, it_sgst := 0, it_igst := 0,
                  it_cess := (if it_has_cess i then 0 else it_cess i),
                  it_total := q2 (it_taxable i)\<rparr>) items"
    using assms(1,2) unfolding apply_rcm_memo_after_tax_def Let_def clip g_def raw_def
    by (simp_all add: guard_res_Inr_iff mode cong: if_cong) (auto cong: if_cong)
  show "dc_disc_mode document = ''BEFORE_TAX'' \<or> 0 \<le> raw"
    using assms(1,2) unfolding apply_rcm_memo_after_tax_def Let_def raw_def
    by (simp add: guard_res_Inr_iff mode cong: if_cong) (auto cong: if_cong)
  have ro: "q2 (g - max 0 raw) = g - max 0 raw" by (rule paisa.fixed_diff [OF g raw])
  have "\<bar>g - max 0 raw\<bar> \<le> 1/2" unfolding g_def using rupee.near [of "max 0 raw"] raw by simp
  then show "\<bar>dc_round_off d\<bar> \<le> 1/2" "dc_grand d = max 0 raw + dc_round_off d" "q2 (dc_round_off d) = dc_round_off d"
    using d(9,10) ro g by simp_all
  show "dc_cgst d = 0" "dc_sgst d = 0" "dc_igst d = 0" "dc_cess d = 0" "dc_rcm d"
    "(dc_rcm_cgst d, dc_rcm_sgst d, dc_rcm_igst d, dc_rcm_cess d) =
      (q2 (dc_cgst document), q2 (dc_sgst document), q2 (dc_igst document), q2 (dc_cess document))"
    "lines = map (\<lambda>i. i\<lparr>it_cgst := 0, it_sgst := 0, it_igst := 0,
                  it_cess := (if it_has_cess i then 0 else it_cess i), it_total := q2 (it_taxable i)\<rparr>) items"
    "(dc_taxable d, dc_charges d, dc_inv_disc d, dc_disc_mode d) =
      (dc_taxable document, dc_charges document, dc_inv_disc document, dc_disc_mode document)"
    using d l by simp_all
qed

text \<open>
  Reverse charge: the header and every line lose their tax and cess, the tax moves to the
  memo fields rounded to the paisa, and the party is asked for the taxable value plus charges less
  an after-tax discount, rounded by at most half a rupee.
\<close>

theorem rcm_moves_tax_to_memo:
  assumes "apply_rcm_memo_after_tax document items = Inr (d, lines)" and "dc_rcm document"
  shows "dc_cgst d = 0 \<and> dc_sgst d = 0 \<and> dc_igst d = 0 \<and> dc_cess d = 0 \<and>
    (dc_rcm_cgst d, dc_rcm_sgst d, dc_rcm_igst d, dc_rcm_cess d) =
      (q2 (dc_cgst document), q2 (dc_sgst document), q2 (dc_igst document), q2 (dc_cess document)) \<and>
    (\<Sum>i\<leftarrow>lines. it_cgst i + it_sgst i + it_igst i + line_cess i) = 0 \<and>
    map it_total lines = map (\<lambda>i. q2 (it_taxable i)) items \<and>
    dc_grand d - dc_round_off d = max 0 (q2 (dc_taxable document) + q2 (dc_charges document)
      - (if dc_disc_mode document = ''BEFORE_TAX'' then 0 else q2 (dc_inv_disc document))) \<and>
    \<bar>dc_round_off d\<bar> \<le> 1/2"
proof -
  note f = rcm_memo_facts [OF assms]
  have "(\<Sum>i\<leftarrow>lines. it_cgst i + it_sgst i + it_igst i + line_cess i) = 0"
    unfolding f(6) by (induction items) (auto simp: line_cess_def)
  then show ?thesis using f(1-5,7,8) by (simp add: f(6) comp_def)
qed

theorem rcm_moves_tax_to_memo_witness:
  "\<exists>d. apply_rcm_memo_after_tax (fresh_doc\<lparr>dc_rcm := True, dc_taxable := 100, dc_igst := 18\<rparr>) []
    = Inr (d, []) \<and> dc_rcm_igst d = 18 \<and> dc_igst d = 0"
proof -
  let ?doc = "fresh_doc\<lparr>dc_rcm := True, dc_taxable := 100, dc_igst := 18\<rparr>"
  have "\<exists>d. apply_rcm_memo_after_tax ?doc [] = Inr (d, [])"
    by (simp add: apply_rcm_memo_after_tax_def fresh_doc_def q_eval)
  then obtain d where r: "apply_rcm_memo_after_tax ?doc [] = Inr (d, [])" ..
  have "q2 18 = 18" by (simp add: q_eval)
  with rcm_moves_tax_to_memo [OF r] r show ?thesis by simp
qed

definition freight_doc :: tax_doc where
  "freight_doc = fresh_doc\<lparr>dc_charges := 100, dc_charges_hsn := ''9965'', dc_charges_rate := 18,
     dc_rcm := True\<rparr>"

lemma freight_totals:
  "\<exists>d lines. compute_document_totals [] freight_doc [fresh_item] True True None None None None
      = Inr (d, lines) \<and> dc_taxable d = 200 \<and> dc_grand d = 236
      \<and> (case apply_rcm_memo_after_tax d lines of Inr (d', _) \<Rightarrow> dc_grand d' = 300 | Inl _ \<Rightarrow> False)"
proof -
  have doc: "nonblank_or (dc_price_mode freight_doc) ''EXCLUSIVE'' = ''EXCLUSIVE''"
    "dc_charges freight_doc = 100" "dc_inv_disc freight_doc = 0" "dc_auto_round freight_doc"
    "effective_mode freight_doc None = ''AFTER_TAX''" "q2 100 = 100"
    "bill_line [] freight_doc ''EXCLUSIVE'' True fresh_item = Inr (sample_item, 100, 100, 0)"
    by code_simp+
  have "(case finish_totals freight_doc [sample_item] [100] True True 100 0 True ''AFTER_TAX'' 100 0 of
      Inr (d, lines) \<Rightarrow> dc_taxable d = 200 \<and> dc_grand d = 236 \<and> dc_rcm d \<and> dc_charges d = 100
        \<and> dc_inv_disc d = 0 \<and> dc_disc_mode d = ''AFTER_TAX'' \<and> dc_auto_round d | Inl _ \<Rightarrow> False)"
    by code_simp
  then obtain d lines where f: "finish_totals freight_doc [sample_item] [100] True True 100 0 True
      ''AFTER_TAX'' 100 0 = Inr (d, lines)" and d: "dc_taxable d = 200" "dc_grand d = 236" "dc_rcm d"
      "dc_charges d = 100" "dc_inv_disc d = 0" "dc_disc_mode d = ''AFTER_TAX''" "dc_auto_round d"
    by (auto split: sum.splits)
  have q: "q2 200 = 200" "q2 300 = 300" "q_rupee 300 = 300" by (simp_all add: q_eval)
  have "(case apply_rcm_memo_after_tax d lines of Inr (d', _) \<Rightarrow> dc_grand d' = 300 | Inl _ \<Rightarrow> False)"
    by (simp add: apply_rcm_memo_after_tax_def Let_def d q doc(6))
  then show ?thesis
    using f d(1,2)
    by (simp add: compute_document_totals_def doc apply_inclusive_prices_to_items_def
        opt_arg_def adjust_taxables_def restore_discounts_def)
qed

text \<open>
  Under reverse charge a taxed freight line is asked for twice: the taxable total already
  includes it, and the payable adds the charges again.  A line of 100 with freight of 100 is billed
  at 300 instead of 200.
\<close>

theorem rcm_counts_taxed_freight_twice:
  "\<exists>d lines d' lines'.
    compute_document_totals [] freight_doc [fresh_item] True True None None None None = Inr (d, lines) \<and>
    dc_taxable d = 200 \<and> apply_rcm_memo_after_tax d lines = Inr (d', lines') \<and> dc_grand d' = 300"
  using freight_totals by (fastforce split: sum.splits)

text \<open>
  Completing a bill under the filing registration's state never changes what the customer owes
  behind the operator's back: with the recompute flag on and no confirmation, the call either leaves
  the bill alone or changes the grand total by at most one paisa.
\<close>

theorem stamped_total_is_confirmed:
  assumes "recompute_totals_for_stamped_gstin table company flag_on stamp st document items ps pg e
      confirm opening = Inr (d, lines)"
    and "flag_on" and "\<not> confirm"
  shows "(d = document \<and> lines = items) \<or> \<bar>dc_grand d - dc_grand document\<bar> \<le> 1/100"
  using assms
  by (auto simp: recompute_totals_for_stamped_gstin_def Let_def guard_res_Inr_iff bind_res_Inr_iff
      split: option.splits if_splits)

lemma empty_doc_totals:
  "\<exists>d. compute_document_totals [] fresh_doc [] True intra (Some 0) (Some 0) (Some True)
    (Some ''AFTER_TAX'') = Inr (d, []) \<and> dc_grand d = 0"
proof -
  have "\<forall>b. (case finish_totals fresh_doc [] [] True b 0 0 True ''AFTER_TAX'' 0 0 of
      Inr (d, lines) \<Rightarrow> lines = [] \<and> dc_grand d = 0 | Inl _ \<Rightarrow> False)"
    by code_simp
  from spec [OF this, of intra] obtain d where "finish_totals fresh_doc [] [] True intra 0 0 True ''AFTER_TAX'' 0 0 = Inr (d, [])"
    "dc_grand d = 0" by (auto split: sum.splits)
  then show ?thesis
    by (simp add: compute_document_totals_def apply_inclusive_prices_to_items_def opt_arg_def
        adjust_taxables_def effective_mode_def restore_discounts_def)
qed

theorem stamped_total_is_confirmed_witness:
  "\<exists>d. recompute_totals_for_stamped_gstin [] \<lparr>gc_state = ''Goa'', gc_gstin = [], gc_assume_local = False\<rparr>
      True (Some (''Goa'', [])) [] fresh_doc [] ''Goa'' [] True True False = Inr (d, []) \<and>
    recompute_totals_for_stamped_gstin [] \<lparr>gc_state = ''Goa'', gc_gstin = [], gc_assume_local = False\<rparr>
      True (Some (''Goa'', [])) [] fresh_doc [] ''Goa'' [] True False False = Inr (d, []) \<and>
    ((d = fresh_doc \<and> ([]::tax_item list) = []) \<or> \<bar>dc_grand d - dc_grand fresh_doc\<bar> \<le> 1/100)"
proof -
  let ?co = "\<lparr>gc_state = ''Goa'', gc_gstin = [], gc_assume_local = False\<rparr> :: gst_company"
  let ?run = "\<lambda>confirm. recompute_totals_for_stamped_gstin [] ?co True (Some (''Goa'', [])) [] fresh_doc []
      ''Goa'' [] True confirm False"
  define intra where "intra = party_intra_state ?co ''Goa'' [] ''Goa'' [] []"
  obtain d where d: "compute_document_totals [] fresh_doc [] True intra (Some 0) (Some 0) (Some True)
    (Some ''AFTER_TAX'') = Inr (d, [])" "dc_grand d = 0"
    using empty_doc_totals [of intra] by blast
  have run: "?run c = Inr (d, [])" for c
    using d by (simp add: recompute_totals_for_stamped_gstin_def Let_def intra_def fresh_doc_def)
  from stamped_total_is_confirmed [OF run] run show ?thesis by blast
qed

end
