(* ===== verification/Sales_Orders.thy ===== *)
theory Sales_Orders
  imports Prelude
begin

text \<open>
  What a sales order still owes and still holds (\<open>sales/order_quantities.py\<close>): the quantities on
  its challans, returns and invoices, the line counters that cache them, and the order's status.
  A dict from product to quantity is a map; the tables are the lists of one company's documents.
\<close>

section \<open>Documents\<close>

datatype order_status = SO_DRAFT | SO_CONFIRMED | SO_PARTIALLY_CONVERTED | SO_CONVERTED | SO_CANCELLED

datatype challan_status = CH_DRAFT | CH_COMPLETED | CH_CANCELLED

datatype invoice_status = IV_DRAFT | IV_COMPLETED | IV_CANCELLED | IV_RETURNED

record order_line =
  ol_pk :: int
  ol_product :: int
  ol_quantity :: rat
  ol_shipped :: rat
  ol_invoiced :: rat

record sales_order =
  so_pk :: int
  so_status :: order_status
  so_stock_held :: bool
  so_lines :: "order_line list"          \<comment> \<open>in id order\<close>
  so_converted :: "int option"           \<comment> \<open>\<open>converted_invoice_id\<close>\<close>

record challan =
  ch_pk :: int
  ch_order :: "int option"
  ch_status :: challan_status
  ch_items :: "(int \<times> rat) list"
  ch_converted :: "int option"

record challan_return =
  cr_challan :: int
  cr_status :: challan_status
  cr_items :: "(int \<times> rat) list"

record sales_invoice =
  iv_pk :: int
  iv_source_order :: "int option"
  iv_status :: invoice_status
  iv_items :: "(int \<times> rat) list"

record order_docs =
  od_challans :: "challan list"
  od_returns :: "challan_return list"
  od_invoices :: "sales_invoice list"

section \<open>Quantities per product\<close>

type_synonym qty_map = "int \<Rightarrow> rat option"

text \<open>The loop \<open>out[product_id] += quantity\<close> over rows.\<close>

definition by_product :: "(int \<times> rat) list \<Rightarrow> qty_map" where
  "by_product rows p =
    (if p \<in> set (map fst rows) then Some (\<Sum>r\<leftarrow>filter (\<lambda>r. fst r = p) rows. snd r) else None)"

definition ordered_rows :: "sales_order \<Rightarrow> (int \<times> rat) list" where
  "ordered_rows order = map (\<lambda>l. (ol_product l, ol_quantity l)) (so_lines order)"

definition ordered_by_product :: "sales_order \<Rightarrow> qty_map" where
  "ordered_by_product order = by_product (ordered_rows order)"

definition challan_rows :: "bool \<Rightarrow> order_docs \<Rightarrow> sales_order \<Rightarrow> (int \<times> rat) list" where
  "challan_rows completed_only docs order =
    concat (map ch_items (filter (\<lambda>c. ch_order c = Some (so_pk order) \<and>
      (if completed_only then ch_status c = CH_COMPLETED else ch_status c \<noteq> CH_CANCELLED))
      (od_challans docs)))"

definition return_rows :: "order_docs \<Rightarrow> sales_order \<Rightarrow> (int \<times> rat) list" where
  "return_rows docs order =
    concat (map cr_items (filter (\<lambda>r. cr_status r = CH_COMPLETED \<and>
      list_ex (\<lambda>c. ch_pk c = cr_challan r \<and> ch_order c = Some (so_pk order)) (od_challans docs))
      (od_returns docs)))"

definition returned_by_product :: "order_docs \<Rightarrow> sales_order \<Rightarrow> qty_map" where
  "returned_by_product docs order = by_product (return_rows docs order)"

definition shipped_by_product :: "bool \<Rightarrow> order_docs \<Rightarrow> sales_order \<Rightarrow> qty_map" where
  "shipped_by_product completed_only docs order p =
    (case by_product (challan_rows completed_only docs order) p of
       None \<Rightarrow> None
     | Some q \<Rightarrow> (case returned_by_product docs order p of
                   None \<Rightarrow> Some q | Some r \<Rightarrow> Some (max 0 (q - r))))"

definition invoice_rows :: "(sales_invoice \<Rightarrow> bool) \<Rightarrow> order_docs \<Rightarrow> sales_order \<Rightarrow> (int \<times> rat) list" where
  "invoice_rows keep docs order =
    concat (map iv_items (filter (\<lambda>i. iv_source_order i = Some (so_pk order) \<and> keep i)
      (od_invoices docs)))"

definition invoiced_directly_by_product ::
  "int option \<Rightarrow> order_docs \<Rightarrow> sales_order \<Rightarrow> qty_map" where
  "invoiced_directly_by_product exclude docs order =
    by_product (invoice_rows
      (\<lambda>i. (iv_status i = IV_COMPLETED \<or> iv_status i = IV_RETURNED) \<and> Some (iv_pk i) \<noteq> exclude)
      docs order)"

definition claimed_directly_by_product :: "order_docs \<Rightarrow> sales_order \<Rightarrow> qty_map" where
  "claimed_directly_by_product docs order =
    by_product (invoice_rows (\<lambda>i. iv_status i \<noteq> IV_CANCELLED) docs order)"

definition order_still_held :: "int option \<Rightarrow> order_docs \<Rightarrow> sales_order \<Rightarrow> qty_map" where
  "order_still_held exclude docs order p =
    (if \<not> so_stock_held order \<or> so_status order = SO_CANCELLED then None
     else case ordered_by_product order p of
       None \<Rightarrow> None
     | Some q \<Rightarrow>
         (let left = q - or0 (shipped_by_product True docs order p)
                       - or0 (invoiced_directly_by_product exclude docs order p)
          in if 0 < left then Some left else None))"

definition order_remaining :: "order_docs \<Rightarrow> sales_order \<Rightarrow> qty_map" where
  "order_remaining docs order p =
    (case ordered_by_product order p of
       None \<Rightarrow> None
     | Some q \<Rightarrow>
         (let left = q - or0 (shipped_by_product False docs order p)
                       - or0 (claimed_directly_by_product docs order p)
          in Some (if 0 < left then left else 0)))"

definition remaining_excluding_challan :: "order_docs \<Rightarrow> sales_order \<Rightarrow> challan option \<Rightarrow> qty_map" where
  "remaining_excluding_challan docs order own =
    (case own of
       None \<Rightarrow> order_remaining docs order
     | Some c \<Rightarrow> (\<lambda>p. case by_product (ch_items c) p of
         None \<Rightarrow> order_remaining docs order p
       | Some q \<Rightarrow> Some (or0 (order_remaining docs order p) + q)))"

section \<open>Labels and live documents\<close>

definition invoice_live :: "order_docs \<Rightarrow> int option \<Rightarrow> bool" where
  "invoice_live docs pk =
    list_ex (\<lambda>i. Some (iv_pk i) = pk \<and> iv_status i \<noteq> IV_CANCELLED) (od_invoices docs)"

datatype fulfilment = Nothing_Shipped | Shipped_Not_Invoiced | Invoiced

definition fulfilment_state :: "order_docs \<Rightarrow> sales_order \<Rightarrow> fulfilment" where
  "fulfilment_state docs order =
    (let mine = filter (\<lambda>c. ch_order c = Some (so_pk order) \<and> ch_status c = CH_COMPLETED)
                  (od_challans docs) in
     if invoice_live docs (so_converted order) then Invoiced
     else if list_ex (\<lambda>i. iv_source_order i = Some (so_pk order) \<and> iv_status i \<noteq> IV_CANCELLED)
               (od_invoices docs) then Invoiced
     else if list_ex (\<lambda>c. invoice_live docs (ch_converted c)) mine then Invoiced
     else if mine \<noteq> [] then Shipped_Not_Invoiced
     else Nothing_Shipped)"

definition invoices_for_order :: "order_docs \<Rightarrow> sales_order \<Rightarrow> sales_invoice list" where
  "invoices_for_order docs order =
    filter (\<lambda>i. iv_status i \<noteq> IV_CANCELLED \<and>
        (iv_source_order i = Some (so_pk order)
         \<or> list_ex (\<lambda>c. ch_converted c = Some (iv_pk i) \<and> ch_order c = Some (so_pk order))
             (od_challans docs)
         \<or> so_converted order = Some (iv_pk i)))
      (od_invoices docs)"

definition live_challans_for_order :: "order_docs \<Rightarrow> sales_order \<Rightarrow> challan list" where
  "live_challans_for_order docs order =
    filter (\<lambda>c. ch_order c = Some (so_pk order) \<and> ch_status c \<noteq> CH_CANCELLED) (od_challans docs)"

section \<open>Line counters\<close>

text \<open>One product's lines, in id order: each takes up to its quantity, the last takes the rest.\<close>

fun take_lines :: "rat \<Rightarrow> order_line list \<Rightarrow> (int \<times> rat) list" where
  "take_lines amount [] = []"
| "take_lines amount [l] = [(ol_pk l, amount)]"
| "take_lines amount (l # ls) =
    (let t = min (ol_quantity l) amount in (ol_pk l, t) # take_lines (amount - t) ls)"

definition distribute :: "order_line list \<Rightarrow> qty_map \<Rightarrow> (int \<times> rat) list" where
  "distribute lines totals =
    concat (map (\<lambda>p. take_lines (or0 (totals p)) (filter (\<lambda>l. ol_product l = p) lines))
      (remdups (map ol_product lines)))"

definition sync_order_counters :: "order_docs \<Rightarrow> sales_order \<Rightarrow> sales_order" where
  "sync_order_counters docs order =
    (let lines = so_lines order in
     if lines = [] then order
     else
       let shipped = distribute lines (shipped_by_product False docs order);
           invoiced = distribute lines (claimed_directly_by_product docs order)
       in order\<lparr>so_lines := map (\<lambda>l. l\<lparr>ol_shipped := or0 (map_of shipped (ol_pk l)),
                                     ol_invoiced := or0 (map_of invoiced (ol_pk l))\<rparr>) lines\<rparr>)"

definition line_remaining :: "order_line \<Rightarrow> rat" where
  "line_remaining line =
    (let left = ol_quantity line - ol_shipped line - ol_invoiced line
     in if 0 < left then left else 0)"

text \<open>
  The quantities a conversion of the order takes (\<open>notes_services\<close>): the caller's explicit
  quantities by line id, or everything that remains.
\<close>

definition requested_quantity :: "(int \<times> rat) list option \<Rightarrow> order_line \<Rightarrow> (int \<times> rat) res" where
  "requested_quantity lookup line =
    (let remaining = line_remaining line;
         qty = (case lookup of None \<Rightarrow> Some remaining | Some m \<Rightarrow> map_of m (ol_pk line)) in
     case qty of
       None \<Rightarrow> Inr (ol_pk line, 0)
     | Some q \<Rightarrow>
         guard_res (q < 0) (Business_Rule ''Conversion quantity must be greater than zero.'')
           (guard_res (remaining < q) (Business_Rule ''Cannot convert: only the remainder is still open on this sales order.'')
             (Inr (ol_pk line, q))))"

definition conversion_quantities ::
  "(int \<times> rat) list option \<Rightarrow> order_line list \<Rightarrow> (int \<times> rat) list res" where
  "conversion_quantities lookup lines =
    bind_res (map_res (requested_quantity lookup) lines) (\<lambda>requested.
      guard_res (\<not> list_ex (\<lambda>r. 0 < snd r) requested) (Business_Rule ''Nothing is left to convert.'')
        (Inr requested))"

section \<open>The order's status\<close>

definition taken_all :: "sales_order \<Rightarrow> bool" where
  "taken_all order = (so_lines order \<noteq> [] \<and>
     list_all (\<lambda>l. ol_quantity l \<le> ol_shipped l + ol_invoiced l) (so_lines order))"

definition shipped_net :: "order_docs \<Rightarrow> sales_order \<Rightarrow> rat" where
  "shipped_net docs order =
    (\<Sum>p\<leftarrow>remdups (map fst (challan_rows True docs order)). or0 (shipped_by_product True docs order p))"

definition live_drafts :: "order_docs \<Rightarrow> sales_order \<Rightarrow> bool" where
  "live_drafts docs order =
    (list_ex (\<lambda>c. ch_status c = CH_DRAFT) (live_challans_for_order docs order)
     \<or> list_ex (\<lambda>i. iv_status i = IV_DRAFT) (invoices_for_order docs order))"

definition completed_any :: "order_docs \<Rightarrow> sales_order \<Rightarrow> bool" where
  "completed_any docs order =
    ((list_ex (\<lambda>c. ch_status c = CH_COMPLETED) (live_challans_for_order docs order)
       \<and> 0 < shipped_net docs order)
     \<or> list_ex (\<lambda>i. iv_status i = IV_COMPLETED \<or> iv_status i = IV_RETURNED)
         (invoices_for_order docs order))"

definition target_status :: "bool \<Rightarrow> order_docs \<Rightarrow> sales_order \<Rightarrow> order_status" where
  "target_status allow_reopen docs order =
    (let st = so_status order;
         live_any = (live_challans_for_order docs order \<noteq> [] \<or> invoices_for_order docs order \<noteq> []) in
     if completed_any docs order \<and> taken_all order \<and> \<not> live_drafts docs order then SO_CONVERTED
     else if completed_any docs order \<and>
        (st \<in> {SO_DRAFT, SO_CONFIRMED, SO_PARTIALLY_CONVERTED} \<or> (allow_reopen \<and> st = SO_CONVERTED))
       then SO_PARTIALLY_CONVERTED
     else if \<not> completed_any docs order \<and> \<not> live_any \<and>
        (st = SO_PARTIALLY_CONVERTED \<or> (allow_reopen \<and> st = SO_CONVERTED))
       then (if so_stock_held order then SO_CONFIRMED else SO_DRAFT)
     else st)"

definition latest_live :: "order_docs \<Rightarrow> sales_order \<Rightarrow> int option" where
  "latest_live docs order =
    (let ids = map iv_pk (invoices_for_order docs order) in
     if ids \<noteq> [] \<and> (case so_converted order of None \<Rightarrow> True | Some c \<Rightarrow> c \<notin> set ids)
     then Some (Max (set ids)) else so_converted order)"

definition recompute_order_status :: "bool \<Rightarrow> order_docs \<Rightarrow> sales_order \<Rightarrow> sales_order" where
  "recompute_order_status allow_reopen docs order =
    (if so_status order = SO_CANCELLED then order
     else let o1 = sync_order_counters docs order in
       o1\<lparr>so_status := target_status allow_reopen docs o1, so_converted := latest_live docs o1\<rparr>)"

section \<open>Facts about quantities per product\<close>

definition row_sum :: "(int \<times> rat) list \<Rightarrow> int \<Rightarrow> rat" where
  "row_sum rows p = (\<Sum>r\<leftarrow>filter (\<lambda>r. fst r = p) rows. snd r)"

lemma row_sum_absent: "p \<notin> fst ` set rows \<Longrightarrow> row_sum rows p = 0"
proof -
  assume "p \<notin> fst ` set rows"
  then have "filter (\<lambda>r. fst r = p) rows = []" by (force simp: filter_empty_conv)
  then show ?thesis by (simp add: row_sum_def)
qed

lemma or0_by_product [simp]: "or0 (by_product rows p) = row_sum rows p"
  by (auto simp: by_product_def row_sum_absent) (simp add: row_sum_def)

lemma row_sum_concat:
  "row_sum (concat (map f xs)) p = (\<Sum>x\<leftarrow>xs. row_sum (f x) p)"
  by (induction xs) (auto simp: row_sum_def)

lemma row_sum_nonneg: "(\<And>r. r \<in> set rows \<Longrightarrow> 0 \<le> snd r) \<Longrightarrow> 0 \<le> row_sum rows p"
  unfolding row_sum_def by (intro sum_list_nonneg_mem) auto

lemma sum_list_filter_mono:
  fixes g :: "'a \<Rightarrow> rat"
  assumes "\<And>x. x \<in> set xs \<Longrightarrow> 0 \<le> g x" and "\<And>x. P x \<Longrightarrow> Q x"
  shows "(\<Sum>x\<leftarrow>filter P xs. g x) \<le> (\<Sum>x\<leftarrow>filter Q xs. g x)"
  using assms
proof (induction xs)
  case (Cons x xs)
  have "(\<Sum>x\<leftarrow>filter P xs. g x) \<le> (\<Sum>x\<leftarrow>filter Q xs. g x)" using Cons by auto
  then show ?case using Cons.prems(1) [of x] Cons.prems(2) [of x] by auto
qed simp

definition nonneg_items :: "order_docs \<Rightarrow> bool" where
  "nonneg_items docs =
    (list_all (\<lambda>c. list_all (\<lambda>r. 0 \<le> snd r) (ch_items c)) (od_challans docs) \<and>
     list_all (\<lambda>r. list_all (\<lambda>r. 0 \<le> snd r) (cr_items r)) (od_returns docs) \<and>
     list_all (\<lambda>i. list_all (\<lambda>r. 0 \<le> snd r) (iv_items i)) (od_invoices docs))"

lemma shipped_by_product_or0:
  "or0 (shipped_by_product c docs order p) =
    (if p \<in> set (map fst (challan_rows c docs order)) \<and> p \<in> set (map fst (return_rows docs order))
     then max 0 (row_sum (challan_rows c docs order) p - row_sum (return_rows docs order) p)
     else row_sum (challan_rows c docs order) p)"
  by (auto simp: shipped_by_product_def returned_by_product_def by_product_def row_sum_absent
      row_sum_def [symmetric])

lemma shipped_completed_le_claimed:
  assumes "nonneg_items docs"
  shows "or0 (shipped_by_product True docs order p) \<le> or0 (shipped_by_product False docs order p)"
proof -
  let ?T = "challan_rows True docs order" and ?F = "challan_rows False docs order"
  have "row_sum ?T p \<le> row_sum ?F p"
    unfolding challan_rows_def row_sum_concat using assms
    by (intro sum_list_filter_mono row_sum_nonneg) (auto simp: nonneg_items_def list_all_iff)
  moreover have sub: "set ?T \<subseteq> set ?F" by (auto simp: challan_rows_def)
  moreover have "0 \<le> row_sum ?F p"
    using assms by (intro row_sum_nonneg) (auto simp: challan_rows_def nonneg_items_def list_all_iff)
  moreover have "row_sum ?T p = 0" if "p \<notin> set (map fst ?T)"
    using that by (simp add: row_sum_absent)
  moreover have "p \<in> set (map fst ?F)" if "p \<in> set (map fst ?T)" using sub that by auto
  ultimately show ?thesis unfolding shipped_by_product_or0 by (auto simp: max_def)
qed

lemma invoiced_le_claimed:
  assumes "nonneg_items docs"
  shows "or0 (invoiced_directly_by_product ex docs order p) \<le> or0 (claimed_directly_by_product docs order p)"
  unfolding invoiced_directly_by_product_def claimed_directly_by_product_def invoice_rows_def
    or0_by_product row_sum_concat
  using assms
  by (intro sum_list_filter_mono row_sum_nonneg) (auto simp: nonneg_items_def list_all_iff)

text \<open>
  A new document never claims stock the order does not hold: for a confirmed order, what is
  still free to ship or bill of a product (drafts already claim theirs) is never more than what is
  still reserved for the order.
\<close>

theorem remaining_within_held:
  assumes "nonneg_items docs" and "so_stock_held order" and "so_status order \<noteq> SO_CANCELLED"
  shows "or0 (order_remaining docs order p) \<le> or0 (order_still_held ex docs order p)"
  using shipped_completed_le_claimed [OF assms(1), of order p]
    invoiced_le_claimed [OF assms(1), of ex order p] assms(2,3)
  by (auto simp: order_remaining_def order_still_held_def Let_def split: option.splits)

section \<open>Facts about the line counters\<close>

lemma take_lines_keys: "map fst (take_lines a ls) = map ol_pk ls"
  by (induction a ls rule: take_lines.induct) (auto simp: Let_def)

lemma take_lines_sum: "ls \<noteq> [] \<Longrightarrow> (\<Sum>x\<leftarrow>take_lines a ls. snd x) = a"
  by (induction a ls rule: take_lines.induct) (auto simp: Let_def)

lemma take_lines_cong:
  assumes "map (\<lambda>l. (ol_pk l, ol_quantity l)) ls = map (\<lambda>l. (ol_pk l, ol_quantity l)) ls'"
  shows "take_lines a ls = take_lines a ls'"
  using assms
proof (induction a ls arbitrary: ls' rule: take_lines.induct)
  case (3 a l k ls)
  then obtain l' k' ls'' where ls': "ls' = l' # k' # ls''" by (auto simp: Cons_eq_map_conv)
  have "take_lines (a - t) (k # ls) = take_lines (a - t) (k' # ls'')" if "t = min (ol_quantity l) a" for t
    using 3(1) [OF that, of "k' # ls''"] 3(2) ls' by simp
  then show ?case using 3(2) ls' by (simp add: Let_def)
qed (auto simp: Cons_eq_map_conv)

lemma distribute_keys_distinct:
  assumes "distinct (map ol_pk lines)"
  shows "distinct (map fst (distribute lines m))"
proof -
  have "distinct (concat (map (\<lambda>p. map ol_pk (filter (\<lambda>l. ol_product l = p) lines)) ps))"
    if "distinct ps" for ps
    using that
  proof (induction ps)
    case (Cons p ps)
    have "inj_on ol_pk (set lines)" using assms by (simp add: distinct_map)
    then show ?case using Cons assms
      by (auto simp: distinct_map inj_on_def filter_map intro: inj_on_subset)
  qed simp
  then show ?thesis
    by (simp add: distribute_def map_concat take_lines_keys comp_def)
qed

lemma map_of_take_lines:
  assumes "distinct (map fst D)" and "set T \<subseteq> set D" and "map fst T = map ol_pk ls"
  shows "map (\<lambda>l. or0 (map_of D (ol_pk l))) ls = map snd T"
  using assms(2,3)
proof (induction T arbitrary: ls)
  case (Cons t T)
  then obtain l ls' where ls: "ls = l # ls'" "fst t = ol_pk l" by auto
  have "map_of D (ol_pk l) = Some (snd t)"
    using assms(1) Cons.prems(1) ls(2) by (metis list.set_intros(1) map_of_is_SomeI prod.collapse subsetD)
  then show ?case using Cons ls by auto
qed auto

lemma distribute_sum:
  assumes "distinct (map ol_pk lines)" and "p \<in> set (map ol_product lines)"
  shows "(\<Sum>l\<leftarrow>filter (\<lambda>l. ol_product l = p) lines. or0 (map_of (distribute lines m) (ol_pk l)))
    = or0 (m p)"
proof -
  let ?ls = "filter (\<lambda>l. ol_product l = p) lines"
  let ?T = "take_lines (or0 (m p)) ?ls"
  have "set ?T \<subseteq> set (distribute lines m)"
    using assms(2) by (auto simp: distribute_def)
  then have "map (\<lambda>l. or0 (map_of (distribute lines m) (ol_pk l))) ?ls = map snd ?T"
    by (rule map_of_take_lines [OF distribute_keys_distinct [OF assms(1)] _ take_lines_keys])
  moreover have "?ls \<noteq> []" using assms(2) by (auto simp: filter_empty_conv)
  ultimately show ?thesis using take_lines_sum [of ?ls "or0 (m p)"] by simp
qed

lemma sync_lines:
  assumes "so_lines order \<noteq> []"
  shows "so_lines (sync_order_counters docs order) =
    map (\<lambda>l. l\<lparr>ol_shipped := or0 (map_of (distribute (so_lines order) (shipped_by_product False docs order)) (ol_pk l)),
          ol_invoiced := or0 (map_of (distribute (so_lines order) (claimed_directly_by_product docs order)) (ol_pk l))\<rparr>)
      (so_lines order)"
  using assms by (simp add: sync_order_counters_def Let_def)

lemma counters_conserve:
  assumes "distinct (map ol_pk (so_lines order))" and "p \<in> set (map ol_product (so_lines order))"
  shows "(let lines = filter (\<lambda>l. ol_product l = p) (so_lines (sync_order_counters docs order)) in
    (\<Sum>l\<leftarrow>lines. ol_shipped l) = or0 (shipped_by_product False docs order p) \<and>
    (\<Sum>l\<leftarrow>lines. ol_invoiced l) = or0 (claimed_directly_by_product docs order p) \<and>
    map (\<lambda>l. (ol_pk l, ol_quantity l)) lines =
      map (\<lambda>l. (ol_pk l, ol_quantity l)) (filter (\<lambda>l. ol_product l = p) (so_lines order)) \<and>
    order_remaining docs order p =
      Some (max 0 (\<Sum>l\<leftarrow>lines. ol_quantity l - ol_shipped l - ol_invoiced l)))"
proof -
  let ?o = "sync_order_counters docs order"
  have ne: "so_lines order \<noteq> []" using assms(2) by auto
  have sums: "(\<Sum>l\<leftarrow>filter (\<lambda>l. ol_product l = p) (so_lines ?o). ol_shipped l)
      = or0 (shipped_by_product False docs order p)"
    "(\<Sum>l\<leftarrow>filter (\<lambda>l. ol_product l = p) (so_lines ?o). ol_invoiced l)
      = or0 (claimed_directly_by_product docs order p)"
    using distribute_sum [OF assms, of "shipped_by_product False docs order"]
      distribute_sum [OF assms, of "claimed_directly_by_product docs order"]
    by (simp_all add: sync_lines [OF ne] filter_map comp_def del: or0_by_product)
  have qty: "map (\<lambda>l. (ol_pk l, ol_quantity l)) (filter (\<lambda>l. ol_product l = p) (so_lines ?o))
      = map (\<lambda>l. (ol_pk l, ol_quantity l)) (filter (\<lambda>l. ol_product l = p) (so_lines order))"
    by (simp add: sync_lines [OF ne] filter_map comp_def)
  have "row_sum (ordered_rows order) p = (\<Sum>l\<leftarrow>filter (\<lambda>l. ol_product l = p) (so_lines order). ol_quantity l)"
    by (simp add: row_sum_def ordered_rows_def filter_map comp_def)
  also have "\<dots> = (\<Sum>l\<leftarrow>filter (\<lambda>l. ol_product l = p) (so_lines ?o). ol_quantity l)"
    using arg_cong [OF qty, of "\<lambda>xs. sum_list (map snd xs)"] by (simp add: comp_def)
  finally have ord: "ordered_by_product order p
      = Some (\<Sum>l\<leftarrow>filter (\<lambda>l. ol_product l = p) (so_lines ?o). ol_quantity l)"
    using assms(2) by (auto simp: ordered_by_product_def by_product_def row_sum_def ordered_rows_def)
  show ?thesis unfolding Let_def
    using sums qty by (auto simp: order_remaining_def ord Let_def sum_list_subtractf max_def)
qed

text \<open>
  C33. No quantity is lost from the counters: after a sync, the shipped quantities of a product's
  lines add up to what its challans carry net of returns, the invoiced quantities to what its
  direct invoices carry, the ordered quantities are untouched, and what remains of the product is
  what was ordered less what was shipped and invoiced, summed over its lines and cut at zero once, for
  the sum.
\<close>

theorem counters_conserve_quantity:
  assumes "distinct (map ol_pk (so_lines order))" and "p \<in> set (map ol_product (so_lines order))"
  shows "(let lines = filter (\<lambda>l. ol_product l = p) (so_lines (sync_order_counters docs order)) in
    (\<Sum>l\<leftarrow>lines. ol_shipped l) = or0 (shipped_by_product False docs order p) \<and>
    (\<Sum>l\<leftarrow>lines. ol_invoiced l) = or0 (claimed_directly_by_product docs order p) \<and>
    map (\<lambda>l. (ol_pk l, ol_quantity l)) lines =
      map (\<lambda>l. (ol_pk l, ol_quantity l)) (filter (\<lambda>l. ol_product l = p) (so_lines order)) \<and>
    order_remaining docs order p =
      Some (max 0 (\<Sum>l\<leftarrow>lines. ol_quantity l - ol_shipped l - ol_invoiced l)))"
  by (rule counters_conserve [OF assms])

lemma distribute_cong:
  assumes "map (\<lambda>l. (ol_pk l, ol_product l, ol_quantity l)) ls
      = map (\<lambda>l. (ol_pk l, ol_product l, ol_quantity l)) ls'"
  shows "distribute ls m = distribute ls' m"
proof -
  have f: "map (\<lambda>l. (ol_pk l, ol_quantity l)) (filter (\<lambda>l. ol_product l = p) ls)
      = map (\<lambda>l. (ol_pk l, ol_quantity l)) (filter (\<lambda>l. ol_product l = p) ls')" for p
    using assms by (induction ls ls' rule: list_induct2') auto
  have "map ol_product ls = map ol_product ls'"
    using arg_cong [OF assms, of "map (fst \<circ> snd)"] by (simp add: comp_def)
  then show ?thesis unfolding distribute_def using take_lines_cong [OF f] by simp
qed

lemma sync_keeps [simp]:
  "so_pk (sync_order_counters docs order) = so_pk order"
  "so_status (sync_order_counters docs order) = so_status order"
  "so_stock_held (sync_order_counters docs order) = so_stock_held order"
  "so_converted (sync_order_counters docs order) = so_converted order"
  "so_lines (sync_order_counters docs order) = [] \<longleftrightarrow> so_lines order = []"
  by (simp_all add: sync_order_counters_def Let_def)

lemma rows_depend_on_pk:
  assumes "so_pk o1 = so_pk o2"
  shows "challan_rows c docs o1 = challan_rows c docs o2" "return_rows docs o1 = return_rows docs o2"
    "invoice_rows k docs o1 = invoice_rows k docs o2"
    "live_challans_for_order docs o1 = live_challans_for_order docs o2"
  by (simp_all add: challan_rows_def return_rows_def invoice_rows_def live_challans_for_order_def assms)

lemma maps_depend_on_pk:
  assumes "so_pk o1 = so_pk o2"
  shows "shipped_by_product c docs o1 = shipped_by_product c docs o2"
    "claimed_directly_by_product docs o1 = claimed_directly_by_product docs o2"
    "shipped_net docs o1 = shipped_net docs o2"
  unfolding fun_eq_iff shipped_net_def shipped_by_product_def returned_by_product_def
    claimed_directly_by_product_def rows_depend_on_pk [OF assms] by simp_all

lemma sync_idem:
  assumes "so_lines o2 = so_lines (sync_order_counters docs o1)" and "so_pk o2 = so_pk o1"
  shows "sync_order_counters docs o2 = o2"
proof (cases "so_lines o1 = []")
  case True
  then show ?thesis using assms by (simp add: sync_order_counters_def Let_def)
next
  case False
  have d: "distribute (so_lines o2) m = distribute (so_lines o1) m" for m
    by (rule distribute_cong) (simp add: assms sync_lines [OF False])
  have ne: "so_lines o2 \<noteq> []" using False assms(1) by simp
  have "map (\<lambda>l. l\<lparr>ol_shipped := or0 (map_of (distribute (so_lines o2) (shipped_by_product False docs o2)) (ol_pk l)),
          ol_invoiced := or0 (map_of (distribute (so_lines o2) (claimed_directly_by_product docs o2)) (ol_pk l))\<rparr>)
      (so_lines o2) = so_lines o2"
    unfolding d maps_depend_on_pk [OF assms(2)] unfolding assms(1) sync_lines [OF False]
    by (simp del: map_map add: map_map [unfolded comp_def])
  then show ?thesis using ne by (simp add: sync_order_counters_def Let_def)
qed

lemma invoices_for_order_cong:
  assumes pk: "so_pk o2 = so_pk o1" and c: "so_converted o2 = latest_live docs o1"
    and d: "distinct (map iv_pk (od_invoices docs))"
  shows "invoices_for_order docs o2 = invoices_for_order docs o1"
proof (cases "so_converted o2 = so_converted o1")
  case True
  then show ?thesis by (simp add: invoices_for_order_def pk)
next
  case False
  let ?ids = "set (map iv_pk (invoices_for_order docs o1))"
  have ne: "?ids \<noteq> {}" and out: "case so_converted o1 of None \<Rightarrow> True | Some x \<Rightarrow> x \<notin> ?ids"
    and new: "so_converted o2 = Some (Max ?ids)"
    using False c by (auto simp: latest_live_def Let_def split: if_splits)
  have "Max ?ids \<in> ?ids" using ne by (intro Max_in) auto
  then obtain m where m: "m \<in> set (invoices_for_order docs o1)" "iv_pk m = Max ?ids" by auto
  have inj: "i = m" if "i \<in> set (od_invoices docs)" "iv_pk i = Max ?ids" for i
  proof -
    have "m \<in> set (od_invoices docs)" using m(1) by (simp add: invoices_for_order_def)
    moreover have "iv_pk i = iv_pk m" using m(2) that(2) by (simp only:)
    ultimately show ?thesis using d that(1) by (auto simp only: distinct_map dest: inj_onD)
  qed
  have old: "so_converted o1 \<noteq> Some (iv_pk i)"
    if "i \<in> set (od_invoices docs)" "iv_status i \<noteq> IV_CANCELLED" for i
  proof
    assume e: "so_converted o1 = Some (iv_pk i)"
    then have "i \<in> set (invoices_for_order docs o1)" using that by (simp add: invoices_for_order_def)
    then show False using out e by auto
  qed
  have new': "so_converted o2 = Some (iv_pk m)" using new m(2) by (simp only:)
  have inj': "iv_pk i = iv_pk m \<Longrightarrow> i = m" if "i \<in> set (od_invoices docs)" for i
    using inj [OF that] m(2) by (simp only:)
  have mm: "iv_source_order m = Some (so_pk o1) \<or>
      list_ex (\<lambda>c. ch_converted c = Some (iv_pk m) \<and> ch_order c = Some (so_pk o1)) (od_challans docs)"
    using m(1) old [of m] by (auto simp: invoices_for_order_def)
  show ?thesis unfolding invoices_for_order_def
  proof (rule filter_cong [OF refl])
    fix i assume i: "i \<in> set (od_invoices docs)"
    show "(iv_status i \<noteq> IV_CANCELLED \<and>
        (iv_source_order i = Some (so_pk o2)
         \<or> list_ex (\<lambda>c. ch_converted c = Some (iv_pk i) \<and> ch_order c = Some (so_pk o2)) (od_challans docs)
         \<or> so_converted o2 = Some (iv_pk i))) \<longleftrightarrow> (iv_status i \<noteq> IV_CANCELLED \<and>
        (iv_source_order i = Some (so_pk o1)
         \<or> list_ex (\<lambda>c. ch_converted c = Some (iv_pk i) \<and> ch_order c = Some (so_pk o1)) (od_challans docs)
         \<or> so_converted o1 = Some (iv_pk i)))"
    proof (cases "i = m")
      case True
      then show ?thesis unfolding pk using mm by blast
    next
      case False
      then have "so_converted o2 \<noteq> Some (iv_pk i)" using new' inj' [OF i] by auto
      then show ?thesis unfolding pk using old [OF i] by blast
    qed
  qed
qed

lemma status_facts_depend:
  assumes pk: "so_pk o2 = so_pk o1" and lines: "so_lines o2 = so_lines o1"
    and inv: "invoices_for_order docs o2 = invoices_for_order docs o1"
  shows "completed_any docs o2 = completed_any docs o1" "live_drafts docs o2 = live_drafts docs o1"
    "taken_all o2 = taken_all o1"
    "live_challans_for_order docs o2 = live_challans_for_order docs o1"
  by (simp_all add: completed_any_def live_drafts_def taken_all_def inv lines
      rows_depend_on_pk [OF pk] maps_depend_on_pk [OF pk])

lemma target_status_stable:
  assumes "so_pk o2 = so_pk o1" "so_lines o2 = so_lines o1" "so_stock_held o2 = so_stock_held o1"
    and inv: "invoices_for_order docs o2 = invoices_for_order docs o1"
    and st: "so_status o2 = target_status a docs o1"
  shows "target_status a docs o2 = so_status o2"
  unfolding target_status_def Let_def status_facts_depend [OF assms(1,2) inv] inv assms(3)
  unfolding st target_status_def Let_def
  by (cases "so_status o1"; cases "completed_any docs o1"; cases "taken_all o1"; simp)

lemma latest_live_stable:
  assumes inv: "invoices_for_order docs o2 = invoices_for_order docs o1"
    and c: "so_converted o2 = latest_live docs o1"
  shows "latest_live docs o2 = so_converted o2"
proof -
  let ?ids = "set (map iv_pk (invoices_for_order docs o1))"
  have "Max ?ids \<in> ?ids" if "?ids \<noteq> {}" using that by (intro Max_in) auto
  then show ?thesis using c unfolding latest_live_def [of docs o2] inv Let_def
    by (auto simp: latest_live_def Let_def split: if_splits option.splits)
qed

text \<open>
  Recomputing an order's status is idempotent: a second run with the same documents changes
  nothing, so the status can be recomputed after any event in any order.
\<close>

theorem recompute_status_idempotent:
  assumes "distinct (map iv_pk (od_invoices docs))"
  shows "recompute_order_status a docs (recompute_order_status a docs order)
    = recompute_order_status a docs order"
proof (cases "so_status order = SO_CANCELLED")
  case True
  then show ?thesis by (simp add: recompute_order_status_def)
next
  case False
  define o1 where "o1 = sync_order_counters docs order"
  define o2 where "o2 = o1\<lparr>so_status := target_status a docs o1, so_converted := latest_live docs o1\<rparr>"
  have o2: "recompute_order_status a docs order = o2"
    using False by (simp add: recompute_order_status_def o1_def o2_def Let_def)
  have sync: "sync_order_counters docs o2 = o2"
    by (rule sync_idem [where ?o1.0 = order]) (simp_all add: o2_def o1_def)
  have inv: "invoices_for_order docs o2 = invoices_for_order docs o1"
    by (rule invoices_for_order_cong) (simp_all add: o2_def assms)
  have "target_status a docs o2 = so_status o2"
    by (rule target_status_stable [OF _ _ _ inv]) (simp_all add: o2_def)
  moreover have "latest_live docs o2 = so_converted o2"
    by (rule latest_live_stable [OF inv]) (simp add: o2_def)
  ultimately show ?thesis unfolding o2 recompute_order_status_def [of a docs o2] Let_def sync by simp
qed

text \<open>
  An order is closed only when it owes nothing: if recomputing the status turns an order into
  CONVERTED, no product of it remains to be shipped or billed.
\<close>

theorem closed_order_owes_nothing:
  assumes "distinct (map ol_pk (so_lines order))" and "so_status order \<noteq> SO_CONVERTED"
    and "so_status (recompute_order_status a docs order) = SO_CONVERTED"
  shows "or0 (order_remaining docs order p) = 0"
proof -
  let ?o = "sync_order_counters docs order"
  have taken: "list_all (\<lambda>l. ol_quantity l \<le> ol_shipped l + ol_invoiced l) (so_lines ?o)"
    using assms(2,3)
    by (auto simp: recompute_order_status_def Let_def target_status_def taken_all_def split: if_splits)
  show ?thesis
  proof (cases "p \<in> set (map ol_product (so_lines order))")
    case True
    let ?ls = "filter (\<lambda>l. ol_product l = p) (so_lines ?o)"
    have "(\<Sum>l\<leftarrow>?ls. ol_quantity l - ol_shipped l - ol_invoiced l) \<le> (\<Sum>l\<leftarrow>?ls. 0)"
      using taken by (intro sum_list_mono) (auto simp: list_all_iff)
    then show ?thesis
      using counters_conserve [OF assms(1) True, of docs] by (simp add: Let_def)
  next
    case False
    then show ?thesis
      by (auto simp: order_remaining_def ordered_by_product_def by_product_def ordered_rows_def)
  qed
qed

section \<open>Witnesses\<close>

definition sample_order :: sales_order where
  "sample_order = \<lparr>so_pk = 1, so_status = SO_CONFIRMED, so_stock_held = True,
     so_lines = [\<lparr>ol_pk = 11, ol_product = 7, ol_quantity = 6, ol_shipped = 0, ol_invoiced = 0\<rparr>,
                 \<lparr>ol_pk = 12, ol_product = 7, ol_quantity = 4, ol_shipped = 0, ol_invoiced = 0\<rparr>],
     so_converted = None\<rparr>"

definition sample_docs :: order_docs where
  "sample_docs = \<lparr>od_challans = [\<lparr>ch_pk = 21, ch_order = Some 1, ch_status = CH_COMPLETED,
       ch_items = [(7, 8)], ch_converted = None\<rparr>],
     od_returns = [\<lparr>cr_challan = 21, cr_status = CH_COMPLETED, cr_items = [(7, 1)]\<rparr>],
     od_invoices = [\<lparr>iv_pk = 31, iv_source_order = Some 1, iv_status = IV_COMPLETED,
       iv_items = [(7, 3)]\<rparr>]\<rparr>"

theorem remaining_within_held_witness:
  "order_remaining sample_docs (sample_order\<lparr>so_stock_held := True\<rparr>) 7 = Some 0 \<and>
    or0 (order_remaining sample_docs sample_order 7)
      \<le> or0 (order_still_held None sample_docs sample_order 7)"
proof -
  have "nonneg_items sample_docs" "so_stock_held sample_order" "so_status sample_order \<noteq> SO_CANCELLED"
    "order_remaining sample_docs (sample_order\<lparr>so_stock_held := True\<rparr>) 7 = Some 0"
    by code_simp+
  with remaining_within_held [of sample_docs sample_order 7 None] show ?thesis by blast
qed

theorem counters_conserve_quantity_witness:
  "(\<Sum>l\<leftarrow>filter (\<lambda>l. ol_product l = 7) (so_lines (sync_order_counters sample_docs sample_order)).
      ol_shipped l) = 7"
proof -
  have h: "distinct (map ol_pk (so_lines sample_order))"
    "7 \<in> set (map ol_product (so_lines sample_order))"
    "or0 (shipped_by_product False sample_docs sample_order 7) = 7" by code_simp+
  from counters_conserve_quantity [OF h(1,2), of sample_docs] show ?thesis unfolding Let_def h(3) by blast
qed

theorem recompute_status_idempotent_witness:
  "recompute_order_status False sample_docs (recompute_order_status False sample_docs sample_order)
    = recompute_order_status False sample_docs sample_order"
proof -
  have "distinct (map iv_pk (od_invoices sample_docs))" by code_simp
  from recompute_status_idempotent [OF this] show ?thesis .
qed

definition delivered_docs :: order_docs where
  "delivered_docs = \<lparr>od_challans = [\<lparr>ch_pk = 21, ch_order = Some 1, ch_status = CH_COMPLETED,
       ch_items = [(7, 10)], ch_converted = None\<rparr>], od_returns = [], od_invoices = []\<rparr>"

theorem closed_order_owes_nothing_witness:
  "so_status (recompute_order_status False delivered_docs sample_order) = SO_CONVERTED \<and>
    or0 (order_remaining delivered_docs sample_order 7) = 0"
proof -
  have h: "distinct (map ol_pk (so_lines sample_order))" "so_status sample_order \<noteq> SO_CONVERTED"
    "so_status (recompute_order_status False delivered_docs sample_order) = SO_CONVERTED" by code_simp+
  from closed_order_owes_nothing [OF h] h(3) show ?thesis by blast
qed

text \<open>
  The converse of the closing rule fails when a product stands on two lines: the shipped and the
  billed quantities are spread over the lines independently, so both can land on the first line.
  An order of 6 and 4, with 7 shipped net of returns and 3 billed directly, owes nothing
  (\<open>order_remaining\<close> is 0), yet stays open and still lets 3 more units be converted.
\<close>

theorem two_lines_of_a_product_stay_open:
  "order_remaining sample_docs sample_order 7 = Some 0 \<and>
   so_status (recompute_order_status False sample_docs sample_order) = SO_PARTIALLY_CONVERTED \<and>
   conversion_quantities None (so_lines (sync_order_counters sample_docs sample_order))
     = Inr [(11, 0), (12, 3)]"
  by (intro conjI; code_simp)

end
