(* ===== verification/Receipts.thy ===== *)
theory Receipts
  imports Py_Decimal Py_String Py_Date "HOL-Library.Product_Lexorder"
begin

text \<open>
  Applying money to invoices: the shares of discount and TDS an allocation clears
  (\<open>payments/receipt_math.py\<close>), the open balance of an invoice (\<open>ledgers/services.py\<close>) and the
  allocation operations of \<open>payments/services.py\<close>.  The database is a record of tables; a call
  returns the new tables or the error it raises.  The operations here are the checks and the
  rows; the journal postings that follow them are in \<open>Money_Documents\<close>.
\<close>

section \<open>Tables\<close>

record receipt =
  rc_pk :: int
  rc_company :: int
  rc_customer :: int
  rc_amount :: rat
  rc_discount :: rat              \<comment> \<open>\<open>settlement_discount\<close>\<close>
  rc_tds :: rat                   \<comment> \<open>\<open>tds_deducted\<close>\<close>
  rc_posted :: bool
  rc_cheque_blocks :: bool        \<comment> \<open>\<open>_cheque_blocks_allocation\<close>\<close>
  rc_period_locked :: bool        \<comment> \<open>the period gate refuses the receipt's date\<close>

record sales_bill =
  sb_pk :: int
  sb_company :: int
  sb_customer :: int
  sb_open :: bool                 \<comment> \<open>status COMPLETED or RETURNED\<close>
  sb_grand :: rat
  sb_tcs :: rat
  sb_tcs_in_grand :: bool
  sb_due :: "date option"
  sb_date :: date

record supplier_payment =
  sp_pk :: int
  sp_company :: int
  sp_supplier :: int
  sp_amount :: rat
  sp_tds :: rat
  sp_posted :: bool
  sp_period_locked :: bool

record purchase_bill =
  pb_pk :: int
  pb_company :: int
  pb_supplier :: int
  pb_open :: bool
  pb_grand :: rat
  pb_tds :: rat

record allocation =
  al_receipt :: "int option"
  al_payment :: "int option"
  al_sales :: "int option"
  al_purchase :: "int option"
  al_amount :: rat
  al_discount :: rat
  al_tds :: rat
  al_reversed :: bool

record fin_note =
  nt_bill :: int
  nt_completed :: bool
  nt_total :: rat
  nt_return :: "int option"       \<comment> \<open>\<open>purchase_return_id\<close> of a purchase credit note\<close>
  nt_pk :: int

record money_db =
  db_allocs :: "allocation list"
  db_refunds :: "(int \<times> bool \<times> rat) list"   \<comment> \<open>receipt, posted, amount\<close>
  db_sales_cn :: "fin_note list"
  db_sales_dn :: "fin_note list"
  db_returns :: "fin_note list"                 \<comment> \<open>purchase returns\<close>
  db_purchase_cn :: "fin_note list"
  db_purchase_dn :: "fin_note list"

section \<open>What a receipt has left\<close>

record live_totals =
  lt_cash :: rat
  lt_discount :: rat
  lt_tds :: rat

definition live_totals_of :: "money_db \<Rightarrow> receipt \<Rightarrow> live_totals" where
  "live_totals_of db rc =
    (let rows = filter (\<lambda>a. al_receipt a = Some (rc_pk rc) \<and> \<not> al_reversed a) (db_allocs db) in
     \<lparr>lt_cash = (\<Sum>a\<leftarrow>rows. al_amount a), lt_discount = (\<Sum>a\<leftarrow>rows. al_discount a),
      lt_tds = (\<Sum>a\<leftarrow>rows. al_tds a)\<rparr>)"

definition refunded_total :: "money_db \<Rightarrow> receipt \<Rightarrow> rat" where
  "refunded_total db rc =
    (\<Sum>r\<leftarrow>filter (\<lambda>(pk, posted, _). pk = rc_pk rc \<and> posted) (db_refunds db). snd (snd r))"

definition one_share :: "bool \<Rightarrow> rat \<Rightarrow> rat \<Rightarrow> rat \<Rightarrow> rat \<Rightarrow> rat" where
  "one_share completes cash base amt applied =
    (let left = amt - applied in
     if amt \<le> 0 \<or> left \<le> 0 then 0
     else let share = (if completes then left else q2 (dmul (ddiv cash base) amt))
          in max 0 (min share left))"

definition shares_for :: "receipt \<Rightarrow> rat \<Rightarrow> live_totals \<Rightarrow> rat \<Rightarrow> rat \<times> rat" where
  "shares_for rc cash live refunds =
    (let base = rc_amount rc - refunds in
     if cash \<le> 0 \<or> base \<le> 0 then (0, 0)
     else let completes = (base \<le> lt_cash live + cash) in
       (one_share completes cash base (rc_discount rc) (lt_discount live),
        one_share completes cash base (rc_tds rc) (lt_tds live)))"

definition cleared_by :: "receipt \<Rightarrow> rat \<Rightarrow> live_totals \<Rightarrow> rat \<Rightarrow> rat" where
  "cleared_by rc cash live refunds =
    (let (d, t) = shares_for rc cash live refunds in cash + d + t)"

text \<open>The binary search of \<open>max_cash_for_balance\<close>: the last \<open>mid\<close> that fits.\<close>

function bisect :: "(int \<Rightarrow> bool) \<Rightarrow> int \<Rightarrow> int \<Rightarrow> int" where
  "bisect fits lo hi =
    (if lo < hi then
       (let mid = (lo + hi + 1) div 2 in
        if fits mid then bisect fits mid hi else bisect fits lo (mid - 1))
     else lo)"
  by pat_completeness auto

termination
  by (relation "measure (\<lambda>(fits, lo, hi). nat (hi - lo))") auto

declare bisect.simps [simp del]

definition max_cash_for_balance :: "receipt \<Rightarrow> rat \<Rightarrow> rat \<Rightarrow> live_totals \<Rightarrow> rat \<Rightarrow> rat" where
  "max_cash_for_balance rc balance remaining_cash live refunds =
    (let hi = \<lfloor>q2 (min remaining_cash balance) * 100\<rfloor>
     in of_int (bisect (\<lambda>mid. cleared_by rc (of_int mid / 100) live refunds \<le> balance) 0 hi) / 100)"

definition cash_available :: "money_db \<Rightarrow> receipt \<Rightarrow> rat" where
  "cash_available db rc = max 0 (rc_amount rc - lt_cash (live_totals_of db rc) - refunded_total db rc)"

definition receipt_unallocated :: "money_db \<Rightarrow> receipt \<Rightarrow> rat" where
  "receipt_unallocated db rc =
    rc_amount rc + rc_tds rc - lt_cash (live_totals_of db rc) - lt_tds (live_totals_of db rc)
      - refunded_total db rc"

section \<open>What an invoice still owes\<close>

definition floor_outstanding :: "rat \<Rightarrow> rat" where
  "floor_outstanding raw = (if 0 < raw then raw else 0)"

definition notes_total :: "fin_note list \<Rightarrow> int \<Rightarrow> rat" where
  "notes_total notes bill = (\<Sum>n\<leftarrow>filter (\<lambda>n. nt_bill n = bill \<and> nt_completed n) notes. nt_total n)"

definition sales_allocs :: "money_db \<Rightarrow> int \<Rightarrow> allocation list" where
  "sales_allocs db bill =
    filter (\<lambda>a. al_sales a = Some bill \<and> al_receipt a \<noteq> None \<and> al_payment a = None \<and> \<not> al_reversed a)
      (db_allocs db)"

definition sales_invoice_outstanding :: "money_db \<Rightarrow> sales_bill \<Rightarrow> rat" where
  "sales_invoice_outstanding db bill =
    (if \<not> sb_open bill then 0
     else
       let allocated = (\<Sum>a\<leftarrow>sales_allocs db (sb_pk bill). al_amount a);
           settlement = (\<Sum>a\<leftarrow>sales_allocs db (sb_pk bill). al_discount a + al_tds a);
           tcs = (if sb_tcs_in_grand bill then 0 else sb_tcs bill)
       in floor_outstanding (sb_grand bill + tcs - notes_total (db_sales_cn db) (sb_pk bill)
            + notes_total (db_sales_dn db) (sb_pk bill) - allocated - settlement))"

text \<open>
  A purchase return is relieved once: either by its own credit note, by an unlinked credit note of
  the same amount, or directly.
\<close>

fun link_returns :: "(int \<times> rat) list \<Rightarrow> int list \<Rightarrow> rat list \<Rightarrow> int list" where
  "link_returns [] linked unlinked = linked"
| "link_returns ((pk, amt) # rows) linked unlinked =
    (if pk \<in> set linked then link_returns rows linked unlinked
     else case find (\<lambda>a. \<bar>a - amt\<bar> \<le> 5/100) unlinked of
       None \<Rightarrow> link_returns rows linked unlinked
     | Some a \<Rightarrow> link_returns rows (pk # linked) (remove1 a unlinked))"

definition returns_to_relieve :: "money_db \<Rightarrow> int \<Rightarrow> rat" where
  "returns_to_relieve db bill =
    (let returns = notes_total (db_returns db) bill;
         return_rows = map (\<lambda>n. (nt_pk n, nt_total n))
           (filter (\<lambda>n. nt_bill n = bill \<and> nt_completed n) (db_returns db));
         cn_rows = filter (\<lambda>n. nt_bill n = bill \<and> nt_completed n) (db_purchase_cn db);
         linked0 = List.map_filter nt_return cn_rows;
         unlinked = map nt_total (filter (\<lambda>n. nt_return n = None) cn_rows);
         linked = link_returns return_rows linked0 unlinked
     in if linked \<noteq> [] then
          max 0 (returns - (\<Sum>r\<leftarrow>filter (\<lambda>r. fst r \<in> set linked) return_rows. snd r))
        else returns)"

definition purchase_allocs :: "money_db \<Rightarrow> int \<Rightarrow> allocation list" where
  "purchase_allocs db bill =
    filter (\<lambda>a. al_purchase a = Some bill \<and> al_payment a \<noteq> None \<and> al_receipt a = None \<and> \<not> al_reversed a)
      (db_allocs db)"

definition purchase_invoice_outstanding :: "money_db \<Rightarrow> purchase_bill \<Rightarrow> rat" where
  "purchase_invoice_outstanding db bill =
    (if \<not> pb_open bill then 0
     else floor_outstanding (pb_grand bill - pb_tds bill - returns_to_relieve db (pb_pk bill)
            - notes_total (db_purchase_cn db) (pb_pk bill) + notes_total (db_purchase_dn db) (pb_pk bill)
            - (\<Sum>a\<leftarrow>purchase_allocs db (pb_pk bill). al_amount a)))"

section \<open>Allocating\<close>

text \<open>
  The partial unique constraints of \<open>PaymentAllocation\<close>: at most one live row per receipt and sales
  invoice, and per supplier payment and purchase invoice.  A second one is refused by the database.
\<close>

definition live_pair :: "money_db \<Rightarrow> int \<Rightarrow> int \<Rightarrow> bool" where
  "live_pair db rc bill =
    list_ex (\<lambda>a. al_receipt a = Some rc \<and> al_sales a = Some bill \<and> \<not> al_reversed a) (db_allocs db)"

definition live_supplier_pair :: "money_db \<Rightarrow> int \<Rightarrow> int \<Rightarrow> bool" where
  "live_supplier_pair db pay bill =
    list_ex (\<lambda>a. al_payment a = Some pay \<and> al_purchase a = Some bill \<and> \<not> al_reversed a) (db_allocs db)"

definition allocate_receipt :: "money_db \<Rightarrow> receipt \<Rightarrow> sales_bill \<Rightarrow> rat \<Rightarrow> (money_db \<times> allocation) res" where
  "allocate_receipt db rc bill amount0 =
    (let amount = q2 amount0; live = live_totals_of db rc in
     guard_res (amount \<le> 0) (Business_Rule ''Allocation amount must be greater than zero.'') (
     guard_res (rc_company rc \<noteq> sb_company bill)
       (Business_Rule ''Receipt and invoice belong to different companies.'') (
     guard_res (rc_customer rc \<noteq> sb_customer bill) (Business_Rule ''ALLOCATION_PARTY_MISMATCH'') (
     guard_res (rc_period_locked rc) (Business_Rule ''Period is locked'') (
     guard_res (\<not> sb_open bill)
       (Business_Rule ''Allocations are only allowed against completed invoices.'') (
     guard_res (\<not> rc_posted rc) (Business_Rule ''Only posted receipts can be allocated.'') (
     guard_res (rc_cheque_blocks rc) (Business_Rule ''cheque_not_cleared'') (
     guard_res (cash_available db rc < amount) (Business_Rule ''ALLOCATION_EXCEEDS_UNALLOCATED'') (
     let (discount, tds) = shares_for rc amount live (refunded_total db rc) in
     guard_res (sales_invoice_outstanding db bill < amount + discount + tds)
       (Business_Rule ''allocation_exceeds_outstanding'') (
     guard_res (live_pair db (rc_pk rc) (sb_pk bill)) (Runtime_Error ''IntegrityError'') (
     let alloc = \<lparr>al_receipt = Some (rc_pk rc), al_payment = None, al_sales = Some (sb_pk bill),
                  al_purchase = None, al_amount = amount, al_discount = discount, al_tds = tds,
                  al_reversed = False\<rparr>
     in Inr (db\<lparr>db_allocs := db_allocs db @ [alloc]\<rparr>, alloc))))))))))))"

fun allocate_all :: "receipt \<Rightarrow> sales_bill list \<Rightarrow> money_db \<Rightarrow> rat \<Rightarrow> (money_db \<times> allocation list) res" where
  "allocate_all rc [] db remaining = Inr (db, [])"
| "allocate_all rc (bill # bills) db remaining =
    (if remaining \<le> 0 then Inr (db, [])
     else let owed = sales_invoice_outstanding db bill in
       if owed \<le> 0 then allocate_all rc bills db remaining
       else let take = max_cash_for_balance rc owed remaining (live_totals_of db rc) (refunded_total db rc) in
         if take \<le> 0 then allocate_all rc bills db remaining
         else bind_res (allocate_receipt db rc bill take) (\<lambda>(db', alloc).
                bind_res (allocate_all rc bills db' (remaining - take)) (\<lambda>(db'', created).
                  Inr (db'', alloc # created))))"

text \<open>\<open>order_by("due_date", "invoice_date", "id")\<close>; an empty due date sorts last.\<close>

definition bill_order :: "sales_bill \<Rightarrow> (nat \<times> date) \<times> date \<times> int" where
  "bill_order b = ((case sb_due b of None \<Rightarrow> (1, Date 0 0 0) | Some d \<Rightarrow> (0, d)), sb_date b, sb_pk b)"

definition allocate_receipt_oldest_first ::
  "money_db \<Rightarrow> receipt \<Rightarrow> sales_bill list \<Rightarrow> (money_db \<times> allocation list) res" where
  "allocate_receipt_oldest_first db rc bills =
    (if rc_cheque_blocks rc then Inr (db, [])
     else allocate_all rc
       (sort_key bill_order (filter (\<lambda>b. sb_company b = rc_company rc \<and> sb_customer b = rc_customer rc
          \<and> sb_open b) bills))
       db (cash_available db rc))"

text \<open>What the invoice screen collects: the amount of the receipt and the change given.\<close>

definition settlement_amounts :: "rat \<Rightarrow> string \<Rightarrow> rat \<Rightarrow> (rat \<times> rat) option res" where
  "settlement_amounts tendered0 mode0 outstanding =
    (let tendered = quantize_even 2 tendered0; mode = py_upper (if mode0 = [] then ''CASH'' else mode0);
         still_open = quantize_even 2 outstanding in
     if tendered < 0 then Inl (Business_Rule ''Amount received cannot be negative.'')
     else if tendered = 0 then Inr None
     else if mode = ''CREDIT'' then Inr None
     else if mode \<notin> set [''CASH'', ''UPI'', ''BANK'', ''CARD'', ''CHEQUE''] then
       Inl (Business_Rule ''Choose cash, UPI, bank, card, or cheque.'')
     else if still_open \<le> 0 then Inr None
     else if mode \<noteq> ''CASH'' \<and> still_open < tendered then
       Inl (Business_Rule ''Only cash can be more than the amount due.'')
     else let amount = min tendered still_open
       in Inr (Some (amount, (if mode = ''CASH'' then tendered - amount else 0))))"

definition allocate_supplier_payment ::
  "money_db \<Rightarrow> supplier_payment \<Rightarrow> purchase_bill \<Rightarrow> rat \<Rightarrow> (money_db \<times> allocation) res" where
  "allocate_supplier_payment db pay bill amount =
    (guard_res (amount \<le> 0) (Business_Rule ''Allocation amount must be greater than zero.'') (
     guard_res (sp_company pay \<noteq> pb_company bill)
       (Business_Rule ''Payment and invoice belong to different companies.'') (
     guard_res (sp_supplier pay \<noteq> pb_supplier bill)
       (Business_Rule ''Payment supplier must match the invoice supplier.'') (
     guard_res (sp_period_locked pay) (Business_Rule ''Period is locked'') (
     guard_res (\<not> pb_open bill)
       (Business_Rule ''Allocations are only allowed against completed invoices.'') (
     guard_res (\<not> sp_posted pay) (Business_Rule ''Only posted supplier payments can be allocated.'') (
     guard_res (sp_amount pay + sp_tds pay
         - (\<Sum>a\<leftarrow>filter (\<lambda>a. al_payment a = Some (sp_pk pay) \<and> \<not> al_reversed a) (db_allocs db). al_amount a)
         < amount)
       (Business_Rule ''Allocation exceeds unallocated payment amount'') (
     guard_res (purchase_invoice_outstanding db bill < amount)
       (Business_Rule ''Allocation exceeds invoice open outstanding'') (
     guard_res (0 < pb_tds bill \<and> 0 < sp_tds pay)
       (Business_Rule ''This purchase already recorded TDS.'') (
     guard_res (live_supplier_pair db (sp_pk pay) (pb_pk bill)) (Runtime_Error ''IntegrityError'') (
     let alloc = \<lparr>al_receipt = None, al_payment = Some (sp_pk pay), al_sales = None,
                  al_purchase = Some (pb_pk bill), al_amount = amount, al_discount = 0, al_tds = 0,
                  al_reversed = False\<rparr>
     in Inr (db\<lparr>db_allocs := db_allocs db @ [alloc]\<rparr>, alloc))))))))))))"

text \<open>\<open>reverse_allocation\<close> of the row at position \<open>i\<close>; \<open>locked\<close> is the period gate's answer.\<close>

definition reverse_allocation :: "money_db \<Rightarrow> nat \<Rightarrow> bool \<Rightarrow> money_db res" where
  "reverse_allocation db i locked =
    (if al_reversed (db_allocs db ! i) then Inr db
     else guard_res locked (Business_Rule ''Period is locked'')
       (Inr (db\<lparr>db_allocs := (db_allocs db)[i := (db_allocs db ! i)\<lparr>al_reversed := True\<rparr>]\<rparr>)))"

section \<open>Searching for the last amount that fits\<close>

text \<open>
  The contract of the binary search: what fits stays fitting when it gets smaller.  Its answer is
  then the largest value of the range that fits.
\<close>

locale downward_search =
  fixes fits :: "int \<Rightarrow> bool"
  assumes down: "0 \<le> a \<Longrightarrow> a \<le> b \<Longrightarrow> fits b \<Longrightarrow> fits a"
begin

lemma greatest:
  assumes "0 \<le> lo" and "lo \<le> hi" and "fits lo"
  shows "lo \<le> bisect fits lo hi \<and> bisect fits lo hi \<le> hi \<and> fits (bisect fits lo hi) \<and>
    (\<forall>m. bisect fits lo hi < m \<and> m \<le> hi \<longrightarrow> \<not> fits m)"
  using assms
proof (induction "nat (hi - lo)" arbitrary: lo hi rule: less_induct)
  case less
  define mid where "mid = (lo + hi + 1) div 2"
  show ?case
  proof (cases "lo < hi")
    case False
    then show ?thesis using less.prems by (auto simp: bisect.simps [of fits])
  next
    case True
    then have mid: "lo < mid" "mid \<le> hi" by (auto simp: mid_def)
    have step: "bisect fits lo hi = (if fits mid then bisect fits mid hi else bisect fits lo (mid - 1))"
      using True by (simp add: bisect.simps [of fits lo] Let_def mid_def [symmetric])
    show ?thesis
    proof (cases "fits mid")
      case True
      then show ?thesis unfolding step using less.hyps [of hi mid] mid less.prems by auto
    next
      case False
      have no: "\<not> fits m" if "mid - 1 < m" for m using down [of mid m] False that mid less.prems by auto
      have "nat (mid - 1 - lo) < nat (hi - lo)" using mid by auto
      from less.hyps [OF this] mid less.prems
      have r: "lo \<le> bisect fits lo (mid - 1) \<and> bisect fits lo (mid - 1) \<le> mid - 1 \<and>
          fits (bisect fits lo (mid - 1)) \<and>
          (\<forall>m. bisect fits lo (mid - 1) < m \<and> m \<le> mid - 1 \<longrightarrow> \<not> fits m)" by simp
      have "\<not> fits m" if "bisect fits lo (mid - 1) < m" for m
        using r no [of m] that by (cases "m \<le> mid - 1") auto
      then show ?thesis unfolding step using r False mid by auto
    qed
  qed
qed

end

section \<open>Facts about the shares\<close>

lemma one_share_bounds:
  "0 \<le> one_share c cash base tot applied" "applied \<le> tot \<Longrightarrow> one_share c cash base tot applied \<le> tot - applied"
  by (auto simp: one_share_def Let_def)

lemma one_share_completes: "0 < tot \<Longrightarrow> applied \<le> tot \<Longrightarrow> one_share True cash base tot applied = tot - applied"
  by (auto simp: one_share_def Let_def)

lemma one_share_mono:
  assumes "0 \<le> cash" "cash \<le> cash'" "0 < base" "c \<longrightarrow> c'"
  shows "one_share c cash base tot applied \<le> one_share c' cash' base tot applied"
proof (cases "tot \<le> 0 \<or> tot - applied \<le> 0")
  case False
  then have "q2 (dmul (ddiv cash base) tot) \<le> q2 (dmul (ddiv cash' base) tot)"
    using assms by (intro paisa.mono_q dmul_mono ddiv_nonneg ddiv_mono) auto
  then show ?thesis using False assms(4) by (auto simp: one_share_def Let_def)
qed (auto simp: one_share_def Let_def)

lemma cleared_by_mono:
  assumes "0 \<le> cash" "cash \<le> cash'"
  shows "cleared_by rc cash live refunds \<le> cleared_by rc cash' live refunds"
proof (cases "rc_amount rc - refunds \<le> 0 \<or> cash = 0")
  case True
  then show ?thesis using assms
    by (auto simp: cleared_by_def shares_for_def Let_def intro!: add_nonneg_nonneg one_share_bounds)
next
  case False
  have "\<And>tot ap. one_share (rc_amount rc - refunds \<le> lt_cash live + cash) cash (rc_amount rc - refunds) tot ap
    \<le> one_share (rc_amount rc - refunds \<le> lt_cash live + cash') cash' (rc_amount rc - refunds) tot ap"
    using False assms by (intro one_share_mono) auto
  then show ?thesis using False assms
    by (auto simp: cleared_by_def shares_for_def Let_def intro!: add_mono)
qed

lemma cleared_by_0 [simp]: "cleared_by rc 0 live refunds = 0"
  by (simp add: cleared_by_def shares_for_def)

interpretation cash_search: downward_search
  "\<lambda>mid. cleared_by rc (of_int mid / 100) live refunds \<le> balance" for rc live refunds balance
proof
  fix a b :: int
  assume "0 \<le> a" "a \<le> b" "cleared_by rc (of_int b / 100) live refunds \<le> balance"
  moreover have "cleared_by rc (of_int a / 100) live refunds \<le> cleared_by rc (of_int b / 100) live refunds"
    using calculation by (intro cleared_by_mono) (auto intro: divide_right_mono)
  ultimately show "cleared_by rc (of_int a / 100) live refunds \<le> balance" by simp
qed

lemma max_cash_optimal:
  assumes "0 \<le> balance" and "0 \<le> remaining" and "q2 remaining = remaining"
  shows "(let x = max_cash_for_balance rc balance remaining live refunds in
    0 \<le> x \<and> q2 x = x \<and> x \<le> remaining \<and> cleared_by rc x live refunds \<le> balance \<and>
    (\<forall>y. q2 y = y \<and> x < y \<and> y \<le> min remaining balance \<longrightarrow> balance < cleared_by rc y live refunds))"
proof -
  let ?f = "\<lambda>mid. cleared_by rc (of_int mid / 100) live refunds \<le> balance"
  obtain h where h: "q2 (min remaining balance) = of_int h * (1/100)" using paisa.on_grid by blast
  have h0: "0 \<le> q2 (min remaining balance)" using assms by (intro paisa.nonneg) auto
  then have "0 \<le> h" using h by (simp add: zero_le_divide_iff)
  define r where "r = bisect ?f 0 h"
  have r: "0 \<le> r" "r \<le> h" "?f r" "\<forall>m. r < m \<and> m \<le> h \<longrightarrow> \<not> ?f m"
    using cash_search.greatest [of 0 h rc live refunds balance] \<open>0 \<le> h\<close> assms(1)
    unfolding r_def by simp_all
  have x: "max_cash_for_balance rc balance remaining live refunds = of_int r * (1/100)"
    by (simp add: max_cash_for_balance_def h r_def)
  have "of_int h * (1/100) \<le> remaining"
    unfolding h [symmetric] by (rule paisa.le_fixed [OF assms(3)]) simp
  then have "of_int r * (1/100) \<le> remaining" using r(2) by (meson dual_order.trans mult_right_mono of_int_le_iff zero_le_divide_1_iff zero_le_numeral)
  moreover have "balance < cleared_by rc y live refunds"
    if y: "q2 y = y" "of_int r * (1/100) < y" "y \<le> min remaining balance" for y
  proof -
    obtain m where m: "y = of_int m * (1/100)" using y(1) paisa.on_grid by metis
    have "y \<le> q2 (min remaining balance)" using paisa.mono_q [OF y(3)] y(1) by simp
    then have "m \<le> h" using m h by simp
    moreover have "r < m" using y(2) m by simp
    moreover have "y = of_int m / 100" using m by simp
    ultimately show ?thesis using r(4) by (simp only: not_le)
  qed
  ultimately show ?thesis using r(1,3) unfolding Let_def x by (auto simp: paisa.fix_grid [of r, simplified])
qed

text \<open>
  C35. \<open>max_cash_for_balance\<close> is optimal: its answer is a non-negative amount of paise, within the
  remaining cash and the balance, the cash together with the discount and TDS it carries fits the
  balance, and no larger amount within the remaining cash does.
\<close>

theorem max_cash_for_balance_optimal:
  assumes "0 \<le> balance" and "0 \<le> remaining" and "q2 remaining = remaining"
  shows "(let x = max_cash_for_balance rc balance remaining live refunds in
    0 \<le> x \<and> q2 x = x \<and> x \<le> remaining \<and> cleared_by rc x live refunds \<le> balance \<and>
    (\<forall>y. q2 y = y \<and> x < y \<and> y \<le> min remaining balance \<longrightarrow> balance < cleared_by rc y live refunds))"
  by (rule max_cash_optimal [OF assms])

section \<open>Facts about allocating\<close>

definition receipt_ok :: "money_db \<Rightarrow> receipt \<Rightarrow> bool" where
  "receipt_ok db rc =
    (let live = live_totals_of db rc in
     0 \<le> lt_cash live \<and> lt_cash live + refunded_total db rc \<le> rc_amount rc \<and>
     0 \<le> lt_discount live \<and> lt_discount live \<le> rc_discount rc \<and>
     0 \<le> lt_tds live \<and> lt_tds live \<le> rc_tds rc)"

lemma refunded_total_keeps [simp]: "refunded_total (db\<lparr>db_allocs := x\<rparr>) rc = refunded_total db rc"
  by (simp add: refunded_total_def)

lemma live_totals_append:
  assumes "al_receipt al = Some (rc_pk rc)" "\<not> al_reversed al"
  shows "live_totals_of (db\<lparr>db_allocs := db_allocs db @ [al]\<rparr>) rc =
    \<lparr>lt_cash = lt_cash (live_totals_of db rc) + al_amount al,
     lt_discount = lt_discount (live_totals_of db rc) + al_discount al,
     lt_tds = lt_tds (live_totals_of db rc) + al_tds al\<rparr>"
  using assms by (simp add: live_totals_of_def Let_def)

lemma sales_outstanding_append:
  assumes "al_sales al = Some (sb_pk bill)" "al_receipt al \<noteq> None" "al_payment al = None"
    "\<not> al_reversed al" and le: "al_amount al + al_discount al + al_tds al \<le> sales_invoice_outstanding db bill"
    and "0 \<le> al_amount al + al_discount al + al_tds al"
  shows "sales_invoice_outstanding (db\<lparr>db_allocs := db_allocs db @ [al]\<rparr>) bill
    = sales_invoice_outstanding db bill - (al_amount al + al_discount al + al_tds al)"
proof -
  let ?db = "db\<lparr>db_allocs := db_allocs db @ [al]\<rparr>"
  define m where "m = al_amount al + al_discount al + al_tds al"
  define raw where "raw = sb_grand bill + (if sb_tcs_in_grand bill then 0 else sb_tcs bill)
      - notes_total (db_sales_cn db) (sb_pk bill) + notes_total (db_sales_dn db) (sb_pk bill)
      - (\<Sum>a\<leftarrow>sales_allocs db (sb_pk bill). al_amount a)
      - (\<Sum>a\<leftarrow>sales_allocs db (sb_pk bill). al_discount a + al_tds a)"
  have o: "sales_invoice_outstanding db bill = (if sb_open bill then floor_outstanding raw else 0)"
    by (simp add: sales_invoice_outstanding_def raw_def)
  have "sales_allocs ?db (sb_pk bill) = sales_allocs db (sb_pk bill) @ [al]"
    using assms(1-4) by (simp add: sales_allocs_def)
  then have o': "sales_invoice_outstanding ?db bill = (if sb_open bill then floor_outstanding (raw - m) else 0)"
    by (simp add: sales_invoice_outstanding_def raw_def m_def algebra_simps)
  show ?thesis using assms(5,6) unfolding o o' m_def [symmetric]
    by (auto simp: floor_outstanding_def split: if_splits)
qed

definition can_allocate :: "receipt \<Rightarrow> sales_bill \<Rightarrow> bool" where
  "can_allocate rc b = (sb_company b = rc_company rc \<and> sb_customer b = rc_customer rc \<and> sb_open b)"

lemma allocate_receipt_elim:
  assumes "allocate_receipt db rc bill a = Inr (db', al)"
  shows "db' = db\<lparr>db_allocs := db_allocs db @ [al]\<rparr>" and "0 < al_amount al"
    and "al_amount al = q2 a" and "al_amount al \<le> cash_available db rc"
    and "(al_discount al, al_tds al) = shares_for rc (al_amount al) (live_totals_of db rc) (refunded_total db rc)"
    and "al_amount al + al_discount al + al_tds al \<le> sales_invoice_outstanding db bill"
    and "al_receipt al = Some (rc_pk rc)" "al_sales al = Some (sb_pk bill)" "al_payment al = None"
    "\<not> al_reversed al" "al_purchase al = None"
    and "\<not> live_pair db (rc_pk rc) (sb_pk bill)"
    and "can_allocate rc bill" "rc_posted rc" "\<not> rc_cheque_blocks rc" "\<not> rc_period_locked rc"
  using assms
  by (auto simp: allocate_receipt_def Let_def guard_res_Inr_iff can_allocate_def not_le not_less split: prod.splits)

lemma shares_nonneg:
  "shares_for rc c live r = (d, t) \<Longrightarrow> 0 \<le> d \<and> 0 \<le> t"
  by (auto simp: shares_for_def Let_def one_share_bounds split: if_splits)

lemma shares_within:
  assumes "shares_for rc c live r = (d, t)" "lt_discount live \<le> rc_discount rc" "lt_tds live \<le> rc_tds rc"
  shows "d \<le> rc_discount rc - lt_discount live \<and> t \<le> rc_tds rc - lt_tds live"
  using assms by (auto simp: shares_for_def Let_def one_share_bounds split: if_splits)

lemma shares_complete:
  assumes "shares_for rc c live r = (d, t)" "0 < c" "0 < rc_amount rc - r" "rc_amount rc - r \<le> lt_cash live + c"
    "0 \<le> lt_discount live" "lt_discount live \<le> rc_discount rc" "0 \<le> lt_tds live" "lt_tds live \<le> rc_tds rc"
  shows "lt_discount live + d = rc_discount rc \<and> lt_tds live + t = rc_tds rc"
  using assms by (auto simp: shares_for_def one_share_def Let_def)

lemma allocation_step:
  assumes "allocate_receipt db rc bill a = Inr (db', al)" and "receipt_ok db rc"
  shows "receipt_ok db' rc \<and> cash_available db' rc = cash_available db rc - al_amount al \<and>
    sales_invoice_outstanding db' bill
      = sales_invoice_outstanding db bill - (al_amount al + al_discount al + al_tds al) \<and>
    0 \<le> sales_invoice_outstanding db' bill \<and>
    (cash_available db' rc = 0 \<longrightarrow> lt_discount (live_totals_of db' rc) = rc_discount rc \<and>
       lt_tds (live_totals_of db' rc) = rc_tds rc)"
proof -
  note e = allocate_receipt_elim [OF assms(1)]
  define live where "live = live_totals_of db rc"
  have ok: "0 \<le> lt_cash live" "lt_cash live + refunded_total db rc \<le> rc_amount rc"
    "0 \<le> lt_discount live" "lt_discount live \<le> rc_discount rc" "0 \<le> lt_tds live" "lt_tds live \<le> rc_tds rc"
    using assms(2) by (auto simp: receipt_ok_def live_def Let_def)
  have sh: "shares_for rc (al_amount al) live (refunded_total db rc) = (al_discount al, al_tds al)"
    using e(5) live_def by simp
  note b = shares_nonneg [OF sh] shares_within [OF sh ok(4,6)]
  have live': "live_totals_of db' rc = \<lparr>lt_cash = lt_cash live + al_amount al,
     lt_discount = lt_discount live + al_discount al, lt_tds = lt_tds live + al_tds al\<rparr>"
    unfolding e(1) live_def by (rule live_totals_append [OF e(7,10)])
  have ref: "refunded_total db' rc = refunded_total db rc" unfolding e(1) by simp
  have av: "cash_available db rc = rc_amount rc - lt_cash live - refunded_total db rc"
    using ok(2) by (simp add: cash_available_def live_def)
  have cash': "lt_cash live + al_amount al + refunded_total db rc \<le> rc_amount rc" using e(4) av by simp
  have av': "cash_available db' rc = cash_available db rc - al_amount al"
    unfolding av using cash' by (simp add: cash_available_def live' ref)
  have out: "sales_invoice_outstanding db' bill
      = sales_invoice_outstanding db bill - (al_amount al + al_discount al + al_tds al)"
    unfolding e(1) by (rule sales_outstanding_append [OF e(8) _ e(9,10,6)]) (use e(2,7) b in auto)
  have "receipt_ok db' rc" unfolding receipt_ok_def Let_def live' ref using ok b cash' e(2) by auto
  moreover have "lt_discount (live_totals_of db' rc) = rc_discount rc \<and> lt_tds (live_totals_of db' rc) = rc_tds rc"
    if "cash_available db' rc = 0"
    using shares_complete [OF sh e(2) _ _ ok(3-6)] that av' av ok(1) e(2) by (simp add: live')
  ultimately show ?thesis using av' out e(6) by simp
qed

text \<open>
  C6. An allocation keeps the books of the receipt and the invoice: the invoice's open balance falls
  by exactly the cash plus the discount and TDS it clears, and never below zero; the receipt's cash
  falls by the cash; discount and TDS are never cleared twice; and the allocation that uses up the
  cash clears the whole discount and TDS, to the paisa, however the receipt was split.
\<close>

theorem allocation_keeps_books:
  assumes "allocate_receipt db rc bill a = Inr (db', al)" and "receipt_ok db rc"
  shows "receipt_ok db' rc \<and> cash_available db' rc = cash_available db rc - al_amount al \<and>
    sales_invoice_outstanding db' bill
      = sales_invoice_outstanding db bill - (al_amount al + al_discount al + al_tds al) \<and>
    0 \<le> sales_invoice_outstanding db' bill \<and>
    (cash_available db' rc = 0 \<longrightarrow> lt_discount (live_totals_of db' rc) = rc_discount rc \<and>
       lt_tds (live_totals_of db' rc) = rc_tds rc)"
  by (rule allocation_step [OF assms])

section \<open>Oldest first\<close>

lemma allocate_receipt_succeeds:
  assumes "rc_posted rc" "\<not> rc_period_locked rc" "\<not> rc_cheque_blocks rc" "can_allocate rc bill"
    and "q2 x = x" "0 < x" "x \<le> cash_available db rc"
    and "cleared_by rc x (live_totals_of db rc) (refunded_total db rc) \<le> sales_invoice_outstanding db bill"
    and "\<not> live_pair db (rc_pk rc) (sb_pk bill)"
  shows "\<exists>db' al. allocate_receipt db rc bill x = Inr (db', al) \<and> al_amount al = x \<and> al_sales al = Some (sb_pk bill)"
  using assms
  by (auto simp: allocate_receipt_def Let_def guard_res_Inr_iff cleared_by_def can_allocate_def
      guard_res_def split: prod.splits)

text \<open>
  What serving the oldest invoice first means, without the loop: each invoice in turn takes the largest
  amount of paise that fits the cash left at its turn and, with the discount and TDS that amount
  carries, what the invoice owes.
\<close>

definition fits :: "money_db \<Rightarrow> receipt \<Rightarrow> sales_bill \<Rightarrow> rat \<Rightarrow> bool" where
  "fits db rc bill x = (q2 x = x \<and> 0 \<le> x \<and> x \<le> cash_available db rc \<and>
     cleared_by rc x (live_totals_of db rc) (refunded_total db rc) \<le> max 0 (sales_invoice_outstanding db bill))"

definition most_fitting :: "money_db \<Rightarrow> receipt \<Rightarrow> sales_bill \<Rightarrow> rat \<Rightarrow> bool" where
  "most_fitting db rc bill x = (fits db rc bill x \<and> (\<forall>y. fits db rc bill y \<longrightarrow> y \<le> x))"

definition paid_to :: "allocation list \<Rightarrow> int \<Rightarrow> rat" where
  "paid_to rows bill = (\<Sum>a\<leftarrow>filter (\<lambda>a. al_sales a = Some bill) rows. al_amount a)"

definition with_rows :: "money_db \<Rightarrow> allocation list \<Rightarrow> money_db" where
  "with_rows db rows = db\<lparr>db_allocs := db_allocs db @ rows\<rparr>"

definition pays_only :: "allocation list \<Rightarrow> sales_bill list \<Rightarrow> bool" where
  "pays_only rows bills = (\<forall>a\<in>set rows. \<exists>b\<in>set bills. al_sales a = Some (sb_pk b))"

text \<open>The k-th invoice is served after exactly the rows that pay the invoices before it.\<close>

definition served :: "receipt \<Rightarrow> sales_bill list \<Rightarrow> money_db \<Rightarrow> allocation list \<Rightarrow> bool" where
  "served rc bills db created = (\<forall>k<length bills. \<exists>j\<le>length created.
     pays_only (take j created) (take k bills) \<and> pays_only (drop j created) (drop k bills) \<and>
     most_fitting (with_rows db (take j created)) rc (bills ! k) (paid_to created (sb_pk (bills ! k))))"

lemma cleared_by_ge: "x \<le> cleared_by rc x live refunds"
  using shares_nonneg [of rc x live refunds] by (auto simp: cleared_by_def split: prod.splits)

lemma max_cash_most_fitting:
  assumes "q2 (cash_available db rc) = cash_available db rc"
    and "x = max_cash_for_balance rc (sales_invoice_outstanding db bill) (cash_available db rc)
           (live_totals_of db rc) (refunded_total db rc)"
    and "0 < cash_available db rc" "0 < sales_invoice_outstanding db bill"
  shows "most_fitting db rc bill x"
proof -
  let ?owed = "sales_invoice_outstanding db bill"
  note opt = max_cash_optimal [of ?owed "cash_available db rc" rc "live_totals_of db rc" "refunded_total db rc",
      folded assms(2), unfolded Let_def]
  have "fits db rc bill x" using opt assms(1,3,4) by (simp add: fits_def)
  moreover have "y \<le> x" if y: "fits db rc bill y" for y
  proof (rule ccontr)
    assume "\<not> y \<le> x"
    moreover have "y \<le> ?owed"
      using y assms(4) cleared_by_ge [of y rc "live_totals_of db rc" "refunded_total db rc"] by (simp add: fits_def)
    ultimately show False using opt y assms(1,3,4) by (auto simp: fits_def)
  qed
  ultimately show ?thesis by (simp add: most_fitting_def)
qed

lemma nothing_fits:
  assumes "cash_available db rc \<le> 0 \<or> sales_invoice_outstanding db bill \<le> 0"
  shows "most_fitting db rc bill 0"
proof -
  have "y \<le> 0" if y: "fits db rc bill y" for y
    using y assms cleared_by_ge [of y rc "live_totals_of db rc" "refunded_total db rc"] by (auto simp: fits_def)
  then show ?thesis by (auto simp: most_fitting_def fits_def cash_available_def paisa.zero)
qed

lemma paid_to_none: "pays_only rows bills \<Longrightarrow> b \<notin> sb_pk ` set bills \<Longrightarrow> paid_to rows b = 0"
proof -
  assume "pays_only rows bills" "b \<notin> sb_pk ` set bills"
  then have "filter (\<lambda>a. al_sales a = Some b) rows = []" by (force simp: pays_only_def filter_empty_conv)
  then show "paid_to rows b = 0" by (simp add: paid_to_def)
qed

lemma served_skip:
  assumes "served rc bills db created" "pays_only created bills" "distinct (map sb_pk (bill # bills))"
    and "most_fitting db rc bill 0"
  shows "served rc (bill # bills) db created"
  unfolding served_def
proof (intro allI impI)
  fix k assume k: "k < length (bill # bills)"
  show "\<exists>j\<le>length created. pays_only (take j created) (take k (bill # bills)) \<and>
     pays_only (drop j created) (drop k (bill # bills)) \<and>
     most_fitting (with_rows db (take j created)) rc ((bill # bills) ! k) (paid_to created (sb_pk ((bill # bills) ! k)))"
  proof (cases k)
    case 0
    have "paid_to created (sb_pk bill) = 0" using paid_to_none [OF assms(2)] assms(3) by simp
    then show ?thesis using 0 assms(2,4)
      by (intro exI [of _ 0]) (auto simp: pays_only_def with_rows_def)
  next
    case (Suc n)
    then obtain j where "j \<le> length created" "pays_only (take j created) (take n bills)"
      "pays_only (drop j created) (drop n bills)"
      "most_fitting (with_rows db (take j created)) rc (bills ! n) (paid_to created (sb_pk (bills ! n)))"
      using assms(1) k by (auto simp: served_def)
    then show ?thesis unfolding Suc by (intro exI [of _ j]) (auto simp: pays_only_def)
  qed
qed

lemma served_take:
  assumes "served rc bills (with_rows db [al]) created" "pays_only created bills" "distinct (map sb_pk (bill # bills))"
    and "most_fitting db rc bill (al_amount al)" "al_sales al = Some (sb_pk bill)"
  shows "served rc (bill # bills) db (al # created)"
  unfolding served_def
proof (intro allI impI)
  fix k assume k: "k < length (bill # bills)"
  show "\<exists>j\<le>length (al # created). pays_only (take j (al # created)) (take k (bill # bills)) \<and>
     pays_only (drop j (al # created)) (drop k (bill # bills)) \<and>
     most_fitting (with_rows db (take j (al # created))) rc ((bill # bills) ! k)
       (paid_to (al # created) (sb_pk ((bill # bills) ! k)))"
  proof (cases k)
    case 0
    have "paid_to created (sb_pk bill) = 0" using paid_to_none [OF assms(2)] assms(3) by simp
    then show ?thesis using 0 assms(2,4,5)
      by (intro exI [of _ 0]) (auto simp: pays_only_def with_rows_def paid_to_def)
  next
    case (Suc n)
    then obtain j where j: "j \<le> length created" "pays_only (take j created) (take n bills)"
      "pays_only (drop j created) (drop n bills)"
      "most_fitting (with_rows (with_rows db [al]) (take j created)) rc (bills ! n) (paid_to created (sb_pk (bills ! n)))"
      using assms(1) k by (auto simp: served_def)
    have "sb_pk (bills ! n) \<noteq> sb_pk bill" using assms(3) k Suc by (metis (no_types) distinct.simps(2) length_Cons
        list.simps(9) nth_map nth_mem Suc_less_eq length_map)
    then have "paid_to (al # created) (sb_pk (bills ! n)) = paid_to created (sb_pk (bills ! n))"
      using assms(5) by (simp add: paid_to_def)
    then show ?thesis unfolding Suc using j assms(5)
      by (intro exI [of _ "Suc j"]) (auto simp: pays_only_def with_rows_def)
  qed
qed

lemma served_none: "cash_available db rc \<le> 0 \<Longrightarrow> served rc bills db []"
  by (auto simp: served_def pays_only_def with_rows_def paid_to_def nothing_fits)

lemma allocate_all_serves:
  assumes "rc_posted rc" "\<not> rc_period_locked rc" "\<not> rc_cheque_blocks rc"
    and "list_all (can_allocate rc) bills" and "receipt_ok db rc"
    and "q2 remaining = remaining" "remaining = cash_available db rc"
    and "distinct (map sb_pk bills)" "list_all (\<lambda>b. \<not> live_pair db (rc_pk rc) (sb_pk b)) bills"
  shows "\<exists>created. allocate_all rc bills db remaining = Inr (with_rows db created, created) \<and>
    pays_only created bills \<and> served rc bills db created"
  using assms(4-)
proof (induction bills arbitrary: db remaining)
  case Nil
  then show ?case by (simp add: with_rows_def served_def pays_only_def)
next
  case (Cons bill bills)
  define owed where "owed = sales_invoice_outstanding db bill"
  define x where "x = max_cash_for_balance rc owed remaining (live_totals_of db rc) (refunded_total db rc)"
  have rest: "\<exists>created. allocate_all rc bills db remaining = Inr (with_rows db created, created) \<and>
    pays_only created bills \<and> served rc bills db created"
    using Cons.prems by (intro Cons.IH) auto
  consider "remaining \<le> 0" | "0 < remaining" "owed \<le> 0 \<or> x \<le> 0" | "0 < remaining" "0 < owed" "0 < x" by linarith
  then show ?case
  proof cases
    case 1
    then show ?thesis using Cons.prems(4) served_none [of db rc]
      by (simp add: with_rows_def pays_only_def)
  next
    case 2
    have "most_fitting db rc bill 0"
    proof (cases "owed \<le> 0")
      case True
      then show ?thesis by (simp add: nothing_fits owed_def)
    next
      case False
      have m: "most_fitting db rc bill x"
        by (rule max_cash_most_fitting) (use 2 False Cons.prems(3,4) in \<open>simp_all add: owed_def x_def\<close>)
      then have "x = 0" using 2 False by (auto simp: most_fitting_def fits_def)
      then show ?thesis using m by simp
    qed
    moreover have "allocate_all rc (bill # bills) db remaining = allocate_all rc bills db remaining"
      using 2 by (auto simp: owed_def [symmetric] x_def [symmetric] Let_def)
    ultimately show ?thesis using rest served_skip [OF _ _ Cons.prems(5)] by (fastforce simp: pays_only_def)
  next
    case 3
    have m: "most_fitting db rc bill x"
      by (rule max_cash_most_fitting) (use 3 Cons.prems(3,4) in \<open>simp_all add: owed_def x_def\<close>)
    then have opt: "q2 x = x" "x \<le> remaining" "cleared_by rc x (live_totals_of db rc) (refunded_total db rc) \<le> owed"
      using 3 Cons.prems(4) by (auto simp: most_fitting_def fits_def owed_def)
    obtain db1 al where al: "allocate_receipt db rc bill x = Inr (db1, al)" "al_amount al = x"
        "al_sales al = Some (sb_pk bill)"
      using allocate_receipt_succeeds [OF assms(1-3) _ opt(1) 3(3), of bill db] opt(2,3) Cons.prems
      unfolding owed_def by auto
    have db1: "db1 = with_rows db [al]" using allocate_receipt_elim(1) [OF al(1)] by (simp add: with_rows_def)
    note step = allocation_step [OF al(1) Cons.prems(2)]
    have fresh: "list_all (\<lambda>b. \<not> live_pair db1 (rc_pk rc) (sb_pk b)) bills"
      using Cons.prems(5,6) allocate_receipt_elim(1,8) [OF al(1)]
      by (auto simp: live_pair_def list_all_iff)
    have "\<exists>created. allocate_all rc bills db1 (remaining - x) = Inr (with_rows db1 created, created) \<and>
      pays_only created bills \<and> served rc bills db1 created"
      using step Cons.prems opt(1) al(2) fresh by (intro Cons.IH) (auto simp: paisa.fixed_diff)
    then obtain created where c: "allocate_all rc bills db1 (remaining - x) = Inr (with_rows db1 created, created)"
      "pays_only created bills" "served rc bills db1 created" by blast
    have "served rc (bill # bills) db (al # created)"
      by (rule served_take) (use c(2,3) db1 Cons.prems(5) m al(2,3) in auto)
    then show ?thesis using 3 al c db1
      by (auto simp: owed_def [symmetric] x_def [symmetric] Let_def with_rows_def pays_only_def
          intro!: exI [of _ "al # created"])
  qed
qed

lemma eligible: "filter (\<lambda>b. sb_company b = rc_company rc \<and> sb_customer b = rc_customer rc \<and> sb_open b) bills
    = filter (can_allocate rc) bills"
  by (rule filter_cong) (simp_all add: can_allocate_def)

text \<open>
  Spreading a posted receipt that has no live allocation to one of the open invoices yet always returns,
  and serves them in order of due date, then invoice date, then id.
\<close>

lemma oldest_first_serves:
  assumes "rc_posted rc" "\<not> rc_period_locked rc" "\<not> rc_cheque_blocks rc" "receipt_ok db rc"
    and "q2 (cash_available db rc) = cash_available db rc"
    and "distinct (map sb_pk bills)" and "list_all (\<lambda>b. \<not> live_pair db (rc_pk rc) (sb_pk b)) bills"
  shows "\<exists>created. allocate_receipt_oldest_first db rc bills = Inr (with_rows db created, created) \<and>
    served rc (sort_key bill_order (filter (can_allocate rc) bills)) db created"
proof -
  let ?bills = "sort_key bill_order (filter (can_allocate rc) bills)"
  have "distinct (map sb_pk ?bills)" "list_all (\<lambda>b. \<not> live_pair db (rc_pk rc) (sb_pk b)) ?bills"
    "list_all (can_allocate rc) ?bills"
    using assms(6,7) by (auto simp: list_all_iff distinct_map inj_on_def)
  from allocate_all_serves [OF assms(1-3) this(3) assms(4,5) refl this(1,2)] assms(3)
  show ?thesis by (auto simp: allocate_receipt_oldest_first_def eligible)
qed

text \<open>
  The other side of it: a receipt that is partly applied to its oldest open invoice already cannot be
  spread further.  The loop comes back to that invoice, the database refuses the second live row, and
  the whole call fails although other invoices could take the money.
\<close>

theorem partly_applied_receipt_refused:
  assumes "rc_posted rc" "\<not> rc_period_locked rc" "\<not> rc_cheque_blocks rc"
    and "0 < cash_available db rc" and "q2 (cash_available db rc) = cash_available db rc"
    and first: "sort_key bill_order (filter (can_allocate rc) bills) = bill # rest"
    and "0 < sales_invoice_outstanding db bill"
    and "0 < max_cash_for_balance rc (sales_invoice_outstanding db bill) (cash_available db rc)
           (live_totals_of db rc) (refunded_total db rc)"
    and pair: "live_pair db (rc_pk rc) (sb_pk bill)"
  shows "allocate_receipt_oldest_first db rc bills = Inl (Runtime_Error ''IntegrityError'')"
proof -
  define x where "x = max_cash_for_balance rc (sales_invoice_outstanding db bill) (cash_available db rc)
           (live_totals_of db rc) (refunded_total db rc)"
  have opt: "q2 x = x" "x \<le> cash_available db rc"
    "cleared_by rc x (live_totals_of db rc) (refunded_total db rc) \<le> sales_invoice_outstanding db bill"
    using max_cash_optimal [of "sales_invoice_outstanding db bill" "cash_available db rc" rc
        "live_totals_of db rc" "refunded_total db rc"] assms(4,5,7)
    unfolding x_def [symmetric] Let_def by auto
  have "bill \<in> set (sort_key bill_order (filter (can_allocate rc) bills))" unfolding first by simp
  then have "can_allocate rc bill" by simp
  then have "allocate_receipt db rc bill x = Inl (Runtime_Error ''IntegrityError'')"
    using opt assms(1-3,8) pair unfolding x_def [symmetric]
    by (auto simp: allocate_receipt_def Let_def cleared_by_def can_allocate_def guard_res_def split: prod.splits)
  then have "allocate_all rc (bill # rest) db (cash_available db rc) = Inl (Runtime_Error ''IntegrityError'')"
    using assms(4,7,8) unfolding x_def by (simp add: Let_def)
  then show ?thesis using first assms(3) by (simp add: allocate_receipt_oldest_first_def eligible)
qed

section \<open>The supplier side\<close>

lemma purchase_outstanding_append:
  assumes "al_purchase al = Some (pb_pk bill)" "al_payment al \<noteq> None" "al_receipt al = None"
    "\<not> al_reversed al" "al_amount al \<le> purchase_invoice_outstanding db bill" "0 \<le> al_amount al"
  shows "purchase_invoice_outstanding (db\<lparr>db_allocs := db_allocs db @ [al]\<rparr>) bill
    = purchase_invoice_outstanding db bill - al_amount al"
proof -
  let ?db = "db\<lparr>db_allocs := db_allocs db @ [al]\<rparr>"
  define raw where "raw = pb_grand bill - pb_tds bill - returns_to_relieve db (pb_pk bill)
      - notes_total (db_purchase_cn db) (pb_pk bill) + notes_total (db_purchase_dn db) (pb_pk bill)
      - (\<Sum>a\<leftarrow>purchase_allocs db (pb_pk bill). al_amount a)"
  have o: "purchase_invoice_outstanding db bill = (if pb_open bill then floor_outstanding raw else 0)"
    by (simp add: purchase_invoice_outstanding_def raw_def)
  have "purchase_allocs ?db (pb_pk bill) = purchase_allocs db (pb_pk bill) @ [al]"
    "returns_to_relieve ?db (pb_pk bill) = returns_to_relieve db (pb_pk bill)"
    using assms(1-4) by (simp_all add: purchase_allocs_def returns_to_relieve_def)
  then have o': "purchase_invoice_outstanding ?db bill
      = (if pb_open bill then floor_outstanding (raw - al_amount al) else 0)"
    by (simp add: purchase_invoice_outstanding_def raw_def algebra_simps)
  show ?thesis using assms(5,6) unfolding o o' by (auto simp: floor_outstanding_def split: if_splits)
qed

definition supplier_allocated :: "money_db \<Rightarrow> supplier_payment \<Rightarrow> rat" where
  "supplier_allocated db pay =
    (\<Sum>a\<leftarrow>filter (\<lambda>a. al_payment a = Some (sp_pk pay) \<and> \<not> al_reversed a) (db_allocs db). al_amount a)"

text \<open>
  A supplier payment is never applied beyond its amount plus TDS, nor an invoice beyond its open
  balance: a successful allocation adds its amount to the payment's applied total, stays within it,
  and lowers the invoice's open balance by exactly that amount.
\<close>

theorem supplier_allocation_keeps_books:
  assumes "allocate_supplier_payment db pay bill a = Inr (db', al)"
  shows "supplier_allocated db' pay = supplier_allocated db pay + a \<and>
    supplier_allocated db' pay \<le> sp_amount pay + sp_tds pay \<and>
    purchase_invoice_outstanding db' bill = purchase_invoice_outstanding db bill - a \<and>
    0 \<le> purchase_invoice_outstanding db' bill"
proof -
  have e: "db' = db\<lparr>db_allocs := db_allocs db @ [al]\<rparr>" "0 < a" "al_amount al = a"
    "a \<le> sp_amount pay + sp_tds pay - supplier_allocated db pay"
    "a \<le> purchase_invoice_outstanding db bill"
    "al_payment al = Some (sp_pk pay)" "al_purchase al = Some (pb_pk bill)" "al_receipt al = None"
    "\<not> al_reversed al"
    using assms
    by (auto simp: allocate_supplier_payment_def guard_res_Inr_iff supplier_allocated_def Let_def)
  have "supplier_allocated db' pay = supplier_allocated db pay + a"
    unfolding e(1) using e by (simp add: supplier_allocated_def)
  moreover have "purchase_invoice_outstanding db' bill = purchase_invoice_outstanding db bill - a"
    unfolding e(1) e(3) [symmetric] by (rule purchase_outstanding_append) (use e in auto)
  ultimately show ?thesis using e by simp
qed

section \<open>Witnesses\<close>

definition sample_receipt :: receipt where
  "sample_receipt = \<lparr>rc_pk = 1, rc_company = 1, rc_customer = 1, rc_amount = 100, rc_discount = 10,
     rc_tds = 0, rc_posted = True, rc_cheque_blocks = False, rc_period_locked = False\<rparr>"

definition sample_bill :: sales_bill where
  "sample_bill = \<lparr>sb_pk = 5, sb_company = 1, sb_customer = 1, sb_open = True, sb_grand = 110, sb_tcs = 0,
     sb_tcs_in_grand = False, sb_due = None, sb_date = Date 2026 4 1\<rparr>"

definition empty_money :: money_db where
  "empty_money = \<lparr>db_allocs = [], db_refunds = [], db_sales_cn = [], db_sales_dn = [], db_returns = [],
     db_purchase_cn = [], db_purchase_dn = []\<rparr>"

theorem max_cash_for_balance_optimal_witness:
  "cleared_by sample_receipt (max_cash_for_balance sample_receipt 110 100 (live_totals_of empty_money sample_receipt) 0)
     (live_totals_of empty_money sample_receipt) 0 \<le> 110"
proof -
  have "q2 100 = 100" by code_simp
  from max_cash_for_balance_optimal [OF _ _ this, of 110 sample_receipt
      "live_totals_of empty_money sample_receipt" 0]
  show ?thesis by (simp add: Let_def)
qed

theorem allocation_keeps_books_witness:
  "\<exists>db' al. allocate_receipt empty_money sample_receipt sample_bill 100 = Inr (db', al) \<and>
    sales_invoice_outstanding db' sample_bill = 0"
proof -
  have "(case allocate_receipt empty_money sample_receipt sample_bill 100 of
      Inr (db', al) \<Rightarrow> al_amount al = 100 \<and> al_discount al = 10 \<and> al_tds al = 0 | Inl _ \<Rightarrow> False)"
    "receipt_ok empty_money sample_receipt" "sales_invoice_outstanding empty_money sample_bill = 110"
    by code_simp+
  then obtain db' al where r: "allocate_receipt empty_money sample_receipt sample_bill 100 = Inr (db', al)"
      "al_amount al = 100" "al_discount al = 10" "al_tds al = 0"
      "receipt_ok empty_money sample_receipt" "sales_invoice_outstanding empty_money sample_bill = 110"
    by (auto split: sum.splits)
  from allocation_keeps_books [OF r(1,5)] r show ?thesis by auto
qed

definition half_applied :: money_db where
  "half_applied = empty_money\<lparr>db_allocs := [\<lparr>al_receipt = Some 1, al_payment = None, al_sales = Some 5,
     al_purchase = None, al_amount = 30, al_discount = 3, al_tds = 0, al_reversed = False\<rparr>]\<rparr>"

theorem partly_applied_receipt_refused_witness:
  "allocate_receipt_oldest_first half_applied sample_receipt [sample_bill] = Inl (Runtime_Error ''IntegrityError'')
    \<and> cash_available half_applied sample_receipt = 70 \<and> sales_invoice_outstanding half_applied sample_bill = 77"
proof -
  have f: "rc_posted sample_receipt" "\<not> rc_period_locked sample_receipt" "\<not> rc_cheque_blocks sample_receipt"
    "cash_available half_applied sample_receipt = 70" "q2 70 = 70"
    "sort_key bill_order (filter (can_allocate sample_receipt) [sample_bill]) = [sample_bill]"
    "sales_invoice_outstanding half_applied sample_bill = 77"
    "live_pair half_applied (rc_pk sample_receipt) (sb_pk sample_bill)"
    "max_cash_for_balance sample_receipt 77 70 (live_totals_of half_applied sample_receipt)
       (refunded_total half_applied sample_receipt) = 70"
    by code_simp+
  show ?thesis
    using partly_applied_receipt_refused [OF f(1-3) _ _ f(6) _ _ f(8)] f(4,5,7,9) by simp
qed

definition sample_payment :: supplier_payment where
  "sample_payment = \<lparr>sp_pk = 3, sp_company = 1, sp_supplier = 2, sp_amount = 50, sp_tds = 0,
     sp_posted = True, sp_period_locked = False\<rparr>"

definition sample_purchase :: purchase_bill where
  "sample_purchase = \<lparr>pb_pk = 8, pb_company = 1, pb_supplier = 2, pb_open = True, pb_grand = 80, pb_tds = 1\<rparr>"

theorem supplier_allocation_keeps_books_witness:
  "\<exists>db' al. allocate_supplier_payment empty_money sample_payment sample_purchase 50 = Inr (db', al) \<and>
    purchase_invoice_outstanding db' sample_purchase = 29"
proof -
  have "(case allocate_supplier_payment empty_money sample_payment sample_purchase 50 of
      Inr (db', al) \<Rightarrow> True | Inl _ \<Rightarrow> False)"
    "purchase_invoice_outstanding empty_money sample_purchase = 79" by code_simp+
  then obtain db' al where r: "allocate_supplier_payment empty_money sample_payment sample_purchase 50 = Inr (db', al)"
      "purchase_invoice_outstanding empty_money sample_purchase = 79"
    by (auto split: sum.splits)
  from supplier_allocation_keeps_books [OF r(1)] r show ?thesis by auto
qed

end
