(* ===== verification/Take_Rows.thy ===== *)
theory Take_Rows
  imports Prelude "HOL-Library.Sublist"
begin

text \<open>
  The loop that many stock operations share: walk the rows in order and take from each what it can
  give until the need is met.  \<open>take_rows P avail deduct need rows\<close> visits the rows that satisfy
  \<open>P\<close>; it returns the rows after taking, what was taken from which row, and what is still short.
  The locale \<open>row_taker\<close> is the contract of \<open>avail\<close> and \<open>deduct\<close>; the stock components interpret it
  on their own rows.
\<close>

fun take_rows ::
  "('r \<Rightarrow> bool) \<Rightarrow> ('r \<Rightarrow> rat) \<Rightarrow> (rat \<Rightarrow> 'r \<Rightarrow> 'r) \<Rightarrow> rat \<Rightarrow> 'r list \<Rightarrow> 'r list \<times> ('r \<times> rat) list \<times> rat" where
  "take_rows P avail deduct need [] = ([], [], need)"
| "take_rows P avail deduct need (r # rs) =
    (if need \<le> 0 then (r # rs, [], need)
     else if \<not> P r then
       (let (rs', taken, left) = take_rows P avail deduct need rs in (r # rs', taken, left))
     else
       let t = min need (avail r);
           (rs', taken, left) = take_rows P avail deduct (need - t) rs
       in (deduct t r # rs', (r, t) # taken, left))"

locale row_taker =
  fixes P :: "'r \<Rightarrow> bool" and avail :: "'r \<Rightarrow> rat" and deduct :: "rat \<Rightarrow> 'r \<Rightarrow> 'r"
  assumes avail_nonneg: "P r \<Longrightarrow> 0 \<le> avail r"
    and avail_deduct: "P r \<Longrightarrow> 0 \<le> t \<Longrightarrow> t \<le> avail r \<Longrightarrow> avail (deduct t r) = avail r - t"
begin

lemma take_rows_spec:
  assumes "take_rows P avail deduct need rs = (rs', taken, left)" and "0 \<le> need"
  shows "(\<Sum>x\<leftarrow>taken. snd x) = need - left \<and> 0 \<le> left \<and>
    left = max 0 (need - (\<Sum>r\<leftarrow>filter P rs. avail r)) \<and>
    (\<Sum>r\<leftarrow>rs'. avail r) = (\<Sum>r\<leftarrow>rs. avail r) - (need - left) \<and>
    list_all (\<lambda>(r, t). P r \<and> r \<in> set rs \<and> 0 \<le> t \<and> t \<le> avail r) taken \<and>
    length rs' = length rs"
  using assms
proof (induction rs arbitrary: need rs' taken left)
  case Nil
  then show ?case by auto
next
  case (Cons r rs)
  have nn: "0 \<le> (\<Sum>r\<leftarrow>filter P rs. avail r)" using avail_nonneg by (intro sum_list_nonneg) auto
  consider "need \<le> 0" | "0 < need" "\<not> P r" | "0 < need" "P r" by linarith
  then show ?case
  proof cases
    case 1
    moreover have "0 \<le> (\<Sum>r\<leftarrow>filter P (r # rs). avail r)"
      using avail_nonneg by (intro sum_list_nonneg) (auto split: if_splits)
    ultimately show ?thesis using Cons.prems by auto
  next
    case 2
    obtain rs1 tk l where tr: "take_rows P avail deduct need rs = (rs1, tk, l)" by (metis prod_cases3)
    show ?thesis using Cons.IH [OF tr Cons.prems(2)] Cons.prems(1) 2 tr by (auto simp: list_all_iff)
  next
    case 3
    define t where "t = min need (avail r)"
    have t: "0 \<le> t" "t \<le> avail r" "t \<le> need" using 3 avail_nonneg [of r] by (auto simp: t_def)
    obtain rs1 tk l where tr: "take_rows P avail deduct (need - t) rs = (rs1, tk, l)" by (metis prod_cases3)
    note ih = Cons.IH [OF tr]
    have eq: "rs' = deduct t r # rs1" "taken = (r, t) # tk" "left = l"
      using Cons.prems(1) 3 tr by (auto simp: t_def Let_def)
    have l: "l = max 0 (need - (\<Sum>r\<leftarrow>filter P (r # rs). avail r))"
      using ih t 3 nn by (auto simp: t_def min_def max_def split: if_splits)
    have "0 \<le> need - t" using t by simp
    note ih = ih [OF this]
    have "list_all (\<lambda>(x, s). P x \<and> x \<in> set (r # rs) \<and> 0 \<le> s \<and> s \<le> avail x) taken"
      unfolding eq using ih 3(2) t by (auto simp: list_all_iff)
    then show ?thesis using ih l t avail_deduct [OF 3(2) t(1,2)] unfolding eq by simp
  qed
qed

text \<open>Rows are emptied in order: a row that still has something is followed by untouched rows.\<close>

lemma take_rows_in_order:
  assumes "take_rows P avail deduct need rs = (rs', taken, left)"
    and "i < length rs" and "P (rs ! i)" and "0 < avail (rs' ! i)" and "i < j" and "j < length rs"
  shows "rs' ! j = rs ! j"
  using assms
proof (induction rs arbitrary: need rs' taken left i j)
  case Nil
  then show ?case by auto
next
  case (Cons r rs)
  consider "need \<le> 0" | "0 < need" "\<not> P r" | "0 < need" "P r" by linarith
  then show ?case
  proof cases
    case 1
    then show ?thesis using Cons.prems by simp
  next
    case 2
    obtain rs1 tk l where tr: "take_rows P avail deduct need rs = (rs1, tk, l)" by (metis prod_cases3)
    have eq: "rs' = r # rs1" using Cons.prems(1) 2 tr by auto
    obtain i' where i: "i = Suc i'" using Cons.prems(3) 2 by (cases i) auto
    obtain j' where j: "j = Suc j'" using Cons.prems(5) by (cases j) auto
    show ?thesis using Cons.IH [OF tr, of i' j'] Cons.prems unfolding eq i j by simp
  next
    case 3
    define t where "t = min need (avail r)"
    obtain rs1 tk l where tr: "take_rows P avail deduct (need - t) rs = (rs1, tk, l)" by (metis prod_cases3)
    have eq: "rs' = deduct t r # rs1" using Cons.prems(1) 3 tr by (auto simp: t_def Let_def)
    obtain j' where j: "j = Suc j'" using Cons.prems(5) by (cases j) auto
    show ?thesis
    proof (cases i)
      case 0
      have t: "0 \<le> t" "t \<le> avail r" using 3 avail_nonneg [of r] by (auto simp: t_def)
      have "0 < avail r - t" using Cons.prems(4) avail_deduct [OF 3(2) t] unfolding eq 0 by simp
      then have "need - t \<le> 0" using 3 by (auto simp: t_def)
      then have "rs1 = rs" using tr by (cases rs) auto
      then show ?thesis unfolding eq j by simp
    next
      case (Suc i')
      show ?thesis using Cons.IH [OF tr, of i' j'] Cons.prems unfolding eq Suc j by simp
    qed
  qed
qed

end

text \<open>What holds of the loop whatever the rows are.\<close>

lemma take_rows_keeps:
  assumes "take_rows P avail deduct need rs = (rs', taken, left)" and "\<And>t r. f (deduct t r) = f r"
  shows "map f rs' = map f rs"
  using assms(1)
proof (induction rs arbitrary: need rs' taken left)
  case Nil
  then show ?case by simp
next
  case (Cons r rs)
  obtain rs1 tk l where a: "take_rows P avail deduct need rs = (rs1, tk, l)" by (metis prod_cases3)
  obtain rs2 tk2 l2 where b: "take_rows P avail deduct (need - min need (avail r)) rs = (rs2, tk2, l2)"
    by (metis prod_cases3)
  show ?case using Cons.IH [OF a] Cons.IH [OF b] Cons.prems a b assms(2)
    by (auto simp: Let_def split: if_splits)
qed

lemma subseq_distinct: "subseq xs ys \<Longrightarrow> distinct ys \<Longrightarrow> distinct xs"
  by (auto simp: subseq_conv_nths)

lemma subseq_subset: "subseq xs ys \<Longrightarrow> set xs \<subseteq> set ys"
  by (auto simp: subseq_conv_nths dest: in_set_nthsD)

lemma take_rows_subseq:
  assumes "take_rows P avail deduct need rs = (rs', taken, left)"
  shows "subseq (map fst taken) rs"
  using assms
proof (induction rs arbitrary: need rs' taken left)
  case Nil
  then show ?case by simp
next
  case (Cons r rs)
  obtain rs1 tk l where a: "take_rows P avail deduct need rs = (rs1, tk, l)" by (metis prod_cases3)
  obtain rs2 tk2 l2 where b: "take_rows P avail deduct (need - min need (avail r)) rs = (rs2, tk2, l2)"
    by (metis prod_cases3)
  show ?case using Cons.IH [OF a] Cons.IH [OF b] Cons.prems a b
    by (auto simp: Let_def split: if_splits)
qed

lemma take_rows_outside:
  assumes "take_rows P avail deduct need rs = (rs', taken, left)"
    and "\<And>t r. P r \<Longrightarrow> \<not> Q r" and "\<And>t r. P r \<Longrightarrow> \<not> Q (deduct t r)"
  shows "filter Q rs' = filter Q rs"
  using assms(1)
proof (induction rs arbitrary: need rs' taken left)
  case Nil
  then show ?case by simp
next
  case (Cons r rs)
  obtain rs1 tk l where a: "take_rows P avail deduct need rs = (rs1, tk, l)" by (metis prod_cases3)
  obtain rs2 tk2 l2 where b: "take_rows P avail deduct (need - min need (avail r)) rs = (rs2, tk2, l2)"
    by (metis prod_cases3)
  show ?case using Cons.IH [OF a] Cons.IH [OF b] Cons.prems a b assms(2,3)
    by (auto simp: Let_def split: if_splits)
qed

end
