(* ===== verification/Cost_Layers.thy ===== *)
theory Cost_Layers
  imports Take_Rows Py_Decimal
begin

text \<open>
  Perpetual stock valuation (\<open>inventory/services.py\<close>): the weighted-average pool of
  \<open>_apply_running_cost\<close>, and the FIFO cost layers that an inbound movement creates, an issue peels
  and a cancellation restores or retires.  \<open>valuation\<close> is what
  \<open>InventoryValuationService.unit_cost\<close> answers; \<open>new_pk\<close> is the key of the row the database adds.
\<close>

section \<open>Movements and layers\<close>

datatype movement_type =
    OPENING_STOCK | PURCHASE | SALE | PURCHASE_RETURN | SALES_RETURN | ADJUSTMENT
  | TRANSFER_OUT | TRANSFER_IN | MANUFACTURE_ISSUE | MANUFACTURE_RECEIPT | MANUFACTURE_RETURN
  | MANUFACTURE_REVERSAL

definition SIGNED_MOVEMENT_TYPES :: "movement_type list" where
  "SIGNED_MOVEMENT_TYPES = [ADJUSTMENT, MANUFACTURE_REVERSAL]"

text \<open>\<open>MOVEMENT_SIGN\<close>; the signed types have none.\<close>

fun MOVEMENT_SIGN :: "movement_type \<Rightarrow> rat" where
  "MOVEMENT_SIGN OPENING_STOCK = 1"
| "MOVEMENT_SIGN PURCHASE = 1"
| "MOVEMENT_SIGN SALE = -1"
| "MOVEMENT_SIGN PURCHASE_RETURN = -1"
| "MOVEMENT_SIGN SALES_RETURN = 1"
| "MOVEMENT_SIGN TRANSFER_OUT = -1"
| "MOVEMENT_SIGN TRANSFER_IN = 1"
| "MOVEMENT_SIGN MANUFACTURE_ISSUE = -1"
| "MOVEMENT_SIGN MANUFACTURE_RECEIPT = 1"
| "MOVEMENT_SIGN MANUFACTURE_RETURN = 1"
| "MOVEMENT_SIGN ADJUSTMENT = 0"
| "MOVEMENT_SIGN MANUFACTURE_REVERSAL = 0"

definition RESTORE_INBOUND_REFS :: "string list" where
  "RESTORE_INBOUND_REFS = [''sales_invoice_cancel'', ''sales_invoice_cancel_challan'',
     ''delivery_challan_cancel'', ''work_order_cancel'', ''stock_transfer_cancel'',
     ''purchase_return_cancel'', ''purchase_return_damaged_cancel'', ''sales_return_damaged_cancel'',
     ''mfg_return'', ''mfg_issue_reverse'', ''jobwork_return'', ''jobwork_challan_reverse'']"

definition RETIRE_SPECIFIC_LAYER_REFS :: "string list" where
  "RETIRE_SPECIFIC_LAYER_REFS = [''purchase_invoice_cancel'', ''purchase_invoice_edit'',
     ''purchase_return'', ''purchase_return_damaged'', ''stock_transfer_cancel'',
     ''work_order_cancel'', ''sales_return_cancel'', ''mfg_receipt_reverse'', ''mfg_return_reverse'',
     ''jobwork_challan_reverse'']"

text \<open>Warehouse, product and batch.\<close>

type_synonym stock_key = "int \<times> int \<times> int option"

record peel =
  pe_layer :: "int option"
  pe_qty :: rat
  pe_cost :: rat
  pe_outbound :: "int option"

record movement =
  mv_pk :: int
  mv_key :: stock_key
  mv_type :: movement_type
  mv_ref :: string
  mv_ref_id :: string
  mv_qty :: rat
  mv_cost :: rat
  mv_peels :: "peel list"

record cost_layer =
  ly_pk :: int
  ly_key :: stock_key
  ly_qty :: rat                       \<comment> \<open>\<open>qty_remaining\<close>\<close>
  ly_cost :: rat
  ly_source :: "(int \<times> rat) option"  \<comment> \<open>source movement and its quantity\<close>

section \<open>Weighted average\<close>

text \<open>Pool quantity and value; the third component is the average an issue consumed.\<close>

definition apply_running_cost :: "rat \<times> rat \<Rightarrow> rat \<Rightarrow> rat \<Rightarrow> (rat \<times> rat) \<times> rat option" where
  "apply_running_cost pool delta cost =
    (let (qty, value) = pool in
     if 0 < delta then ((qty + delta, value + delta * cost), None)
     else if delta < 0 then
       (let issue = - delta;
            avg = (if qty \<noteq> 0 then ddiv value qty else 0);
            value' = ctx28 (value - dmul issue avg);
            qty' = qty - issue
        in ((qty', if qty' = 0 then 0 else if 0 < qty' \<and> value' < 0 then dmul qty' avg else value'),
            Some avg))
     else ((qty, value), None))"

section \<open>FIFO layers\<close>

definition INBOUND_LAYER_TYPES :: "movement_type list" where
  "INBOUND_LAYER_TYPES = [PURCHASE, OPENING_STOCK, TRANSFER_IN, MANUFACTURE_RECEIPT,
     MANUFACTURE_RETURN, MANUFACTURE_REVERSAL, ADJUSTMENT]"

definition deduct_layer :: "rat \<Rightarrow> cost_layer \<Rightarrow> cost_layer" where
  "deduct_layer t l = l\<lparr>ly_qty := ly_qty l - t\<rparr>"

definition peel_layers ::
  "(cost_layer \<Rightarrow> bool) \<Rightarrow> rat \<Rightarrow> cost_layer list \<Rightarrow> cost_layer list \<times> peel list \<times> rat" where
  "peel_layers P need layers =
    (let (layers', taken, short) =
           take_rows (\<lambda>l. P l \<and> 0 < ly_qty l) ly_qty deduct_layer need layers
     in (layers', map (\<lambda>(l, t). \<lparr>pe_layer = Some (ly_pk l), pe_qty = t, pe_cost = ly_cost l,
                          pe_outbound = None\<rparr>) taken, short))"

definition peels_cost :: "peel list \<Rightarrow> rat" where
  "peels_cost peels = (\<Sum>p\<leftarrow>peels. pe_qty p * pe_cost p)"

definition shortfall_cost :: "peel list \<Rightarrow> rat \<Rightarrow> rat \<Rightarrow> rat" where
  "shortfall_cost peels valuation purchase_price =
    (let c1 = (if peels \<noteq> [] then pe_cost (last peels) else 0);
         c2 = (if c1 \<le> 0 then valuation else c1)
     in if c2 \<le> 0 then purchase_price else c2)"

definition apply_cost_layers ::
  "bool \<Rightarrow> bool \<Rightarrow> rat \<Rightarrow> rat \<Rightarrow> int \<Rightarrow> cost_layer list \<Rightarrow> movement \<Rightarrow> rat \<Rightarrow> rat
    \<Rightarrow> (cost_layer list \<times> movement) res" where
  "apply_cost_layers fifo block valuation purchase_price new_pk layers mv delta unit_cost =
    (if \<not> fifo then Inr (layers, mv)
     else if 0 < delta \<and> mv_ref mv \<in> set RESTORE_INBOUND_REFS then Inr (layers, mv)
     else if 0 < delta \<and> mv_type mv \<in> set INBOUND_LAYER_TYPES then
       (let c1 = (if unit_cost \<le> 0 \<and> mv_type mv = ADJUSTMENT then valuation else unit_cost);
            cost = (if unit_cost \<le> 0 \<and> mv_type mv = ADJUSTMENT \<and> c1 \<le> 0 then purchase_price else c1)
        in Inr (layers @ [\<lparr>ly_pk = new_pk, ly_key = mv_key mv, ly_qty = delta, ly_cost = cost,
                           ly_source = Some (mv_pk mv, mv_qty mv)\<rparr>], mv))
     else if delta < 0 \<and> mv_ref mv \<in> set RETIRE_SPECIFIC_LAYER_REFS then Inr (layers, mv)
     else if delta < 0 then
       (let need = - delta;
            (layers', peels, short) = peel_layers (\<lambda>l. ly_key l = mv_key mv) need layers in
        if 0 < short \<and> block then
          Inl (Business_Rule ''Insufficient FIFO cost layers'')
        else
          let fallback = shortfall_cost peels valuation purchase_price;
              all_peels = (if 0 < short
                then peels @ [\<lparr>pe_layer = None, pe_qty = short, pe_cost = fallback, pe_outbound = None\<rparr>]
                else peels);
              stamped = quantize_even 4 (ddiv (peels_cost all_peels) need)
          in Inr (layers', mv\<lparr>mv_cost := stamped, mv_peels := all_peels\<rparr>))
     else Inr (layers, mv))"

section \<open>Restoring and retiring\<close>

definition find_layer :: "int option \<Rightarrow> cost_layer list \<Rightarrow> cost_layer option" where
  "find_layer pk layers = find (\<lambda>l. Some (ly_pk l) = pk) layers"

definition set_layer :: "int option \<Rightarrow> (cost_layer \<Rightarrow> cost_layer) \<Rightarrow> cost_layer list \<Rightarrow> cost_layer list" where
  "set_layer pk f layers = map (\<lambda>l. if Some (ly_pk l) = pk then f l else l) layers"

text \<open>\<open>already_restored_by_layer\<close>: per layer, what returns in force have put back.\<close>

definition already_restored_by_layer :: "movement \<Rightarrow> movement list \<Rightarrow> int \<Rightarrow> rat" where
  "already_restored_by_layer outbound restoring layer =
    (\<Sum>m\<leftarrow>restoring. \<Sum>e\<leftarrow>filter (\<lambda>e. pe_outbound e = Some (mv_pk outbound) \<and> pe_layer e = Some layer)
        (mv_peels m). pe_qty e)"

definition unrestore_from_detail :: "bool \<Rightarrow> movement \<Rightarrow> cost_layer list \<Rightarrow> bool \<times> cost_layer list" where
  "unrestore_from_detail fifo inbound layers =
    (let entries = filter (\<lambda>e. pe_outbound e \<noteq> None) (mv_peels inbound) in
     if entries = [] then (False, layers)
     else if \<not> fifo then (True, layers)
     else (True, foldl (\<lambda>ls e. set_layer (pe_layer e)
             (\<lambda>l. l\<lparr>ly_qty := max 0 (ly_qty l - min (pe_qty e) (ly_qty l))\<rparr>) ls) layers entries))"



text \<open>\<open>unrestore_fifo_peels\<close>: the peels in reverse order.\<close>

fun unrestore_peels :: "peel list \<Rightarrow> rat \<Rightarrow> cost_layer list \<Rightarrow> cost_layer list" where
  "unrestore_peels [] remaining layers = layers"
| "unrestore_peels (p # ps) remaining layers =
    (if remaining \<le> 0 then layers
     else if pe_qty p \<le> 0 then unrestore_peels ps remaining layers
     else let t0 = min remaining (pe_qty p) in
       case find_layer (pe_layer p) layers of
         None \<Rightarrow> unrestore_peels ps (remaining - t0) layers
       | Some l \<Rightarrow> let t = min t0 (ly_qty l) in
           unrestore_peels ps (remaining - t)
             (set_layer (pe_layer p) (\<lambda>l. l\<lparr>ly_qty := max 0 (ly_qty l - t)\<rparr>) layers))"

definition unrestore_fifo_peels :: "bool \<Rightarrow> movement option \<Rightarrow> rat \<Rightarrow> cost_layer list \<Rightarrow> cost_layer list" where
  "unrestore_fifo_peels fifo outbound qty layers =
    (case outbound of None \<Rightarrow> layers
     | Some ob \<Rightarrow> if \<not> fifo then layers else unrestore_peels (rev (mv_peels ob)) \<bar>qty\<bar> layers)"

definition from_source :: "movement \<Rightarrow> cost_layer \<Rightarrow> bool" where
  "from_source mv l = (map_option fst (ly_source l) = Some (mv_pk mv))"

definition source_layers_available :: "bool \<Rightarrow> movement option \<Rightarrow> cost_layer list \<Rightarrow> rat option" where
  "source_layers_available fifo source layers =
    (case source of None \<Rightarrow> None
     | Some mv \<Rightarrow> if \<not> fifo then None
         else Some (\<Sum>l\<leftarrow>filter (from_source mv) layers. ly_qty l))"

definition retire_source_layers ::
  "bool \<Rightarrow> movement option \<Rightarrow> rat \<Rightarrow> cost_layer list \<Rightarrow> (cost_layer list \<times> peel list) res" where
  "retire_source_layers fifo source quantity layers =
    (case source of None \<Rightarrow> Inr (layers, [])
     | Some mv \<Rightarrow> if \<not> fifo \<or> quantity \<le> 0 then Inr (layers, [])
         else let (layers', taken, short) = peel_layers (from_source mv) quantity layers in
           guard_res (0 < short)
             (Business_Rule ''Cannot reverse stock: source FIFO layer has already been issued'')
             (Inr (layers', taken)))"

fun add_to_first :: "(cost_layer \<Rightarrow> bool) \<Rightarrow> rat \<Rightarrow> cost_layer list \<Rightarrow> cost_layer list" where
  "add_to_first P q [] = []"
| "add_to_first P q (l # ls) =
    (if P l then l\<lparr>ly_qty := ly_qty l + q\<rparr> # ls else l # add_to_first P q ls)"

definition restore_source_layers ::
  "bool \<Rightarrow> movement option \<Rightarrow> rat \<Rightarrow> int \<Rightarrow> cost_layer list \<Rightarrow> cost_layer list" where
  "restore_source_layers fifo source quantity new_pk layers =
    (case source of None \<Rightarrow> layers
     | Some mv \<Rightarrow> if \<not> fifo \<or> quantity \<le> 0 then layers
         else if list_ex (from_source mv) layers then add_to_first (from_source mv) quantity layers
         else layers @ [\<lparr>ly_pk = new_pk, ly_key = mv_key mv, ly_qty = quantity, ly_cost = mv_cost mv,
                ly_source = Some (mv_pk mv, mv_qty mv)\<rparr>])"

section \<open>Facts about the weighted average\<close>

definition pool_ok :: "rat \<times> rat \<Rightarrow> bool" where
  "pool_ok pool = (0 \<le> fst pool \<and> 0 \<le> snd pool \<and> (fst pool = 0 \<longrightarrow> snd pool = 0))"

lemma pool_ok_step:
  assumes "pool_ok pool" and "0 \<le> cost" and "- fst pool \<le> delta"
  shows "pool_ok (fst (apply_running_cost pool delta cost))"
proof -
  obtain q v where p: "pool = (q, v)" by force
  have ok: "0 \<le> q" "0 \<le> v" "q = 0 \<longrightarrow> v = 0" "- q \<le> delta" using assms p by (auto simp: pool_ok_def)
  consider "0 < delta" | "delta = 0" | "delta < 0" by linarith
  then show ?thesis
  proof cases
    case 3
    have "0 \<le> dmul (q + delta) (ddiv v q)" using ok by (intro dmul_nonneg ddiv_nonneg) auto
    then show ?thesis using ok 3 by (auto simp: p pool_ok_def apply_running_cost_def Let_def)
  qed (use ok assms(2) in \<open>auto simp: p pool_ok_def apply_running_cost_def Let_def\<close>)
qed

text \<open>
  A weighted-average pool that is never oversold stays sane: quantity and value stay
  non-negative, and an empty pool carries no value.
\<close>

theorem wavg_pool_stays_sane:
  assumes "pool_ok pool" and "list_all (\<lambda>(d, c). 0 \<le> c) moves"
    and "\<forall>n \<le> length moves. 0 \<le> fst pool + (\<Sum>m\<leftarrow>take n moves. fst m)"
  shows "pool_ok (foldl (\<lambda>p (d, c). fst (apply_running_cost p d c)) pool moves) \<and>
    fst (foldl (\<lambda>p (d, c). fst (apply_running_cost p d c)) pool moves) = fst pool + (\<Sum>m\<leftarrow>moves. fst m)"
  using assms
proof (induction moves arbitrary: pool)
  case Nil
  then show ?case by simp
next
  case (Cons m moves)
  obtain d c where m: "m = (d, c)" by force
  have q: "fst (fst (apply_running_cost pool d c)) = fst pool + d"
    by (cases pool) (auto simp: apply_running_cost_def Let_def)
  have "0 \<le> fst pool + d" using spec [OF Cons.prems(3), of 1] by (simp add: m)
  then have ok: "pool_ok (fst (apply_running_cost pool d c))"
    using Cons.prems by (intro pool_ok_step) (auto simp: m)
  have "\<forall>n \<le> length moves. 0 \<le> fst pool + d + (\<Sum>m\<leftarrow>take n moves. fst m)"
  proof (intro allI impI)
    fix n assume "n \<le> length moves"
    then show "0 \<le> fst pool + d + (\<Sum>m\<leftarrow>take n moves. fst m)"
      using spec [OF Cons.prems(3), of "Suc n"] by (simp add: m add.assoc)
  qed
  then show ?case using Cons.IH [OF ok] Cons.prems(2) by (simp add: m q add.assoc)
qed

theorem wavg_pool_stays_sane_witness:
  "pool_ok (foldl (\<lambda>p (d, c). fst (apply_running_cost p d c)) (0, 0) [(3, 10), (-2, 10)])"
proof -
  have h: "pool_ok (0, 0)" "list_all (\<lambda>(d, c). 0 \<le> c) [(3, 10), (-2, 10 :: rat)]"
    by (simp_all add: pool_ok_def)
  have "\<forall>n \<le> length [(3::rat, 10::rat), (-2, 10)]. 0 \<le> fst (0::rat, 0::rat) + (\<Sum>m\<leftarrow>take n [(3::rat, 10::rat), (-2, 10)]. fst m)"
    by (auto simp: le_Suc_eq numeral_2_eq_2)
  from wavg_pool_stays_sane [OF h this] show ?thesis by blast
qed

text \<open>
  Under the WARN policy a pool that was oversold keeps the cost difference: 2 units bought at 10,
  5 sold, 3 bought at 30 leaves no stock but a value of 60, and one more unit at 30 is then carried
  at an average of 90.
\<close>

theorem oversold_pool_keeps_residue:
  "foldl (\<lambda>p (d, c). fst (apply_running_cost p d c)) (0, 0) [(2, 10), (-5, 10), (3, 30)] = (0, 60) \<and>
   foldl (\<lambda>p (d, c). fst (apply_running_cost p d c)) (0, 0) [(2, 10), (-5, 10), (3, 30), (1, 30)] = (1, 90)"
proof -
  have "ctx28 10 = 10" "ctx28 50 = 50" "ctx28 30 = 30" by code_simp+
  then show ?thesis
    using ctx28_minus [of 30] by (simp add: apply_running_cost_def ddiv_def dmul_def Let_def)
qed

section \<open>Facts about layers\<close>

interpretation layer_rows: row_taker "\<lambda>l. P l \<and> 0 < ly_qty l" ly_qty deduct_layer for P
  by unfold_locales (auto simp: deduct_layer_def)

lemma deduct_layer_keeps [simp]:
  "ly_pk (deduct_layer t l) = ly_pk l" "ly_key (deduct_layer t l) = ly_key l"
  "ly_cost (deduct_layer t l) = ly_cost l" "ly_source (deduct_layer t l) = ly_source l"
  "ly_qty (deduct_layer t l) = ly_qty l - t"
  by (simp_all add: deduct_layer_def)

definition qty_at :: "(cost_layer \<Rightarrow> bool) \<Rightarrow> cost_layer list \<Rightarrow> rat" where
  "qty_at P layers = (\<Sum>l\<leftarrow>filter P layers. max 0 (ly_qty l))"

definition layers_value :: "cost_layer list \<Rightarrow> rat" where
  "layers_value layers = (\<Sum>l\<leftarrow>layers. ly_qty l * ly_cost l)"

lemma take_layers_value:
  assumes "take_rows P ly_qty deduct_layer need layers = (layers', taken, short)"
  shows "layers_value layers' = layers_value layers - (\<Sum>(l, t)\<leftarrow>taken. t * ly_cost l)"
  using assms
proof (induction layers arbitrary: need layers' taken short)
  case Nil
  then show ?case by simp
next
  case (Cons l ls)
  obtain ls1 tk s where a: "take_rows P ly_qty deduct_layer need ls = (ls1, tk, s)" by (metis prod_cases3)
  obtain ls2 tk2 s2 where b: "take_rows P ly_qty deduct_layer (need - min need (ly_qty l)) ls = (ls2, tk2, s2)"
    by (metis prod_cases3)
  show ?case using Cons.IH [OF a] Cons.IH [OF b] Cons.prems a b
    by (auto simp: layers_value_def Let_def algebra_simps split: if_splits)
qed

lemma peel_layers_spec:
  assumes "peel_layers P need layers = (layers', peels, short)" and "0 \<le> need"
  shows "(\<Sum>p\<leftarrow>peels. pe_qty p) = need - short" and "0 \<le> short"
    and "short = max 0 (need - qty_at P layers)"
    and "layers_value layers' = layers_value layers - peels_cost peels"
    and "(\<Sum>l\<leftarrow>layers'. ly_qty l) = (\<Sum>l\<leftarrow>layers. ly_qty l) - (need - short)"
    and "\<lbrakk>i < j; j < length layers; P (layers ! i); 0 < ly_qty (layers' ! i); 0 < ly_qty (layers ! i)\<rbrakk>
      \<Longrightarrow> layers' ! j = layers ! j"
    and "(\<And>t l. P (deduct_layer t l) = P l) \<Longrightarrow> filter (\<lambda>l. \<not> P l) layers' = filter (\<lambda>l. \<not> P l) layers"
proof -
  let ?P = "\<lambda>l. P l \<and> 0 < ly_qty l"
  obtain taken where tr: "take_rows ?P ly_qty deduct_layer need layers = (layers', taken, short)"
    and peels: "peels = map (\<lambda>(l, t). \<lparr>pe_layer = Some (ly_pk l), pe_qty = t, pe_cost = ly_cost l,
                          pe_outbound = None\<rparr>) taken"
    using assms(1) by (auto simp: peel_layers_def split: prod.splits)
  note spec = layer_rows.take_rows_spec [OF tr assms(2)]
  have "map pe_qty peels = map snd taken" by (auto simp: peels)
  then show "(\<Sum>p\<leftarrow>peels. pe_qty p) = need - short" using spec by simp
  show "0 \<le> short" using spec by simp
  have "(\<Sum>l\<leftarrow>filter ?P layers. ly_qty l) = qty_at P layers"
    unfolding qty_at_def by (induction layers) (auto simp: max_def)
  then show "short = max 0 (need - qty_at P layers)" using spec by simp
  have "peels_cost peels = (\<Sum>(l, t)\<leftarrow>taken. t * ly_cost l)"
    unfolding peels peels_cost_def by (induction taken) auto
  then show "layers_value layers' = layers_value layers - peels_cost peels"
    using take_layers_value [OF tr] by simp
  show "(\<Sum>l\<leftarrow>layers'. ly_qty l) = (\<Sum>l\<leftarrow>layers. ly_qty l) - (need - short)" using spec by simp
  show "layers' ! j = layers ! j"
    if "i < j" "j < length layers" "P (layers ! i)" "0 < ly_qty (layers' ! i)" "0 < ly_qty (layers ! i)"
    using layer_rows.take_rows_in_order [OF tr, of i j] that by auto
  show "filter (\<lambda>l. \<not> P l) layers' = filter (\<lambda>l. \<not> P l) layers"
    if "\<And>t l. P (deduct_layer t l) = P l"
    by (rule take_rows_outside [OF tr]) (auto simp: that)
qed

text \<open>An issue: what \<open>apply_cost_layers\<close> does to the layers and to the movement.\<close>

lemma issue_elim:
  assumes "apply_cost_layers True block v pp pk layers mv delta uc = Inr (layers', mv')"
    and "delta < 0" and "mv_ref mv \<notin> set RETIRE_SPECIFIC_LAYER_REFS"
  obtains peels short where "peel_layers (\<lambda>l. ly_key l = mv_key mv) (- delta) layers = (layers', peels, short)"
    and "block \<Longrightarrow> short \<le> 0"
    and "mv_peels mv' = (if 0 < short then peels @ [\<lparr>pe_layer = None, pe_qty = short,
           pe_cost = shortfall_cost peels v pp, pe_outbound = None\<rparr>] else peels)"
    and "mv_cost mv' = quantize_even 4 (ddiv (peels_cost (mv_peels mv')) (- delta))"
    and "mv_key mv' = mv_key mv" "mv_pk mv' = mv_pk mv" "mv_qty mv' = mv_qty mv"
proof -
  obtain ls peels short where p: "peel_layers (\<lambda>l. ly_key l = mv_key mv) (- delta) layers = (ls, peels, short)"
    by (metis prod_cases3)
  define all_peels where "all_peels = (if 0 < short then peels @ [\<lparr>pe_layer = None, pe_qty = short,
           pe_cost = shortfall_cost peels v pp, pe_outbound = None\<rparr>] else peels)"
  have nb: "\<not> (0 < short \<and> block)" and r: "layers' = ls"
    "mv' = mv\<lparr>mv_cost := quantize_even 4 (ddiv (peels_cost all_peels) (- delta)), mv_peels := all_peels\<rparr>"
    using assms p
    by (auto simp: apply_cost_layers_def Let_def all_peels_def split: if_splits)
  show thesis by (rule that) (use p nb r in \<open>auto simp: all_peels_def\<close>)
qed

lemma stamped_near:
  "\<bar>quantize_even 4 x - x\<bar> \<le> 1/20000"
  using cost4.near [of x] by simp

text \<open>
  C18. A FIFO issue conserves stock and value and takes the oldest layers first.  The peels recorded
  on the movement add up to the quantity issued; the value that leaves the layers is the cost of the
  peels that name a layer; other items' layers are untouched; a layer of the item with something left
  is followed by untouched layers; and the stamped unit cost is the peels' average to 4 places.
  Under the BLOCK policy nothing is issued beyond the layers.
\<close>

theorem fifo_issue_conserves:
  assumes "apply_cost_layers True block v pp pk layers mv delta uc = Inr (layers', mv')"
    and "delta < 0" and "mv_ref mv \<notin> set RETIRE_SPECIFIC_LAYER_REFS"
  shows "(\<Sum>p\<leftarrow>mv_peels mv'. pe_qty p) = - delta \<and>
    layers_value layers' = layers_value layers
      - peels_cost (filter (\<lambda>p. pe_layer p \<noteq> None) (mv_peels mv')) \<and>
    filter (\<lambda>l. ly_key l \<noteq> mv_key mv) layers' = filter (\<lambda>l. ly_key l \<noteq> mv_key mv) layers \<and>
    (\<forall>i j. i < j \<and> j < length layers \<and> ly_key (layers ! i) = mv_key mv \<and> 0 < ly_qty (layers ! i)
       \<and> 0 < ly_qty (layers' ! i) \<longrightarrow> layers' ! j = layers ! j) \<and>
    \<bar>mv_cost mv' - ddiv (peels_cost (mv_peels mv')) (- delta)\<bar> \<le> 1/20000 \<and>
    (block \<longrightarrow> - delta \<le> qty_at (\<lambda>l. ly_key l = mv_key mv) layers \<and>
       list_all (\<lambda>p. pe_layer p \<noteq> None) (mv_peels mv'))"
proof (rule issue_elim [OF assms], goal_cases)
  case (1 peels short)
  note spec = peel_layers_spec [OF 1(1)]
  have d: "0 \<le> - delta" using assms(2) by simp
  have named: "list_all (\<lambda>p. pe_layer p \<noteq> None) peels"
    using 1(1) by (auto simp: peel_layers_def list_all_iff split: prod.splits)
  then have f: "filter (\<lambda>p. pe_layer p \<noteq> None) (mv_peels mv') = peels"
    unfolding 1(3) by (auto simp: list_all_iff filter_id_conv)
  have sum: "(\<Sum>p\<leftarrow>mv_peels mv'. pe_qty p) = - delta"
    using spec(1) [OF d] spec(2) [OF d] unfolding 1(3) by auto
  have full: "- delta \<le> qty_at (\<lambda>l. ly_key l = mv_key mv) layers \<and>
       list_all (\<lambda>p. pe_layer p \<noteq> None) (mv_peels mv')" if block
    using 1(2) [OF that] spec(3) [OF d] named unfolding 1(3) by auto
  show ?case
    using sum full spec(4) [OF d] spec(6) [OF d] spec(7) [OF d] stamped_near [of "ddiv (peels_cost (mv_peels mv')) (- delta)"]
    unfolding f 1(4) by auto
qed

section \<open>Peeling and restoring\<close>

definition put_back :: "cost_layer list \<Rightarrow> peel \<Rightarrow> cost_layer list" where
  "put_back layers p = set_layer (pe_layer p) (\<lambda>l. l\<lparr>ly_qty := ly_qty l + pe_qty p\<rparr>) layers"

lemma put_back_pks [simp]: "map ly_pk (put_back layers p) = map ly_pk layers"
  by (simp add: put_back_def set_layer_def comp_def)














section \<open>Witnesses\<close>

definition sample_layers :: "cost_layer list" where
  "sample_layers = [\<lparr>ly_pk = 1, ly_key = (1, 7, None), ly_qty = 3, ly_cost = 10, ly_source = Some (1, 3)\<rparr>,
     \<lparr>ly_pk = 2, ly_key = (1, 7, None), ly_qty = 5, ly_cost = 12, ly_source = Some (2, 5)\<rparr>]"

definition sample_sale :: movement where
  "sample_sale = \<lparr>mv_pk = 3, mv_key = (1, 7, None), mv_type = SALE, mv_ref = ''sales_invoice'', mv_ref_id = [],
     mv_qty = -4, mv_cost = 0, mv_peels = []\<rparr>"

lemma sample_issue:
  "\<exists>ls mv. apply_cost_layers True True 0 0 9 sample_layers sample_sale (-4) 0 = Inr (ls, mv)
     \<and> mv_cost mv = 105/10 \<and> map ly_qty ls = [0, 4]"
proof -
  have "(case apply_cost_layers True True 0 0 9 sample_layers sample_sale (-4) 0 of
      Inr (ls, mv) \<Rightarrow> mv_cost mv = 105/10 \<and> map ly_qty ls = [0, 4] | Inl _ \<Rightarrow> False)"
    by code_simp
  then show ?thesis by (auto split: sum.splits)
qed

theorem fifo_issue_conserves_witness:
  "\<exists>ls mv. apply_cost_layers True True 0 0 9 sample_layers sample_sale (-4) 0 = Inr (ls, mv) \<and>
     (\<Sum>p\<leftarrow>mv_peels mv. pe_qty p) = 4"
proof -
  obtain ls mv where r: "apply_cost_layers True True 0 0 9 sample_layers sample_sale (-4) 0 = Inr (ls, mv)"
    using sample_issue by blast
  have "mv_ref sample_sale \<notin> set RETIRE_SPECIFIC_LAYER_REFS" by code_simp
  from fifo_issue_conserves [OF r _ this] r show ?thesis by auto
qed


end
