(* ===== verification/Stock_Ledger.thy ===== *)
theory Stock_Ledger
  imports Cost_Layers Sales_Orders Py_Date "HOL-Library.Product_Lexorder" "HOL-Library.List_Lexorder"
    "HOL-Library.Char_ord"
begin

text \<open>
  The stock ledger (\<open>inventory/services.py\<close>): \<open>post_movement\<close> appends a movement and keeps the
  balance cache, the cost layers and the weighted-average pool in step; reservations hold stock for
  orders.  The database is a record of tables of one company; \<open>today\<close> and \<open>now\<close> are arguments, and
  \<open>new_pk\<close> is the key of the row the database adds.
\<close>

section \<open>Tables\<close>

record stock_company =
  co_fifo :: bool
  co_block :: bool             \<comment> \<open>\<open>negative_stock_policy == "BLOCK"\<close>\<close>
  co_block_expired :: bool
  co_mfg_quality :: bool
  co_ttl_hours :: int          \<comment> \<open>\<open>reservation_ttl_hours\<close> or its fall-backs\<close>

record product =
  pr_pk :: int
  pr_ours :: bool              \<comment> \<open>no company, or this company's\<close>
  pr_tracks :: bool            \<comment> \<open>\<open>tracks_inventory\<close>\<close>
  pr_track_batch :: bool
  pr_price :: rat              \<comment> \<open>\<open>purchase_price\<close>\<close>

record warehouse =
  wh_pk :: int
  wh_ours :: bool
  wh_active :: bool

record batch_lot =
  bt_pk :: int
  bt_product :: int
  bt_ours :: bool
  bt_no :: string
  bt_expiry :: "date option"
  bt_made :: "date option"
  bt_released :: bool          \<comment> \<open>\<open>quality_status == "RELEASED"\<close>\<close>

record balance =
  bl_key :: stock_key
  bl_on_hand :: rat
  bl_reserved :: rat

record reservation =
  rs_key :: stock_key
  rs_qty :: rat
  rs_expires :: "int option"
  rs_released :: bool
  rs_ref :: string

record stock_db =
  sd_balances :: "balance list"
  sd_layers :: "cost_layer list"
  sd_pools :: "stock_key \<Rightarrow> rat \<times> rat"
  sd_movements :: "movement list"
  sd_holds :: "reservation list"

definition stock_key_of :: "warehouse \<Rightarrow> product \<Rightarrow> batch_lot option \<Rightarrow> stock_key" where
  "stock_key_of wh p b = (wh_pk wh, pr_pk p, map_option bt_pk b)"

section \<open>Balances\<close>

text \<open>\<open>get_or_create\<close>, then update, the balance row of a key.\<close>

fun update_balance :: "stock_key \<Rightarrow> (balance \<Rightarrow> balance) \<Rightarrow> balance list \<Rightarrow> balance list" where
  "update_balance k f [] = [f \<lparr>bl_key = k, bl_on_hand = 0, bl_reserved = 0\<rparr>]"
| "update_balance k f (b # bs) = (if bl_key b = k then f b # bs else b # update_balance k f bs)"

definition balance_of :: "balance list \<Rightarrow> stock_key \<Rightarrow> balance" where
  "balance_of bs k = (case find (\<lambda>b. bl_key b = k) bs of
     Some b \<Rightarrow> b | None \<Rightarrow> \<lparr>bl_key = k, bl_on_hand = 0, bl_reserved = 0\<rparr>)"

definition available_quantity :: "stock_db \<Rightarrow> int \<Rightarrow> int option \<Rightarrow> int option \<Rightarrow> rat" where
  "available_quantity db p wh batch =
    (let rows = filter (\<lambda>b. fst (snd (bl_key b)) = p \<and> (wh = None \<or> Some (fst (bl_key b)) = wh)
                   \<and> (batch = None \<or> snd (snd (bl_key b)) = batch)) (sd_balances db)
     in (\<Sum>b\<leftarrow>rows. bl_on_hand b) - (\<Sum>b\<leftarrow>rows. bl_reserved b))"

text \<open>\<open>check_negative_stock\<close>: nothing, a warning, or the error of the BLOCK policy.\<close>

definition check_negative_stock ::
  "stock_company \<Rightarrow> stock_db \<Rightarrow> int \<Rightarrow> rat \<Rightarrow> int option \<Rightarrow> int option \<Rightarrow> rat option res" where
  "check_negative_stock co db p required wh batch =
    (let available = available_quantity db p wh batch in
     if required \<le> available then Inr None
     else if co_block co then Inl (Business_Rule ''INSUFFICIENT_STOCK'')
     else Inr (Some available))"

section \<open>Posting a movement\<close>

definition opening_is_voided :: "movement list \<Rightarrow> movement \<Rightarrow> bool" where
  "opening_is_voided movements mv =
    (if mv_ref mv = ''import_voided'' then True
     else if mv_ref mv \<noteq> ''import'' \<or> mv_ref_id mv = [] then False
     else list_ex (\<lambda>m. mv_key m = mv_key mv \<and> mv_type m = ADJUSTMENT \<and> mv_ref m = ''import_void''
            \<and> mv_ref_id m = mv_ref_id mv) movements)"

definition active_opening_exists :: "movement list \<Rightarrow> stock_key \<Rightarrow> bool" where
  "active_opening_exists movements k =
    list_ex (\<lambda>m. mv_key m = k \<and> mv_type m = OPENING_STOCK \<and> \<not> opening_is_voided movements m) movements"

text \<open>The checks before the balance is locked; the result is the signed quantity.\<close>

definition movement_delta ::
  "stock_company \<Rightarrow> product \<Rightarrow> warehouse \<Rightarrow> batch_lot option \<Rightarrow> movement_type \<Rightarrow> rat \<Rightarrow> bool \<Rightarrow> rat res" where
  "movement_delta co p wh batch mtype quantity allow_held =
    (let signed = mtype \<in> set SIGNED_MOVEMENT_TYPES;
         inbound = (if signed then 0 < quantity else 0 < MOVEMENT_SIGN mtype) in
     guard_res (\<not> wh_ours wh) (Business_Rule ''Warehouse does not belong to this company.'') (
     guard_res (\<not> pr_ours p) (Business_Rule ''Product does not belong to this company.'') (
     guard_res (\<not> pr_tracks p) (Business_Rule ''Stock cannot be posted for a service or non-stock item.'') (
     guard_res (inbound \<and> \<not> wh_active wh) (Business_Rule ''Godown is inactive and cannot receive stock.'') (
     guard_res (case batch of None \<Rightarrow> False | Some b \<Rightarrow> \<not> bt_ours b \<or> bt_product b \<noteq> pr_pk p)
       (Business_Rule ''Batch does not belong to this product and company.'') (
     guard_res (pr_track_batch p \<and> batch = None) (Business_Rule ''A batch is required for tracked product'') (
     guard_res (\<not> allow_held \<and> (case batch of None \<Rightarrow> False | Some b \<Rightarrow> \<not> bt_released b)
         \<and> mtype \<in> {SALE, MANUFACTURE_ISSUE, TRANSFER_OUT} \<and> co_mfg_quality co)
       (Business_Rule ''MFG_BATCH_ON_HOLD'') (
     if signed then
       guard_res (quantity = 0) (Business_Rule ''Adjustment quantity cannot be zero.'') (Inr quantity)
     else
       guard_res (quantity \<le> 0) (Business_Rule ''Movement quantity must be greater than zero.'')
         (Inr (quantity * MOVEMENT_SIGN mtype))))))))))"

definition post_movement ::
  "stock_company \<Rightarrow> date \<Rightarrow> rat \<Rightarrow> int \<Rightarrow> stock_db \<Rightarrow> product \<Rightarrow> warehouse \<Rightarrow> batch_lot option \<Rightarrow> movement_type
    \<Rightarrow> rat \<Rightarrow> rat option \<Rightarrow> string \<Rightarrow> string \<Rightarrow> bool \<Rightarrow> bool \<Rightarrow> (stock_db \<times> movement) res" where
  "post_movement co today valuation new_pk db p wh batch mtype quantity unit_cost ref ref_id
      skip_negative_check allow_held =
    bind_res (movement_delta co p wh batch mtype quantity allow_held) (\<lambda>delta.
     let k = stock_key_of wh p batch; bal = balance_of (sd_balances db) k;
         available = bl_on_hand bal - bl_reserved bal in
     guard_res (mtype = OPENING_STOCK \<and> active_opening_exists (sd_movements db) k)
       (Business_Rule ''Opening stock has already been recorded'') (
     guard_res (delta < 0 \<and> \<not> skip_negative_check \<and> co_block_expired co
         \<and> (case batch of None \<Rightarrow> False | Some b \<Rightarrow> (case bt_expiry b of None \<Rightarrow> False | Some e \<Rightarrow> e < today)))
       (Business_Rule ''Batch is expired and cannot be issued.'') (
     guard_res (delta < 0 \<and> \<not> skip_negative_check \<and> available + delta < 0 \<and> co_block co)
       (Business_Rule ''Insufficient stock'') (
     let cost = (if mtype = ADJUSTMENT \<and> or0 unit_cost \<le> 0
                 then (if valuation \<le> 0 then pr_price p else valuation) else or0 unit_cost);
         mv = \<lparr>mv_pk = new_pk, mv_key = k, mv_type = mtype, mv_ref = ref, mv_ref_id = ref_id,
               mv_qty = delta, mv_cost = cost, mv_peels = []\<rparr>;
         balances = update_balance k (\<lambda>b. b\<lparr>bl_on_hand := bl_on_hand b + delta\<rparr>) (sd_balances db) in
     bind_res (apply_cost_layers (co_fifo co) (co_block co) valuation (pr_price p) new_pk (sd_layers db)
                 mv delta cost) (\<lambda>(layers, mv1).
     let (pool, consumed) = apply_running_cost (sd_pools db k) delta (mv_cost mv1);
         mv2 = (case consumed of
                  Some avg \<Rightarrow> if delta < 0 \<and> 0 < avg \<and> \<not> co_fifo co
                    then mv1\<lparr>mv_cost := quantize_even 4 avg\<rparr> else mv1
                | None \<Rightarrow> mv1)
     in Inr (\<lparr>sd_balances = balances, sd_layers = layers, sd_pools = (sd_pools db)(k := pool),
              sd_movements = sd_movements db @ [mv2], sd_holds = sd_holds db\<rparr>, mv2))))))"

section \<open>Rebuilding a balance\<close>

definition confirmed_so_qty :: "order_docs \<Rightarrow> sales_order list \<Rightarrow> int \<Rightarrow> rat" where
  "confirmed_so_qty docs orders p =
    (\<Sum>order\<leftarrow>filter (\<lambda>so. so_stock_held so \<and> list_ex (\<lambda>l. ol_product l = p) (so_lines so)
        \<and> so_status so \<noteq> SO_CANCELLED) orders. or0 (order_still_held None docs order p))"

text \<open>\<open>rebuild_balance\<close>; \<open>orders\<close> are the orders of the warehouse.\<close>

definition rebuild_balance ::
  "order_docs \<Rightarrow> sales_order list \<Rightarrow> stock_db \<Rightarrow> product \<Rightarrow> stock_key \<Rightarrow> stock_db" where
  "rebuild_balance docs orders db p k =
    (let on_hand = (\<Sum>m\<leftarrow>filter (\<lambda>m. mv_key m = k) (sd_movements db). mv_qty m);
         batch = snd (snd k);
         reserved = (if batch \<noteq> None \<or> pr_track_batch p
                     then (if batch \<noteq> None then bl_reserved (balance_of (sd_balances db) k) else 0)
                     else confirmed_so_qty docs orders (pr_pk p)) in
     db\<lparr>sd_balances := update_balance k (\<lambda>b. b\<lparr>bl_on_hand := on_hand,
          bl_reserved := min (max reserved 0) (max on_hand 0)\<rparr>) (sd_balances db)\<rparr>)"

section \<open>Reservations\<close>

definition track_reservation :: "stock_company \<Rightarrow> int \<Rightarrow> stock_key \<Rightarrow> rat \<Rightarrow> reservation list \<Rightarrow> reservation list" where
  "track_reservation co now k qty holds =
    (if co_ttl_hours co \<le> 0 then holds
     else holds @ [\<lparr>rs_key = k, rs_qty = qty, rs_expires = Some (now + 3600 * co_ttl_hours co),
                    rs_released = False, rs_ref = []\<rparr>])"

text \<open>\<open>reserve_stock\<close> on one balance row.\<close>

definition reserve_row :: "stock_company \<Rightarrow> int \<Rightarrow> stock_db \<Rightarrow> stock_key \<Rightarrow> rat \<Rightarrow> stock_db res" where
  "reserve_row co now db k qty =
    (let bal = balance_of (sd_balances db) k; available = bl_on_hand bal - bl_reserved bal in
     guard_res (qty \<le> 0) (Business_Rule ''Reservation quantity must be greater than zero.'') (
     guard_res (available < qty \<and> co_block co) (Business_Rule ''Insufficient stock'')
       (Inr (db\<lparr>sd_balances := update_balance k (\<lambda>b. b\<lparr>bl_reserved := bl_reserved b + qty\<rparr>) (sd_balances db),
                sd_holds := track_reservation co now k qty (sd_holds db)\<rparr>))))"

definition date_last :: "date option \<Rightarrow> nat \<times> date" where
  "date_last d = (case d of None \<Rightarrow> (1, Date 0 0 0) | Some d \<Rightarrow> (0, d))"

definition fefo_batches :: "stock_company \<Rightarrow> date \<Rightarrow> stock_db \<Rightarrow> batch_lot list \<Rightarrow> product \<Rightarrow> warehouse \<Rightarrow> batch_lot list" where
  "fefo_batches co today db lots p wh =
    sort_key (\<lambda>b. (date_last (bt_expiry b), date_last (bt_made b), bt_no b, bt_pk b))
      (filter (\<lambda>b. bt_product b = pr_pk p
          \<and> list_ex (\<lambda>r. bl_key r = stock_key_of wh p (Some b) \<and> 0 < bl_on_hand r) (sd_balances db)
          \<and> (\<not> co_block_expired co \<or> (case bt_expiry b of None \<Rightarrow> True | Some e \<Rightarrow> \<not> e < today))
          \<and> (\<not> co_mfg_quality co \<or> bt_released b)) lots)"

text \<open>The loop over the lots: what is still to reserve, and the tables.\<close>

fun reserve_lots ::
  "stock_company \<Rightarrow> int \<Rightarrow> product \<Rightarrow> warehouse \<Rightarrow> batch_lot list \<Rightarrow> rat \<Rightarrow> stock_db \<Rightarrow> (rat \<times> stock_db) res" where
  "reserve_lots co now p wh [] remaining db = Inr (remaining, db)"
| "reserve_lots co now p wh (lot # lots) remaining db =
    (if remaining \<le> 0 then Inr (remaining, db)
     else let take = min remaining (available_quantity db (pr_pk p) (Some (wh_pk wh)) (Some (bt_pk lot))) in
       if 0 < take then
         bind_res (reserve_row co now db (stock_key_of wh p (Some lot)) take)
           (reserve_lots co now p wh lots (remaining - take))
       else reserve_lots co now p wh lots remaining db)"

definition reserve_stock ::
  "stock_company \<Rightarrow> date \<Rightarrow> int \<Rightarrow> batch_lot list \<Rightarrow> stock_db \<Rightarrow> warehouse \<Rightarrow> product \<Rightarrow> rat \<Rightarrow> batch_lot option
    \<Rightarrow> stock_db res" where
  "reserve_stock co today now lots db wh p qty batch =
    guard_res (qty \<le> 0) (Business_Rule ''Reservation quantity must be greater than zero.'') (
    guard_res (\<not> wh_ours wh) (Business_Rule ''Warehouse does not belong to this company.'') (
    if pr_track_batch p \<and> batch = None then
      let fefo = fefo_batches co today db lots p wh in
      bind_res (reserve_lots co now p wh fefo qty db) (\<lambda>(remaining, db1).
        if remaining \<le> 0 then Inr db1
        else guard_res (co_block co) (Business_Rule ''Insufficient batched stock'')
          (let all_lots = sort_key (\<lambda>b. (date_last (bt_expiry b), bt_pk b))
                 (filter (\<lambda>b. bt_product b = pr_pk p) lots) in
           if fefo \<noteq> [] then reserve_row co now db1 (stock_key_of wh p (Some (last fefo))) remaining
           else if all_lots \<noteq> [] then reserve_row co now db1 (stock_key_of wh p (Some (hd all_lots))) remaining
           else Inl (Business_Rule ''Insufficient batched stock'')))
    else reserve_row co now db (stock_key_of wh p batch) qty))"

definition use_hold :: "rat \<Rightarrow> reservation \<Rightarrow> reservation" where
  "use_hold t r = (if rs_qty r \<le> t then r\<lparr>rs_released := True\<rparr> else r\<lparr>rs_qty := rs_qty r - t\<rparr>)"

definition consume_reservations :: "stock_key \<Rightarrow> rat \<Rightarrow> reservation list \<Rightarrow> reservation list" where
  "consume_reservations k qty holds =
    fst (take_rows (\<lambda>r. rs_key r = k \<and> \<not> rs_released r \<and> rs_ref r = []) rs_qty use_hold qty holds)"

definition release_from :: "rat \<Rightarrow> balance \<Rightarrow> balance" where
  "release_from t b = b\<lparr>bl_reserved := bl_reserved b - t\<rparr>"

definition release_reservation ::
  "(int \<Rightarrow> date option) \<Rightarrow> stock_db \<Rightarrow> int \<Rightarrow> int \<Rightarrow> bool \<Rightarrow> rat \<Rightarrow> int option \<Rightarrow> bool \<Rightarrow> stock_db" where
  "release_reservation expiry db wh p track_batch qty batch consume_records =
    (if qty \<le> 0 then db
     else if track_batch \<and> batch = None then
       let mine = (\<lambda>b. fst (bl_key b) = wh \<and> fst (snd (bl_key b)) = p \<and> 0 < bl_reserved b);
           order = (\<lambda>b. (date_last (Option.bind (snd (snd (bl_key b))) expiry),
                         case snd (snd (bl_key b)) of None \<Rightarrow> (1::nat, 0) | Some i \<Rightarrow> (0, i)));
           (_, taken, _) = take_rows (\<lambda>b. 0 < bl_reserved b) bl_reserved release_from qty
              (sort_key order (filter mine (sd_balances db)))
       in db\<lparr>sd_balances := foldl (\<lambda>bs (b, t). update_balance (bl_key b) (release_from t) bs)
               (sd_balances db) taken,
             sd_holds := (if consume_records
               then foldl (\<lambda>h (b, t). consume_reservations (bl_key b) t h) (sd_holds db) taken
               else sd_holds db)\<rparr>
     else
       let k = (wh, p, batch) in
       if \<not> list_ex (\<lambda>b. bl_key b = k) (sd_balances db) then db
       else db\<lparr>sd_balances := update_balance k (\<lambda>b. b\<lparr>bl_reserved := max 0 (bl_reserved b - qty)\<rparr>)
                 (sd_balances db),
               sd_holds := (if consume_records then consume_reservations k qty (sd_holds db)
                            else sd_holds db)\<rparr>)"

text \<open>\<open>release_expired_reservations\<close>: the rows are selected first, then released one by one.\<close>

fun release_expired :: "(int \<Rightarrow> bool) \<Rightarrow> (int \<Rightarrow> date option) \<Rightarrow> int \<Rightarrow> nat list \<Rightarrow> stock_db \<Rightarrow> rat \<times> stock_db" where
  "release_expired tracks expiry now [] db = (0, db)"
| "release_expired tracks expiry now (i # is) db =
    (let r = sd_holds db ! i; (wh, p, batch) = rs_key r;
         db1 = db\<lparr>sd_holds := (sd_holds db)[i := r\<lparr>rs_released := True\<rparr>]\<rparr>;
         db2 = release_reservation expiry db1 wh p (tracks p) (rs_qty r) batch False;
         (released, db3) = release_expired tracks expiry now is db2
     in (rs_qty r + released, db3))"

definition release_expired_reservations ::
  "(int \<Rightarrow> bool) \<Rightarrow> (int \<Rightarrow> date option) \<Rightarrow> int \<Rightarrow> stock_db \<Rightarrow> rat \<times> stock_db" where
  "release_expired_reservations tracks expiry now db =
    release_expired tracks expiry now
      (filter (\<lambda>i. \<not> rs_released (sd_holds db ! i) \<and>
          (case rs_expires (sd_holds db ! i) of None \<Rightarrow> False | Some e \<Rightarrow> e \<le> now))
        [0..<length (sd_holds db)]) db"

section \<open>Facts about balances\<close>

lemma balance_of_update:
  assumes "\<And>b. bl_key (f b) = bl_key b"
  shows "balance_of (update_balance k f bs) j = (if j = k then f (balance_of bs k) else balance_of bs j)"
  using assms by (induction k f bs rule: update_balance.induct) (auto simp: balance_of_def)

lemma balance_key [simp]: "bl_key (balance_of bs k) = k"
  by (induction bs) (auto simp: balance_of_def)

definition moved :: "stock_db \<Rightarrow> stock_key \<Rightarrow> rat" where
  "moved db k = (\<Sum>m\<leftarrow>filter (\<lambda>m. mv_key m = k) (sd_movements db). mv_qty m)"

definition on_hand :: "stock_db \<Rightarrow> stock_key \<Rightarrow> rat" where
  "on_hand db k = bl_on_hand (balance_of (sd_balances db) k)"

definition available :: "stock_db \<Rightarrow> stock_key \<Rightarrow> rat" where
  "available db k = on_hand db k - bl_reserved (balance_of (sd_balances db) k)"

definition ledger_ok :: "stock_db \<Rightarrow> bool" where
  "ledger_ok db = (\<forall>k. on_hand db k = moved db k)"

lemma post_movement_elim:
  assumes "post_movement co today v pk db p wh batch mtype qty uc ref rid skip held = Inr (db', mv)"
  obtains delta cost layers mv0 mv1 where
    "movement_delta co p wh batch mtype qty held = Inr delta"
    "delta < 0 \<Longrightarrow> \<not> skip \<Longrightarrow> co_block co \<Longrightarrow> 0 \<le> available db (stock_key_of wh p batch) + delta"
    "mv0 = \<lparr>mv_pk = pk, mv_key = stock_key_of wh p batch, mv_type = mtype, mv_ref = ref, mv_ref_id = rid,
               mv_qty = delta, mv_cost = cost, mv_peels = []\<rparr>"
    "apply_cost_layers (co_fifo co) (co_block co) v (pr_price p) pk (sd_layers db) mv0 delta cost = Inr (layers, mv1)"
    "mv_key mv = mv_key mv1" "mv_qty mv = mv_qty mv1" "mv_peels mv = mv_peels mv1"
    "sd_movements db' = sd_movements db @ [mv]" "sd_layers db' = layers" "sd_holds db' = sd_holds db"
    "sd_balances db' = update_balance (stock_key_of wh p batch)
       (\<lambda>b. b\<lparr>bl_on_hand := bl_on_hand b + delta\<rparr>) (sd_balances db)"
proof -
  let ?k = "stock_key_of wh p batch"
  define cost where "cost = (if mtype = ADJUSTMENT \<and> or0 uc \<le> 0
                 then (if v \<le> 0 then pr_price p else v) else or0 uc)"
  obtain delta where d: "movement_delta co p wh batch mtype qty held = Inr delta"
    using assms by (auto simp: post_movement_def bind_res_Inr_iff)
  define mv0 where "mv0 = \<lparr>mv_pk = pk, mv_key = ?k, mv_type = mtype, mv_ref = ref, mv_ref_id = rid,
               mv_qty = delta, mv_cost = cost, mv_peels = []\<rparr>"
  note post = assms [unfolded post_movement_def d bind_res_simps Let_def guard_res_Inr_iff
      cost_def [symmetric] mv0_def [symmetric]]
  from post obtain layers mv1 where
    a: "apply_cost_layers (co_fifo co) (co_block co) v (pr_price p) pk (sd_layers db) mv0 delta cost
      = Inr (layers, mv1)"
    by (auto simp: bind_res_Inr_iff)
  define mv2 where "mv2 = (case snd (apply_running_cost (sd_pools db ?k) delta (mv_cost mv1)) of
                  Some avg \<Rightarrow> if delta < 0 \<and> 0 < avg \<and> \<not> co_fifo co
                    then mv1\<lparr>mv_cost := quantize_even 4 avg\<rparr> else mv1
                | None \<Rightarrow> mv1)"
  have k2: "mv_key mv2 = mv_key mv1" "mv_qty mv2 = mv_qty mv1" "mv_peels mv2 = mv_peels mv1"
    by (auto simp: mv2_def split: option.splits)
  have r: "mv = mv2" "sd_movements db' = sd_movements db @ [mv2]" "sd_layers db' = layers"
    "sd_holds db' = sd_holds db"
    "sd_balances db' = update_balance ?k (\<lambda>b. b\<lparr>bl_on_hand := bl_on_hand b + delta\<rparr>) (sd_balances db)"
    using post unfolding a by (auto simp: case_prod_beta mv2_def)
  have av: "0 \<le> available db ?k + delta" if "delta < 0" "\<not> skip" "co_block co"
    using post that by (auto simp: available_def on_hand_def)
  show thesis by (rule that [OF d av mv0_def a]) (use r k2 in auto)
qed

lemma apply_cost_layers_keeps:
  assumes "apply_cost_layers fifo block v pp pk layers mv delta uc = Inr (layers', mv')"
  shows "mv_key mv' = mv_key mv \<and> mv_qty mv' = mv_qty mv \<and> mv_type mv' = mv_type mv"
  using assms by (auto simp: apply_cost_layers_def Let_def split: if_splits prod.splits)

lemma post_movement_ledger:
  assumes post: "post_movement co today v pk db p wh batch mtype qty uc ref rid skip held = Inr (db', mv)"
    and ok: "ledger_ok db"
  shows "ledger_ok db' \<and> on_hand db' (stock_key_of wh p batch) = on_hand db (stock_key_of wh p batch) + mv_qty mv"
proof (rule post_movement_elim [OF post], goal_cases)
  case (1 delta cost layers mv0 mv1)
  let ?k = "stock_key_of wh p batch"
  have mv: "mv_key mv = ?k" "mv_qty mv = delta"
    using apply_cost_layers_keeps [OF 1(4)] 1(3,5,6) by simp_all
  have oh: "on_hand db' j = (if j = ?k then on_hand db ?k + delta else on_hand db j)" for j
    by (simp add: on_hand_def 1(11) balance_of_update)
  have mo: "moved db' j = (if j = ?k then moved db ?k + delta else moved db j)" for j
    using mv by (simp add: moved_def 1(8))
  show ?case using ok oh mo mv by (simp add: ledger_ok_def del: split_paired_All split_paired_Ex)
qed

section \<open>Every way the stock tables change\<close>

inductive stock_step :: "stock_company \<Rightarrow> bool \<Rightarrow> stock_db \<Rightarrow> stock_db \<Rightarrow> bool"
  for co :: stock_company and may_skip :: bool where
  posted: "post_movement co today v pk db p wh batch mtype qty uc ref rid skip held = Inr (db', mv)
    \<Longrightarrow> skip \<longrightarrow> may_skip \<Longrightarrow> stock_step co may_skip db db'"
| reserved: "reserve_stock co today now lots db wh p qty batch = Inr db' \<Longrightarrow> stock_step co may_skip db db'"
| released: "stock_step co may_skip db (release_reservation expiry db w p track qty batch consume)"
| expired: "stock_step co may_skip db (snd (release_expired_reservations tracks expiry now db))"
| rebuilt: "stock_step co may_skip db (rebuild_balance docs orders db p k)"

inductive stock_reachable :: "stock_company \<Rightarrow> bool \<Rightarrow> stock_db \<Rightarrow> bool"
  for co :: stock_company and may_skip :: bool where
  start: "stock_reachable co may_skip
     \<lparr>sd_balances = [], sd_layers = [], sd_pools = (\<lambda>_. (0, 0)), sd_movements = [], sd_holds = []\<rparr>"
| step: "stock_reachable co may_skip db \<Longrightarrow> stock_step co may_skip db db' \<Longrightarrow> stock_reachable co may_skip db'"

text \<open>
  The operations on reservations touch neither movements nor stock on hand.  \<open>same_stock\<close> says so;
  it is preserved by every update of a balance row that keeps its stock on hand.
\<close>

definition same_stock :: "stock_db \<Rightarrow> stock_db \<Rightarrow> bool" where
  "same_stock db db' = (sd_movements db' = sd_movements db \<and> (\<forall>k. on_hand db' k = on_hand db k))"

lemma same_stock_refl [simp]: "same_stock db db"
  by (simp add: same_stock_def)

lemma same_stock_trans: "same_stock a b \<Longrightarrow> same_stock b c \<Longrightarrow> same_stock a c"
  by (simp add: same_stock_def)

lemma same_stock_ledger: "same_stock db db' \<Longrightarrow> ledger_ok db \<Longrightarrow> ledger_ok db'"
  by (simp add: same_stock_def ledger_ok_def moved_def del: split_paired_All)

lemma on_hand_update:
  assumes "\<And>b. bl_key (f b) = bl_key b \<and> bl_on_hand (f b) = bl_on_hand b"
  shows "bl_on_hand (balance_of (update_balance k f bs) j) = bl_on_hand (balance_of bs j)"
  using assms by (simp add: balance_of_update)

lemma reserve_row_same: "reserve_row co now db k qty = Inr db' \<Longrightarrow> same_stock db db'"
  by (auto simp: reserve_row_def Let_def guard_res_Inr_iff same_stock_def on_hand_def on_hand_update)

lemma reserve_lots_same:
  "reserve_lots co now p wh lots remaining db = Inr (r, db') \<Longrightarrow> same_stock db db'"
proof (induction lots arbitrary: remaining db)
  case (Cons lot lots)
  then show ?case
    by (auto simp: Let_def bind_res_Inr_iff split: if_splits dest!: reserve_row_same
        intro: same_stock_trans)
qed simp

lemma reserve_stock_same: "reserve_stock co today now lots db wh p qty batch = Inr db' \<Longrightarrow> same_stock db db'"
  by (auto simp: reserve_stock_def Let_def guard_res_Inr_iff bind_res_Inr_iff split: if_splits
      dest!: reserve_row_same reserve_lots_same intro: same_stock_trans)

lemma foldl_release_on_hand:
  "bl_on_hand (balance_of (foldl (\<lambda>bs (b, t). update_balance (bl_key b) (release_from t) bs) bs taken) k)
    = bl_on_hand (balance_of bs k)"
  by (induction taken arbitrary: bs) (auto simp: on_hand_update release_from_def)

lemma release_same: "same_stock db (release_reservation expiry db w p track qty batch consume)"
  by (auto simp: release_reservation_def Let_def same_stock_def on_hand_def on_hand_update
      foldl_release_on_hand split: prod.splits)

lemma release_expired_same: "same_stock db (snd (release_expired tracks expiry now is db))"
proof (induction "is" arbitrary: db)
  case (Cons i js)
  define r where "r = sd_holds db ! i"
  obtain w p b where k: "rs_key r = (w, p, b)" by (metis prod_cases3)
  define db1 where "db1 = db\<lparr>sd_holds := (sd_holds db)[i := r\<lparr>rs_released := True\<rparr>]\<rparr>"
  define db2 where "db2 = release_reservation expiry db1 w p (tracks p) (rs_qty r) b False"
  have "same_stock db db1" by (simp add: db1_def same_stock_def on_hand_def)
  moreover have "same_stock db1 db2" unfolding db2_def by (rule release_same)
  moreover have "snd (release_expired tracks expiry now (i # js) db) = snd (release_expired tracks expiry now js db2)"
    by (simp add: Let_def r_def [symmetric] k db1_def [symmetric] db2_def [symmetric] case_prod_beta)
  ultimately show ?case using Cons.IH [of db2] by (metis same_stock_trans)
qed simp

lemma expired_same: "same_stock db (snd (release_expired_reservations tracks expiry now db))"
  unfolding release_expired_reservations_def by (rule release_expired_same)

lemma rebuild_same: "ledger_ok db \<Longrightarrow> same_stock db (rebuild_balance docs orders db p k)"
  by (auto simp: rebuild_balance_def Let_def same_stock_def on_hand_def ledger_ok_def moved_def balance_of_update
      simp del: split_paired_All)

inductive_cases stock_stepE: "stock_step co may_skip db db'"

text \<open>
  C4. The balance cache always equals the ledger: after any sequence of postings, reservations,
  releases, expiries and rebuilds, the stock on hand of every warehouse, item and batch is the sum of
  its movements; so rebuilding a balance never changes the stock on hand.
\<close>

theorem stock_cache_equals_ledger:
  assumes "stock_reachable co may_skip db"
  shows "on_hand db k = moved db k \<and> on_hand (rebuild_balance docs orders db p j) k = on_hand db k"
proof -
  have "ledger_ok db" using assms
  proof (induction rule: stock_reachable.induct)
    case start
    then show ?case by (simp add: ledger_ok_def on_hand_def moved_def balance_of_def)
  next
    case (step db db')
    from step.hyps(2) step.IH show ?case
      by (auto elim!: stock_stepE intro: same_stock_ledger reserve_stock_same release_same rebuild_same
          expired_same dest: post_movement_ledger)
  qed
  then show ?thesis using rebuild_same [of db docs orders p j]
    by (simp add: ledger_ok_def same_stock_def del: split_paired_All)
qed

section \<open>No overselling\<close>

text \<open>Under the BLOCK policy: nothing is reserved twice, and what is reserved is in stock.\<close>

definition rows_distinct :: "balance list \<Rightarrow> bool" where
  "rows_distinct bs = distinct (map bl_key bs)"

definition holds_ok :: "balance list \<Rightarrow> bool" where
  "holds_ok bs = (\<forall>k. 0 \<le> bl_reserved (balance_of bs k)
     \<and> bl_reserved (balance_of bs k) \<le> bl_on_hand (balance_of bs k))"

definition no_oversell :: "stock_db \<Rightarrow> bool" where
  "no_oversell db = (rows_distinct (sd_balances db) \<and> holds_ok (sd_balances db))"

lemma update_balance_keys:
  assumes "\<And>b. bl_key (f b) = bl_key b"
  shows "map bl_key (update_balance k f bs) =
    (if k \<in> set (map bl_key bs) then map bl_key bs else map bl_key bs @ [k])"
  using assms by (induction k f bs rule: update_balance.induct) auto

lemma rows_distinct_update:
  "(\<And>b. bl_key (f b) = bl_key b) \<Longrightarrow> rows_distinct bs \<Longrightarrow> rows_distinct (update_balance k f bs)"
  by (simp add: rows_distinct_def update_balance_keys)

lemma holds_ok_update:
  assumes "\<And>b. bl_key (f b) = bl_key b" and "holds_ok bs"
    and "0 \<le> bl_reserved (f (balance_of bs k))"
    and "bl_reserved (f (balance_of bs k)) \<le> bl_on_hand (f (balance_of bs k))"
  shows "holds_ok (update_balance k f bs)"
  using assms by (simp add: holds_ok_def balance_of_update del: split_paired_All)

lemma holds_okD: "holds_ok bs \<Longrightarrow> 0 \<le> bl_reserved (balance_of bs k) \<and>
    bl_reserved (balance_of bs k) \<le> bl_on_hand (balance_of bs k)"
  unfolding holds_ok_def by blast

lemma balance_of_mem: "rows_distinct bs \<Longrightarrow> b \<in> set bs \<Longrightarrow> balance_of bs (bl_key b) = b"
  unfolding rows_distinct_def balance_of_def by (induction bs) (auto simp: rev_image_eqI)

lemma reserve_row_no_oversell:
  assumes "reserve_row co now db k qty = Inr db'" and "co_block co" and "no_oversell db"
  shows "no_oversell db'"
proof -
  have q: "0 < qty" "bl_reserved (balance_of (sd_balances db) k) + qty \<le> bl_on_hand (balance_of (sd_balances db) k)"
    and db': "sd_balances db' = update_balance k (\<lambda>b. b\<lparr>bl_reserved := bl_reserved b + qty\<rparr>) (sd_balances db)"
    using assms(1,2) by (auto simp: reserve_row_def Let_def guard_res_Inr_iff)
  have ok: "rows_distinct (sd_balances db)" "holds_ok (sd_balances db)"
    using assms(3) by (auto simp: no_oversell_def)
  show ?thesis unfolding no_oversell_def db'
    using q ok holds_okD [OF ok(2), of k] by (auto intro!: rows_distinct_update holds_ok_update)
qed

lemma reserve_lots_no_oversell:
  assumes "co_block co"
  shows "reserve_lots co now p wh lots remaining db = Inr (r, db') \<Longrightarrow> no_oversell db \<Longrightarrow> no_oversell db'"
  by (induction lots arbitrary: remaining db)
    (auto simp: Let_def bind_res_Inr_iff split: if_splits dest!: reserve_row_no_oversell [OF _ assms])

lemma reserve_stock_no_oversell:
  "reserve_stock co today now lots db wh p qty batch = Inr db' \<Longrightarrow> co_block co \<Longrightarrow> no_oversell db \<Longrightarrow> no_oversell db'"
  by (auto simp: reserve_stock_def Let_def guard_res_Inr_iff bind_res_Inr_iff split: if_splits
      dest: reserve_row_no_oversell reserve_lots_no_oversell)

text \<open>Releasing from rows: each taken row is the balance of its key and gives at most what it holds.\<close>

lemma foldl_release_no_oversell:
  assumes "rows_distinct bs" "holds_ok bs" "distinct (map (\<lambda>x. bl_key (fst x)) taken)"
    and "\<forall>(b, t)\<in>set taken. balance_of bs (bl_key b) = b \<and> 0 \<le> t \<and> t \<le> bl_reserved b"
  shows "rows_distinct (foldl (\<lambda>bs (b, t). update_balance (bl_key b) (release_from t) bs) bs taken) \<and>
    holds_ok (foldl (\<lambda>bs (b, t). update_balance (bl_key b) (release_from t) bs) bs taken)"
  using assms
proof (induction taken arbitrary: bs)
  case Nil
  then show ?case by simp
next
  case (Cons x taken)
  obtain b t where x: "x = (b, t)" by force
  have keep: "bl_key (release_from t b) = bl_key b" for t b by (simp add: release_from_def)
  have b: "balance_of bs (bl_key b) = b" "0 \<le> t" "t \<le> bl_reserved b" using Cons.prems(4) x by auto
  let ?bs = "update_balance (bl_key b) (release_from t) bs"
  have "rows_distinct ?bs" using Cons.prems(1) keep by (intro rows_distinct_update)
  moreover have "holds_ok ?bs"
    using holds_okD [OF Cons.prems(2), of "bl_key b"] b
    by (intro holds_ok_update keep Cons.prems(2)) (auto simp: release_from_def)
  moreover have "balance_of ?bs (bl_key c) = balance_of bs (bl_key c)" if "(c, s) \<in> set taken" for c s
    using Cons.prems(3) that x by (auto simp: balance_of_update keep rev_image_eqI)
  then have "\<forall>(c, s)\<in>set taken. balance_of ?bs (bl_key c) = c \<and> 0 \<le> s \<and> s \<le> bl_reserved c"
    using Cons.prems(4) by auto
  ultimately show ?case using Cons.IH [of ?bs] Cons.prems(3) x by simp
qed

interpretation reserved_rows: row_taker "\<lambda>b. 0 < bl_reserved b" bl_reserved release_from
  by unfold_locales (auto simp: release_from_def)

lemma distinct_map_sort: "distinct (map f (sort_key g xs)) \<longleftrightarrow> distinct (map f xs)"
  by (simp add: distinct_map)

lemma release_no_oversell:
  assumes ok: "no_oversell db"
  shows "no_oversell (release_reservation expiry db w p track qty batch consume)"
proof -
  have rd: "rows_distinct (sd_balances db)" and ho: "holds_ok (sd_balances db)"
    using ok by (auto simp: no_oversell_def)
  consider "qty \<le> 0" | "0 < qty" "track \<and> batch = None" | "0 < qty" "\<not> (track \<and> batch = None)" by linarith
  then show ?thesis
  proof cases
    case 1
    then show ?thesis using ok by (simp add: release_reservation_def)
  next
    case 2
    let ?mine = "\<lambda>b. fst (bl_key b) = w \<and> fst (snd (bl_key b)) = p \<and> 0 < bl_reserved b"
    let ?order = "\<lambda>b. (date_last (Option.bind (snd (snd (bl_key b))) expiry),
                         case snd (snd (bl_key b)) of None \<Rightarrow> (1::nat, 0) | Some i \<Rightarrow> (0, i))"
    define rows where "rows = sort_key ?order (filter ?mine (sd_balances db))"
    obtain rs taken left where tr: "take_rows (\<lambda>b. 0 < bl_reserved b) bl_reserved release_from qty rows = (rs, taken, left)"
      by (metis prod_cases3)
    have d: "distinct (map bl_key rows)" unfolding rows_def distinct_map_sort
      using rd by (simp add: rows_distinct_def distinct_map inj_on_def)
    have "distinct (map bl_key (map fst taken))"
      by (rule subseq_distinct [OF subseq_map [OF take_rows_subseq [OF tr]] d])
    then have dt: "distinct (map (\<lambda>x. bl_key (fst x)) taken)" by (simp add: comp_def)
    have mem: "\<forall>(b, t)\<in>set taken. balance_of (sd_balances db) (bl_key b) = b \<and> 0 \<le> t \<and> t \<le> bl_reserved b"
      using reserved_rows.take_rows_spec [OF tr] 2 balance_of_mem [OF rd]
      by (auto simp: list_all_iff rows_def)
    show ?thesis using foldl_release_no_oversell [OF rd ho dt mem] 2 tr
      by (simp add: release_reservation_def no_oversell_def Let_def rows_def [symmetric])
  next
    case 3
    let ?k = "(w, p, batch)"
    have "no_oversell (db\<lparr>sd_balances := update_balance ?k (\<lambda>b. b\<lparr>bl_reserved := max 0 (bl_reserved b - qty)\<rparr>)
                 (sd_balances db), sd_holds := h\<rparr>)" for h
      using 3 rd ho holds_okD [OF ho, of ?k]
      by (auto simp: no_oversell_def intro!: rows_distinct_update holds_ok_update)
    then show ?thesis using 3 ok by (auto simp: release_reservation_def Let_def)
  qed
qed

lemma release_expired_no_oversell:
  "no_oversell db \<Longrightarrow> no_oversell (snd (release_expired tracks expiry now is db))"
proof (induction "is" arbitrary: db)
  case (Cons i js)
  define r where "r = sd_holds db ! i"
  obtain w p b where k: "rs_key r = (w, p, b)" by (metis prod_cases3)
  define db1 where "db1 = db\<lparr>sd_holds := (sd_holds db)[i := r\<lparr>rs_released := True\<rparr>]\<rparr>"
  define db2 where "db2 = release_reservation expiry db1 w p (tracks p) (rs_qty r) b False"
  have "no_oversell db1" using Cons.prems by (simp add: db1_def no_oversell_def)
  then have "no_oversell db2" unfolding db2_def by (rule release_no_oversell)
  moreover have "snd (release_expired tracks expiry now (i # js) db) = snd (release_expired tracks expiry now js db2)"
    by (simp add: Let_def r_def [symmetric] k db1_def [symmetric] db2_def [symmetric] case_prod_beta)
  ultimately show ?case using Cons.IH [of db2] by simp
qed simp

lemma expired_no_oversell:
  "no_oversell db \<Longrightarrow> no_oversell (snd (release_expired_reservations tracks expiry now db))"
  unfolding release_expired_reservations_def by (rule release_expired_no_oversell)

lemma post_movement_no_oversell:
  assumes post: "post_movement co today v pk db p wh batch mtype qty uc ref rid False held = Inr (db', mv)"
    and "co_block co" and ok: "no_oversell db"
  shows "no_oversell db'"
proof (rule post_movement_elim [OF post], goal_cases)
  case (1 delta cost layers mv0 mv1)
  let ?k = "stock_key_of wh p batch"
  have ho: "rows_distinct (sd_balances db)" "holds_ok (sd_balances db)" using ok by (auto simp: no_oversell_def)
  note h = holds_okD [OF ho(2), of ?k]
  have "bl_reserved (balance_of (sd_balances db) ?k) \<le> bl_on_hand (balance_of (sd_balances db) ?k) + delta"
    using 1(2) assms(2) h by (cases "delta < 0") (auto simp: available_def on_hand_def)
  then show ?case unfolding no_oversell_def 1(11)
    using ho h by (auto intro!: rows_distinct_update holds_ok_update)
qed

lemma rebuild_no_oversell:
  assumes ok: "no_oversell db" and "ledger_ok db"
  shows "no_oversell (rebuild_balance docs orders db p k)"
proof -
  have ho: "rows_distinct (sd_balances db)" "holds_ok (sd_balances db)" using ok by (auto simp: no_oversell_def)
  have "0 \<le> on_hand db k" using holds_okD [OF ho(2), of k] by (simp add: on_hand_def)
  moreover have "moved db k = on_hand db k" using assms(2) unfolding ledger_ok_def by metis
  ultimately have m: "0 \<le> moved db k" by simp
  show ?thesis unfolding no_oversell_def rebuild_balance_def Let_def moved_def [symmetric]
    using ho m by (auto intro!: rows_distinct_update holds_ok_update)
qed

text \<open>
  C17. Under the BLOCK policy stock is never oversold: as long as no posting skips the check, after any
  sequence of operations every balance holds at least what is reserved on it, and never less than
  nothing.
\<close>

theorem block_policy_never_oversells:
  assumes "stock_reachable co False db" and "co_block co"
  shows "0 \<le> bl_reserved (balance_of (sd_balances db) k) \<and> bl_reserved (balance_of (sd_balances db) k) \<le> on_hand db k"
proof -
  have "no_oversell db \<and> ledger_ok db" using assms(1)
  proof (induction rule: stock_reachable.induct)
    case start
    then show ?case
      by (simp add: no_oversell_def rows_distinct_def holds_ok_def balance_of_def ledger_ok_def on_hand_def moved_def)
  next
    case (step db db')
    from step.hyps(2) step.IH assms(2) show ?case
      by (elim stock_stepE)
        (auto intro: same_stock_ledger reserve_stock_same release_same rebuild_same expired_same
          release_no_oversell rebuild_no_oversell expired_no_oversell
          dest: post_movement_ledger post_movement_no_oversell reserve_stock_no_oversell)
  qed
  then show ?thesis unfolding on_hand_def no_oversell_def using holds_okD by blast
qed


section \<open>Cost layers against the ledger\<close>

definition layered :: "cost_layer list \<Rightarrow> stock_key \<Rightarrow> rat" where
  "layered layers k = (\<Sum>l\<leftarrow>filter (\<lambda>l. ly_key l = k) layers. ly_qty l)"

definition layers_match :: "stock_db \<Rightarrow> bool" where
  "layers_match db = (\<forall>k. layered (sd_layers db) k = moved db k)"

lemma sum_list_split: "(\<Sum>l\<leftarrow>xs. f l) = (\<Sum>l\<leftarrow>filter P xs. f l) + (\<Sum>l\<leftarrow>filter (\<lambda>l. \<not> P l) xs. (f l :: rat))"
  by (induction xs) auto

lemma filter_filter_imp: "(\<And>x. Q x \<Longrightarrow> P x) \<Longrightarrow> filter Q (filter P xs) = filter Q xs"
  by (induction xs) auto

lemma layered_issue:
  assumes "apply_cost_layers True True v pp pk layers mv delta uc = Inr (layers', mv')"
    and "delta < 0" and "mv_ref mv \<notin> set RETIRE_SPECIFIC_LAYER_REFS"
  shows "layered layers' k = layered layers k + (if k = mv_key mv then delta else 0)"
proof (rule issue_elim [OF assms], goal_cases)
  case (1 peels short)
  let ?P = "\<lambda>l. ly_key l = mv_key mv"
  note spec = peel_layers_spec [OF 1(1)]
  have d: "0 \<le> - delta" using assms(2) by simp
  have s: "short = 0" using 1(2) spec(2) [OF d] by simp
  have others: "filter (\<lambda>l. \<not> ?P l) layers' = filter (\<lambda>l. \<not> ?P l) layers"
    using spec(7) [OF d] by simp
  show ?case
  proof (cases "k = mv_key mv")
    case True
    then show ?thesis using spec(5) [OF d] others s
      by (simp add: layered_def sum_list_split [where P = ?P and xs = layers] sum_list_split [where P = ?P and xs = layers'])
  next
    case False
    then have imp: "\<And>l. ly_key l = k \<Longrightarrow> \<not> ?P l" by auto
    have "filter (\<lambda>l. ly_key l = k) layers' = filter (\<lambda>l. ly_key l = k) (filter (\<lambda>l. \<not> ?P l) layers')"
      by (rule filter_filter_imp [symmetric]) (rule imp)
    also have "\<dots> = filter (\<lambda>l. ly_key l = k) layers"
      unfolding others by (rule filter_filter_imp) (rule imp)
    finally show ?thesis using False by (simp add: layered_def)
  qed
qed

lemma layered_receipt:
  assumes "apply_cost_layers True block v pp pk layers mv delta uc = Inr (layers', mv')"
    and "0 < delta" and "mv_ref mv \<notin> set RESTORE_INBOUND_REFS" and "mv_type mv \<in> set INBOUND_LAYER_TYPES"
  shows "layered layers' k = layered layers k + (if k = mv_key mv then delta else 0)"
  using assms by (auto simp: apply_cost_layers_def Let_def layered_def)

lemma movement_delta_sign:
  assumes "movement_delta co p wh batch mtype qty held = Inr delta"
  shows "delta \<noteq> 0" and "0 < delta \<Longrightarrow> mtype \<noteq> SALES_RETURN \<Longrightarrow> mtype \<in> set INBOUND_LAYER_TYPES"
  using assms
  by (cases mtype; auto simp: movement_delta_def guard_res_Inr_iff Let_def INBOUND_LAYER_TYPES_def
      SIGNED_MOVEMENT_TYPES_def split: if_splits)+

text \<open>
  C37. Under FIFO costing with the BLOCK policy the open cost layers of every warehouse, item and batch
  hold exactly the stock the ledger says is there: an ordinary posting (not a return, whose layers are
  put back by their own routine, nor one of the references that retire or restore particular layers)
  keeps the layers and the ledger equal, so no stock is left unvalued and none is valued twice.
\<close>

theorem layers_follow_the_ledger:
  assumes "post_movement co today v pk db p wh batch mtype qty uc ref rid skip held = Inr (db', mv)"
    and "co_fifo co" and "co_block co" and "mtype \<noteq> SALES_RETURN"
    and "ref \<notin> set RESTORE_INBOUND_REFS" and "ref \<notin> set RETIRE_SPECIFIC_LAYER_REFS"
    and "layers_match db"
  shows "layers_match db'"
proof (rule post_movement_elim [OF assms(1)], goal_cases)
  case (1 delta cost layers mv0 mv1)
  let ?k = "stock_key_of wh p batch"
  have a: "apply_cost_layers True True v (pr_price p) pk (sd_layers db) mv0 delta cost = Inr (layers, mv1)"
    using 1(4) assms(2,3) by simp
  have mv0: "mv_key mv0 = ?k" "mv_ref mv0 = ref" "mv_type mv0 = mtype" using 1(3) by simp_all
  have mv: "mv_key mv = ?k" "mv_qty mv = delta"
    using apply_cost_layers_keeps [OF a] 1(3,5,6) by simp_all
  have "layered layers k = layered (sd_layers db) k + (if k = ?k then delta else 0)" for k
  proof (cases "delta < 0")
    case True
    then show ?thesis using layered_issue [OF a True] assms(6) mv0 by simp
  next
    case False
    then have pos: "0 < delta" using movement_delta_sign(1) [OF 1(1)] by simp
    then show ?thesis
      using layered_receipt [OF a pos] movement_delta_sign(2) [OF 1(1) pos assms(4)] assms(5) mv0 by simp
  qed
  moreover have "moved db' k = moved db k + (if k = ?k then delta else 0)" for k
    using mv by (simp add: moved_def 1(8))
  ultimately show ?case using assms(7) by (simp add: layers_match_def 1(9) del: split_paired_All)
qed

section \<open>A worked example\<close>

definition example_co :: stock_company where
  "example_co = \<lparr>co_fifo = True, co_block = True, co_block_expired = False, co_mfg_quality = False, co_ttl_hours = 0\<rparr>"

definition example_item :: product where
  "example_item = \<lparr>pr_pk = 7, pr_ours = True, pr_tracks = True, pr_track_batch = False, pr_price = 50\<rparr>"

definition example_store :: warehouse where
  "example_store = \<lparr>wh_pk = 1, wh_ours = True, wh_active = True\<rparr>"

definition empty_db :: stock_db where
  "empty_db = \<lparr>sd_balances = [], sd_layers = [], sd_pools = (\<lambda>_. (0, 0)), sd_movements = [], sd_holds = []\<rparr>"

definition first_post :: "(stock_db \<times> movement) res" where
  "first_post = post_movement example_co (Date 2025 4 1) 0 1 empty_db example_item example_store None
     OPENING_STOCK 10 (Some 50) [] [] False False"

definition opened :: stock_db where
  "opened = (case first_post of Inr (db, _) \<Rightarrow> db | Inl _ \<Rightarrow> empty_db)"

lemma first_posts: "\<exists>mv. first_post = Inr (opened, mv)"
proof (cases first_post)
  case (Inl e)
  have "(case first_post of Inr _ \<Rightarrow> True | Inl _ \<Rightarrow> False)" by code_simp
  then show ?thesis unfolding Inl by simp
next
  case (Inr r)
  then show ?thesis unfolding opened_def Inr by (cases r) auto
qed

lemma opened_reachable: "stock_reachable example_co False opened"
proof -
  obtain mv where p: "first_post = Inr (opened, mv)" using first_posts by blast
  have "stock_step example_co False empty_db opened"
    by (rule stock_step.posted [OF p [unfolded first_post_def]]) simp
  then show ?thesis unfolding empty_db_def by (rule stock_reachable.step [OF stock_reachable.start])
qed

lemma opened_values: "on_hand opened (1, 7, None) = 10 \<and> sd_layers opened \<noteq> []"
  by code_simp

theorem stock_cache_equals_ledger_witness:
  "stock_reachable example_co False opened \<and> moved opened (1, 7, None) = 10"
  using stock_cache_equals_ledger [OF opened_reachable, of "(1, 7, None)"] opened_reachable opened_values
  by simp

theorem block_policy_never_oversells_witness:
  "stock_reachable example_co False opened \<and> co_block example_co
    \<and> bl_reserved (balance_of (sd_balances opened) (1, 7, None)) \<le> 10"
  using block_policy_never_oversells [OF opened_reachable, of "(1, 7, None)"] opened_reachable opened_values
  by (simp add: example_co_def)

theorem layers_follow_the_ledger_witness: "layers_match opened \<and> sd_layers opened \<noteq> []"
proof -
  obtain mv where p: "first_post = Inr (opened, mv)" using first_posts by blast
  have "layers_match empty_db" by (simp add: layers_match_def layered_def moved_def empty_db_def)
  then show ?thesis
    using layers_follow_the_ledger [OF p [unfolded first_post_def]] opened_values
    by (simp add: example_co_def RESTORE_INBOUND_REFS_def RETIRE_SPECIFIC_LAYER_REFS_def)
qed

end
