(* ===== verification/Doc_Numbers.thy ===== *)
theory Doc_Numbers
  imports Py_String Py_Date
begin

text \<open>
  Document numbers (\<open>core/services/document_numbers.py\<close>, \<open>core/services/sequences.py\<close>): a series per
  document type, GSTIN and financial year, its allocation, the claim of a number the user supplies,
  the repair and configuration operations, and the plain counters of other documents.  The series are
  the rows of one company; \<open>today\<close> is \<open>timezone.localdate()\<close>, \<open>in_tx\<close> whether the connection is in an
  atomic block.
\<close>

section \<open>Series and their identity\<close>

definition DEFAULT_PREFIXES :: "(string \<times> string) list" where
  "DEFAULT_PREFIXES = [
    (''SALES_INVOICE'', ''INV''), (''PURCHASE_INVOICE'', ''PUR''), (''QUOTATION'', ''QTN''),
    (''SALES_RETURN'', ''SRN''), (''PURCHASE_RETURN'', ''PRN''), (''CUSTOMER_RECEIPT'', ''RCT''),
    (''SUPPLIER_PAYMENT'', ''PAY''), (''SALES_CREDIT_NOTE'', ''SCN''), (''SALES_DEBIT_NOTE'', ''SDN''),
    (''PURCHASE_CREDIT_NOTE'', ''PCN''), (''PURCHASE_DEBIT_NOTE'', ''PDN''), (''SALES_ORDER'', ''SO''),
    (''PURCHASE_ORDER'', ''PO''), (''DELIVERY_CHALLAN'', ''DC''), (''JOURNAL_ENTRY'', ''JV''),
    (''STOCK_TRANSFER'', ''TRF''), (''GOODS_RECEIPT'', ''GRN''), (''EXPENSE'', ''EXP''),
    (''DELIVERY_ROUTE'', ''DR''), (''DELIVERY_CHALLAN_RETURN'', ''DCR''),
    (''CUSTOMER_ADVANCE_REFUND'', ''ARF'')]"

text \<open>Document type, GSTIN key, financial year label.\<close>

type_synonym series_key = "string \<times> string \<times> string"

record doc_series =
  sr_key :: series_key
  sr_prefix :: string
  sr_next :: nat
  sr_padding :: nat

record company_gstin =
  cg_pk :: int
  cg_gstin :: string
  cg_primary :: bool
  cg_active :: bool

record numbering_company =
  nc_gstins :: "company_gstin list"
  nc_gstin :: string
  nc_gstin_fy :: bool            \<comment> \<open>\<open>doc_number_scope == "GSTIN_FY"\<close>\<close>

definition gst_fy_label_for :: "date \<Rightarrow> date option \<Rightarrow> string" where
  "gst_fy_label_for today on_date =
    (let d = (case on_date of None \<Rightarrow> today | Some d \<Rightarrow> d);
         year = nat (if d_month d < 4 then d_year d - 1 else d_year d)
     in show_nat year @ ''-'' @ last_n 2 (show_nat (year + 1)))"

definition fy_compact :: "string \<Rightarrow> string" where
  "fy_compact label =
    (let parts = split_on (CHR ''-'') label in
     if length parts \<noteq> 2 then last_n 4 (filter (\<lambda>c. c \<noteq> CHR ''-'') label)
     else last_n 2 (parts ! 0) @ parts ! 1)"

definition gstin_key :: "string option \<Rightarrow> string" where
  "gstin_key g = (case g of None \<Rightarrow> [] | Some s \<Rightarrow> py_upper (py_strip s))"

text \<open>The idiom \<open>s or None\<close>.\<close>

definition or_none :: "string \<Rightarrow> string option" where
  "or_none s = (if s = [] then None else Some s)"

definition company_series_gstin :: "numbering_company \<Rightarrow> string option" where
  "company_series_gstin co =
    (let primaries = sort_key (\<lambda>g. - cg_pk g) (filter (\<lambda>g. cg_primary g \<and> cg_active g) (nc_gstins co));
         actives = sort_key cg_pk (filter cg_active (nc_gstins co)) in
     case primaries @ actives of
       g # _ \<Rightarrow> or_none (gstin_key (Some (cg_gstin g)))
     | [] \<Rightarrow> or_none (gstin_key (Some (nc_gstin co))))"

definition resolve_series_gstin :: "numbering_company \<Rightarrow> string option \<Rightarrow> string option" where
  "resolve_series_gstin co stamp =
    (if stamp \<noteq> None then or_none (gstin_key stamp) else company_series_gstin co)"

definition series_identity :: "numbering_company \<Rightarrow> date \<Rightarrow> date option \<Rightarrow> string \<times> string" where
  "series_identity co today on_date =
    (case resolve_series_gstin co None of
       None \<Rightarrow> if nc_gstin_fy co then ([], gst_fy_label_for today on_date) else ([], [])
     | Some g \<Rightarrow> (g, gst_fy_label_for today on_date))"

definition resolve_keys :: "numbering_company \<Rightarrow> date \<Rightarrow> string option \<Rightarrow> date option \<Rightarrow> string \<times> string" where
  "resolve_keys co today gstin on_date =
    (let g = gstin_key gstin in
     if g \<noteq> [] then (g, gst_fy_label_for today on_date)
     else let (auto_g, auto_fy) = series_identity co today on_date in
       if auto_g \<noteq> [] \<or> auto_fy \<noteq> [] then (auto_g, auto_fy)
       else ([], if on_date \<noteq> None then gst_fy_label_for today on_date else []))"

definition series_defaults :: "string \<Rightarrow> string \<Rightarrow> string \<Rightarrow> string \<Rightarrow> string" where
  "series_defaults base doc_type gstin fy =
    take 16 (if gstin \<noteq> [] \<or> fy \<noteq> []
      then join_with ''-'' ([base] @ (if fy \<noteq> [] then [fy_compact fy] else [])
             @ (if gstin \<noteq> [] then [last_n 4 gstin] else []))
      else base)"

section \<open>The table of series\<close>

definition find_series :: "series_key \<Rightarrow> doc_series list \<Rightarrow> doc_series option" where
  "find_series k t = find (\<lambda>s. sr_key s = k) t"

definition set_series :: "series_key \<Rightarrow> (doc_series \<Rightarrow> doc_series) \<Rightarrow> doc_series list \<Rightarrow> doc_series list" where
  "set_series k f t = map (\<lambda>s. if sr_key s = k then f s else s) t"

text \<open>\<open>get_or_create\<close> the series of a key; a new one starts at 1 with padding 5.\<close>

definition ensure_series :: "series_key \<Rightarrow> doc_series list \<Rightarrow> (doc_series \<times> doc_series list) res" where
  "ensure_series k t =
    (case k of (doc_type, gstin, fy) \<Rightarrow>
     case map_of DEFAULT_PREFIXES doc_type of
       None \<Rightarrow> Inl (Value_Error ''Unknown document type'')
     | Some base \<Rightarrow>
         (case find_series k t of
            Some s \<Rightarrow> Inr (s, t)
          | None \<Rightarrow> let s = \<lparr>sr_key = k, sr_prefix = series_defaults base doc_type gstin fy,
                             sr_next = 1, sr_padding = 5\<rparr> in Inr (s, t @ [s])))"

definition number_of :: "doc_series \<Rightarrow> nat \<Rightarrow> string" where
  "number_of s n = sr_prefix s @ ''-'' @ pad_nat (sr_padding s) n"

section \<open>Allocating and claiming\<close>

definition next_number ::
  "bool \<Rightarrow> numbering_company \<Rightarrow> date \<Rightarrow> doc_series list \<Rightarrow> string \<Rightarrow> string option \<Rightarrow> date option
    \<Rightarrow> (string \<times> doc_series list) res" where
  "next_number in_tx co today t doc_type gstin on_date =
    guard_res (map_of DEFAULT_PREFIXES doc_type = None) (Value_Error ''Unknown document type'') (
    guard_res (\<not> in_tx) (Runtime_Error ''next_number must be called inside a transaction'') (
    let k = (doc_type, resolve_keys co today gstin on_date) in
    bind_res (ensure_series k t) (\<lambda>(s, t1).
      Inr (number_of s (sr_next s), set_series k (\<lambda>s. s\<lparr>sr_next := sr_next s + 1\<rparr>) t1))))"

definition starts_with :: "string \<Rightarrow> string \<Rightarrow> bool" where
  "starts_with s p = (take (length p) s = p)"

definition claim_number ::
  "bool \<Rightarrow> numbering_company \<Rightarrow> date \<Rightarrow> doc_series list \<Rightarrow> string \<Rightarrow> string \<Rightarrow> string option \<Rightarrow> date option
    \<Rightarrow> doc_series list res" where
  "claim_number in_tx co today t doc_type number gstin on_date =
    guard_res (\<not> in_tx) (Runtime_Error ''claim_number must run inside a transaction'') (
    let number = py_strip number in
    if number = [] then Inr t
    else let k = (doc_type, resolve_keys co today gstin on_date) in
    bind_res (ensure_series k t) (\<lambda>(s, t1).
      let pfx = sr_prefix s @ ''-''; suffix = drop (length pfx) number in
      if \<not> starts_with (py_upper number) (py_upper pfx) then Inr t1
      else if \<not> py_isdigit suffix then Inr t1
      else let claimed = nat_of_digits suffix in
        if sr_next s \<le> claimed then Inr (set_series k (\<lambda>s. s\<lparr>sr_next := claimed + 1\<rparr>) t1)
        else Inr t1))"

section \<open>Repair and configuration\<close>

text \<open>
  The documents \<open>_queryset_for\<close> counts: the non-empty numbers of the type, or nothing when the type
  has no entry in its table.
\<close>

definition COUNTED_TYPES :: "string list" where
  "COUNTED_TYPES = [''SALES_INVOICE'', ''PURCHASE_INVOICE'', ''QUOTATION'', ''SALES_RETURN'',
    ''PURCHASE_RETURN'', ''CUSTOMER_RECEIPT'', ''SUPPLIER_PAYMENT'', ''CUSTOMER_ADVANCE_REFUND'',
    ''SALES_CREDIT_NOTE'', ''SALES_DEBIT_NOTE'', ''PURCHASE_CREDIT_NOTE'', ''PURCHASE_DEBIT_NOTE'',
    ''SALES_ORDER'', ''PURCHASE_ORDER'', ''DELIVERY_CHALLAN'', ''JOURNAL_ENTRY'', ''STOCK_TRANSFER'',
    ''EXPENSE'', ''DELIVERY_ROUTE'', ''DELIVERY_CHALLAN_RETURN'']"

definition queryset_for :: "(string \<Rightarrow> string list) \<Rightarrow> string \<Rightarrow> string list option" where
  "queryset_for docs doc_type =
    (if doc_type \<in> set COUNTED_TYPES then Some (filter (\<lambda>n. n \<noteq> []) (docs doc_type)) else None)"

text \<open>The numeric suffix of one number: the trailing run of digits after the pfx.\<close>

definition existing_seq :: "string \<Rightarrow> string \<Rightarrow> nat option" where
  "existing_seq pfx num =
    (let raw = py_strip num; p = py_strip pfx;
         suffix = (if p \<noteq> [] \<and> starts_with (py_upper raw) (py_upper p)
                   then lstrip_by (\<lambda>c. c \<in> set ''-/ _'') (drop (length p) raw) else raw);
         digits = rev (takeWhile ch_digit (rev suffix))
     in if digits = [] then None else Some (nat_of_digits digits))"

definition max_existing_seq :: "(string \<Rightarrow> string list) \<Rightarrow> string \<Rightarrow> string \<Rightarrow> nat" where
  "max_existing_seq docs doc_type pfx =
    (case queryset_for docs doc_type of
       None \<Rightarrow> 0
     | Some nums \<Rightarrow> foldl (\<lambda>m num. case existing_seq pfx num of None \<Rightarrow> m | Some n \<Rightarrow> max m n) 0 nums)"

definition sync_next ::
  "(string \<Rightarrow> string list) \<Rightarrow> numbering_company \<Rightarrow> date \<Rightarrow> doc_series list \<Rightarrow> string \<Rightarrow> string option
    \<Rightarrow> date option \<Rightarrow> doc_series list res" where
  "sync_next docs co today t doc_type gstin on_date =
    (let k = (doc_type, resolve_keys co today gstin on_date) in
     bind_res (ensure_series k t) (\<lambda>(s, t1).
       let needed = max_existing_seq docs doc_type (sr_prefix s) + 1 in
       if sr_next s < needed then Inr (set_series k (\<lambda>s. s\<lparr>sr_next := needed\<rparr>) t1) else Inr t1))"

definition peek ::
  "numbering_company \<Rightarrow> date \<Rightarrow> doc_series list \<Rightarrow> string \<Rightarrow> string option \<Rightarrow> date option
    \<Rightarrow> ((doc_series \<times> string) \<times> doc_series list) res" where
  "peek co today t doc_type gstin on_date =
    bind_res (ensure_series (doc_type, resolve_keys co today gstin on_date) t)
      (\<lambda>(s, t1). Inr ((s, number_of s (sr_next s)), t1))"

definition validate_prefix :: "string \<Rightarrow> string res" where
  "validate_prefix pfx =
    (let cleaned = py_strip pfx; ends = (\<lambda>c. c \<in> set ''/-'') in
     guard_res (cleaned = []) (Value_Error ''Prefix cannot be empty.'') (
     guard_res (16 < length cleaned) (Value_Error ''Prefix can be at most 16 characters.'') (
     guard_res (\<not> list_all (\<lambda>c. ch_upper c \<or> ch_lower c \<or> ch_digit c \<or> ends c) cleaned)
       (Value_Error ''Prefix can contain only letters, digits, / and -.'') (
     guard_res (ends (hd cleaned) \<or> ends (last cleaned))
       (Value_Error ''Prefix cannot start or end with / or -.'')
       (Inr cleaned)))))"

text \<open>The three optional settings, in the order they are checked.\<close>

definition with_prefix :: "string option \<Rightarrow> doc_series \<Rightarrow> doc_series res" where
  "with_prefix pfx s = (case pfx of None \<Rightarrow> Inr s
     | Some p \<Rightarrow> bind_res (validate_prefix p) (\<lambda>p. Inr (s\<lparr>sr_prefix := p\<rparr>)))"

definition with_next :: "(string \<Rightarrow> string list) \<Rightarrow> string \<Rightarrow> int option \<Rightarrow> doc_series \<Rightarrow> doc_series res" where
  "with_next docs doc_type next_no s = (case next_no of None \<Rightarrow> Inr s
     | Some n \<Rightarrow>
         guard_res (n < 1) (Value_Error ''Next number must be at least 1.'') (
         guard_res (n \<le> int (max_existing_seq docs doc_type (sr_prefix s)))
           (Value_Error ''Next number must be greater than the highest existing document'')
           (Inr (s\<lparr>sr_next := nat n\<rparr>))))"

definition with_padding :: "int option \<Rightarrow> doc_series \<Rightarrow> doc_series res" where
  "with_padding padding s = (case padding of None \<Rightarrow> Inr s
     | Some p \<Rightarrow> guard_res (p < 1 \<or> 10 < p) (Value_Error ''Padding must be between 1 and 10.'')
         (Inr (s\<lparr>sr_padding := nat p\<rparr>)))"

definition configure ::
  "(string \<Rightarrow> string list) \<Rightarrow> numbering_company \<Rightarrow> date \<Rightarrow> doc_series list \<Rightarrow> string \<Rightarrow> string option \<Rightarrow> int option
    \<Rightarrow> int option \<Rightarrow> string option \<Rightarrow> date option \<Rightarrow> ((doc_series \<times> string) \<times> doc_series list) res" where
  "configure docs co today t doc_type pfx next_no padding gstin on_date =
    (let (g, fy) = resolve_keys co today gstin on_date; k = (doc_type, g, fy) in
     bind_res (ensure_series k t) (\<lambda>(s0, t1).
     bind_res (with_prefix pfx s0) (\<lambda>s1.
     bind_res (with_next docs doc_type next_no s1) (\<lambda>s2.
     bind_res (with_padding padding s2) (\<lambda>s3.
     peek co today (set_series k (\<lambda>_. s3) t1) doc_type (or_none g) on_date)))))"

datatype fy_warning = Registration_Restart | Year_Restart

definition fy_restart_warning :: "doc_series list \<Rightarrow> string \<Rightarrow> string \<Rightarrow> string \<Rightarrow> fy_warning option" where
  "fy_restart_warning t doc_type gstin fy =
    (let ty = (\<lambda>s. fst (sr_key s)); gs = (\<lambda>s. fst (snd (sr_key s))); yr = (\<lambda>s. snd (snd (sr_key s))) in
     if fy = [] then None
     else if \<not> list_ex (\<lambda>s. ty s = doc_type \<and> gs s = gstin \<and> yr s \<noteq> fy \<and> yr s \<noteq> []) t then None
     else if (case find_series (doc_type, gstin, fy) t of
                None \<Rightarrow> False
              | Some s \<Rightarrow> (if sr_next s = 0 then 1 else sr_next s) \<noteq> 1) then None
     else if list_ex (\<lambda>s. ty s = doc_type \<and> yr s = fy \<and> gs s \<noteq> gstin \<and> gs s \<noteq> [] \<and> 1 < sr_next s) t
       then Some Registration_Restart
     else Some Year_Restart)"

section \<open>Plain counters\<close>

text \<open>
  \<open>sequences.next_number\<close>: the last value of each scope.  The insert of a new counter may lose a race;
  \<open>lost\<close> says which attempts do, and there are three.
\<close>

fun counter_try ::
  "bool list \<Rightarrow> (string \<Rightarrow> nat option) \<Rightarrow> string \<Rightarrow> string \<Rightarrow> (string \<times> (string \<Rightarrow> nat option)) res" where
  "counter_try [] counters scope pfx = Inl (Business_Rule ''Could not allocate a number, try again.'')"
| "counter_try (lost # rest) counters scope pfx =
    (if lost then counter_try rest counters scope pfx
     else let v = (case counters scope of None \<Rightarrow> 0 | Some v \<Rightarrow> v) + 1
       in Inr (pfx @ ''-'' @ pad_nat 6 v, counters(scope \<mapsto> v)))"

definition sequence_next ::
  "(nat \<Rightarrow> bool) \<Rightarrow> (string \<Rightarrow> nat option) \<Rightarrow> string \<Rightarrow> string \<Rightarrow> (string \<times> (string \<Rightarrow> nat option)) res" where
  "sequence_next lost counters scope pfx = counter_try (map lost [0..<3]) counters scope pfx"


section \<open>Consecutive numbering\<close>

text \<open>
  What a sequence promises: as long as it is ready it issues the numeral of its counter, counts on by
  one and keeps its shape, and different counts have different numerals.
\<close>

fun issue_many :: "('s \<Rightarrow> string \<times> 's) \<Rightarrow> nat \<Rightarrow> 's \<Rightarrow> string list \<times> 's" where
  "issue_many issue 0 s = ([], s)"
| "issue_many issue (Suc n) s =
    (let (num, s1) = issue s; (nums, s2) = issue_many issue n s1 in (num # nums, s2))"

locale consecutive_numbers =
  fixes issue :: "'s \<Rightarrow> string \<times> 's" and counter :: "'s \<Rightarrow> nat" and render :: "'s \<Rightarrow> nat \<Rightarrow> string"
    and ready :: "'s \<Rightarrow> bool"
  assumes issued: "ready s \<Longrightarrow> fst (issue s) = render s (counter s)"
    and advances: "ready s \<Longrightarrow> counter (snd (issue s)) = counter s + 1"
    and keeps: "ready s \<Longrightarrow> ready (snd (issue s))" "ready s \<Longrightarrow> render (snd (issue s)) = render s"
    and render_inject: "ready s \<Longrightarrow> render s m = render s n \<longleftrightarrow> m = n"
begin

lemma issue_many_consecutive:
  "ready s \<Longrightarrow> fst (issue_many issue n s) = map (render s) [counter s..<counter s + n]
    \<and> counter (snd (issue_many issue n s)) = counter s + n"
proof (induction n arbitrary: s)
  case (Suc n)
  show ?case using Suc.IH [OF keeps(1) [OF Suc.prems]] keeps [OF Suc.prems] issued [OF Suc.prems]
      advances [OF Suc.prems] by (simp add: case_prod_beta Let_def upt_conv_Cons del: upt_Suc)
qed simp

lemma issue_many_distinct: "ready s \<Longrightarrow> distinct (fst (issue_many issue n s))"
  using issue_many_consecutive [of s n] render_inject [of s] by (simp add: distinct_map inj_on_def)

end

lemma find_series_key: "find_series k t = Some s \<Longrightarrow> sr_key s = k"
  unfolding find_series_def by (induction t) (auto split: if_splits)

lemma find_snoc: "find P (xs @ [x]) = (case find P xs of None \<Rightarrow> if P x then Some x else None | r \<Rightarrow> r)"
  by (induction xs) auto

lemma find_set_series:
  assumes "\<And>s. sr_key (f s) = sr_key s"
  shows "find_series k (set_series k' f t) = (if k = k' then map_option f (find_series k t) else find_series k t)"
  unfolding find_series_def set_series_def using assms by (induction t) auto

lemma find_const_series:
  assumes "sr_key s' = k"
  shows "find_series k (set_series k (\<lambda>_. s') t) = map_option (\<lambda>_. s') (find_series k t)"
  unfolding find_series_def set_series_def using assms by (induction t) auto

text \<open>The row lock, the read and the increment of one series.\<close>

definition take_next :: "series_key \<Rightarrow> doc_series list \<Rightarrow> string \<times> doc_series list" where
  "take_next k t = (case find_series k t of
     None \<Rightarrow> ([], t)
   | Some s \<Rightarrow> (number_of s (sr_next s), set_series k (\<lambda>s. s\<lparr>sr_next := sr_next s + 1\<rparr>) t))"

definition counter_of :: "series_key \<Rightarrow> doc_series list \<Rightarrow> nat" where
  "counter_of k t = (case find_series k t of None \<Rightarrow> 0 | Some s \<Rightarrow> sr_next s)"

definition render_of :: "series_key \<Rightarrow> doc_series list \<Rightarrow> nat \<Rightarrow> string" where
  "render_of k t n = (case find_series k t of None \<Rightarrow> [] | Some s \<Rightarrow> number_of s n)"

lemma number_of_inject [simp]: "number_of s m = number_of s n \<longleftrightarrow> m = n"
  by (simp add: number_of_def)

lemma number_of_bump [simp]: "number_of (s\<lparr>sr_next := n\<rparr>) = number_of s"
  by (simp add: number_of_def fun_eq_iff)

interpretation series_numbers: consecutive_numbers "take_next k" "counter_of k" "render_of k"
    "\<lambda>t. find_series k t \<noteq> None" for k
  by unfold_locales
    (auto simp: take_next_def counter_of_def render_of_def find_set_series fun_eq_iff split: option.splits)

text \<open>A plain counter, when one of the three attempts wins.\<close>

lemma sequence_next_wins:
  assumes "\<exists>i<3. \<not> lost i"
  shows "sequence_next lost c scope pfx = sequence_next (\<lambda>_. False) c scope pfx"
proof -
  have "counter_try ls c scope pfx = counter_try [False] c scope pfx" if "False \<in> set ls" for ls
    using that by (induction ls) auto
  moreover have "False \<in> set (map lost [0..<3])" using assms by auto
  ultimately show ?thesis unfolding sequence_next_def by (simp add: numeral_3_eq_3)
qed

definition sequence_take :: "string \<Rightarrow> string \<Rightarrow> (string \<Rightarrow> nat option) \<Rightarrow> string \<times> (string \<Rightarrow> nat option)" where
  "sequence_take scope pfx c = (case sequence_next (\<lambda>_. False) c scope pfx of Inr r \<Rightarrow> r | Inl _ \<Rightarrow> ([], c))"

interpretation plain_numbers: consecutive_numbers "sequence_take scope pfx"
    "\<lambda>c. (case c scope of None \<Rightarrow> 0 | Some v \<Rightarrow> v) + 1" "\<lambda>_ n. pfx @ ''-'' @ pad_nat 6 n" "\<lambda>_. True" for scope pfx
  by unfold_locales (auto simp: sequence_take_def sequence_next_def numeral_3_eq_3 Let_def)

lemma ensure_series_spec:
  assumes "ensure_series k t = Inr (s, t1)"
  shows "find_series k t1 = Some s" and "\<And>j r. find_series j t = Some r \<Longrightarrow> find_series j t1 = Some r"
    and "find_series k t = Some r \<Longrightarrow> s = r" and "sr_key s = k"
proof -
  have "find_series k t1 = Some s \<and> (\<forall>j r. find_series j t = Some r \<longrightarrow> find_series j t1 = Some r)
    \<and> (\<forall>r. find_series k t = Some r \<longrightarrow> s = r)"
    using assms
    by (cases k) (auto simp: ensure_series_def Let_def find_series_def find_snoc split: option.splits)
  then show a: "find_series k t1 = Some s" and "\<And>j r. find_series j t = Some r \<Longrightarrow> find_series j t1 = Some r"
    and "find_series k t = Some r \<Longrightarrow> s = r" by auto
  show "sr_key s = k" by (rule find_series_key [OF a])
qed

lemma next_number_elim:
  assumes "next_number in_tx co today t dt g d = Inr (num, t')"
  obtains s t1 where "ensure_series (dt, resolve_keys co today g d) t = Inr (s, t1)" "in_tx"
    "num = number_of s (sr_next s)" "(num, t') = take_next (dt, resolve_keys co today g d) t1"
    "t' = set_series (dt, resolve_keys co today g d) (\<lambda>s. s\<lparr>sr_next := sr_next s + 1\<rparr>) t1"
proof -
  let ?k = "(dt, resolve_keys co today g d)"
  obtain s t1 where e: "ensure_series ?k t = Inr (s, t1)" and r: "in_tx" "num = number_of s (sr_next s)"
      "t' = set_series ?k (\<lambda>s. s\<lparr>sr_next := sr_next s + 1\<rparr>) t1"
    using assms by (auto simp: next_number_def guard_res_Inr_iff bind_res_Inr_iff Let_def)
  show thesis by (rule that [OF e]) (use r ensure_series_spec(1) [OF e] in \<open>simp_all add: take_next_def\<close>)
qed

fun next_numbers ::
  "nat \<Rightarrow> numbering_company \<Rightarrow> date \<Rightarrow> doc_series list \<Rightarrow> string \<Rightarrow> string option \<Rightarrow> date option
    \<Rightarrow> (string list \<times> doc_series list) res" where
  "next_numbers 0 co today t dt g d = Inr ([], t)"
| "next_numbers (Suc n) co today t dt g d =
    bind_res (next_number True co today t dt g d) (\<lambda>(num, t1).
    bind_res (next_numbers n co today t1 dt g d) (\<lambda>(nums, t2). Inr (num # nums, t2)))"

lemma next_numbers_issue_many:
  assumes "find_series (dt, resolve_keys co today g d) t = Some s" and "map_of DEFAULT_PREFIXES dt \<noteq> None"
  shows "next_numbers n co today t dt g d = Inr (issue_many (take_next (dt, resolve_keys co today g d)) n t)"
  using assms(1)
proof (induction n arbitrary: t s)
  case (Suc n)
  let ?k = "(dt, resolve_keys co today g d)"
  have e: "ensure_series ?k t = Inr (s, t)"
    using Suc.prems assms(2) by (auto simp: ensure_series_def split: option.splits)
  have step: "next_number True co today t dt g d = Inr (take_next ?k t)"
    using e assms(2) Suc.prems by (auto simp: next_number_def Let_def take_next_def guard_res_def)
  have "\<exists>r. find_series ?k (snd (take_next ?k t)) = Some r"
    using Suc.prems by (simp add: take_next_def find_set_series)
  then show ?case using Suc.IH step by (auto simp: case_prod_beta Let_def)
qed simp

text \<open>
  Numbers drawn from a series are consecutive: as long as nobody renumbers it, \<open>n\<close> allocations in a
  row give the prefix with the counter, the counter plus one and so on, with no gap and no repeat, and
  leave the counter \<open>n\<close> further.
\<close>

theorem numbers_are_consecutive:
  assumes "find_series (dt, resolve_keys co today g d) t = Some s" and "map_of DEFAULT_PREFIXES dt \<noteq> None"
  shows "\<exists>nums t'. next_numbers n co today t dt g d = Inr (nums, t') \<and>
    nums = map (number_of s) [sr_next s..<sr_next s + n] \<and> distinct nums \<and>
    counter_of (dt, resolve_keys co today g d) t' = sr_next s + n"
proof -
  let ?k = "(dt, resolve_keys co today g d)"
  have r: "find_series ?k t \<noteq> None" using assms(1) by simp
  have "counter_of ?k t = sr_next s" "render_of ?k t = number_of s"
    using assms(1) by (auto simp: counter_of_def render_of_def fun_eq_iff)
  then show ?thesis
    using series_numbers.issue_many_consecutive [OF r, of n] series_numbers.issue_many_distinct [OF r, of n]
      next_numbers_issue_many [OF assms] by (metis prod.collapse)
qed


section \<open>No number is given twice\<close>

record num_state =
  ns_table :: "doc_series list"
  ns_docs :: "string \<Rightarrow> string list"     \<comment> \<open>the numbers on the saved documents of each type\<close>

definition shape_of :: "doc_series \<Rightarrow> string \<Rightarrow> nat option" where
  "shape_of s num =
    (let p = sr_prefix s @ ''-''; w = drop (length p) num in
     if take (length p) num = p \<and> py_isdigit w then Some (nat_of_digits w) else None)"

text \<open>The series is ahead of every document that carries one of its numbers.\<close>

definition ahead :: "series_key \<Rightarrow> num_state \<Rightarrow> bool" where
  "ahead k st = (case find_series k (ns_table st) of
     None \<Rightarrow> False
   | Some s \<Rightarrow> sr_prefix s \<noteq> [] \<and> py_strip (sr_prefix s) = sr_prefix s \<and>
       list_all (\<lambda>num. case shape_of s num of None \<Rightarrow> True | Some n \<Rightarrow> n < sr_next s) (ns_docs st (fst k)))"

definition save_doc :: "string \<Rightarrow> string \<Rightarrow> (string \<Rightarrow> string list) \<Rightarrow> string \<Rightarrow> string list" where
  "save_doc dt num docs = docs(dt := docs dt @ [num])"

text \<open>
  What happens to a series: numbers drawn for new documents, numbers claimed by the user, repair,
  renumbering, and any other work that leaves this series alone and saves no number of its shape.
\<close>

inductive num_step :: "numbering_company \<Rightarrow> series_key \<Rightarrow> num_state \<Rightarrow> num_state \<Rightarrow> bool"
  for co :: numbering_company and k :: series_key where
  allocated: "next_number True co today (ns_table st) dt g d = Inr (num, t') \<Longrightarrow>
     k = (dt, resolve_keys co today g d) \<Longrightarrow>
     num_step co k st \<lparr>ns_table = t', ns_docs = save_doc dt num (ns_docs st)\<rparr>"
| claimed: "claim_number True co today (ns_table st) dt number g d = Inr t' \<Longrightarrow> py_strip number \<noteq> [] \<Longrightarrow>
     k = (dt, resolve_keys co today g d) \<Longrightarrow>
     num_step co k st \<lparr>ns_table = t', ns_docs = save_doc dt (py_strip number) (ns_docs st)\<rparr>"
| synced: "sync_next (ns_docs st) co today (ns_table st) dt g d = Inr t' \<Longrightarrow>
     k = (dt, resolve_keys co today g d) \<Longrightarrow> num_step co k st (st\<lparr>ns_table := t'\<rparr>)"
| configured: "configure (ns_docs st) co today (ns_table st) dt pfx next_no pad g d = Inr (r, t') \<Longrightarrow>
     pfx = None \<or> next_no \<noteq> None \<Longrightarrow>
     k = (dt, resolve_keys co today g d) \<Longrightarrow> num_step co k st (st\<lparr>ns_table := t'\<rparr>)"
| elsewhere: "find_series k (ns_table st') = find_series k (ns_table st) \<Longrightarrow>
     (\<And>num s. num \<in> set (ns_docs st' (fst k)) \<Longrightarrow> num \<notin> set (ns_docs st (fst k)) \<Longrightarrow>
        find_series k (ns_table st) = Some s \<Longrightarrow> shape_of s num = None) \<Longrightarrow>
     num_step co k st st'"

lemma shape_of_number [simp]: "shape_of s (number_of s n) = Some n"
  by (simp add: shape_of_def number_of_def Let_def)

lemma shape_of_bump [simp]: "shape_of (s\<lparr>sr_next := n\<rparr>) = shape_of s" "shape_of (s\<lparr>sr_padding := p\<rparr>) = shape_of s"
  by (simp_all add: shape_of_def fun_eq_iff)

lemma shape_ofE:
  assumes "shape_of s num = Some n"
  obtains w where "num = sr_prefix s @ ''-'' @ w" "py_isdigit w" "n = nat_of_digits w"
proof -
  let ?p = "sr_prefix s @ ''-''"
  let ?w = "drop (length ?p) num"
  have t: "take (length ?p) num = ?p" "py_isdigit ?w" "n = nat_of_digits ?w"
    using assms by (auto simp: shape_of_def Let_def split: if_splits)
  have "num = ?p @ ?w" using append_take_drop_id [of "length ?p" num] unfolding t(1) by (rule sym)
  then show thesis using that [of ?w] t by simp
qed

lemma stripped_hd:
  assumes "py_strip p = p" and "p \<noteq> []"
  shows "\<not> ch_space (hd p)"
proof
  assume "ch_space (hd p)"
  then have "length (lstrip_by ch_space p) < length p"
    using assms(2) by (cases p) (auto simp: lstrip_by_def intro: le_imp_less_Suc length_dropWhile_le)
  moreover have "length (py_strip p) \<le> length (lstrip_by ch_space p)"
    unfolding py_strip_def rstrip_by_def by (metis length_dropWhile_le length_rev)
  ultimately show False using assms(1) by simp
qed

lemma digit_not_space: "ch_digit c \<Longrightarrow> \<not> ch_space c"
  by (simp add: ch_digit_def ch_space_def Let_def)

lemma digit_not_sep: "ch_digit c \<Longrightarrow> c \<notin> set ''-/ _''"
  by (auto simp: ch_digit_def ch_code_def)

lemma existing_seq_shape:
  assumes "shape_of s num = Some n" and "py_strip (sr_prefix s) = sr_prefix s" and "sr_prefix s \<noteq> []"
  shows "existing_seq (sr_prefix s) num = Some n"
proof -
  obtain w where w: "num = sr_prefix s @ ''-'' @ w" "py_isdigit w" "n = nat_of_digits w"
    by (rule shape_ofE [OF assms(1)])
  have d: "w \<noteq> []" "\<forall>c\<in>set w. ch_digit c" using w(2) by (auto simp: py_isdigit_def list_all_iff)
  have "\<not> ch_space (last num)" using w(1) d digit_not_space by simp
  moreover have "\<not> ch_space (hd num)" using stripped_hd [OF assms(2,3)] w(1) assms(3) by simp
  ultimately have raw: "py_strip num = num" by (intro py_strip_id) simp
  have "starts_with (py_upper num) (py_upper (sr_prefix s))"
    using w(1) by (simp add: starts_with_def py_upper_def)
  moreover have "lstrip_by (\<lambda>c. c \<in> set ''-/ _'') (drop (length (sr_prefix s)) num) = w"
    using w(1) d digit_not_sep by (cases w) (auto simp: lstrip_by_def)
  moreover have "rev (takeWhile ch_digit (rev w)) = w"
    using d by (simp add: takeWhile_eq_all_conv [THEN iffD2])
  ultimately show ?thesis using assms(2,3) w(3) d(1) raw unfolding existing_seq_def Let_def by simp
qed

lemma foldl_max_ge:
  fixes m :: nat
  shows "m \<le> foldl (\<lambda>m x. case f x of None \<Rightarrow> m | Some n \<Rightarrow> max m n) m xs" and
    "x \<in> set xs \<Longrightarrow> f x = Some n \<Longrightarrow> n \<le> foldl (\<lambda>m x. case f x of None \<Rightarrow> m | Some n \<Rightarrow> max m n) m xs"
proof -
  show ge: "m \<le> foldl (\<lambda>m x. case f x of None \<Rightarrow> m | Some n \<Rightarrow> max m n) m xs" for m
    by (induction xs arbitrary: m) (auto split: option.splits intro: le_trans [OF max.cobounded1])
  show "x \<in> set xs \<Longrightarrow> f x = Some n \<Longrightarrow> n \<le> foldl (\<lambda>m x. case f x of None \<Rightarrow> m | Some n \<Rightarrow> max m n) m xs"
  proof (induction xs arbitrary: m)
    case (Cons y ys)
    let ?F = "foldl (\<lambda>m x. case f x of None \<Rightarrow> m | Some n \<Rightarrow> max m n)"
    have ge': "a \<le> ?F a ys" for a
      by (induction ys arbitrary: a) (auto split: option.splits intro: le_trans [OF max.cobounded1])
    show ?case
    proof (cases "x = y")
      case True
      then show ?thesis using Cons.prems ge' [of "max m n"] by simp
    next
      case False
      then show ?thesis using Cons by simp
    qed
  qed simp
qed

lemma max_existing_covers:
  assumes "num \<in> set (docs dt)" and "dt \<in> set COUNTED_TYPES" and "shape_of s num = Some n"
    and "py_strip (sr_prefix s) = sr_prefix s" and "sr_prefix s \<noteq> []"
  shows "n \<le> max_existing_seq docs dt (sr_prefix s)"
proof -
  have "num \<noteq> []" using shape_ofE [OF assms(3)] by auto
  then show ?thesis
    using foldl_max_ge(2) [where f = "existing_seq (sr_prefix s)", OF _ existing_seq_shape [OF assms(3-5)]] assms(1,2)
    by (simp add: max_existing_seq_def queryset_for_def)
qed

lemma claim_shape:
  assumes "shape_of s num = Some n"
  shows "starts_with (py_upper num) (py_upper (sr_prefix s @ ''-''))"
    "py_isdigit (drop (length (sr_prefix s @ ''-'')) num)"
    "nat_of_digits (drop (length (sr_prefix s @ ''-'')) num) = n"
  by (rule shape_ofE [OF assms], simp add: starts_with_def py_upper_def)+

lemma aheadI:
  assumes "find_series k (ns_table st) = Some s" and "sr_prefix s \<noteq> []" "py_strip (sr_prefix s) = sr_prefix s"
    and "\<And>num n. num \<in> set (ns_docs st (fst k)) \<Longrightarrow> shape_of s num = Some n \<Longrightarrow> n < sr_next s"
  shows "ahead k st"
  using assms by (auto simp: ahead_def list_all_iff split: option.splits)

lemma aheadE:
  assumes "ahead k st"
  obtains s where "find_series k (ns_table st) = Some s" "sr_prefix s \<noteq> []" "py_strip (sr_prefix s) = sr_prefix s"
    "\<And>num n. num \<in> set (ns_docs st (fst k)) \<Longrightarrow> shape_of s num = Some n \<Longrightarrow> n < sr_next s"
  using assms by (fastforce simp: ahead_def list_all_iff split: option.splits)

lemma validate_prefix_clean:
  assumes "validate_prefix p = Inr q"
  shows "q \<noteq> [] \<and> py_strip q = q"
proof -
  let ?ok = "\<lambda>c. ch_upper c \<or> ch_lower c \<or> ch_digit c \<or> c \<in> set ''/-''"
  have q: "q \<noteq> []" "list_all ?ok q"
    using assms by (auto simp: validate_prefix_def Let_def guard_res_Inr_iff)
  have "\<not> ch_space c" if "?ok c" for c
    using that by (auto simp: ch_upper_def ch_lower_def ch_digit_def ch_space_def Let_def ch_code_def)
  moreover have "?ok (hd q)" "?ok (last q)"
    using q hd_in_set [OF q(1)] last_in_set [OF q(1)] unfolding list_all_iff by blast+
  ultimately show ?thesis using q(1) by (blast intro: py_strip_id)
qed

lemma configure_elim:
  assumes "configure docs co today t dt pfx next_no pad g d = Inr (r, t')" and "pfx = None \<or> next_no \<noteq> None"
    and "k = (dt, resolve_keys co today g d)" and "find_series k t = Some s"
    and "sr_prefix s \<noteq> []" "py_strip (sr_prefix s) = sr_prefix s"
  obtains s3 where "find_series k t' = Some s3" "sr_prefix s3 \<noteq> []" "py_strip (sr_prefix s3) = sr_prefix s3"
    "sr_prefix s3 = sr_prefix s \<and> sr_next s \<le> sr_next s3 \<or> max_existing_seq docs dt (sr_prefix s3) < sr_next s3"
proof -
  obtain gk fy where gf: "resolve_keys co today g d = (gk, fy)" by force
  have k: "k = (dt, gk, fy)" using assms(3) gf by simp
  obtain s0 t1 s1 s2 s3 where e: "ensure_series k t = Inr (s0, t1)" and x: "with_prefix pfx s0 = Inr s1"
    and n: "with_next docs dt next_no s1 = Inr s2" and p: "with_padding pad s2 = Inr s3"
    and v: "peek co today (set_series k (\<lambda>_. s3) t1) dt (or_none gk) d = Inr (r, t')"
    using assms(1) unfolding configure_def gf Let_def prod.case k [symmetric]
    by (auto simp: bind_res_Inr_iff)
  have t1: "find_series k t1 = Some s" "s0 = s" using ensure_series_spec [OF e] assms(4) by auto
  have key: "sr_key s = k" by (rule find_series_key [OF assms(4)])
  have s1: "sr_key s1 = k \<and> sr_next s1 = sr_next s \<and> sr_prefix s1 \<noteq> [] \<and> py_strip (sr_prefix s1) = sr_prefix s1 \<and>
      (pfx = None \<longrightarrow> sr_prefix s1 = sr_prefix s)"
    using x t1 key assms(5,6) by (auto simp: with_prefix_def bind_res_Inr_iff dest: validate_prefix_clean split: option.splits)
  have s2: "sr_key s2 = k \<and> sr_prefix s2 = sr_prefix s1 \<and>
      (next_no = None \<and> sr_next s2 = sr_next s1 \<or> max_existing_seq docs dt (sr_prefix s1) < sr_next s2)"
    using n s1 by (auto simp: with_next_def guard_res_Inr_iff split: option.splits)
  have s3: "sr_key s3 = k \<and> sr_prefix s3 = sr_prefix s2 \<and> sr_next s3 = sr_next s2"
    using p s2 by (auto simp: with_padding_def guard_res_Inr_iff split: option.splits)
  have "find_series k (set_series k (\<lambda>_. s3) t1) = Some s3"
    using t1 s3 by (simp add: find_const_series)
  then have "find_series k t' = Some s3"
    using v by (auto simp: peek_def bind_res_Inr_iff dest: ensure_series_spec(2))
  then show thesis using that s1 s2 s3 assms(2) by auto
qed

lemma ahead_step:
  assumes "num_step co k st st'" and "fst k \<in> set COUNTED_TYPES" and ok: "ahead k st"
  shows "ahead k st'"
proof -
  obtain s where s: "find_series k (ns_table st) = Some s" "sr_prefix s \<noteq> []" "py_strip (sr_prefix s) = sr_prefix s"
    and below: "\<And>num n. num \<in> set (ns_docs st (fst k)) \<Longrightarrow> shape_of s num = Some n \<Longrightarrow> n < sr_next s"
    using aheadE [OF ok] by metis
  have kept: "find_series k t1 = Some s \<and> s1 = s" if "ensure_series k (ns_table st) = Inr (s1, t1)" for s1 t1
    using ensure_series_spec [OF that] s(1) by auto
  have bump: "ahead k \<lparr>ns_table = set_series k (\<lambda>s. s\<lparr>sr_next := m\<rparr>) t1, ns_docs = docs\<rparr>"
    if "find_series k t1 = Some s" "sr_next s \<le> m"
      and "\<And>num n. num \<in> set (docs (fst k)) \<Longrightarrow> num \<notin> set (ns_docs st (fst k)) \<Longrightarrow> shape_of s num = Some n \<Longrightarrow> n < m"
    for t1 m docs
  proof -
    have "n < m" if "num \<in> set (docs (fst k))" "shape_of s num = Some n" for num n
      using below [of num n] that \<open>sr_next s \<le> m\<close>
        \<open>\<And>num n. num \<in> set (docs (fst k)) \<Longrightarrow> num \<notin> set (ns_docs st (fst k)) \<Longrightarrow> shape_of s num = Some n \<Longrightarrow> n < m\<close>
      by (cases "num \<in> set (ns_docs st (fst k))") auto
    then show ?thesis
      using that(1) s by (intro aheadI [where s = "s\<lparr>sr_next := m\<rparr>"]) (auto simp: find_set_series)
  qed
  from assms(1) show ?thesis
  proof (cases rule: num_step.cases)
    case (allocated today dt g d num t')
    obtain t1 where n: "find_series k t1 = Some s" "num = number_of s (sr_next s)"
      "t' = set_series k (\<lambda>s. s\<lparr>sr_next := sr_next s + 1\<rparr>) t1"
      using next_number_elim [OF allocated(2)] kept allocated(3) by metis
    show ?thesis unfolding allocated(1) using n s below allocated(3)
      by (intro aheadI [where s = "s\<lparr>sr_next := sr_next s + 1\<rparr>"])
        (auto simp: find_set_series save_doc_def less_Suc_eq)
  next
    case (claimed today dt number g d t')
    then obtain s1 t1 where e: "ensure_series k (ns_table st) = Inr (s1, t1)"
      by (auto simp: claim_number_def Let_def bind_res_Inr_iff guard_res_Inr_iff)
    note t1 = kept [OF e]
    let ?num = "py_strip number"
    let ?w = "drop (length (sr_prefix s @ ''-'')) ?num"
    have c: "t' = (if starts_with (py_upper ?num) (py_upper (sr_prefix s @ ''-'')) \<and> py_isdigit ?w \<and> sr_next s \<le> nat_of_digits ?w
        then set_series k (\<lambda>s. s\<lparr>sr_next := nat_of_digits ?w + 1\<rparr>) t1 else t1)"
      using claimed(2,3) e t1 unfolding claim_number_def Let_def claimed(4) [symmetric]
      by (auto simp: guard_res_def split: if_splits)
    show ?thesis
    proof (cases "starts_with (py_upper ?num) (py_upper (sr_prefix s @ ''-'')) \<and> py_isdigit ?w \<and> sr_next s \<le> nat_of_digits ?w")
      case True
      then show ?thesis unfolding claimed(1) c using t1 claim_shape(3) [of s ?num]
        by (simp only: if_True simp_thms) (intro bump; auto simp: save_doc_def split: if_splits)
    next
      case False
      have "t' = t1" unfolding c by (rule if_not_P [OF False])
      then show ?thesis unfolding claimed(1) using t1 s below False claim_shape [of s ?num] claimed(4)
        by (intro aheadI [where s = s]) (auto simp: save_doc_def not_le)
    qed
  next
    case (synced today dt g d t')
    then obtain s1 t1 where e: "ensure_series k (ns_table st) = Inr (s1, t1)"
      by (auto simp: sync_next_def Let_def bind_res_Inr_iff)
    note t1 = kept [OF e]
    let ?m = "max_existing_seq (ns_docs st) dt (sr_prefix s) + 1"
    have c: "t' = (if sr_next s < ?m then set_series k (\<lambda>s. s\<lparr>sr_next := ?m\<rparr>) t1 else t1)"
      using synced(2) e t1 unfolding sync_next_def Let_def synced(3) [symmetric] by (auto split: if_splits)
    show ?thesis
    proof (cases "sr_next s < ?m")
      case True
      have "t' = set_series k (\<lambda>s. s\<lparr>sr_next := ?m\<rparr>) t1" unfolding c by (rule if_P [OF True])
      then have "st' = \<lparr>ns_table = set_series k (\<lambda>s. s\<lparr>sr_next := ?m\<rparr>) t1, ns_docs = ns_docs st\<rparr>"
        using synced(1) by simp
      then show ?thesis using bump [of t1 ?m "ns_docs st"] t1 True by simp
    next
      case False
      then show ?thesis using t1 synced(1) c s below by (intro aheadI [where s = s]) auto
    qed
  next
    case (configured today dt pfx next_no pad g d r t')
    obtain s3 where s3: "find_series k t' = Some s3" "sr_prefix s3 \<noteq> []" "py_strip (sr_prefix s3) = sr_prefix s3"
      "sr_prefix s3 = sr_prefix s \<and> sr_next s \<le> sr_next s3 \<or> max_existing_seq (ns_docs st) dt (sr_prefix s3) < sr_next s3"
      using configure_elim [OF configured(2,3,4) s] by metis
    have "n < sr_next s3" if num: "num \<in> set (ns_docs st dt)" "shape_of s3 num = Some n" for num n
      using s3(4)
    proof
      assume p: "sr_prefix s3 = sr_prefix s \<and> sr_next s \<le> sr_next s3"
      then have "shape_of s num = Some n" using num(2) by (simp add: shape_of_def)
      then show ?thesis using below [of num n] num(1) p configured(4) by simp
    next
      assume "max_existing_seq (ns_docs st) dt (sr_prefix s3) < sr_next s3"
      then show ?thesis
        using max_existing_covers [where docs = "ns_docs st", OF num(1) _ num(2) s3(3,2)] configured(4) assms(2) by force
    qed
    then show ?thesis unfolding configured(1) using s3 configured(4) by (intro aheadI [where s = s3]) auto
  next
    case elsewhere
    then show ?thesis using s below by (intro aheadI [where s = s]) (auto, metis option.distinct(1))
  qed
qed

lemma repaired_is_ahead:
  assumes "sync_next docs co today t dt g d = Inr t'" and k: "k = (dt, resolve_keys co today g d)"
    and "dt \<in> set COUNTED_TYPES" and s: "find_series k t = Some s" "sr_prefix s \<noteq> []" "py_strip (sr_prefix s) = sr_prefix s"
  shows "ahead k \<lparr>ns_table = t', ns_docs = docs\<rparr>"
proof -
  let ?m = "max_existing_seq docs dt (sr_prefix s) + 1"
  obtain s1 t1 where e: "ensure_series k t = Inr (s1, t1)"
    using assms(1) unfolding k by (auto simp: sync_next_def Let_def bind_res_Inr_iff)
  have t1: "find_series k t1 = Some s" "s1 = s" using ensure_series_spec [OF e] s(1) by auto
  have t': "t' = (if sr_next s < ?m then set_series k (\<lambda>x. x\<lparr>sr_next := ?m\<rparr>) t1 else t1)"
    using assms(1) e t1 unfolding sync_next_def Let_def k [symmetric] by (auto split: if_splits)
  have c: "n < ?m" if "num \<in> set (docs dt)" "shape_of s num = Some n" for num n
    using max_existing_covers [where docs = docs, OF that(1) assms(3) that(2) s(3,2)] by simp
  show ?thesis
  proof (cases "sr_next s < ?m")
    case True
    have "t' = set_series k (\<lambda>x. x\<lparr>sr_next := ?m\<rparr>) t1" unfolding t' by (rule if_P [OF True])
    then show ?thesis using t1(1) s c k
      by (intro aheadI [where s = "s\<lparr>sr_next := ?m\<rparr>"]) (auto simp: find_set_series)
  next
    case False
    have "t' = t1" unfolding t' by (rule if_not_P [OF False])
    then show ?thesis using t1(1) s c k False by (intro aheadI [where s = s]) force+
  qed
qed

text \<open>
  C7. A document number is never given twice, for every document type whose saved documents the service
  counts (all of them but goods receipts): start from a series that is ahead of the saved documents, as a
  repair leaves it; after any sequence of allocations, claims of numbers the user typed, repairs and
  configurations of the series, where a new prefix comes with the next number, and any other work that
  saves no number of its shape, the number it gives next is on no saved document of the type.
\<close>

theorem numbers_never_repeat:
  assumes "(num_step co k)\<^sup>*\<^sup>* st st'" and "ahead k st" and "k = (dt, resolve_keys co today g d)"
    and "dt \<in> set COUNTED_TYPES" and "next_number True co today (ns_table st') dt g d = Inr (num, t')"
  shows "num \<notin> set (ns_docs st' dt)"
proof -
  have "ahead k st'" using assms(1,2)
    by (induction rule: rtranclp_induct) (auto intro: ahead_step simp: assms(3,4))
  then obtain s where s: "find_series k (ns_table st') = Some s"
    and below: "\<And>num n. num \<in> set (ns_docs st' (fst k)) \<Longrightarrow> shape_of s num = Some n \<Longrightarrow> n < sr_next s"
    by (rule aheadE) auto
  have "num = number_of s (sr_next s)"
    using next_number_elim [OF assms(5)] ensure_series_spec(3) s assms(3) by metis
  then show ?thesis using below [of num "sr_next s"] assms(3) by auto
qed

section \<open>Where the promise fails\<close>

definition two_state_company :: numbering_company where
  "two_state_company = \<lparr>nc_gstins =
     [\<lparr>cg_pk = 1, cg_gstin = ''27ABCDE1234F1Z0'', cg_primary = True, cg_active = True\<rparr>,
      \<lparr>cg_pk = 2, cg_gstin = ''08ABCDE1234F1Z0'', cg_primary = False, cg_active = True\<rparr>],
     nc_gstin = ''27ABCDE1234F1Z0'', nc_gstin_fy = True\<rparr>"

definition first_invoice :: "string \<Rightarrow> doc_series list \<Rightarrow> (string \<times> doc_series list) res" where
  "first_invoice g t =
    next_number True two_state_company (Date 2025 7 1) t ''SALES_INVOICE'' (Some g) (Some (Date 2025 7 1))"

text \<open>
  The default prefix keeps only the last four characters of the GSTIN, so two registrations of one
  company can share every number.  The registrations of one PAN in Maharashtra (27) and in Rajasthan
  (08) have the same check digit: the first invoice of the second registration gets the number the first
  registration already used, which the unique constraint on company and number refuses.
\<close>

theorem registrations_share_numbers:
  "\<exists>t1 t2. first_invoice ''27ABCDE1234F1Z0'' [] = Inr (''INV-2526-F1Z0-00001'', t1) \<and>
    first_invoice ''08ABCDE1234F1Z0'' t1 = Inr (''INV-2526-F1Z0-00001'', t2) \<and>
    map sr_key t2 = [(''SALES_INVOICE'', ''27ABCDE1234F1Z0'', ''2025-26''),
                     (''SALES_INVOICE'', ''08ABCDE1234F1Z0'', ''2025-26'')]"
proof -
  let ?t1 = "[\<lparr>sr_key = (''SALES_INVOICE'', ''27ABCDE1234F1Z0'', ''2025-26''), sr_prefix = ''INV-2526-F1Z0'',
               sr_next = 2, sr_padding = 5\<rparr>]"
  let ?t2 = "?t1 @ [\<lparr>sr_key = (''SALES_INVOICE'', ''08ABCDE1234F1Z0'', ''2025-26''), sr_prefix = ''INV-2526-F1Z0'',
               sr_next = 2, sr_padding = 5\<rparr>]"
  have "first_invoice ''27ABCDE1234F1Z0'' [] = Inr (''INV-2526-F1Z0-00001'', ?t1)" by code_simp
  moreover have "first_invoice ''08ABCDE1234F1Z0'' ?t1 = Inr (''INV-2526-F1Z0-00001'', ?t2)" by code_simp
  ultimately show ?thesis by auto
qed

text \<open>
  Goods receipts have no entry in the table of counted documents, so the check that a renumbering
  stays above the existing documents never refuses one: an owner can set the series back to 1 and the
  next receipt gets a number that is taken.
\<close>

theorem goods_receipts_can_be_renumbered_back:
  "\<exists>r t. configure (\<lambda>_. [''GRN-00001'', ''GRN-00002'']) \<lparr>nc_gstins = [], nc_gstin = [], nc_gstin_fy = False\<rparr>
      (Date 2025 7 1) [\<lparr>sr_key = (''GOODS_RECEIPT'', [], []), sr_prefix = ''GRN'', sr_next = 3, sr_padding = 5\<rparr>]
      ''GOODS_RECEIPT'' None (Some 1) None None None = Inr (r, t) \<and> snd r = ''GRN-00001''"
proof -
  let ?s = "\<lparr>sr_key = (''GOODS_RECEIPT'', [], []), sr_prefix = ''GRN'', sr_next = 1, sr_padding = 5\<rparr>"
  have "configure (\<lambda>_. [''GRN-00001'', ''GRN-00002'']) \<lparr>nc_gstins = [], nc_gstin = [], nc_gstin_fy = False\<rparr>
      (Date 2025 7 1) [?s\<lparr>sr_next := 3\<rparr>] ''GOODS_RECEIPT'' None (Some 1) None None None
      = Inr ((?s, ''GRN-00001''), [?s])" by code_simp
  then show ?thesis by auto
qed

text \<open>
  A new prefix given without the next number keeps the counter and is not compared with the documents that
  carry the prefix: after two changes of the prefix a used number comes back.
\<close>

lemma old_prefix_repeats:
  "\<exists>r t. configure (\<lambda>_. [''INV-00002'']) \<lparr>nc_gstins = [], nc_gstin = [], nc_gstin_fy = False\<rparr>
      (Date 2025 7 1) [\<lparr>sr_key = (''SALES_INVOICE'', [], []), sr_prefix = ''BILL'', sr_next = 2, sr_padding = 5\<rparr>]
      ''SALES_INVOICE'' (Some ''INV'') None None None None = Inr (r, t) \<and> snd r = ''INV-00002''"
proof -
  let ?s = "\<lparr>sr_key = (''SALES_INVOICE'', [], []), sr_prefix = ''INV'', sr_next = 2, sr_padding = 5\<rparr>"
  have "configure (\<lambda>_. [''INV-00002'']) \<lparr>nc_gstins = [], nc_gstin = [], nc_gstin_fy = False\<rparr>
      (Date 2025 7 1) [?s\<lparr>sr_prefix := ''BILL''\<rparr>] ''SALES_INVOICE'' (Some ''INV'') None None None None
      = Inr ((?s, ''INV-00002''), [?s])" by code_simp
  then show ?thesis by auto
qed

section \<open>Worked examples\<close>

definition plain_company :: numbering_company where
  "plain_company = \<lparr>nc_gstins = [], nc_gstin = [], nc_gstin_fy = False\<rparr>"

definition journal_series :: doc_series where
  "journal_series = \<lparr>sr_key = (''JOURNAL_ENTRY'', [], []), sr_prefix = ''JV'', sr_next = 3, sr_padding = 5\<rparr>"

definition journal_state :: num_state where
  "journal_state = \<lparr>ns_table = [journal_series], ns_docs = (\<lambda>_. [''JV-00001'', ''JV-00002''])\<rparr>"

lemma journal_key: "(''JOURNAL_ENTRY'', resolve_keys plain_company (Date 2025 7 1) None None) = (''JOURNAL_ENTRY'', [], [])"
  by code_simp

theorem numbers_are_consecutive_witness:
  "\<exists>t. next_numbers 3 plain_company (Date 2025 7 1) [journal_series] ''JOURNAL_ENTRY'' None None
    = Inr ([''JV-00003'', ''JV-00004'', ''JV-00005''], t)"
proof -
  have f: "find_series (''JOURNAL_ENTRY'', resolve_keys plain_company (Date 2025 7 1) None None) [journal_series]
    = Some journal_series" by code_simp
  have "map (number_of journal_series) [3..<3 + 3] = [''JV-00003'', ''JV-00004'', ''JV-00005'']" by code_simp
  then show ?thesis using numbers_are_consecutive [OF f, of 3]
    by (auto simp: DEFAULT_PREFIXES_def journal_series_def)
qed

text \<open>The user claims JV-00007; the next number drawn is JV-00008.\<close>

theorem numbers_never_repeat_witness:
  "\<exists>(st :: num_state) t. claim_number True plain_company (Date 2025 7 1) [journal_series] ''JOURNAL_ENTRY'' '' JV-00007 '' None None
      = Inr (ns_table st) \<and>
    next_number True plain_company (Date 2025 7 1) (ns_table st) ''JOURNAL_ENTRY'' None None = Inr (''JV-00008'', t) \<and>
    ''JV-00008'' \<notin> set (ns_docs st ''JOURNAL_ENTRY'')"
proof -
  let ?t = "[journal_series\<lparr>sr_next := 8\<rparr>]"
  let ?st = "\<lparr>ns_table = ?t, ns_docs = save_doc ''JOURNAL_ENTRY'' (py_strip '' JV-00007 '') (ns_docs journal_state)\<rparr>"
  have c: "claim_number True plain_company (Date 2025 7 1) (ns_table journal_state) ''JOURNAL_ENTRY'' '' JV-00007 '' None None
      = Inr ?t" by code_simp
  have "py_strip '' JV-00007 '' \<noteq> []" by code_simp
  then have "num_step plain_company (''JOURNAL_ENTRY'', [], []) journal_state ?st"
    by (rule num_step.claimed [OF c]) (rule journal_key [symmetric])
  then have run: "(num_step plain_company (''JOURNAL_ENTRY'', [], []))\<^sup>*\<^sup>* journal_state ?st" by blast
  have a: "ahead (''JOURNAL_ENTRY'', [], []) journal_state" by code_simp
  have n: "next_number True plain_company (Date 2025 7 1) (ns_table ?st) ''JOURNAL_ENTRY'' None None
      = Inr (''JV-00008'', [journal_series\<lparr>sr_next := 9\<rparr>])" by code_simp
  have "''JV-00008'' \<notin> set (ns_docs ?st ''JOURNAL_ENTRY'')"
    by (rule numbers_never_repeat [OF run a journal_key [symmetric] _ n]) (simp add: COUNTED_TYPES_def)
  moreover have "ns_table journal_state = [journal_series]" by (simp add: journal_state_def)
  ultimately show ?thesis using c n by (intro exI [of _ ?st]) auto
qed

end
