(* ===== verification/General_Ledger.thy ===== *)
theory General_Ledger
  imports Py_Decimal Doc_Numbers
begin

text \<open>
  The general ledger (\<open>PostingService\<close> in \<open>accounting/services.py\<close>, \<open>accounting/books.py\<close>, the period gate
  of \<open>reporting/gst_periods.py\<close>): the chart of accounts, the posting of a balanced voucher and its
  reversal.  The ledger is the state of one company; the database's constraints on journal lines and
  voucher numbers, which raise \<open>IntegrityError\<close>, are checks of \<open>post\<close>.
\<close>

section \<open>The ledger\<close>

record gl_company =
  gc_accounting_enabled :: bool
  gc_post_ledger :: bool
  gc_books_start :: "date option"
  gc_require_open :: bool          \<comment> \<open>\<open>require_open_period_for_posting\<close>\<close>
  gc_numbering :: numbering_company

datatype period_status = OPEN | SOFT_CLOSED | CLOSED

record acc_period =
  ap_start :: date
  ap_end :: date
  ap_status :: period_status

record gl_account =
  ga_code :: string
  ga_active :: bool
  ga_system :: bool
  ga_bank :: "int option"          \<comment> \<open>the bank account this ledger belongs to\<close>

record jline =
  jl_account :: string
  jl_debit :: rat
  jl_credit :: rat
  jl_cost_center :: "int option"
  jl_customer :: "int option"
  jl_supplier :: "int option"

datatype entry_status = DRAFT | POSTED | REVERSED | DISCARDED

text \<open>The source of a posting: type, id and purpose.\<close>

type_synonym posting_source = "string \<times> int \<times> string"

record jentry =
  je_id :: int
  je_number :: string
  je_source :: posting_source
  je_date :: date
  je_status :: entry_status
  je_lines :: "jline list"
  je_reversed :: "int option"      \<comment> \<open>\<open>reversed_entry_id\<close>\<close>

record ledger =
  lg_chart :: "gl_account list"
  lg_periods :: "acc_period list"
  lg_gst :: "int \<times> int \<Rightarrow> period_status"   \<comment> \<open>GST return periods by year and month; a missing one is created open\<close>
  lg_entries :: "jentry list"
  lg_series :: "doc_series list"

definition posts_to_ledger :: "gl_company \<Rightarrow> bool" where
  "posts_to_ledger co = (gc_accounting_enabled co \<or> gc_post_ledger co)"

section \<open>The chart of accounts\<close>

definition CHART :: "string list" where
  "CHART = [''1000'', ''1100'', ''1200'', ''1300'', ''1310'', ''1320'', ''1330'', ''1400'', ''1450'',
    ''1500'', ''2150'', ''1600'', ''1650'', ''2000'', ''2100'', ''2200'', ''2210'', ''2220'', ''2230'',
    ''2240'', ''2250'', ''2260'', ''2261'', ''2262'', ''2263'', ''2265'', ''2266'', ''1365'', ''2270'',
    ''1370'', ''1390'', ''2280'', ''3000'', ''3100'', ''3200'', ''4000'', ''4100'', ''5000'', ''4110'',
    ''5100'', ''5110'', ''5150'', ''5200'', ''5250'', ''5300'', ''5400'', ''5450'', ''5500'', ''5600'',
    ''5700'', ''5800'', ''5900'', ''5410'', ''5420'', ''5430'', ''5440'', ''2300'', ''1250'', ''1260'',
    ''1270'']"

definition find_account :: "(gl_account \<Rightarrow> bool) \<Rightarrow> string \<Rightarrow> gl_account list \<Rightarrow> gl_account option" where
  "find_account P code chart = find (\<lambda>a. ga_code a = code \<and> P a) chart"

text \<open>\<open>seed_chart_of_accounts\<close>: every missing account of the chart is created as an active system account.\<close>

definition seed_chart_of_accounts :: "gl_account list \<Rightarrow> gl_account list" where
  "seed_chart_of_accounts chart =
    chart @ map (\<lambda>c. \<lparr>ga_code = c, ga_active = True, ga_system = True, ga_bank = None\<rparr>)
      (filter (\<lambda>c. find_account (\<lambda>_. True) c chart = None) CHART)"

definition REQUIRED_ACCOUNTS :: "string list" where
  "REQUIRED_ACCOUNTS = [''1310'', ''1320'', ''1330'', ''1370'', ''2210'', ''2220'', ''2230'', ''2240'',
    ''2250'', ''2260'', ''2270'', ''2280'', ''1450'', ''5410'', ''5420'', ''5430'', ''5440'', ''2150'',
    ''5800'', ''5600'', ''5700'', ''5250'', ''5450'', ''2265'', ''2266'', ''1365'', ''1390'', ''3100'',
    ''3200'', ''5900'', ''5150'', ''1260'', ''1270'']"

definition ensure_chart :: "gl_account list \<Rightarrow> gl_account list" where
  "ensure_chart chart =
    (if list_ex (\<lambda>c. find_account ga_active c chart = None) REQUIRED_ACCOUNTS
     then seed_chart_of_accounts chart else chart)"

text \<open>\<open>_account\<close>: the chart in which the account is active, or the error.\<close>

definition use_account :: "string \<Rightarrow> gl_account list \<Rightarrow> gl_account list res" where
  "use_account code chart =
    (if find_account ga_active code chart \<noteq> None then Inr chart
     else let seeded = seed_chart_of_accounts chart in
       if find_account ga_active code seeded \<noteq> None then Inr seeded
       else case find_account (\<lambda>_. True) code seeded of
           Some a \<Rightarrow> if ga_system a
             then Inr (map (\<lambda>a. if ga_code a = code then a\<lparr>ga_active := True\<rparr> else a) seeded)
             else Inl (Business_Rule ''Required system ledger account is missing or has been deactivated.'')
         | None \<Rightarrow> Inl (Business_Rule ''Required system ledger account is missing or has been deactivated.''))"

section \<open>The period gate\<close>

definition blocking :: "bool \<Rightarrow> period_status \<Rightarrow> bool" where
  "blocking allow_soft_closed s = (s = CLOSED \<or> (s = SOFT_CLOSED \<and> \<not> allow_soft_closed))"

definition assert_period_allows_money_amend ::
  "gl_company \<Rightarrow> ledger \<Rightarrow> date \<Rightarrow> bool \<Rightarrow> unit res" where
  "assert_period_allows_money_amend co lg d allow_soft_closed =
    (let covers = (\<lambda>p. ap_start p \<le> d \<and> d \<le> ap_end p) in
     guard_res (blocking allow_soft_closed (lg_gst lg (d_year d, d_month d)))
       (Business_Rule ''Cannot amend money fields: GST period is closed.'') (
     guard_res (list_ex (\<lambda>p. covers p \<and> blocking allow_soft_closed (ap_status p)) (lg_periods lg))
       (Business_Rule ''Cannot amend money fields: accounting period is closed.'') (
     guard_res (gc_require_open co \<and> \<not> list_ex (\<lambda>p. covers p \<and> ap_status p = OPEN) (lg_periods lg))
       (Business_Rule ''The date is not inside an open accounting period.'')
       (Inr ()))))"

section \<open>Posting\<close>

fun contains_str :: "string \<Rightarrow> string \<Rightarrow> bool" where
  "contains_str needle [] = (needle = [])"
| "contains_str needle (c # s) = (starts_with (c # s) needle \<or> contains_str needle s)"

definition same_posting :: "posting_source \<Rightarrow> jentry \<Rightarrow> bool" where
  "same_posting src e = (je_source e = src \<and> je_status e = POSTED)"

definition normalize_line :: "jline \<Rightarrow> jline" where
  "normalize_line l = l\<lparr>jl_debit := quantize_even 2 (jl_debit l), jl_credit := quantize_even 2 (jl_credit l)\<rparr>"

definition debits :: "jline list \<Rightarrow> rat" where "debits ls = (\<Sum>l\<leftarrow>ls. jl_debit l)"

definition credits :: "jline list \<Rightarrow> rat" where "credits ls = (\<Sum>l\<leftarrow>ls. jl_credit l)"

text \<open>The check constraints of a journal line: not negative, and one side only.\<close>

definition line_allowed :: "jline \<Rightarrow> bool" where
  "line_allowed l = (0 \<le> jl_debit l \<and> 0 \<le> jl_credit l \<and>
    ((0 < jl_debit l \<and> jl_credit l = 0) \<or> (0 < jl_credit l \<and> jl_debit l = 0)))"

text \<open>\<open>post\<close> after the idempotency check: normalise, check, number and insert.\<close>

definition post_new ::
  "gl_company \<Rightarrow> date \<Rightarrow> int \<Rightarrow> ledger \<Rightarrow> posting_source \<Rightarrow> date \<Rightarrow> jline list \<Rightarrow> bool
    \<Rightarrow> (jentry option \<times> ledger) res" where
  "post_new co today new_id lg src entry_date lines allow =
    (let normalized = map normalize_line lines;
         kept = filter (\<lambda>l. jl_debit l \<noteq> 0 \<or> jl_credit l \<noteq> 0) normalized in
     if normalized \<noteq> [] \<and> kept = [] then Inr (None, lg)
     else
     guard_res (kept = [] \<or> debits kept \<noteq> credits kept)
       (Business_Rule ''Journal posting must contain balanced debit and credit lines.'') (
     guard_res (snd (snd src) \<noteq> ''REVERSE''
         \<and> list_ex (\<lambda>l. find_account ga_active (jl_account l) (lg_chart lg) = None) kept)
       (Business_Rule ''account_inactive'') (
     bind_res (assert_period_allows_money_amend co lg entry_date allow) (\<lambda>_.
     bind_res (next_number True (gc_numbering co) today (lg_series lg) ''JOURNAL_ENTRY'' None None)
       (\<lambda>(number, series).
     guard_res (number \<in> set (map je_number (lg_entries lg)) \<or> \<not> list_all line_allowed kept)
       (Runtime_Error ''IntegrityError'')
       (let e = \<lparr>je_id = new_id, je_number = number, je_source = src, je_date = entry_date,
                 je_status = POSTED, je_lines = kept, je_reversed = None\<rparr>
        in Inr (Some e, lg\<lparr>lg_entries := lg_entries lg @ [e], lg_series := series\<rparr>)))))))"

definition post ::
  "gl_company \<Rightarrow> date \<Rightarrow> int \<Rightarrow> ledger \<Rightarrow> posting_source \<Rightarrow> date \<Rightarrow> jline list \<Rightarrow> bool \<Rightarrow> bool
    \<Rightarrow> (jentry option \<times> ledger) res" where
  "post co today new_id lg src entry_date lines allow_soft_closed allow_pre_books_start =
    (if \<not> posts_to_ledger co then Inr (None, lg)
     else
     let allow = (allow_soft_closed \<or> \<not> gc_accounting_enabled co) in
     guard_res (case gc_books_start co of None \<Rightarrow> False
         | Some cutover \<Rightarrow> entry_date < cutover \<and> \<not> allow_pre_books_start
             \<and> \<not> contains_str ''OPENING'' (py_upper (snd (snd src))))
       (Business_Rule ''The date is before the books start date.'') (
     case find (same_posting src) (lg_entries lg) of
       Some e \<Rightarrow> if je_lines e \<noteq> [] then Inr (Some e, lg)
                 else post_new co today new_id (lg\<lparr>lg_entries := remove1 e (lg_entries lg)\<rparr>) src entry_date
                        lines allow
     | None \<Rightarrow> post_new co today new_id lg src entry_date lines allow))"

section \<open>Reversal\<close>

definition swap_line :: "jline \<Rightarrow> jline" where
  "swap_line l = l\<lparr>jl_debit := jl_credit l, jl_credit := jl_debit l\<rparr>"

definition reversal_source :: "int \<Rightarrow> posting_source" where
  "reversal_source i = (''JOURNAL_REVERSAL'', i, ''REVERSE'')"

definition mark_reversed :: "jentry \<Rightarrow> jentry option \<Rightarrow> jentry \<Rightarrow> jentry" where
  "mark_reversed e r x = (if je_id x = je_id e
     then x\<lparr>je_reversed := map_option je_id r, je_status := REVERSED\<rparr> else x)"

definition reverse ::
  "gl_company \<Rightarrow> date \<Rightarrow> int \<Rightarrow> ledger \<Rightarrow> jentry \<Rightarrow> date option \<Rightarrow> bool option \<Rightarrow> (jentry option \<times> ledger) res" where
  "reverse co today new_id lg e entry_date allow_soft_closed =
    guard_res (je_status e \<noteq> POSTED \<or> je_reversed e \<noteq> None)
      (Business_Rule ''Only an unreversed posted journal may be reversed.'') (
    let allow = (case allow_soft_closed of None \<Rightarrow> fst (je_source e) \<noteq> ''MANUAL_JOURNAL'' | Some b \<Rightarrow> b);
        d = (case entry_date of None \<Rightarrow> je_date e | Some d \<Rightarrow> d) in
    bind_res (post co today new_id lg (reversal_source (je_id e)) d (map swap_line (je_lines e)) allow False)
      (\<lambda>(r, lg1). Inr (r, lg1\<lparr>lg_entries := map (mark_reversed e r) (lg_entries lg1)\<rparr>)))"

section \<open>Every way the books change\<close>

text \<open>
  Postings by documents, reversals of existing entries, and administration (chart, periods, GST
  periods, number series) that leaves the entries alone.  New rows get keys of their own.
\<close>

inductive ledger_step :: "gl_company \<Rightarrow> ledger \<Rightarrow> ledger \<Rightarrow> bool" for co :: gl_company where
  posting: "post co today new_id lg src d lines soft pre = Inr (r, lg') \<Longrightarrow> fst src \<noteq> ''JOURNAL_REVERSAL'' \<Longrightarrow>
     new_id \<notin> je_id ` set (lg_entries lg) \<Longrightarrow> ledger_step co lg lg'"
| reversing: "reverse co today new_id lg e d soft = Inr (r, lg') \<Longrightarrow> e \<in> set (lg_entries lg) \<Longrightarrow>
     new_id \<notin> je_id ` set (lg_entries lg) \<Longrightarrow> ledger_step co lg lg'"
| administration: "lg_entries lg' = lg_entries lg \<Longrightarrow> ledger_step co lg lg'"

inductive ledger_reachable :: "gl_company \<Rightarrow> ledger \<Rightarrow> bool" for co :: gl_company where
  start: "lg_entries lg = [] \<Longrightarrow> ledger_reachable co lg"
| step: "ledger_reachable co lg \<Longrightarrow> ledger_step co lg lg' \<Longrightarrow> ledger_reachable co lg'"

inductive_cases ledger_stepE: "ledger_step co lg lg'"

section \<open>Facts about vouchers\<close>

interpretation paisa_even: quantizer "quantize_even 2" "1 / 100"
  using quantize_even_quantizer [of 2] by simp

lemma paisa_even_fixed: "q2 x = x \<Longrightarrow> quantize_even 2 x = x"
  by (metis paisa.on_grid paisa_even.fix_grid)

definition voucher_ok :: "jline list \<Rightarrow> bool" where
  "voucher_ok ls = (ls \<noteq> [] \<and> list_all line_allowed ls \<and> debits ls = credits ls \<and>
     list_all (\<lambda>l. normalize_line l = l) ls)"

lemma normalize_idem [simp]: "normalize_line (normalize_line l) = normalize_line l"
  by (simp add: normalize_line_def)

lemma swap_swap [simp]: "swap_line (swap_line l) = l"
  by (simp add: swap_line_def)

lemma swap_sums [simp]: "debits (map swap_line ls) = credits ls" "credits (map swap_line ls) = debits ls"
  by (simp_all add: debits_def credits_def swap_line_def comp_def)

lemma swap_normal [simp]: "normalize_line (swap_line l) = swap_line l \<longleftrightarrow> normalize_line l = l"
  by (cases l) (auto simp: normalize_line_def swap_line_def)

lemma swap_allowed [simp]: "line_allowed (swap_line l) = line_allowed l"
  by (auto simp: line_allowed_def swap_line_def)

lemma swap_voucher_ok: "voucher_ok ls \<Longrightarrow> voucher_ok (map swap_line ls)"
  by (auto simp: voucher_ok_def list_all_iff)

lemma post_new_elim:
  assumes "post_new co today i lg src d lines allow = Inr (r, lg')"
  obtains (skipped) "r = None" "lg' = lg"
    "filter (\<lambda>l. jl_debit l \<noteq> 0 \<or> jl_credit l \<noteq> 0) (map normalize_line lines) = []" "lines \<noteq> []"
  | (voucher) e where "r = Some e" "lg_entries lg' = lg_entries lg @ [e]" "voucher_ok (je_lines e)"
    "je_lines e = filter (\<lambda>l. jl_debit l \<noteq> 0 \<or> jl_credit l \<noteq> 0) (map normalize_line lines)"
    "je_id e = i" "je_source e = src" "je_status e = POSTED" "je_reversed e = None" "je_date e = d"
    "je_number e \<notin> je_number ` set (lg_entries lg)"
    "assert_period_allows_money_amend co lg d allow = Inr ()"
proof -
  let ?kept = "filter (\<lambda>l. jl_debit l \<noteq> 0 \<or> jl_credit l \<noteq> 0) (map normalize_line lines)"
  show thesis
  proof (cases "lines \<noteq> [] \<and> ?kept = []")
    case True
    then have "r = None" "lg' = lg" using assms by (auto simp: post_new_def Let_def)
    moreover have "?kept = []" "lines \<noteq> []" using True by auto
    ultimately show thesis by (rule skipped)
  next
    case False
    then obtain number series where *: "?kept \<noteq> []" "debits ?kept = credits ?kept" "list_all line_allowed ?kept"
      "number \<notin> je_number ` set (lg_entries lg)" "assert_period_allows_money_amend co lg d allow = Inr ()"
      "r = Some \<lparr>je_id = i, je_number = number, je_source = src, je_date = d,
                 je_status = POSTED, je_lines = ?kept, je_reversed = None\<rparr>"
      "lg' = lg\<lparr>lg_entries := lg_entries lg @ [the r], lg_series := series\<rparr>"
      using assms unfolding post_new_def Let_def if_not_P [OF False [simplified map_is_Nil_conv [symmetric]]]
      by (auto simp: guard_res_Inr_iff bind_res_Inr_iff)
    show thesis by (rule voucher [OF *(6)]) (use * in \<open>auto simp: voucher_ok_def list_all_iff\<close>)
  qed
qed

section \<open>The books balance\<close>

definition posted_sources :: "jentry list \<Rightarrow> posting_source list" where
  "posted_sources es = map je_source (filter (\<lambda>e. je_status e = POSTED) es)"

text \<open>
  A reversed entry has its counter-entry, with the sides swapped; a counter-entry's original is reversed.
\<close>

definition reversal_ok :: "jentry list \<Rightarrow> jentry \<Rightarrow> bool" where
  "reversal_ok es e = (je_status e = REVERSED \<longrightarrow>
     (\<exists>r\<in>set es. je_reversed e = Some (je_id r) \<and> je_source r = reversal_source (je_id e)
        \<and> je_lines r = map swap_line (je_lines e)))"

definition reverses_ok :: "jentry list \<Rightarrow> jentry \<Rightarrow> bool" where
  "reverses_ok es r = (fst (je_source r) = ''JOURNAL_REVERSAL'' \<longrightarrow>
     (\<exists>e\<in>set es. je_source r = reversal_source (je_id e) \<and> je_status e = REVERSED))"

definition books_ok :: "jentry list \<Rightarrow> bool" where
  "books_ok es = ((\<forall>e\<in>set es. voucher_ok (je_lines e) \<and> (je_status e = POSTED \<or> je_status e = REVERSED)
       \<and> (je_status e = POSTED \<longrightarrow> je_reversed e = None) \<and> reversal_ok es e \<and> reverses_ok es e) \<and>
     distinct (map je_id es) \<and> distinct (map je_number es) \<and> distinct (posted_sources es))"

lemma find_same_posting:
  "find (same_posting src) es = None \<longleftrightarrow> src \<notin> set (posted_sources es)"
  by (auto simp: find_None_iff same_posting_def posted_sources_def)

lemma books_ok_append:
  assumes ok: "books_ok es" and e: "voucher_ok (je_lines e)" "je_status e = POSTED" "je_reversed e = None"
    "je_id e \<notin> je_id ` set es" "je_number e \<notin> je_number ` set es" "je_source e \<notin> set (posted_sources es)"
    "reverses_ok es e"
  shows "books_ok (es @ [e])"
proof -
  have "reversal_ok (es @ [e]) x" "reverses_ok (es @ [e]) x" if "x \<in> set es" for x
    using ok that by (auto simp: books_ok_def reversal_ok_def reverses_ok_def)
  moreover have "reversal_ok (es @ [e]) e" "reverses_ok (es @ [e]) e"
    using e(2,7) by (auto simp: reversal_ok_def reverses_ok_def)
  ultimately show ?thesis using ok e by (auto simp: books_ok_def posted_sources_def)
qed

lemma post_elim:
  assumes p: "post co today i lg src d lines soft pre = Inr (r, lg')" and ok: "books_ok (lg_entries lg)"
  obtains (skipped) "r = None" "lg_entries lg' = lg_entries lg"
    "\<not> posts_to_ledger co \<or> filter (\<lambda>l. jl_debit l \<noteq> 0 \<or> jl_credit l \<noteq> 0) (map normalize_line lines) = []"
  | (existing) e where "r = Some e" "lg' = lg" "e \<in> set (lg_entries lg)" "same_posting src e"
  | (voucher) e where "r = Some e" "lg_entries lg' = lg_entries lg @ [e]" "voucher_ok (je_lines e)"
    "je_lines e = filter (\<lambda>l. jl_debit l \<noteq> 0 \<or> jl_credit l \<noteq> 0) (map normalize_line lines)"
    "je_id e = i" "je_source e = src" "je_status e = POSTED" "je_reversed e = None" "je_date e = d"
    "je_number e \<notin> je_number ` set (lg_entries lg)" "src \<notin> set (posted_sources (lg_entries lg))"
proof (cases "posts_to_ledger co")
  case False
  then have "r = None" "lg' = lg" using p by (auto simp: post_def)
  then show ?thesis using skipped [OF \<open>r = None\<close>] False by simp
next
  case True
  show ?thesis
  proof (cases "find (same_posting src) (lg_entries lg)")
    case None
    then have "post_new co today i lg src d lines (soft \<or> \<not> gc_accounting_enabled co) = Inr (r, lg')"
      using p True by (auto simp: post_def Let_def guard_res_Inr_iff)
    then show ?thesis
    proof (cases rule: post_new_elim)
      case skipped
      then show ?thesis using that(1) by simp
    next
      case (voucher e)
      then show ?thesis using that(3) None [unfolded find_same_posting] by blast
    qed
  next
    case (Some e)
    then have e: "e \<in> set (lg_entries lg)" "same_posting src e"
      by (auto simp: find_Some_iff)
    then have "je_lines e \<noteq> []" using ok by (auto simp: books_ok_def voucher_ok_def)
    then have "r = Some e" "lg' = lg"
      using p True Some by (auto simp: post_def Let_def guard_res_Inr_iff)
    then show ?thesis using existing e by blast
  qed
qed

lemma normal_kept:
  assumes "voucher_ok ls"
  shows "filter (\<lambda>l. jl_debit l \<noteq> 0 \<or> jl_credit l \<noteq> 0) (map normalize_line ls) = ls"
proof -
  have "map normalize_line ls = ls" using assms by (simp add: voucher_ok_def list_all_iff map_idI)
  moreover have "filter (\<lambda>l. jl_debit l \<noteq> 0 \<or> jl_credit l \<noteq> 0) ls = ls"
    using assms by (auto simp: voucher_ok_def list_all_iff line_allowed_def filter_id_conv)
  ultimately show ?thesis by simp
qed

lemma mark_reversed_simps [simp]:
  "je_id (mark_reversed e r x) = je_id x" "je_number (mark_reversed e r x) = je_number x"
  "je_source (mark_reversed e r x) = je_source x" "je_lines (mark_reversed e r x) = je_lines x"
  "je_date (mark_reversed e r x) = je_date x"
  by (simp_all add: mark_reversed_def)

lemma mark_reversed_status:
  "je_status (mark_reversed e r x) = (if je_id x = je_id e then REVERSED else je_status x)"
  "je_reversed (mark_reversed e r x) = (if je_id x = je_id e then map_option je_id r else je_reversed x)"
  by (simp_all add: mark_reversed_def)

text \<open>Reversing: the counter-entry is new, and the marked entries are still in order.\<close>

lemma reverse_elim:
  assumes rv: "reverse co today i lg e d soft = Inr (r, lg')" and ok: "books_ok (lg_entries lg)"
    and e: "e \<in> set (lg_entries lg)" and "posts_to_ledger co"
  obtains x where "r = Some x" "lg_entries lg' = map (mark_reversed e r) (lg_entries lg @ [x])"
    "je_lines x = map swap_line (je_lines e)" "je_source x = reversal_source (je_id e)" "je_id x = i"
    "je_status x = POSTED" "je_reversed x = None" "je_status e = POSTED" "voucher_ok (je_lines x)"
    "je_date x = (case d of None \<Rightarrow> je_date e | Some d \<Rightarrow> d)" "je_number x \<notin> je_number ` set (lg_entries lg)"
    "je_source x \<notin> set (posted_sources (lg_entries lg))"
proof -
  let ?ls = "map swap_line (je_lines e)"
  obtain lg1 soft' where p: "post co today i lg (reversal_source (je_id e))
      (case d of None \<Rightarrow> je_date e | Some d \<Rightarrow> d) ?ls soft' False = Inr (r, lg1)"
    and l: "lg' = lg1\<lparr>lg_entries := map (mark_reversed e r) (lg_entries lg1)\<rparr>" and st: "je_status e = POSTED"
    using rv by (auto simp: reverse_def Let_def guard_res_Inr_iff bind_res_Inr_iff)
  have vo: "voucher_ok (je_lines e)" using ok e by (auto simp: books_ok_def)
  note kept = normal_kept [OF swap_voucher_ok [OF vo]]
  show thesis
  proof (rule post_elim [OF p ok], goal_cases)
    case 1
    then show thesis using assms(4) kept vo by (auto simp: voucher_ok_def)
  next
    case (2 x)
    then obtain y where "y \<in> set (lg_entries lg)" "je_id y = je_id e" "je_status y = REVERSED"
      using ok by (force simp: books_ok_def reverses_ok_def same_posting_def reversal_source_def)
    then have "y = e" using ok e by (auto simp: books_ok_def distinct_map inj_on_def)
    then show thesis using \<open>je_status y = REVERSED\<close> st by simp
  next
    case (3 x)
    then show thesis using that [of x] l st kept by simp
  qed
qed

lemma books_ok_reverse:
  assumes rv: "reverse co today i lg e d soft = Inr (r, lg')" and ok: "books_ok (lg_entries lg)"
    and e: "e \<in> set (lg_entries lg)" and "posts_to_ledger co" and fresh: "i \<notin> je_id ` set (lg_entries lg)"
  shows "books_ok (lg_entries lg')"
proof (rule reverse_elim [OF rv ok e assms(4)], goal_cases)
  case (1 x)
  let ?es = "lg_entries lg @ [x]"
  let ?m = "mark_reversed e r"
  have ne: "je_id x \<noteq> je_id e" using 1(5) fresh e by auto
  have one: "y = e" if "y \<in> set (lg_entries lg)" "je_id y = je_id e" for y
    using that ok e by (auto simp: books_ok_def distinct_map inj_on_def)
  have rev: "reversal_ok (map ?m ?es) (?m y)" if "y \<in> set ?es" for y
  proof (cases "je_id y = je_id e")
    case True
    then have "y = e" using that one ne by auto
    then show ?thesis using 1(1,3,4) by (auto simp: reversal_ok_def mark_reversed_status)
  next
    case False
    then show ?thesis using that ok 1(6) 1(7)
      by (fastforce simp: reversal_ok_def mark_reversed_status books_ok_def)
  qed
  have cnt: "reverses_ok (map ?m ?es) (?m y)" if "y \<in> set ?es" for y
  proof (cases "y = x")
    case True
    then show ?thesis using e 1(4) by (auto simp: reverses_ok_def mark_reversed_status intro!: bexI [of _ e])
  next
    case False
    then have y: "y \<in> set (lg_entries lg)" using that by simp
    show ?thesis unfolding reverses_ok_def
    proof
      assume "fst (je_source (?m y)) = ''JOURNAL_REVERSAL''"
      then obtain z where "z \<in> set (lg_entries lg)" "je_source y = reversal_source (je_id z)" "je_status z = REVERSED"
        using ok y by (auto simp: books_ok_def reverses_ok_def)
      then show "\<exists>z\<in>set (map ?m ?es). je_source (?m y) = reversal_source (je_id z) \<and> je_status z = REVERSED"
        by (intro bexI [of _ "?m z"]) (simp_all add: mark_reversed_status)
    qed
  qed
  have rest: "voucher_ok (je_lines (?m y)) \<and> (je_status (?m y) = POSTED \<or> je_status (?m y) = REVERSED)
      \<and> (je_status (?m y) = POSTED \<longrightarrow> je_reversed (?m y) = None)" if "y \<in> set ?es" for y
    using that ok 1(6,7,9) by (auto simp: mark_reversed_status books_ok_def)
  have "posted_sources (map ?m es) = map je_source (filter (\<lambda>y. je_id y \<noteq> je_id e) (filter (\<lambda>y. je_status y = POSTED) es))" for es
    unfolding posted_sources_def by (induction es) (auto simp: mark_reversed_status)
  moreover have "distinct (posted_sources ?es)"
    using ok 1(6,12) by (auto simp: books_ok_def posted_sources_def)
  ultimately have src: "distinct (posted_sources (map ?m ?es))"
    by (metis distinct_map_filter posted_sources_def)
  show ?case unfolding books_ok_def 1(2)
    using rest rev cnt src ok 1(5,11) fresh by (auto simp: books_ok_def comp_def)
qed

lemma books_ok_reachable:
  assumes "ledger_reachable co lg" and "posts_to_ledger co"
  shows "books_ok (lg_entries lg)"
  using assms(1)
proof (induction rule: ledger_reachable.induct)
  case (start lg)
  then show ?case by (simp add: books_ok_def posted_sources_def)
next
  case (step lg lg')
  from step.hyps(2) show ?case
  proof (cases rule: ledger_step.cases)
    case (posting today i src d lines soft pre r)
    show ?thesis
      by (rule post_elim [OF posting(1) step.IH])
        (use step.IH posting(2,3) in \<open>auto intro!: books_ok_append simp: reverses_ok_def\<close>)
  next
    case (reversing today i e d soft r)
    show ?thesis by (rule books_ok_reverse [OF reversing(1) step.IH reversing(2) assms(2) reversing(3)])
  next
    case administration
    then show ?thesis using step.IH by simp
  qed
qed

section \<open>Balances\<close>

text \<open>
  The abstract ledger is the balance of every account (debit less credit over the entries the reports
  count); an abstract posting adds the net amounts of its lines.
\<close>

definition net :: "jline list \<Rightarrow> string \<Rightarrow> rat" where
  "net ls a = (\<Sum>l\<leftarrow>filter (\<lambda>l. jl_account l = a) ls. jl_debit l - jl_credit l)"

definition balances :: "ledger \<Rightarrow> string \<Rightarrow> rat" where
  "balances lg a = (\<Sum>e\<leftarrow>filter (\<lambda>e. je_status e = POSTED \<or> je_status e = REVERSED) (lg_entries lg). net (je_lines e) a)"

definition apply_voucher :: "jline list \<Rightarrow> (string \<Rightarrow> rat) \<Rightarrow> string \<Rightarrow> rat" where
  "apply_voucher ls bal a = bal a + net ls a"

lemma net_swap [simp]: "net (map swap_line ls) a = - net ls a"
  unfolding net_def by (induction ls) (auto simp: swap_line_def)

lemma net_nonzero: "net (filter (\<lambda>l. jl_debit l \<noteq> 0 \<or> jl_credit l \<noteq> 0) ls) a = net ls a"
  unfolding net_def by (induction ls) auto

lemma books_balances:
  assumes "books_ok (lg_entries lg)"
  shows "balances lg a = (\<Sum>e\<leftarrow>lg_entries lg. net (je_lines e) a)"
proof -
  have "filter (\<lambda>e. je_status e = POSTED \<or> je_status e = REVERSED) (lg_entries lg) = lg_entries lg"
    using assms by (auto simp: books_ok_def filter_id_conv)
  then show ?thesis by (simp add: balances_def)
qed

lemma sum_net:
  assumes "set (map jl_account ls) \<subseteq> set as" and "distinct as"
  shows "(\<Sum>a\<leftarrow>as. net ls a) = debits ls - credits ls"
  using assms
proof (induction ls)
  case Nil
  then show ?case by (simp add: net_def debits_def credits_def)
next
  case (Cons l ls)
  have n: "net (l # ls) a = (if a = jl_account l then jl_debit l - jl_credit l else 0) + net ls a" for a
    by (simp add: net_def)
  have one: "distinct bs \<Longrightarrow> (\<Sum>a\<leftarrow>bs. if a = x then c else 0) = (if x \<in> set bs then c else (0::rat))" for x c and bs :: "string list"
    by (induction bs) auto
  have "(\<Sum>a\<leftarrow>as. net (l # ls) a) = (\<Sum>a\<leftarrow>as. if a = jl_account l then jl_debit l - jl_credit l else 0) + (\<Sum>a\<leftarrow>as. net ls a)"
    unfolding n by (rule sum_list_addf)
  also have "\<dots> = (jl_debit l - jl_credit l) + (debits ls - credits ls)"
    using Cons one [OF Cons.prems(2)] by simp
  finally show ?case by (simp add: debits_def credits_def)
qed

lemma sum_lists_swap: "(\<Sum>a\<leftarrow>as. \<Sum>e\<leftarrow>es. f e a) = (\<Sum>e\<leftarrow>es. \<Sum>a\<leftarrow>as. (f e a :: rat))"
  by (induction as) (simp_all add: sum_list_addf)

text \<open>
  C1. The books always balance: after any sequence of postings, reversals and administration every
  entry has allowed lines whose debits equal its credits, no source is posted twice, voucher numbers
  are unique, and the balances of all accounts add up to zero.
\<close>

theorem books_always_balance:
  assumes "ledger_reachable co lg" and "posts_to_ledger co"
  shows "(\<forall>e\<in>set (lg_entries lg). je_lines e \<noteq> [] \<and> list_all line_allowed (je_lines e) \<and>
      debits (je_lines e) = credits (je_lines e)) \<and>
    distinct (posted_sources (lg_entries lg)) \<and> distinct (map je_number (lg_entries lg)) \<and>
    (\<Sum>a\<leftarrow>remdups (concat (map (\<lambda>e. map jl_account (je_lines e)) (lg_entries lg))). balances lg a) = 0"
proof -
  note ok = books_ok_reachable [OF assms]
  let ?as = "remdups (concat (map (\<lambda>e. map jl_account (je_lines e)) (lg_entries lg)))"
  have "(\<Sum>a\<leftarrow>?as. balances lg a) = (\<Sum>e\<leftarrow>lg_entries lg. \<Sum>a\<leftarrow>?as. net (je_lines e) a)"
    unfolding books_balances [OF ok] by (rule sum_lists_swap)
  also have "map (\<lambda>e. \<Sum>a\<leftarrow>?as. net (je_lines e) a) (lg_entries lg) = map (\<lambda>_. 0) (lg_entries lg)"
  proof (rule map_cong [OF refl])
    fix e assume e: "e \<in> set (lg_entries lg)"
    have "(\<Sum>a\<leftarrow>?as. net (je_lines e) a) = debits (je_lines e) - credits (je_lines e)"
      by (rule sum_net) (use e in auto)
    then show "(\<Sum>a\<leftarrow>?as. net (je_lines e) a) = 0" using ok e by (simp add: books_ok_def voucher_ok_def)
  qed
  finally show ?thesis using ok by (auto simp: books_ok_def voucher_ok_def)
qed

lemma posting_balances:
  assumes "ledger_reachable co lg" and "posts_to_ledger co"
    and "post co today i lg src d lines soft pre = Inr (r, lg')"
  shows "if src \<in> set (posted_sources (lg_entries lg)) then balances lg' = balances lg
    else balances lg' = apply_voucher (map normalize_line lines) (balances lg)"
proof -
  note ok = books_ok_reachable [OF assms(1,2)]
  show ?thesis
  proof (rule post_elim [OF assms(3) ok], goal_cases)
    case 1
    then have "net (map normalize_line lines) a = 0" for a
      using net_nonzero [of "map normalize_line lines" a] assms(2) by (simp add: net_def)
    then show ?case using 1 by (auto simp: balances_def apply_voucher_def)
  next
    case (2 e)
    then show ?case by (auto simp: same_posting_def posted_sources_def)
  next
    case (3 e)
    have "net (je_lines e) a = net (map normalize_line lines) a" for a
      unfolding 3(4) by (rule net_nonzero)
    then have "balances lg' a = apply_voucher (map normalize_line lines) (balances lg) a" for a
      using 3(2,7) by (simp add: balances_def apply_voucher_def)
    then show ?case using 3(11) by (simp add: fun_eq_iff)
  qed
qed

text \<open>
  C19. Posting refines the abstract ledger: a new entry changes the balances by exactly the net amounts
  of the lines it was given, in paise; posting the same source again returns the entry and changes
  nothing.
\<close>

theorem posting_refines_balances:
  assumes "ledger_reachable co lg" and "posts_to_ledger co"
    and "post co today i lg src d lines soft pre = Inr (r, lg')"
  shows "if src \<in> set (posted_sources (lg_entries lg)) then balances lg' = balances lg
    else balances lg' = apply_voucher (map normalize_line lines) (balances lg)"
  by (rule posting_balances [OF assms])

text \<open>The effect of a reversal on reachable books, entry by entry and on the balances.\<close>

lemma reverse_effect:
  assumes reach: "ledger_reachable co lg" "posts_to_ledger co" and e: "e \<in> set (lg_entries lg)"
    and rv: "reverse co today i lg e d soft = Inr (r, lg')" and i: "i \<notin> je_id ` set (lg_entries lg)"
  obtains x where "r = Some x" "lg_entries lg' = map (mark_reversed e r) (lg_entries lg @ [x])"
    "je_lines x = map swap_line (je_lines e)" "je_id x = i" "je_source x = reversal_source (je_id e)"
    "je_date x = (case d of None \<Rightarrow> je_date e | Some d \<Rightarrow> d)" "ledger_reachable co lg'"
    "balances lg' = apply_voucher (map swap_line (je_lines e)) (balances lg)"
proof (rule reverse_elim [OF rv books_ok_reachable [OF reach] e reach(2)], goal_cases)
  case (1 x)
  note ok = books_ok_reachable [OF reach]
  have ok': "books_ok (lg_entries lg')" by (rule books_ok_reverse [OF rv ok e reach(2) i])
  have "balances lg' a = balances lg a + net (je_lines x) a" for a
    unfolding books_balances [OF ok'] books_balances [OF ok] 1(3) by (simp add: comp_def)
  then have bal: "balances lg' = apply_voucher (map swap_line (je_lines e)) (balances lg)"
    using 1(4) by (simp add: apply_voucher_def fun_eq_iff)
  have "ledger_reachable co lg'"
    by (rule ledger_reachable.step [OF reach(1)]) (rule ledger_step.reversing [OF rv e i])
  then show thesis using 1(1) [of x] 1(2-) bal by simp
qed

text \<open>
  C20. A reversal undoes its entry: it posts a counter-entry with the sides swapped, dated like the
  original unless a date is given, marks the original reversed, and leaves every balance as it was
  before the original.
\<close>

theorem reversal_cancels:
  assumes "ledger_reachable co lg" and "posts_to_ledger co" and "e \<in> set (lg_entries lg)"
    and "reverse co today i lg e d soft = Inr (r, lg')" and "i \<notin> je_id ` set (lg_entries lg)"
  shows "\<exists>x. r = Some x \<and> je_lines x = map swap_line (je_lines e) \<and>
    je_date x = (case d of None \<Rightarrow> je_date e | Some d \<Rightarrow> d) \<and>
    balances lg' = apply_voucher (map swap_line (je_lines e)) (balances lg) \<and>
    (\<forall>a. net (je_lines e) a + net (je_lines x) a = 0) \<and>
    list_ex (\<lambda>y. je_id y = je_id e \<and> je_status y = REVERSED \<and> je_reversed y = Some i) (lg_entries lg')"
proof (rule reverse_effect [OF assms(1-5)], goal_cases)
  case (1 x)
  have "list_ex (\<lambda>y. je_id y = je_id e \<and> je_status y = REVERSED \<and> je_reversed y = Some i) (lg_entries lg')"
    unfolding list_ex_iff 1(2) using assms(3) 1(1,4)
    by (intro bexI [of _ "mark_reversed e r e"]) (auto simp: mark_reversed_status)
  then show ?case using 1(1,3,6,8) by (intro exI [of _ x]) simp
qed

text \<open>
  What stops an entry of date \<open>d\<close>, in the words of the message: the GST month of the date, an accounting
  period around it, or no open period around it where the company asks for one.  A soft-closed month or
  period stops it unless the caller unwinds a document (\<open>soft\<close>) or the company does not see its books.
\<close>

definition lock_reason :: "gl_company \<Rightarrow> ledger \<Rightarrow> date \<Rightarrow> bool \<Rightarrow> string option" where
  "lock_reason co lg d soft =
    (let stops = (\<lambda>s. s = CLOSED \<or> (s = SOFT_CLOSED \<and> \<not> soft \<and> gc_accounting_enabled co));
         around = filter (\<lambda>p. ap_start p \<le> d \<and> d \<le> ap_end p) (lg_periods lg) in
     if stops (lg_gst lg (d_year d, d_month d)) then Some ''Cannot amend money fields: GST period is closed.''
     else if \<exists>p\<in>set around. stops (ap_status p)
     then Some ''Cannot amend money fields: accounting period is closed.''
     else if gc_require_open co \<and> OPEN \<notin> ap_status ` set around
     then Some ''The date is not inside an open accounting period.''
     else None)"

definition before_books :: "gl_company \<Rightarrow> posting_source \<Rightarrow> date \<Rightarrow> bool \<Rightarrow> bool" where
  "before_books co src d pre =
    (\<not> pre \<and> \<not> contains_str ''OPENING'' (py_upper (snd (snd src))) \<and> (\<exists>c. gc_books_start co = Some c \<and> d < c))"

lemma lock_reason_blocks:
  assumes "lock_reason co lg d soft = Some why"
  shows "assert_period_allows_money_amend co lg d (soft \<or> \<not> gc_accounting_enabled co) = Inl (Business_Rule why)"
proof -
  let ?stops = "blocking (soft \<or> \<not> gc_accounting_enabled co)"
  have stops: "(\<lambda>s. s = CLOSED \<or> (s = SOFT_CLOSED \<and> \<not> soft \<and> gc_accounting_enabled co)) = ?stops"
    by (auto simp: blocking_def fun_eq_iff)
  let ?around = "\<lambda>p. ap_start p \<le> d \<and> d \<le> ap_end p"
  have shut: "(\<exists>p\<in>set (filter ?around (lg_periods lg)). ?stops (ap_status p))
      = list_ex (\<lambda>p. ?around p \<and> ?stops (ap_status p)) (lg_periods lg)"
    and none: "(OPEN \<in> ap_status ` set (filter ?around (lg_periods lg)))
      = list_ex (\<lambda>p. ?around p \<and> ap_status p = OPEN) (lg_periods lg)"
    by (auto simp: list_ex_iff image_iff)
  from assms show ?thesis
    unfolding lock_reason_def assert_period_allows_money_amend_def Let_def stops shut none
    by (simp add: guard_res_def split: if_splits)
qed

lemma post_new_locked:
  assumes "assert_period_allows_money_amend co lg d allow = Inl e"
    and "filter (\<lambda>l. jl_debit l \<noteq> 0 \<or> jl_credit l \<noteq> 0) (map normalize_line lines) = kept" and "kept \<noteq> []"
  shows "post_new co today i lg src d lines allow = Inl (
    if debits kept \<noteq> credits kept
    then Business_Rule ''Journal posting must contain balanced debit and credit lines.''
    else if snd (snd src) \<noteq> ''REVERSE'' \<and> list_ex (\<lambda>l. find_account ga_active (jl_account l) (lg_chart lg) = None) kept
    then Business_Rule ''account_inactive''
    else e)"
  using assms(1,3) unfolding post_new_def Let_def assms(2) by (simp add: guard_res_def)

text \<open>
  C29. Locks refuse, with the error of the lock.  Take a posting whose source has no posted entry and
  that has an amount to book, dated before the books start (and not an opening entry), in a closed GST
  month or a closed accounting period, in a soft-closed one unless the caller unwinds a document or the
  company does not see its books, or outside every open period when the company asks for one.  It always
  raises: before the books start that error, whatever the lines; else the error of lines that do not
  balance, or of an inactive account, if they have one; and for a sound voucher the message of the first
  of the locks, the GST month before the accounting period.
\<close>

theorem locked_dates_refuse:
  assumes "posts_to_ledger co" and "src \<notin> set (posted_sources (lg_entries lg))"
    and "filter (\<lambda>l. jl_debit l \<noteq> 0 \<or> jl_credit l \<noteq> 0) (map normalize_line lines) = kept" and "kept \<noteq> []"
    and "before_books co src d pre \<or> lock_reason co lg d soft = Some why"
  shows "post co today i lg src d lines soft pre = Inl (Business_Rule (
    if before_books co src d pre then ''The date is before the books start date.''
    else if debits kept \<noteq> credits kept
    then ''Journal posting must contain balanced debit and credit lines.''
    else if snd (snd src) \<noteq> ''REVERSE'' \<and> list_ex (\<lambda>l. find_account ga_active (jl_account l) (lg_chart lg) = None) kept
    then ''account_inactive''
    else why))"
proof -
  have f: "find (same_posting src) (lg_entries lg) = None" using assms(2) by (simp add: find_same_posting)
  have before: "(case gc_books_start co of None \<Rightarrow> False
      | Some c \<Rightarrow> d < c \<and> \<not> pre \<and> \<not> contains_str ''OPENING'' (py_upper (snd (snd src)))) = before_books co src d pre"
    by (auto simp: before_books_def split: option.splits)
  show ?thesis
  proof (cases "before_books co src d pre")
    case True
    then show ?thesis using assms(1) unfolding post_def before by (simp add: Let_def guard_res_def)
  next
    case False
    then have "lock_reason co lg d soft = Some why" using assms(5) by blast
    from post_new_locked [OF lock_reason_blocks [OF this] assms(3,4)] show ?thesis
      using assms(1) f False unfolding post_def before by (simp add: Let_def guard_res_def)
  qed
qed

section \<open>A worked example\<close>

definition example_books :: gl_company where
  "example_books = \<lparr>gc_accounting_enabled = True, gc_post_ledger = True, gc_books_start = Some (Date 2025 4 1),
     gc_require_open = False, gc_numbering = plain_company\<rparr>"

definition new_ledger :: ledger where
  "new_ledger = \<lparr>lg_chart = seed_chart_of_accounts [], lg_periods = [\<lparr>ap_start = Date 2025 4 1,
       ap_end = Date 2025 4 30, ap_status = CLOSED\<rparr>], lg_gst = (\<lambda>_. OPEN), lg_entries = [], lg_series = []\<rparr>"

abbreviation side :: "string \<Rightarrow> rat \<Rightarrow> rat \<Rightarrow> jline" where
  "side a dr cr \<equiv> \<lparr>jl_account = a, jl_debit = dr, jl_credit = cr, jl_cost_center = None, jl_customer = None,
     jl_supplier = None\<rparr>"

definition cash_sale :: "jline list" where
  "cash_sale = [side ''1100'' 118 0, side ''4100'' 0 100, side ''2210'' 0 9, side ''2220'' 0 9]"

definition cash_sale_entry :: jentry where
  "cash_sale_entry = \<lparr>je_id = 1, je_number = ''JV-00001'', je_source = (''SALES_INVOICE'', 5, ''COMPLETE''),
     je_date = Date 2025 5 2, je_status = POSTED, je_lines = cash_sale, je_reversed = None\<rparr>"

definition sold_ledger :: ledger where
  "sold_ledger = new_ledger\<lparr>lg_entries := [cash_sale_entry],
     lg_series := [\<lparr>sr_key = (''JOURNAL_ENTRY'', [], []), sr_prefix = ''JV'', sr_next = 2, sr_padding = 5\<rparr>]\<rparr>"

lemma cash_sale_posts:
  "post example_books (Date 2025 5 2) 1 new_ledger (''SALES_INVOICE'', 5, ''COMPLETE'') (Date 2025 5 2) cash_sale
     False False = Inr (Some cash_sale_entry, sold_ledger)"
proof -
  have n: "map normalize_line cash_sale = cash_sale"
    by (simp add: cash_sale_def normalize_line_def quantize_even_def round_half_even_def)
  have a: "assert_period_allows_money_amend example_books new_ledger (Date 2025 5 2) False = Inr ()" by code_simp
  have k: "next_number True plain_company (Date 2025 5 2) [] ''JOURNAL_ENTRY'' None None
    = Inr (''JV-00001'', [\<lparr>sr_key = (''JOURNAL_ENTRY'', [], []), sr_prefix = ''JV'', sr_next = 2, sr_padding = 5\<rparr>])"
    by code_simp
  have act: "\<not> list_ex (\<lambda>l. find_account ga_active (jl_account l) (lg_chart new_ledger) = None) cash_sale" by code_simp
  have kept: "filter (\<lambda>l. jl_debit l \<noteq> 0 \<or> jl_credit l \<noteq> 0) cash_sale = cash_sale" by (simp add: cash_sale_def)
  have bal: "debits cash_sale = credits cash_sale" "cash_sale \<noteq> []" "list_all line_allowed cash_sale"
    by (simp_all add: cash_sale_def debits_def credits_def line_allowed_def)
  have "post_new example_books (Date 2025 5 2) 1 new_ledger (''SALES_INVOICE'', 5, ''COMPLETE'') (Date 2025 5 2)
      cash_sale False = Inr (Some cash_sale_entry, sold_ledger)"
    unfolding post_new_def Let_def n kept using a k act bal
    by (simp add: guard_res_def example_books_def new_ledger_def sold_ledger_def cash_sale_entry_def)
  then show ?thesis
    by (simp add: post_def Let_def guard_res_def example_books_def posts_to_ledger_def new_ledger_def
        less_date_def less_eq_date_def)
qed

lemma sold_reachable: "ledger_reachable example_books sold_ledger"
proof -
  have "ledger_reachable example_books new_ledger" by (rule ledger_reachable.start) (simp add: new_ledger_def)
  moreover have "ledger_step example_books new_ledger sold_ledger"
    by (rule ledger_step.posting [OF cash_sale_posts]) (simp_all add: new_ledger_def)
  ultimately show ?thesis by (rule ledger_reachable.step)
qed

theorem books_always_balance_witness:
  "ledger_reachable example_books sold_ledger \<and> posts_to_ledger example_books \<and>
    posted_sources (lg_entries sold_ledger) \<noteq> [] \<and> distinct (map je_number (lg_entries sold_ledger))"
  using books_always_balance [OF sold_reachable] sold_reachable
  by (simp add: example_books_def posts_to_ledger_def sold_ledger_def posted_sources_def cash_sale_entry_def)

theorem posting_refines_balances_witness: "balances sold_ledger ''1100'' = 118"
proof -
  have r: "ledger_reachable example_books new_ledger" by (rule ledger_reachable.start) (simp add: new_ledger_def)
  have p: "posts_to_ledger example_books" by (simp add: example_books_def posts_to_ledger_def)
  have "balances sold_ledger = apply_voucher (map normalize_line cash_sale) (balances new_ledger)"
    using posting_refines_balances [OF r p cash_sale_posts] by (simp add: new_ledger_def posted_sources_def)
  then show ?thesis
    by (simp add: apply_voucher_def balances_def new_ledger_def net_def cash_sale_def normalize_line_def
        quantize_even_def round_half_even_def)
qed

theorem reversal_cancels_witness:
  "\<exists>r lg'. reverse example_books (Date 2025 6 1) 2 sold_ledger cash_sale_entry None None = Inr (r, lg') \<and>
    balances lg' ''1100'' = 0"
proof -
  have p: "posts_to_ledger example_books" by (simp add: example_books_def posts_to_ledger_def)
  have "\<exists>r lg'. reverse example_books (Date 2025 6 1) 2 sold_ledger cash_sale_entry None None = Inr (r, lg')"
  proof -
    have "(case reverse example_books (Date 2025 6 1) 2 sold_ledger cash_sale_entry None None of Inr _ \<Rightarrow> True | Inl _ \<Rightarrow> False)"
      by code_simp
    then show ?thesis by (auto split: sum.splits)
  qed
  then obtain r lg' where rv: "reverse example_books (Date 2025 6 1) 2 sold_ledger cash_sale_entry None None = Inr (r, lg')"
    by blast
  have "balances lg' = apply_voucher (map swap_line cash_sale) (balances sold_ledger)"
    using reversal_cancels [OF sold_reachable p _ rv] by (auto simp: sold_ledger_def cash_sale_entry_def)
  then have "balances lg' ''1100'' = 0"
    by (simp add: apply_voucher_def balances_def sold_ledger_def cash_sale_entry_def net_def cash_sale_def swap_line_def)
  then show ?thesis using rv by blast
qed

theorem locked_dates_refuse_witness:
  "post example_books (Date 2025 5 2) 1 new_ledger (''SALES_INVOICE'', 5, ''COMPLETE'') (Date 2025 4 2) cash_sale
     False False = Inl (Business_Rule ''Cannot amend money fields: accounting period is closed.'')"
proof -
  have n: "map normalize_line cash_sale = cash_sale"
    by (simp add: cash_sale_def normalize_line_def quantize_even_def round_half_even_def)
  have kept: "filter (\<lambda>l. jl_debit l \<noteq> 0 \<or> jl_credit l \<noteq> 0) (map normalize_line cash_sale) = cash_sale"
    unfolding n by (simp add: cash_sale_def)
  have act: "\<not> list_ex (\<lambda>l. find_account ga_active (jl_account l) (lg_chart new_ledger) = None) cash_sale" by code_simp
  have ok: "\<not> before_books example_books (''SALES_INVOICE'', 5, ''COMPLETE'') (Date 2025 4 2) False"
    "debits cash_sale = credits cash_sale" "cash_sale \<noteq> []"
    by (simp_all add: before_books_def example_books_def less_date_def less_eq_date_def cash_sale_def debits_def credits_def)
  have "lock_reason example_books new_ledger (Date 2025 4 2) False
      = Some ''Cannot amend money fields: accounting period is closed.''"
    by (simp add: lock_reason_def example_books_def new_ledger_def less_eq_date_def)
  then show ?thesis
    using locked_dates_refuse [OF _ _ kept ok(3), of example_books _ new_ledger] ok act
    by (simp add: example_books_def posts_to_ledger_def new_ledger_def posted_sources_def)
qed

end
