(* ===== verification/Vouchers.thy ===== *)
theory Vouchers
  imports General_Ledger
begin

text \<open>
  What the document postings of \<open>accounting/services.py\<close> share: the helpers that build journal lines, the
  ledger of a bank account, the resolution of account codes, and the contract of a voucher builder: if
  the lines it builds balance, in paise, on one side each, the ledger takes them.
\<close>

section \<open>Building lines\<close>

datatype side = Debit_Side | Credit_Side

definition opposite :: "side \<Rightarrow> side" where
  "opposite s = (case s of Debit_Side \<Rightarrow> Credit_Side | Credit_Side \<Rightarrow> Debit_Side)"

definition on_side :: "side \<Rightarrow> string \<Rightarrow> rat \<Rightarrow> int option \<Rightarrow> jline" where
  "on_side s a x cc = \<lparr>jl_account = a, jl_debit = (case s of Debit_Side \<Rightarrow> x | Credit_Side \<Rightarrow> 0),
     jl_credit = (case s of Debit_Side \<Rightarrow> 0 | Credit_Side \<Rightarrow> x), jl_cost_center = cc, jl_customer = None,
     jl_supplier = None\<rparr>"

abbreviation dr :: "string \<Rightarrow> rat \<Rightarrow> int option \<Rightarrow> jline" where "dr \<equiv> on_side Debit_Side"

abbreviation cr :: "string \<Rightarrow> rat \<Rightarrow> int option \<Rightarrow> jline" where "cr \<equiv> on_side Credit_Side"

definition of_customer :: "int option \<Rightarrow> jline \<Rightarrow> jline" where
  "of_customer c l = l\<lparr>jl_customer := c\<rparr>"

definition of_supplier :: "int option \<Rightarrow> jline \<Rightarrow> jline" where
  "of_supplier c l = l\<lparr>jl_supplier := c\<rparr>"

definition tax_component_lines :: "(string \<times> rat) list \<Rightarrow> side \<Rightarrow> int option \<Rightarrow> jline list" where
  "tax_component_lines mapping s cc = map (\<lambda>(a, x). on_side s a x cc) (filter (\<lambda>(a, x). x \<noteq> 0) mapping)"

definition round_off_line :: "rat \<Rightarrow> side \<Rightarrow> int option \<Rightarrow> jline list" where
  "round_off_line round_off s cc =
    (let amt = quantize_even 2 round_off in
     if amt = 0 then [] else if 0 < amt then [on_side s ''5500'' amt cc]
     else [on_side (opposite s) ''5500'' (- amt) cc])"

section \<open>Accounts\<close>

fun resolve_accounts :: "string list \<Rightarrow> gl_account list \<Rightarrow> gl_account list res" where
  "resolve_accounts [] chart = Inr chart"
| "resolve_accounts (c # cs) chart = bind_res (use_account c chart) (resolve_accounts cs)"

text \<open>\<open>_bank_gl_account\<close>: the code of the ledger of a bank account, and the chart that has it.\<close>

definition bank_gl_account ::
  "gl_company \<Rightarrow> gl_account list \<Rightarrow> int option \<Rightarrow> date option \<Rightarrow> (string \<times> gl_account list) res" where
  "bank_gl_account co chart bank entry_date =
    (let aggregate = bind_res (use_account ''1500'' chart) (\<lambda>c. Inr (''1500'', c)) in
     case bank of
       None \<Rightarrow> aggregate
     | Some b \<Rightarrow>
        if (case (gc_books_start co, entry_date) of (Some cutover, Some d) \<Rightarrow> d < cutover | _ \<Rightarrow> False)
        then aggregate
        else (case find (\<lambda>a. ga_bank a = Some b) chart of
            Some a \<Rightarrow> Inr (ga_code a, map (\<lambda>x. if ga_code x = ga_code a then x\<lparr>ga_active := True\<rparr> else x) chart)
          | None \<Rightarrow>
             bind_res (use_account ''1500'' chart) (\<lambda>chart1.
               let code = ''1500-'' @ show_nat (nat b) in
               case find_account (\<lambda>_. True) code chart1 of
                 None \<Rightarrow> Inr (code, chart1 @ [\<lparr>ga_code = code, ga_active = True, ga_system = True, ga_bank = Some b\<rparr>])
               | Some a \<Rightarrow> if ga_bank a = None
                   then Inr (code, map (\<lambda>x. if ga_code x = code then x\<lparr>ga_bank := Some b, ga_active := True\<rparr> else x) chart1)
                   else Inr (code, chart1))))"

text \<open>
  A document posting: seed the chart, resolve the codes of the lines, post.  (The code resolves the
  accounts while it builds the lines; nothing else happens in between.)
\<close>

definition post_lines ::
  "gl_company \<Rightarrow> date \<Rightarrow> int \<Rightarrow> ledger \<Rightarrow> posting_source \<Rightarrow> date \<Rightarrow> jline list \<Rightarrow> (jentry option \<times> ledger) res" where
  "post_lines co today new_id lg src d lines =
    bind_res (resolve_accounts (map jl_account lines) (ensure_chart (lg_chart lg)))
      (\<lambda>chart. post co today new_id (lg\<lparr>lg_chart := chart\<rparr>) src d lines False False)"

section \<open>Keys of new entries\<close>

text \<open>
  The database gives every new entry a key of its own.  \<open>fresh_keys\<close> is all the proofs use of it;
  \<open>next_key\<close> is one such supply.
\<close>

definition fresh_keys :: "(ledger \<Rightarrow> int) \<Rightarrow> bool" where
  "fresh_keys key = (\<forall>lg. key lg \<notin> je_id ` set (lg_entries lg))"

definition next_key :: "ledger \<Rightarrow> int" where
  "next_key lg = 1 + foldr max (map je_id (lg_entries lg)) 0"

lemma next_key_fresh: "fresh_keys next_key"
proof -
  have "x \<le> foldr max xs 0" if "x \<in> set xs" for x :: int and xs
    using that by (induction xs) auto
  then have "next_key lg \<notin> set (map je_id (lg_entries lg))" for lg unfolding next_key_def by fastforce
  then show ?thesis by (simp add: fresh_keys_def)
qed

section \<open>Facts about lines\<close>

named_theorems voucher_simps \<open>sums and checks of built lines\<close>

definition line_fits :: "jline \<Rightarrow> bool" where
  "line_fits l = (q2 (jl_debit l) = jl_debit l \<and> q2 (jl_credit l) = jl_credit l \<and>
     0 \<le> jl_debit l \<and> 0 \<le> jl_credit l \<and> (jl_debit l = 0 \<or> jl_credit l = 0))"

definition signed :: "side \<Rightarrow> rat \<Rightarrow> rat" where
  "signed s x = (case s of Debit_Side \<Rightarrow> x | Credit_Side \<Rightarrow> - x)"

lemma opposite_simps [simp]: "opposite Debit_Side = Credit_Side" "opposite Credit_Side = Debit_Side"
  by (simp_all add: opposite_def)

lemma signed_simps [simp]: "signed Debit_Side x = x" "signed Credit_Side x = - x"
  by (simp_all add: signed_def)

lemma signed_opposite [simp]: "signed (opposite s) x = - signed s x"
  by (cases s) simp_all

lemma on_side_account [simp]: "jl_account (on_side s a x cc) = a"
  by (simp add: on_side_def)

lemma party_simps [simp]:
  "jl_debit (of_customer c l) = jl_debit l" "jl_credit (of_customer c l) = jl_credit l"
  "jl_account (of_customer c l) = jl_account l"
  "jl_debit (of_supplier c l) = jl_debit l" "jl_credit (of_supplier c l) = jl_credit l"
  "jl_account (of_supplier c l) = jl_account l"
  by (simp_all add: of_customer_def of_supplier_def)

text \<open>\<open>excess\<close> is debits less credits: the amount a list of lines is out of balance by.\<close>

definition excess :: "jline list \<Rightarrow> rat" where
  "excess ls = (\<Sum>l\<leftarrow>ls. jl_debit l - jl_credit l)"

lemma excess_zero: "debits ls = credits ls \<longleftrightarrow> excess ls = 0"
proof -
  have "excess ls = debits ls - credits ls"
    unfolding excess_def debits_def credits_def by (induction ls) auto
  then show ?thesis by simp
qed

lemma excess_simps [voucher_simps]:
  "excess [] = 0" "excess (l # ls) = (jl_debit l - jl_credit l) + excess ls" "excess (xs @ ys) = excess xs + excess ys"
  by (simp_all add: excess_def)

lemma side_excess [voucher_simps]: "jl_debit (on_side s a x cc) - jl_credit (on_side s a x cc) = signed s x"
  by (cases s) (simp_all add: on_side_def)

lemma net_simps [voucher_simps]:
  "net [] a = 0" "net (l # ls) a = (if jl_account l = a then jl_debit l - jl_credit l else 0) + net ls a"
  "net (xs @ ys) a = net xs a + net ys a"
  by (simp_all add: net_def)

lemma tax_lines_excess [voucher_simps]:
  "excess (tax_component_lines m s cc) = signed s (\<Sum>(a, x)\<leftarrow>m. x)"
  unfolding tax_component_lines_def
  by (cases s; induction m) (auto simp: excess_def on_side_def)

lemma tax_lines_net [voucher_simps]:
  "net (tax_component_lines m s cc) a = signed s (\<Sum>(c, x)\<leftarrow>filter (\<lambda>(c, x). c = a) m. x)"
  unfolding tax_component_lines_def
  by (cases s; induction m) (auto simp: net_def on_side_def)

lemma round_off_excess: "q2 x = x \<Longrightarrow> excess (round_off_line x s cc) = signed s x"
  by (cases s) (auto simp: round_off_line_def Let_def paisa_even_fixed excess_def on_side_def)

lemma round_off_net [voucher_simps]: "a \<noteq> ''5500'' \<Longrightarrow> net (round_off_line x s cc) a = 0"
  by (auto simp: round_off_line_def Let_def net_def)

lemma side_fits [voucher_simps]: "line_fits (on_side s a x cc) \<longleftrightarrow> q2 x = x \<and> 0 \<le> x"
  by (cases s) (auto simp: line_fits_def on_side_def paisa.zero)

lemma party_fits [voucher_simps]: "line_fits (of_customer c l) = line_fits l" "line_fits (of_supplier c l) = line_fits l"
  by (simp_all add: line_fits_def)

lemma tax_lines_fit:
  "list_all (\<lambda>(a, x). q2 x = x \<and> 0 \<le> x) m \<Longrightarrow> list_all line_fits (tax_component_lines m s cc)"
  unfolding tax_component_lines_def by (induction m) (auto simp: side_fits)

lemma round_off_fits: "list_all line_fits (round_off_line x s cc)"
proof -
  have "q2 (quantize_even 2 x) = quantize_even 2 x"
    by (metis paisa_even.on_grid paisa.fix_grid)
  then show ?thesis by (auto simp: round_off_line_def Let_def side_fits paisa.odd_q)
qed

text \<open>Posting lines on reachable books: the books stay reachable and take the net amounts.\<close>

lemma post_lines_step:
  assumes "ledger_reachable co lg" and "posts_to_ledger co" and "post_lines co today i lg src d ls = Inr (r, lg')"
    and "fst src \<noteq> ''JOURNAL_REVERSAL''" and "i \<notin> je_id ` set (lg_entries lg)"
  shows "ledger_reachable co lg'"
    and "src \<notin> set (posted_sources (lg_entries lg)) \<Longrightarrow> balances lg' = apply_voucher (map normalize_line ls) (balances lg)"
proof -
  obtain chart where p: "post co today i (lg\<lparr>lg_chart := chart\<rparr>) src d ls False False = Inr (r, lg')"
    using assms(3) by (auto simp: post_lines_def bind_res_Inr_iff)
  have c: "ledger_reachable co (lg\<lparr>lg_chart := chart\<rparr>)"
    by (rule ledger_reachable.step [OF assms(1)]) (rule ledger_step.administration, simp)
  have same: "balances (lg\<lparr>lg_chart := chart\<rparr>) = balances lg" by (simp add: balances_def fun_eq_iff)
  show "ledger_reachable co lg'"
    by (rule ledger_reachable.step [OF c]) (rule ledger_step.posting [OF p assms(4)], use assms(5) in simp)
  show "balances lg' = apply_voucher (map normalize_line ls) (balances lg)"
    if "src \<notin> set (posted_sources (lg_entries lg))"
    using posting_balances [OF c assms(2) p] that by (simp add: same)
qed

section \<open>The contract of a builder\<close>

lemma fits_normal: "line_fits l \<Longrightarrow> normalize_line l = l"
  by (cases l) (simp add: line_fits_def normalize_line_def paisa_even_fixed)

lemma fits_voucher:
  assumes "list_all line_fits ls" and "debits ls = credits ls"
  defines "kept \<equiv> filter (\<lambda>l. jl_debit l \<noteq> 0 \<or> jl_credit l \<noteq> 0) ls"
  shows "debits kept = credits kept" and "list_all line_allowed kept" and "map normalize_line ls = ls"
proof -
  show "map normalize_line ls = ls" using assms(1) by (simp add: list_all_iff map_idI fits_normal)
  have "debits kept = debits ls \<and> credits kept = credits ls"
    unfolding kept_def debits_def credits_def by (induction ls) auto
  then show "debits kept = credits kept" using assms(2) by simp
  show "list_all line_allowed kept"
    using assms(1) unfolding kept_def by (auto simp: list_all_iff line_fits_def line_allowed_def)
qed

text \<open>The ledger is ready for a posting: nothing but the lines can refuse it.\<close>

definition ready_for :: "gl_company \<Rightarrow> date \<Rightarrow> ledger \<Rightarrow> posting_source \<Rightarrow> date \<Rightarrow> jline list \<Rightarrow> bool" where
  "ready_for co today lg src d ls =
    (posts_to_ledger co \<and> src \<notin> set (posted_sources (lg_entries lg)) \<and>
     (case gc_books_start co of None \<Rightarrow> True | Some c \<Rightarrow> \<not> d < c \<or> contains_str ''OPENING'' (py_upper (snd (snd src)))) \<and>
     assert_period_allows_money_amend co lg d (\<not> gc_accounting_enabled co) = Inr () \<and>
     (case resolve_accounts (map jl_account ls) (ensure_chart (lg_chart lg)) of Inl _ \<Rightarrow> False
      | Inr chart \<Rightarrow> list_all (\<lambda>l. find_account ga_active (jl_account l) chart \<noteq> None) ls) \<and>
     (case next_number True (gc_numbering co) today (lg_series lg) ''JOURNAL_ENTRY'' None None of
        Inl _ \<Rightarrow> False | Inr (n, _) \<Rightarrow> n \<notin> set (map je_number (lg_entries lg))))"

text \<open>The same where the accounts have been resolved already: nothing is left but the checks of \<open>post\<close>.\<close>

definition ready_to_post :: "gl_company \<Rightarrow> date \<Rightarrow> ledger \<Rightarrow> posting_source \<Rightarrow> date \<Rightarrow> jline list \<Rightarrow> bool" where
  "ready_to_post co today lg src d ls =
    (posts_to_ledger co \<and> src \<notin> set (posted_sources (lg_entries lg)) \<and>
     (case gc_books_start co of None \<Rightarrow> True | Some c \<Rightarrow> \<not> d < c \<or> contains_str ''OPENING'' (py_upper (snd (snd src)))) \<and>
     assert_period_allows_money_amend co lg d (\<not> gc_accounting_enabled co) = Inr () \<and>
     list_all (\<lambda>l. find_account ga_active (jl_account l) (lg_chart lg) \<noteq> None) ls \<and>
     (case next_number True (gc_numbering co) today (lg_series lg) ''JOURNAL_ENTRY'' None None of
        Inl _ \<Rightarrow> False | Inr (n, _) \<Rightarrow> n \<notin> set (map je_number (lg_entries lg))))"

lemma ready_resolved:
  assumes "ready_for co today lg src d ls"
  obtains chart where "resolve_accounts (map jl_account ls) (ensure_chart (lg_chart lg)) = Inr chart"
    "ready_to_post co today (lg\<lparr>lg_chart := chart\<rparr>) src d ls"
  using assms
  by (auto simp: ready_for_def ready_to_post_def assert_period_allows_money_amend_def split: sum.splits)

locale voucher_builder =
  fixes build :: "'d \<Rightarrow> jline list" and well_formed :: "'d \<Rightarrow> bool"
  assumes balanced: "well_formed x \<Longrightarrow> excess (build x) = 0"
    and fits: "well_formed x \<Longrightarrow> list_all line_fits (build x)"
begin

lemma post_takes_it:
  assumes "well_formed x" and r: "ready_to_post co today lg src d (build x)"
    and "list_ex (\<lambda>l. jl_debit l \<noteq> 0 \<or> jl_credit l \<noteq> 0) (build x)"
  shows "\<exists>e lg'. post co today i lg src d (build x) False False = Inr (Some e, lg') \<and> je_source e = src \<and> je_date e = d
    \<and> je_lines e = filter (\<lambda>l. jl_debit l \<noteq> 0 \<or> jl_credit l \<noteq> 0) (build x) \<and> lg_entries lg' = lg_entries lg @ [e]"
proof -
  let ?ls = "build x"
  let ?kept = "filter (\<lambda>l. jl_debit l \<noteq> 0 \<or> jl_credit l \<noteq> 0) ?ls"
  note v = fits_voucher [OF fits [OF assms(1)] balanced [OF assms(1), folded excess_zero]]
  obtain n series where num: "next_number True (gc_numbering co) today (lg_series lg) ''JOURNAL_ENTRY'' None None = Inr (n, series)"
    and fresh: "n \<notin> set (map je_number (lg_entries lg))"
    using r by (auto simp: ready_to_post_def split: sum.splits)
  have kept: "?kept \<noteq> []" using assms(3) by (simp add: list_ex_iff filter_empty_conv)
  have act: "\<not> list_ex (\<lambda>l. find_account ga_active (jl_account l) (lg_chart lg) = None) ?kept"
    using r by (auto simp: ready_to_post_def list_all_iff list_ex_iff)
  have per: "assert_period_allows_money_amend co lg d (\<not> gc_accounting_enabled co) = Inr ()"
    using r by (simp add: ready_to_post_def)
  define e where "e = \<lparr>je_id = i, je_number = n, je_source = src, je_date = d, je_status = POSTED,
      je_lines = ?kept, je_reversed = None\<rparr>"
  have "post_new co today i lg src d ?ls (\<not> gc_accounting_enabled co)
      = Inr (Some e, lg\<lparr>lg_entries := lg_entries lg @ [e], lg_series := series\<rparr>)"
    unfolding post_new_def Let_def v(3) using kept v(1,2) act per num fresh
    by (auto simp: guard_res_def e_def)
  moreover have "find (same_posting src) (lg_entries lg) = None"
    using r by (simp add: find_same_posting ready_to_post_def)
  moreover have "\<not> (case gc_books_start co of None \<Rightarrow> False
         | Some c \<Rightarrow> d < c \<and> \<not> False \<and> \<not> contains_str ''OPENING'' (py_upper (snd (snd src))))"
    using r by (auto simp: ready_to_post_def split: option.splits)
  ultimately have "post co today i lg src d ?ls False False
      = Inr (Some e, lg\<lparr>lg_entries := lg_entries lg @ [e], lg_series := series\<rparr>)"
    using r unfolding post_def by (simp add: ready_to_post_def guard_res_def)
  then show ?thesis by (simp add: e_def)
qed

lemma ledger_takes_it:
  assumes "well_formed x" and "ready_for co today lg src d (build x)"
    and "list_ex (\<lambda>l. jl_debit l \<noteq> 0 \<or> jl_credit l \<noteq> 0) (build x)"
  shows "\<exists>e lg'. post_lines co today i lg src d (build x) = Inr (Some e, lg') \<and> je_source e = src \<and> je_date e = d
    \<and> je_lines e = filter (\<lambda>l. jl_debit l \<noteq> 0 \<or> jl_credit l \<noteq> 0) (build x) \<and> lg_entries lg' = lg_entries lg @ [e]"
proof -
  obtain chart where "resolve_accounts (map jl_account (build x)) (ensure_chart (lg_chart lg)) = Inr chart"
    and "ready_to_post co today (lg\<lparr>lg_chart := chart\<rparr>) src d (build x)"
    using ready_resolved [OF assms(2)] by blast
  then show ?thesis
    using post_takes_it [OF assms(1) _ assms(3), of co today "lg\<lparr>lg_chart := chart\<rparr>" src d i]
    by (simp add: post_lines_def)
qed

end

end
