(* ===== verification/Sales_Postings.thy ===== *)
theory Sales_Postings
  imports Vouchers Tax_Document
begin

text \<open>
  The postings of the selling side (\<open>PostingService\<close> in \<open>accounting/services.py\<close>): invoices, opening
  balances, cost of goods sold, stock adjustments, customer receipts, refunds and allocations.  Each
  document has the lines it builds and the posting that puts them in the ledger.
\<close>

section \<open>Sales invoices\<close>

record posted_sale =
  ps_id :: int
  ps_doc :: tax_doc
  ps_items :: "tax_item list"
  ps_date :: date
  ps_customer :: "int option"
  ps_cost_center :: "int option"
  ps_tcs :: rat
  ps_tcs_folded :: bool            \<comment> \<open>\<open>tcs_in_grand_total\<close>\<close>
  ps_opening :: bool               \<comment> \<open>\<open>is_opening_balance\<close>\<close>

text \<open>
  \<open>apply_tcs_fold\<close> (\<open>sales/services.py\<close>): tax collected at source goes into the grand total when the
  invoice is completed.  \<open>manual\<close> is \<open>tcs_amount_manual\<close>; the second result is the override note (supplied
  amount, amount from the rate, rate, consideration).
\<close>

definition tcs_consideration :: "tax_doc \<Rightarrow> rat" where
  "tcs_consideration d = dc_taxable d + dc_cgst d + dc_sgst d + dc_igst d + dc_cess d
     + (if 0 < dc_charges d \<and> \<not> charges_are_taxable d then dc_charges d else 0)"

definition unfold_tcs :: "posted_sale \<Rightarrow> tax_doc" where
  "unfold_tcs si = (if ps_tcs_folded si \<and> 0 < ps_tcs si
     then (ps_doc si)\<lparr>dc_grand := quantize_even 2 (dc_grand (ps_doc si) - ps_tcs si)\<rparr> else ps_doc si)"

definition explicit_tcs :: "bool \<Rightarrow> posted_sale \<Rightarrow> rat option" where
  "explicit_tcs manual si = (if manual then Some (ps_tcs si)
     else if 0 < ps_tcs si \<and> \<not> (ps_tcs_folded si \<and> 0 < ps_tcs si) then Some (ps_tcs si) else None)"

definition rate_tcs :: "rat \<Rightarrow> tax_doc \<Rightarrow> rat" where
  "rate_tcs tcs_rate d = (if 0 < tcs_rate then q2 (tcs_consideration d * tcs_rate / 100) else 0)"

definition apply_tcs_fold ::
  "rat \<Rightarrow> bool \<Rightarrow> posted_sale \<Rightarrow> posted_sale \<times> (rat \<times> rat \<times> rat \<times> rat) option" where
  "apply_tcs_fold tcs_rate manual si =
    (let d = unfold_tcs si; rate_amount = rate_tcs tcs_rate d;
         override = (case explicit_tcs manual si of None \<Rightarrow> None
           | Some x \<Rightarrow> if 0 < tcs_rate \<and> rate_amount \<noteq> x
               then Some (x, rate_amount, tcs_rate, tcs_consideration d) else None);
         amount = (case explicit_tcs manual si of Some x \<Rightarrow> x | None \<Rightarrow> if 0 < tcs_rate then rate_amount else 0)
     in (si\<lparr>ps_doc := (if amount \<noteq> 0 then d\<lparr>dc_grand := quantize_even 2 (dc_grand d + amount)\<rparr> else d),
            ps_tcs := amount, ps_tcs_folded := (amount \<noteq> 0)\<rparr>, override))"

definition taxable_charge_line :: "tax_doc \<Rightarrow> rat \<Rightarrow> charge option" where
  "taxable_charge_line document igst_beyond_items =
    (if \<not> charges_are_taxable document then None
     else charge_line document (\<not> 0 < igst_beyond_items))"

text \<open>The tax of the lines, the synthetic freight line included: CGST, SGST, IGST, cess.\<close>

definition line_tax_sums :: "posted_sale \<Rightarrow> rat \<times> rat \<times> rat \<times> rat" where
  "line_tax_sums si =
    (let items = ps_items si; d = ps_doc si;
         cgst = (\<Sum>i\<leftarrow>items. it_cgst i); sgst = (\<Sum>i\<leftarrow>items. it_sgst i);
         igst = (\<Sum>i\<leftarrow>items. it_igst i); cess = (\<Sum>i\<leftarrow>items. line_cess i) in
     case taxable_charge_line d (dc_igst d - igst) of
       None \<Rightarrow> (cgst, sgst, igst, cess)
     | Some c \<Rightarrow> (cgst + ch_cgst c, sgst + ch_sgst c, igst + ch_igst c, cess))"

definition sales_invoice_lines :: "posted_sale \<Rightarrow> jline list res" where
  "sales_invoice_lines si =
    (let d = ps_doc si; cc = ps_cost_center si; (lc, ls, li, le) = line_tax_sums si;
         drift = \<bar>lc - dc_cgst d\<bar> + \<bar>ls - dc_sgst d\<bar> + \<bar>li - dc_igst d\<bar> + \<bar>le - dc_cess d\<bar> in
     guard_res (5/100 < drift)
       (Business_Rule ''Invoice tax headers do not match line tax totals; cannot post GL.'') (
     let round_off = dc_round_off d; tcs = ps_tcs si in
     if dc_rcm d then
       let after_tax = (if py_upper (dc_disc_mode d) = ''AFTER_TAX'' then dc_inv_disc d else 0);
           sales_credit = dc_taxable d + dc_charges d - after_tax;
           ar = sales_credit + round_off + tcs in
       Inr ([of_customer (ps_customer si) (dr ''1200'' ar cc), cr ''4100'' sales_credit cc]
            @ (if 0 < tcs then [cr ''2266'' tcs cc] else [])
            @ round_off_line round_off Credit_Side cc)
     else
       let tax_lines = tax_component_lines [(''2210'', lc), (''2220'', ls), (''2230'', li), (''2270'', le)] Credit_Side cc;
           hdr_tax = dc_cgst d + dc_sgst d + dc_igst d + dc_cess d;
           tax_drift = quantize_even 2 (hdr_tax - (lc + ls + li + le));
           sales_credit = dc_grand d - hdr_tax - round_off - (if ps_tcs_folded si then tcs else 0) in
       Inr ([of_customer (ps_customer si) (dr ''1200'' (dc_grand d) cc), cr ''4100'' sales_credit cc]
            @ tax_lines
            @ round_off_line round_off Credit_Side cc
            @ (if tax_drift \<noteq> 0 then round_off_line tax_drift Credit_Side cc else [])
            @ (if 0 < tcs
               then (if ps_tcs_folded si then [] else [of_customer (ps_customer si) (dr ''1200'' tcs cc)])
                    @ [cr ''2266'' tcs cc]
               else []))))"

definition post_sales_invoice ::
  "gl_company \<Rightarrow> date \<Rightarrow> int \<Rightarrow> ledger \<Rightarrow> posted_sale \<Rightarrow> (jentry option \<times> ledger) res" where
  "post_sales_invoice co today new_id lg si =
    bind_res (sales_invoice_lines si)
      (post_lines co today new_id lg (''SALES_INVOICE'', ps_id si, ''COMPLETE'') (ps_date si))"

section \<open>Opening balances and cost of goods sold\<close>

definition opening_sales_lines :: "posted_sale \<Rightarrow> jline list" where
  "opening_sales_lines si =
    [of_customer (ps_customer si) (dr ''1200'' (dc_grand (ps_doc si)) None), cr ''3200'' (dc_grand (ps_doc si)) None]"

definition post_opening_sales_invoice ::
  "gl_company \<Rightarrow> date \<Rightarrow> int \<Rightarrow> ledger \<Rightarrow> posted_sale \<Rightarrow> (jentry option \<times> ledger) res" where
  "post_opening_sales_invoice co today new_id lg si =
    (if dc_grand (ps_doc si) = 0 then Inr (None, lg)
     else post_lines co today new_id lg (''SALES_INVOICE'', ps_id si, ''OPENING'') (ps_date si) (opening_sales_lines si))"

definition transfer_lines :: "string \<Rightarrow> string \<Rightarrow> rat \<Rightarrow> int option \<Rightarrow> jline list" where
  "transfer_lines debit credit amount cc = [dr debit amount cc, cr credit amount cc]"

definition post_sales_cogs ::
  "gl_company \<Rightarrow> date \<Rightarrow> int \<Rightarrow> ledger \<Rightarrow> posted_sale \<Rightarrow> rat \<Rightarrow> (jentry option \<times> ledger) res" where
  "post_sales_cogs co today new_id lg si amount =
    (if amount = 0 then Inr (None, lg)
     else post_lines co today new_id lg (''SALES_INVOICE'', ps_id si, ''COGS'') (ps_date si)
            (transfer_lines ''5400'' ''1400'' amount (ps_cost_center si)))"

definition post_sales_return_cogs ::
  "gl_company \<Rightarrow> date \<Rightarrow> int \<Rightarrow> ledger \<Rightarrow> int \<Rightarrow> date \<Rightarrow> int option \<Rightarrow> rat \<Rightarrow> (jentry option \<times> ledger) res" where
  "post_sales_return_cogs co today new_id lg return_id return_date cc amount =
    (if amount = 0 then Inr (None, lg)
     else post_lines co today new_id lg (''SALES_RETURN'', return_id, ''COGS_REVERSE'') return_date
            (transfer_lines ''1400'' ''5400'' amount cc))"

definition post_sales_return_scrap ::
  "gl_company \<Rightarrow> date \<Rightarrow> int \<Rightarrow> ledger \<Rightarrow> int \<Rightarrow> date \<Rightarrow> int option \<Rightarrow> rat \<Rightarrow> (jentry option \<times> ledger) res" where
  "post_sales_return_scrap co today new_id lg return_id return_date cc amount =
    (let amt = q2 amount in
     if amt \<le> 0 then Inr (None, lg)
     else post_lines co today new_id lg (''SALES_RETURN'', return_id, ''DAMAGED_SCRAP'') return_date
            (transfer_lines ''5450'' ''1400'' amt cc))"

text \<open>Stock written without a document; \<open>flag_on\<close> is \<open>ACCOUNTING_POST_STOCK_ADJUSTMENTS\<close>.\<close>

definition STOCK_WRITE_PURPOSES :: "(string \<times> string) list" where
  "STOCK_WRITE_PURPOSES = [(''manual_adjustment'', ''STOCK_ADJUSTMENT''), (''stock_count'', ''STOCK_COUNT''),
     (''expiry_write_off'', ''STOCK_EXPIRY''), (''serial_scrap'', ''SERIAL_SCRAP'')]"

definition stock_movement_cost :: "rat \<Rightarrow> rat \<Rightarrow> rat option \<Rightarrow> rat \<Rightarrow> rat" where
  "stock_movement_cost unit_cost qty layer_cost purchase_price =
    (let c1 = (if unit_cost \<le> 0 \<and> 0 < qty then (case layer_cost of Some c \<Rightarrow> c | None \<Rightarrow> unit_cost) else unit_cost)
     in if c1 \<le> 0 then purchase_price else c1)"

definition post_stock_adjustment ::
  "gl_company \<Rightarrow> bool \<Rightarrow> date \<Rightarrow> int \<Rightarrow> ledger \<Rightarrow> int \<Rightarrow> string \<Rightarrow> date \<Rightarrow> rat \<Rightarrow> rat \<Rightarrow> rat option \<Rightarrow> rat
    \<Rightarrow> (jentry option \<times> ledger) res" where
  "post_stock_adjustment co flag_on today new_id lg movement_id ref d qty unit_cost layer_cost purchase_price =
    (case map_of STOCK_WRITE_PURPOSES ref of
       None \<Rightarrow> Inr (None, lg)
     | Some purpose \<Rightarrow>
        if \<not> posts_to_ledger co \<or> \<not> flag_on \<or> qty = 0 then Inr (None, lg)
        else let amount = q2 (\<bar>qty\<bar> * stock_movement_cost unit_cost qty layer_cost purchase_price) in
          if amount \<le> 0 then Inr (None, lg)
          else post_lines co today new_id lg (''STOCK_MOVEMENT'', movement_id, purpose) d
                 (if qty < 0 then transfer_lines ''5450'' ''1400'' amount None
                  else transfer_lines ''1400'' ''5450'' amount None))"

definition post_opening_stock ::
  "gl_company \<Rightarrow> date \<Rightarrow> int \<Rightarrow> ledger \<Rightarrow> int \<Rightarrow> date \<Rightarrow> rat \<Rightarrow> rat \<Rightarrow> (jentry option \<times> ledger) res" where
  "post_opening_stock co today new_id lg movement_id d qty unit_cost =
    (let amount = quantize_even 2 (\<bar>qty\<bar> * unit_cost) in
     if amount = 0 then Inr (None, lg)
     else post_lines co today new_id lg (''STOCK_MOVEMENT'', movement_id, ''OPENING_STOCK'') d
            (transfer_lines ''1400'' ''3200'' amount None))"

section \<open>Receipts\<close>

record posted_receipt =
  pr_id :: int
  pr_amount :: rat
  pr_tds :: rat
  pr_fee :: "rat option"           \<comment> \<open>the fee of the gateway payment, when there is one\<close>
  pr_customer :: "int option"
  pr_bank :: "int option"
  pr_date :: date

definition gateway_fee :: "posted_receipt \<Rightarrow> rat" where
  "gateway_fee r = (case pr_fee r of None \<Rightarrow> 0 | Some f \<Rightarrow> max 0 f)"

definition receipt_lines :: "posted_receipt \<Rightarrow> string \<Rightarrow> jline list" where
  "receipt_lines r bank =
    (let amount = pr_amount r; tds = pr_tds r; fee = min (gateway_fee r) amount; bank_amt = amount - fee;
         cash = (if 0 < bank_amt then [dr bank bank_amt None] else [])
                @ (if 0 < fee then [dr ''5200'' fee None] else []) in
     (if cash = [] then [dr bank amount None] else cash)
     @ (if 0 < tds then [of_customer (pr_customer r) (dr ''1270'' tds None)] else [])
     @ [of_customer (pr_customer r) (cr ''2300'' (amount + tds) None)])"

text \<open>The ledger the money arrives in: cash, or the bank's own ledger.\<close>

definition money_account ::
  "gl_company \<Rightarrow> ledger \<Rightarrow> int option \<Rightarrow> date \<Rightarrow> (string \<times> ledger) res" where
  "money_account co lg bank d =
    (let chart = ensure_chart (lg_chart lg) in
     case bank of None \<Rightarrow> Inr (''1100'', lg\<lparr>lg_chart := chart\<rparr>)
     | Some b \<Rightarrow> bind_res (bank_gl_account co chart (Some b) (Some d)) (\<lambda>(code, chart1).
         Inr (code, lg\<lparr>lg_chart := chart1\<rparr>)))"

definition post_receipt ::
  "gl_company \<Rightarrow> date \<Rightarrow> int \<Rightarrow> ledger \<Rightarrow> posted_receipt \<Rightarrow> (jentry option \<times> ledger) res" where
  "post_receipt co today new_id lg r =
    bind_res (money_account co lg (pr_bank r) (pr_date r)) (\<lambda>(bank, lg1).
      post_lines co today new_id lg1 (''CUSTOMER_RECEIPT'', pr_id r, ''CREATE'') (pr_date r) (receipt_lines r bank))"

definition refund_fee_share :: "posted_receipt \<Rightarrow> rat \<Rightarrow> rat" where
  "refund_fee_share r amount =
    (let full = pr_amount r; fee = gateway_fee r;
         share = (if 0 < full \<and> 0 < fee then min (quantize_even 2 (ddiv (dmul fee amount) full)) fee else 0)
     in min share amount)"

definition refund_lines :: "posted_receipt \<Rightarrow> string \<Rightarrow> rat \<Rightarrow> jline list" where
  "refund_lines r bank amount =
    (let share = refund_fee_share r amount; bank_credit = amount - share;
         legs = (if 0 < bank_credit then [cr bank bank_credit None] else [])
                @ (if 0 < share then [cr ''5200'' share None] else []) in
     of_customer (pr_customer r) (dr ''2300'' amount None)
       # (if legs = [] then [cr bank amount None] else legs))"

definition post_receipt_refund ::
  "gl_company \<Rightarrow> date \<Rightarrow> int \<Rightarrow> ledger \<Rightarrow> posted_receipt \<Rightarrow> rat option \<Rightarrow> string \<Rightarrow> date option
    \<Rightarrow> (jentry option \<times> ledger) res" where
  "post_receipt_refund co today new_id lg r amount purpose d =
    bind_res (money_account co lg (pr_bank r) (pr_date r)) (\<lambda>(bank, lg1).
      let amt = opt_arg (pr_amount r) amount in
      if amt \<le> 0 then Inr (None, lg1)
      else post_lines co today new_id lg1
             (''CUSTOMER_RECEIPT'', pr_id r, if purpose = [] then ''REFUND'' else purpose)
             (opt_arg (pr_date r) d) (refund_lines r bank amt))"

definition post_advance_refund ::
  "gl_company \<Rightarrow> date \<Rightarrow> int \<Rightarrow> ledger \<Rightarrow> int \<Rightarrow> rat \<Rightarrow> string \<Rightarrow> int option \<Rightarrow> int option \<Rightarrow> date
    \<Rightarrow> (jentry option \<times> ledger) res" where
  "post_advance_refund co today new_id lg refund_id amount mode bank customer d =
    (if amount \<le> 0 then Inr (None, lg\<lparr>lg_chart := ensure_chart (lg_chart lg)\<rparr>)
     else bind_res (money_account co lg (if py_upper mode = ''CASH'' then None else bank) d) (\<lambda>(out, lg1).
       post_lines co today new_id lg1 (''CUSTOMER_ADVANCE_REFUND'', refund_id, ''CREATE'') d
         [of_customer customer (dr ''2300'' amount None), cr out amount None]))"

definition post_receipt_party_transfer ::
  "gl_company \<Rightarrow> date \<Rightarrow> int \<Rightarrow> ledger \<Rightarrow> posted_receipt \<Rightarrow> int option \<Rightarrow> int option \<Rightarrow> nat
    \<Rightarrow> (jentry option \<times> ledger) res" where
  "post_receipt_party_transfer co today new_id lg r old_customer new_customer seq =
    (let amount = pr_amount r + pr_tds r in
     if amount \<le> 0 then Inr (None, lg\<lparr>lg_chart := ensure_chart (lg_chart lg)\<rparr>)
     else post_lines co today new_id lg (''CUSTOMER_RECEIPT'', pr_id r, ''REASSIGN_'' @ show_nat seq) today
            [of_customer old_customer (dr ''2300'' amount None), of_customer new_customer (cr ''2300'' amount None)])"

record posted_allocation =
  pa_id :: int
  pa_amount :: rat
  pa_discount :: rat
  pa_tds :: rat
  pa_customer :: "int option"
  pa_receipt_date :: "date option"

definition allocation_lines :: "posted_allocation \<Rightarrow> jline list" where
  "allocation_lines a =
    [of_customer (pa_customer a) (dr ''2300'' (pa_amount a + pa_tds a) None),
     of_customer (pa_customer a) (cr ''1200'' (pa_amount a + pa_tds a + pa_discount a) None)]
    @ (if 0 < pa_discount a then [dr ''5150'' (pa_discount a) None] else [])"

definition post_receipt_allocation ::
  "gl_company \<Rightarrow> date \<Rightarrow> int \<Rightarrow> ledger \<Rightarrow> posted_allocation \<Rightarrow> (jentry option \<times> ledger) res" where
  "post_receipt_allocation co today new_id lg a =
    (if pa_amount a = 0 then Inr (None, lg)
     else post_lines co today new_id lg (''PAYMENT_ALLOCATION'', pa_id a, ''ALLOCATE_RECEIPT'')
            (opt_arg today (pa_receipt_date a)) (allocation_lines a))"

section \<open>Sales vouchers balance\<close>

definition built_sale :: "posted_sale \<Rightarrow> jline list" where
  "built_sale si = (case sales_invoice_lines si of Inr ls \<Rightarrow> ls | Inl _ \<Rightarrow> [])"

definition header_tax :: "tax_doc \<Rightarrow> rat" where
  "header_tax d = dc_cgst d + dc_sgst d + dc_igst d + dc_cess d"

definition nonneg_paise :: "rat \<Rightarrow> bool" where
  "nonneg_paise x = (q2 x = x \<and> 0 \<le> x)"

text \<open>What a sale needs to post: amounts in paise, and legs that are not negative.\<close>

definition sale_ok :: "posted_sale \<Rightarrow> bool" where
  "sale_ok si =
    (let d = ps_doc si; (lc, ls, li, le) = line_tax_sums si in
     list_all nonneg_paise [lc, ls, li, le, ps_tcs si, dc_taxable d, dc_charges d, dc_inv_disc d] \<and>
     list_all (\<lambda>x. q2 x = x) [dc_cgst d, dc_sgst d, dc_igst d, dc_cess d, dc_round_off d, dc_grand d] \<and>
     (if dc_rcm d
      then let sales = dc_taxable d + dc_charges d
                 - (if py_upper (dc_disc_mode d) = ''AFTER_TAX'' then dc_inv_disc d else 0)
           in 0 \<le> sales \<and> 0 \<le> sales + dc_round_off d + ps_tcs si
      else 0 \<le> dc_grand d \<and>
        0 \<le> dc_grand d - header_tax d - dc_round_off d - (if ps_tcs_folded si then ps_tcs si else 0)))"

lemmas paise_arith = paisa.fixed_add paisa.fixed_diff paisa.fixed_minus paisa.zero

lemma sale_lines_cases:
  assumes "sales_invoice_lines si = Inr L" and sums: "line_tax_sums si = (lc, ls, li, le)"
    and grid: "list_all (\<lambda>x. q2 x = x) [lc, ls, li, le, dc_cgst (ps_doc si), dc_sgst (ps_doc si), dc_igst (ps_doc si), dc_cess (ps_doc si)]"
  defines "d \<equiv> ps_doc si" and "cc \<equiv> ps_cost_center si" and "tcs \<equiv> ps_tcs si"
  defines "sales \<equiv> dc_taxable d + dc_charges d - (if py_upper (dc_disc_mode d) = ''AFTER_TAX'' then dc_inv_disc d else 0)"
  defines "credit \<equiv> dc_grand d - header_tax d - dc_round_off d - (if ps_tcs_folded si then tcs else 0)"
  defines "dft \<equiv> header_tax d - (lc + ls + li + le)"
  shows "L = (if dc_rcm d
      then [of_customer (ps_customer si) (dr ''1200'' (sales + dc_round_off d + tcs) cc), cr ''4100'' sales cc]
         @ (if 0 < tcs then [cr ''2266'' tcs cc] else []) @ round_off_line (dc_round_off d) Credit_Side cc
      else [of_customer (ps_customer si) (dr ''1200'' (dc_grand d) cc), cr ''4100'' credit cc]
         @ tax_component_lines [(''2210'', lc), (''2220'', ls), (''2230'', li), (''2270'', le)] Credit_Side cc
         @ round_off_line (dc_round_off d) Credit_Side cc @ round_off_line dft Credit_Side cc
         @ (if 0 < tcs then (if ps_tcs_folded si then [] else [of_customer (ps_customer si) (dr ''1200'' tcs cc)])
              @ [cr ''2266'' tcs cc] else []))"
proof -
  have d2: "q2 dft = dft"
    unfolding dft_def header_tax_def d_def using grid by (intro paise_arith) simp_all
  have e: "quantize_even 2 dft = dft" by (rule paisa_even_fixed [OF d2])
  have n: "(if dft \<noteq> 0 then round_off_line dft Credit_Side cc else []) = round_off_line dft Credit_Side cc"
    using e by (simp add: round_off_line_def)
  show ?thesis
  proof (cases "dc_rcm d")
    case True
    with assms(1) show ?thesis
      unfolding sales_invoice_lines_def Let_def sums prod.case guard_res_Inr_iff d_def
      by (auto simp: sales_def cc_def tcs_def d_def split: if_splits)
  next
    case False
    with assms(1) show ?thesis
      unfolding sales_invoice_lines_def Let_def sums prod.case guard_res_Inr_iff d_def
      using e n by (auto simp: credit_def cc_def tcs_def d_def dft_def header_tax_def split: if_splits)
  qed
qed

lemma sale_balanced:
  assumes "sale_ok si"
  shows "excess (built_sale si) = 0"
proof (cases "sales_invoice_lines si")
  case (Inl e)
  then show ?thesis by (simp add: built_sale_def excess_def)
next
  case (Inr L)
  obtain lc ls li le where sums: "line_tax_sums si = (lc, ls, li, le)" by (metis prod_cases4)
  have grid: "list_all (\<lambda>x. q2 x = x) [lc, ls, li, le, dc_cgst (ps_doc si), dc_sgst (ps_doc si), dc_igst (ps_doc si), dc_cess (ps_doc si)]"
    and ro: "q2 (dc_round_off (ps_doc si)) = dc_round_off (ps_doc si)" and "0 \<le> ps_tcs si"
    using assms sums by (simp_all add: sale_ok_def Let_def nonneg_paise_def)
  have dft: "q2 (header_tax (ps_doc si) - (lc + ls + li + le)) = header_tax (ps_doc si) - (lc + ls + li + le)"
    unfolding header_tax_def using grid by (intro paise_arith) simp_all
  show ?thesis unfolding built_sale_def Inr sum.case sale_lines_cases [OF Inr sums grid]
    using \<open>0 \<le> ps_tcs si\<close>
    by (simp add: voucher_simps round_off_excess [OF ro] round_off_excess [OF dft [unfolded header_tax_def]] header_tax_def)
qed

lemma sale_fits:
  assumes "sale_ok si"
  shows "list_all line_fits (built_sale si)"
proof (cases "sales_invoice_lines si")
  case (Inl e)
  then show ?thesis by (simp add: built_sale_def)
next
  case (Inr L)
  obtain lc ls li le where sums: "line_tax_sums si = (lc, ls, li, le)" by (metis prod_cases4)
  have ok: "list_all (\<lambda>x. q2 x = x) [lc, ls, li, le, dc_cgst (ps_doc si), dc_sgst (ps_doc si), dc_igst (ps_doc si), dc_cess (ps_doc si)]"
    "q2 (dc_round_off (ps_doc si)) = dc_round_off (ps_doc si)" "q2 (dc_grand (ps_doc si)) = dc_grand (ps_doc si)"
    "list_all nonneg_paise [lc, ls, li, le, ps_tcs si, dc_taxable (ps_doc si), dc_charges (ps_doc si), dc_inv_disc (ps_doc si)]"
    using assms sums by (simp_all add: sale_ok_def Let_def nonneg_paise_def)
  show ?thesis unfolding built_sale_def Inr sum.case sale_lines_cases [OF Inr sums ok(1)]
    using assms ok sums
    by (auto simp: sale_ok_def Let_def nonneg_paise_def voucher_simps round_off_fits header_tax_def paise_arith
        intro!: tax_lines_fit)
qed

interpretation sales_voucher: voucher_builder built_sale sale_ok
  by unfold_locales (simp_all add: sale_balanced sale_fits)

section \<open>Completing a computed invoice\<close>

lemma charge_line_same:
  assumes "q2 (dc_charges d) = q2 (dc_charges d')" "dc_charges_hsn d = dc_charges_hsn d'"
    "dc_charges_rate d = dc_charges_rate d'"
  shows "charge_line d intra = charge_line d' intra" and "charges_are_taxable d = charges_are_taxable d'"
  using assms by (simp_all add: charge_line_def charges_are_taxable_def)

text \<open>The posting reads from the header which way the freight was taxed; it gets the same tax.\<close>

lemma recovered_charge_line:
  assumes c: "charge_line d intra = Some c"
  obtains c' where "taxable_charge_line d (ch_igst c) = Some c'" "ch_cgst c' = ch_cgst c" "ch_sgst c' = ch_sgst c"
    "ch_igst c' = ch_igst c"
proof -
  have tax: "charges_are_taxable d" using c by (simp add: charge_line_def split: if_splits)
  let ?tax = "q2 (q2 (dc_charges d) * dc_charges_rate d / 100)"
  have nn: "0 \<le> ?tax" using tax by (intro paisa.nonneg) (simp add: charges_are_taxable_def Let_def)
  obtain k where k: "charge_line d (\<not> 0 < ch_igst c) = Some k" using tax by (simp add: charge_line_def Let_def)
  have leg: "ch_igst x = (if b then 0 else ?tax)" "ch_cgst x = (if b then q2 (?tax / 2) else 0)"
    "ch_sgst x = ch_cgst x" if "charge_line d b = Some x" for b x
    using that tax by (auto simp: charge_line_def Let_def)
  have "ch_cgst k = ch_cgst c \<and> ch_igst k = ch_igst c"
    using leg [OF c] leg [OF k] nn by (cases intra; cases "?tax = 0") auto
  then show thesis using that [of k] k tax leg(3) [OF c] leg(3) [OF k] by (simp add: taxable_charge_line_def)
qed

lemma computed_legs:
  assumes ok: "compute_document_totals table document items True intra ch disc ro m = Inr (d, lines)"
    and ch: "opt_arg (dc_charges document) ch = dc_charges document"
    and si: "ps_doc si = d" "ps_items si = lines"
  shows "line_tax_sums si = (dc_cgst d, dc_sgst d, dc_igst d, dc_cess d)"
proof -
  note foot = document_totals_facts [OF ok, simplified]
  have same: "charge_line d intra = charge_line document intra"
    using foot(15) ch by (intro charge_line_same) simp_all
  have items: "line_tax_sums si = (case taxable_charge_line d (charge_leg ch_igst (charge_line d intra)) of
      None \<Rightarrow> (\<Sum>i\<leftarrow>lines. it_cgst i, \<Sum>i\<leftarrow>lines. it_cgst i, \<Sum>i\<leftarrow>lines. it_igst i, dc_cess d)
    | Some c \<Rightarrow> ((\<Sum>i\<leftarrow>lines. it_cgst i) + ch_cgst c, (\<Sum>i\<leftarrow>lines. it_cgst i) + ch_sgst c,
        (\<Sum>i\<leftarrow>lines. it_igst i) + ch_igst c, dc_cess d))"
    unfolding line_tax_sums_def Let_def si using foot(4,5,7) same by (simp split: option.splits)
  show ?thesis
  proof (cases "charge_line d intra")
    case None
    then have "\<not> charges_are_taxable d" by (simp add: charge_line_def Let_def split: if_splits)
    then have "taxable_charge_line d x = None" for x by (simp add: taxable_charge_line_def)
    then show ?thesis unfolding items using None foot(2,3,5) same by (simp add: charge_leg_def)
  next
    case (Some c)
    obtain c' where "taxable_charge_line d (ch_igst c) = Some c'" "ch_cgst c' = ch_cgst c" "ch_sgst c' = ch_sgst c"
      "ch_igst c' = ch_igst c" by (rule recovered_charge_line [OF Some])
    moreover have "ch_sgst c = ch_cgst c" using charge_line_on_paisa [OF Some] by simp
    ultimately show ?thesis unfolding items using Some foot(2,3,5) same by (simp add: charge_leg_def)
  qed
qed

definition sample_sale :: "tax_doc \<Rightarrow> tax_item list \<Rightarrow> posted_sale" where
  "sample_sale d lines = \<lparr>ps_id = 5, ps_doc = d, ps_items = lines, ps_date = Date 2025 5 2, ps_customer = Some 7,
     ps_cost_center = None, ps_tcs = 0, ps_tcs_folded = False, ps_opening = False\<rparr>"

text \<open>What folding does to a computed invoice that has no tax collected yet.\<close>

lemma fold_facts:
  fixes rate :: rat and manual :: bool
  assumes "\<not> ps_tcs_folded si0" and "nonneg_paise (ps_tcs si0)" and "q2 (dc_grand (ps_doc si0)) = dc_grand (ps_doc si0)"
    and "list_all (\<lambda>x. 0 \<le> x) [dc_taxable (ps_doc si0), dc_cgst (ps_doc si0), dc_sgst (ps_doc si0),
      dc_igst (ps_doc si0), dc_cess (ps_doc si0)]"
  defines "si \<equiv> fst (apply_tcs_fold rate manual si0)"
  shows "ps_doc si = (ps_doc si0)\<lparr>dc_grand := dc_grand (ps_doc si0) + ps_tcs si\<rparr>" and "ps_tcs_folded si = (ps_tcs si \<noteq> 0)"
    and "nonneg_paise (ps_tcs si)" and "line_tax_sums si = line_tax_sums si0"
    and "ps_id si = ps_id si0" "ps_date si = ps_date si0" "ps_customer si = ps_customer si0"
      "ps_cost_center si = ps_cost_center si0"
proof -
  let ?r = "rate_tcs rate (ps_doc si0)"
  have nn: "nonneg_paise ?r"
    using assms(4) by (auto simp: nonneg_paise_def rate_tcs_def tcs_consideration_def intro!: paisa.nonneg mult_nonneg_nonneg)
  have u: "unfold_tcs si0 = ps_doc si0" using assms(1) by (simp add: unfold_tcs_def)
  have t: "ps_tcs si = (if manual \<or> 0 < ps_tcs si0 then ps_tcs si0 else if 0 < rate then ?r else 0)"
    using assms(1) by (simp add: si_def apply_tcs_fold_def Let_def u explicit_tcs_def)
  show np: "nonneg_paise (ps_tcs si)" unfolding t using nn assms(2) by (simp add: nonneg_paise_def)
  have "quantize_even 2 (dc_grand (ps_doc si0) + ps_tcs si) = dc_grand (ps_doc si0) + ps_tcs si"
    using np assms(3) by (intro paisa_even_fixed paisa.fixed_add) (simp_all add: nonneg_paise_def)
  moreover have "ps_doc si = (if ps_tcs si \<noteq> 0
      then (ps_doc si0)\<lparr>dc_grand := quantize_even 2 (dc_grand (ps_doc si0) + ps_tcs si)\<rparr> else ps_doc si0)"
    by (simp add: si_def apply_tcs_fold_def Let_def u)
  ultimately show doc: "ps_doc si = (ps_doc si0)\<lparr>dc_grand := dc_grand (ps_doc si0) + ps_tcs si\<rparr>" by simp
  show "ps_tcs_folded si = (ps_tcs si \<noteq> 0)" by (simp add: si_def apply_tcs_fold_def Let_def)
  have c: "taxable_charge_line (d\<lparr>dc_grand := g\<rparr>) x = taxable_charge_line d x" for d g x
    by (simp add: taxable_charge_line_def charges_are_taxable_def charge_line_def)
  have "ps_items si = ps_items si0" by (simp add: si_def apply_tcs_fold_def Let_def)
  then show "line_tax_sums si = line_tax_sums si0" by (simp add: line_tax_sums_def doc c Let_def)
qed (simp_all add: si_def apply_tcs_fold_def Let_def)

section \<open>Properties\<close>

text \<open>A computed invoice, not under reverse charge, with amounts that are not negative.\<close>

definition computed_invoice ::
  "hsn_rate list \<Rightarrow> tax_doc \<Rightarrow> tax_item list \<Rightarrow> bool \<Rightarrow> rat option \<Rightarrow> bool option \<Rightarrow> string option \<Rightarrow> posted_sale \<Rightarrow> bool" where
  "computed_invoice table document items intra disc ro m si0 =
    (compute_document_totals table document items True intra None disc ro m = Inr (ps_doc si0, ps_items si0) \<and>
     \<not> dc_rcm document \<and> \<not> ps_tcs_folded si0 \<and> nonneg_paise (ps_tcs si0) \<and>
     (let d = ps_doc si0 in list_all (\<lambda>x. 0 \<le> x) [dc_taxable d, dc_charges d, dc_inv_disc d,
       dc_cgst d, dc_igst d, dc_cess d] \<and> header_tax d + dc_round_off d \<le> dc_grand d))"

lemma built_lines:
  fixes rate :: rat and manual :: bool
  assumes ok: "computed_invoice table document items intra disc ro m si0"
  defines "si \<equiv> fst (apply_tcs_fold rate manual si0)" and "d \<equiv> ps_doc si0" and "cc \<equiv> ps_cost_center si0"
  shows "sale_ok si" and "0 \<le> ps_tcs si" and "ps_tcs_folded si = (ps_tcs si \<noteq> 0)"
    and "ps_doc si = d\<lparr>dc_grand := dc_grand d + ps_tcs si\<rparr>"
    and "post_sales_invoice co today i lg si =
      post_lines co today i lg (''SALES_INVOICE'', ps_id si0, ''COMPLETE'') (ps_date si0) (built_sale si)"
    and "built_sale si = [of_customer (ps_customer si0) (dr ''1200'' (dc_grand d + ps_tcs si) cc),
        cr ''4100'' (dc_grand d - header_tax d - dc_round_off d) cc]
      @ tax_component_lines [(''2210'', dc_cgst d), (''2220'', dc_sgst d), (''2230'', dc_igst d), (''2270'', dc_cess d)]
          Credit_Side cc
      @ round_off_line (dc_round_off d) Credit_Side cc @ (if 0 < ps_tcs si then [cr ''2266'' (ps_tcs si) cc] else [])"
proof -
  have ok': "compute_document_totals table document items True intra None disc ro m = Inr (d, ps_items si0)"
    and plain: "\<not> dc_rcm document" and tcs: "\<not> ps_tcs_folded si0" "nonneg_paise (ps_tcs si0)"
    and nn: "list_all (\<lambda>x. 0 \<le> x) [dc_taxable d, dc_charges d, dc_inv_disc d, dc_cgst d, dc_igst d, dc_cess d]"
    and credit: "header_tax d + dc_round_off d \<le> dc_grand d"
    using ok by (simp_all add: computed_invoice_def d_def Let_def)
  have ch: "opt_arg (dc_charges document) None = dc_charges document" by (simp add: opt_arg_def)
  have dd: "ps_doc si0 = d" by (simp add: d_def)
  note legs = computed_legs [OF ok' ch dd refl]
  note foot = document_totals_facts [OF ok', simplified]
  have grand: "q2 (dc_grand (ps_doc si0)) = dc_grand (ps_doc si0)" using foot(11) by (simp add: d_def)
  have nn': "list_all (\<lambda>x. 0 \<le> x) [dc_taxable (ps_doc si0), dc_cgst (ps_doc si0), dc_sgst (ps_doc si0),
      dc_igst (ps_doc si0), dc_cess (ps_doc si0)]"
    using nn foot(3) by (simp add: d_def)
  note f = fold_facts [OF tcs grand nn', where rate = rate and manual = manual, folded si_def d_def]
  show "ps_doc si = d\<lparr>dc_grand := dc_grand d + ps_tcs si\<rparr>" "0 \<le> ps_tcs si" "ps_tcs_folded si = (ps_tcs si \<noteq> 0)"
    using f(1-3) by (simp_all add: nonneg_paise_def)
  note sums = f(4) [unfolded legs]
  show "sale_ok si"
    unfolding sale_ok_def Let_def sums prod.case using f(1-3) foot(3,11-13) nn credit plain
    by (simp add: nonneg_paise_def header_tax_def paisa.fixed_add)
  have "\<exists>L. sales_invoice_lines si = Inr L"
    unfolding sales_invoice_lines_def Let_def sums prod.case by (simp add: f(1) guard_res_def)
  then obtain L where L: "sales_invoice_lines si = Inr L" ..
  then show "post_sales_invoice co today i lg si =
      post_lines co today i lg (''SALES_INVOICE'', ps_id si0, ''COMPLETE'') (ps_date si0) (built_sale si)"
    by (simp add: post_sales_invoice_def built_sale_def f(5,6))
  have grid: "list_all (\<lambda>x. q2 x = x) [dc_cgst d, dc_sgst d, dc_igst d, dc_cess d, dc_cgst (ps_doc si),
      dc_sgst (ps_doc si), dc_igst (ps_doc si), dc_cess (ps_doc si)]"
    using foot(11) by (simp add: f(1))
  have "round_off_line 0 Credit_Side c = []" for c by (simp add: round_off_line_def q_eval)
  then show "built_sale si = [of_customer (ps_customer si0) (dr ''1200'' (dc_grand d + ps_tcs si) cc),
        cr ''4100'' (dc_grand d - header_tax d - dc_round_off d) cc]
      @ tax_component_lines [(''2210'', dc_cgst d), (''2220'', dc_sgst d), (''2230'', dc_igst d), (''2270'', dc_cess d)]
          Credit_Side cc
      @ round_off_line (dc_round_off d) Credit_Side cc @ (if 0 < ps_tcs si then [cr ''2266'' (ps_tcs si) cc] else [])"
    using sale_lines_cases [OF L sums grid] foot(13) plain f(2)
    by (cases "ps_tcs si = 0") (simp_all add: built_sale_def L f(1,7,8) header_tax_def cc_def algebra_simps)
qed

text \<open>
  C2. A computed invoice posts: if the tax engine computed the totals and lines (not under reverse charge),
  no amount is negative, the discount does not eat into the tax and the total is not zero, then completing it
  (folding TCS into the total, posting) on a ledger that is ready makes one voucher that debits the customer with the grand total,
  TCS included, credits every tax ledger with the header tax and TCS, and credits sales with the rest.
\<close>

theorem completed_invoice_posts:
  assumes ok: "computed_invoice table document items intra disc ro m si0"
    and si: "apply_tcs_fold rate manual si0 = (si, override)" and due: "dc_grand (ps_doc si) \<noteq> 0"
    and ready: "ready_for co today lg (''SALES_INVOICE'', ps_id si0, ''COMPLETE'') (ps_date si0) (built_sale si)"
  shows "\<exists>e lg'. post_sales_invoice co today i lg si = Inr (Some e, lg') \<and> lg_entries lg' = lg_entries lg @ [e] \<and>
    je_source e = (''SALES_INVOICE'', ps_id si0, ''COMPLETE'') \<and> je_date e = ps_date si0 \<and>
    (let n = net (je_lines e); d = ps_doc si0 in
      n ''1200'' = dc_grand (ps_doc si) \<and> n ''1200'' = dc_grand d + ps_tcs si \<and> n ''2266'' = - ps_tcs si \<and>
      n ''2210'' = - dc_cgst d \<and> n ''2220'' = - dc_sgst d \<and> n ''2230'' = - dc_igst d \<and> n ''2270'' = - dc_cess d \<and>
      n ''4100'' = - (dc_grand d - header_tax d - dc_round_off d))"
proof -
  have s: "si = fst (apply_tcs_fold rate manual si0)" using si by simp
  note b = built_lines [where rate = rate and manual = manual, OF ok, folded s]
  have some: "list_ex (\<lambda>l. jl_debit l \<noteq> 0 \<or> jl_credit l \<noteq> 0) (built_sale si)"
    using due by (simp add: b(4,6) on_side_def)
  obtain e lg' where e: "post_lines co today i lg (''SALES_INVOICE'', ps_id si0, ''COMPLETE'') (ps_date si0) (built_sale si)
      = Inr (Some e, lg')" "je_source e = (''SALES_INVOICE'', ps_id si0, ''COMPLETE'')" "je_date e = ps_date si0"
      "je_lines e = filter (\<lambda>l. jl_debit l \<noteq> 0 \<or> jl_credit l \<noteq> 0) (built_sale si)"
      "lg_entries lg' = lg_entries lg @ [e]"
    using sales_voucher.ledger_takes_it [OF b(1) ready some] by blast
  have n: "net (je_lines e) a = net (built_sale si) a" for a unfolding e(4) by (rule net_nonzero)
  show ?thesis unfolding b(5) e(1)
    by (intro exI [of _ e] exI [of _ lg']) (use b(2) in \<open>simp add: n b(4,6) e(2,3,5) voucher_simps\<close>)
qed

text \<open>
  Folding TCS is idempotent, so completing or amending again never adds the tax twice: a second fold
  reproduces the invoice, provided an amount supplied by the operator is marked as such.
\<close>

theorem tcs_fold_idempotent:
  assumes "nonneg_paise (ps_tcs si)" and "q2 (dc_grand (ps_doc si)) = dc_grand (ps_doc si)"
    and "list_all (\<lambda>x. 0 \<le> x) [dc_taxable (ps_doc si), dc_cgst (ps_doc si), dc_sgst (ps_doc si),
      dc_igst (ps_doc si), dc_cess (ps_doc si)]"
    and "manual \<or> ps_tcs_folded si \<or> ps_tcs si = 0"
  shows "(let once = fst (apply_tcs_fold rate manual si) in fst (apply_tcs_fold rate manual once) = once)"
proof -
  let ?d = "ps_doc si"
  have "charges_are_taxable (d\<lparr>dc_grand := g\<rparr>) = charges_are_taxable d" for d g
    by (simp add: charges_are_taxable_def)
  then have c: "rate_tcs rate (d\<lparr>dc_grand := g\<rparr>) = rate_tcs rate d" for d g
    by (simp add: rate_tcs_def tcs_consideration_def)
  define base where "base = (if ps_tcs_folded si \<and> 0 < ps_tcs si then dc_grand ?d - ps_tcs si else dc_grand ?d)"
  define amount where "amount = (if manual then ps_tcs si else rate_tcs rate ?d)"
  define once where "once = si\<lparr>ps_doc := ?d\<lparr>dc_grand := base + amount\<rparr>, ps_tcs := amount, ps_tcs_folded := (amount \<noteq> 0)\<rparr>"
  have nn: "nonneg_paise amount"
    using assms(1,3) by (auto simp: amount_def nonneg_paise_def rate_tcs_def tcs_consideration_def
        intro!: paisa.nonneg mult_nonneg_nonneg)
  have q: "q2 base = base" "quantize_even 2 base = base" "quantize_even 2 (base + amount) = base + amount"
    using assms(1,2) nn by (simp_all add: base_def nonneg_paise_def paisa.fixed_diff paisa.fixed_add paisa_even_fixed)
  have step: "fst (apply_tcs_fold rate manual x) = once"
    if "unfold_tcs x = ?d\<lparr>dc_grand := base\<rparr>"
      "(case explicit_tcs manual x of Some y \<Rightarrow> y | None \<Rightarrow> if 0 < rate then rate_tcs rate ?d else 0) = amount"
      "x\<lparr>ps_doc := ?d\<lparr>dc_grand := base + amount\<rparr>, ps_tcs := amount, ps_tcs_folded := (amount \<noteq> 0)\<rparr> = once" for x
    unfolding apply_tcs_fold_def Let_def that(1) c that(2) fst_conv using q(3) that(3) by auto
  have "fst (apply_tcs_fold rate manual si) = once"
  proof (rule step)
    show "unfold_tcs si = ?d\<lparr>dc_grand := base\<rparr>"
      using q(2) unfolding unfold_tcs_def base_def by (auto split: if_splits)
    show "(case explicit_tcs manual si of Some y \<Rightarrow> y | None \<Rightarrow> if 0 < rate then rate_tcs rate ?d else 0) = amount"
      using assms(1,4) by (auto simp: explicit_tcs_def amount_def nonneg_paise_def rate_tcs_def)
  qed (simp add: once_def)
  moreover have "fst (apply_tcs_fold rate manual once) = once"
  proof (rule step)
    show "unfold_tcs once = ?d\<lparr>dc_grand := base\<rparr>"
      using nn q(2) by (auto simp: unfold_tcs_def once_def nonneg_paise_def)
    show "(case explicit_tcs manual once of Some y \<Rightarrow> y | None \<Rightarrow> if 0 < rate then rate_tcs rate ?d else 0) = amount"
      by (auto simp: explicit_tcs_def once_def) (auto simp: amount_def rate_tcs_def)
  qed (simp add: once_def)
  ultimately show ?thesis by (simp add: Let_def)
qed

theorem tcs_fold_idempotent_witness:
  "(let si = sample_sale (fresh_doc\<lparr>dc_taxable := 100, dc_grand := 118\<rparr>) [];
        once = fst (apply_tcs_fold 1 False si)
    in ps_tcs once = 1 \<and> fst (apply_tcs_fold 1 False once) = once)"
proof -
  let ?si = "sample_sale (fresh_doc\<lparr>dc_taxable := 100, dc_grand := 118\<rparr>) []"
  have q: "q2 118 = 118" by (simp add: q_eval)
  have "ps_tcs (fst (apply_tcs_fold 1 False ?si)) = 1"
    by code_simp
  then show ?thesis using tcs_fold_idempotent [of ?si False 1] q
    by (simp add: Let_def sample_sale_def fresh_doc_def nonneg_paise_def)
qed

lemma unmarked_tcs_is_lost:
  "(let once = fst (apply_tcs_fold 0 False ((sample_sale fresh_doc [])\<lparr>ps_tcs := 5\<rparr>));
        twice = fst (apply_tcs_fold 0 False once)
    in ps_tcs once = 5 \<and> dc_grand (ps_doc once) = 5 \<and> ps_tcs twice = 0 \<and> dc_grand (ps_doc twice) = 0)"
  by code_simp

lemma resolve_active:
  "list_all (\<lambda>c. find_account ga_active c chart \<noteq> None) cs \<Longrightarrow> resolve_accounts cs chart = Inr chart"
  by (induction cs) (auto simp: use_account_def)

text \<open>The example books of \<open>General_Ledger\<close> are ready for any voucher over the chart.\<close>

lemma example_ready:
  assumes "set (map jl_account ls) \<subseteq> set CHART"
  shows "ready_for example_books (Date 2025 5 2) new_ledger src (Date 2025 5 2) ls"
proof -
  have "list_all (\<lambda>c. find_account ga_active c (seed_chart_of_accounts []) \<noteq> None) CHART"
    "ensure_chart (seed_chart_of_accounts []) = seed_chart_of_accounts []"
    by code_simp+
  then have "list_all (\<lambda>c. find_account ga_active c (ensure_chart (lg_chart new_ledger)) \<noteq> None) (map jl_account ls)"
    using assms(1) by (auto simp: list_all_iff new_ledger_def)
  note r = resolve_active [OF this]
  have a: "assert_period_allows_money_amend example_books new_ledger (Date 2025 5 2) False = Inr ()" by code_simp
  have k: "next_number True plain_company (Date 2025 5 2) [] ''JOURNAL_ENTRY'' None None
    = Inr (''JV-00001'', [\<lparr>sr_key = (''JOURNAL_ENTRY'', [], []), sr_prefix = ''JV'', sr_next = 2, sr_padding = 5\<rparr>])"
    by code_simp
  show ?thesis
    unfolding ready_for_def r using a k \<open>list_all _ (map jl_account ls)\<close>
    by (simp add: example_books_def posts_to_ledger_def new_ledger_def posted_sources_def less_date_def
        less_eq_date_def list_all_iff)
qed

theorem completed_invoice_posts_witness:
  "\<exists>d lines e lg'. post_sales_invoice example_books (Date 2025 5 2) 1 new_ledger
      (fst (apply_tcs_fold 0 False (sample_sale d lines))) = Inr (Some e, lg') \<and>
    net (je_lines e) ''1200'' = 118 \<and> net (je_lines e) ''2210'' = -9"
proof -
  obtain d lines where ok: "compute_document_totals [] fresh_doc [fresh_item] True True None None None None = Inr (d, lines)"
    and d: "dc_cgst d = 9" "dc_grand d = 118" "list_all (\<lambda>x. x = 0) [dc_igst d, dc_cess d, dc_charges d, dc_inv_disc d, dc_round_off d]"
      "dc_taxable d = 100"
    using sample_totals by blast
  let ?inv = "sample_sale d lines"
  have s: "apply_tcs_fold 0 False ?inv = (?inv, None)"
    by (simp add: apply_tcs_fold_def Let_def sample_sale_def explicit_tcs_def unfold_tcs_def)
  have sgst: "dc_sgst d = 9" using document_totals_facts(3) [OF ok] d by simp
  have ci: "computed_invoice [] fresh_doc [fresh_item] True None None None ?inv"
    using ok d sgst by (simp add: computed_invoice_def Let_def sample_sale_def fresh_doc_def nonneg_paise_def header_tax_def)
  have "round_off_line 0 Credit_Side c = []" for c by (simp add: round_off_line_def q_eval)
  then have "built_sale ?inv = [of_customer (Some 7) (dr ''1200'' 118 None), cr ''4100'' 100 None,
      cr ''2210'' 9 None, cr ''2220'' 9 None]"
    using built_lines(6) [OF ci, of 0 False] d sgst
    by (simp add: s) (simp add: sample_sale_def tax_component_lines_def header_tax_def)
  then have ready: "ready_for example_books (Date 2025 5 2) new_ledger (''SALES_INVOICE'', ps_id ?inv, ''COMPLETE'')
      (ps_date ?inv) (built_sale ?inv)"
    using example_ready [of "built_sale ?inv"] by (simp add: sample_sale_def CHART_def)
  have "dc_grand (ps_doc ?inv) \<noteq> 0" "ps_tcs ?inv = 0" "ps_doc ?inv = d" using d by (simp_all add: sample_sale_def)
  then obtain e lg' where "post_sales_invoice example_books (Date 2025 5 2) 1 new_ledger ?inv = Inr (Some e, lg')"
    "net (je_lines e) ''1200'' = 118" "net (je_lines e) ''2210'' = -9"
    using completed_invoice_posts [OF ci s _ ready, of 1] d by (auto simp: Let_def)
  then show ?thesis using s by (intro exI [of _ d] exI [of _ lines]) auto
qed

text \<open>
  A reverse-charge sale with taxed freight cannot be completed: the header and the lines lost their tax,
  but the freight's tax is still counted on the line side, so the drift check refuses the posting.
\<close>

theorem rcm_freight_sale_refused:
  assumes "apply_rcm_memo_after_tax document items = Inr (d, lines)" and "dc_rcm document" and "charges_are_taxable d"
    and "5/100 < 2 * q2 (q2 (q2 (dc_charges d) * dc_charges_rate d / 100) / 2)"
    and "ps_doc si = d" "ps_items si = lines"
  shows "post_sales_invoice co today i lg si
    = Inl (Business_Rule ''Invoice tax headers do not match line tax totals; cannot post GL.'')"
proof -
  have d: "dc_cgst d = 0" "dc_sgst d = 0" "dc_igst d = 0" "dc_cess d = 0"
    and l: "lines = map (\<lambda>i. i\<lparr>it_cgst := 0, it_sgst := 0, it_igst := 0,
                  it_cess := (if it_has_cess i then 0 else it_cess i),
                  it_total := q2 (it_taxable i)\<rparr>) items"
    using assms(1,2) by (auto simp: apply_rcm_memo_after_tax_def Let_def guard_res_Inr_iff)
  have z: "(\<Sum>i\<leftarrow>lines. it_cgst i) = 0" "(\<Sum>i\<leftarrow>lines. it_sgst i) = 0" "(\<Sum>i\<leftarrow>lines. it_igst i) = 0"
    "(\<Sum>i\<leftarrow>lines. line_cess i) = 0"
    unfolding l by (induction items) (auto simp: line_cess_def)
  obtain c where c: "charge_line d True = Some c" "ch_cgst c = q2 (q2 (q2 (dc_charges d) * dc_charges_rate d / 100) / 2)"
    "ch_sgst c = ch_cgst c" "ch_igst c = 0"
    using assms(3) by (simp add: charge_line_def Let_def)
  have "line_tax_sums si = (ch_cgst c, ch_cgst c, 0, 0)"
    using c assms(3) by (simp add: line_tax_sums_def Let_def assms(5,6) z d taxable_charge_line_def)
  then have "sales_invoice_lines si
      = Inl (Business_Rule ''Invoice tax headers do not match line tax totals; cannot post GL.'')"
    using assms(4) c(2) by (simp add: sales_invoice_lines_def assms(5) d guard_res_def Let_def)
  then show ?thesis by (simp add: post_sales_invoice_def)
qed

theorem rcm_freight_sale_refused_witness:
  "\<exists>d lines. apply_rcm_memo_after_tax freight_doc [sample_item] = Inr (d, lines) \<and>
    post_sales_invoice example_books (Date 2025 5 2) 1 new_ledger (sample_sale d lines)
    = Inl (Business_Rule ''Invoice tax headers do not match line tax totals; cannot post GL.'')"
proof -
  have "(case apply_rcm_memo_after_tax freight_doc [sample_item] of Inl _ \<Rightarrow> False
    | Inr (d, lines) \<Rightarrow> charges_are_taxable d \<and> 5/100 < 2 * q2 (q2 (q2 (dc_charges d) * dc_charges_rate d / 100) / 2))"
    by code_simp
  then obtain d lines where r: "apply_rcm_memo_after_tax freight_doc [sample_item] = Inr (d, lines)"
    "charges_are_taxable d" "5/100 < 2 * q2 (q2 (q2 (dc_charges d) * dc_charges_rate d / 100) / 2)"
    by (auto split: sum.splits)
  have "dc_rcm freight_doc" by (simp add: freight_doc_def)
  from rcm_freight_sale_refused [OF r(1) this r(2,3)] r(1) show ?thesis by (auto simp: sample_sale_def)
qed

end
