(* ===== verification/Purchase_Postings.thy ===== *)
theory Purchase_Postings
  imports Sales_Postings
begin

text \<open>
  The postings of the buying side (\<open>PostingService\<close> in \<open>accounting/services.py\<close>): purchase bills under each
  status of the input tax credit, its later review, customs bills of entry, supplier payments and the four
  kinds of credit and debit notes.
\<close>

section \<open>Input tax credit\<close>

datatype itc_eligibility = UNREVIEWED | CLAIMABLE | INELIGIBLE | REVERSED_ITC

type_synonym gst_legs = "rat \<times> rat \<times> rat \<times> rat"    \<comment> \<open>CGST, SGST, IGST, cess\<close>

definition total_legs :: "gst_legs \<Rightarrow> rat" where
  "total_legs legs = (case legs of (c, s, i, x) \<Rightarrow> c + s + i + x)"

definition input_map :: "gst_legs \<Rightarrow> (string \<times> rat) list" where
  "input_map legs = (case legs of (c, s, i, x) \<Rightarrow> [(''1310'', c), (''1320'', s), (''1330'', i), (''1370'', x)])"

definition rcm_map :: "gst_legs \<Rightarrow> (string \<times> rat) list" where
  "rcm_map legs = (case legs of (c, s, i, x) \<Rightarrow> [(''2240'', c), (''2250'', s), (''2260'', i), (''2280'', x)])"

definition output_map :: "gst_legs \<Rightarrow> (string \<times> rat) list" where
  "output_map legs = (case legs of (c, s, i, x) \<Rightarrow> [(''2210'', c), (''2220'', s), (''2230'', i), (''2270'', x)])"

definition capitalizes :: "itc_eligibility \<Rightarrow> bool" where
  "capitalizes itc = (itc = INELIGIBLE \<or> itc = REVERSED_ITC)"

text \<open>\<open>_purchase_itc_input_lines\<close>: the tax lines, and the tax that goes into the stock value.\<close>

definition purchase_itc_input_lines ::
  "itc_eligibility \<Rightarrow> bool \<Rightarrow> gst_legs \<Rightarrow> side \<Rightarrow> int option \<Rightarrow> jline list \<times> rat" where
  "purchase_itc_input_lines itc reverse_charge legs s cc =
    (if capitalizes itc then ([], total_legs legs)
     else if \<not> reverse_charge \<and> itc = UNREVIEWED then (tax_component_lines [(''1390'', total_legs legs)] s cc, 0)
     else (tax_component_lines (input_map legs) s cc, 0))"

section \<open>Purchase bills\<close>

record posted_purchase =
  pp_id :: int
  pp_doc :: tax_doc
  pp_items :: "tax_item list"
  pp_date :: date
  pp_supplier :: "int option"
  pp_cost_center :: "int option"
  pp_itc :: itc_eligibility
  pp_tds :: rat

definition header_legs :: "tax_doc \<Rightarrow> gst_legs" where
  "header_legs d = (dc_cgst d, dc_sgst d, dc_igst d, dc_cess d)"

definition memo_legs :: "tax_doc \<Rightarrow> gst_legs" where
  "memo_legs d = (dc_rcm_cgst d, dc_rcm_sgst d, dc_rcm_igst d, dc_rcm_cess d)"

definition purchase_line_taxable :: "posted_purchase \<Rightarrow> rat" where
  "purchase_line_taxable bill =
    (if pp_items bill = [] \<and> 0 < dc_taxable (pp_doc bill) then dc_taxable (pp_doc bill)
     else (\<Sum>i\<leftarrow>pp_items bill. it_taxable i))"

definition purchase_tax_drift :: "posted_purchase \<Rightarrow> rat" where
  "purchase_tax_drift bill =
    (let items = pp_items bill; d = pp_doc bill in
     \<bar>(\<Sum>i\<leftarrow>items. it_cgst i) - dc_cgst d\<bar> + \<bar>(\<Sum>i\<leftarrow>items. it_sgst i) - dc_sgst d\<bar>
     + \<bar>(\<Sum>i\<leftarrow>items. it_igst i) - dc_igst d\<bar> + \<bar>(\<Sum>i\<leftarrow>items. line_cess i) - dc_cess d\<bar>)"

definition after_tax_discount :: "tax_doc \<Rightarrow> rat" where
  "after_tax_discount d =
    (if 0 < dc_inv_disc d \<and> py_upper (dc_disc_mode d) = ''AFTER_TAX'' then dc_inv_disc d else 0)"

definition purchase_residual :: "posted_purchase \<Rightarrow> rat" where
  "purchase_residual bill =
    (let d = pp_doc bill in
     dc_grand d - header_tax d - purchase_line_taxable bill - dc_round_off d + after_tax_discount d)"

definition purchase_round_off :: "posted_purchase \<Rightarrow> rat" where
  "purchase_round_off bill =
    (let d = pp_doc bill; residual = purchase_residual bill in
     if dc_charges d \<le> 0 \<and> 0 < residual then dc_round_off d + residual else dc_round_off d)"

text \<open>The lines once the checks have passed; \<open>charges\<close> goes second, as \<open>lines.insert(1, ..)\<close> puts it.\<close>

definition insert_second :: "jline list \<Rightarrow> jline list \<Rightarrow> jline list" where
  "insert_second xs ls = take 1 ls @ xs @ drop 1 ls"

definition purchase_value_lines :: "posted_purchase \<Rightarrow> jline list" where
  "purchase_value_lines bill =
    (let d = pp_doc bill; cc = pp_cost_center bill; tds = pp_tds bill; itc = pp_itc bill;
         ap_credit = dc_grand d - (if 0 < tds then tds else 0);
         tds_line = (if 0 < tds then [of_supplier (pp_supplier bill) (cr ''2265'' tds cc)] else []);
         charge_line = (if 0 < dc_charges d then [dr ''5110'' (dc_charges d) cc] else []) in
     if dc_rcm d then
       let (itc_lines, capitalized) = purchase_itc_input_lines itc True (memo_legs d) Debit_Side cc;
           inventory = purchase_line_taxable bill + capitalized in
       insert_second charge_line
         ([dr ''1400'' inventory cc, of_supplier (pp_supplier bill) (cr ''2100'' ap_credit cc)]
          @ tax_component_lines (rcm_map (memo_legs d)) Credit_Side cc @ itc_lines @ tds_line)
     else
       let tax = header_tax d;
           inventory = purchase_line_taxable bill + (if capitalizes itc then tax else 0);
           tax_lines = (if capitalizes itc then []
             else if itc = UNREVIEWED then tax_component_lines [(''1390'', tax)] Debit_Side cc
             else tax_component_lines (input_map (header_legs d)) Debit_Side cc) in
       insert_second charge_line
         ([dr ''1400'' inventory cc] @ tax_lines
          @ [of_supplier (pp_supplier bill) (cr ''2100'' ap_credit cc)] @ tds_line))"

definition purchase_lines :: "posted_purchase \<Rightarrow> jline list res" where
  "purchase_lines bill =
    (let d = pp_doc bill; cc = pp_cost_center bill; discount = after_tax_discount d in
     guard_res (5/100 < purchase_tax_drift bill)
       (Business_Rule ''Purchase tax headers do not match line tax totals; cannot post GL.'') (
     guard_res (dc_charges d \<le> 0 \<and> 5/100 < \<bar>purchase_residual bill\<bar>)
       (Business_Rule ''Purchase tax/totals residual exceeds TAX_LINE_DRIFT_MAX'') (
     guard_res (0 < pp_tds bill \<and> dc_grand d < pp_tds bill)
       (Business_Rule ''TDS amount cannot exceed purchase grand total.'') (
     Inr (purchase_value_lines bill
          @ (if 0 < discount then [cr ''1400'' discount cc] else [])
          @ round_off_line (purchase_round_off bill) Debit_Side cc)))))"

definition post_purchase ::
  "gl_company \<Rightarrow> date \<Rightarrow> int \<Rightarrow> ledger \<Rightarrow> posted_purchase \<Rightarrow> (jentry option \<times> ledger) res" where
  "post_purchase co today new_id lg bill =
    bind_res (purchase_lines bill)
      (post_lines co today new_id lg (''PURCHASE_INVOICE'', pp_id bill, ''COMPLETE'') (pp_date bill))"

definition post_opening_purchase_invoice ::
  "gl_company \<Rightarrow> date \<Rightarrow> int \<Rightarrow> ledger \<Rightarrow> posted_purchase \<Rightarrow> (jentry option \<times> ledger) res" where
  "post_opening_purchase_invoice co today new_id lg bill =
    (let amount = dc_grand (pp_doc bill) in
     if amount = 0 then Inr (None, lg)
     else post_lines co today new_id lg (''PURCHASE_INVOICE'', pp_id bill, ''OPENING'') (pp_date bill)
            [dr ''3200'' amount None, of_supplier (pp_supplier bill) (cr ''2100'' amount None)])"

section \<open>Review of the input tax credit\<close>

text \<open>The net debit of some accounts over the posted entries of a bill.\<close>

definition parked :: "string list \<Rightarrow> ledger \<Rightarrow> int \<Rightarrow> rat" where
  "parked accounts lg invoice =
    (let ls = concat (map je_lines (filter (\<lambda>e. je_status e = POSTED \<and> fst (je_source e) = ''PURCHASE_INVOICE''
                \<and> fst (snd (je_source e)) = invoice) (lg_entries lg)));
         mine = filter (\<lambda>l. jl_account l \<in> set accounts) ls
     in debits mine - credits mine)"

definition unreviewed_itc_parked :: "ledger \<Rightarrow> int \<Rightarrow> rat" where
  "unreviewed_itc_parked = parked [''1390'']"

definition claimable_input_gst_parked :: "ledger \<Rightarrow> int \<Rightarrow> rat" where
  "claimable_input_gst_parked = parked [''1310'', ''1320'', ''1330'', ''1370'']"

definition reclass_lines :: "posted_purchase \<Rightarrow> jline list" where
  "reclass_lines bill = tax_component_lines (input_map (header_legs (pp_doc bill))) Debit_Side None
     @ tax_component_lines [(''1390'', header_tax (pp_doc bill))] Credit_Side None"

definition reclass_unreviewed_itc ::
  "gl_company \<Rightarrow> date \<Rightarrow> int \<Rightarrow> ledger \<Rightarrow> posted_purchase \<Rightarrow> (jentry option \<times> ledger) res" where
  "reclass_unreviewed_itc co today new_id lg bill =
    (if \<not> posts_to_ledger co \<or> unreviewed_itc_parked lg (pp_id bill) \<le> 0 \<or> header_tax (pp_doc bill) \<le> 0
     then Inr (None, lg)
     else post_lines co today new_id lg (''PURCHASE_INVOICE'', pp_id bill, ''ITC_RECLASS'') (pp_date bill)
            (reclass_lines bill))"

text \<open>The share of the bill's goods still on hand, from the received quantities and the layers left.\<close>

definition rejected_itc_onhand_fraction :: "rat list \<Rightarrow> rat list \<Rightarrow> rat" where
  "rejected_itc_onhand_fraction received layers =
    (if sum_list received \<le> 0 \<or> layers = [] then 1
     else let frac = ddiv (sum_list layers) (sum_list received) in
       if frac < 0 then 0 else if 1 < frac then 1 else frac)"

definition map_legs :: "(rat \<Rightarrow> rat) \<Rightarrow> gst_legs \<Rightarrow> gst_legs" where
  "map_legs f legs = (case legs of (c, s, i, x) \<Rightarrow> (f c, f s, f i, f x))"

definition reclass_rejected_itc ::
  "gl_company \<Rightarrow> date \<Rightarrow> int \<Rightarrow> ledger \<Rightarrow> posted_purchase \<Rightarrow> rat list \<Rightarrow> rat list \<Rightarrow> (jentry option \<times> ledger) res" where
  "reclass_rejected_itc co today new_id lg bill received layers =
    (let tax = header_tax (pp_doc bill); src = (''PURCHASE_INVOICE'', pp_id bill, ''ITC_REJECT'');
         send = (\<lambda>ds cs. if ds = [] \<or> cs = [] then Inr (None, lg)
                  else post_lines co today new_id lg src (pp_date bill) (ds @ cs)) in
     if \<not> posts_to_ledger co \<or> tax \<le> 0 then Inr (None, lg)
     else if 0 < unreviewed_itc_parked lg (pp_id bill) then
       let to_inventory = quantize_even 2 (dmul tax (rejected_itc_onhand_fraction received layers));
           to_cogs = tax - to_inventory in
       send (tax_component_lines ((if 0 < to_inventory then [(''1400'', to_inventory)] else [])
               @ (if 0 < to_cogs then [(''5400'', to_cogs)] else [])) Debit_Side (pp_cost_center bill))
            (tax_component_lines [(''1390'', tax)] Credit_Side None)
     else if 0 < claimable_input_gst_parked lg (pp_id bill) then
       let legs = map_legs q2 (header_legs (pp_doc bill)) in
       send (tax_component_lines [(''5250'', total_legs legs)] Debit_Side None)
            (tax_component_lines (input_map legs) Credit_Side None)
     else Inr (None, lg))"

section \<open>Bills of entry and supplier payments\<close>

record bill_of_entry =
  be_id :: int
  be_igst :: rat
  be_cess :: rat
  be_bcd :: rat
  be_eligible :: bool
  be_supplier :: "int option"
  be_date :: date

definition bill_of_entry_lines :: "bill_of_entry \<Rightarrow> jline list" where
  "bill_of_entry_lines b =
    (let cost = be_bcd b + (if be_eligible b then 0 else be_igst b + be_cess b) in
     (if be_eligible b
      then (if 0 < be_igst b then [dr ''1330'' (be_igst b) None] else [])
           @ (if 0 < be_cess b then [dr ''1370'' (be_cess b) None] else [])
      else [])
     @ (if 0 < cost then [dr ''5110'' cost None] else [])
     @ [of_supplier (be_supplier b) (cr ''2100'' (be_igst b + be_cess b + be_bcd b) None)])"

definition post_bill_of_entry ::
  "gl_company \<Rightarrow> date \<Rightarrow> int \<Rightarrow> ledger \<Rightarrow> bill_of_entry \<Rightarrow> (jentry option \<times> ledger) res" where
  "post_bill_of_entry co today new_id lg b =
    (if \<not> posts_to_ledger co \<or> be_igst b + be_cess b + be_bcd b \<le> 0 then Inr (None, lg)
     else post_lines co today new_id lg (''BILL_OF_ENTRY'', be_id b, ''COMPLETE'') (be_date b) (bill_of_entry_lines b))"

definition reverse_bill_of_entry ::
  "gl_company \<Rightarrow> date \<Rightarrow> int \<Rightarrow> ledger \<Rightarrow> bill_of_entry \<Rightarrow> (jentry option \<times> ledger) res" where
  "reverse_bill_of_entry co today new_id lg b =
    (case find (same_posting (''BILL_OF_ENTRY'', be_id b, ''COMPLETE'')) (lg_entries lg) of
       None \<Rightarrow> Inr (None, lg)
     | Some e \<Rightarrow> bind_res (reverse co today new_id lg e (Some (je_date e)) None) (\<lambda>(_, lg1). Inr (Some e, lg1)))"

record posted_payment =
  py_id :: int
  py_amount :: rat
  py_tds :: rat
  py_supplier :: "int option"
  py_bank :: "int option"
  py_date :: date

definition supplier_payment_lines :: "posted_payment \<Rightarrow> string \<Rightarrow> jline list" where
  "supplier_payment_lines p bank =
    [of_supplier (py_supplier p) (dr ''1250'' (py_amount p + py_tds p) None), cr bank (py_amount p) None]
    @ (if 0 < py_tds p then [of_supplier (py_supplier p) (cr ''2265'' (py_tds p) None)] else [])"

definition post_supplier_payment ::
  "gl_company \<Rightarrow> date \<Rightarrow> int \<Rightarrow> ledger \<Rightarrow> posted_payment \<Rightarrow> (jentry option \<times> ledger) res" where
  "post_supplier_payment co today new_id lg p =
    bind_res (money_account co lg (py_bank p) (py_date p)) (\<lambda>(bank, lg1).
      post_lines co today new_id lg1 (''SUPPLIER_PAYMENT'', py_id p, ''CREATE'') (py_date p)
        (supplier_payment_lines p bank))"

definition post_supplier_payment_allocation ::
  "gl_company \<Rightarrow> date \<Rightarrow> int \<Rightarrow> ledger \<Rightarrow> int \<Rightarrow> rat \<Rightarrow> (int option \<times> date) option \<Rightarrow> (jentry option \<times> ledger) res" where
  "post_supplier_payment_allocation co today new_id lg allocation_id amount payment =
    (if amount = 0 then Inr (None, lg)
     else let supplier = (case payment of None \<Rightarrow> None | Some (s, _) \<Rightarrow> s);
              d = (case payment of None \<Rightarrow> today | Some (_, d) \<Rightarrow> d) in
       post_lines co today new_id lg (''PAYMENT_ALLOCATION'', allocation_id, ''ALLOCATE_PAYMENT'') d
         [of_supplier supplier (dr ''2100'' amount None), of_supplier supplier (cr ''1250'' amount None)])"

section \<open>Purchase vouchers balance\<close>

lemma insert_second_sums [voucher_simps]:
  "excess (insert_second xs ls) = excess xs + excess ls" "net (insert_second xs ls) a = net xs a + net ls a"
  "list_all P (insert_second xs ls) = (list_all P xs \<and> list_all P ls)"
proof -
  have ls: "ls = take 1 ls @ drop 1 ls" by simp
  have "excess ls = excess (take 1 ls) + excess (drop 1 ls)" "net ls a = net (take 1 ls) a + net (drop 1 ls) a"
    "list_all P ls = (list_all P (take 1 ls) \<and> list_all P (drop 1 ls))"
    by (subst ls, simp only: excess_simps net_simps list_all_append)+
  then show "excess (insert_second xs ls) = excess xs + excess ls" "net (insert_second xs ls) a = net xs a + net ls a"
    "list_all P (insert_second xs ls) = (list_all P xs \<and> list_all P ls)"
    by (auto simp: insert_second_def excess_simps net_simps)
qed

lemma leg_maps_total [simp]:
  "(\<Sum>(a, x)\<leftarrow>input_map legs. x) = total_legs legs" "(\<Sum>(a, x)\<leftarrow>rcm_map legs. x) = total_legs legs"
  "(\<Sum>(a, x)\<leftarrow>output_map legs. x) = total_legs legs"
  by (cases legs; simp add: input_map_def rcm_map_def output_map_def total_legs_def)+

lemma header_total: "header_tax d = total_legs (header_legs d)"
  by (simp add: header_tax_def header_legs_def total_legs_def)

definition legs_ok :: "gst_legs \<Rightarrow> bool" where
  "legs_ok legs = (case legs of (c, s, i, x) \<Rightarrow> list_all nonneg_paise [c, s, i, x])"

lemma legs_ok_total: "legs_ok legs \<Longrightarrow> nonneg_paise (total_legs legs)"
  by (cases legs) (auto simp: legs_ok_def total_legs_def nonneg_paise_def paisa.fixed_add)

lemma legs_ok_maps:
  "legs_ok legs \<Longrightarrow> list_all (\<lambda>(a, x). q2 x = x \<and> 0 \<le> x) (input_map legs)"
  "legs_ok legs \<Longrightarrow> list_all (\<lambda>(a, x). q2 x = x \<and> 0 \<le> x) (rcm_map legs)"
  "legs_ok legs \<Longrightarrow> list_all (\<lambda>(a, x). q2 x = x \<and> 0 \<le> x) (output_map legs)"
  by (cases legs; simp add: legs_ok_def nonneg_paise_def input_map_def rcm_map_def output_map_def)+

text \<open>What a bill needs to post: amounts in paise that are not negative, and headers that foot.\<close>

definition purchase_ok :: "posted_purchase \<Rightarrow> bool" where
  "purchase_ok bill =
    (let d = pp_doc bill in
     list_all nonneg_paise [purchase_line_taxable bill, dc_charges d, dc_inv_disc d, pp_tds bill, dc_grand d] \<and>
     q2 (dc_round_off d) = dc_round_off d \<and> legs_ok (header_legs d) \<and>
     pp_tds bill \<le> dc_grand d \<and> (dc_rcm d \<longrightarrow> header_tax d = 0 \<and> legs_ok (memo_legs d)) \<and> purchase_tax_drift bill = 0 \<and>
     purchase_line_taxable bill + header_tax d + dc_charges d - after_tax_discount d + dc_round_off d = dc_grand d)"

definition built_purchase :: "posted_purchase \<Rightarrow> jline list" where
  "built_purchase bill = (case purchase_lines bill of Inr ls \<Rightarrow> ls | Inl _ \<Rightarrow> [])"

lemma purchase_built:
  assumes "purchase_ok bill"
  defines "d \<equiv> pp_doc bill" and "cc \<equiv> pp_cost_center bill"
  shows "purchase_lines bill = Inr (built_purchase bill)"
    and "built_purchase bill = purchase_value_lines bill
      @ (if 0 < after_tax_discount d then [cr ''1400'' (after_tax_discount d) cc] else [])
      @ round_off_line (dc_round_off d) Debit_Side cc"
proof -
  have r: "purchase_residual bill = dc_charges d" "0 \<le> dc_charges d"
    using assms(1) by (simp_all add: purchase_ok_def purchase_residual_def d_def Let_def nonneg_paise_def)
  have "purchase_round_off bill = dc_round_off d"
    using r by (simp add: purchase_round_off_def d_def [symmetric] Let_def)
  then have "purchase_lines bill = Inr (purchase_value_lines bill
      @ (if 0 < after_tax_discount d then [cr ''1400'' (after_tax_discount d) cc] else [])
      @ round_off_line (dc_round_off d) Debit_Side cc)"
    using assms(1) r by (auto simp: purchase_lines_def Let_def guard_res_def purchase_ok_def d_def cc_def)
  then show "purchase_lines bill = Inr (built_purchase bill)"
    "built_purchase bill = purchase_value_lines bill
      @ (if 0 < after_tax_discount d then [cr ''1400'' (after_tax_discount d) cc] else [])
      @ round_off_line (dc_round_off d) Debit_Side cc"
    by (simp_all add: built_purchase_def)
qed

lemma after_tax_discount_bounds: "nonneg_paise (dc_inv_disc d) \<Longrightarrow> nonneg_paise (after_tax_discount d)"
  by (simp add: after_tax_discount_def nonneg_paise_def)

lemma itc_lines_excess:
  "excess (fst (purchase_itc_input_lines itc rc legs s cc)) + signed s (snd (purchase_itc_input_lines itc rc legs s cc))
    = signed s (total_legs legs)"
  by (cases s) (simp_all add: purchase_itc_input_lines_def voucher_simps)

lemma itc_lines_fit:
  "legs_ok legs \<Longrightarrow> list_all line_fits (fst (purchase_itc_input_lines itc rc legs s cc))
    \<and> nonneg_paise (snd (purchase_itc_input_lines itc rc legs s cc))"
  using legs_ok_total [of legs] legs_ok_maps [of legs]
  by (auto simp: purchase_itc_input_lines_def nonneg_paise_def intro!: tax_lines_fit)

lemma purchase_balanced:
  assumes "purchase_ok bill"
  shows "excess (built_purchase bill) = 0"
proof -
  let ?d = "pp_doc bill"
  note ok = assms [unfolded purchase_ok_def Let_def list.pred_inject nonneg_paise_def]
  have disc: "0 \<le> after_tax_discount ?d"
    using after_tax_discount_bounds [of ?d] ok by (auto simp: nonneg_paise_def)
  obtain ls cap where itc: "purchase_itc_input_lines (pp_itc bill) True (memo_legs ?d) Debit_Side (pp_cost_center bill) = (ls, cap)"
    by fastforce
  have "excess ls + cap = total_legs (memo_legs ?d)"
    using itc_lines_excess [of "pp_itc bill" True "memo_legs ?d" Debit_Side "pp_cost_center bill"] itc by simp
  then show ?thesis
    unfolding purchase_built(2) [OF assms] purchase_value_lines_def Let_def itc prod.case
    using ok disc by (auto simp: voucher_simps round_off_excess header_total)
qed

lemma purchase_fits:
  assumes "purchase_ok bill"
  shows "list_all line_fits (built_purchase bill)"
proof -
  let ?d = "pp_doc bill"
  note ok = assms [unfolded purchase_ok_def Let_def list.pred_inject]
  have disc: "nonneg_paise (after_tax_discount ?d)" using ok after_tax_discount_bounds by blast
  obtain ls cap where itc: "purchase_itc_input_lines (pp_itc bill) True (memo_legs ?d) Debit_Side (pp_cost_center bill) = (ls, cap)"
    by fastforce
  have "list_all line_fits ls" "nonneg_paise cap" if "dc_rcm ?d"
    using that itc_lines_fit [of "memo_legs ?d" "pp_itc bill" True Debit_Side "pp_cost_center bill"] itc ok by simp_all
  then show ?thesis
    unfolding purchase_built(2) [OF assms] purchase_value_lines_def Let_def itc prod.case
    using ok disc legs_ok_maps [of "memo_legs ?d"] legs_ok_maps [of "header_legs ?d"] legs_ok_total [of "header_legs ?d"]
    by (auto simp: voucher_simps round_off_fits header_total nonneg_paise_def paisa.fixed_add paisa.fixed_diff
        intro!: tax_lines_fit)
qed

interpretation purchase_voucher: voucher_builder built_purchase purchase_ok
  by unfold_locales (simp_all add: purchase_balanced purchase_fits)

lemma no_amounts_net: "\<not> list_ex (\<lambda>l. jl_debit l \<noteq> 0 \<or> jl_credit l \<noteq> 0) ls \<Longrightarrow> net ls a = 0"
  by (induction ls) (auto simp: voucher_simps)

section \<open>Completing a computed bill\<close>

text \<open>
  A bill whose totals come from the tax engine, with the reverse-charge memo applied; a bill has no taxable
  charges (it has no HSN for them), and the amounts are not negative.
\<close>

definition computed_purchase ::
  "hsn_rate list \<Rightarrow> tax_doc \<Rightarrow> tax_item list \<Rightarrow> bool \<Rightarrow> bool \<Rightarrow> rat option \<Rightarrow> bool option \<Rightarrow> string option
    \<Rightarrow> posted_purchase \<Rightarrow> bool" where
  "computed_purchase table document items e intra disc ro m bill =
    ((case compute_document_totals table document items e intra None disc ro m of
        Inl _ \<Rightarrow> False
      | Inr (d, lines) \<Rightarrow> apply_rcm_memo_after_tax d lines = Inr (pp_doc bill, pp_items bill)
          \<and> list_all (\<lambda>x. 0 \<le> x) [dc_cgst d, dc_igst d, dc_cess d]) \<and>
     \<not> charges_are_taxable document \<and> nonneg_paise (pp_tds bill) \<and> pp_tds bill \<le> dc_grand (pp_doc bill) \<and>
     (let d = pp_doc bill in list_all (\<lambda>x. 0 \<le> x) [dc_taxable d, dc_charges d, dc_inv_disc d, dc_grand d] \<and>
       (dc_disc_mode d = ''BEFORE_TAX'' \<or> dc_disc_mode d = ''AFTER_TAX'')))"

lemma computed_purchase_ok:
  assumes "computed_purchase table document items e intra disc ro m bill"
  shows "purchase_ok bill" and "dc_rcm (pp_doc bill) = dc_rcm document"
    and "purchase_line_taxable bill = dc_taxable (pp_doc bill)"
proof -
  let ?d = "pp_doc bill"
  obtain d lines where ok: "compute_document_totals table document items e intra None disc ro m = Inr (d, lines)"
    and memo: "apply_rcm_memo_after_tax d lines = Inr (?d, pp_items bill)"
    and legs: "0 \<le> dc_cgst d" "0 \<le> dc_igst d" "0 \<le> dc_cess d"
    using assms by (auto simp: computed_purchase_def split: sum.splits)
  have b: "\<not> charges_are_taxable document" "nonneg_paise (pp_tds bill)" "pp_tds bill \<le> dc_grand ?d"
    "0 \<le> dc_taxable ?d" "0 \<le> dc_charges ?d" "0 \<le> dc_inv_disc ?d" "0 \<le> dc_grand ?d"
    "dc_disc_mode ?d = ''BEFORE_TAX'' \<or> dc_disc_mode ?d = ''AFTER_TAX''"
    using assms by (auto simp: computed_purchase_def Let_def)
  have none: "(if e then charge_line document intra else None) = None"
    using b(1) by (simp add: charge_line_def)
  note foot = document_totals_facts [OF ok, unfolded none charge_leg_def, simplified]
  have hdr: "legs_ok (header_legs d)"
    using legs foot(3,11) by (simp add: legs_ok_def header_legs_def nonneg_paise_def)
  have upper: "py_upper ''BEFORE_TAX'' = ''BEFORE_TAX''" "py_upper ''AFTER_TAX'' = ''AFTER_TAX''" by code_simp+
  have disc: "after_tax_discount ?d = (if dc_disc_mode ?d = ''BEFORE_TAX'' then 0 else dc_inv_disc ?d)"
    using b(6,8) by (auto simp: after_tax_discount_def upper)
  have "purchase_ok bill \<and> dc_rcm ?d = dc_rcm document \<and> purchase_line_taxable bill = dc_taxable ?d"
  proof (cases "dc_rcm d")
    case False
    then have same: "?d = d" "pp_items bill = lines" using memo by (auto simp: apply_rcm_memo_after_tax_def)
    have lt: "purchase_line_taxable bill = dc_taxable ?d"
      using foot(1) by (auto simp: purchase_line_taxable_def same)
    have "0 \<le> payable_of d False"
      using foot(3,10) b(4-8) legs by (auto simp: payable_of_def same)
    then have "dc_taxable d + header_tax d + dc_charges d - after_tax_discount d + dc_round_off d = dc_grand d"
      using foot(8) disc by (simp add: payable_of_def header_tax_def same)
    moreover have "purchase_tax_drift bill = 0"
      using foot(2-5,7) by (simp add: purchase_tax_drift_def same Let_def)
    ultimately show ?thesis
      using lt b foot(11,13) hdr False by (auto simp: purchase_ok_def Let_def same nonneg_paise_def)
  next
    case True
    note r = rcm_memo_facts [OF memo True]
    have items: "map it_taxable (pp_items bill) = map it_taxable lines" "pp_items bill = [] \<longleftrightarrow> lines = []"
      by (simp_all add: r(6))
    have tx: "dc_taxable ?d = dc_taxable d" "dc_charges ?d = dc_charges d" "dc_inv_disc ?d = dc_inv_disc d"
      "dc_disc_mode ?d = dc_disc_mode d" using r(12) by simp_all
    have lt: "purchase_line_taxable bill = dc_taxable ?d"
      using foot(1) by (auto simp: purchase_line_taxable_def items tx)
    have grid: "q2 (dc_taxable d) = dc_taxable d" "q2 (dc_charges d) = dc_charges d" "q2 (dc_inv_disc d) = dc_inv_disc d"
      using foot(11) by simp_all
    have "dc_taxable ?d + dc_charges ?d - after_tax_discount ?d + dc_round_off ?d = dc_grand ?d"
      using r(7,9) disc b(4-8) by (auto simp: tx grid max_def)
    moreover have "purchase_tax_drift bill = 0"
      unfolding purchase_tax_drift_def Let_def r(1-4,6) by (induction lines) (auto simp: line_cess_def)
    moreover have "legs_ok (memo_legs ?d)"
      using r(5) hdr by (simp add: memo_legs_def header_legs_def legs_ok_def nonneg_paise_def)
    moreover have "q2 (dc_grand ?d) = dc_grand ?d"
      unfolding r(7) using r(10) by (simp add: paisa.fixed_add paisa.fixed_max paisa.fixed_diff)
    ultimately show ?thesis
      using lt b r(1-4,10,11) foot(13) True grid
      by (auto simp: purchase_ok_def Let_def nonneg_paise_def tx header_tax_def header_legs_def legs_ok_def)
  qed
  then show "purchase_ok bill" "dc_rcm ?d = dc_rcm document" "purchase_line_taxable bill = dc_taxable ?d" by blast+
qed


section \<open>Properties\<close>

text \<open>The amount a tax ledger should get: nothing if the tax is capitalised or kept in suspense.\<close>

definition credit_taken :: "itc_eligibility \<Rightarrow> bool \<Rightarrow> bool" where
  "credit_taken itc reverse_charge = (itc = CLAIMABLE \<or> (itc = UNREVIEWED \<and> reverse_charge))"

lemma credit_taken_simps:
  "credit_taken itc rc \<longleftrightarrow> \<not> capitalizes itc \<and> (rc \<or> itc \<noteq> UNREVIEWED)"
  by (cases itc) (auto simp: credit_taken_def capitalizes_def)

text \<open>
  C11. A computed bill posts, whatever its credit status and with or without reverse charge: the supplier is
  credited with the grand total less TDS, TDS goes to its ledger, stock takes the taxable value net of the
  invoice discount (with the tax when it is not creditable), the input ledgers take the tax only when it is
  claimable, suspense takes it while it is unreviewed, and reverse charge adds the liability.
\<close>

theorem completed_purchase_posts:
  assumes ok: "computed_purchase table document items e intra disc ro m bill" and due: "dc_grand (pp_doc bill) \<noteq> 0"
    and ready: "ready_for co today lg (''PURCHASE_INVOICE'', pp_id bill, ''COMPLETE'') (pp_date bill) (built_purchase bill)"
  shows "\<exists>v lg'. post_purchase co today i lg bill = Inr (Some v, lg') \<and> lg_entries lg' = lg_entries lg @ [v] \<and>
    je_source v = (''PURCHASE_INVOICE'', pp_id bill, ''COMPLETE'') \<and> je_date v = pp_date bill \<and>
    (let n = net (je_lines v); d = pp_doc bill; rc = dc_rcm d; itc = pp_itc bill;
         legs = (if rc then memo_legs d else header_legs d) in
      n ''2100'' = pp_tds bill - dc_grand d \<and> n ''2265'' = - pp_tds bill \<and> n ''5110'' = dc_charges d \<and>
      n ''1400'' = dc_taxable d - after_tax_discount d + (if capitalizes itc then total_legs legs else 0) \<and>
      n ''1390'' = (if itc = UNREVIEWED \<and> \<not> rc then total_legs legs else 0) \<and>
      map (\<lambda>(a, x). n a) (input_map legs) = map (\<lambda>(a, x). if credit_taken itc rc then x else 0) (input_map legs) \<and>
      map (\<lambda>(a, x). n a) (rcm_map legs) = map (\<lambda>(a, x). if rc then - x else 0) (rcm_map legs))"
proof -
  note p = computed_purchase_ok [OF ok]
  note built = purchase_built [OF p(1)]
  let ?d = "pp_doc bill"
  have nn: "0 \<le> pp_tds bill" "0 \<le> after_tax_discount ?d" "0 \<le> dc_charges ?d" "dc_rcm ?d \<longrightarrow> header_tax ?d = 0"
    using p(1) after_tax_discount_bounds [of ?d] by (auto simp: purchase_ok_def Let_def nonneg_paise_def)
  obtain ls cap where itc: "purchase_itc_input_lines (pp_itc bill) True (memo_legs ?d) Debit_Side (pp_cost_center bill) = (ls, cap)"
    by fastforce
  obtain hc hs hi hx where h: "header_legs ?d = (hc, hs, hi, hx)" using prod_cases4 by blast
  obtain mc ms mi mx where m: "memo_legs ?d = (mc, ms, mi, mx)" using prod_cases4 by blast
  have n: "net (built_purchase bill) a = (if a = ''1400'' then purchase_line_taxable bill - after_tax_discount ?d else 0)
      + (if a = ''2100'' then pp_tds bill - dc_grand ?d else 0) + (if a = ''2265'' then - pp_tds bill else 0)
      + (if a = ''5110'' then dc_charges ?d else 0)
      + (if dc_rcm ?d then net ls a + (if a = ''1400'' then cap else 0)
           - (\<Sum>(c, x)\<leftarrow>filter (\<lambda>(c, x). c = a) (rcm_map (memo_legs ?d)). x)
         else if capitalizes (pp_itc bill) then (if a = ''1400'' then header_tax ?d else 0)
         else if pp_itc bill = UNREVIEWED then (if a = ''1390'' then header_tax ?d else 0)
         else (\<Sum>(c, x)\<leftarrow>filter (\<lambda>(c, x). c = a) (input_map (header_legs ?d)). x))"
    if "a \<noteq> ''5500''" for a
    unfolding built(2) purchase_value_lines_def Let_def itc prod.case using nn that
    by (auto simp: voucher_simps capitalizes_def)
  have itc_net: "net ls a = (if credit_taken (pp_itc bill) True then (\<Sum>(c, x)\<leftarrow>filter (\<lambda>(c, x). c = a) (input_map (memo_legs ?d)). x)
      else 0) \<and> cap = (if capitalizes (pp_itc bill) then total_legs (memo_legs ?d) else 0)" for a
    using itc by (auto simp: purchase_itc_input_lines_def credit_taken_simps voucher_simps split: if_splits)
  have some: "list_ex (\<lambda>l. jl_debit l \<noteq> 0 \<or> jl_credit l \<noteq> 0) (built_purchase bill)"
  proof (rule ccontr)
    assume "\<not> ?thesis"
    then have z: "net (built_purchase bill) a = 0" for a by (rule no_amounts_net)
    have "net ls ''2100'' = 0" "net ls ''2265'' = 0"
      using itc_net [of "''2100''"] itc_net [of "''2265''"] m by (simp_all add: input_map_def)
    then show False using n [of "''2100''"] n [of "''2265''"] z due m h by (simp add: rcm_map_def input_map_def split: if_splits)
  qed
  obtain v lg' where v: "post_lines co today i lg (''PURCHASE_INVOICE'', pp_id bill, ''COMPLETE'') (pp_date bill) (built_purchase bill)
      = Inr (Some v, lg')" "je_source v = (''PURCHASE_INVOICE'', pp_id bill, ''COMPLETE'')" "je_date v = pp_date bill"
      "je_lines v = filter (\<lambda>l. jl_debit l \<noteq> 0 \<or> jl_credit l \<noteq> 0) (built_purchase bill)"
      "lg_entries lg' = lg_entries lg @ [v]"
    using purchase_voucher.ledger_takes_it [OF p(1) ready some] by blast
  have nv: "net (je_lines v) a = net (built_purchase bill) a" for a unfolding v(4) by (rule net_nonzero)
  have posted: "post_purchase co today i lg bill = Inr (Some v, lg')"
    using built(1) v(1) by (simp add: post_purchase_def)
  show ?thesis
    by (intro exI [of _ v] exI [of _ lg'])
      (simp add: posted v(2,3,5) nv n itc_net m h input_map_def rcm_map_def p(3) credit_taken_simps header_total
        Let_def capitalizes_def del: map_eq_conv)
qed


lemma reclass_net:
  assumes "purchase_ok bill" and "pp_itc bill = UNREVIEWED" and "\<not> dc_rcm (pp_doc bill)"
  shows "net (built_purchase bill) a + net (reclass_lines bill) a = net (built_purchase (bill\<lparr>pp_itc := CLAIMABLE\<rparr>)) a"
    and "purchase_ok (bill\<lparr>pp_itc := CLAIMABLE\<rparr>)" and "list_all line_fits (reclass_lines bill)"
proof -
  let ?bill = "bill\<lparr>pp_itc := CLAIMABLE\<rparr>"
  have lt: "purchase_line_taxable ?bill = purchase_line_taxable bill" by (simp add: purchase_line_taxable_def)
  show ok: "purchase_ok ?bill"
    using assms(1) by (simp add: purchase_ok_def lt purchase_tax_drift_def)
  show "net (built_purchase bill) a + net (reclass_lines bill) a = net (built_purchase ?bill) a"
    unfolding purchase_built(2) [OF assms(1)] purchase_built(2) [OF ok] purchase_value_lines_def reclass_lines_def Let_def
    by (simp add: assms(2,3) voucher_simps lt capitalizes_def)
  have "legs_ok (header_legs (pp_doc bill))" using assms(1) by (simp add: purchase_ok_def Let_def)
  then show "list_all line_fits (reclass_lines bill)"
    using legs_ok_maps(1) [of "header_legs (pp_doc bill)"] legs_ok_total [of "header_legs (pp_doc bill)"]
    by (auto simp: reclass_lines_def header_total nonneg_paise_def intro!: tax_lines_fit)
qed

lemma fits_normal_list: "list_all line_fits ls \<Longrightarrow> map normalize_line ls = ls"
  by (simp add: list_all_iff map_idI fits_normal)

text \<open>
  C28. Reviewing a bill's credit late changes nothing: posting it unreviewed and accepting it afterwards
  leaves every balance exactly as if it had been posted as claimable.
\<close>

theorem accepted_credit_equals_claimable:
  assumes reach: "ledger_reachable co lg" "posts_to_ledger co"
    and bill: "purchase_ok bill" "pp_itc bill = UNREVIEWED" "\<not> dc_rcm (pp_doc bill)"
    and review: "post_purchase co t1 i lg bill = Inr (Some v, lg1)" "i \<notin> je_id ` set (lg_entries lg)"
      "reclass_unreviewed_itc co t2 j lg1 bill = Inr (Some w, lg2)" "j \<notin> je_id ` set (lg_entries lg1)"
    and direct: "post_purchase co t3 k lg (bill\<lparr>pp_itc := CLAIMABLE\<rparr>) = Inr (Some v', lg')"
      "k \<notin> je_id ` set (lg_entries lg)"
    and new: "(''PURCHASE_INVOICE'', pp_id bill, ''COMPLETE'') \<notin> set (posted_sources (lg_entries lg))"
      "(''PURCHASE_INVOICE'', pp_id bill, ''ITC_RECLASS'') \<notin> set (posted_sources (lg_entries lg1))"
  shows "balances lg2 = balances lg'"
proof -
  let ?bill = "bill\<lparr>pp_itc := CLAIMABLE\<rparr>"
  note r = reclass_net [OF bill]
  have p1: "post_lines co t1 i lg (''PURCHASE_INVOICE'', pp_id bill, ''COMPLETE'') (pp_date bill) (built_purchase bill)
      = Inr (Some v, lg1)"
    using review(1) purchase_built(1) [OF bill(1)] by (simp add: post_purchase_def)
  have p2: "post_lines co t2 j lg1 (''PURCHASE_INVOICE'', pp_id bill, ''ITC_RECLASS'') (pp_date bill) (reclass_lines bill)
      = Inr (Some w, lg2)"
    using review(3) by (simp add: reclass_unreviewed_itc_def split: if_splits)
  have p3: "post_lines co t3 k lg (''PURCHASE_INVOICE'', pp_id bill, ''COMPLETE'') (pp_date bill) (built_purchase ?bill)
      = Inr (Some v', lg')"
    using direct(1) purchase_built(1) [OF r(2)] by (simp add: post_purchase_def)
  note s1 = post_lines_step [OF reach p1 _ review(2), simplified]
  note s2 = post_lines_step [OF s1(1) reach(2) p2 _ review(4), simplified]
  note s3 = post_lines_step [OF reach p3 _ direct(2), simplified]
  have "balances lg1 = apply_voucher (built_purchase bill) (balances lg)"
    using s1(2) new(1) fits_normal_list [OF purchase_fits [OF bill(1)]] by simp
  moreover have "balances lg2 = apply_voucher (reclass_lines bill) (balances lg1)"
    using s2(2) new(2) fits_normal_list [OF r(3)] by simp
  moreover have "balances lg' = apply_voucher (built_purchase ?bill) (balances lg)"
    using s3(2) new(1) fits_normal_list [OF purchase_fits [OF r(2)]] by simp
  ultimately show ?thesis using r(1) by (simp add: apply_voucher_def fun_eq_iff add.assoc)
qed

section \<open>A worked example\<close>

definition sample_bill :: "itc_eligibility \<Rightarrow> posted_purchase" where
  "sample_bill itc = \<lparr>pp_id = 9, pp_doc = fresh_doc\<lparr>dc_taxable := 100, dc_cgst := 9, dc_sgst := 9, dc_grand := 118\<rparr>,
     pp_items = [fresh_item\<lparr>it_taxable := 100, it_cgst := 9, it_sgst := 9\<rparr>], pp_date = Date 2025 5 2,
     pp_supplier = Some 3, pp_cost_center = None, pp_itc = itc, pp_tds = 0\<rparr>"

lemma sample_bill_ok: "purchase_ok (sample_bill itc)"
  by (simp add: purchase_ok_def sample_bill_def fresh_doc_def fresh_item_def purchase_line_taxable_def Let_def
      nonneg_paise_def q_eval legs_ok_def header_legs_def memo_legs_def purchase_tax_drift_def header_tax_def
      after_tax_discount_def line_cess_def)

lemma posted_elim:
  "(case r of Inr (Some v, lg) \<Rightarrow> P v lg | _ \<Rightarrow> False) \<Longrightarrow> \<exists>v lg. r = Inr (Some v, lg) \<and> P v lg"
  by (auto split: sum.splits option.splits)

lemma sample_review:
  "case post_purchase example_books (Date 2025 5 2) 1 new_ledger (sample_bill UNREVIEWED) of
     Inr (Some v, lg1) \<Rightarrow> (case reclass_unreviewed_itc example_books (Date 2025 5 2) 2 lg1 (sample_bill UNREVIEWED) of
         Inr (Some w, lg2) \<Rightarrow> je_id v = 1 \<and> map je_id (lg_entries lg1) = [1] \<and>
           (''PURCHASE_INVOICE'', 9, ''ITC_RECLASS'') \<notin> set (posted_sources (lg_entries lg1))
       | _ \<Rightarrow> False)
   | _ \<Rightarrow> False"
  by code_simp


theorem completed_purchase_posts_witness:
  "\<exists>bill v lg'. post_purchase example_books (Date 2025 5 2) 1 new_ledger bill = Inr (Some v, lg') \<and>
    net (je_lines v) ''2100'' = -118 \<and> net (je_lines v) ''1390'' = 18"
proof -
  obtain d lines where ok: "compute_document_totals [] fresh_doc [fresh_item] True True None None None None = Inr (d, lines)"
    and d: "dc_cgst d = 9" "dc_grand d = 118" "list_all (\<lambda>x. x = 0) [dc_igst d, dc_cess d, dc_charges d, dc_inv_disc d, dc_round_off d]"
      "dc_taxable d = 100"
    using sample_totals by blast
  have sgst: "dc_sgst d = 9" using document_totals_facts(3) [OF ok] d by simp
  note facts = document_totals_facts(13,14) [OF ok]
  define bill where "bill = \<lparr>pp_id = 9, pp_doc = d, pp_items = lines, pp_date = Date 2025 5 2, pp_supplier = Some 3,
    pp_cost_center = None, pp_itc = UNREVIEWED, pp_tds = 0\<rparr>"
  have rcm: "\<not> dc_rcm d" "dc_disc_mode d = ''AFTER_TAX''"
    using facts by (simp_all add: fresh_doc_def effective_mode_def)
  have cp: "computed_purchase [] fresh_doc [fresh_item] True True None None None bill"
    using ok d sgst rcm
    by (simp add: computed_purchase_def bill_def apply_rcm_memo_after_tax_def charges_are_taxable_def fresh_doc_def
        nonneg_paise_def Let_def q_eval)
  note p = computed_purchase_ok [OF cp]
  have "set (map jl_account (built_purchase bill)) \<subseteq> set CHART"
    unfolding purchase_built(2) [OF p(1)] purchase_value_lines_def Let_def
    using d rcm by (auto simp: bill_def insert_second_def tax_component_lines_def round_off_line_def CHART_def)
  note ready = example_ready [OF this]
  have due: "dc_grand (pp_doc bill) \<noteq> 0" using d by (simp add: bill_def)
  obtain v lg' where "post_purchase example_books (Date 2025 5 2) 1 new_ledger bill = Inr (Some v, lg')"
    "net (je_lines v) ''2100'' = pp_tds bill - dc_grand (pp_doc bill)"
    "net (je_lines v) ''1390'' = total_legs (header_legs (pp_doc bill))"
    using completed_purchase_posts [OF cp due, of example_books "Date 2025 5 2" new_ledger 1] ready rcm
    by (auto simp: bill_def Let_def)
  then show ?thesis using d sgst by (intro exI conjI) (auto simp: bill_def header_legs_def total_legs_def)
qed

theorem accepted_credit_equals_claimable_witness:
  "\<exists>v lg1 w lg2 v' lg'. post_purchase example_books (Date 2025 5 2) 1 new_ledger (sample_bill UNREVIEWED) = Inr (Some v, lg1) \<and>
    reclass_unreviewed_itc example_books (Date 2025 5 2) 2 lg1 (sample_bill UNREVIEWED) = Inr (Some w, lg2) \<and>
    post_purchase example_books (Date 2025 5 2) 1 new_ledger (sample_bill CLAIMABLE) = Inr (Some v', lg') \<and>
    balances lg2 = balances lg'"
proof -
  have reach: "ledger_reachable example_books new_ledger" by (rule ledger_reachable.start) (simp add: new_ledger_def)
  have p: "posts_to_ledger example_books" by (simp add: example_books_def posts_to_ledger_def)
  obtain v lg1 w lg2 where r: "post_purchase example_books (Date 2025 5 2) 1 new_ledger (sample_bill UNREVIEWED) = Inr (Some v, lg1)"
    "reclass_unreviewed_itc example_books (Date 2025 5 2) 2 lg1 (sample_bill UNREVIEWED) = Inr (Some w, lg2)"
    "map je_id (lg_entries lg1) = [1]" "(''PURCHASE_INVOICE'', 9, ''ITC_RECLASS'') \<notin> set (posted_sources (lg_entries lg1))"
    using posted_elim [OF sample_review] by (fastforce dest: posted_elim)
  have "case post_purchase example_books (Date 2025 5 2) 1 new_ledger (sample_bill CLAIMABLE) of
      Inr (Some v, lg1) \<Rightarrow> True | _ \<Rightarrow> False" by code_simp
  then obtain v' lg' where d: "post_purchase example_books (Date 2025 5 2) 1 new_ledger (sample_bill CLAIMABLE) = Inr (Some v', lg')"
    by (auto split: sum.splits option.splits)
  have c: "(sample_bill UNREVIEWED)\<lparr>pp_itc := CLAIMABLE\<rparr> = sample_bill CLAIMABLE" by (simp add: sample_bill_def)
  have n: "i \<notin> je_id ` set (lg_entries new_ledger)" for i by (simp add: new_ledger_def)
  have j: "2 \<notin> je_id ` set (lg_entries lg1)" using arg_cong [OF r(3), of set] by auto
  have "balances lg2 = balances lg'"
    by (rule accepted_credit_equals_claimable [OF reach p sample_bill_ok _ _ r(1) n r(2) j, unfolded c, OF _ _ d n])
      (use r(4) in \<open>simp_all add: sample_bill_def fresh_doc_def new_ledger_def posted_sources_def\<close>)
  then show ?thesis using r(1,2) d by blast
qed

end
