(* ===== verification/Note_Postings.thy ===== *)
theory Note_Postings
  imports Purchase_Postings
begin

text \<open>
  Credit and debit notes in the ledger (\<open>post_note\<close> in \<open>accounting/services.py\<close>): the four directions, the
  share of withheld tax a purchase note gives back, and the split between payables and advances.
\<close>

section \<open>Notes\<close>

datatype note_direction = SALES_CREDIT | SALES_DEBIT | PURCHASE_CREDIT | PURCHASE_DEBIT

text \<open>What a note reads from its invoice or bill.\<close>

record note_parent =
  np_rcm :: bool
  np_itc :: itc_eligibility
  np_tds :: rat
  np_tds_rate :: rat
  np_grand :: rat

record posted_note =
  pn_id :: int
  pn_doc :: tax_doc
  pn_date :: date
  pn_party :: "int option"
  pn_tcs :: rat
  pn_parent :: "note_parent option"

definition parent_rcm :: "posted_note \<Rightarrow> bool" where
  "parent_rcm note = (case pn_parent note of None \<Rightarrow> False | Some p \<Rightarrow> np_rcm p)"

definition parent_itc :: "posted_note \<Rightarrow> itc_eligibility" where
  "parent_itc note = (case pn_parent note of None \<Rightarrow> UNREVIEWED | Some p \<Rightarrow> np_itc p)"

text \<open>\<open>_credit_note_sales_code\<close>: contra revenue when the company has opted in.\<close>

definition credit_note_sales_code :: "bool \<Rightarrow> string" where
  "credit_note_sales_code contra = (if contra then ''4110'' else ''4100'')"

definition sales_credit_lines :: "string \<Rightarrow> posted_note \<Rightarrow> jline list" where
  "sales_credit_lines sales_code note =
    (let d = pn_doc note; tax = header_tax d; ro = dc_round_off d; tcs = pn_tcs note;
         receivable = (\<lambda>x. of_customer (pn_party note) (cr ''1200'' x None)) in
     (if parent_rcm note then
        let ar = dc_grand d - tax in [dr sales_code (ar - ro - tcs) None, receivable ar]
      else [dr sales_code (dc_grand d - tax - ro - tcs) None]
        @ tax_component_lines (output_map (header_legs d)) Debit_Side None @ [receivable (dc_grand d)])
     @ (if 0 < tcs then [dr ''2266'' tcs None] else [])
     @ round_off_line ro Debit_Side None)"

definition sales_debit_lines :: "posted_note \<Rightarrow> jline list" where
  "sales_debit_lines note =
    (let d = pn_doc note; tax = header_tax d; ro = dc_round_off d; tcs = pn_tcs note;
         receivable = (\<lambda>x. of_customer (pn_party note) (dr ''1200'' x None)) in
     (if parent_rcm note then
        let ar = dc_grand d - tax in [receivable ar, cr ''4100'' (ar - ro - tcs) None]
      else [receivable (dc_grand d), cr ''4100'' (dc_grand d - tax - ro - tcs) None]
        @ tax_component_lines (output_map (header_legs d)) Credit_Side None)
     @ (if 0 < tcs then [cr ''2266'' tcs None] else [])
     @ round_off_line ro Credit_Side None)"

section \<open>Purchase notes\<close>

definition note_stock_value :: "tax_doc \<Rightarrow> rat" where
  "note_stock_value d =
    (if dc_taxable d \<le> 0 then max (dc_grand d - header_tax d - dc_round_off d - dc_charges d) 0 else dc_taxable d)"

text \<open>A note against a reverse-charge bill reverses the liability and the credit.\<close>

definition rcm_note_lines :: "side \<Rightarrow> posted_note \<Rightarrow> jline list" where
  "rcm_note_lines s note =
    (let d = pn_doc note; legs = memo_legs d; value = note_stock_value d; ap_base = value + dc_charges d;
         (itc_lines, cap) = purchase_itc_input_lines (parent_itc note) True legs s None;
         ap = of_supplier (pn_party note) (on_side (opposite s) ''2100'' ap_base None);
         stock = on_side s ''1400'' (value + cap) None;
         charge = (if 0 < dc_charges d then [on_side s ''5110'' (dc_charges d) None] else []);
         liability = tax_component_lines (rcm_map legs) (opposite s) None in
     (if s = Credit_Side then [ap, stock] @ liability @ itc_lines @ charge
      else insert_second charge ([stock, ap] @ liability @ itc_lines))
     @ round_off_line (dc_round_off d) s None)"

text \<open>
  How a purchase credit note splits over payables, withheld tax and advances: \<open>prior\<close> is the total of the
  earlier completed notes of the bill, \<open>outstanding\<close> what \<open>LedgerService\<close> says is open on it.
\<close>

definition credit_split :: "posted_note \<Rightarrow> rat \<Rightarrow> rat \<Rightarrow> rat \<times> rat \<times> rat" where
  "credit_split note prior outstanding =
    (let grand = dc_grand (pn_doc note) in
     case pn_parent note of
       None \<Rightarrow> (grand, 0, 0)
     | Some p \<Rightarrow>
        if 0 < np_tds p \<and> 0 < np_grand p then
          let share = (\<lambda>x. quantize_even 2 (ddiv (dmul (np_tds p) x) (np_grand p)));
              already = share prior; remaining = max (np_tds p - already) 0;
              tds = min (min (share grand) remaining) grand;
              ap = grand - tds;
              booked = max ((np_grand p - np_tds p) - (prior - already)) 0
          in if booked < ap then (booked, tds, ap - booked) else (ap, tds, 0)
        else
          let ap = min grand (max (outstanding + grand) 0) in (ap, 0, grand - ap))"

definition purchase_credit_lines :: "posted_note \<Rightarrow> rat \<Rightarrow> rat \<Rightarrow> jline list" where
  "purchase_credit_lines note prior outstanding =
    (if parent_rcm note then rcm_note_lines Credit_Side note
     else
       let d = pn_doc note;
           (itc_lines, cap) = purchase_itc_input_lines (parent_itc note) False (header_legs d) Credit_Side None;
           (ap, tds, advance) = credit_split note prior outstanding;
           value0 = note_stock_value d + cap;
           residual = dc_grand d - header_tax d - dc_round_off d - dc_charges d;
           value = (if cap = 0 \<and> 0 \<le> residual \<and> 5/1000 < \<bar>residual - value0\<bar> then residual else value0);
           supplier = (\<lambda>a x. if 0 < x then [of_supplier (pn_party note) (dr a x None)] else []) in
       supplier ''2100'' ap @ supplier ''2265'' tds @ supplier ''1250'' advance
       @ [cr ''1400'' value None] @ itc_lines
       @ (if 0 < dc_charges d then [cr ''5110'' (dc_charges d) None] else [])
       @ round_off_line (dc_round_off d) Credit_Side None)"

definition debit_note_tds :: "posted_note \<Rightarrow> rat \<Rightarrow> rat" where
  "debit_note_tds note value =
    (case pn_parent note of
       None \<Rightarrow> 0
     | Some p \<Rightarrow>
        let grand = dc_grand (pn_doc note);
            t = (if 0 < np_tds_rate p then quantize_even 2 (dmul value (np_tds_rate p) / 100)
                 else if 0 < np_tds p \<and> 0 < np_grand p then quantize_even 2 (ddiv (dmul (np_tds p) grand) (np_grand p))
                 else 0)
        in min t grand)"

definition purchase_debit_lines :: "posted_note \<Rightarrow> jline list" where
  "purchase_debit_lines note =
    (if parent_rcm note then rcm_note_lines Debit_Side note
     else
       let d = pn_doc note;
           (itc_lines, cap) = purchase_itc_input_lines (parent_itc note) False (header_legs d) Debit_Side None;
           value = note_stock_value d + cap; tds = debit_note_tds note value in
       insert_second (if 0 < dc_charges d then [dr ''5110'' (dc_charges d) None] else [])
         ([dr ''1400'' value None] @ itc_lines
          @ [of_supplier (pn_party note) (cr ''2100'' (dc_grand d - tds) None)]
          @ (if 0 < tds then [of_supplier (pn_party note) (cr ''2265'' tds None)] else []))
       @ round_off_line (dc_round_off d) Debit_Side None)"

definition note_lines :: "note_direction \<Rightarrow> bool \<Rightarrow> rat \<Rightarrow> rat \<Rightarrow> posted_note \<Rightarrow> jline list" where
  "note_lines direction contra prior outstanding note =
    (case direction of
       SALES_CREDIT \<Rightarrow> sales_credit_lines (credit_note_sales_code contra) note
     | SALES_DEBIT \<Rightarrow> sales_debit_lines note
     | PURCHASE_CREDIT \<Rightarrow> purchase_credit_lines note prior outstanding
     | PURCHASE_DEBIT \<Rightarrow> purchase_debit_lines note)"

definition post_note ::
  "gl_company \<Rightarrow> date \<Rightarrow> int \<Rightarrow> ledger \<Rightarrow> posted_note \<Rightarrow> string \<Rightarrow> note_direction \<Rightarrow> bool \<Rightarrow> rat \<Rightarrow> rat
    \<Rightarrow> (jentry option \<times> ledger) res" where
  "post_note co today new_id lg note source_type direction contra prior outstanding =
    post_lines co today new_id lg (source_type, pn_id note, ''COMPLETE'') (pn_date note)
      (note_lines direction contra prior outstanding note)"


section \<open>Notes balance\<close>

definition residual_of :: "tax_doc \<Rightarrow> rat" where
  "residual_of d = dc_grand d - header_tax d - dc_round_off d - dc_charges d"

text \<open>
  What a note needs to post.  A note against a reverse-charge bill must not be rounded, and a note whose tax
  is capitalised, or a debit note, must have no share of an invoice discount.
\<close>

definition parent_ok :: "posted_note \<Rightarrow> bool" where
  "parent_ok note = (case pn_parent note of None \<Rightarrow> True | Some p \<Rightarrow> nonneg_paise (np_tds p) \<and> nonneg_paise (np_grand p))"

definition note_ok :: "note_direction \<times> bool \<times> rat \<times> rat \<times> posted_note \<Rightarrow> bool" where
  "note_ok n =
    (case n of (direction, contra, prior, outstanding, note) \<Rightarrow>
      let d = pn_doc note in
      list_all nonneg_paise [dc_grand d, dc_charges d, dc_taxable d, pn_tcs note] \<and>
      q2 (dc_round_off d) = dc_round_off d \<and> legs_ok (header_legs d) \<and> legs_ok (memo_legs d) \<and>
      (case direction of
         PURCHASE_CREDIT \<Rightarrow>
           (if parent_rcm note then dc_round_off d = 0
            else list_all (\<lambda>x. q2 x = x) [prior, outstanding] \<and>
              parent_ok note \<and>
              0 \<le> residual_of d \<and>
              (capitalizes (parent_itc note) \<and> header_tax d \<noteq> 0 \<longrightarrow> residual_of d = note_stock_value d))
       | PURCHASE_DEBIT \<Rightarrow>
           (if parent_rcm note then dc_round_off d = 0
            else parent_ok note \<and>
              residual_of d = note_stock_value d)
       | _ \<Rightarrow> header_tax d + dc_round_off d + pn_tcs note \<le> dc_grand d \<and> header_tax d \<le> dc_grand d))"

definition built_note :: "note_direction \<times> bool \<times> rat \<times> rat \<times> posted_note \<Rightarrow> jline list" where
  "built_note n = (case n of (direction, contra, prior, outstanding, note) \<Rightarrow> note_lines direction contra prior outstanding note)"

lemma stock_value_ok: "legs_ok (header_legs d) \<Longrightarrow> list_all (\<lambda>x. q2 x = x) [dc_grand d, dc_round_off d, dc_charges d, dc_taxable d]
    \<Longrightarrow> nonneg_paise (note_stock_value d)"
  using legs_ok_total [of "header_legs d"]
  by (auto simp: note_stock_value_def nonneg_paise_def header_total intro!: paisa.fixed_max paisa.fixed_diff)

lemma quantize_even_grid: "q2 (quantize_even 2 x) = quantize_even 2 x"
  by (metis paisa_even.on_grid paisa.fix_grid)

lemma credit_split_facts:
  assumes "nonneg_paise (dc_grand (pn_doc note))" "q2 prior = prior" "q2 outstanding = outstanding"
    and "parent_ok note"
    and "credit_split note prior outstanding = (ap, tds, advance)"
  shows "ap + tds + advance = dc_grand (pn_doc note) \<and> list_all nonneg_paise [ap, tds, advance]"
proof (cases "pn_parent note")
  case None
  then show ?thesis using assms(1,5) by (auto simp: credit_split_def nonneg_paise_def)
next
  case (Some p)
  let ?g = "dc_grand (pn_doc note)"
  have p: "q2 (np_tds p) = np_tds p" "0 \<le> np_tds p" "q2 (np_grand p) = np_grand p" "0 \<le> np_grand p"
    and g: "q2 ?g = ?g" "0 \<le> ?g"
    using assms(1,4) Some by (simp_all add: parent_ok_def nonneg_paise_def)
  show ?thesis
  proof (cases "0 < np_tds p \<and> 0 < np_grand p")
    case True
    define share where "share = (\<lambda>x. quantize_even 2 (ddiv (dmul (np_tds p) x) (np_grand p)))"
    define t where "t = min (min (share ?g) (max (np_tds p - share prior) 0)) ?g"
    define booked where "booked = max ((np_grand p - np_tds p) - (prior - share prior)) 0"
    have sq: "q2 (share x) = share x" for x by (simp add: share_def quantize_even_grid)
    have "0 \<le> share ?g" unfolding share_def using p g by (intro paisa_even.nonneg ddiv_nonneg dmul_nonneg)
    then have t: "q2 t = t" "0 \<le> t" "t \<le> ?g"
      using g p sq by (auto simp: t_def intro!: paisa.fixed_min paisa.fixed_max paisa.fixed_diff)
    have b: "q2 booked = booked" "0 \<le> booked"
      using p sq assms(2) by (auto simp: booked_def intro!: paisa.fixed_max paisa.fixed_diff)
    have "credit_split note prior outstanding = (if booked < ?g - t then (booked, t, ?g - t - booked) else (?g - t, t, 0))"
      using True by (simp add: credit_split_def Some Let_def share_def t_def booked_def)
    then show ?thesis using assms(5) t b g by (auto simp: nonneg_paise_def paisa.fixed_diff split: if_splits)
  next
    case False
    then show ?thesis using assms(3,5) g Some
      by (auto simp: credit_split_def Let_def nonneg_paise_def intro!: paisa.fixed_min paisa.fixed_max paisa.fixed_diff paisa.fixed_add)
  qed
qed


lemma rcm_note_facts:
  assumes "legs_ok (header_legs (pn_doc note))" "legs_ok (memo_legs (pn_doc note))"
    "list_all nonneg_paise [dc_grand (pn_doc note), dc_charges (pn_doc note), dc_taxable (pn_doc note)]"
    "q2 (dc_round_off (pn_doc note)) = dc_round_off (pn_doc note)"
  shows "excess (rcm_note_lines s note) = signed s (dc_round_off (pn_doc note))"
    and "list_all line_fits (rcm_note_lines s note)"
proof -
  let ?d = "pn_doc note"
  obtain ls cap where itc: "purchase_itc_input_lines (parent_itc note) True (memo_legs ?d) s None = (ls, cap)" by fastforce
  have e: "excess ls + signed s cap = signed s (total_legs (memo_legs ?d))" and "list_all line_fits ls" "nonneg_paise cap"
    using itc_lines_excess [of "parent_itc note" True "memo_legs ?d" s None]
      itc_lines_fit [OF assms(2), of "parent_itc note" True s None] itc by simp_all
  have v: "nonneg_paise (note_stock_value ?d)"
    using assms by (intro stock_value_ok) (simp_all add: nonneg_paise_def)
  have c: "nonneg_paise (dc_charges ?d)" using assms(3) by simp
  show "excess (rcm_note_lines s note) = signed s (dc_round_off ?d)"
    unfolding rcm_note_lines_def Let_def itc prod.case using e c
    by (cases s) (auto simp: voucher_simps round_off_excess [OF assms(4)] nonneg_paise_def)
  show "list_all line_fits (rcm_note_lines s note)"
    unfolding rcm_note_lines_def Let_def itc prod.case
    using \<open>list_all line_fits ls\<close> \<open>nonneg_paise cap\<close> v c legs_ok_maps [OF assms(2)]
    by (auto simp: voucher_simps round_off_fits nonneg_paise_def paisa.fixed_add intro!: tax_lines_fit)
qed

lemma paisa_near:
  assumes "q2 x = x" and "q2 y = y" and "\<bar>x - y\<bar> \<le> 5/1000"
  shows "x = y"
proof -
  obtain i j where ij: "x = of_int i * (1/100)" "y = of_int j * (1/100)"
    using assms(1,2) by (metis paisa.on_grid)
  have "i = j" by (rule paisa.grid_near_eq) (use assms(3) ij in simp)
  then show ?thesis using ij by simp
qed

lemma purchase_credit_facts:
  assumes "list_all nonneg_paise [dc_grand (pn_doc note), dc_charges (pn_doc note), dc_taxable (pn_doc note)]"
    "q2 (dc_round_off (pn_doc note)) = dc_round_off (pn_doc note)" "legs_ok (header_legs (pn_doc note))"
    and split: "q2 prior = prior" "q2 outstanding = outstanding"
      "parent_ok note"
    and res: "0 \<le> residual_of (pn_doc note)"
      "capitalizes (parent_itc note) \<and> header_tax (pn_doc note) \<noteq> 0 \<longrightarrow> residual_of (pn_doc note) = note_stock_value (pn_doc note)"
    and "\<not> parent_rcm note"
  shows "excess (purchase_credit_lines note prior outstanding) = 0 \<and> list_all line_fits (purchase_credit_lines note prior outstanding)"
proof -
  let ?d = "pn_doc note"
  obtain ls cap where itc: "purchase_itc_input_lines (parent_itc note) False (header_legs ?d) Credit_Side None = (ls, cap)" by fastforce
  obtain ap tds advance where sp: "credit_split note prior outstanding = (ap, tds, advance)" using prod_cases3 by blast
  have s: "ap + tds + advance = dc_grand ?d" "nonneg_paise ap" "nonneg_paise tds" "nonneg_paise advance"
    using credit_split_facts [OF _ split sp] assms(1) by simp_all
  have e: "excess ls - cap = - header_tax ?d" and fl: "list_all line_fits ls" "nonneg_paise cap"
    using itc_lines_excess [of "parent_itc note" False "header_legs ?d" Credit_Side None]
      itc_lines_fit [OF assms(3), of "parent_itc note" False Credit_Side None] itc by (simp_all add: header_total)
  have cap: "cap = (if capitalizes (parent_itc note) then header_tax ?d else 0)"
    using itc by (auto simp: purchase_itc_input_lines_def header_total split: if_splits)
  have v: "nonneg_paise (note_stock_value ?d)" and rq: "q2 (residual_of ?d) = residual_of ?d"
    using assms(1-3) legs_ok_total [of "header_legs ?d"]
    by (auto simp: nonneg_paise_def residual_of_def header_total intro!: stock_value_ok [unfolded nonneg_paise_def] paisa.fixed_diff)
  define stock where "stock = (if cap = 0 \<and> 0 \<le> residual_of ?d \<and> 5/1000 < \<bar>residual_of ?d - (note_stock_value ?d + cap)\<bar>
    then residual_of ?d else note_stock_value ?d + cap)"
  have "stock = residual_of ?d + cap"
  proof (cases "cap = 0")
    case True
    then show ?thesis using paisa_near [OF rq, of "note_stock_value ?d"] v res(1)
      by (auto simp: stock_def nonneg_paise_def not_less)
  next
    case False
    then show ?thesis using res(2) cap by (auto simp: stock_def split: if_splits)
  qed
  moreover have "q2 stock = stock" "0 \<le> stock"
    using calculation rq res(1) fl(2) by (simp_all add: nonneg_paise_def paisa.fixed_add)
  moreover have L: "purchase_credit_lines note prior outstanding =
      (if 0 < ap then [of_supplier (pn_party note) (dr ''2100'' ap None)] else [])
      @ (if 0 < tds then [of_supplier (pn_party note) (dr ''2265'' tds None)] else [])
      @ (if 0 < advance then [of_supplier (pn_party note) (dr ''1250'' advance None)] else [])
      @ [cr ''1400'' stock None] @ ls @ (if 0 < dc_charges ?d then [cr ''5110'' (dc_charges ?d) None] else [])
      @ round_off_line (dc_round_off ?d) Credit_Side None"
    unfolding purchase_credit_lines_def Let_def itc sp prod.case residual_of_def [symmetric] stock_def [symmetric]
    using assms(9) by simp
  ultimately show ?thesis
    unfolding L using e s fl assms(1)
    by (auto simp: voucher_simps round_off_excess [OF assms(2)] round_off_fits nonneg_paise_def residual_of_def)
qed

lemma purchase_debit_facts:
  assumes "list_all nonneg_paise [dc_grand (pn_doc note), dc_charges (pn_doc note), dc_taxable (pn_doc note)]"
    "q2 (dc_round_off (pn_doc note)) = dc_round_off (pn_doc note)" "legs_ok (header_legs (pn_doc note))"
    and par: "parent_ok note"
    and res: "residual_of (pn_doc note) = note_stock_value (pn_doc note)" and "\<not> parent_rcm note"
  shows "excess (purchase_debit_lines note) = 0 \<and> list_all line_fits (purchase_debit_lines note)"
proof -
  let ?d = "pn_doc note"
  obtain ls cap where itc: "purchase_itc_input_lines (parent_itc note) False (header_legs ?d) Debit_Side None = (ls, cap)" by fastforce
  have e: "excess ls + cap = header_tax ?d" and fl: "list_all line_fits ls" "nonneg_paise cap"
    using itc_lines_excess [of "parent_itc note" False "header_legs ?d" Debit_Side None]
      itc_lines_fit [OF assms(3), of "parent_itc note" False Debit_Side None] itc by (simp_all add: header_total)
  have v: "nonneg_paise (note_stock_value ?d)"
    using assms(1-3) by (auto simp: nonneg_paise_def intro!: stock_value_ok [unfolded nonneg_paise_def])
  define tds where "tds = debit_note_tds note (note_stock_value ?d + cap)"
  have t: "nonneg_paise tds" "tds \<le> dc_grand ?d"
    using assms(1) par v fl(2)
    by (auto simp: tds_def debit_note_tds_def parent_ok_def nonneg_paise_def Let_def quantize_even_grid paisa.zero
        intro!: paisa.fixed_min paisa_even.nonneg divide_nonneg_nonneg ddiv_nonneg dmul_nonneg split: option.splits)
  have L: "purchase_debit_lines note = insert_second (if 0 < dc_charges ?d then [dr ''5110'' (dc_charges ?d) None] else [])
         ([dr ''1400'' (note_stock_value ?d + cap) None] @ ls
          @ [of_supplier (pn_party note) (cr ''2100'' (dc_grand ?d - tds) None)]
          @ (if 0 < tds then [of_supplier (pn_party note) (cr ''2265'' tds None)] else []))
       @ round_off_line (dc_round_off ?d) Debit_Side None"
    unfolding purchase_debit_lines_def Let_def itc prod.case using assms(6) by (simp add: tds_def)
  show ?thesis
    unfolding L using e t fl v res assms(1)
    by (auto simp: voucher_simps round_off_excess [OF assms(2)] round_off_fits nonneg_paise_def residual_of_def
        paisa.fixed_add paisa.fixed_diff)
qed

lemma note_balanced:
  assumes "note_ok n"
  shows "excess (built_note n) = 0"
proof -
  obtain direction contra prior outstanding nt where n: "n = (direction, contra, prior, outstanding, nt)"
    using prod_cases5 by blast
  let ?d = "pn_doc nt"
  note ok = assms [unfolded n note_ok_def prod.case Let_def list.pred_inject]
  have ro: "q2 (dc_round_off ?d) = dc_round_off ?d" and tcs: "0 \<le> pn_tcs nt" using ok by (simp_all add: nonneg_paise_def)
  note rcm = rcm_note_facts(1) [of nt]
  show ?thesis
  proof (cases direction)
    case SALES_CREDIT
    then show ?thesis unfolding n built_note_def prod.case using tcs
      by (auto simp: note_lines_def sales_credit_lines_def Let_def voucher_simps round_off_excess [OF ro] header_total)
  next
    case SALES_DEBIT
    then show ?thesis unfolding n built_note_def prod.case using tcs
      by (auto simp: note_lines_def sales_debit_lines_def Let_def voucher_simps round_off_excess [OF ro] header_total)
  next
    case PURCHASE_CREDIT
    show ?thesis
    proof (cases "parent_rcm nt")
      case True
      then show ?thesis using rcm [of Credit_Side] ok PURCHASE_CREDIT
        by (simp add: n built_note_def note_lines_def purchase_credit_lines_def)
    next
      case False
      show ?thesis unfolding n built_note_def prod.case using purchase_credit_facts [of nt prior outstanding] False PURCHASE_CREDIT ok
        by (simp add: note_lines_def)
    qed
  next
    case PURCHASE_DEBIT
    show ?thesis
    proof (cases "parent_rcm nt")
      case True
      then show ?thesis using rcm [of Debit_Side] ok PURCHASE_DEBIT
        by (simp add: n built_note_def note_lines_def purchase_debit_lines_def)
    next
      case False
      show ?thesis unfolding n built_note_def prod.case using purchase_debit_facts [of nt] False PURCHASE_DEBIT ok
        by (simp add: note_lines_def)
    qed
  qed
qed

lemma note_fits:
  assumes "note_ok n"
  shows "list_all line_fits (built_note n)"
proof -
  obtain direction contra prior outstanding nt where n: "n = (direction, contra, prior, outstanding, nt)"
    using prod_cases5 by blast
  let ?d = "pn_doc nt"
  note ok = assms [unfolded n note_ok_def prod.case Let_def list.pred_inject]
  note rcm = rcm_note_facts(2) [of nt]
  have m: "list_all (\<lambda>(a, x). q2 x = x \<and> 0 \<le> x) (output_map (header_legs ?d))" using ok legs_ok_maps by blast
  have t: "nonneg_paise (header_tax ?d)" using ok legs_ok_total by (simp add: header_total)
  show ?thesis
  proof (cases direction)
    case SALES_CREDIT
    then show ?thesis unfolding n built_note_def prod.case using ok m t
      by (auto simp: note_lines_def sales_credit_lines_def Let_def voucher_simps round_off_fits nonneg_paise_def
          paisa.fixed_diff intro!: tax_lines_fit)
  next
    case SALES_DEBIT
    then show ?thesis unfolding n built_note_def prod.case using ok m t
      by (auto simp: note_lines_def sales_debit_lines_def Let_def voucher_simps round_off_fits nonneg_paise_def
          paisa.fixed_diff intro!: tax_lines_fit)
  next
    case PURCHASE_CREDIT
    show ?thesis
    proof (cases "parent_rcm nt")
      case True
      then show ?thesis using rcm [of Credit_Side] ok PURCHASE_CREDIT
        by (simp add: n built_note_def note_lines_def purchase_credit_lines_def)
    next
      case False
      show ?thesis unfolding n built_note_def prod.case using purchase_credit_facts [of nt prior outstanding] False PURCHASE_CREDIT ok
        by (simp add: note_lines_def)
    qed
  next
    case PURCHASE_DEBIT
    show ?thesis
    proof (cases "parent_rcm nt")
      case True
      then show ?thesis using rcm [of Debit_Side] ok PURCHASE_DEBIT
        by (simp add: n built_note_def note_lines_def purchase_debit_lines_def)
    next
      case False
      show ?thesis unfolding n built_note_def prod.case using purchase_debit_facts [of nt] False PURCHASE_DEBIT ok
        by (simp add: note_lines_def)
    qed
  qed
qed

interpretation note_voucher: voucher_builder built_note note_ok
  by unfold_locales (simp_all add: note_balanced note_fits)

section \<open>Properties\<close>

lemma round_off_undone: "net (round_off_line x Credit_Side cc) a + net (round_off_line x Debit_Side cc') a = 0"
  by (auto simp: round_off_line_def Let_def net_simps on_side_def)

text \<open>
  C10. A full credit note undoes the invoice: completing a computed invoice and then a credit note with the
  same totals (the TCS folded in, the revenue account of the invoice) leaves every balance as it was.
\<close>

theorem full_credit_note_restores:
  assumes reach: "ledger_reachable co lg" "posts_to_ledger co"
    and sale: "computed_invoice table document items intra disc ro m si0" "apply_tcs_fold rate manual si0 = (si, override)"
      "post_sales_invoice co t1 i lg si = Inr (Some v, lg1)" "i \<notin> je_id ` set (lg_entries lg)"
      "(''SALES_INVOICE'', ps_id si0, ''COMPLETE'') \<notin> set (posted_sources (lg_entries lg))"
    and credit: "pn_doc nt = ps_doc si" "pn_tcs nt = ps_tcs si" "\<not> parent_rcm nt"
      "post_note co t2 j lg1 nt source_type SALES_CREDIT False prior outstanding = Inr (Some w, lg2)"
      "j \<notin> je_id ` set (lg_entries lg1)" "source_type \<noteq> ''JOURNAL_REVERSAL''"
      "(source_type, pn_id nt, ''COMPLETE'') \<notin> set (posted_sources (lg_entries lg1))"
  shows "balances lg2 = balances lg"
proof -
  have s: "si = fst (apply_tcs_fold rate manual si0)" using sale(2) by simp
  note b = built_lines [where rate = rate and manual = manual, OF sale(1), folded s]
  let ?d = "ps_doc si0"
  let ?note = "sales_credit_lines (credit_note_sales_code False) nt"
  have ok: "compute_document_totals table document items True intra None disc ro m = Inr (?d, ps_items si0)"
    "\<not> dc_rcm document" "list_all (\<lambda>x. 0 \<le> x) [dc_cgst ?d, dc_igst ?d, dc_cess ?d]" "header_tax ?d + dc_round_off ?d \<le> dc_grand ?d"
    using sale(1) by (simp_all add: computed_invoice_def Let_def)
  note foot = document_totals_facts [OF ok(1), simplified]
  have nt: "pn_doc nt = ?d\<lparr>dc_grand := dc_grand ?d + pn_tcs nt\<rparr>" "nonneg_paise (pn_tcs nt)"
    "header_legs (pn_doc nt) = header_legs ?d" "header_tax (pn_doc nt) = header_tax ?d"
    using b(1,4) credit(1,2) by (auto simp: header_legs_def header_tax_def sale_ok_def Let_def)
  have legs: "legs_ok (header_legs ?d)"
    using ok(3) foot(3,11) by (simp add: legs_ok_def header_legs_def nonneg_paise_def)
  have fits: "list_all line_fits ?note"
    unfolding sales_credit_lines_def Let_def nt(3,4) unfolding nt(1)
    using nt(2) foot(11,12) ok(4) legs_ok_total [OF legs] legs_ok_maps [OF legs] credit(3)
    by (auto simp: voucher_simps round_off_fits nonneg_paise_def header_total
        paisa_fixed intro!: tax_lines_fit)
  have undo: "net (built_sale si) a + net ?note a = 0" for a
    unfolding b(6) sales_credit_lines_def Let_def nt(3,4) unfolding nt(1)
    using round_off_undone [of "dc_round_off ?d" "ps_cost_center si0" a None] b(2) credit(2,3) nt(2)
    by (auto simp: voucher_simps header_total header_legs_def output_map_def credit_note_sales_code_def nonneg_paise_def)
  note s1 = post_lines_step [OF reach sale(3) [unfolded b(5)] _ sale(4), simplified]
  have p2: "post_lines co t2 j lg1 (source_type, pn_id nt, ''COMPLETE'') (pn_date nt) ?note = Inr (Some w, lg2)"
    using credit(4) by (simp add: post_note_def note_lines_def)
  note s2 = post_lines_step [OF s1(1) reach(2) p2 _ credit(5), simplified, OF credit(6)]
  have "balances lg1 = apply_voucher (built_sale si) (balances lg)"
    using s1(2) sale(5) fits_normal_list [OF sale_fits [OF b(1)]] by simp
  moreover have "balances lg2 = apply_voucher ?note (balances lg1)"
    using s2(2) credit(7) fits_normal_list [OF fits] by simp
  ultimately show ?thesis using undo by (simp add: apply_voucher_def fun_eq_iff add.assoc)
qed

lemma unbalanced_refused:
  assumes "ready_for co today lg src d ls" and "list_all line_fits ls" and "excess ls \<noteq> 0"
  shows "post_lines co today i lg src d ls
    = Inl (Business_Rule ''Journal posting must contain balanced debit and credit lines.'')"
proof -
  let ?kept = "filter (\<lambda>l. jl_debit l \<noteq> 0 \<or> jl_credit l \<noteq> 0) ls"
  have n: "map normalize_line ls = ls" by (rule fits_normal_list [OF assms(2)])
  have "excess ?kept = excess ls" unfolding excess_def by (induction ls) auto
  then have kept: "debits ?kept \<noteq> credits ?kept" "?kept \<noteq> []"
    using assms(3) excess_zero [of ?kept] by (auto simp: excess_def)
  obtain chart where chart: "resolve_accounts (map jl_account ls) (ensure_chart (lg_chart lg)) = Inr chart"
    using assms(1) by (auto simp: ready_for_def split: sum.splits)
  have new: "post_new co today i lgc src d ls allow
      = Inl (Business_Rule ''Journal posting must contain balanced debit and credit lines.'')" for lgc allow
    unfolding post_new_def Let_def n using kept by (simp add: guard_res_def)
  have "find (same_posting src) (lg_entries lg) = None" "posts_to_ledger co"
    using assms(1) by (simp_all add: find_same_posting ready_for_def)
  then have "post co today i (lg\<lparr>lg_chart := chart\<rparr>) src d ls False False
      = Inl (Business_Rule ''Journal posting must contain balanced debit and credit lines.'')"
    using assms(1) unfolding post_def
    by (auto simp: ready_for_def guard_res_def new Let_def split: option.splits)
  then show ?thesis by (simp add: post_lines_def chart)
qed

text \<open>
  A purchase note against a reverse-charge bill that carries a round-off cannot be completed: the
  payables leg leaves the round-off out while the round-off line is posted, so the voucher is out of balance
  by it and is refused.
\<close>

theorem rounded_rcm_note_refused:
  assumes "direction = PURCHASE_CREDIT \<or> direction = PURCHASE_DEBIT" and "parent_rcm nt"
    and "dc_round_off (pn_doc nt) \<noteq> 0" and "q2 (dc_round_off (pn_doc nt)) = dc_round_off (pn_doc nt)"
    and "legs_ok (header_legs (pn_doc nt))" "legs_ok (memo_legs (pn_doc nt))"
      "list_all nonneg_paise [dc_grand (pn_doc nt), dc_charges (pn_doc nt), dc_taxable (pn_doc nt)]"
    and "ready_for co today lg (source_type, pn_id nt, ''COMPLETE'') (pn_date nt)
      (note_lines direction contra prior outstanding nt)"
  shows "post_note co today i lg nt source_type direction contra prior outstanding
    = Inl (Business_Rule ''Journal posting must contain balanced debit and credit lines.'')"
proof -
  obtain s where s: "note_lines direction contra prior outstanding nt = rcm_note_lines s nt"
    using assms(1,2) by (auto simp: note_lines_def purchase_credit_lines_def purchase_debit_lines_def)
  note f = rcm_note_facts [OF assms(5,6,7,4), of s]
  show ?thesis unfolding post_note_def
    by (rule unbalanced_refused [OF assms(8)]) (use f s assms(3) in \<open>cases s; simp\<close>)+
qed

section \<open>Worked examples\<close>

abbreviation sale_lines_118 :: "jline list" where
  "sale_lines_118 \<equiv> [of_customer (Some 7) (dr ''1200'' 118 None), cr ''4100'' 100 None, cr ''2210'' 9 None, cr ''2220'' 9 None]"

abbreviation credit_lines_118 :: "jline list" where
  "credit_lines_118 \<equiv> [dr ''4100'' 100 None, dr ''2210'' 9 None, dr ''2220'' 9 None, of_customer (Some 7) (cr ''1200'' 118 None)]"

lemma sample_sale_and_credit:
  "case post_lines example_books (Date 2025 5 2) 1 new_ledger (''SALES_INVOICE'', 5, ''COMPLETE'') (Date 2025 5 2) sale_lines_118 of
     Inr (Some v, lg1) \<Rightarrow> (case post_lines example_books (Date 2025 5 2) 2 lg1 (''SALES_CREDIT_NOTE'', 6, ''COMPLETE'')
           (Date 2025 5 2) credit_lines_118 of
         Inr (Some w, lg2) \<Rightarrow> map je_id (lg_entries lg1) = [1] \<and>
           (''SALES_CREDIT_NOTE'', 6, ''COMPLETE'') \<notin> set (posted_sources (lg_entries lg1))
       | _ \<Rightarrow> False)
   | _ \<Rightarrow> False"
  by code_simp

theorem full_credit_note_restores_witness:
  "\<exists>d lines v lg1 nt w lg2.
    post_sales_invoice example_books (Date 2025 5 2) 1 new_ledger (sample_sale d lines) = Inr (Some v, lg1) \<and>
    post_note example_books (Date 2025 5 2) 2 lg1 nt ''SALES_CREDIT_NOTE'' SALES_CREDIT False 0 0 = Inr (Some w, lg2) \<and>
    balances lg2 = balances new_ledger"
proof -
  obtain d lines where ok: "compute_document_totals [] fresh_doc [fresh_item] True True None None None None = Inr (d, lines)"
    and d: "dc_cgst d = 9" "dc_grand d = 118" "list_all (\<lambda>x. x = 0) [dc_igst d, dc_cess d, dc_charges d, dc_inv_disc d, dc_round_off d]"
      "dc_taxable d = 100"
    using sample_totals by blast
  let ?inv = "sample_sale d lines"
  have s: "apply_tcs_fold 0 False ?inv = (?inv, None)"
    by (simp add: apply_tcs_fold_def Let_def sample_sale_def explicit_tcs_def unfold_tcs_def)
  have sgst: "dc_sgst d = 9" using document_totals_facts(3) [OF ok] d by simp
  have ci: "computed_invoice [] fresh_doc [fresh_item] True None None None ?inv"
    using ok d sgst by (simp add: computed_invoice_def Let_def sample_sale_def fresh_doc_def nonneg_paise_def header_tax_def)
  have none: "round_off_line 0 sd c = []" for sd c by (simp add: round_off_line_def q_eval)
  have lines: "built_sale ?inv = sale_lines_118"
    using built_lines(6) [OF ci, of 0 False] d sgst none
    by (simp add: s) (simp add: sample_sale_def tax_component_lines_def header_tax_def)
  define nt where "nt = \<lparr>pn_id = 6, pn_doc = d, pn_date = Date 2025 5 2, pn_party = Some 7, pn_tcs = 0, pn_parent = None\<rparr>"
  have credit: "sales_credit_lines (credit_note_sales_code False) nt = credit_lines_118"
    using d sgst none
    by (simp add: sales_credit_lines_def nt_def parent_rcm_def credit_note_sales_code_def header_tax_def header_legs_def
        output_map_def tax_component_lines_def)
  obtain v lg1 w lg2 where p: "post_lines example_books (Date 2025 5 2) 1 new_ledger (''SALES_INVOICE'', 5, ''COMPLETE'')
      (Date 2025 5 2) sale_lines_118 = Inr (Some v, lg1)"
    "post_lines example_books (Date 2025 5 2) 2 lg1 (''SALES_CREDIT_NOTE'', 6, ''COMPLETE'') (Date 2025 5 2) credit_lines_118
      = Inr (Some w, lg2)" "map je_id (lg_entries lg1) = [1]"
    "(''SALES_CREDIT_NOTE'', 6, ''COMPLETE'') \<notin> set (posted_sources (lg_entries lg1))"
    using posted_elim [OF sample_sale_and_credit] by (fastforce dest: posted_elim)
  have sale: "post_sales_invoice example_books (Date 2025 5 2) 1 new_ledger ?inv = Inr (Some v, lg1)"
    using built_lines(5) [OF ci, where rate = 0 and manual = False] p(1) by (simp add: s lines) (simp add: sample_sale_def)
  have note': "post_note example_books (Date 2025 5 2) 2 lg1 nt ''SALES_CREDIT_NOTE'' SALES_CREDIT False 0 0 = Inr (Some w, lg2)"
    using p(2) credit by (simp add: post_note_def note_lines_def) (simp add: nt_def)
  have reach: "ledger_reachable example_books new_ledger" by (rule ledger_reachable.start) (simp add: new_ledger_def)
  have po: "posts_to_ledger example_books" by (simp add: example_books_def posts_to_ledger_def)
  have j: "2 \<notin> je_id ` set (lg_entries lg1)" using arg_cong [OF p(3), of set] by auto
  have "balances lg2 = balances new_ledger"
    by (rule full_credit_note_restores [OF reach po ci s sale _ _ _ _ _ note' j])
      (use p(4) in \<open>simp_all add: nt_def sample_sale_def parent_rcm_def new_ledger_def posted_sources_def\<close>)
  then show ?thesis using sale note' by blast
qed

definition rounded_note :: posted_note where
  "rounded_note = \<lparr>pn_id = 6, pn_doc = fresh_doc\<lparr>dc_taxable := 100, dc_round_off := 1/2, dc_grand := 100, dc_rcm_igst := 18\<rparr>,
     pn_date = Date 2025 5 2, pn_party = Some 3, pn_tcs = 0,
     pn_parent = Some \<lparr>np_rcm = True, np_itc = CLAIMABLE, np_tds = 0, np_tds_rate = 0, np_grand = 100\<rparr>\<rparr>"

theorem rounded_rcm_note_refused_witness:
  "post_note example_books (Date 2025 5 2) 1 new_ledger rounded_note ''PURCHASE_CREDIT_NOTE'' PURCHASE_CREDIT False 0 0
    = Inl (Business_Rule ''Journal posting must contain balanced debit and credit lines.'')"
proof (rule rounded_rcm_note_refused)
  have "set (map jl_account (note_lines PURCHASE_CREDIT False 0 0 rounded_note)) \<subseteq> set CHART" by code_simp
  from example_ready [OF this]
  show "ready_for example_books (Date 2025 5 2) new_ledger (''PURCHASE_CREDIT_NOTE'', pn_id rounded_note, ''COMPLETE'')
      (pn_date rounded_note) (note_lines PURCHASE_CREDIT False 0 0 rounded_note)"
    by (simp add: rounded_note_def)
qed (simp_all add: rounded_note_def parent_rcm_def fresh_doc_def legs_ok_def header_legs_def memo_legs_def
    nonneg_paise_def q_eval)

end
