(* ===== verification/Amend_Postings.thy ===== *)
theory Amend_Postings
  imports Note_Postings
begin

text \<open>
  Corrections and the remaining postings of \<open>PostingService\<close>: amending a completed invoice or bill, the bank
  account's opening balance and re-pointed receipts, and the journals of manufacturing documents with their
  reversal.
\<close>

section \<open>Reversing the entries of a document\<close>

definition document_entries :: "string \<Rightarrow> int \<Rightarrow> ledger \<Rightarrow> jentry list" where
  "document_entries source_type i lg =
    filter (\<lambda>e. je_status e = POSTED \<and> fst (je_source e) = source_type \<and> fst (snd (je_source e)) = i) (lg_entries lg)"

text \<open>Reverse one entry after the other; new rows take the keys from \<open>n\<close> on.\<close>

fun reverse_each ::
  "(jentry \<Rightarrow> date option) \<Rightarrow> gl_company \<Rightarrow> date \<Rightarrow> int \<Rightarrow> ledger \<Rightarrow> jentry list \<Rightarrow> ledger res" where
  "reverse_each on co today n lg [] = Inr lg"
| "reverse_each on co today n lg (e # es) =
    bind_res (reverse co today n lg e (on e) None) (\<lambda>(_, lg1). reverse_each on co today (n + 1) lg1 es)"

definition own_date :: "jentry \<Rightarrow> date option" where "own_date e = Some (je_date e)"

section \<open>Amending\<close>

definition reversed_cogs :: "jentry list \<Rightarrow> rat" where
  "reversed_cogs es = (\<Sum>e\<leftarrow>filter (\<lambda>e. snd (snd (je_source e)) = ''COGS'') es.
     debits (filter (\<lambda>l. jl_account l = ''5400'') (je_lines e)))"

text \<open>\<open>fresh\<close> is the cost that the invoice's stock movements have now (0 when it cannot be read).\<close>

definition adjust_sales_invoice_postings ::
  "gl_company \<Rightarrow> date \<Rightarrow> int \<Rightarrow> ledger \<Rightarrow> posted_sale \<Rightarrow> rat \<Rightarrow> (jentry option \<times> ledger) res" where
  "adjust_sales_invoice_postings co today n lg si fresh =
    (if \<not> posts_to_ledger co then Inr (None, lg)
     else
       let es = document_entries ''SALES_INVOICE'' (ps_id si) lg; n1 = n + int (length es); cogs = reversed_cogs es in
       bind_res (reverse_each own_date co today n lg es) (\<lambda>lg1.
         if ps_opening si then post_opening_sales_invoice co today n1 lg1 si
         else bind_res (post_sales_invoice co today n1 lg1 si) (\<lambda>(posted, lg2).
           if 0 < cogs \<and> find (same_posting (''SALES_INVOICE'', ps_id si, ''COGS'')) (lg_entries lg2) = None
           then bind_res (post_sales_cogs co today (n1 + 1) lg2 si (if fresh \<noteq> 0 then fresh else cogs))
                  (\<lambda>(_, lg3). Inr (posted, lg3))
           else Inr (posted, lg2))))"

definition adjust_purchase_invoice_postings ::
  "gl_company \<Rightarrow> date \<Rightarrow> int \<Rightarrow> ledger \<Rightarrow> posted_purchase \<Rightarrow> bool \<Rightarrow> (jentry option \<times> ledger) res" where
  "adjust_purchase_invoice_postings co today n lg bill opening_balance =
    (if \<not> posts_to_ledger co then Inr (None, lg)
     else
       let es = document_entries ''PURCHASE_INVOICE'' (pp_id bill) lg; n1 = n + int (length es) in
       bind_res (reverse_each own_date co today n lg es) (\<lambda>lg1.
         if opening_balance then post_opening_purchase_invoice co today n1 lg1 bill
         else post_purchase co today n1 lg1 bill))"

section \<open>Bank accounts\<close>

definition opening_entry_date :: "gl_company \<Rightarrow> int \<Rightarrow> date \<Rightarrow> date" where
  "opening_entry_date co fy_month today =
    (case gc_books_start co of
       Some d \<Rightarrow> d
     | None \<Rightarrow> Date (if fy_month \<le> d_month today then d_year today else d_year today - 1) fy_month 1)"

text \<open>A bank account with its opening balance; \<open>opening_as_of\<close> may be missing.\<close>

record bank_opening =
  bo_bank :: int
  bo_amount :: rat
  bo_as_of :: "date option"

definition post_bank_opening_balance ::
  "gl_company \<Rightarrow> int \<Rightarrow> date \<Rightarrow> int \<Rightarrow> ledger \<Rightarrow> bank_opening \<Rightarrow> (jentry option \<times> ledger) res" where
  "post_bank_opening_balance co fy_month today n lg b =
    (if \<not> posts_to_ledger co then Inr (None, lg)
     else
       let lg0 = lg\<lparr>lg_chart := ensure_chart (lg_chart lg)\<rparr>; src = (''BANK_ACCOUNT'', bo_bank b, ''OPENING'');
           amount = bo_amount b;
           write = (\<lambda>k lg1.
             if amount = 0 then Inr (None, lg1)
             else
               let d = (case bo_as_of b of Some d \<Rightarrow> d | None \<Rightarrow> opening_entry_date co fy_month today) in
               bind_res (bank_gl_account co (lg_chart lg1) (Some (bo_bank b)) (Some d)) (\<lambda>(code, chart).
                 post_lines co today k (lg1\<lparr>lg_chart := chart\<rparr>) src d
                   (if 0 < amount then [dr code amount None, cr ''3200'' amount None]
                    else [dr ''3200'' (- amount) None, cr code (- amount) None]))) in
       case find (same_posting src) (lg_entries lg0) of
         None \<Rightarrow> write n lg0
       | Some e \<Rightarrow>
           if - net (je_lines e) ''3200'' = amount then Inr (Some e, lg0)
           else bind_res (reverse co today n lg0 e (Some (je_date e)) None) (\<lambda>(_, lg1). write (n + 1) lg1))"

definition post_receipt_bank_repoint ::
  "gl_company \<Rightarrow> date \<Rightarrow> int \<Rightarrow> ledger \<Rightarrow> posted_receipt \<Rightarrow> int option \<Rightarrow> int option \<Rightarrow> nat
    \<Rightarrow> (jentry option \<times> ledger) res" where
  "post_receipt_bank_repoint co today n lg r old_bank new_bank seq =
    (let amount = pr_amount r - gateway_fee r in
     if amount \<le> 0 then Inr (None, lg\<lparr>lg_chart := ensure_chart (lg_chart lg)\<rparr>)
     else
       bind_res (money_account co lg old_bank (pr_date r)) (\<lambda>(old_acct, lg1).
       bind_res (money_account co lg1 new_bank (pr_date r)) (\<lambda>(new_acct, lg2).
       if old_acct = new_acct then Inr (None, lg2)
       else post_lines co today n lg2 (''CUSTOMER_RECEIPT'', pr_id r, ''BANK_REPOINT_'' @ show_nat seq) (pr_date r)
              [dr new_acct amount None, cr old_acct amount None])))"

section \<open>Manufacturing\<close>

definition post_work_order_release ::
  "gl_company \<Rightarrow> date \<Rightarrow> int \<Rightarrow> ledger \<Rightarrow> int \<Rightarrow> date option \<Rightarrow> rat \<Rightarrow> (jentry option \<times> ledger) res" where
  "post_work_order_release co today n lg wo released amount =
    (let amt = q2 amount in
     if amt \<le> 0 \<or> \<not> posts_to_ledger co then Inr (None, lg)
     else post_lines co today n lg (''WORK_ORDER'', wo, ''RELEASE'') (opt_arg today released)
            (transfer_lines ''1450'' ''1400'' amt None))"

definition post_work_order_complete ::
  "gl_company \<Rightarrow> date \<Rightarrow> int \<Rightarrow> ledger \<Rightarrow> int \<Rightarrow> date option \<Rightarrow> date option \<Rightarrow> rat \<Rightarrow> (jentry option \<times> ledger) res" where
  "post_work_order_complete co today n lg wo released completed amount =
    (if amount \<le> 0 \<or> \<not> posts_to_ledger co then Inr (None, lg)
     else post_lines co today n lg (''WORK_ORDER'', wo, ''COMPLETE'') (opt_arg (opt_arg today released) completed)
            (transfer_lines ''1400'' ''1450'' amount None))"

definition reverse_work_order ::
  "gl_company \<Rightarrow> date \<Rightarrow> int \<Rightarrow> ledger \<Rightarrow> int \<Rightarrow> ledger res" where
  "reverse_work_order co today n lg wo =
    (if \<not> posts_to_ledger co then Inr lg
     else let es = document_entries ''WORK_ORDER'' wo lg;
              of_purpose = (\<lambda>p. filter (\<lambda>e. snd (snd (je_source e)) = p) es) in
       reverse_each (\<lambda>_. None) co today n lg
         (of_purpose ''COMPLETE_ROUND'' @ of_purpose ''COMPLETE'' @ of_purpose ''RELEASE''))"

definition post_mfg_wip ::
  "gl_company \<Rightarrow> date \<Rightarrow> int \<Rightarrow> ledger \<Rightarrow> posting_source \<Rightarrow> date option \<Rightarrow> rat \<Rightarrow> bool \<Rightarrow> (jentry option \<times> ledger) res" where
  "post_mfg_wip co today n lg src d amount into_wip =
    (let amt = q2 amount in
     if amt \<le> 0 \<or> \<not> posts_to_ledger co then Inr (None, lg)
     else post_lines co today n lg src (opt_arg today d)
            (if into_wip then transfer_lines ''1450'' ''1400'' amt None else transfer_lines ''1400'' ''1450'' amt None))"

definition absorption_lines :: "string \<Rightarrow> (string \<times> rat) list \<Rightarrow> jline list" where
  "absorption_lines debit_code parts =
    dr debit_code (\<Sum>(c, amt)\<leftarrow>parts. amt) None # map (\<lambda>(c, amt). cr c amt None) parts"

definition post_mfg_absorption ::
  "gl_company \<Rightarrow> date \<Rightarrow> int \<Rightarrow> ledger \<Rightarrow> posting_source \<Rightarrow> date option \<Rightarrow> rat \<Rightarrow> (string \<times> rat) list \<Rightarrow> string
    \<Rightarrow> (jentry option \<times> ledger) res" where
  "post_mfg_absorption co today n lg src d amount legs debit_code =
    (let parts = filter (\<lambda>(c, amt). 0 < amt)
           (map (\<lambda>(c, amt). (c, q2 amt)) (if legs = [] then [(''5410'', amount)] else legs)) in
     if parts = [] \<or> \<not> posts_to_ledger co then Inr (None, lg)
     else post_lines co today n lg src (opt_arg today d) (absorption_lines debit_code parts))"

definition clear_lines :: "string \<Rightarrow> string \<Rightarrow> rat \<Rightarrow> jline list" where
  "clear_lines up down amt =
    (if 0 < amt then transfer_lines up down \<bar>amt\<bar> None else transfer_lines down up \<bar>amt\<bar> None)"

definition post_mfg_variance ::
  "gl_company \<Rightarrow> date \<Rightarrow> int \<Rightarrow> ledger \<Rightarrow> posting_source \<Rightarrow> date option \<Rightarrow> rat \<Rightarrow> string \<Rightarrow> (jentry option \<times> ledger) res" where
  "post_mfg_variance co today n lg src d amount account_code =
    (let amt = q2 amount in
     if amt = 0 \<or> \<not> posts_to_ledger co then Inr (None, lg)
     else post_lines co today n lg src (opt_arg today d) (clear_lines account_code ''1450'' amt))"

definition post_mfg_revaluation ::
  "gl_company \<Rightarrow> date \<Rightarrow> int \<Rightarrow> ledger \<Rightarrow> posting_source \<Rightarrow> date option \<Rightarrow> rat \<Rightarrow> (jentry option \<times> ledger) res" where
  "post_mfg_revaluation co today n lg src d amount =
    (let amt = q2 amount in
     if amt = 0 \<or> \<not> posts_to_ledger co then Inr (None, lg)
     else post_lines co today n lg src (opt_arg today d) (clear_lines ''1400'' ''5420'' amt))"

definition reverse_mfg_document ::
  "gl_company \<Rightarrow> date \<Rightarrow> int \<Rightarrow> ledger \<Rightarrow> string \<Rightarrow> int \<Rightarrow> date option \<Rightarrow> (nat \<times> ledger) res" where
  "reverse_mfg_document co today n lg source_type i d =
    (if \<not> posts_to_ledger co then Inr (0, lg)
     else let es = filter (\<lambda>e. snd (snd (je_source e)) \<noteq> ''REVERSE'') (document_entries source_type i lg) in
       bind_res (reverse_each (\<lambda>_. d) co today n lg es) (\<lambda>lg1. Inr (length es, lg1)))"

section \<open>Facts about reversing\<close>

lemma reverse_each_effect:
  assumes "ledger_reachable co lg" "posts_to_ledger co" "set es \<subseteq> set (lg_entries lg)" "distinct (map je_id es)"
    "\<forall>x\<in>set (lg_entries lg). je_id x < n" "reverse_each on co today n lg es = Inr lg'"
  shows "ledger_reachable co lg' \<and> (\<forall>x\<in>set (lg_entries lg'). je_id x < n + int (length es)) \<and>
    (\<forall>a. balances lg' a = balances lg a - (\<Sum>e\<leftarrow>es. net (je_lines e) a)) \<and>
    (\<forall>x\<in>set (lg_entries lg'). je_status x = POSTED \<longrightarrow> fst (je_source x) = ''JOURNAL_REVERSAL''
       \<or> (\<exists>y\<in>set (lg_entries lg). je_status y = POSTED \<and> je_source y = je_source x \<and> je_id y \<notin> je_id ` set es))"
  using assms
proof (induction es arbitrary: n lg)
  case Nil
  then show ?case by auto
next
  case (Cons e es)
  obtain r lg1 where rv: "reverse co today n lg e (on e) None = Inr (r, lg1)"
    and rest: "reverse_each on co today (n + 1) lg1 es = Inr lg'"
    using Cons.prems(6) by (auto simp: bind_res_Inr_iff)
  have e: "e \<in> set (lg_entries lg)" and n: "n \<notin> je_id ` set (lg_entries lg)"
    using Cons.prems(3,5) by auto
  obtain x where x: "r = Some x" "lg_entries lg1 = map (mark_reversed e r) (lg_entries lg @ [x])"
    "je_lines x = map swap_line (je_lines e)" "je_id x = n" "je_source x = reversal_source (je_id e)"
    "ledger_reachable co lg1" "balances lg1 = apply_voucher (map swap_line (je_lines e)) (balances lg)"
    using reverse_effect [OF Cons.prems(1,2) e rv n] by metis
  have keep: "mark_reversed e r y = y" if "je_id y \<noteq> je_id e" for y
    using that by (simp add: mark_reversed_def)
  have sub: "set es \<subseteq> set (lg_entries lg1)"
  proof
    fix y assume y: "y \<in> set es"
    then have "je_id y \<noteq> je_id e" using Cons.prems(4) y by (metis distinct.simps(2) image_eqI image_set list.simps(9))
    then have "y = mark_reversed e r y" by (simp add: keep)
    then show "y \<in> set (lg_entries lg1)" unfolding x(2) using y Cons.prems(3) by auto
  qed
  have bound: "\<forall>y\<in>set (lg_entries lg1). je_id y < n + 1"
    using Cons.prems(5) x(4) by (fastforce simp: x(2))
  note ih = Cons.IH [OF x(6) Cons.prems(2) sub _ bound rest]
  have d: "distinct (map je_id es)" using Cons.prems(4) by simp
  have src: "fst (je_source y) = ''JOURNAL_REVERSAL'' \<or>
      (\<exists>z\<in>set (lg_entries lg). je_status z = POSTED \<and> je_source z = je_source y \<and> je_id z \<notin> je_id ` set (e # es))"
    if y: "y \<in> set (lg_entries lg1)" "je_status y = POSTED" "je_id y \<notin> je_id ` set es" for y
  proof -
    obtain z where z: "z \<in> set (lg_entries lg @ [x])" "y = mark_reversed e r z" using y(1) by (auto simp: x(2))
    then have ne: "je_id z \<noteq> je_id e" using y(2) by (auto simp: mark_reversed_status)
    show ?thesis
    proof (cases "z = x")
      case True
      then show ?thesis using z x(5) by (simp add: reversal_source_def)
    next
      case False
      then show ?thesis using z ne y keep [OF ne] by (intro disjI2 bexI [of _ z]) auto
    qed
  qed
  have "je_status y = POSTED \<longrightarrow> fst (je_source y) = ''JOURNAL_REVERSAL''
      \<or> (\<exists>z\<in>set (lg_entries lg). je_status z = POSTED \<and> je_source z = je_source y \<and> je_id z \<notin> je_id ` set (e # es))"
    if y: "y \<in> set (lg_entries lg')" for y
    using ih [OF d] y src by metis
  moreover have "balances lg' a = balances lg a - (\<Sum>e\<leftarrow>e # es. net (je_lines e) a)" for a
  proof -
    have "balances lg' a = balances lg1 a - (\<Sum>e\<leftarrow>es. net (je_lines e) a)" using ih [OF d] by blast
    moreover have "balances lg1 a = balances lg a - net (je_lines e) a" by (simp add: x(7) apply_voucher_def)
    ultimately show ?thesis by simp
  qed
  moreover have "ledger_reachable co lg' \<and> (\<forall>x\<in>set (lg_entries lg'). je_id x < n + int (length (e # es)))"
    using ih [OF d] by (simp add: algebra_simps)
  ultimately show ?case by blast
qed

lemma post_lines_entries:
  assumes "ledger_reachable co lg" "posts_to_ledger co" "post_lines co today i lg src d ls = Inr (r, lg')"
  shows "lg_entries lg' = lg_entries lg \<or> (\<exists>e. lg_entries lg' = lg_entries lg @ [e] \<and> je_id e = i \<and> je_source e = src)"
proof -
  obtain chart where p: "post co today i (lg\<lparr>lg_chart := chart\<rparr>) src d ls False False = Inr (r, lg')"
    using assms(3) by (auto simp: post_lines_def bind_res_Inr_iff)
  have "books_ok (lg_entries (lg\<lparr>lg_chart := chart\<rparr>))" using books_ok_reachable [OF assms(1,2)] by simp
  from post_elim [OF p this] show ?thesis by (cases) auto
qed

lemma not_posted:
  assumes "\<forall>x\<in>set (lg_entries lg1). je_status x = POSTED \<longrightarrow> fst (je_source x) = ''JOURNAL_REVERSAL''
       \<or> (\<exists>y\<in>set (lg_entries lg). je_status y = POSTED \<and> je_source y = je_source x
            \<and> je_id y \<notin> je_id ` set (document_entries t i lg))"
    and "t \<noteq> ''JOURNAL_REVERSAL''"
  shows "(t, i, p) \<notin> set (posted_sources (lg_entries lg1))"
proof
  assume "(t, i, p) \<in> set (posted_sources (lg_entries lg1))"
  then obtain x where "x \<in> set (lg_entries lg1)" "je_status x = POSTED" "je_source x = (t, i, p)"
    by (auto simp: posted_sources_def)
  then obtain y where "y \<in> set (lg_entries lg)" "je_status y = POSTED" "je_source y = (t, i, p)"
    "je_id y \<notin> je_id ` set (document_entries t i lg)"
    using assms by fastforce
  then show False by (auto simp: document_entries_def)
qed

section \<open>Properties\<close>

text \<open>
  C26. Amending a completed invoice replaces its journals: every posted entry of the invoice is reversed and
  the new lines are posted, so each balance moves by exactly the difference; cost of goods sold that was
  reversed is posted again, and nothing of the old posting is left.
\<close>

theorem amended_invoice_replaces:
  assumes reach: "ledger_reachable co lg" "posts_to_ledger co" and keys: "\<forall>x\<in>set (lg_entries lg). je_id x < n"
    and adj: "adjust_sales_invoice_postings co today n lg si fresh = Inr (r, lg')" and "\<not> ps_opening si"
  shows "(let es = document_entries ''SALES_INVOICE'' (ps_id si) lg; cogs = reversed_cogs es;
       amount = (if fresh \<noteq> 0 then fresh else cogs);
       again = (if 0 < cogs then transfer_lines ''5400'' ''1400'' amount (ps_cost_center si) else []) in
     balances lg' = apply_voucher (map normalize_line (built_sale si @ again))
       (\<lambda>a. balances lg a - (\<Sum>e\<leftarrow>es. net (je_lines e) a)) \<and> ledger_reachable co lg')"
proof -
  let ?es = "document_entries ''SALES_INVOICE'' (ps_id si) lg"
  let ?n1 = "n + int (length ?es)"
  let ?amount = "if fresh \<noteq> 0 then fresh else reversed_cogs ?es"
  obtain lg1 lg2 p where r1: "reverse_each own_date co today n lg ?es = Inr lg1"
    and r2: "post_sales_invoice co today ?n1 lg1 si = Inr (p, lg2)"
    and r3: "if 0 < reversed_cogs ?es \<and> find (same_posting (''SALES_INVOICE'', ps_id si, ''COGS'')) (lg_entries lg2) = None
      then \<exists>q. post_sales_cogs co today (?n1 + 1) lg2 si ?amount = Inr (q, lg') else lg' = lg2"
    using adj reach(2) \<open>\<not> ps_opening si\<close>
    by (auto simp: adjust_sales_invoice_postings_def Let_def bind_res_Inr_iff split: if_splits)
  have "distinct (map je_id (lg_entries lg))" using books_ok_reachable [OF reach] by (simp add: books_ok_def)
  then have "distinct (map je_id ?es)" by (simp add: document_entries_def distinct_map_filter)
  moreover have "set ?es \<subseteq> set (lg_entries lg)" by (auto simp: document_entries_def)
  ultimately have e: "ledger_reachable co lg1" "\<forall>x\<in>set (lg_entries lg1). je_id x < ?n1"
    "balances lg1 a = balances lg a - (\<Sum>e\<leftarrow>?es. net (je_lines e) a)"
    "(''SALES_INVOICE'', ps_id si, q) \<notin> set (posted_sources (lg_entries lg1))" for a q
    using reverse_each_effect [OF reach _ _ keys r1] not_posted [of lg1 lg "''SALES_INVOICE''" "ps_id si"] by simp_all
  have p2: "post_lines co today ?n1 lg1 (''SALES_INVOICE'', ps_id si, ''COMPLETE'') (ps_date si) (built_sale si) = Inr (p, lg2)"
    using r2 by (auto simp: post_sales_invoice_def built_sale_def bind_res_Inr_iff)
  have f1: "?n1 \<notin> je_id ` set (lg_entries lg1)" using e(2) by auto
  note s2 = post_lines_step [OF e(1) reach(2) p2 _ f1, simplified]
  have cogs: "(''SALES_INVOICE'', ps_id si, ''COGS'') \<notin> set (posted_sources (lg_entries lg2))"
    using post_lines_entries [OF e(1) reach(2) p2] e(4) [of "''COGS''"] by (auto simp: posted_sources_def)
  have keys2: "?n1 + 1 \<notin> je_id ` set (lg_entries lg2)"
    using post_lines_entries [OF e(1) reach(2) p2] e(2) by (elim disjE exE conjE) fastforce+
  have b2: "balances lg2 = apply_voucher (map normalize_line (built_sale si)) (\<lambda>a. balances lg a - (\<Sum>e\<leftarrow>?es. net (je_lines e) a))"
    using s2(2) e(3,4) by (simp add: apply_voucher_def fun_eq_iff)
  show ?thesis
  proof (cases "0 < reversed_cogs ?es")
    case False
    then show ?thesis using r3 b2 s2(1) by (simp add: Let_def)
  next
    case True
    then obtain q where p3: "post_sales_cogs co today (?n1 + 1) lg2 si ?amount = Inr (q, lg')"
      using r3 cogs by (auto simp: find_same_posting)
    have "?amount \<noteq> 0" using True by auto
    then have p3: "post_lines co today (?n1 + 1) lg2 (''SALES_INVOICE'', ps_id si, ''COGS'') (ps_date si)
        (transfer_lines ''5400'' ''1400'' ?amount (ps_cost_center si)) = Inr (q, lg')"
      using p3 by (simp only: post_sales_cogs_def if_False)
    note s3 = post_lines_step [OF s2(1) reach(2) p3 _ keys2, simplified]
    show ?thesis using s3 True cogs b2 by (simp add: Let_def apply_voucher_def fun_eq_iff net_simps)
  qed
qed

section \<open>A worked example\<close>

text \<open>An invoice of 118, amended to 236.\<close>

definition plain_sale :: "rat \<Rightarrow> posted_sale" where
  "plain_sale x = sample_sale (fresh_doc\<lparr>dc_taxable := 100 * x, dc_cgst := 9 * x, dc_sgst := 9 * x, dc_grand := 118 * x\<rparr>)
     [fresh_item\<lparr>it_taxable := 100 * x, it_cgst := 9 * x, it_sgst := 9 * x\<rparr>]"

lemma sample_amendment:
  "case post_sales_invoice example_books (Date 2025 5 2) 1 new_ledger (plain_sale 1) of
     Inr (Some v, lg1) \<Rightarrow> (case adjust_sales_invoice_postings example_books (Date 2025 5 2) 2 lg1 (plain_sale 2) 0 of
         Inr (Some w, lg2) \<Rightarrow> map je_id (lg_entries lg1) = [1]
           \<and> map (\<lambda>e. (je_id e, fst (je_source e), je_status e = POSTED)) (lg_entries lg2)
               = [(1, ''SALES_INVOICE'', False), (2, ''JOURNAL_REVERSAL'', True), (3, ''SALES_INVOICE'', True)]
           \<and> length (document_entries ''SALES_INVOICE'' 5 lg1) = 1 \<and> map je_lines (lg_entries lg1) = [built_sale (plain_sale 1)]
           \<and> reversed_cogs (document_entries ''SALES_INVOICE'' 5 lg1) = 0
       | _ \<Rightarrow> False)
   | _ \<Rightarrow> False"
  by code_simp

theorem amended_invoice_replaces_witness:
  "\<exists>v lg1 w lg2. post_sales_invoice example_books (Date 2025 5 2) 1 new_ledger (plain_sale 1) = Inr (Some v, lg1) \<and>
    adjust_sales_invoice_postings example_books (Date 2025 5 2) 2 lg1 (plain_sale 2) 0 = Inr (Some w, lg2) \<and>
    ledger_reachable example_books lg2 \<and> document_entries ''SALES_INVOICE'' 5 lg1 \<noteq> [] \<and>
    (\<exists>f. balances lg2 = apply_voucher (map normalize_line (built_sale (plain_sale 2))) f)"
proof -
  obtain v lg1 w lg2 where p: "post_sales_invoice example_books (Date 2025 5 2) 1 new_ledger (plain_sale 1) = Inr (Some v, lg1)"
    "adjust_sales_invoice_postings example_books (Date 2025 5 2) 2 lg1 (plain_sale 2) 0 = Inr (Some w, lg2)"
    "map je_id (lg_entries lg1) = [1]" "document_entries ''SALES_INVOICE'' 5 lg1 \<noteq> []"
    "reversed_cogs (document_entries ''SALES_INVOICE'' 5 lg1) = 0"
    using posted_elim [OF sample_amendment] by (fastforce dest: posted_elim)
  have po: "posts_to_ledger example_books" by (simp add: example_books_def posts_to_ledger_def)
  have start: "ledger_reachable example_books new_ledger" by (rule ledger_reachable.start) (simp add: new_ledger_def)
  have id: "ps_id (plain_sale x) = 5" "\<not> ps_opening (plain_sale x)" for x by (simp_all add: plain_sale_def sample_sale_def)
  obtain L where L: "post_lines example_books (Date 2025 5 2) 1 new_ledger (''SALES_INVOICE'', 5, ''COMPLETE'')
      (ps_date (plain_sale 1)) L = Inr (Some v, lg1)"
    using p(1) id by (auto simp: post_sales_invoice_def bind_res_Inr_iff)
  have "1 \<notin> je_id ` set (lg_entries new_ledger)" by (simp add: new_ledger_def)
  then have reach: "ledger_reachable example_books lg1" using post_lines_step(1) [OF start po L] by simp
  have keys: "\<forall>x\<in>set (lg_entries lg1). je_id x < 2" 
  proof
    fix x assume "x \<in> set (lg_entries lg1)"
    then have "je_id x \<in> set (map je_id (lg_entries lg1))" by simp
    then show "je_id x < 2" unfolding p(3) by simp
  qed
  from amended_invoice_replaces [OF reach po keys p(2)] p id show ?thesis by (auto simp: Let_def)
qed

end
