(* ===== verification/Ledger_Reports.thy ===== *)
theory Ledger_Reports
  imports General_Ledger
begin

text \<open>
  Ledger reports (\<open>accounting/reports.py\<close>): account balances from the journal lines or from the monthly
  rollup, the trial balance, profit and loss, balance sheet with the Schedule III headings, and cash flow.
  A report reads rows: a journal line joined with its entry.
\<close>

section \<open>Rows and balances\<close>

datatype account_type = ASSET | LIABILITY | EQUITY | INCOME | EXPENSE

record lrow =
  lw_id :: int
  lw_entry :: int
  lw_status :: entry_status
  lw_date :: date
  lw_src :: posting_source
  lw_of_close :: bool              \<comment> \<open>the entry reverses a year-end close (\<open>reversal_of__purpose\<close>)\<close>
  lw_line :: jline

text \<open>The rows of a ledger; line keys follow the order of insertion.\<close>

definition entry_rows :: "jentry list \<Rightarrow> jentry \<Rightarrow> int \<Rightarrow> lrow list" where
  "entry_rows es e k =
    map (\<lambda>(i, l). \<lparr>lw_id = k + int i, lw_entry = je_id e, lw_status = je_status e, lw_date = je_date e,
        lw_src = je_source e,
        lw_of_close = list_ex (\<lambda>x. je_reversed x = Some (je_id e) \<and> snd (snd (je_source x)) = ''FY_CLOSE'') es,
        lw_line = l\<rparr>)
      (enumerate 0 (je_lines e))"

fun rows_from :: "jentry list \<Rightarrow> jentry list \<Rightarrow> int \<Rightarrow> lrow list" where
  "rows_from es [] k = []"
| "rows_from es (e # rest) k = entry_rows es e k @ rows_from es rest (k + int (length (je_lines e)))"

definition ledger_rows :: "ledger \<Rightarrow> lrow list" where
  "ledger_rows lg = rows_from (lg_entries lg) (lg_entries lg) 1"

record balance_filter =
  bf_as_of :: "date option"
  bf_from :: "date option"
  bf_to :: "date option"
  bf_cc :: "int option"
  bf_unassigned :: bool
  bf_no_close :: bool
  bf_no_close_after :: "date option"

definition all_rows :: balance_filter where
  "all_rows = \<lparr>bf_as_of = None, bf_from = None, bf_to = None, bf_cc = None, bf_unassigned = False,
     bf_no_close = False, bf_no_close_after = None\<rparr>"

definition counted :: "lrow \<Rightarrow> bool" where
  "counted r = (lw_status r = POSTED \<or> lw_status r = REVERSED)"

definition is_close :: "lrow \<Rightarrow> bool" where
  "is_close r = (snd (snd (lw_src r)) = ''FY_CLOSE'' \<or> lw_of_close r)"

definition selected :: "balance_filter \<Rightarrow> lrow \<Rightarrow> bool" where
  "selected f r =
    (counted r \<and>
     (case bf_as_of f of None \<Rightarrow> True | Some d \<Rightarrow> lw_date r \<le> d) \<and>
     (case bf_from f of None \<Rightarrow> True | Some d \<Rightarrow> d \<le> lw_date r) \<and>
     (case bf_to f of None \<Rightarrow> True | Some d \<Rightarrow> lw_date r \<le> d) \<and>
     (if bf_unassigned f then jl_cost_center (lw_line r) = None
      else case bf_cc f of None \<Rightarrow> True | Some c \<Rightarrow> jl_cost_center (lw_line r) = Some c) \<and>
     (if bf_no_close f then \<not> is_close r
      else case bf_no_close_after f of None \<Rightarrow> True | Some d \<Rightarrow> \<not> (is_close r \<and> d \<le> lw_date r)))"

record report_row =
  rr_account :: string
  rr_debit :: rat
  rr_credit :: rat
  rr_balance :: rat

definition group_rows :: "lrow list \<Rightarrow> report_row list" where
  "group_rows rows =
    map (\<lambda>a. let ls = filter (\<lambda>l. jl_account l = a) (map lw_line rows) in
        \<lparr>rr_account = a, rr_debit = debits ls, rr_credit = credits ls, rr_balance = debits ls - credits ls\<rparr>)
      (remdups (map (jl_account \<circ> lw_line) rows))"

definition live_balances :: "lrow list \<Rightarrow> balance_filter \<Rightarrow> report_row list" where
  "live_balances rows f = group_rows (filter (selected f) rows)"

section \<open>The monthly rollup\<close>

type_synonym month_cell = "string \<times> date"    \<comment> \<open>account and first day of the month\<close>

record rollup =
  ru_max :: int                    \<comment> \<open>\<open>max_line_id\<close>\<close>
  ru_months :: "(month_cell \<times> rat \<times> rat) list"

definition month_start :: "date \<Rightarrow> date" where
  "month_start d = Date (d_year d) (d_month d) 1"

definition month_key :: "lrow \<Rightarrow> month_cell" where
  "month_key r = (jl_account (lw_line r), month_start (lw_date r))"

definition max_line_id :: "lrow list \<Rightarrow> int" where
  "max_line_id rows = fold (\<lambda>r. max (lw_id r)) rows 0"

definition refresh_account_monthly_balances :: "lrow list \<Rightarrow> rollup" where
  "refresh_account_monthly_balances rows =
    (let max_id = max_line_id rows; mine = filter (\<lambda>r. lw_id r \<le> max_id \<and> counted r) rows in
     \<lparr>ru_max = max_id,
      ru_months = map (\<lambda>k. let ls = map lw_line (filter (\<lambda>r. month_key r = k) mine) in (k, debits ls, credits ls))
        (remdups (map month_key mine))\<rparr>)"

definition merge_row :: "(month_cell \<times> rat \<times> rat) list \<Rightarrow> lrow list \<Rightarrow> string \<Rightarrow> report_row" where
  "merge_row months live a =
    (let d = (\<Sum>(k, d, c)\<leftarrow>filter (\<lambda>(k, d, c). fst k = a) months. d)
           + debits (filter (\<lambda>l. jl_account l = a) (map lw_line live));
         c = (\<Sum>(k, d, c)\<leftarrow>filter (\<lambda>(k, d, c). fst k = a) months. c)
           + credits (filter (\<lambda>l. jl_account l = a) (map lw_line live))
     in \<lparr>rr_account = a, rr_debit = d, rr_credit = c, rr_balance = d - c\<rparr>)"

definition balances_from_rollup :: "rollup option \<Rightarrow> lrow list \<Rightarrow> balance_filter \<Rightarrow> report_row list option" where
  "balances_from_rollup state rows f =
    (if bf_from f \<noteq> None \<or> bf_to f \<noteq> None \<or> bf_cc f \<noteq> None \<or> bf_unassigned f \<or> bf_no_close f
        \<or> bf_no_close_after f \<noteq> None then None
     else case state of
       None \<Rightarrow> None
     | Some r \<Rightarrow>
         if ru_max r \<noteq> max_line_id rows then None
         else
           let months = (case bf_as_of f of None \<Rightarrow> ru_months r
                 | Some d \<Rightarrow> filter (\<lambda>(k, _). snd k < month_start d) (ru_months r));
               live = (case bf_as_of f of None \<Rightarrow> []
                 | Some d \<Rightarrow> filter (\<lambda>x. counted x \<and> month_start d \<le> lw_date x \<and> lw_date x \<le> d) rows)
           in Some (map (merge_row months live)
                (remdups (map (fst \<circ> fst) months @ map (jl_account \<circ> lw_line) live))))"

definition report_balances :: "rollup option \<Rightarrow> lrow list \<Rightarrow> balance_filter \<Rightarrow> report_row list" where
  "report_balances state rows f =
    (case balances_from_rollup state rows f of Some out \<Rightarrow> out | None \<Rightarrow> live_balances rows f)"

definition trial_balance ::
  "rollup option \<Rightarrow> lrow list \<Rightarrow> date option \<Rightarrow> report_row list \<times> rat \<times> rat \<times> bool" where
  "trial_balance state rows as_of =
    (let out = report_balances state rows (all_rows\<lparr>bf_as_of := as_of\<rparr>);
         total_debit = (\<Sum>r\<leftarrow>out. rr_debit r); total_credit = (\<Sum>r\<leftarrow>out. rr_credit r)
     in (out, total_debit, total_credit, total_debit = total_credit))"

section \<open>How rows and the rollup change\<close>

record report_state =
  rs_rows :: "lrow list"
  rs_next :: int                   \<comment> \<open>the next line key\<close>
  rs_rollup :: "rollup option"

definition set_status :: "entry_status \<Rightarrow> entry_status \<Rightarrow> int \<Rightarrow> lrow \<Rightarrow> lrow" where
  "set_status old new e r = (if lw_entry r = e \<and> lw_status r = old then r\<lparr>lw_status := new\<rparr> else r)"

definition new_rows_ok :: "int \<Rightarrow> lrow list \<Rightarrow> bool" where
  "new_rows_ok next rows = (map lw_id rows = map (\<lambda>i. next + int i) [0..<length rows]
     \<and> list_all (\<lambda>r. valid_date (lw_date r)) rows)"

text \<open>
  Postings add posted rows, a reversal marks an entry reversed and adds its counter rows; a manual journal is
  saved as a draft, edited (lines deleted and written again), discarded, or posted, which drops the
  checkpoint; the rollup is refreshed at any time.
\<close>

inductive report_step :: "report_state \<Rightarrow> report_state \<Rightarrow> bool" where
  posting: "new_rows_ok (rs_next s) rows \<Longrightarrow> list_all (\<lambda>r. lw_status r = POSTED) rows \<Longrightarrow>
     report_step s (s\<lparr>rs_rows := rs_rows s @ rows, rs_next := rs_next s + int (length rows)\<rparr>)"
| reversing: "new_rows_ok (rs_next s) rows \<Longrightarrow> list_all (\<lambda>r. lw_status r = POSTED) rows \<Longrightarrow>
     report_step s (s\<lparr>rs_rows := map (set_status POSTED REVERSED e) (rs_rows s) @ rows,
                      rs_next := rs_next s + int (length rows)\<rparr>)"
| drafting: "new_rows_ok (rs_next s) rows \<Longrightarrow> list_all (\<lambda>r. lw_status r = DRAFT) rows \<Longrightarrow>
     report_step s (s\<lparr>rs_rows := filter (\<lambda>r. \<not> (lw_entry r = e \<and> lw_status r = DRAFT)) (rs_rows s) @ rows,
                      rs_next := rs_next s + int (length rows)\<rparr>)"
| discarding: "report_step s (s\<lparr>rs_rows := map (set_status DRAFT DISCARDED e) (rs_rows s)\<rparr>)"
| posting_draft: "report_step s (s\<lparr>rs_rows := map (set_status DRAFT POSTED e) (rs_rows s), rs_rollup := None\<rparr>)"
| refreshing: "report_step s (s\<lparr>rs_rollup := Some (refresh_account_monthly_balances (rs_rows s))\<rparr>)"

inductive report_reachable :: "report_state \<Rightarrow> bool" where
  start: "report_reachable \<lparr>rs_rows = [], rs_next = 1, rs_rollup = None\<rparr>"
| step: "report_reachable s \<Longrightarrow> report_step s s' \<Longrightarrow> report_reachable s'"

inductive_cases report_stepE: "report_step s s'"

section \<open>The rollup tells the truth\<close>

lemma group_sum:
  fixes f :: "'a \<Rightarrow> rat"
  assumes "distinct ks"
  shows "(\<Sum>k\<leftarrow>ks. \<Sum>x\<leftarrow>filter (\<lambda>x. key x = k) xs. f x) = (\<Sum>x\<leftarrow>filter (\<lambda>x. key x \<in> set ks) xs. f x)"
proof (induction xs)
  case Nil
  then show ?case by simp
next
  case (Cons x xs)
  have one: "distinct bs \<Longrightarrow> (\<Sum>k\<leftarrow>bs. if key x = k then c else 0) = (if key x \<in> set bs then c else (0::rat))" for c bs
    by (induction bs) auto
  have "(\<Sum>k\<leftarrow>ks. \<Sum>y\<leftarrow>filter (\<lambda>y. key y = k) (x # xs). f y)
      = (\<Sum>k\<leftarrow>ks. (if key x = k then f x else 0) + (\<Sum>y\<leftarrow>filter (\<lambda>y. key y = k) xs. f y))"
    by (rule arg_cong [of _ _ sum_list], rule map_cong) auto
  also have "\<dots> = (if key x \<in> set ks then f x else 0) + (\<Sum>y\<leftarrow>filter (\<lambda>y. key y \<in> set ks) xs. f y)"
    by (simp add: sum_list_addf one [OF assms] Cons.IH)
  finally show ?case by simp
qed

text \<open>What the reports see of the counted rows: key, account and month, line.\<close>

type_synonym row_fact = "int \<times> (string \<times> date) \<times> jline"

definition facts_of :: "lrow list \<Rightarrow> row_fact list" where
  "facts_of rows = map (\<lambda>x. (lw_id x, month_key x, lw_line x)) (filter counted rows)"

definition fact_sum :: "(jline \<Rightarrow> rat) \<Rightarrow> (int \<Rightarrow> string \<times> date \<Rightarrow> bool) \<Rightarrow> row_fact list \<Rightarrow> rat" where
  "fact_sum f P fs = (\<Sum>(i, k, l)\<leftarrow>filter (\<lambda>(i, k, l). P i k) fs. f l)"

text \<open>The table has the months of the facts up to the checkpoint, with their sums.\<close>

definition rollup_agrees :: "rollup \<Rightarrow> row_fact list \<Rightarrow> bool" where
  "rollup_agrees r fs =
    (fst ` set (ru_months r) = (\<lambda>(i, k, l). k) ` {x \<in> set fs. fst x \<le> ru_max r} \<and>
     (\<forall>P. (\<Sum>(k, d, c)\<leftarrow>filter (\<lambda>(k, d, c). P k) (ru_months r). d) = fact_sum jl_debit (\<lambda>i k. i \<le> ru_max r \<and> P k) fs
        \<and> (\<Sum>(k, d, c)\<leftarrow>filter (\<lambda>(k, d, c). P k) (ru_months r). c) = fact_sum jl_credit (\<lambda>i k. i \<le> ru_max r \<and> P k) fs))"

lemma fact_sum_rows:
  "fact_sum f P (facts_of rows) = (\<Sum>x\<leftarrow>filter (\<lambda>x. counted x \<and> P (lw_id x) (month_key x)) rows. f (lw_line x))"
  unfolding fact_sum_def facts_of_def by (induction rows) auto

lemma refresh_agrees: "rollup_agrees (refresh_account_monthly_balances rows) (facts_of rows)"
proof -
  let ?mine = "filter (\<lambda>r. lw_id r \<le> max_line_id rows \<and> counted r) rows"
  have "(\<Sum>k\<leftarrow>filter P (remdups (map month_key ?mine)). \<Sum>x\<leftarrow>filter (\<lambda>x. month_key x = k) ?mine. f (lw_line x))
      = fact_sum f (\<lambda>i k. i \<le> max_line_id rows \<and> P k) (facts_of rows)" for P and f :: "jline \<Rightarrow> rat"
  proof -
    have "filter (\<lambda>x. month_key x \<in> set (filter P (remdups (map month_key ?mine)))) ?mine
        = filter (\<lambda>x. counted x \<and> lw_id x \<le> max_line_id rows \<and> P (month_key x)) rows"
      unfolding filter_filter by (rule filter_cong) auto
    moreover have d: "distinct (filter P (remdups (map month_key ?mine)))" by simp
    ultimately show ?thesis unfolding fact_sum_rows group_sum [OF d] by (simp only:)
  qed
  note g = this
  have m: "(\<Sum>(k, d, c)\<leftarrow>filter (\<lambda>(k, d, c). P k) (map (\<lambda>k. (k, F k, G k)) ks). d) = (\<Sum>k\<leftarrow>filter P ks. F k)"
    "(\<Sum>(k, d, c)\<leftarrow>filter (\<lambda>(k, d, c). P k) (map (\<lambda>k. (k, F k, G k)) ks). c) = (\<Sum>k\<leftarrow>filter P ks. G k)"
    for P :: "month_cell \<Rightarrow> bool" and F G :: "month_cell \<Rightarrow> rat" and ks
    by (induction ks) auto
  let ?F = "\<lambda>f k. \<Sum>x\<leftarrow>filter (\<lambda>x. month_key x = k) ?mine. f (lw_line x)"
  have table: "refresh_account_monthly_balances rows = \<lparr>ru_max = max_line_id rows,
      ru_months = map (\<lambda>k. (k, ?F jl_debit k, ?F jl_credit k)) (remdups (map month_key ?mine))\<rparr>"
    by (simp add: refresh_account_monthly_balances_def Let_def debits_def credits_def comp_def)
  have "(\<lambda>(i, k, l). k) ` {x \<in> set (facts_of rows). fst x \<le> max_line_id rows} = month_key ` set ?mine"
    by (force simp: facts_of_def)
  moreover have "fst ` set (map (\<lambda>k. (k, ?F jl_debit k, ?F jl_credit k)) (remdups (map month_key ?mine)))
      = month_key ` set ?mine" by (simp add: image_image)
  ultimately show ?thesis
    unfolding table rollup_agrees_def rollup.simps m g by simp
qed

lemma facts_append: "facts_of (xs @ ys) = facts_of xs @ facts_of ys"
  by (simp add: facts_of_def)

lemma set_status_simps [simp]:
  "lw_id (set_status a b e r) = lw_id r" "lw_line (set_status a b e r) = lw_line r"
  "month_key (set_status a b e r) = month_key r" "lw_date (set_status a b e r) = lw_date r"
  by (simp_all add: set_status_def month_key_def)

lemma facts_of_status:
  assumes "\<And>r. counted (set_status a b e r) = counted r"
  shows "facts_of (map (set_status a b e) rows) = facts_of rows"
  unfolding facts_of_def by (induction rows) (simp_all add: assms)

lemma set_status_counted:
  "counted (set_status POSTED REVERSED e r) = counted r" "counted (set_status DRAFT DISCARDED e r) = counted r"
  by (auto simp: set_status_def counted_def)

lemma facts_of_drafts: "facts_of (filter (\<lambda>r. \<not> (lw_entry r = e \<and> lw_status r = DRAFT)) rows) = facts_of rows"
proof -
  have "filter counted (filter (\<lambda>r. \<not> (lw_entry r = e \<and> lw_status r = DRAFT)) rows) = filter counted rows"
    unfolding filter_filter by (rule filter_cong) (auto simp: counted_def)
  then show ?thesis by (simp add: facts_of_def)
qed

lemma new_rows_ids:
  assumes "new_rows_ok n rows" and "x \<in> set rows"
  shows "n \<le> lw_id x \<and> lw_id x < n + int (length rows)"
proof -
  obtain i where i: "i < length rows" "x = rows ! i" using assms(2) by (metis in_set_conv_nth)
  have "lw_id x = map lw_id rows ! i" using i by simp
  also have "\<dots> = n + int i" using assms(1) i(1) by (simp add: new_rows_ok_def)
  finally show ?thesis using i(1) by simp
qed

text \<open>Rows beyond the checkpoint do not matter to the table.\<close>

lemma agrees_append:
  assumes "rollup_agrees r fs" and late: "\<And>x. x \<in> set gs \<Longrightarrow> ru_max r < fst x"
  shows "rollup_agrees r (fs @ gs)"
proof -
  have none: "filter (\<lambda>(i, k, l). i \<le> ru_max r \<and> P k) gs = []" for P
    using late by (force simp: filter_empty_conv)
  have "fact_sum f (\<lambda>i k. i \<le> ru_max r \<and> P k) (fs @ gs) = fact_sum f (\<lambda>i k. i \<le> ru_max r \<and> P k) fs" for f P
    unfolding fact_sum_def filter_append none by simp
  moreover have "{x \<in> set (fs @ gs). fst x \<le> ru_max r} = {x \<in> set fs. fst x \<le> ru_max r}"
    using late by fastforce
  ultimately show ?thesis using assms(1) unfolding rollup_agrees_def by simp
qed

text \<open>The invariant: keys are below the next one, and a checkpoint agrees with the rows up to it.\<close>

definition report_ok :: "report_state \<Rightarrow> bool" where
  "report_ok s =
    ((\<forall>r\<in>set (rs_rows s). 0 < lw_id r \<and> lw_id r < rs_next s) \<and> list_all (\<lambda>r. valid_date (lw_date r)) (rs_rows s) \<and> 0 < rs_next s \<and>
     (case rs_rollup s of None \<Rightarrow> True | Some r \<Rightarrow> ru_max r < rs_next s \<and> rollup_agrees r (facts_of (rs_rows s))))"

lemma fold_max_bounds:
  "b \<le> fold (\<lambda>r. max (lw_id r)) rows b \<and> (\<forall>r\<in>set rows. lw_id r \<le> fold (\<lambda>r. max (lw_id r)) rows b)
   \<and> (fold (\<lambda>r. max (lw_id r)) rows b = b \<or> (\<exists>r\<in>set rows. lw_id r = fold (\<lambda>r. max (lw_id r)) rows b))"
proof (induction rows arbitrary: b)
  case Nil
  then show ?case by simp
next
  case (Cons r rows)
  let ?m = "fold (\<lambda>r. max (lw_id r)) rows (max (lw_id r) b)"
  have i: "max (lw_id r) b \<le> ?m" "\<forall>r\<in>set rows. lw_id r \<le> ?m"
    "?m = max (lw_id r) b \<or> (\<exists>r\<in>set rows. lw_id r = ?m)" using Cons.IH [of "max (lw_id r) b"] by blast+
  have "?m = b \<or> (\<exists>r\<in>set (r # rows). lw_id r = ?m)"
    using i(3) by (cases "b \<le> lw_id r") (auto simp: max_def)
  then show ?case using i(1,2) by simp
qed

lemma max_line_id_bounds:
  "r \<in> set rows \<Longrightarrow> lw_id r \<le> max_line_id rows" "0 \<le> max_line_id rows"
  "(\<And>r. r \<in> set rows \<Longrightarrow> lw_id r < n) \<Longrightarrow> 0 < n \<Longrightarrow> max_line_id rows < n"
proof -
  note b = fold_max_bounds [of 0 rows, folded max_line_id_def]
  show "r \<in> set rows \<Longrightarrow> lw_id r \<le> max_line_id rows" "0 \<le> max_line_id rows" using b by blast+
  assume "\<And>r. r \<in> set rows \<Longrightarrow> lw_id r < n" and "0 < n"
  then show "max_line_id rows < n" using b by metis
qed

lemma report_ok_append:
  assumes ok: "report_ok s" and new: "new_rows_ok (rs_next s) rows"
    and ids: "lw_id ` set old \<subseteq> lw_id ` set (rs_rows s)" and same: "facts_of old = facts_of (rs_rows s)"
    and dates: "lw_date ` set old \<subseteq> lw_date ` set (rs_rows s)"
  shows "report_ok (s\<lparr>rs_rows := old @ rows, rs_next := rs_next s + int (length rows)\<rparr>)"
proof -
  have old: "0 < lw_id r \<and> lw_id r < rs_next s" if "r \<in> set old" for r
  proof -
    obtain q where "q \<in> set (rs_rows s)" "lw_id r = lw_id q" using \<open>r \<in> set old\<close> ids by blast
    then show ?thesis using ok by (simp add: report_ok_def)
  qed
  have pos: "0 < rs_next s" using ok by (simp add: report_ok_def)
  have roll: "rollup_agrees r (facts_of (old @ rows))" if r: "rs_rollup s = Some r" for r
    unfolding facts_append same
  proof (rule agrees_append)
    show "rollup_agrees r (facts_of (rs_rows s))" using ok r by (simp add: report_ok_def)
    have "ru_max r < rs_next s" using ok r by (simp add: report_ok_def)
    then show "ru_max r < fst x" if "x \<in> set (facts_of rows)" for x
    proof -
      obtain y where "y \<in> set rows" "fst x = lw_id y" using \<open>x \<in> set (facts_of rows)\<close> by (auto simp: facts_of_def)
      then show ?thesis using new_rows_ids [OF new, of y] \<open>ru_max r < rs_next s\<close> by simp
    qed
  qed
  have "0 < lw_id r \<and> lw_id r < rs_next s + int (length rows)" if "r \<in> set (old @ rows)" for r
    using that old [of r] new_rows_ids [OF new, of r] pos by auto
  moreover have "case rs_rollup s of None \<Rightarrow> True
      | Some r \<Rightarrow> ru_max r < rs_next s + int (length rows) \<and> rollup_agrees r (facts_of (old @ rows))"
    using ok roll by (auto simp: report_ok_def split: option.splits)
  moreover have "valid_date (lw_date r)" if "r \<in> set (old @ rows)" for r
    using that ok new dates by (auto simp: report_ok_def new_rows_ok_def list_all_iff)
  ultimately show ?thesis using pos by (simp add: report_ok_def list_all_iff cong: option.case_cong)
qed

lemma report_ok_step:
  assumes "report_ok s" and "report_step s s'"
  shows "report_ok s'"
  using assms(2)
proof (cases rule: report_step.cases)
  case (posting rows)
  then show ?thesis using report_ok_append [OF assms(1) posting(2), of "rs_rows s"] by simp
next
  case (reversing rows e)
  then show ?thesis
    using report_ok_append [OF assms(1) reversing(2), of "map (set_status POSTED REVERSED e) (rs_rows s)"]
    by (simp add: facts_of_status set_status_counted image_image)
next
  case (drafting rows e)
  then show ?thesis
    using report_ok_append [OF assms(1) drafting(2), OF _ facts_of_drafts [of e]] by (simp add: image_mono subset_eq)
next
  case (discarding e)
  have "new_rows_ok (rs_next s) []" by (simp add: new_rows_ok_def)
  from report_ok_append [OF assms(1) this, of "map (set_status DRAFT DISCARDED e) (rs_rows s)"] show ?thesis
    using discarding by (simp add: facts_of_status set_status_counted image_image)
next
  case (posting_draft e)
  then show ?thesis using assms(1) by (auto simp: report_ok_def list_all_iff)
next
  case refreshing
  have "max_line_id (rs_rows s) < rs_next s"
    by (rule max_line_id_bounds(3)) (use assms(1) in \<open>auto simp: report_ok_def\<close>)
  moreover have "ru_max (refresh_account_monthly_balances (rs_rows s)) = max_line_id (rs_rows s)"
    by (simp add: refresh_account_monthly_balances_def Let_def)
  ultimately show ?thesis using assms(1) refresh_agrees [of "rs_rows s"] unfolding refreshing
    by (simp add: report_ok_def)
qed

lemma report_reachable_ok: "report_reachable s \<Longrightarrow> report_ok s"
proof (induction rule: report_reachable.induct)
  case start
  then show ?case by (simp add: report_ok_def)
next
  case (step s s')
  then show ?case by (metis report_ok_step)
qed

section \<open>Reports from the rollup\<close>

definition before_checkpoint :: "balance_filter \<Rightarrow> month_cell \<Rightarrow> bool" where
  "before_checkpoint f k = (case bf_as_of f of None \<Rightarrow> True | Some d \<Rightarrow> snd k < month_start d)"

definition in_open_month :: "balance_filter \<Rightarrow> lrow \<Rightarrow> bool" where
  "in_open_month f x = (case bf_as_of f of None \<Rightarrow> False
     | Some d \<Rightarrow> counted x \<and> month_start d \<le> lw_date x \<and> lw_date x \<le> d)"

definition plain_filter :: "balance_filter \<Rightarrow> bool" where
  "plain_filter f = (bf_from f = None \<and> bf_to f = None \<and> bf_cc f = None \<and> \<not> bf_unassigned f
     \<and> \<not> bf_no_close f \<and> bf_no_close_after f = None)"

lemma month_start_less:
  assumes "valid_date a" and "valid_date b"
  shows "month_start a < month_start b \<longleftrightarrow> a < month_start b"
  using assms by (auto simp: valid_date_def month_start_def less_date_def less_eq_date_def)

lemma month_start_le: "valid_date d \<Longrightarrow> month_start d \<le> d"
  by (simp add: valid_date_def month_start_def less_eq_date_def)

lemma selected_plain:
  assumes "plain_filter f" and "valid_date (lw_date x)" and "\<And>d. bf_as_of f = Some d \<Longrightarrow> valid_date d"
  shows "selected f x \<longleftrightarrow> (counted x \<and> before_checkpoint f (month_key x)) \<or> in_open_month f x"
    and "\<not> (before_checkpoint f (month_key x) \<and> in_open_month f x)"
proof -
  have "lw_date x \<le> d \<longleftrightarrow> month_start (lw_date x) < month_start d \<or> (month_start d \<le> lw_date x \<and> lw_date x \<le> d)"
    "\<not> (month_start (lw_date x) < month_start d \<and> month_start d \<le> lw_date x)"
    if "bf_as_of f = Some d" for d
    using month_start_less [OF assms(2) assms(3) [OF that]] month_start_le [OF assms(3) [OF that]] by auto
  then show "selected f x \<longleftrightarrow> (counted x \<and> before_checkpoint f (month_key x)) \<or> in_open_month f x"
    and "\<not> (before_checkpoint f (month_key x) \<and> in_open_month f x)"
    using assms(1)
    by (auto simp: selected_def plain_filter_def before_checkpoint_def in_open_month_def month_key_def
        split: option.splits)
qed

lemma rolled_cases:
  assumes "balances_from_rollup state rows f = Some out"
  obtains r where "state = Some r" and "plain_filter f" and "ru_max r = max_line_id rows"
    and "out = (let months = filter (\<lambda>(k, _). before_checkpoint f k) (ru_months r);
                    live = filter (in_open_month f) rows in
                map (merge_row months live) (remdups (map (fst \<circ> fst) months @ map (jl_account \<circ> lw_line) live)))"
proof (cases state)
  case None
  then show ?thesis using assms by (simp add: balances_from_rollup_def split: if_splits)
next
  case (Some r)
  have "(case bf_as_of f of None \<Rightarrow> ru_months r | Some d \<Rightarrow> filter (\<lambda>(k, _). snd k < month_start d) (ru_months r))
      = filter (\<lambda>(k, _). before_checkpoint f k) (ru_months r)"
    by (auto simp: before_checkpoint_def split: option.splits)
  moreover have "(case bf_as_of f of None \<Rightarrow> []
      | Some d \<Rightarrow> filter (\<lambda>x. counted x \<and> month_start d \<le> lw_date x \<and> lw_date x \<le> d) rows) = filter (in_open_month f) rows"
    by (auto simp: in_open_month_def [abs_def] split: option.splits)
  ultimately show ?thesis using assms that [OF Some] Some
    by (simp add: balances_from_rollup_def plain_filter_def Let_def split: if_splits)
qed

lemma sum_filter_disjoint:
  fixes f :: "'a \<Rightarrow> rat"
  assumes "\<And>x. x \<in> set xs \<Longrightarrow> \<not> (P x \<and> Q x)"
  shows "(\<Sum>x\<leftarrow>filter P xs. f x) + (\<Sum>x\<leftarrow>filter Q xs. f x) = (\<Sum>x\<leftarrow>filter (\<lambda>x. P x \<or> Q x) xs. f x)"
  using assms by (induction xs) auto

text \<open>The table and the open month together are the selected rows.\<close>

lemma months_of_table:
  assumes "rollup_agrees r (facts_of rows)" and all: "\<And>x. x \<in> set rows \<Longrightarrow> lw_id x \<le> ru_max r"
  shows "fst ` set (ru_months r) = month_key ` {x \<in> set rows. counted x}"
    and "(\<Sum>(k, d, c)\<leftarrow>filter (\<lambda>(k, d, c). P k) (ru_months r). d)
      = (\<Sum>x\<leftarrow>filter (\<lambda>x. counted x \<and> P (month_key x)) rows. jl_debit (lw_line x))"
    and "(\<Sum>(k, d, c)\<leftarrow>filter (\<lambda>(k, d, c). P k) (ru_months r). c)
      = (\<Sum>x\<leftarrow>filter (\<lambda>x. counted x \<and> P (month_key x)) rows. jl_credit (lw_line x))"
proof -
  have "{x \<in> set (facts_of rows). fst x \<le> ru_max r} = set (facts_of rows)"
    using all by (auto simp: facts_of_def)
  then have "fst ` set (ru_months r) = (\<lambda>(i, k, l). k) ` set (facts_of rows)"
    using assms(1) by (simp add: rollup_agrees_def)
  also have "\<dots> = month_key ` {x \<in> set rows. counted x}"
    by (force simp: facts_of_def)
  finally show "fst ` set (ru_months r) = month_key ` {x \<in> set rows. counted x}" .
  have "filter (\<lambda>x. counted x \<and> lw_id x \<le> ru_max r \<and> P (month_key x)) rows
      = filter (\<lambda>x. counted x \<and> P (month_key x)) rows"
    by (rule filter_cong) (use all in auto)
  then show "(\<Sum>(k, d, c)\<leftarrow>filter (\<lambda>(k, d, c). P k) (ru_months r). d)
      = (\<Sum>x\<leftarrow>filter (\<lambda>x. counted x \<and> P (month_key x)) rows. jl_debit (lw_line x))"
    "(\<Sum>(k, d, c)\<leftarrow>filter (\<lambda>(k, d, c). P k) (ru_months r). c)
      = (\<Sum>x\<leftarrow>filter (\<lambda>x. counted x \<and> P (month_key x)) rows. jl_credit (lw_line x))"
    using assms(1) unfolding rollup_agrees_def fact_sum_rows by (simp_all only:)
qed

lemma line_sum_of_account:
  fixes f :: "jline \<Rightarrow> rat"
  shows "(\<Sum>l\<leftarrow>filter (\<lambda>l. jl_account l = a) (map lw_line rows). f l)
    = (\<Sum>x\<leftarrow>filter (\<lambda>x. jl_account (lw_line x) = a) rows. f (lw_line x))"
  by (induction rows) auto

lemma merged_sums:
  fixes f :: "jline \<Rightarrow> rat"
  assumes plain: "plain_filter f'" and dates: "list_all (\<lambda>r. valid_date (lw_date r)) rows"
    and as_of: "\<And>d. bf_as_of f' = Some d \<Longrightarrow> valid_date d"
  shows "(\<Sum>x\<leftarrow>filter (\<lambda>x. counted x \<and> before_checkpoint f' (month_key x) \<and> fst (month_key x) = a) rows. f (lw_line x))
      + (\<Sum>l\<leftarrow>filter (\<lambda>l. jl_account l = a) (map lw_line (filter (in_open_month f') rows)). f l)
    = (\<Sum>l\<leftarrow>filter (\<lambda>l. jl_account l = a) (map lw_line (filter (selected f') rows)). f l)"
proof -
  have d: "valid_date (lw_date x)" if "x \<in> set rows" for x using that dates by (simp add: list_all_iff)
  have "filter (\<lambda>x. (counted x \<and> before_checkpoint f' (month_key x) \<and> fst (month_key x) = a)
        \<or> (in_open_month f' x \<and> jl_account (lw_line x) = a)) rows
      = filter (\<lambda>x. selected f' x \<and> jl_account (lw_line x) = a) rows"
    by (rule filter_cong) (auto simp: selected_plain(1) [OF plain d as_of] month_key_def)
  then show ?thesis
    unfolding line_sum_of_account filter_filter
    by (subst sum_filter_disjoint) (use selected_plain(2) [OF plain d as_of] in auto)
qed

lemma rolled_rows:
  assumes ok: "report_ok s" and out: "balances_from_rollup (rs_rollup s) (rs_rows s) f = Some out"
    and as_of: "\<And>d. bf_as_of f = Some d \<Longrightarrow> valid_date d"
  shows "set out = set (live_balances (rs_rows s) f) \<and> distinct (map rr_account out)"
proof -
  let ?rows = "rs_rows s"
  have dates: "list_all (\<lambda>r. valid_date (lw_date r)) ?rows" using ok by (simp add: report_ok_def)
  obtain r where r: "rs_rollup s = Some r" and plain: "plain_filter f" and top: "ru_max r = max_line_id ?rows"
    and out': "out = (let months = filter (\<lambda>(k, _). before_checkpoint f k) (ru_months r);
                    live = filter (in_open_month f) ?rows in
                map (merge_row months live) (remdups (map (fst \<circ> fst) months @ map (jl_account \<circ> lw_line) live)))"
    using rolled_cases [OF out] by blast
  define months where "months = filter (\<lambda>(k, _). before_checkpoint f k) (ru_months r)"
  define live where "live = filter (in_open_month f) ?rows"
  have agrees: "rollup_agrees r (facts_of ?rows)" using ok r by (simp add: report_ok_def)
  have all: "x \<in> set ?rows \<Longrightarrow> lw_id x \<le> ru_max r" for x using max_line_id_bounds(1) top by metis
  have two: "filter (\<lambda>(k, d, c). fst k = a) months
      = filter (\<lambda>(k, d, c). before_checkpoint f k \<and> fst k = a) (ru_months r)" for a
    unfolding months_def filter_filter by (rule filter_cong) auto
  have row: "merge_row months live a = (let ls = filter (\<lambda>l. jl_account l = a) (map lw_line (filter (selected f) ?rows))
      in \<lparr>rr_account = a, rr_debit = debits ls, rr_credit = credits ls, rr_balance = debits ls - credits ls\<rparr>)" for a
  proof -
    let ?P = "\<lambda>k. before_checkpoint f k \<and> fst k = a"
    have "(\<Sum>(k, d, c)\<leftarrow>filter (\<lambda>(k, d, c). fst k = a) months. d)
          + debits (filter (\<lambda>l. jl_account l = a) (map lw_line live))
        = debits (filter (\<lambda>l. jl_account l = a) (map lw_line (filter (selected f) ?rows)))"
      using months_of_table(2) [OF agrees all, where P = ?P] merged_sums [OF plain dates as_of, where a = a and f = jl_debit]
      by (simp only: two live_def debits_def)
    moreover have "(\<Sum>(k, d, c)\<leftarrow>filter (\<lambda>(k, d, c). fst k = a) months. c)
          + credits (filter (\<lambda>l. jl_account l = a) (map lw_line live))
        = credits (filter (\<lambda>l. jl_account l = a) (map lw_line (filter (selected f) ?rows)))"
      using months_of_table(3) [OF agrees all, where P = ?P] merged_sums [OF plain dates as_of, where a = a and f = jl_credit]
      by (simp only: two live_def credits_def)
    ultimately show ?thesis by (simp only: merge_row_def Let_def)
  qed
  have "set (map (fst \<circ> fst) months @ map (jl_account \<circ> lw_line) live)
      = set (map (jl_account \<circ> lw_line) (filter (selected f) ?rows))"
  proof -
    have "fst ` fst ` set months = fst ` {k \<in> fst ` set (ru_months r). before_checkpoint f k}"
      unfolding months_def by force
    also have "\<dots> = jl_account ` lw_line ` {x \<in> set ?rows. counted x \<and> before_checkpoint f (month_key x)}"
    proof -
      have t: "fst ` set (ru_months r) = month_key ` {x \<in> set ?rows. counted x}"
        by (rule months_of_table(1) [OF agrees all])
      have k: "fst (month_key x) = jl_account (lw_line x)" for x by (simp add: month_key_def)
      have "{k \<in> fst ` set (ru_months r). before_checkpoint f k}
          = month_key ` {x \<in> set ?rows. counted x \<and> before_checkpoint f (month_key x)}"
        unfolding t by blast
      then show ?thesis by (simp add: image_image k)
    qed
    finally have m: "fst ` fst ` set months
        = jl_account ` lw_line ` {x \<in> set ?rows. counted x \<and> before_checkpoint f (month_key x)}" .
    have "{x \<in> set ?rows. selected f x} = {x \<in> set ?rows. counted x \<and> before_checkpoint f (month_key x)}
        \<union> {x \<in> set ?rows. in_open_month f x}"
      using dates selected_plain(1) [OF plain _ as_of] by (auto simp: list_all_iff)
    then show ?thesis by (simp add: m live_def image_image image_Un flip: image_image)
  qed
  then have accounts: "set (remdups (map (fst \<circ> fst) months @ map (jl_account \<circ> lw_line) live))
      = set (remdups (map (jl_account \<circ> lw_line) (filter (selected f) ?rows)))" by simp
  have out'': "out = map (merge_row months live)
      (remdups (map (fst \<circ> fst) months @ map (jl_account \<circ> lw_line) live))"
    using out' by (simp add: months_def live_def Let_def)
  have "rr_account (merge_row months live a) = a" for a by (simp add: merge_row_def Let_def)
  then have "map rr_account out = remdups (map (fst \<circ> fst) months @ map (jl_account \<circ> lw_line) live)"
    unfolding out'' by (simp add: comp_def)
  then have "distinct (map rr_account out)" by simp
  moreover have "set out = set (live_balances ?rows f)"
    unfolding out'' live_balances_def group_rows_def set_map accounts row ..
  ultimately show ?thesis by blast
qed

lemma live_accounts_distinct: "distinct (map rr_account (live_balances rows f))"
  by (simp add: live_balances_def group_rows_def comp_def Let_def)

lemma report_balances_live:
  assumes "report_ok s" and "\<And>d. bf_as_of f = Some d \<Longrightarrow> valid_date d"
  shows "set (report_balances (rs_rollup s) (rs_rows s) f) = set (live_balances (rs_rows s) f)
    \<and> distinct (map rr_account (report_balances (rs_rollup s) (rs_rows s) f))"
proof (cases "balances_from_rollup (rs_rollup s) (rs_rows s) f")
  case None
  then show ?thesis by (simp add: report_balances_def live_accounts_distinct)
next
  case (Some out)
  then show ?thesis using rolled_rows [OF assms(1) Some assms(2)] by (simp add: report_balances_def)
qed

text \<open>Sums over a report are sums over its rows.\<close>

lemma group_rows_sum:
  "(\<Sum>r\<leftarrow>filter (Q \<circ> rr_account) (group_rows rows). rr_debit r)
      = (\<Sum>x\<leftarrow>filter (\<lambda>x. Q (jl_account (lw_line x))) rows. jl_debit (lw_line x))"
  "(\<Sum>r\<leftarrow>filter (Q \<circ> rr_account) (group_rows rows). rr_credit r)
      = (\<Sum>x\<leftarrow>filter (\<lambda>x. Q (jl_account (lw_line x))) rows. jl_credit (lw_line x))"
  "(\<Sum>r\<leftarrow>filter (Q \<circ> rr_account) (group_rows rows). rr_balance r)
      = (\<Sum>x\<leftarrow>filter (\<lambda>x. Q (jl_account (lw_line x))) rows. jl_debit (lw_line x) - jl_credit (lw_line x))"
proof -
  let ?as = "remdups (map (jl_account \<circ> lw_line) rows)"
  have g: "(\<Sum>a\<leftarrow>filter Q ?as. \<Sum>l\<leftarrow>filter (\<lambda>l. jl_account l = a) (map lw_line rows). f l)
      = (\<Sum>x\<leftarrow>filter (\<lambda>x. Q (jl_account (lw_line x))) rows. f (lw_line x))" for f :: "jline \<Rightarrow> rat"
  proof -
    have d: "distinct (filter Q ?as)" by simp
    have "filter (\<lambda>l. jl_account l \<in> set (filter Q ?as)) (map lw_line rows)
        = filter (\<lambda>l. Q (jl_account l)) (map lw_line rows)"
      by (rule filter_cong) auto
    then show ?thesis unfolding group_sum [OF d] by (simp add: filter_map comp_def)
  qed
  have f: "filter (Q \<circ> rr_account) (group_rows rows) = map (\<lambda>a. let ls = filter (\<lambda>l. jl_account l = a) (map lw_line rows) in
      \<lparr>rr_account = a, rr_debit = debits ls, rr_credit = credits ls, rr_balance = debits ls - credits ls\<rparr>) (filter Q ?as)"
    by (simp add: group_rows_def filter_map comp_def Let_def)
  have b: "debits ls - credits ls = (\<Sum>l\<leftarrow>ls. jl_debit l - jl_credit l)" for ls
    unfolding debits_def credits_def by (induction ls) auto
  have m: "(\<Sum>r\<leftarrow>map (\<lambda>a. let ls = F a in
      \<lparr>rr_account = a, rr_debit = debits ls, rr_credit = credits ls, rr_balance = debits ls - credits ls\<rparr>) as. rr_debit r)
      = (\<Sum>a\<leftarrow>as. \<Sum>l\<leftarrow>F a. jl_debit l)"
    "(\<Sum>r\<leftarrow>map (\<lambda>a. let ls = F a in
      \<lparr>rr_account = a, rr_debit = debits ls, rr_credit = credits ls, rr_balance = debits ls - credits ls\<rparr>) as. rr_credit r)
      = (\<Sum>a\<leftarrow>as. \<Sum>l\<leftarrow>F a. jl_credit l)"
    "(\<Sum>r\<leftarrow>map (\<lambda>a. let ls = F a in
      \<lparr>rr_account = a, rr_debit = debits ls, rr_credit = credits ls, rr_balance = debits ls - credits ls\<rparr>) as. rr_balance r)
      = (\<Sum>a\<leftarrow>as. \<Sum>l\<leftarrow>F a. jl_debit l - jl_credit l)" for F :: "string \<Rightarrow> jline list" and as
    unfolding b by (simp_all add: comp_def Let_def debits_def credits_def b)
  show "(\<Sum>r\<leftarrow>filter (Q \<circ> rr_account) (group_rows rows). rr_debit r)
      = (\<Sum>x\<leftarrow>filter (\<lambda>x. Q (jl_account (lw_line x))) rows. jl_debit (lw_line x))"
    unfolding f m by (rule g)
  show "(\<Sum>r\<leftarrow>filter (Q \<circ> rr_account) (group_rows rows). rr_credit r)
      = (\<Sum>x\<leftarrow>filter (\<lambda>x. Q (jl_account (lw_line x))) rows. jl_credit (lw_line x))"
    unfolding f m by (rule g)
  show "(\<Sum>r\<leftarrow>filter (Q \<circ> rr_account) (group_rows rows). rr_balance r)
      = (\<Sum>x\<leftarrow>filter (\<lambda>x. Q (jl_account (lw_line x))) rows. jl_debit (lw_line x) - jl_credit (lw_line x))"
    unfolding f m by (rule g)
qed

lemma report_sum_cong:
  fixes f :: "report_row \<Rightarrow> rat"
  assumes "set xs = set ys" and "distinct (map rr_account xs)" and "distinct (map rr_account ys)"
  shows "(\<Sum>r\<leftarrow>xs. f r) = (\<Sum>r\<leftarrow>ys. f r)"
  using assms by (simp add: sum_list_distinct_conv_sum_set distinct_map)

text \<open>
  C27. The rollup tells the truth: after any sequence of postings, reversals, edits of drafts and
  refreshes, the balances that a report takes from the monthly table (and the open month's lines) are
  exactly the rows that the live query over the counted lines gives, each account once, and the totals
  of the trial balance are the sums of those lines.
\<close>

theorem rollup_equals_live:
  assumes "report_reachable s" and "\<And>d. bf_as_of f = Some d \<Longrightarrow> valid_date d"
  shows "set (report_balances (rs_rollup s) (rs_rows s) f) = set (live_balances (rs_rows s) f)
    \<and> distinct (map rr_account (report_balances (rs_rollup s) (rs_rows s) f))
    \<and> fst (snd (trial_balance (rs_rollup s) (rs_rows s) (bf_as_of f)))
        = (\<Sum>x\<leftarrow>filter (selected (all_rows\<lparr>bf_as_of := bf_as_of f\<rparr>)) (rs_rows s). jl_debit (lw_line x))
    \<and> fst (snd (snd (trial_balance (rs_rollup s) (rs_rows s) (bf_as_of f))))
        = (\<Sum>x\<leftarrow>filter (selected (all_rows\<lparr>bf_as_of := bf_as_of f\<rparr>)) (rs_rows s). jl_credit (lw_line x))"
proof -
  let ?f = "all_rows\<lparr>bf_as_of := bf_as_of f\<rparr>"
  have ok: "report_ok s" using report_reachable_ok [OF assms(1)] .
  note live = report_balances_live [OF ok assms(2)]
  have plain: "set (report_balances (rs_rollup s) (rs_rows s) ?f) = set (live_balances (rs_rows s) ?f)
    \<and> distinct (map rr_account (report_balances (rs_rollup s) (rs_rows s) ?f))"
    by (rule report_balances_live [OF ok]) (use assms(2) in simp)
  have "(\<Sum>r\<leftarrow>report_balances (rs_rollup s) (rs_rows s) ?f. g r) = (\<Sum>r\<leftarrow>live_balances (rs_rows s) ?f. g r)"
    for g :: "report_row \<Rightarrow> rat"
    by (rule report_sum_cong) (use plain live_accounts_distinct in auto)
  then show ?thesis
    using live group_rows_sum(1,2) [of "\<lambda>_. True" "filter (selected ?f) (rs_rows s)"]
    by (simp add: trial_balance_def Let_def live_balances_def comp_def)
qed

section \<open>An example\<close>

definition sale_row :: "int \<Rightarrow> date \<Rightarrow> string \<Rightarrow> rat \<Rightarrow> rat \<Rightarrow> lrow" where
  "sale_row i d a x y = \<lparr>lw_id = i, lw_entry = (i + 1) div 2, lw_status = POSTED, lw_date = d,
     lw_src = (''SALES_INVOICE'', 1, ''COMPLETE''), lw_of_close = False,
     lw_line = \<lparr>jl_account = a, jl_debit = x, jl_credit = y, jl_cost_center = None, jl_customer = None,
       jl_supplier = None\<rparr>\<rparr>"

definition april_rows :: "lrow list" where
  "april_rows = [sale_row 1 (Date 2025 4 10) ''1100'' 118 0, sale_row 2 (Date 2025 4 10) ''4100'' 0 118]"

definition may_rows :: "lrow list" where
  "may_rows = [sale_row 3 (Date 2025 5 3) ''1100'' 50 0, sale_row 4 (Date 2025 5 3) ''4100'' 0 50]"

definition two_months :: report_state where
  "two_months = \<lparr>rs_rows = april_rows @ may_rows, rs_next = 5,
     rs_rollup = Some (refresh_account_monthly_balances (april_rows @ may_rows))\<rparr>"

lemma two_months_reachable: "report_reachable two_months"
proof -
  let ?s0 = "\<lparr>rs_rows = [], rs_next = 1, rs_rollup = None\<rparr>"
  let ?s1 = "\<lparr>rs_rows = april_rows, rs_next = 3, rs_rollup = None\<rparr>"
  let ?s2 = "\<lparr>rs_rows = april_rows @ may_rows, rs_next = 5, rs_rollup = None\<rparr>"
  have n: "new_rows_ok (rs_next ?s0) april_rows" "new_rows_ok (rs_next ?s1) may_rows"
    "list_all (\<lambda>r. lw_status r = POSTED) april_rows" "list_all (\<lambda>r. lw_status r = POSTED) may_rows"
    by code_simp+
  have "report_step ?s0 ?s1" using report_step.posting [OF n(1) n(3)] by (simp add: april_rows_def)
  moreover have "report_step ?s1 ?s2" using report_step.posting [OF n(2) n(4)] by (simp add: may_rows_def)
  moreover have "report_step ?s2 two_months" using report_step.refreshing [of ?s2] by (simp add: two_months_def)
  ultimately show ?thesis by (meson report_reachable.intros)
qed

theorem rollup_equals_live_witness:
  "balances_from_rollup (rs_rollup two_months) (rs_rows two_months) (all_rows\<lparr>bf_as_of := Some (Date 2025 5 20)\<rparr>) \<noteq> None
   \<and> fst (snd (trial_balance (rs_rollup two_months) (rs_rows two_months) (Some (Date 2025 5 20)))) = 168"
proof -
  have d: "valid_date d" if "bf_as_of (all_rows\<lparr>bf_as_of := Some (Date 2025 5 20)\<rparr>) = Some d" for d
    using that by (auto simp: valid_date_def days_in_month_def)
  have "(\<Sum>x\<leftarrow>filter (selected (all_rows\<lparr>bf_as_of := Some (Date 2025 5 20)\<rparr>)) (rs_rows two_months). jl_debit (lw_line x)) = 168"
    by code_simp
  moreover have "balances_from_rollup (rs_rollup two_months) (rs_rows two_months) (all_rows\<lparr>bf_as_of := Some (Date 2025 5 20)\<rparr>) \<noteq> None"
    by code_simp
  ultimately show ?thesis
    using rollup_equals_live [OF two_months_reachable, where f = "all_rows\<lparr>bf_as_of := Some (Date 2025 5 20)\<rparr>", OF d]
    by simp
qed

end
