(* ===== verification/Financial_Statements.thy ===== *)
theory Financial_Statements
  imports Ledger_Reports Vouchers Tax_Document
begin

text \<open>
  Financial statements and the year-end close (\<open>accounting/reports.py\<close>): the financial year, profit and
  loss, the balance sheet with its Schedule III headings, cash flow, the store comparison, and
  \<open>close_financial_year\<close>.  \<open>ty\<close> gives the type of an account; \<open>start_month\<close> is \<open>fy_start_month\<close> (0 when it is
  not set); the stock valuation of the balance sheet and the checks of the close that look at documents
  (books health, drafts, open work orders) are arguments.
\<close>

section \<open>The financial year\<close>

definition fy_month :: "int \<Rightarrow> int" where
  "fy_month start_month = (if start_month < 1 \<or> 12 < start_month then 4 else start_month)"

definition indian_fy_bounds :: "int \<Rightarrow> date \<Rightarrow> date \<times> date" where
  "indian_fy_bounds start_month as_of =
    (let m = fy_month start_month; start_year = (if m \<le> d_month as_of then d_year as_of else d_year as_of - 1);
         end_year = start_year + 1; end_month = m - 1 in
     (Date start_year m 1,
      if m = 1 then Date start_year 12 31 else Date end_year end_month (days_in_month end_year end_month)))"

definition fy_bounds_for_end :: "int \<Rightarrow> date \<Rightarrow> date \<times> date" where
  "fy_bounds_for_end start_month fy_end =
    (let m = fy_month start_month in
     (Date (if m \<le> d_month fy_end then d_year fy_end else d_year fy_end - 1) m 1, fy_end))"

section \<open>Schedule III\<close>

text \<open>A section has a key and lines; a line has a key, exact codes and code prefixes.\<close>

type_synonym schedule_spec = "(string \<times> (string \<times> string list \<times> string list) list) list"

definition code_in :: "string \<Rightarrow> string list \<Rightarrow> string list \<Rightarrow> bool" where
  "code_in code exact starts = (code \<in> set exact \<or> list_ex (starts_with code) starts)"

definition SCHEDULE_III_BALANCE :: schedule_spec where
  "SCHEDULE_III_BALANCE =
    [(''non_current_assets'',
       [(''tangible_assets'', [''1600'', ''1650''], []), (''capital_work_in_progress'', [], []),
        (''intangible_assets'', [], []), (''non_current_investments'', [], []),
        (''deferred_tax_assets'', [], []), (''long_term_loans_and_advances'', [], []),
        (''other_non_current_assets'', [], [])]),
     (''current_assets'',
       [(''inventories'', [''1400'', ''1450''], []), (''trade_receivables'', [''1200''], []),
        (''cash_and_cash_equivalents'', [''1100'', ''1500''], [''1500-'']),
        (''short_term_loans_and_advances'', [''1250''], []),
        (''other_current_assets'', [''1365'', ''1370'', ''1390''], [''13''])]),
     (''equity'', [(''share_capital'', [], []), (''other_equity'', [''3000'', ''3100'', ''3200''], [])]),
     (''non_current_liabilities'',
       [(''long_term_borrowings'', [], []), (''deferred_tax_liabilities'', [], []),
        (''other_long_term_liabilities'', [], []), (''long_term_provisions'', [], [])]),
     (''current_liabilities'',
       [(''short_term_borrowings'', [], []), (''trade_payables'', [''2100''], []),
        (''other_current_liabilities'', [''2150'', ''2300''], [''22'']), (''short_term_provisions'', [], [])])]"

definition SCHEDULE_III_PNL :: schedule_spec where
  "SCHEDULE_III_PNL =
    [(''pnl'',
       [(''revenue_from_operations'', [''4100'', ''4110''], []), (''other_income'', [''5700''], []),
        (''cost_of_materials_consumed'', [''5100'', ''5110'', ''5400''], []),
        (''employee_benefits_expense'', [''5800''], []), (''finance_costs'', [''5200''], []),
        (''depreciation_and_amortisation'', [''5300''], []),
        (''other_expenses'', [''5150'', ''5250'', ''5450'', ''5500'', ''5600'', ''5900''], [])])]"

type_synonym slot_key = "string \<times> string"

text \<open>The first line, in the order of the headings, that names the account; else the residual line of its type.\<close>

definition matched_slot :: "schedule_spec \<Rightarrow> string \<Rightarrow> slot_key option" where
  "matched_slot spec code =
    (case find (\<lambda>(sk, lk, exact, starts). (exact \<noteq> [] \<or> starts \<noteq> []) \<and> code_in code exact starts)
        (concat (map (\<lambda>(sk, ls). map (Pair sk) ls) spec)) of
       None \<Rightarrow> None | Some (sk, lk, _) \<Rightarrow> Some (sk, lk))"

definition residual_slot :: "account_type \<Rightarrow> slot_key" where
  "residual_slot t =
    (case t of
       ASSET \<Rightarrow> (''current_assets'', ''other_current_assets'')
     | LIABILITY \<Rightarrow> (''current_liabilities'', ''other_current_liabilities'')
     | EQUITY \<Rightarrow> (''equity'', ''other_equity'')
     | INCOME \<Rightarrow> (''pnl'', ''other_income'')
     | EXPENSE \<Rightarrow> (''pnl'', ''other_expenses''))"

text \<open>A row with the amount it adds to its slot, credit-normal slots with the sign turned.\<close>

definition matched_entry ::
  "schedule_spec \<Rightarrow> string list \<Rightarrow> string list \<Rightarrow> report_row \<Rightarrow> (slot_key \<times> string \<times> rat) option" where
  "matched_entry spec credit_sections credit_lines row =
    (case matched_slot spec (rr_account row) of
       None \<Rightarrow> None
     | Some (sk, lk) \<Rightarrow> Some ((sk, lk), rr_account row,
         if sk \<in> set credit_sections \<or> lk \<in> set credit_lines then - rr_balance row else rr_balance row))"

definition residual_entry :: "(string \<Rightarrow> account_type) \<Rightarrow> schedule_spec \<Rightarrow> report_row \<Rightarrow> (slot_key \<times> string \<times> rat) option" where
  "residual_entry ty spec row =
    (if matched_slot spec (rr_account row) \<noteq> None then None
     else let t = ty (rr_account row) in
       Some (residual_slot t, rr_account row,
         if t = ASSET \<or> t = EXPENSE then rr_balance row else - rr_balance row))"

record schedule_line =
  sl_key :: string
  sl_amount :: rat
  sl_accounts :: "(string \<times> rat) list"

record schedule_section =
  ss_key :: string
  ss_amount :: rat
  ss_lines :: "schedule_line list"

definition schedule_entries ::
  "(string \<Rightarrow> account_type) \<Rightarrow> schedule_spec \<Rightarrow> string list \<Rightarrow> string list \<Rightarrow> report_row list \<Rightarrow> (slot_key \<times> string \<times> rat) list" where
  "schedule_entries ty spec credit_sections credit_lines rows =
    List.map_filter (matched_entry spec credit_sections credit_lines) rows
    @ List.map_filter (residual_entry ty spec) rows"

definition schedule_iii_sections ::
  "(string \<Rightarrow> account_type) \<Rightarrow> schedule_spec \<Rightarrow> string list \<Rightarrow> string list \<Rightarrow> report_row list \<Rightarrow> schedule_section list" where
  "schedule_iii_sections ty spec credit_sections credit_lines rows =
    (let entries = schedule_entries ty spec credit_sections credit_lines rows in
     map (\<lambda>(sk, ls).
       let lines = map (\<lambda>(lk, _, _). let mine = map snd (filter (\<lambda>e. fst e = (sk, lk)) entries) in
             \<lparr>sl_key = lk, sl_amount = (\<Sum>(c, x)\<leftarrow>mine. x), sl_accounts = mine\<rparr>) ls
       in \<lparr>ss_key = sk, ss_amount = (\<Sum>l\<leftarrow>lines. sl_amount l), ss_lines = lines\<rparr>) spec)"

definition schedule_iii_balance ::
  "(string \<Rightarrow> account_type) \<Rightarrow> report_row list \<Rightarrow> rat option \<Rightarrow> schedule_section list" where
  "schedule_iii_balance ty rows surplus =
    (let result = schedule_iii_sections ty SCHEDULE_III_BALANCE
           [''equity'', ''non_current_liabilities'', ''current_liabilities''] []
           (filter (\<lambda>r. ty (rr_account r) \<in> {ASSET, LIABILITY, EQUITY}) rows)
     in case surplus of
       None \<Rightarrow> result
     | Some amount \<Rightarrow> map (\<lambda>s. if ss_key s = ''equity''
         then s\<lparr>ss_lines := ss_lines s @ [\<lparr>sl_key = ''surplus_in_profit_and_loss'', sl_amount = amount, sl_accounts = []\<rparr>],
                ss_amount := ss_amount s + amount\<rparr> else s) result)"

definition schedule_iii_profit_and_loss :: "(string \<Rightarrow> account_type) \<Rightarrow> report_row list \<Rightarrow> schedule_section list" where
  "schedule_iii_profit_and_loss ty rows =
    (let income = [''revenue_from_operations'', ''other_income''] in
     map (\<lambda>s. s\<lparr>ss_amount := (\<Sum>l\<leftarrow>ss_lines s. if sl_key l \<in> set income then sl_amount l else - sl_amount l)\<rparr>)
       (schedule_iii_sections ty SCHEDULE_III_PNL [] income rows))"

section \<open>Statements\<close>

definition type_total :: "(string \<Rightarrow> account_type) \<Rightarrow> account_type \<Rightarrow> report_row list \<Rightarrow> rat" where
  "type_total ty t rows = (\<Sum>r\<leftarrow>filter (\<lambda>r. ty (rr_account r) = t) rows. rr_balance r)"

record profit_report =
  pf_from :: "date option"
  pf_to :: "date option"
  pf_income :: rat
  pf_expenses :: rat
  pf_net :: rat
  pf_rows :: "report_row list"
  pf_schedule :: "schedule_section list"

definition profit_period :: "int \<Rightarrow> date \<Rightarrow> date option \<Rightarrow> date option \<Rightarrow> date \<times> date" where
  "profit_period start_month today date_from date_to =
    (case (date_from, date_to) of
       (None, Some b) \<Rightarrow> (fst (indian_fy_bounds start_month b), b)
     | (None, None) \<Rightarrow> indian_fy_bounds start_month today
     | (Some a, None) \<Rightarrow> (a, snd (indian_fy_bounds start_month a))
     | (Some a, Some b) \<Rightarrow> (a, b))"

definition profit_and_loss ::
  "(string \<Rightarrow> account_type) \<Rightarrow> int \<Rightarrow> date \<Rightarrow> rollup option \<Rightarrow> lrow list \<Rightarrow> date option \<Rightarrow> date option \<Rightarrow> int option
    \<Rightarrow> profit_report" where
  "profit_and_loss ty start_month today state rows date_from date_to cc =
    (let (a, b) = profit_period start_month today date_from date_to;
         out = filter (\<lambda>r. ty (rr_account r) \<in> {INCOME, EXPENSE})
           (report_balances state rows (all_rows\<lparr>bf_from := Some a, bf_to := Some b, bf_cc := cc, bf_no_close := True\<rparr>));
         income = - type_total ty INCOME out; expenses = type_total ty EXPENSE out in
     \<lparr>pf_from = Some a, pf_to = Some b, pf_income = income, pf_expenses = expenses, pf_net = income - expenses,
      pf_rows = out, pf_schedule = schedule_iii_profit_and_loss ty out\<rparr>)"

record balance_report =
  bs_as_of :: date
  bs_defaulted :: bool
  bs_assets :: rat
  bs_liabilities :: rat
  bs_equity :: rat
  bs_earnings :: rat
  bs_from :: date
  bs_to :: date
  bs_holds :: bool
  bs_inventory_gl :: rat
  bs_inventory_valuation :: rat
  bs_inventory_variance :: rat
  bs_inventory_source :: string
  bs_rows :: "report_row list"
  bs_schedule :: "schedule_section list"

text \<open>\<open>valuation\<close> is the total of the stock valuation, or \<open>None\<close> when it raises.\<close>

definition balance_sheet ::
  "(string \<Rightarrow> account_type) \<Rightarrow> int \<Rightarrow> date \<Rightarrow> rollup option \<Rightarrow> lrow list \<Rightarrow> date option \<Rightarrow> int option \<Rightarrow> rat option
    \<Rightarrow> balance_report" where
  "balance_sheet ty start_month today state rows as_of cc valuation =
    (let (fy_from, fy_to) = indian_fy_bounds start_month (opt_arg today as_of);
         till = opt_arg fy_to as_of;
         out = report_balances state rows (all_rows\<lparr>bf_as_of := Some till, bf_cc := cc, bf_no_close_after := Some fy_from\<rparr>);
         assets = type_total ty ASSET out; liabilities = - type_total ty LIABILITY out;
         equity = - type_total ty EQUITY out;
         pl = pf_net (profit_and_loss ty start_month today state rows (Some fy_from) (Some till) cc);
         inventory_gl = (\<Sum>r\<leftarrow>filter (\<lambda>r. ty (rr_account r) = ASSET \<and> rr_account r = ''1400'') out. rr_balance r);
         inventory = opt_arg inventory_gl valuation in
     \<lparr>bs_as_of = till, bs_defaulted = (as_of = None), bs_assets = assets, bs_liabilities = liabilities,
      bs_equity = equity, bs_earnings = pl, bs_from = fy_from, bs_to = fy_to,
      bs_holds = (assets = liabilities + equity + pl), bs_inventory_gl = inventory_gl,
      bs_inventory_valuation = inventory, bs_inventory_variance = inventory - inventory_gl,
      bs_inventory_source = (if inventory \<noteq> 0 then ''valuation_engine'' else ''gl_1400_approximation''),
      bs_rows = out, bs_schedule = schedule_iii_balance ty out (Some pl)\<rparr>)"

text \<open>Cash flow: the counted lines of the cash and bank accounts, by the type of their source.\<close>

definition is_cash_account :: "string \<Rightarrow> bool" where
  "is_cash_account code = (code \<in> {''1100'', ''1500''} \<or> starts_with code ''1500-'')"

definition cash_rows :: "lrow list \<Rightarrow> date option \<Rightarrow> date option \<Rightarrow> int option \<Rightarrow> lrow list" where
  "cash_rows rows date_from date_to cc =
    filter (\<lambda>x. is_cash_account (jl_account (lw_line x)))
      (filter (selected (all_rows\<lparr>bf_from := date_from, bf_to := date_to, bf_cc := cc\<rparr>)) rows)"

definition sum_when :: "(jline \<Rightarrow> rat) \<Rightarrow> (string \<Rightarrow> bool) \<Rightarrow> lrow list \<Rightarrow> rat" where
  "sum_when f P rows = (\<Sum>x\<leftarrow>rows. if 0 < f (lw_line x) \<and> P (fst (lw_src x)) then f (lw_line x) else 0)"

record cash_report =
  cf_operating :: "rat \<times> rat \<times> rat"
  cf_investing :: "rat \<times> rat"
  cf_financing :: "rat \<times> rat"
  cf_net :: rat

definition cash_flow :: "int \<Rightarrow> date \<Rightarrow> lrow list \<Rightarrow> date option \<Rightarrow> date option \<Rightarrow> int option \<Rightarrow> cash_report" where
  "cash_flow start_month today rows date_from date_to cc =
    (let (a, b) = (case (date_from, date_to) of
             (None, Some b) \<Rightarrow> (Some (fst (indian_fy_bounds start_month b)), Some b)
           | (None, None) \<Rightarrow> map_prod Some Some (indian_fy_bounds start_month today)
           | (Some a, _) \<Rightarrow> (Some a, date_to));
         mine = cash_rows rows a b cc;
         financing = sum_when jl_debit (\<lambda>t. t = ''EQUITY'') mine;
         inflows = sum_when jl_debit (\<lambda>t. t \<noteq> ''EQUITY'') mine;
         investing = sum_when jl_credit (\<lambda>t. t \<in> {''FIXED_ASSET'', ''INVESTMENT''}) mine;
         outflows = sum_when jl_credit (\<lambda>t. t \<notin> {''FIXED_ASSET'', ''INVESTMENT''}) mine in
     \<lparr>cf_operating = (inflows, outflows, inflows - outflows), cf_investing = (investing, - investing),
      cf_financing = (financing, financing), cf_net = inflows - outflows + - investing + financing\<rparr>)"

text \<open>The stores side by side; each bears an equal share of the expenses without a store.\<close>

definition comparative_store_pnl ::
  "(string \<Rightarrow> account_type) \<Rightarrow> int \<Rightarrow> date \<Rightarrow> rollup option \<Rightarrow> lrow list \<Rightarrow> int list \<Rightarrow> date option \<Rightarrow> date option
    \<Rightarrow> rat \<times> (int \<times> rat \<times> rat \<times> rat \<times> rat \<times> rat) list" where
  "comparative_store_pnl ty start_month today state rows stores date_from date_to =
    (let shared = type_total ty EXPENSE (report_balances state rows
           (all_rows\<lparr>bf_from := date_from, bf_to := date_to, bf_unassigned := True, bf_no_close := True\<rparr>));
         n = length stores;
         share = (if n = 0 then 0 else quantize_even 2 (ddiv shared (of_nat n))) in
     (shared, map (\<lambda>store. let p = profit_and_loss ty start_month today state rows date_from date_to (Some store) in
        (store, pf_income p, pf_expenses p, pf_net p, share, pf_net p - share)) stores))"

section \<open>Closing the year\<close>

definition fy_close_source_id :: "date \<Rightarrow> int" where
  "fy_close_source_id d = d_year d * 10000 + d_month d * 100 + d_day d"

definition fy_close_source :: "date \<Rightarrow> posting_source" where
  "fy_close_source fy_end = (''FY_CLOSE'', fy_close_source_id fy_end, ''FY_CLOSE'')"

text \<open>Every overlapping accounting period and every existing GST period of the year is closed.\<close>

definition close_periods :: "(int \<times> int \<Rightarrow> bool) \<Rightarrow> date \<Rightarrow> date \<Rightarrow> ledger \<Rightarrow> ledger" where
  "close_periods gst_exists fy_start fy_end lg =
    lg\<lparr>lg_periods := map (\<lambda>p. if ap_start p \<le> fy_end \<and> fy_start \<le> ap_end p then p\<lparr>ap_status := CLOSED\<rparr> else p) (lg_periods lg),
       lg_gst := (\<lambda>m. if gst_exists m \<and> month_start fy_start \<le> Date (fst m) (snd m) 1
                         \<and> Date (fst m) (snd m) 1 \<le> month_start fy_end then CLOSED else lg_gst lg m)\<rparr>"

definition closing_rows :: "(string \<Rightarrow> account_type) \<Rightarrow> date \<Rightarrow> date \<Rightarrow> lrow list \<Rightarrow> lrow list" where
  "closing_rows ty fy_start fy_end rows =
    filter (\<lambda>r. ty (jl_account (lw_line r)) \<in> {INCOME, EXPENSE})
      (filter (selected (all_rows\<lparr>bf_from := Some fy_start, bf_to := Some fy_end, bf_no_close := True\<rparr>)) rows)"

definition closing_lines :: "report_row list \<Rightarrow> jline list" where
  "closing_lines rows =
    (let open_rows = filter (\<lambda>r. rr_balance r \<noteq> 0) rows;
         ls = map (\<lambda>r. if 0 < rr_balance r then cr (rr_account r) (rr_balance r) None
                        else dr (rr_account r) (- rr_balance r) None) open_rows;
         net_re = (\<Sum>r\<leftarrow>open_rows. rr_balance r) in
     ls @ (if 0 < net_re then [dr ''3100'' net_re None]
           else if net_re < 0 then [cr ''3100'' (- net_re) None] else []))"

definition work_in_progress :: "date \<Rightarrow> lrow list \<Rightarrow> rat" where
  "work_in_progress fy_end rows =
    (\<Sum>r\<leftarrow>filter (\<lambda>r. jl_account (lw_line r) = ''1450'')
        (filter (selected (all_rows\<lparr>bf_to := Some fy_end\<rparr>)) rows). jl_debit (lw_line r) - jl_credit (lw_line r))"

record close_checks =
  cc_healthy :: bool               \<comment> \<open>control accounts agree and no alert is an error\<close>
  cc_drafts :: bool                \<comment> \<open>draft invoices dated in the year\<close>
  cc_open_work :: bool             \<comment> \<open>open work orders while manufacturing books are on\<close>

definition close_financial_year ::
  "(string \<Rightarrow> account_type) \<Rightarrow> int \<Rightarrow> (int \<times> int \<Rightarrow> bool) \<Rightarrow> gl_company \<Rightarrow> date \<Rightarrow> int \<Rightarrow> ledger \<Rightarrow> close_checks \<Rightarrow> date
    \<Rightarrow> (jentry option \<times> ledger) res" where
  "close_financial_year ty start_month gst_exists co today new_id lg checks end_date =
    (let (fy_start, fy_end) = fy_bounds_for_end start_month end_date; src = fy_close_source fy_end in
     case find (\<lambda>e. same_posting src e \<and> je_lines e \<noteq> []) (lg_entries lg) of
       Some e \<Rightarrow> Inr (Some e, close_periods gst_exists fy_start fy_end lg)
     | None \<Rightarrow>
       guard_res (\<not> cc_healthy checks)
         (Business_Rule ''Financial-year close blocked: books health is unhealthy.'') (
       guard_res (cc_drafts checks)
         (Business_Rule ''Financial-year close blocked: draft sales or purchase invoices exist in this FY.'') (
       guard_res (cc_open_work checks)
         (Business_Rule ''Financial-year close blocked: OPEN_WIP - work orders are still open.'') (
       guard_res (work_in_progress fy_end (ledger_rows lg) \<noteq> 0)
         (Business_Rule ''Financial-year close blocked: OPEN_WIP - WIP GL 1450 net is not zero.'') (
       guard_res (\<not> gc_accounting_enabled co)
         (Business_Rule ''Accounting is not enabled for this company.'') (
       guard_res (\<not> list_ex (\<lambda>p. ap_start p \<le> fy_end \<and> fy_start \<le> ap_end p) (lg_periods lg))
         (Business_Rule ''Financial-year close blocked: no accounting periods are defined.'') (
       bind_res (use_account ''3100'' (seed_chart_of_accounts (lg_chart lg))) (\<lambda>chart.
       let lg1 = lg\<lparr>lg_chart := chart\<rparr>;
           ls = closing_lines (group_rows (closing_rows ty fy_start fy_end (ledger_rows lg))) in
       if ls = [] then Inr (None, close_periods gst_exists fy_start fy_end lg1)
       else bind_res (post co today new_id lg1 src fy_end ls True False)
              (\<lambda>(r, lg2). Inr (r, close_periods gst_exists fy_start fy_end lg2))))))))))"

section \<open>Facts about the financial year\<close>

lemma fy_month_range: "1 \<le> fy_month m \<and> fy_month m \<le> 12"
  by (simp add: fy_month_def)

lemma fy_bounds_around:
  assumes "valid_date d"
  shows "fst (indian_fy_bounds m d) \<le> d" "d \<le> snd (indian_fy_bounds m d)"
    "valid_date (fst (indian_fy_bounds m d))" "valid_date (snd (indian_fy_bounds m d))"
proof -
  have d: "1 \<le> d_month d" "d_month d \<le> 12" "1 \<le> d_day d" "d_day d \<le> 31"
    using assms days_in_month_bounds [of "d_year d" "d_month d"] by (auto simp: valid_date_def)
  note m = fy_month_range [of m]
  show "fst (indian_fy_bounds m d) \<le> d"
    using d m by (auto simp: indian_fy_bounds_def Let_def less_eq_date_def)
  show "valid_date (fst (indian_fy_bounds m d))"
    using m by (auto simp: indian_fy_bounds_def Let_def valid_date_def)
  show "valid_date (snd (indian_fy_bounds m d))"
    using m by (auto simp: indian_fy_bounds_def Let_def valid_date_def days_december)
  have last_day: "d_day d \<le> days_in_month (d_year d) (d_month d)" using assms by (simp add: valid_date_def)
  show "d \<le> snd (indian_fy_bounds m d)"
  proof (cases "d_month d = fy_month m - 1")
    case True
    then show ?thesis using d m last_day by (auto simp: indian_fy_bounds_def Let_def less_eq_date_def)
  next
    case False
    then show ?thesis using d m by (auto simp: indian_fy_bounds_def Let_def less_eq_date_def)
  qed
qed

section \<open>Entries balance, so rows do\<close>

definition row_net :: "lrow \<Rightarrow> rat" where
  "row_net x = jl_debit (lw_line x) - jl_credit (lw_line x)"

definition entry_level :: "(lrow \<Rightarrow> bool) \<Rightarrow> bool" where
  "entry_level P = (\<forall>r i l. P (r\<lparr>lw_id := i, lw_line := l\<rparr>) = P r)"

lemma entry_rows_net: "(\<Sum>x\<leftarrow>entry_rows es e k. row_net x) = debits (je_lines e) - credits (je_lines e)"
proof -
  have "map row_net (entry_rows es e k) = map ((\<lambda>l. jl_debit l - jl_credit l) \<circ> snd) (enumerate 0 (je_lines e))"
    by (simp add: entry_rows_def row_net_def split_beta comp_def)
  then have "map row_net (entry_rows es e k) = map (\<lambda>l. jl_debit l - jl_credit l) (je_lines e)"
    by (simp only: map_map [symmetric] map_snd_enumerate)
  moreover have "(\<Sum>l\<leftarrow>ls. jl_debit l - jl_credit l) = debits ls - credits ls" for ls
    by (induction ls) (simp_all add: debits_def credits_def)
  ultimately show ?thesis by simp
qed

lemma entry_rows_all_or_none:
  assumes "entry_level P"
  shows "filter P (entry_rows es e k) = entry_rows es e k \<or> filter P (entry_rows es e k) = []"
proof -
  have same: "P x = P y" if "x \<in> set (entry_rows es e k)" "y \<in> set (entry_rows es e k)" for x y
  proof -
    have "x\<lparr>lw_id := 0, lw_line := lw_line y\<rparr> = y\<lparr>lw_id := 0, lw_line := lw_line y\<rparr>"
      using that by (auto simp: entry_rows_def)
    then show ?thesis using assms unfolding entry_level_def by metis
  qed
  show ?thesis
  proof (cases "\<exists>x\<in>set (entry_rows es e k). P x")
    case True
    then show ?thesis using same by (metis filter_True)
  next
    case False
    then show ?thesis by (simp add: filter_empty_conv)
  qed
qed

lemma rows_from_net:
  assumes "entry_level P" and "\<And>e. e \<in> set rest \<Longrightarrow> debits (je_lines e) = credits (je_lines e)"
  shows "(\<Sum>x\<leftarrow>filter P (rows_from es rest k). row_net x) = 0"
  using assms(2)
proof (induction rest arbitrary: k)
  case Nil
  then show ?case by simp
next
  case (Cons e rest)
  have "(\<Sum>x\<leftarrow>filter P (entry_rows es e k). row_net x) = 0"
    using entry_rows_all_or_none [OF assms(1), of es e k] entry_rows_net [of es e k] Cons.prems [of e] by auto
  then show ?case using Cons by simp
qed

lemma selected_entry_level: "bf_cc f = None \<Longrightarrow> \<not> bf_unassigned f \<Longrightarrow> entry_level (selected f)"
  by (simp add: entry_level_def selected_def counted_def is_close_def cong: option.case_cong)

lemma ledger_rows_net:
  assumes "ledger_reachable co lg" and "posts_to_ledger co" and "entry_level P"
  shows "(\<Sum>x\<leftarrow>filter P (ledger_rows lg). row_net x) = 0"
  unfolding ledger_rows_def
  by (rule rows_from_net [OF assms(3)])
     (use books_ok_reachable [OF assms(1,2)] in \<open>auto simp: books_ok_def voucher_ok_def\<close>)

text \<open>The lines of the accounts with a property.\<close>

definition account_net :: "(string \<Rightarrow> bool) \<Rightarrow> lrow list \<Rightarrow> rat" where
  "account_net Q rows = (\<Sum>x\<leftarrow>filter (\<lambda>x. Q (jl_account (lw_line x))) rows. row_net x)"

lemma type_total_group: "type_total ty t (group_rows rows) = account_net (\<lambda>a. ty a = t) rows"
  using group_rows_sum(3) [of "\<lambda>a. ty a = t" rows]
  by (simp add: type_total_def account_net_def row_net_def comp_def)

lemma five_types:
  "(\<Sum>x\<leftarrow>rows. row_net x) = account_net (\<lambda>a. ty a = ASSET) rows + account_net (\<lambda>a. ty a = LIABILITY) rows
    + account_net (\<lambda>a. ty a = EQUITY) rows + account_net (\<lambda>a. ty a \<in> {INCOME, EXPENSE}) rows"
proof (induction rows)
  case Nil
  then show ?case by (simp add: account_net_def)
next
  case (Cons x rows)
  then show ?case by (cases "ty (jl_account (lw_line x))") (simp_all add: account_net_def)
qed

lemma income_and_expense:
  "account_net (\<lambda>a. ty a = INCOME) rows + account_net (\<lambda>a. ty a = EXPENSE) rows
    = account_net (\<lambda>a. ty a \<in> {INCOME, EXPENSE}) rows"
proof (induction rows)
  case Nil
  then show ?case by (simp add: account_net_def)
next
  case (Cons x rows)
  then show ?case by (cases "ty (jl_account (lw_line x))") (simp_all add: account_net_def)
qed

section \<open>The Schedule III headings lose no balance\<close>

definition slot_amount :: "(slot_key \<times> string \<times> rat) list \<Rightarrow> slot_key \<Rightarrow> rat" where
  "slot_amount es k = (\<Sum>e\<leftarrow>filter (\<lambda>e. fst e = k) es. snd (snd e))"

definition slot_keys :: "schedule_spec \<Rightarrow> slot_key list" where
  "slot_keys spec = concat (map (\<lambda>(sk, ls). map (\<lambda>(lk, _, _). (sk, lk)) ls) spec)"

definition section_of :: "(slot_key \<times> string \<times> rat) list \<Rightarrow> string \<times> (string \<times> string list \<times> string list) list \<Rightarrow> schedule_section" where
  "section_of es = (\<lambda>(sk, ls).
       let lines = map (\<lambda>(lk, _, _). let mine = map snd (filter (\<lambda>e. fst e = (sk, lk)) es) in
             \<lparr>sl_key = lk, sl_amount = (\<Sum>(c, x)\<leftarrow>mine. x), sl_accounts = mine\<rparr>) ls
       in \<lparr>ss_key = sk, ss_amount = (\<Sum>l\<leftarrow>lines. sl_amount l), ss_lines = lines\<rparr>)"

lemma sections_map:
  "schedule_iii_sections ty spec cs cl rows = map (section_of (schedule_entries ty spec cs cl rows)) spec"
  by (simp add: schedule_iii_sections_def section_of_def [abs_def] Let_def)

lemma section_of_key [simp]: "ss_key (section_of es p) = fst p"
  by (simp add: section_of_def split_beta Let_def)

lemma section_lines:
  "ss_lines (section_of es p) = map (\<lambda>q. \<lparr>sl_key = fst q, sl_amount = slot_amount es (fst p, fst q),
      sl_accounts = map snd (filter (\<lambda>e. fst e = (fst p, fst q)) es)\<rparr>) (snd p)"
  by (simp add: section_of_def split_beta Let_def slot_amount_def comp_def)

lemma section_lines_sum:
  "(\<Sum>l\<leftarrow>ss_lines (section_of es p). w (sl_key l) * sl_amount l)
    = (\<Sum>q\<leftarrow>snd p. w (fst q) * slot_amount es (fst p, fst q))"
  by (simp add: section_lines comp_def)

lemma section_amount: "ss_amount (section_of es p) = (\<Sum>q\<leftarrow>snd p. slot_amount es (fst p, fst q))"
proof -
  have "ss_amount (section_of es p) = (\<Sum>l\<leftarrow>ss_lines (section_of es p). sl_amount l)"
    by (simp add: section_of_def split_beta Let_def)
  then show ?thesis by (simp add: section_lines comp_def)
qed

text \<open>A weighted sum over the slots is a weighted sum over the entries that are in a slot.\<close>

lemma slots_sum:
  assumes "distinct (slot_keys spec)"
  shows "(\<Sum>p\<leftarrow>spec. \<Sum>q\<leftarrow>snd p. w (fst p, fst q) * slot_amount es (fst p, fst q))
    = (\<Sum>e\<leftarrow>filter (\<lambda>e. fst e \<in> set (slot_keys spec)) es. w (fst e) * snd (snd e))"
proof -
  have flat: "(\<Sum>p\<leftarrow>ps. \<Sum>q\<leftarrow>snd p. g (fst p, fst q)) = (\<Sum>k\<leftarrow>slot_keys ps. g k)" for g :: "slot_key \<Rightarrow> rat" and ps
    unfolding slot_keys_def by (induction ps) (auto simp: split_beta comp_def)
  have "(\<Sum>p\<leftarrow>spec. \<Sum>q\<leftarrow>snd p. w (fst p, fst q) * slot_amount es (fst p, fst q))
      = (\<Sum>k\<leftarrow>slot_keys spec. w k * slot_amount es k)" by (rule flat)
  also have "\<dots> = (\<Sum>k\<leftarrow>slot_keys spec. \<Sum>e\<leftarrow>filter (\<lambda>e. fst e = k) es. w (fst e) * snd (snd e))"
  proof (rule arg_cong [of _ _ sum_list], rule map_cong [OF refl])
    fix k
    show "w k * slot_amount es k = (\<Sum>e\<leftarrow>filter (\<lambda>e. fst e = k) es. w (fst e) * snd (snd e))"
      unfolding slot_amount_def by (induction es) (auto simp: distrib_left)
  qed
  also have "\<dots> = (\<Sum>e\<leftarrow>filter (\<lambda>e. fst e \<in> set (slot_keys spec)) es. w (fst e) * snd (snd e))"
    by (rule group_sum [OF assms])
  finally show ?thesis .
qed

lemma matched_slot_key:
  assumes "matched_slot spec code = Some k"
  shows "k \<in> set (slot_keys spec)"
proof -
  obtain e where e: "find (\<lambda>(sk, lk, exact, starts). (exact \<noteq> [] \<or> starts \<noteq> []) \<and> code_in code exact starts)
      (concat (map (\<lambda>(sk, ls). map (Pair sk) ls) spec)) = Some e" "k = (fst e, fst (snd e))"
    using assms by (auto simp: matched_slot_def split: option.splits)
  then have "e \<in> set (concat (map (\<lambda>(sk, ls). map (Pair sk) ls) spec))"
    by (auto simp: find_Some_iff in_set_conv_nth simp del: set_concat)
  then show ?thesis using e(2) by (force simp: slot_keys_def)
qed

text \<open>Each row is matched or residual, so weights that undo the signs give the sum of the balances.\<close>

lemma entries_sum:
  assumes w: "\<And>sk lk b. w (sk, lk) * (if sk \<in> set cs \<or> lk \<in> set cl then - b else b) = s * (b :: rat)"
    and r: "\<And>r. r \<in> set rows \<Longrightarrow> residual_slot (ty (rr_account r)) \<in> set (slot_keys spec)
      \<and> w (residual_slot (ty (rr_account r))) * (if ty (rr_account r) = ASSET \<or> ty (rr_account r) = EXPENSE
          then rr_balance r else - rr_balance r) = s * rr_balance r"
  shows "(\<Sum>e\<leftarrow>filter (\<lambda>e. fst e \<in> set (slot_keys spec)) (schedule_entries ty spec cs cl rows). w (fst e) * snd (snd e))
    = s * (\<Sum>r\<leftarrow>rows. rr_balance r)"
proof -
  have "(\<Sum>e\<leftarrow>filter (\<lambda>e. fst e \<in> set (slot_keys spec)) (List.map_filter (matched_entry spec cs cl) rows). w (fst e) * snd (snd e))
      + (\<Sum>e\<leftarrow>filter (\<lambda>e. fst e \<in> set (slot_keys spec)) (List.map_filter (residual_entry ty spec) rows). w (fst e) * snd (snd e))
      = s * (\<Sum>r\<leftarrow>rows. rr_balance r)"
    using r
  proof (induction rows)
    case Nil
    then show ?case by (simp add: map_filter_simps)
  next
    case (Cons r rows)
    show ?case
    proof (cases "matched_slot spec (rr_account r)")
      case None
      then show ?thesis
        using Cons.IH Cons.prems [of r] Cons.prems
        by (simp add: map_filter_simps matched_entry_def residual_entry_def Let_def distrib_left)
    next
      case (Some k)
      obtain sk lk where k: "k = (sk, lk)" by force
      show ?thesis
        using Cons.IH Cons.prems Some matched_slot_key [OF Some] w [of sk lk "rr_balance r"]
        by (simp add: map_filter_simps matched_entry_def residual_entry_def k distrib_left)
    qed
  qed
  then show ?thesis by (simp add: schedule_entries_def)
qed

definition credit_sections :: "string list" where
  "credit_sections = [''equity'', ''non_current_liabilities'', ''current_liabilities'']"

definition section_total :: "string list \<Rightarrow> schedule_section list \<Rightarrow> rat" where
  "section_total keys sections = (\<Sum>s\<leftarrow>filter (\<lambda>s. ss_key s \<in> set keys) sections. ss_amount s)"

lemma balance_keys:
  "distinct (slot_keys SCHEDULE_III_BALANCE)" "distinct (slot_keys SCHEDULE_III_PNL)"
  "residual_slot ASSET \<in> set (slot_keys SCHEDULE_III_BALANCE)"
  "residual_slot LIABILITY \<in> set (slot_keys SCHEDULE_III_BALANCE)"
  "residual_slot EQUITY \<in> set (slot_keys SCHEDULE_III_BALANCE)"
  "residual_slot INCOME \<in> set (slot_keys SCHEDULE_III_PNL)"
  "residual_slot EXPENSE \<in> set (slot_keys SCHEDULE_III_PNL)"
  "map fst SCHEDULE_III_BALANCE = [''non_current_assets'', ''current_assets'', ''equity'', ''non_current_liabilities'', ''current_liabilities'']"
  "map fst SCHEDULE_III_PNL = [''pnl'']"
  by code_simp+

lemma schedule_balance_total:
  "section_total [''non_current_assets'', ''current_assets''] (schedule_iii_balance ty rows (Some x))
    - section_total credit_sections (schedule_iii_balance ty rows (Some x))
   = (\<Sum>r\<leftarrow>filter (\<lambda>r. ty (rr_account r) \<in> {ASSET, LIABILITY, EQUITY}) rows. rr_balance r) - x"
proof -
  let ?rows = "filter (\<lambda>r. ty (rr_account r) \<in> {ASSET, LIABILITY, EQUITY}) rows"
  let ?es = "schedule_entries ty SCHEDULE_III_BALANCE credit_sections [] ?rows"
  let ?w = "\<lambda>sk. if sk \<in> set credit_sections then - 1 else 1 :: rat"
  have sum: "(\<Sum>p\<leftarrow>SCHEDULE_III_BALANCE. ?w (fst p) * ss_amount (section_of ?es p)) = (\<Sum>r\<leftarrow>?rows. rr_balance r)"
  proof -
    have "?w (fst p) * ss_amount (section_of ?es p) = (\<Sum>q\<leftarrow>snd p. (?w \<circ> fst) (fst p, fst q) * slot_amount ?es (fst p, fst q))"
      for p :: "string \<times> (string \<times> string list \<times> string list) list"
      by (simp add: section_amount sum_list_const_mult)
    then have "(\<Sum>p\<leftarrow>SCHEDULE_III_BALANCE. ?w (fst p) * ss_amount (section_of ?es p))
        = (\<Sum>p\<leftarrow>SCHEDULE_III_BALANCE. \<Sum>q\<leftarrow>snd p. (?w \<circ> fst) (fst p, fst q) * slot_amount ?es (fst p, fst q))"
      by (simp only:)
    also have "\<dots> = (\<Sum>e\<leftarrow>filter (\<lambda>e. fst e \<in> set (slot_keys SCHEDULE_III_BALANCE)) ?es. (?w \<circ> fst) (fst e) * snd (snd e))"
      by (rule slots_sum [OF balance_keys(1)])
    also have "\<dots> = 1 * (\<Sum>r\<leftarrow>?rows. rr_balance r)"
    proof (rule entries_sum)
      fix r assume r: "r \<in> set ?rows"
      then consider "ty (rr_account r) = ASSET" | "ty (rr_account r) = LIABILITY" | "ty (rr_account r) = EQUITY" by auto
      then show "residual_slot (ty (rr_account r)) \<in> set (slot_keys SCHEDULE_III_BALANCE)
        \<and> (?w \<circ> fst) (residual_slot (ty (rr_account r)))
          * (if ty (rr_account r) = ASSET \<or> ty (rr_account r) = EXPENSE then rr_balance r else - rr_balance r)
          = 1 * rr_balance r"
        by cases (use balance_keys(3-5) in \<open>auto simp: residual_slot_def credit_sections_def\<close>)
    qed auto
    finally show ?thesis by simp
  qed
  obtain l1 l2 l3 l4 l5 where spec: "SCHEDULE_III_BALANCE = [(''non_current_assets'', l1), (''current_assets'', l2),
      (''equity'', l3), (''non_current_liabilities'', l4), (''current_liabilities'', l5)]"
    using balance_keys(8) by (auto simp: map_eq_Cons_conv)
  have "schedule_iii_balance ty rows (Some x) = map (\<lambda>s. if ss_key s = ''equity''
         then s\<lparr>ss_lines := ss_lines s @ [\<lparr>sl_key = ''surplus_in_profit_and_loss'', sl_amount = x, sl_accounts = []\<rparr>],
                ss_amount := ss_amount s + x\<rparr> else s) (map (section_of ?es) SCHEDULE_III_BALANCE)"
    unfolding schedule_iii_balance_def Let_def sections_map credit_sections_def by simp
  then show ?thesis using sum unfolding spec
    by (simp add: section_total_def credit_sections_def)
qed

lemma schedule_profit_total:
  assumes "\<forall>r\<in>set rows. ty (rr_account r) \<in> {INCOME, EXPENSE}"
  shows "map ss_amount (schedule_iii_profit_and_loss ty rows) = [- (\<Sum>r\<leftarrow>rows. rr_balance r)]"
proof -
  let ?inc = "[''revenue_from_operations'', ''other_income'']"
  let ?es = "schedule_entries ty SCHEDULE_III_PNL [] ?inc rows"
  let ?w = "\<lambda>lk. if lk \<in> set ?inc then 1 else - 1 :: rat"
  have "(\<Sum>p\<leftarrow>SCHEDULE_III_PNL. \<Sum>q\<leftarrow>snd p. (?w \<circ> snd) (fst p, fst q) * slot_amount ?es (fst p, fst q))
      = (\<Sum>e\<leftarrow>filter (\<lambda>e. fst e \<in> set (slot_keys SCHEDULE_III_PNL)) ?es. (?w \<circ> snd) (fst e) * snd (snd e))"
    by (rule slots_sum [OF balance_keys(2)])
  also have "\<dots> = - 1 * (\<Sum>r\<leftarrow>rows. rr_balance r)"
  proof (rule entries_sum)
    fix r assume r: "r \<in> set rows"
    then consider "ty (rr_account r) = INCOME" | "ty (rr_account r) = EXPENSE" using assms by auto
    then show "residual_slot (ty (rr_account r)) \<in> set (slot_keys SCHEDULE_III_PNL)
      \<and> (?w \<circ> snd) (residual_slot (ty (rr_account r))) * (if ty (rr_account r) = ASSET \<or> ty (rr_account r) = EXPENSE
          then rr_balance r else - rr_balance r) = - 1 * rr_balance r"
      by cases (use balance_keys(6,7) in \<open>auto simp: residual_slot_def\<close>)
  qed auto
  finally have sum: "(\<Sum>p\<leftarrow>SCHEDULE_III_PNL. \<Sum>q\<leftarrow>snd p. ?w (fst q) * slot_amount ?es (fst p, fst q))
      = - (\<Sum>r\<leftarrow>rows. rr_balance r)" by simp
  obtain ls where spec: "SCHEDULE_III_PNL = [(''pnl'', ls)]"
    using balance_keys(9) by (auto simp: map_eq_Cons_conv)
  have "(\<Sum>l\<leftarrow>ss_lines (section_of ?es (''pnl'', ls)). if sl_key l \<in> set ?inc then sl_amount l else - sl_amount l)
      = (\<Sum>l\<leftarrow>ss_lines (section_of ?es (''pnl'', ls)). ?w (sl_key l) * sl_amount l)"
    by (rule arg_cong [of _ _ sum_list], rule map_cong) auto
  also have "\<dots> = - (\<Sum>r\<leftarrow>rows. rr_balance r)"
    unfolding section_lines_sum [where w = ?w] using sum unfolding spec by simp
  finally have total: "(\<Sum>l\<leftarrow>ss_lines (section_of ?es (''pnl'', ls)). if sl_key l \<in> set ?inc then sl_amount l else - sl_amount l)
      = - (\<Sum>r\<leftarrow>rows. rr_balance r)" .
  have "map ss_amount (schedule_iii_profit_and_loss ty rows)
      = map (\<lambda>p. \<Sum>l\<leftarrow>ss_lines (section_of ?es p). if sl_key l \<in> set ?inc then sl_amount l else - sl_amount l) SCHEDULE_III_PNL"
    by (simp add: schedule_iii_profit_and_loss_def Let_def sections_map comp_def)
  then show ?thesis using total unfolding spec by simp
qed

section \<open>The balance sheet\<close>

text \<open>What earlier years earned and no close has moved to equity.\<close>

definition unclosed_profit :: "(string \<Rightarrow> account_type) \<Rightarrow> date \<Rightarrow> lrow list \<Rightarrow> rat" where
  "unclosed_profit ty d rows =
    - account_net (\<lambda>a. ty a \<in> {INCOME, EXPENSE}) (filter (\<lambda>x. counted x \<and> lw_date x < d) rows)"

lemma dated_reports_are_live:
  "bf_from f \<noteq> None \<or> bf_no_close_after f \<noteq> None \<Longrightarrow> report_balances state rows f = live_balances rows f"
  by (auto simp: report_balances_def balances_from_rollup_def)

lemma type_total_filter:
  "ty_set t \<Longrightarrow> type_total ty t (filter (\<lambda>r. ty_set (ty (rr_account r))) rows) = type_total ty t rows"
  unfolding type_total_def filter_filter by (metis (mono_tags, lifting) filter_cong)

lemma profit_net:
  "pf_net (profit_and_loss ty m today state rows (Some a) (Some b) cc)
    = - account_net (\<lambda>a. ty a \<in> {INCOME, EXPENSE})
        (filter (selected (all_rows\<lparr>bf_from := Some a, bf_to := Some b, bf_cc := cc, bf_no_close := True\<rparr>)) rows)"
proof -
  let ?f = "all_rows\<lparr>bf_from := Some a, bf_to := Some b, bf_cc := cc, bf_no_close := True\<rparr>"
  have "report_balances state rows ?f = group_rows (filter (selected ?f) rows)"
    by (subst dated_reports_are_live) (simp_all add: live_balances_def)
  then show ?thesis
    using type_total_filter [of "\<lambda>t. t \<in> {INCOME, EXPENSE}" INCOME] type_total_filter [of "\<lambda>t. t \<in> {INCOME, EXPENSE}" EXPENSE]
      income_and_expense [of ty "filter (selected ?f) rows"]
    by (simp add: profit_and_loss_def profit_period_def Let_def type_total_group)
qed

lemma account_net_filter: "account_net Q (filter P rows) + account_net Q (filter (\<lambda>x. \<not> P x) rows) = account_net Q rows"
  unfolding account_net_def by (induction rows) auto

lemma earnings_split:
  assumes "d \<le> till"
  shows "account_net Q (filter (selected (all_rows\<lparr>bf_as_of := Some till, bf_no_close_after := Some d\<rparr>)) rows)
    = account_net Q (filter (selected (all_rows\<lparr>bf_from := Some d, bf_to := Some till, bf_cc := None, bf_no_close := True\<rparr>)) rows)
      + account_net Q (filter (\<lambda>x. counted x \<and> lw_date x < d) rows)"
proof -
  let ?f = "all_rows\<lparr>bf_as_of := Some till, bf_no_close_after := Some d\<rparr>"
  have "filter (\<lambda>x. d \<le> lw_date x) (filter (selected ?f) rows)
      = filter (selected (all_rows\<lparr>bf_from := Some d, bf_to := Some till, bf_cc := None, bf_no_close := True\<rparr>)) rows"
    unfolding filter_filter by (rule filter_cong) (auto simp: selected_def all_rows_def)
  moreover have "filter (\<lambda>x. \<not> d \<le> lw_date x) (filter (selected ?f) rows) = filter (\<lambda>x. counted x \<and> lw_date x < d) rows"
    unfolding filter_filter by (rule filter_cong) (use assms in \<open>auto simp: selected_def all_rows_def not_le\<close>)
  ultimately show ?thesis
    using account_net_filter [of Q "\<lambda>x. d \<le> lw_date x" "filter (selected ?f) rows"] by simp
qed

lemma balance_sheet_rows:
  fixes valuation as_of cc
  assumes "(a, b) = indian_fy_bounds m (opt_arg today as_of)"
  shows "bs_rows (balance_sheet ty m today state rows as_of cc valuation)
    = group_rows (filter (selected (all_rows\<lparr>bf_as_of := Some (opt_arg b as_of), bf_cc := cc, bf_no_close_after := Some a\<rparr>)) rows)"
  using assms
  by (simp add: balance_sheet_def Let_def split_beta dated_reports_are_live live_balances_def flip: assms)

lemma balance_of_types:
  "(\<Sum>r\<leftarrow>filter (\<lambda>r. ty (rr_account r) \<in> {ASSET, LIABILITY, EQUITY}) rows. rr_balance r)
    = type_total ty ASSET rows + type_total ty LIABILITY rows + type_total ty EQUITY rows"
proof (induction rows)
  case Nil
  then show ?case by (simp add: type_total_def)
next
  case (Cons r rows)
  then show ?case by (cases "ty (rr_account r)") (simp_all add: type_total_def)
qed

text \<open>
  C9. The balance sheet: on books reached by postings and reversals the assets are the liabilities, the
  equity and the earnings of the year, plus exactly the profit of earlier years that no year-end close has
  moved to equity; so \<open>equation_holds\<close> says that this profit is zero, and the Schedule III headings
  show the same difference (no account's balance is dropped from them).
\<close>

theorem balance_sheet_equation:
  assumes "ledger_reachable co lg" and "posts_to_ledger co" and "valid_date (opt_arg today as_of)"
  shows "let b = balance_sheet ty m today state (ledger_rows lg) as_of None valuation;
             unclosed = unclosed_profit ty (bs_from b) (ledger_rows lg) in
    bs_assets b = bs_liabilities b + bs_equity b + bs_earnings b + unclosed \<and>
    bs_holds b = (unclosed = 0) \<and>
    section_total [''non_current_assets'', ''current_assets''] (bs_schedule b)
      = section_total credit_sections (bs_schedule b) + unclosed"
proof -
  let ?rows = "ledger_rows lg"
  obtain a c where fy: "(a, c) = indian_fy_bounds m (opt_arg today as_of)" by (metis surj_pair)
  define till where "till = opt_arg c as_of"
  define b where "b = balance_sheet ty m today state ?rows as_of None valuation"
  define f where "f = all_rows\<lparr>bf_as_of := Some till, bf_cc := None, bf_no_close_after := Some a\<rparr>"
  define S where "S = filter (selected f) ?rows"
  have ac: "a \<le> till"
  proof -
    have "a \<le> opt_arg today as_of" "opt_arg today as_of \<le> c"
      using fy_bounds_around(1,2) [OF assms(3), of m] by (simp_all flip: fy)
    then show ?thesis by (cases as_of) (auto simp: till_def opt_arg_def)
  qed
  have rows: "bs_rows b = group_rows S"
    using balance_sheet_rows [OF fy] by (simp add: b_def S_def f_def till_def)
  have fields: "bs_from b = a" "bs_assets b = type_total ty ASSET (bs_rows b)"
    "bs_liabilities b = - type_total ty LIABILITY (bs_rows b)" "bs_equity b = - type_total ty EQUITY (bs_rows b)"
    "bs_earnings b = pf_net (profit_and_loss ty m today state ?rows (Some a) (Some till) None)"
    "bs_holds b = (bs_assets b = bs_liabilities b + bs_equity b + bs_earnings b)"
    "bs_schedule b = schedule_iii_balance ty (bs_rows b) (Some (bs_earnings b))"
    unfolding b_def balance_sheet_def Let_def till_def fy [symmetric] by simp_all
  have "(\<Sum>x\<leftarrow>S. row_net x) = 0"
    unfolding S_def by (rule ledger_rows_net [OF assms(1,2)], rule selected_entry_level) (simp_all add: f_def all_rows_def)
  then have zero: "account_net (\<lambda>x. ty x = ASSET) S + account_net (\<lambda>x. ty x = LIABILITY) S
      + account_net (\<lambda>x. ty x = EQUITY) S + account_net (\<lambda>x. ty x \<in> {INCOME, EXPENSE}) S = 0"
    using five_types [where rows = S] by simp
  have f': "f = all_rows\<lparr>bf_as_of := Some till, bf_no_close_after := Some a\<rparr>"
    by (simp add: f_def all_rows_def)
  have earned: "account_net (\<lambda>x. ty x \<in> {INCOME, EXPENSE}) S = - bs_earnings b - unclosed_profit ty (bs_from b) ?rows"
    unfolding S_def f' earnings_split [OF ac] fields(1,5) profit_net unclosed_profit_def by simp
  have eq: "bs_assets b = bs_liabilities b + bs_equity b + bs_earnings b + unclosed_profit ty (bs_from b) ?rows"
    using zero unfolding earned fields(2-4) rows type_total_group by (simp add: algebra_simps)
  moreover have "bs_holds b = (unclosed_profit ty (bs_from b) ?rows = 0)"
    using fields(6) eq by simp
  moreover have "section_total [''non_current_assets'', ''current_assets''] (bs_schedule b)
      = section_total credit_sections (bs_schedule b) + unclosed_profit ty (bs_from b) ?rows"
    using schedule_balance_total [of ty "bs_rows b" "bs_earnings b"] eq balance_of_types [of ty "bs_rows b"]
    unfolding fields(7) by (simp add: fields(2-4))
  ultimately show ?thesis by (simp only: Let_def b_def)
qed

section \<open>The close clears the year\<close>

lemma entry_rows_append:
  "je_reversed e = None \<Longrightarrow> entry_rows (es @ [e]) x k = entry_rows es x k"
  by (simp add: entry_rows_def)

lemma rows_from_append:
  "je_reversed e = None \<Longrightarrow> \<exists>K. rows_from (es @ [e]) (xs @ [e]) k = rows_from es xs k @ entry_rows (es @ [e]) e K"
proof (induction xs arbitrary: k)
  case Nil
  then show ?case by auto
next
  case (Cons x xs)
  then show ?case by (auto simp: entry_rows_append)
qed

lemma account_net_append: "account_net Q (xs @ ys) = account_net Q xs + account_net Q ys"
  by (simp add: account_net_def)

lemma account_net_entry: "account_net (\<lambda>x. x = a) (entry_rows es e k) = net (je_lines e) a"
proof -
  have "account_net (\<lambda>x. x = a) (map (\<lambda>p. F p (snd p)) ps) = net (map snd ps) a"
    if "\<And>p l. lw_line (F p l) = l" for F and ps :: "(nat \<times> jline) list"
    unfolding account_net_def net_def row_net_def by (induction ps) (auto simp: that)
  from this [of "\<lambda>p l. \<lparr>lw_id = k + int (fst p), lw_entry = je_id e, lw_status = je_status e, lw_date = je_date e,
        lw_src = je_source e,
        lw_of_close = list_ex (\<lambda>x. je_reversed x = Some (je_id e) \<and> snd (snd (je_source x)) = ''FY_CLOSE'') es,
        lw_line = l\<rparr>" "enumerate 0 (je_lines e)"]
  show ?thesis by (simp add: entry_rows_def case_prod_unfold)
qed

text \<open>The lines of the close undo each account and put the sum into retained earnings.\<close>

lemma closing_net:
  assumes "a \<noteq> ''3100''"
  shows "net (closing_lines rows) a = - (\<Sum>r\<leftarrow>filter (\<lambda>r. rr_account r = a) rows. rr_balance r)"
proof -
  have "net (map (\<lambda>r. if 0 < rr_balance r then cr (rr_account r) (rr_balance r) None
      else dr (rr_account r) (- rr_balance r) None) (filter (\<lambda>r. rr_balance r \<noteq> 0) rows)) a
    = - (\<Sum>r\<leftarrow>filter (\<lambda>r. rr_account r = a) rows. rr_balance r)"
    by (induction rows) (auto simp: net_simps on_side_def)
  then show ?thesis using assms by (simp add: closing_lines_def Let_def net_simps)
qed

lemma closing_net_retained:
  assumes "\<And>r. r \<in> set rows \<Longrightarrow> rr_account r \<noteq> ''3100''"
  shows "net (closing_lines rows) ''3100'' = (\<Sum>r\<leftarrow>rows. rr_balance r)"
proof -
  have "net (map (\<lambda>r. if 0 < rr_balance r then cr (rr_account r) (rr_balance r) None
      else dr (rr_account r) (- rr_balance r) None) (filter (\<lambda>r. rr_balance r \<noteq> 0) rows)) ''3100'' = 0"
    using assms by (induction rows) (auto simp: net_simps)
  moreover have "(\<Sum>r\<leftarrow>filter (\<lambda>r. rr_balance r \<noteq> 0) rows. rr_balance r) = (\<Sum>r\<leftarrow>rows. rr_balance r)"
    by (induction rows) auto
  ultimately show ?thesis by (simp add: closing_lines_def Let_def net_simps on_side_def)
qed

definition paise_rows :: "lrow list \<Rightarrow> bool" where
  "paise_rows rows = (\<forall>x\<in>set rows. normalize_line (lw_line x) = lw_line x)"

lemma ledger_rows_paise:
  assumes "books_ok (lg_entries lg)"
  shows "paise_rows (ledger_rows lg)"
proof -
  have "\<forall>x\<in>set (rows_from es rest k). normalize_line (lw_line x) = lw_line x"
    if "\<forall>e\<in>set rest. list_all (\<lambda>l. normalize_line l = l) (je_lines e)" for es rest k
    using that
  proof (induction rest arbitrary: k)
    case Nil
    then show ?case by simp
  next
    case (Cons e rest)
    have "\<forall>x\<in>set (entry_rows es e k). lw_line x \<in> set (je_lines e)"
      by (auto simp: entry_rows_def enumerate_eq_zip dest: set_zip_rightD)
    then show ?case using Cons by (auto simp: list_all_iff)
  qed
  moreover have "\<forall>e\<in>set (lg_entries lg). list_all (\<lambda>l. normalize_line l = l) (je_lines e)"
    using assms by (simp add: books_ok_def voucher_ok_def)
  ultimately show ?thesis unfolding paise_rows_def ledger_rows_def by blast
qed

lemma closing_lines_fit:
  assumes "paise_rows rows"
  shows "map normalize_line (closing_lines (group_rows rows)) = closing_lines (group_rows rows)"
proof -
  have paise: "quantize_even 2 (\<Sum>x\<leftarrow>xs. f x) = (\<Sum>x\<leftarrow>xs. f x)" if "\<forall>x\<in>set xs. quantize_even 2 (f x) = f x"
    for f :: "'z \<Rightarrow> rat" and xs
    using that by (induction xs) (auto intro: paisa_even.fixed_add)
  have line: "quantize_even 2 (jl_debit (lw_line x)) = jl_debit (lw_line x)
      \<and> quantize_even 2 (jl_credit (lw_line x)) = jl_credit (lw_line x)" if "x \<in> set rows" for x
    using assms that by (cases "lw_line x") (auto simp: paise_rows_def normalize_line_def)
  have bal: "quantize_even 2 (rr_balance r) = rr_balance r" if "r \<in> set (group_rows rows)" for r
  proof -
    obtain a where r: "rr_balance r = debits (filter (\<lambda>l. jl_account l = a) (map lw_line rows))
        - credits (filter (\<lambda>l. jl_account l = a) (map lw_line rows))"
      using \<open>r \<in> set (group_rows rows)\<close> by (auto simp: group_rows_def Let_def)
    have "quantize_even 2 (debits (filter (\<lambda>l. jl_account l = a) (map lw_line rows)))
          = debits (filter (\<lambda>l. jl_account l = a) (map lw_line rows))"
        "quantize_even 2 (credits (filter (\<lambda>l. jl_account l = a) (map lw_line rows)))
          = credits (filter (\<lambda>l. jl_account l = a) (map lw_line rows))"
      unfolding debits_def credits_def using line by (auto intro!: paise)
    then have "quantize_even 2 (debits (filter (\<lambda>l. jl_account l = a) (map lw_line rows))
          + - credits (filter (\<lambda>l. jl_account l = a) (map lw_line rows)))
        = debits (filter (\<lambda>l. jl_account l = a) (map lw_line rows))
          + - credits (filter (\<lambda>l. jl_account l = a) (map lw_line rows))"
      by (intro paisa_even.fixed_add paisa_even.fixed_minus)
    then show ?thesis unfolding r by simp
  qed
  have "quantize_even 2 (\<Sum>r\<leftarrow>filter (\<lambda>r. rr_balance r \<noteq> 0) (group_rows rows). rr_balance r)
      = (\<Sum>r\<leftarrow>filter (\<lambda>r. rr_balance r \<noteq> 0) (group_rows rows). rr_balance r)"
    by (rule paise) (use bal in auto)
  then show ?thesis
    using bal paisa_even.fixed_minus
    by (auto simp: closing_lines_def Let_def normalize_line_def on_side_def paisa_even.zero intro!: map_idI)
qed

text \<open>What the posting of the close adds to the books.\<close>

lemma post_periods:
  assumes "post co today i lg src d ls soft pre = Inr (r, lg')"
  shows "lg_periods lg' = lg_periods lg"
proof -
  have new: "lg_periods l' = lg_periods l" if "post_new co today i l src d ls allow = Inr (r, l')" for l l' allow
    using that by (auto simp: post_new_def Let_def guard_res_Inr_iff bind_res_Inr_iff split: if_splits)
  then show ?thesis using assms
    by (auto simp: post_def Let_def guard_res_Inr_iff split: if_splits option.splits dest!: new)
qed

lemma close_elim:
  assumes ok: "books_ok (lg_entries lg)" and c: "close_financial_year ty m gx co today i lg checks d = Inr (r, lg')"
    and new: "fy_close_source d \<notin> set (posted_sources (lg_entries lg))"
  obtains es where "lg_entries lg' = lg_entries lg @ es" and "es = [] \<or> (\<exists>e. es = [e])" and "r = (if es = [] then None else Some (hd es))"
    and "\<forall>e\<in>set es. je_date e = d \<and> je_status e = POSTED \<and> je_reversed e = None \<and> je_source e = fy_close_source d \<and> je_lines e \<noteq> []"
    and "\<And>a. (\<Sum>e\<leftarrow>es. net (je_lines e) a)
        = net (closing_lines (group_rows (closing_rows ty (fst (fy_bounds_for_end m d)) d (ledger_rows lg)))) a"
    and "lg_periods lg' = map (\<lambda>p. if ap_start p \<le> d \<and> fst (fy_bounds_for_end m d) \<le> ap_end p then p\<lparr>ap_status := CLOSED\<rparr> else p) (lg_periods lg)"
proof -
  obtain s where b: "fy_bounds_for_end m d = (s, d)" by (simp add: fy_bounds_for_end_def Let_def)
  let ?C = "closing_rows ty s d (ledger_rows lg)"
  let ?ls = "closing_lines (group_rows ?C)"
  have none: "find (\<lambda>e. same_posting (fy_close_source d) e \<and> je_lines e \<noteq> []) (lg_entries lg) = None"
    using new by (auto simp: find_None_iff same_posting_def posted_sources_def image_iff)
  obtain chart where acc: "gc_accounting_enabled co"
    and res: "(if ?ls = [] then Inr (None, close_periods gx s d (lg\<lparr>lg_chart := chart\<rparr>))
      else bind_res (post co today i (lg\<lparr>lg_chart := chart\<rparr>) (fy_close_source d) d ?ls True False)
        (\<lambda>(r, lg2). Inr (r, close_periods gx s d lg2))) = Inr (r, lg')"
    using c unfolding close_financial_year_def b Let_def prod.case none option.case guard_res_Inr_iff bind_res_Inr_iff [of "use_account _ _"]
    by blast
  have paise: "paise_rows ?C" using ledger_rows_paise [OF ok] by (simp add: paise_rows_def closing_rows_def)
  have periods: "lg_periods (close_periods gx s d l) = map (\<lambda>p. if ap_start p \<le> d \<and> s \<le> ap_end p then p\<lparr>ap_status := CLOSED\<rparr> else p) (lg_periods l)"
    "lg_entries (close_periods gx s d l) = lg_entries l" for l
    by (simp_all add: close_periods_def)
  show thesis
  proof (cases "?ls = []")
    case True
    then show thesis using res by (intro that [of "[]"]) (auto simp: periods net_def b)
  next
    case False
    then obtain lg2 where p: "post co today i (lg\<lparr>lg_chart := chart\<rparr>) (fy_close_source d) d ?ls True False = Inr (r, lg2)"
      and lg': "lg' = close_periods gx s d lg2" using res by (auto simp: bind_res_Inr_iff)
    have same_periods: "lg_periods lg2 = lg_periods lg" by (rule post_periods [OF p, simplified])
    have on: "posts_to_ledger co" using acc by (simp add: posts_to_ledger_def)
    have ok': "books_ok (lg_entries (lg\<lparr>lg_chart := chart\<rparr>))" using ok by simp
    show thesis
    proof (rule post_elim [OF p ok'], goal_cases)
      case 1
      then have "net (map normalize_line ?ls) a = 0" for a
        using net_nonzero [of "map normalize_line ?ls" a] on by (simp add: net_def)
      then show thesis using 1 closing_lines_fit [OF paise]
        by (intro that [of "[]"]) (auto simp: lg' periods same_periods b)
    next
      case (2 e)
      then show thesis using new by (auto simp: same_posting_def posted_sources_def image_iff)
    next
      case (3 e)
      have "net (je_lines e) a = net ?ls a" for a
        unfolding 3(4) closing_lines_fit [OF paise] by (rule net_nonzero)
      moreover have "je_lines e \<noteq> []" using 3(3) by (simp add: voucher_ok_def)
      ultimately show thesis using 3 by (intro that [of "[e]"]) (auto simp: lg' periods same_periods b)
    qed
  qed
qed

lemma find_append_none: "find P xs = None \<Longrightarrow> find P (xs @ ys) = find P ys"
  by (induction xs) (auto split: if_splits)

definition in_year :: "date \<Rightarrow> date \<Rightarrow> lrow \<Rightarrow> bool" where
  "in_year a b x = (counted x \<and> a \<le> lw_date x \<and> lw_date x \<le> b)"

lemma closed_rows:
  assumes entries: "lg_entries lg' = lg_entries lg @ es" and one: "es = [] \<or> (\<exists>e. es = [e])"
    and e: "\<forall>e\<in>set es. je_date e = d \<and> je_status e = POSTED \<and> je_reversed e = None" and "s \<le> d"
  shows "account_net (\<lambda>x. x = a) (filter (in_year s d) (ledger_rows lg'))
    = account_net (\<lambda>x. x = a) (filter (in_year s d) (ledger_rows lg)) + (\<Sum>e\<leftarrow>es. net (je_lines e) a)"
proof (cases es)
  case Nil
  then show ?thesis using entries by (simp add: ledger_rows_def)
next
  case (Cons e rest)
  then have es: "es = [e]" using one by auto
  have r: "je_reversed e = None" using e es by simp
  obtain K where K: "rows_from (lg_entries lg @ [e]) (lg_entries lg @ [e]) 1
      = rows_from (lg_entries lg) (lg_entries lg) 1 @ entry_rows (lg_entries lg @ [e]) e K"
    using rows_from_append [OF r] by blast
  have "filter (in_year s d) (entry_rows (lg_entries lg @ [e]) e K) = entry_rows (lg_entries lg @ [e]) e K"
    using e es assms(4) by (auto simp: filter_id_conv entry_rows_def in_year_def counted_def)
  then show ?thesis
    using entries es by (simp add: ledger_rows_def K account_net_append account_net_entry)
qed

lemma year_splits:
  assumes "ty a \<in> {INCOME, EXPENSE}"
  shows "account_net (\<lambda>x. x = a) (filter (in_year s d) rows)
    = account_net (\<lambda>x. x = a) (closing_rows ty s d rows) + account_net (\<lambda>x. x = a) (filter (\<lambda>x. in_year s d x \<and> is_close x) rows)"
proof -
  have "account_net (\<lambda>x. x = a) (closing_rows ty s d rows)
      = account_net (\<lambda>x. x = a) (filter (\<lambda>x. \<not> is_close x) (filter (in_year s d) rows))"
    unfolding account_net_def closing_rows_def filter_filter
    by (rule arg_cong [of _ _ "\<lambda>xs. \<Sum>x\<leftarrow>xs. row_net x"], rule filter_cong)
       (use assms in \<open>auto simp: selected_def in_year_def all_rows_def\<close>)
  then show ?thesis
    using account_net_filter [of "\<lambda>x. x = a" is_close "filter (in_year s d) rows"] by (simp add: conj_commute)
qed

lemma group_account: "(\<Sum>r\<leftarrow>filter (\<lambda>r. rr_account r = a) (group_rows rows). rr_balance r) = account_net (\<lambda>x. x = a) rows"
  using group_rows_sum(3) [of "\<lambda>x. x = a" rows] by (simp add: account_net_def row_net_def comp_def)

lemma group_total: "(\<Sum>r\<leftarrow>group_rows rows. rr_balance r) = account_net (\<lambda>_. True) rows"
  using group_rows_sum(3) [of "\<lambda>_. True" rows] by (simp add: account_net_def row_net_def comp_def)

lemma fy_start_before:
  assumes "valid_date d"
  shows "fst (fy_bounds_for_end m d) \<le> d"
  using assms by (auto simp: fy_bounds_for_end_def Let_def less_eq_date_def valid_date_def)

text \<open>
  C8. Closing the year: when no close with this end date is on the books, a successful close puts the
  year's net result into retained earnings, closes every overlapping period, and leaves every income and
  expense account at zero for the year, except for what other closes dated in the same year left there (a
  close with another end date is not taken into account).  Closing again changes no entry.
\<close>

theorem year_close_clears:
  assumes "ledger_reachable co lg" and "close_financial_year ty m gx co today i lg checks d = Inr (r, lg')"
    and "fy_close_source d \<notin> set (posted_sources (lg_entries lg))" and "valid_date d" and "ty ''3100'' = EQUITY"
    and "posts_to_ledger co" and "ty a \<in> {INCOME, EXPENSE}"
  defines "s \<equiv> fst (fy_bounds_for_end m d)"
  shows "account_net (\<lambda>x. x = a) (filter (in_year s d) (ledger_rows lg'))
      = account_net (\<lambda>x. x = a) (filter (\<lambda>x. in_year s d x \<and> is_close x) (ledger_rows lg)) \<and>
    account_net (\<lambda>x. x = ''3100'') (filter (in_year s d) (ledger_rows lg'))
      = account_net (\<lambda>x. x = ''3100'') (filter (in_year s d) (ledger_rows lg))
        - pf_net (profit_and_loss ty m today None (ledger_rows lg) (Some s) (Some d) None) \<and>
    (\<forall>p\<in>set (lg_periods lg'). ap_start p \<le> d \<longrightarrow> s \<le> ap_end p \<longrightarrow> ap_status p = CLOSED) \<and>
    (r \<noteq> None \<longrightarrow> (\<exists>lg''. close_financial_year ty m gx co today j lg' checks d = Inr (r, lg'') \<and> lg_entries lg'' = lg_entries lg'))"
proof -
  have sd: "s \<le> d" unfolding s_def by (rule fy_start_before [OF assms(4)])
  note ok = books_ok_reachable [OF assms(1,6)]
  let ?C = "closing_rows ty s d (ledger_rows lg)"
  obtain es where es: "lg_entries lg' = lg_entries lg @ es" "es = [] \<or> (\<exists>e. es = [e])" "r = (if es = [] then None else Some (hd es))"
    "\<forall>e\<in>set es. je_date e = d \<and> je_status e = POSTED \<and> je_reversed e = None \<and> je_source e = fy_close_source d \<and> je_lines e \<noteq> []"
    "\<And>a. (\<Sum>e\<leftarrow>es. net (je_lines e) a) = net (closing_lines (group_rows ?C)) a"
    "lg_periods lg' = map (\<lambda>p. if ap_start p \<le> d \<and> s \<le> ap_end p then p\<lparr>ap_status := CLOSED\<rparr> else p) (lg_periods lg)"
    using close_elim [OF ok assms(2,3)] unfolding s_def by blast
  have e: "\<forall>e\<in>set es. je_date e = d \<and> je_status e = POSTED \<and> je_reversed e = None" using es(4) by blast
  note rows = closed_rows [OF es(1,2) e sd]
  have a: "a \<noteq> ''3100''" using assms(5,7) by auto
  have one: "account_net (\<lambda>x. x = a) (filter (in_year s d) (ledger_rows lg'))
      = account_net (\<lambda>x. x = a) (filter (\<lambda>x. in_year s d x \<and> is_close x) (ledger_rows lg))"
    unfolding rows es(5) closing_net [OF a] group_account
    using year_splits [where ty = ty and a = a and s = s and d = d and rows = "ledger_rows lg", OF assms(7)] by simp
  have C: "rr_account q \<noteq> ''3100''" if "q \<in> set (group_rows ?C)" for q
    using that assms(5) by (auto simp: group_rows_def Let_def closing_rows_def)
  have IS: "account_net (\<lambda>_. True) ?C = account_net (\<lambda>x. ty x \<in> {INCOME, EXPENSE})
      (filter (selected (all_rows\<lparr>bf_from := Some s, bf_to := Some d, bf_no_close := True\<rparr>)) (ledger_rows lg))"
    by (simp add: account_net_def closing_rows_def)
  have f: "all_rows\<lparr>bf_from := Some s, bf_to := Some d, bf_cc := None, bf_no_close := True\<rparr>
      = all_rows\<lparr>bf_from := Some s, bf_to := Some d, bf_no_close := True\<rparr>" by (simp add: all_rows_def)
  have two: "account_net (\<lambda>x. x = ''3100'') (filter (in_year s d) (ledger_rows lg'))
      = account_net (\<lambda>x. x = ''3100'') (filter (in_year s d) (ledger_rows lg))
        - pf_net (profit_and_loss ty m today None (ledger_rows lg) (Some s) (Some d) None)"
  proof -
    have "net (closing_lines (group_rows ?C)) ''3100'' = (\<Sum>r\<leftarrow>group_rows ?C. rr_balance r)"
      by (rule closing_net_retained) (rule C)
    then show ?thesis unfolding rows es(5) profit_net f group_total IS by simp
  qed
  have three: "\<forall>p\<in>set (lg_periods lg'). ap_start p \<le> d \<longrightarrow> s \<le> ap_end p \<longrightarrow> ap_status p = CLOSED"
    unfolding es(6) by auto
  have four: "\<exists>lg''. close_financial_year ty m gx co today j lg' checks d = Inr (r, lg'') \<and> lg_entries lg'' = lg_entries lg'"
    if "r \<noteq> None"
  proof -
    obtain e where e: "es = [e]" "r = Some e" using \<open>r \<noteq> None\<close> es(2,3) by auto
    have "find (\<lambda>e. same_posting (fy_close_source d) e \<and> je_lines e \<noteq> []) (lg_entries lg) = None"
      using assms(3) by (auto simp: find_None_iff same_posting_def posted_sources_def image_iff)
    then have "find (\<lambda>e. same_posting (fy_close_source d) e \<and> je_lines e \<noteq> []) (lg_entries lg') = Some e"
      unfolding es(1) e(1) using es(4) e(1) by (simp add: find_append_none same_posting_def)
    then show ?thesis
      unfolding e(2) by (simp add: close_financial_year_def fy_bounds_for_end_def Let_def close_periods_def)
  qed
  show ?thesis using one two three four by blast
qed

section \<open>Examples\<close>

definition example_types :: "string \<Rightarrow> account_type" where
  "example_types code =
    (if code = ''5700'' then INCOME
     else if starts_with code ''1'' then ASSET else if starts_with code ''2'' then LIABILITY
     else if starts_with code ''3'' then EQUITY else if starts_with code ''4'' then INCOME else EXPENSE)"

lemma balance_from: "bs_from (balance_sheet ty m today state rows as_of cc valuation) = fst (indian_fy_bounds m (opt_arg today as_of))"
  by (simp add: balance_sheet_def Let_def split_beta)

text \<open>A sale of May 2025: the balance sheet of June 2025 holds, the one of May 2026 lacks the 100 of the unclosed year.\<close>

theorem balance_sheet_equation_witness:
  "bs_holds (balance_sheet example_types 4 (Date 2025 6 30) None (ledger_rows sold_ledger) None None None) \<and>
   bs_assets (balance_sheet example_types 4 (Date 2026 5 1) None (ledger_rows sold_ledger) None None None)
     = bs_liabilities (balance_sheet example_types 4 (Date 2026 5 1) None (ledger_rows sold_ledger) None None None)
       + bs_equity (balance_sheet example_types 4 (Date 2026 5 1) None (ledger_rows sold_ledger) None None None)
       + bs_earnings (balance_sheet example_types 4 (Date 2026 5 1) None (ledger_rows sold_ledger) None None None) + 100"
proof -
  have p: "posts_to_ledger example_books" by (simp add: example_books_def posts_to_ledger_def)
  have v: "valid_date (opt_arg (Date 2025 6 30) None)" "valid_date (opt_arg (Date 2026 5 1) None)"
    by (simp_all add: opt_arg_def valid_date_def days_in_month_def)
  have u: "unclosed_profit example_types (bs_from (balance_sheet example_types 4 (Date 2025 6 30) None (ledger_rows sold_ledger)
        None None None)) (ledger_rows sold_ledger) = 0"
    "unclosed_profit example_types (bs_from (balance_sheet example_types 4 (Date 2026 5 1) None (ledger_rows sold_ledger)
        None None None)) (ledger_rows sold_ledger) = 100"
    unfolding balance_from by code_simp+
  show ?thesis
    using balance_sheet_equation [OF sold_reachable p v(1), where ty = example_types and m = 4 and state = None and valuation = None]
      balance_sheet_equation [OF sold_reachable p v(2), where ty = example_types and m = 4 and state = None and valuation = None]
    unfolding Let_def u by blast
qed

definition fine_checks :: close_checks where
  "fine_checks = \<lparr>cc_healthy = True, cc_drafts = False, cc_open_work = False\<rparr>"

lemma sold_year_closes:
  "case close_financial_year example_types 4 (\<lambda>_. False) example_books (Date 2026 4 2) 2 sold_ledger fine_checks (Date 2026 3 31) of
     Inr (r, lg') \<Rightarrow> r \<noteq> None | Inl _ \<Rightarrow> False"
  by code_simp

theorem year_close_clears_witness:
  "\<exists>r lg'. close_financial_year example_types 4 (\<lambda>_. False) example_books (Date 2026 4 2) 2 sold_ledger fine_checks (Date 2026 3 31)
      = Inr (r, lg') \<and> r \<noteq> None \<and>
    account_net (\<lambda>x. x = ''4100'') (filter (in_year (Date 2025 4 1) (Date 2026 3 31)) (ledger_rows lg')) = 0"
proof -
  obtain r lg' where c: "close_financial_year example_types 4 (\<lambda>_. False) example_books (Date 2026 4 2) 2 sold_ledger fine_checks
      (Date 2026 3 31) = Inr (r, lg')" "r \<noteq> None"
    using sold_year_closes by (auto split: sum.splits)
  have p: "posts_to_ledger example_books" by (simp add: example_books_def posts_to_ledger_def)
  have h: "fy_close_source (Date 2026 3 31) \<notin> set (posted_sources (lg_entries sold_ledger))" "valid_date (Date 2026 3 31)"
    "example_types ''3100'' = EQUITY" "example_types ''4100'' \<in> {INCOME, EXPENSE}"
    "fst (fy_bounds_for_end 4 (Date 2026 3 31)) = Date 2025 4 1"
    "filter (\<lambda>x. in_year (Date 2025 4 1) (Date 2026 3 31) x \<and> is_close x) (ledger_rows sold_ledger) = []"
    by code_simp+
  show ?thesis
    using year_close_clears [OF sold_reachable c(1) h(1-3) p h(4)] c h(5,6) by (auto simp: account_net_def)
qed

text \<open>
  A close with an end date inside the year is not refused, and the close at the end of the year does not
  see it: the nine months are moved to retained earnings twice.
\<close>

definition nine_months :: "ledger res" where
  "nine_months = bind_res (close_financial_year example_types 4 (\<lambda>_. False) example_books (Date 2026 1 2) 2 sold_ledger fine_checks
     (Date 2025 12 31)) (\<lambda>(_, lg1). bind_res (close_financial_year example_types 4 (\<lambda>_. False) example_books (Date 2026 4 2) 3 lg1
     fine_checks (Date 2026 3 31)) (\<lambda>(_, lg2). Inr lg2))"

lemma year_closed_twice:
  "case nine_months of Inl _ \<Rightarrow> False
   | Inr lg \<Rightarrow> balances lg ''4100'' = 100 \<and> balances lg ''3100'' = - 200"
  by code_simp

end
