(* ===== verification/Payroll.thy ===== *)
theory Payroll
  imports Sales_Postings
begin

text \<open>
  Payroll (\<open>payroll/services.py\<close>): professional tax, provident fund, state insurance and salary TDS of a pay
  slip.  Slab ladders hold decimals; the pay slips of earlier completed runs, which decide whether state
  insurance continues, are a list of periods.
\<close>

section \<open>Professional tax\<close>

record pt_slab =
  pt_min :: rat
  pt_max :: "rat option"
  pt_amount_of :: rat
  pt_feb :: "rat option"           \<comment> \<open>\<open>feb_amount\<close>\<close>

definition slab :: "rat \<Rightarrow> rat option \<Rightarrow> rat \<Rightarrow> rat option \<Rightarrow> pt_slab" where
  "slab a b x f = \<lparr>pt_min = a, pt_max = b, pt_amount_of = x, pt_feb = f\<rparr>"

definition STATE_PT_SLABS :: "(string \<times> pt_slab list) list" where
  "STATE_PT_SLABS =
    [(''Maharashtra'', [slab 0 (Some 7500) 0 None, slab (750001/100) (Some 10000) 175 None,
        slab (1000001/100) None 200 (Some 300)]),
     (''West Bengal'', [slab 0 (Some 10000) 0 None, slab (1000001/100) (Some 15000) 110 None,
        slab (1500001/100) (Some 25000) 130 None, slab (2500001/100) (Some 40000) 150 None,
        slab (4000001/100) None 200 None]),
     (''Tamil Nadu'', [slab 0 (Some 21000) 0 None, slab (2100001/100) (Some 30000) 135 None,
        slab (3000001/100) (Some 45000) 315 None, slab (4500001/100) (Some 60000) 690 None,
        slab (6000001/100) (Some 75000) 1025 None, slab (7500001/100) None 1250 None]),
     (''Karnataka'', [slab 0 (Some (2499999/100)) 0 None, slab 25000 None 200 None]),
     (''Andhra Pradesh'', [slab 0 (Some 15000) 0 None, slab (1500001/100) (Some 20000) 150 None,
        slab (2000001/100) None 200 None]),
     (''Telangana'', [slab 0 (Some 15000) 0 None, slab (1500001/100) (Some 20000) 150 None,
        slab (2000001/100) None 200 None]),
     (''Gujarat'', [slab 0 (Some 12000) 0 None, slab (1200001/100) None 200 None]),
     (''Kerala'', [slab 0 (Some (199999/100)) 0 None, slab 2000 (Some (299999/100)) 20 None,
        slab 3000 (Some (499999/100)) 30 None, slab 5000 (Some (749999/100)) 50 None,
        slab 7500 (Some (999999/100)) 75 None, slab 10000 (Some (1249999/100)) 100 None,
        slab 12500 (Some (1666699/100)) 125 None, slab 16667 (Some (2083399/100)) 166 None,
        slab 20834 None 208 None]),
     (''Madhya Pradesh'', [slab 0 (Some 18750) 0 None, slab (1875001/100) (Some 25000) 125 None,
        slab (2500001/100) (Some 33333) 167 None, slab (3333301/100) None 208 (Some 212)]),
     (''Bihar'', [slab 0 (Some 25000) 0 None, slab (2500001/100) (Some 41666) (8333/100) None,
        slab (4166601/100) (Some 83333) (16667/100) None, slab (8333301/100) None (20833/100) None]),
     (''Assam'', [slab 0 (Some 10000) 0 None, slab (1000001/100) (Some 15000) 150 None,
        slab (1500001/100) (Some 25000) 180 None, slab (2500001/100) None 208 None]),
     (''Odisha'', [slab 0 (Some 13304) 0 None, slab (1330401/100) (Some 25000) 125 None,
        slab (2500001/100) None 200 (Some 300)]),
     (''Jharkhand'', [slab 0 (Some 25000) 0 None, slab (2500001/100) (Some 41666) 100 None,
        slab (4166601/100) (Some 66666) 150 None, slab (6666601/100) (Some 83333) 175 None,
        slab (8333301/100) None 208 None]),
     (''Punjab'', [slab 0 (Some 20833) 0 None, slab (2083301/100) None 200 None]),
     (''Meghalaya'', [slab 0 (Some 4166) 0 None, slab (416601/100) (Some 6250) (33/2) None,
        slab (625001/100) (Some 8333) 25 None, slab (833301/100) (Some 12500) (83/2) None,
        slab (1250001/100) (Some 16666) (125/2) None, slab (1666601/100) (Some 20833) (8333/100) None,
        slab (2083301/100) (Some 25000) (2604/25) None, slab (2500001/100) (Some 29166) 125 None,
        slab (2916601/100) (Some 33333) 150 None, slab (3333301/100) (Some 37500) 175 None,
        slab (3750001/100) (Some 41666) 200 None, slab (4166601/100) None 208 None]),
     (''Tripura'', [slab 0 (Some 7500) 0 None, slab (750001/100) (Some 15000) 150 None,
        slab (1500001/100) None 208 None]),
     (''Manipur'', [slab 0 (Some 4250) 0 None, slab (425001/100) (Some 6250) 100 None,
        slab (625001/100) (Some 8333) 167 None, slab (833301/100) (Some 10416) 200 None,
        slab (1041601/100) None 208 None]),
     (''Mizoram'', [slab 0 (Some 5000) 0 None, slab (500001/100) (Some 8000) 75 None,
        slab (800001/100) (Some 10000) 120 None, slab (1000001/100) (Some 12000) 150 None,
        slab (1200001/100) (Some 15000) 180 None, slab (1500001/100) None 208 None]),
     (''Sikkim'', [slab 0 (Some 20000) 0 None, slab (2000001/100) (Some 30000) 125 None,
        slab (3000001/100) (Some 40000) 150 None, slab (4000001/100) None 200 None]),
     (''Puducherry'', [slab 0 (Some 16666) 0 None, slab (1666601/100) (Some 33333) (2083/50) None,
        slab (3333301/100) (Some 50000) (8333/100) None, slab (5000001/100) (Some 83333) 125 None,
        slab (8333301/100) None (8333/50) None])]"

text \<open>\<open>validate_pt_slabs\<close>: the ladder sorted by its lower bounds, with a warning for each fault.\<close>

datatype slab_warning = Below_Min rat rat | Open_Inside | Slab_Gap rat rat | Slab_Overlap rat

fun ladder_warnings :: "pt_slab list \<Rightarrow> slab_warning list" where
  "ladder_warnings [] = []"
| "ladder_warnings (s # rest) =
    (case pt_max s of Some hi \<Rightarrow> if hi < pt_min s then [Below_Min (pt_min s) hi] else [] | None \<Rightarrow> [])
    @ (case rest of
         [] \<Rightarrow> []
       | nxt # _ \<Rightarrow> (case pt_max s of
             None \<Rightarrow> [Open_Inside]
           | Some hi \<Rightarrow> if hi + 1/100 < pt_min nxt then [Slab_Gap hi (pt_min nxt)]
               else if pt_min nxt \<le> hi then [Slab_Overlap hi] else []))
    @ ladder_warnings rest"

definition validate_pt_slabs :: "pt_slab list \<Rightarrow> slab_warning list" where
  "validate_pt_slabs slabs = ladder_warnings (sort_key pt_min slabs)"

text \<open>The company's own ladders: none, one for all states, or one per state.\<close>

datatype pt_config = No_Slabs | One_Ladder "pt_slab list" | Per_State "(string \<times> pt_slab list) list"

fun title_from :: "bool \<Rightarrow> string \<Rightarrow> string" where
  "title_from inside [] = []"
| "title_from inside (c # s) =
    (if ch_upper c \<or> ch_lower c then (if inside then to_lower c else to_upper c) # title_from True s
     else c # title_from False s)"

definition py_title :: "string \<Rightarrow> string" where "py_title s = title_from False s"

text \<open>Python's \<open>x or y\<close> on ladders: an empty one counts as missing.\<close>

definition or_ladder :: "pt_slab list option \<Rightarrow> pt_slab list option \<Rightarrow> pt_slab list option" where
  "or_ladder x y = (case x of Some (s # ss) \<Rightarrow> x | _ \<Rightarrow> y)"

definition PT_ALIASES :: "(string \<times> string) list" where
  "PT_ALIASES = [(''KA'', ''Karnataka''), (''ka'', ''Karnataka''), (''Karnataka'', ''KA''), (''karnataka'', ''KA'')]"

definition ladder_of_state :: "(string \<times> pt_slab list) list \<Rightarrow> string \<Rightarrow> pt_slab list option" where
  "ladder_of_state raw key =
    (let get = map_of raw in
     case get key of
       Some ss \<Rightarrow> Some ss
     | None \<Rightarrow>
        if key = [] then None
        else case or_ladder (get (py_title key)) (or_ladder (get (py_upper key)) (get (py_lower key))) of
            Some ss \<Rightarrow> Some ss
          | None \<Rightarrow> (case map_of PT_ALIASES key of None \<Rightarrow> None | Some alias \<Rightarrow> get alias))"

definition state_slabs :: "string \<Rightarrow> pt_slab list" where
  "state_slabs key =
    (case find (\<lambda>(name, _). py_lower (py_strip key) = py_lower name) STATE_PT_SLABS of
       Some (_, slabs) \<Rightarrow> slabs | None \<Rightarrow> [])"

definition resolve_pt_slabs :: "pt_config \<Rightarrow> string \<Rightarrow> string \<Rightarrow> pt_slab list" where
  "resolve_pt_slabs config pt_state company_state =
    (let key = py_strip (if pt_state \<noteq> [] then pt_state else company_state) in
     case config of
       Per_State raw \<Rightarrow> (case ladder_of_state raw key of Some (s # ss) \<Rightarrow> s # ss | _ \<Rightarrow> state_slabs key)
     | One_Ladder (s # ss) \<Rightarrow> s # ss
     | _ \<Rightarrow> state_slabs key)"

fun pt_amount :: "rat \<Rightarrow> pt_slab list \<Rightarrow> int option \<Rightarrow> rat" where
  "pt_amount gross [] month = 0"
| "pt_amount gross (s # rest) month =
    (if q2 (pt_min s) \<le> gross \<and> (case pt_max s of None \<Rightarrow> True | Some m \<Rightarrow> gross \<le> q2 m)
     then (case pt_feb s of
             Some f \<Rightarrow> if month = Some 2 then q2 f else q2 (pt_amount_of s)
           | None \<Rightarrow> q2 (pt_amount_of s))
     else pt_amount gross rest month)"

section \<open>Salary TDS\<close>

definition NEW_REGIME_STD_DEDUCTION :: rat where "NEW_REGIME_STD_DEDUCTION = 75000"

definition NEW_REGIME_87A_INCOME_CAP :: rat where "NEW_REGIME_87A_INCOME_CAP = 1200000"

definition NEW_REGIME_87A_MAX :: rat where "NEW_REGIME_87A_MAX = 60000"

definition NEW_REGIME_SLABS :: "(rat option \<times> rat) list" where
  "NEW_REGIME_SLABS = [(Some 400000, 0), (Some 800000, 5/100), (Some 1200000, 10/100), (Some 1600000, 15/100),
     (Some 2000000, 20/100), (Some 2400000, 25/100), (None, 30/100)]"

text \<open>The slab loop: \<open>lower\<close> is the upper end of the band before, and the loop stops in the band of the income.\<close>

fun band_tax :: "rat \<Rightarrow> rat \<Rightarrow> (rat option \<times> rat) list \<Rightarrow> rat" where
  "band_tax taxable lower [] = 0"
| "band_tax taxable lower ((u, rate) # rest) =
    (let top = (case u of None \<Rightarrow> taxable | Some b \<Rightarrow> min taxable b);
         here = (if lower < top then (top - lower) * rate else 0) in
     here + (case u of
         None \<Rightarrow> band_tax taxable lower rest
       | Some b \<Rightarrow> if taxable \<le> b then 0 else band_tax taxable b rest))"

definition annual_new_regime_tax :: "rat \<Rightarrow> rat" where
  "annual_new_regime_tax annual_income =
    (let taxable = max 0 (q2 annual_income - NEW_REGIME_STD_DEDUCTION);
         slabs = band_tax taxable 0 NEW_REGIME_SLABS;
         tax = (if taxable \<le> NEW_REGIME_87A_INCOME_CAP then max 0 (slabs - min slabs NEW_REGIME_87A_MAX)
                else min slabs (taxable - NEW_REGIME_87A_INCOME_CAP))
     in q2 (tax * (1 + 4/100)))"

section \<open>State insurance periods\<close>

text \<open>Pay periods are year and month.\<close>

type_synonym pay_period = "int \<times> int"

definition esi_period_months :: "pay_period \<Rightarrow> pay_period list" where
  "esi_period_months p =
    (let (y, m) = p in
     if 4 \<le> m \<and> m \<le> 9 then map (Pair y) [4..9]
     else if 10 \<le> m then map (Pair y) [10..12] @ map (Pair (y + 1)) [1..3]
     else map (Pair (y - 1)) [10..12] @ map (Pair y) [1..3])"

definition before_period :: "pay_period \<Rightarrow> pay_period \<Rightarrow> bool" where
  "before_period a b = (fst a < fst b \<or> (fst a = fst b \<and> snd a < snd b))"

text \<open>\<open>covered\<close>: the periods of completed runs in which the employee paid state insurance.\<close>

definition esi_continues_this_period :: "pay_period list \<Rightarrow> pay_period \<Rightarrow> bool" where
  "esi_continues_this_period covered p =
    list_ex (\<lambda>s. before_period s p \<and> s \<in> set covered) (esi_period_months p)"

section \<open>A pay slip\<close>

record employee =
  em_id :: int
  em_salary :: rat
  em_basic :: rat
  em_da :: rat
  em_active :: bool
  em_pf :: bool
  em_pf_ceiling :: rat
  em_esi :: bool
  em_pt_state :: string
  em_tds_rate :: rat
  em_regime :: string
  em_covered :: "pay_period list"

record pay_company =
  py_gl :: gl_company
  py_slabs :: pt_config
  py_state :: string
  py_esi_ceiling :: "rat option"

record statutory =
  st_gross :: rat
  st_pf_employee :: rat
  st_eps :: rat
  st_epf :: rat
  st_pf_admin :: rat
  st_edli :: rat
  st_esi_employee :: rat
  st_esi_employer :: rat
  st_pt :: rat
  st_tds :: rat
  st_deductions :: rat
  st_net :: rat

text \<open>\<open>pf_employer\<close> is always the sum of its two parts.\<close>

definition st_pf_employer :: "statutory \<Rightarrow> rat" where "st_pf_employer s = q2 (st_eps s + st_epf s)"

definition proration :: "rat option \<Rightarrow> rat \<Rightarrow> rat" where
  "proration paid_days period_days =
    (case paid_days of
       None \<Rightarrow> 1
     | Some days \<Rightarrow> if period_days \<noteq> 0 \<and> 0 < period_days \<and> days < period_days then ddiv days period_days else 1)"

definition no_pay :: statutory where
  "no_pay = \<lparr>st_gross = 0, st_pf_employee = 0, st_eps = 0, st_epf = 0, st_pf_admin = 0, st_edli = 0,
     st_esi_employee = 0, st_esi_employer = 0, st_pt = 0, st_tds = 0, st_deductions = 0, st_net = 0\<rparr>"

text \<open>Employee share, pension, employer's remainder, administration and insurance of the provident fund.\<close>

definition pf_parts :: "employee \<Rightarrow> rat \<Rightarrow> rat \<Rightarrow> rat \<times> rat \<times> rat \<times> rat \<times> rat" where
  "pf_parts e gross_amt prorate =
    (if \<not> em_pf e then (0, 0, 0, 0, 0)
     else
       let ceiling = q2 (if em_pf_ceiling e = 0 then 15000 else em_pf_ceiling e);
           basic_da0 = q2 (em_basic e) + q2 (em_da e);
           basic_da = (if 0 < basic_da0 then q2 (dmul basic_da0 prorate) else basic_da0);
           pf_wage = (if 0 < basic_da then basic_da else gross_amt);
           wage_base = min pf_wage ceiling; eps_base = min pf_wage 15000;
           eps = q2 (min (eps_base * (833/10000)) 1250);
           epf0 = q2 (wage_base * (12/100)) - eps
       in (q2 (wage_base * (12/100)), eps, (if epf0 < 0 then 0 else epf0), q2 (wage_base * (5/1000)),
           q2 (min (eps_base * (5/1000)) 75)))"

definition esi_parts :: "pay_company \<Rightarrow> employee \<Rightarrow> rat \<Rightarrow> rat \<Rightarrow> pay_period option \<Rightarrow> rat \<times> rat" where
  "esi_parts co e gross_full gross_amt period =
    (if \<not> em_esi e then (0, 0)
     else
       let ceiling = q2 (case py_esi_ceiling co of Some c \<Rightarrow> if c = 0 then 21000 else c | None \<Rightarrow> 21000);
           covered = (gross_full \<le> ceiling \<or>
             (case period of None \<Rightarrow> False | Some p \<Rightarrow> esi_continues_this_period (em_covered e) p))
       in if covered then (q2 (gross_amt * (75/10000)), q2 (gross_amt * (325/10000))) else (0, 0))"

definition salary_tds :: "employee \<Rightarrow> rat \<Rightarrow> rat \<Rightarrow> rat" where
  "salary_tds e gross_full gross_amt =
    (let rate = q2 (em_tds_rate e) in
     if rate \<noteq> 0 then q2 (gross_amt * rate / 100)
     else if py_upper (if em_regime e = [] then ''NEW'' else em_regime e) = ''NEW''
     then q2 (ddiv (annual_new_regime_tax (q2 (gross_full * 12))) 12)
     else 0)"

definition compute_statutory ::
  "pay_company \<Rightarrow> employee \<Rightarrow> rat option \<Rightarrow> int option \<Rightarrow> rat option \<Rightarrow> rat \<Rightarrow> pay_period option \<Rightarrow> statutory" where
  "compute_statutory co e gross month paid_days period_days period =
    (let gross_full = q2 (case gross of Some g \<Rightarrow> g | None \<Rightarrow> em_salary e);
         prorate = proration paid_days period_days;
         gross_amt = q2 (dmul gross_full prorate) in
     if gross_amt \<le> 0 then no_pay
     else
       let (pf, eps, epf, admin, edli) = pf_parts e gross_amt prorate;
           (esi, esi_er) = esi_parts co e gross_full gross_amt period;
           pt = pt_amount gross_full (resolve_pt_slabs (py_slabs co) (em_pt_state e) (py_state co)) month;
           tds0 = salary_tds e gross_full gross_amt;
           non_tds = q2 (pf + esi + pt);
           tds = (if 0 < tds0 \<and> gross_amt < non_tds + tds0 then max 0 (q2 (gross_amt - non_tds)) else tds0);
           deductions = q2 (pf + esi + pt + tds)
       in \<lparr>st_gross = gross_amt, st_pf_employee = pf, st_eps = eps, st_epf = epf, st_pf_admin = admin,
           st_edli = edli, st_esi_employee = esi, st_esi_employer = esi_er, st_pt = pt, st_tds = tds,
           st_deductions = deductions, st_net = max 0 (q2 (gross_amt - deductions))\<rparr>)"

section \<open>The annual tax\<close>

lemma band_tax_nonneg: "list_all (\<lambda>(_, r). 0 \<le> r) slabs \<Longrightarrow> 0 \<le> band_tax x lo slabs"
  by (induction x lo slabs rule: band_tax.induct) (auto simp: Let_def split: option.splits)

lemma band_tax_mono: "list_all (\<lambda>(_, r). 0 \<le> r) slabs \<Longrightarrow> x \<le> y \<Longrightarrow> band_tax x lo slabs \<le> band_tax y lo slabs"
proof (induction slabs arbitrary: lo)
  case Nil
  then show ?case by simp
next
  case (Cons s rest)
  obtain u r where s: "s = (u, r)" by (cases s)
  have r: "0 \<le> r" and rest: "list_all (\<lambda>(_, r). 0 \<le> r) rest" using Cons.prems(1) s by auto
  have here: "(if lo < t then (t - lo) * r else 0) \<le> (if lo < t' then (t' - lo) * r else 0)" if "t \<le> t'" for t t'
    using that r by (auto intro: mult_right_mono)
  show ?case
  proof (cases u)
    case None
    then show ?thesis using here [OF Cons.prems(2)] Cons.IH [OF rest Cons.prems(2), of lo] by (simp add: s)
  next
    case (Some b)
    have "min x b \<le> min y b" using Cons.prems(2) by simp
    from here [OF this] Cons.IH [OF rest Cons.prems(2), of b] band_tax_nonneg [OF rest, of y b]
    show ?thesis using Cons.prems(2) by (auto simp: s Some Let_def)
  qed
qed

definition tax_before_cess :: "rat \<Rightarrow> rat" where
  "tax_before_cess taxable =
    (let slabs = band_tax taxable 0 NEW_REGIME_SLABS in
     if taxable \<le> NEW_REGIME_87A_INCOME_CAP then max 0 (slabs - min slabs NEW_REGIME_87A_MAX)
     else min slabs (taxable - NEW_REGIME_87A_INCOME_CAP))"

lemma annual_tax_unfold:
  "annual_new_regime_tax a = q2 (tax_before_cess (max 0 (q2 a - NEW_REGIME_STD_DEDUCTION)) * (1 + 4/100))"
  by (simp add: annual_new_regime_tax_def tax_before_cess_def Let_def)

lemma new_regime_rates: "list_all (\<lambda>(_, r). 0 \<le> r) NEW_REGIME_SLABS"
  by (simp add: NEW_REGIME_SLABS_def)

lemma slabs_at_cap: "band_tax 1200000 0 NEW_REGIME_SLABS = 60000"
  by (simp add: NEW_REGIME_SLABS_def Let_def min_def)

lemma tax_below_cap: "t \<le> 1200000 \<Longrightarrow> tax_before_cess t = 0"
  using band_tax_mono [OF new_regime_rates, of t 1200000 0] slabs_at_cap
  by (simp add: tax_before_cess_def Let_def NEW_REGIME_87A_INCOME_CAP_def NEW_REGIME_87A_MAX_def)

lemma tax_above_cap:
  assumes "1200000 < t"
  shows "min 60000 (t - 1200000) \<le> tax_before_cess t" and "tax_before_cess t \<le> t - 1200000"
  using assms band_tax_mono [OF new_regime_rates, of 1200000 t 0] slabs_at_cap
  by (simp_all add: tax_before_cess_def Let_def NEW_REGIME_87A_INCOME_CAP_def min_def)

lemma tax_before_cess_nonneg: "0 \<le> tax_before_cess t"
  using tax_below_cap [of t] tax_above_cap(1) [of t] by (cases "t \<le> 1200000") auto

lemma tax_before_cess_mono:
  assumes "s \<le> t"
  shows "tax_before_cess s \<le> tax_before_cess t"
proof (cases "s \<le> 1200000")
  case True
  then show ?thesis using tax_below_cap tax_before_cess_nonneg by simp
next
  case False
  then show ?thesis
    using assms band_tax_mono [OF new_regime_rates assms, of 0]
    by (simp add: tax_before_cess_def Let_def NEW_REGIME_87A_INCOME_CAP_def min_def)
qed

text \<open>
  C38. The projected annual tax never falls when income rises, is zero exactly up to an income of 12,75,000 (the rebate
  limit plus the standard deduction), and just above it takes at most the excess over the limit plus cess.
\<close>

theorem annual_tax_profile:
  "mono annual_new_regime_tax \<and> (annual_new_regime_tax a = 0 \<longleftrightarrow> q2 a \<le> 1275000) \<and>
   annual_new_regime_tax a \<le> q2 (max 0 (q2 a - 1275000) * (104/100))"
proof (intro conjI)
  let ?t = "max 0 (q2 a - NEW_REGIME_STD_DEDUCTION)"
  show "mono annual_new_regime_tax"
  proof (rule monoI)
    fix x y :: rat
    assume "x \<le> y"
    then have "max 0 (q2 x - NEW_REGIME_STD_DEDUCTION) \<le> max 0 (q2 y - NEW_REGIME_STD_DEDUCTION)"
      using paisa.mono_q [of x y] by (simp add: max_def)
    from tax_before_cess_mono [OF this]
    show "annual_new_regime_tax x \<le> annual_new_regime_tax y"
      unfolding annual_tax_unfold by (intro paisa.mono_q mult_right_mono) auto
  qed
  show "annual_new_regime_tax a = 0 \<longleftrightarrow> q2 a \<le> 1275000"
  proof
    assume "q2 a \<le> 1275000"
    then show "annual_new_regime_tax a = 0"
      unfolding annual_tax_unfold by (simp add: tax_below_cap NEW_REGIME_STD_DEDUCTION_def)
  next
    assume z: "annual_new_regime_tax a = 0"
    show "q2 a \<le> 1275000"
    proof (rule ccontr)
      assume "\<not> q2 a \<le> 1275000"
      moreover obtain k where k: "q2 a = of_int k * (1/100)" using paisa.on_grid by blast
      ultimately have "127500000 < k" by simp
      then have "1275000 + 1/100 \<le> q2 a" using k by simp
      then have t: "1200000 + 1/100 \<le> ?t" by (simp add: NEW_REGIME_STD_DEDUCTION_def)
      then have "1/100 \<le> min 60000 (?t - 1200000)" and "1200000 < ?t" by linarith+
      then have "1/100 \<le> tax_before_cess ?t" using tax_above_cap(1) [of ?t] by linarith
      then have "of_int 1 * (1/100) \<le> tax_before_cess ?t * (1 + 4/100)" by simp
      from paisa.ge_grid [OF this] show False using z by (simp add: annual_tax_unfold)
    qed
  qed
  have "tax_before_cess ?t \<le> max 0 (q2 a - 1275000)"
    using tax_below_cap [of ?t] tax_above_cap(2) [of ?t]
    by (cases "?t \<le> 1200000") (auto simp: NEW_REGIME_STD_DEDUCTION_def)
  then show "annual_new_regime_tax a \<le> q2 (max 0 (q2 a - 1275000) * (104/100))"
    unfolding annual_tax_unfold by (intro paisa.mono_q) simp
qed

section \<open>What a pay slip holds\<close>

definition slab_ok :: "pt_slab \<Rightarrow> bool" where
  "slab_ok s = (0 \<le> pt_amount_of s \<and> (case pt_feb s of None \<Rightarrow> True | Some f \<Rightarrow> 0 \<le> f))"

definition config_ok :: "pt_config \<Rightarrow> bool" where
  "config_ok c = (case c of No_Slabs \<Rightarrow> True | One_Ladder ss \<Rightarrow> list_all slab_ok ss
     | Per_State raw \<Rightarrow> list_all (\<lambda>(_, ss). list_all slab_ok ss) raw)"

definition employee_ok :: "employee \<Rightarrow> bool" where
  "employee_ok e = (0 \<le> em_pf_ceiling e \<and> 0 \<le> em_tds_rate e)"

lemma state_table_ok: "list_all (\<lambda>(_, ss). list_all slab_ok ss) STATE_PT_SLABS"
  by (simp add: STATE_PT_SLABS_def slab_def slab_ok_def)

lemma ladder_of_state_mem: "ladder_of_state raw key = Some ss \<Longrightarrow> \<exists>k. (k, ss) \<in> set raw"
  by (auto simp: ladder_of_state_def or_ladder_def Let_def split: option.splits if_splits list.splits dest!: map_of_SomeD)

lemma find_mem: "find P xs = Some x \<Longrightarrow> x \<in> set xs \<and> P x"
  by (auto simp: find_Some_iff)

lemma resolved_slabs_ok:
  assumes "config_ok config"
  shows "list_all slab_ok (resolve_pt_slabs config pt_state company_state)"
proof -
  have state: "list_all slab_ok (state_slabs key)" for key
    using state_table_ok
    by (auto simp: state_slabs_def list_all_iff split: option.splits dest!: find_mem [OF sym])
  show ?thesis
  proof (cases config)
    case (Per_State raw)
    let ?k = "py_strip (if pt_state \<noteq> [] then pt_state else company_state)"
    have "list_all slab_ok ss" if "ladder_of_state raw ?k = Some ss" for ss
      using ladder_of_state_mem [OF that] assms Per_State by (auto simp: config_ok_def list_all_iff)
    then show ?thesis
      using state by (auto simp: resolve_pt_slabs_def Let_def Per_State split: option.splits list.splits)
  qed (use assms state in \<open>auto simp: resolve_pt_slabs_def Let_def config_ok_def split: list.splits\<close>)
qed

lemma pt_amount_paise: "list_all slab_ok slabs \<Longrightarrow> nonneg_paise (pt_amount g slabs month)"
  by (induction g slabs month rule: pt_amount.induct)
    (auto simp: slab_ok_def nonneg_paise_def paisa.nonneg split: option.splits)

lemma q2_paise: "0 \<le> x \<Longrightarrow> nonneg_paise (q2 x)"
  by (simp add: nonneg_paise_def paisa.nonneg)

lemma pf_parts_cases:
  assumes "pf_parts e gross prorate = (pf, eps, epf, admin, edli)" and "0 \<le> gross"
  obtains "pf = 0" "eps = 0" "epf = 0" "admin = 0" "edli = 0"
  | w v where "0 \<le> em_pf_ceiling e \<Longrightarrow> 0 \<le> w" "0 \<le> v" "pf = q2 (w * (12/100))" "eps = q2 (min (v * (833/10000)) 1250)"
      "epf = max 0 (q2 (w * (12/100)) - eps)" "admin = q2 (w * (5/1000))" "edli = q2 (min (v * (5/1000)) 75)"
proof (cases "em_pf e")
  case False
  then show thesis using assms(1) that(1) by (simp add: pf_parts_def)
next
  case True
  define c where "c = q2 (if em_pf_ceiling e = 0 then 15000 else em_pf_ceiling e)"
  define b0 where "b0 = q2 (em_basic e) + q2 (em_da e)"
  define b where "b = (if 0 < b0 then q2 (dmul b0 prorate) else b0)"
  define x where "x = (if 0 < b then b else gross)"
  have "0 \<le> c" if "0 \<le> em_pf_ceiling e" unfolding c_def using that by (intro paisa.nonneg) simp
  moreover have "0 \<le> x" using assms(2) by (simp add: x_def)
  moreover have "pf_parts e gross prorate =
      (q2 (min x c * (12/100)), q2 (min (min x 15000 * (833/10000)) 1250),
       max 0 (q2 (min x c * (12/100)) - q2 (min (min x 15000 * (833/10000)) 1250)),
       q2 (min x c * (5/1000)), q2 (min (min x 15000 * (5/1000)) 75))"
    using True unfolding pf_parts_def Let_def c_def [symmetric] b0_def [symmetric] b_def [symmetric] x_def [symmetric]
    by (simp add: max_def)
  ultimately show thesis using assms(1) that(2) [of "min x c" "min x 15000"] by simp
qed

lemma pf_parts_ok:
  assumes "pf_parts e gross prorate = (pf, eps, epf, admin, edli)" and "0 \<le> gross"
  shows "list_all (\<lambda>x. q2 x = x) [pf, eps, epf, admin, edli]" "list_all (\<lambda>x. 0 \<le> x) [eps, epf, edli]"
    "eps \<le> 1250" "edli \<le> 75" "pf \<le> eps + epf" "0 \<le> em_pf_ceiling e \<Longrightarrow> 0 \<le> pf \<and> 0 \<le> admin"
proof -
  have k: "q2 1250 = 1250" "q2 75 = 75" by (simp_all add: q_eval)
  have "list_all (\<lambda>x. q2 x = x) [pf, eps, epf, admin, edli] \<and> list_all (\<lambda>x. 0 \<le> x) [eps, epf, edli] \<and>
      eps \<le> 1250 \<and> edli \<le> 75 \<and> pf \<le> eps + epf \<and> (0 \<le> em_pf_ceiling e \<longrightarrow> 0 \<le> pf \<and> 0 \<le> admin)"
    using assms
  proof (cases rule: pf_parts_cases)
    case 1
    then show ?thesis by simp
  next
    case (2 w v)
    have "eps \<le> 1250" "edli \<le> 75" unfolding 2 by (intro paisa.le_fixed k; simp)+
    moreover have "0 \<le> eps" "0 \<le> edli" unfolding 2(4,7) using 2(2) by (intro paisa.nonneg; simp)+
    moreover have "0 \<le> pf \<and> 0 \<le> admin" if "0 \<le> em_pf_ceiling e"
      unfolding 2(3,6) using 2(1) [OF that] by (simp add: paisa.nonneg)
    moreover have "q2 epf = epf" unfolding 2(4,5) by (simp add: paisa.fixed_max paisa.fixed_diff)
    moreover have "pf \<le> eps + epf" unfolding 2(3,5) by linarith
    moreover have "0 \<le> epf" by (simp add: 2(5))
    ultimately show ?thesis using 2(3,4,6,7) by simp
  qed
  then show "list_all (\<lambda>x. q2 x = x) [pf, eps, epf, admin, edli]" "list_all (\<lambda>x. 0 \<le> x) [eps, epf, edli]"
    "eps \<le> 1250" "edli \<le> 75" "pf \<le> eps + epf" "0 \<le> em_pf_ceiling e \<Longrightarrow> 0 \<le> pf \<and> 0 \<le> admin"
    by blast+
qed

lemma esi_parts_ok:
  assumes "esi_parts co e full gross period = (a, b)" and "0 \<le> gross"
  shows "nonneg_paise a" "nonneg_paise b"
  using assms by (auto simp: esi_parts_def Let_def split: if_splits intro!: q2_paise) (simp_all add: nonneg_paise_def)

lemma annual_tax_nonneg: "0 \<le> annual_new_regime_tax a"
  unfolding annual_tax_unfold using tax_before_cess_nonneg by (intro paisa.nonneg mult_nonneg_nonneg) auto

lemma salary_tds_paise: "q2 (salary_tds e full gross) = salary_tds e full gross"
  by (simp add: salary_tds_def Let_def)

lemma pt_amount_grid: "q2 (pt_amount g slabs month) = pt_amount g slabs month"
  by (induction g slabs month rule: pt_amount.induct) (auto split: option.splits)

lemma salary_tds_ok:
  assumes "0 \<le> em_tds_rate e" and "0 \<le> gross"
  shows "nonneg_paise (salary_tds e full gross)"
proof -
  have "0 \<le> q2 (em_tds_rate e)" using assms(1) by (simp add: paisa.nonneg)
  then show ?thesis
    using assms(2) annual_tax_nonneg
    by (auto simp: salary_tds_def Let_def intro!: q2_paise ddiv_nonneg) (simp_all add: nonneg_paise_def)
qed

text \<open>
  What holds of every slip, whatever the employee record and the slabs of the company hold: neither the
  model of the employee nor the serializers refuse a negative tax rate or wage ceiling, and the company's
  own slabs are not checked at all.
\<close>

lemma statutory_amounts:
  "let s = compute_statutory co e gross month paid_days period_days period in
    list_all (\<lambda>x. q2 x = x) [st_gross s, st_pf_employee s, st_eps s, st_epf s, st_pf_admin s, st_edli s,
      st_esi_employee s, st_esi_employer s, st_pt s, st_tds s, st_deductions s, st_net s] \<and>
    list_all (\<lambda>x. 0 \<le> x) [st_gross s, st_eps s, st_epf s, st_edli s, st_esi_employee s, st_esi_employer s, st_net s] \<and>
    (0 \<le> em_pf_ceiling e \<longrightarrow> 0 \<le> st_pf_employee s \<and> 0 \<le> st_pf_admin s) \<and>
    (config_ok (py_slabs co) \<longrightarrow> 0 \<le> st_pt s) \<and> (0 \<le> em_tds_rate e \<longrightarrow> 0 \<le> st_tds s) \<and>
    st_eps s \<le> 1250 \<and> st_edli s \<le> 75 \<and> st_pf_employee s \<le> st_pf_employer s \<and>
    st_deductions s = st_pf_employee s + st_esi_employee s + st_pt s + st_tds s \<and>
    (0 \<le> em_tds_rate e \<longrightarrow> st_gross s < st_pf_employee s + st_esi_employee s + st_pt s \<longrightarrow> st_tds s = 0) \<and>
    st_net s = (if st_pf_employee s + st_esi_employee s + st_pt s \<le> st_gross s then st_gross s - st_deductions s
      else max 0 (st_gross s - st_deductions s))"
proof -
  define s where "s = compute_statutory co e gross month paid_days period_days period"
  define full where "full = q2 (case gross of Some g \<Rightarrow> g | None \<Rightarrow> em_salary e)"
  define prorate where "prorate = proration paid_days period_days"
  define amt where "amt = q2 (dmul full prorate)"
  obtain pf eps epf admin edli where pf: "pf_parts e amt prorate = (pf, eps, epf, admin, edli)"
    by (cases "pf_parts e amt prorate") auto
  obtain esi er where esi: "esi_parts co e full amt period = (esi, er)" by (cases "esi_parts co e full amt period") auto
  define pt where "pt = pt_amount full (resolve_pt_slabs (py_slabs co) (em_pt_state e) (py_state co)) month"
  define tds0 where "tds0 = salary_tds e full amt"
  define non_tds where "non_tds = q2 (pf + esi + pt)"
  define tds where "tds = (if 0 < tds0 \<and> amt < non_tds + tds0 then max 0 (q2 (amt - non_tds)) else tds0)"
  have "list_all (\<lambda>x. q2 x = x) [st_gross s, st_pf_employee s, st_eps s, st_epf s, st_pf_admin s, st_edli s,
      st_esi_employee s, st_esi_employer s, st_pt s, st_tds s, st_deductions s, st_net s] \<and>
    list_all (\<lambda>x. 0 \<le> x) [st_gross s, st_eps s, st_epf s, st_edli s, st_esi_employee s, st_esi_employer s, st_net s] \<and>
    (0 \<le> em_pf_ceiling e \<longrightarrow> 0 \<le> st_pf_employee s \<and> 0 \<le> st_pf_admin s) \<and>
    (config_ok (py_slabs co) \<longrightarrow> 0 \<le> st_pt s) \<and> (0 \<le> em_tds_rate e \<longrightarrow> 0 \<le> st_tds s) \<and>
    st_eps s \<le> 1250 \<and> st_edli s \<le> 75 \<and> st_pf_employee s \<le> st_pf_employer s \<and>
    st_deductions s = st_pf_employee s + st_esi_employee s + st_pt s + st_tds s \<and>
    (0 \<le> em_tds_rate e \<longrightarrow> st_gross s < st_pf_employee s + st_esi_employee s + st_pt s \<longrightarrow> st_tds s = 0) \<and>
    st_net s = (if st_pf_employee s + st_esi_employee s + st_pt s \<le> st_gross s then st_gross s - st_deductions s
      else max 0 (st_gross s - st_deductions s))"
  proof (cases "amt \<le> 0")
    case True
    then have "s = no_pay"
      by (simp add: s_def compute_statutory_def Let_def full_def prorate_def amt_def)
    then show ?thesis by (simp add: no_pay_def st_pf_employer_def)
  next
    case False
    then have a: "0 \<le> amt" by simp
    have s: "s = \<lparr>st_gross = amt, st_pf_employee = pf, st_eps = eps, st_epf = epf, st_pf_admin = admin,
           st_edli = edli, st_esi_employee = esi, st_esi_employer = er, st_pt = pt, st_tds = tds,
           st_deductions = q2 (pf + esi + pt + tds), st_net = max 0 (q2 (amt - q2 (pf + esi + pt + tds)))\<rparr>"
      using False pf esi unfolding s_def compute_statutory_def Let_def full_def [symmetric] prorate_def [symmetric]
        amt_def [symmetric] pt_def [symmetric] tds0_def [symmetric]
      by (simp add: non_tds_def tds_def)
    note p = pf_parts_ok [OF pf a] and i = esi_parts_ok [OF esi a, unfolded nonneg_paise_def]
    have fix_t: "q2 pt = pt" "q2 tds0 = tds0" by (simp_all add: pt_def tds0_def pt_amount_grid salary_tds_paise)
    have t: "0 \<le> pt" if "config_ok (py_slabs co)"
      using pt_amount_paise [OF resolved_slabs_ok [OF that]] by (simp add: pt_def nonneg_paise_def)
    have t0: "0 \<le> tds0" if "0 \<le> em_tds_rate e"
      using salary_tds_ok [OF that a] by (simp add: tds0_def nonneg_paise_def)
    have fix_a: "q2 amt = amt" by (simp add: amt_def)
    have n: "non_tds = pf + esi + pt" "q2 non_tds = non_tds"
      using p(1) i fix_t(1) by (simp_all add: non_tds_def paisa.fixed_add)
    have tds: "q2 tds = tds" "0 \<le> em_tds_rate e \<Longrightarrow> 0 \<le> tds"
      unfolding tds_def using t0 fix_a fix_t(2) n(2) by (auto simp: paisa.fixed_max paisa.fixed_diff)
    have d: "q2 (pf + esi + pt + tds) = pf + esi + pt + tds"
      using p(1) i fix_t(1) tds(1) by (simp add: paisa.fixed_add)
    have fits: "pf + esi + pt + tds \<le> amt" if "pf + esi + pt \<le> amt"
      using that n fix_a by (auto simp: tds_def paisa.fixed_diff)
    let ?d = "pf + esi + pt + tds"
    have er: "q2 (eps + epf) = eps + epf" using p(1) by (simp add: paisa.fixed_add)
    have net: "max 0 (q2 (amt - ?d)) = (if pf + esi + pt \<le> amt then amt - ?d else max 0 (amt - ?d))"
      using fits paisa.fixed_diff [OF fix_a d] by simp
    have over: "tds = 0" if "0 \<le> em_tds_rate e" "amt < pf + esi + pt"
      using that(2) n t0 [OF that(1)] paisa.nonpos [of "amt - (pf + esi + pt)"] by (auto simp: tds_def)
    have fix_d: "q2 ?d = ?d" "q2 (max 0 (q2 (amt - ?d))) = max 0 (q2 (amt - ?d))"
      using d by (simp_all add: paisa.fixed_max)
    show ?thesis
      unfolding s st_pf_employer_def statutory.select_convs d er
      using p i t tds over a fix_a fix_t(1) fix_d net by simp
  qed
  then show ?thesis unfolding s_def Let_def .
qed

lemma statutory_facts:
  assumes "employee_ok e" and "config_ok (py_slabs co)"
  shows "let s = compute_statutory co e gross month paid_days period_days period in
    list_all nonneg_paise [st_gross s, st_pf_employee s, st_eps s, st_epf s, st_pf_admin s, st_edli s,
      st_esi_employee s, st_esi_employer s, st_pt s, st_tds s, st_deductions s, st_net s] \<and>
    st_eps s \<le> 1250 \<and> st_edli s \<le> 75 \<and> st_pf_employee s \<le> st_pf_employer s \<and>
    st_deductions s = st_pf_employee s + st_esi_employee s + st_pt s + st_tds s \<and>
    (st_gross s < st_pf_employee s + st_esi_employee s + st_pt s \<longrightarrow> st_tds s = 0) \<and>
    (st_pf_employee s + st_esi_employee s + st_pt s \<le> st_gross s \<longrightarrow> st_net s = st_gross s - st_deductions s)"
  using statutory_amounts [of co e gross month paid_days period_days period] assms
  by (auto simp: Let_def nonneg_paise_def employee_ok_def)

text \<open>
  C31. The amounts of a pay slip.  Every amount is a whole number of paise.  The gross, the employer's pension,
  provident fund and insurance, both shares of state insurance and the net pay are never negative; nor are the
  employee's provident fund and its administration if the wage ceiling of the employee is not, the
  professional tax if no amount of the company's own slabs is, and the tax deducted if the rate of the
  employee is not (nothing in the code refuses a negative one: see the next lemma).  Pension is at most 1,250
  and insurance 75, the employer never contributes less to the provident fund than the employee, the
  deductions are the sum of the employee's four, and the net pay is the gross less the deductions, cut at
  0 only where provident fund, state insurance and professional tax alone exceed the month's pay.
\<close>

theorem slip_amounts:
  "let s = compute_statutory co e gross month paid_days period_days period in
    list_all (\<lambda>x. q2 x = x) [st_gross s, st_pf_employee s, st_eps s, st_epf s, st_pf_admin s, st_edli s,
      st_esi_employee s, st_esi_employer s, st_pt s, st_tds s, st_deductions s, st_net s] \<and>
    list_all (\<lambda>x. 0 \<le> x) [st_gross s, st_eps s, st_epf s, st_edli s, st_esi_employee s, st_esi_employer s, st_net s] \<and>
    (0 \<le> em_pf_ceiling e \<longrightarrow> 0 \<le> st_pf_employee s \<and> 0 \<le> st_pf_admin s) \<and>
    (config_ok (py_slabs co) \<longrightarrow> 0 \<le> st_pt s) \<and> (0 \<le> em_tds_rate e \<longrightarrow> 0 \<le> st_tds s) \<and>
    st_eps s \<le> 1250 \<and> st_edli s \<le> 75 \<and> st_pf_employee s \<le> st_pf_employer s \<and>
    st_deductions s = st_pf_employee s + st_esi_employee s + st_pt s + st_tds s \<and>
    st_net s = (if st_pf_employee s + st_esi_employee s + st_pt s \<le> st_gross s then st_gross s - st_deductions s
      else max 0 (st_gross s - st_deductions s))"
  using statutory_amounts unfolding Let_def by blast

section \<open>Worked examples\<close>

definition sample_pay_company :: pay_company where
  "sample_pay_company = \<lparr>py_gl = example_books, py_slabs = No_Slabs, py_state = ''Maharashtra'', py_esi_ceiling = None\<rparr>"

definition sample_employee :: employee where
  "sample_employee = \<lparr>em_id = 1, em_salary = 20000, em_basic = 0, em_da = 0, em_active = True, em_pf = True,
     em_pf_ceiling = 15000, em_esi = True, em_pt_state = [], em_tds_rate = 0, em_regime = ''NEW'', em_covered = []\<rparr>"

lemma ctx28_20000: "ctx28 20000 = 20000"
  by (rule ctx28_paise) (simp_all add: q_eval)

lemma maharashtra_slabs:
  "resolve_pt_slabs No_Slabs [] ''Maharashtra'' = [slab 0 (Some 7500) 0 None, slab (750001/100) (Some 10000) 175 None,
     slab (1000001/100) None 200 (Some 300)]"
  by code_simp

definition sample_stat :: statutory where
  "sample_stat = \<lparr>st_gross = 20000, st_pf_employee = 1800, st_eps = 2499/2, st_epf = 1101/2, st_pf_admin = 75, st_edli = 75,
     st_esi_employee = 150, st_esi_employer = 650, st_pt = 200, st_tds = 0, st_deductions = 2150, st_net = 17850\<rparr>"

lemma sample_statutory:
  "compute_statutory sample_pay_company sample_employee (Some 20000) (Some 5) None 31 (Some (2025, 5)) = sample_stat"
proof -
  have t: "salary_tds sample_employee 20000 20000 = 0"
    by (simp add: salary_tds_def sample_employee_def annual_tax_unfold tax_below_cap NEW_REGIME_STD_DEDUCTION_def q_eval
        ddiv_def py_upper_def to_upper_def ch_lower_def ch_code_def)
  have pf: "pf_parts sample_employee 20000 1 = (1800, 2499/2, 1101/2, 75, 75)"
    by (simp add: pf_parts_def sample_employee_def q_eval)
  have esi: "esi_parts sample_pay_company sample_employee 20000 20000 (Some (2025, 5)) = (150, 650)"
    by (simp add: esi_parts_def sample_pay_company_def sample_employee_def q_eval)
  have pt: "pt_amount 20000 (resolve_pt_slabs (py_slabs sample_pay_company) (em_pt_state sample_employee)
      (py_state sample_pay_company)) (Some 5) = 200"
    by (simp add: sample_pay_company_def sample_employee_def maharashtra_slabs slab_def q_eval)
  have q: "q2 20000 = 20000" "q2 2150 = 2150" "q2 17850 = 17850" by (simp_all add: q_eval)
  show ?thesis
    by (simp add: compute_statutory_def Let_def proration_def dmul_def ctx28_20000 q t pf esi pt sample_stat_def)
qed

theorem slip_amounts_witness:
  "let s = compute_statutory sample_pay_company sample_employee (Some 20000) (Some 5) None 31 (Some (2025, 5)) in
    0 \<le> st_pf_employee s \<and> 0 \<le> st_pt s \<and> 0 \<le> st_tds s \<and>
    st_net s = st_gross s - st_deductions s \<and> st_net s = 17850"
  using slip_amounts [of sample_pay_company sample_employee "Some 20000" "Some 5" None 31 "Some (2025, 5)"]
  unfolding Let_def sample_statutory
  by (simp add: config_ok_def sample_employee_def sample_pay_company_def sample_stat_def)

text \<open>
  Nothing refuses a negative tax rate: an employee entered with a rate of -5 on 20,000 a month gets a
  negative tax of 1,000.
\<close>

lemma negative_rate_pays_out: "salary_tds (sample_employee\<lparr>em_tds_rate := -5\<rparr>) 20000 20000 = -1000"
  by (simp add: salary_tds_def sample_employee_def q_eval)

end
