(* ===== verification/Pay_Runs.thy ===== *)
theory Pay_Runs
  imports Payroll
begin

text \<open>
  Pay runs (\<open>payroll/services.py\<close>): completing a run computes a slip for every active employee and posts the
  payroll journal, posting late, and cancelling.  Accounts are named by their codes and the rows of a run
  are kept in the order of their ids.
\<close>

section \<open>A pay run\<close>

text \<open>\<open>PERIOD_RE\<close> and \<open>pay_period_month_end\<close>.\<close>

definition parse_period :: "string \<Rightarrow> pay_period option" where
  "parse_period s =
    (let y = take 4 s; m = drop 5 s in
     if length s = 7 \<and> s ! 4 = CHR ''-'' \<and> list_all ch_digit y \<and> list_all ch_digit m
        \<and> 1 \<le> nat_of_digits m \<and> nat_of_digits m \<le> 12
     then Some (int (nat_of_digits y), int (nat_of_digits m)) else None)"

definition pay_period_month_end :: "string \<Rightarrow> date res" where
  "pay_period_month_end s =
    (case parse_period s of
       None \<Rightarrow> Inl (Business_Rule ''Pay period must be YYYY-MM.'')
     | Some (y, m) \<Rightarrow> guard_res (y = 0) (Value_Error ''year is out of range'') (Inr (Date y m (days_in_month y m))))"

datatype component_kind = ARREAR | BONUS | ADVANCE

record pay_slip =
  sl_employee :: int
  sl_stat :: statutory
  sl_paid_days :: "rat option"
  sl_period_days :: "int option"
  sl_components :: "(component_kind \<times> rat) list"

datatype run_status = Run_Draft | Run_Completed

record pay_run =
  pr_id :: int
  pr_period :: string
  pr_status :: run_status
  pr_from_cash :: "bool option"
  pr_bank :: "string option"        \<comment> \<open>code of the ledger account of the bank\<close>
  pr_slips :: "pay_slip list"

definition component_total :: "component_kind \<Rightarrow> (component_kind \<times> rat) list \<Rightarrow> rat" where
  "component_total k rows = q2 (\<Sum>(_, x)\<leftarrow>filter (\<lambda>r. fst r = k) rows. q2 x)"

definition component_totals :: "pay_slip option \<Rightarrow> rat \<times> rat \<times> rat" where
  "component_totals slip =
    (case slip of None \<Rightarrow> (0, 0, 0)
     | Some s \<Rightarrow> let t = (\<lambda>k. component_total k (sl_components s)) in (t ARREAR, t BONUS, t ADVANCE))"

definition disbursement_account :: "gl_account list \<Rightarrow> bool option \<Rightarrow> string option \<Rightarrow> (string option \<times> bool) res" where
  "disbursement_account chart from_cash bank =
    (case bank of
       Some code \<Rightarrow>
         (case find_account ga_active code chart of
            Some a \<Rightarrow> if code = ''1500'' \<or> ga_bank a \<noteq> None then Inr (Some code, False)
                else Inl (Business_Rule ''Choose a bank account for this company.'')
          | None \<Rightarrow> Inl (Business_Rule ''Choose a bank account for this company.''))
     | None \<Rightarrow>
         (case from_cash of
            Some cash \<Rightarrow> Inr (None, cash)
          | None \<Rightarrow> Inl (Business_Rule ''Choose a bank account or confirm cash disbursement.'')))"

definition old_regime_without_rate :: "employee list \<Rightarrow> bool" where
  "old_regime_without_rate es = list_ex (\<lambda>e. em_active e \<and> em_regime e = ''OLD'' \<and> em_tds_rate e = 0) es"

text \<open>The slip of one active employee, computed afresh from the slip stored before, if any.\<close>

definition completed_stat ::
  "pay_company \<Rightarrow> pay_period \<Rightarrow> int \<Rightarrow> employee \<Rightarrow> pay_slip option \<Rightarrow> statutory" where
  "completed_stat co p period_days e existing =
    (let paid = (case existing of None \<Rightarrow> None | Some s \<Rightarrow> sl_paid_days s);
         stored = map_option (\<lambda>s. st_gross (sl_stat s)) existing;
         gross0 = (if paid \<noteq> None \<or> stored = Some 0 then None else stored);
         (arrear, bonus, advance) = component_totals existing;
         gross = (if arrear \<noteq> 0 \<or> bonus \<noteq> 0 then None else gross0);
         base = q2 ((case gross of Some g \<Rightarrow> g | None \<Rightarrow> em_salary e) + arrear);
         c = compute_statutory co e (Some base) (Some (snd p)) paid (of_int period_days) (Some p);
         g = q2 (st_gross c + bonus);
         d = q2 (st_deductions c + advance)
     in c\<lparr>st_gross := g, st_deductions := d, st_net := max 0 (q2 (g - d))\<rparr>)"

fun update_first :: "('a \<Rightarrow> bool) \<Rightarrow> ('a \<Rightarrow> 'a) \<Rightarrow> 'a list \<Rightarrow> 'a list" where
  "update_first P f [] = []"
| "update_first P f (x # xs) = (if P x then f x # xs else x # update_first P f xs)"

text \<open>\<open>update_or_create\<close>: the stored slip keeps its components, a new one has none.\<close>

definition complete_slip ::
  "pay_company \<Rightarrow> pay_period \<Rightarrow> int \<Rightarrow> employee \<Rightarrow> pay_slip list \<Rightarrow> pay_slip list" where
  "complete_slip co p period_days e slips =
    (let mine = (\<lambda>s. sl_employee s = em_id e) in
     case find mine slips of
       Some s \<Rightarrow> update_first mine (\<lambda>s. s\<lparr>sl_stat := completed_stat co p period_days e (Some s),
           sl_period_days := Some period_days\<rparr>) slips
     | None \<Rightarrow> slips @ [\<lparr>sl_employee = em_id e, sl_stat = completed_stat co p period_days e None,
           sl_paid_days = None, sl_period_days = Some period_days, sl_components = []\<rparr>])"

definition PF_ADMIN_MIN_ESTABLISHMENT :: rat where "PF_ADMIN_MIN_ESTABLISHMENT = 500"

definition pays_pf :: "employee list \<Rightarrow> pay_slip \<Rightarrow> bool" where
  "pays_pf es s =
    ((case find (\<lambda>e. em_id e = sl_employee s) es of Some e \<Rightarrow> em_pf e | None \<Rightarrow> False)
      \<and> 0 < st_gross (sl_stat s) \<and> 0 \<le> st_pf_employee (sl_stat s)
      \<and> (0 < st_pf_admin (sl_stat s) \<or> 0 < st_pf_employee (sl_stat s)))"

definition apply_pf_admin_floor :: "employee list \<Rightarrow> pay_slip list \<Rightarrow> pay_slip list" where
  "apply_pf_admin_floor es slips =
    (let wages = filter (pays_pf es) slips;
         admin_total = (\<Sum>s\<leftarrow>wages. st_pf_admin (sl_stat s)) in
     if wages = [] \<or> admin_total \<le> 0 \<or> PF_ADMIN_MIN_ESTABLISHMENT \<le> admin_total then slips
     else update_first (pays_pf es) (\<lambda>s. s\<lparr>sl_stat := (sl_stat s)\<lparr>st_pf_admin :=
         q2 (st_pf_admin (sl_stat s) + (PF_ADMIN_MIN_ESTABLISHMENT - admin_total))\<rparr>\<rparr>) slips)"

definition complete_slips :: "pay_company \<Rightarrow> employee list \<Rightarrow> pay_period \<Rightarrow> pay_slip list \<Rightarrow> pay_slip list" where
  "complete_slips co es p slips =
    (let active = filter em_active es;
         kept = filter (\<lambda>s. sl_employee s \<in> em_id ` set active \<or> st_net (sl_stat s) \<noteq> 0) slips;
         period_days = days_in_month (fst p) (snd p) in
     apply_pf_admin_floor es (fold (complete_slip co p period_days) active kept))"

section \<open>The journal of a run\<close>

definition slip_total :: "(statutory \<Rightarrow> rat) \<Rightarrow> pay_slip list \<Rightarrow> rat" where
  "slip_total f slips = (\<Sum>s\<leftarrow>slips. f (sl_stat s))"

definition credit_line :: "string \<Rightarrow> rat \<Rightarrow> jline list" where
  "credit_line account amount = (if amount \<le> 0 then [] else [cr account amount None])"

definition recovered :: "pay_slip list \<Rightarrow> rat" where
  "recovered slips =
    (let t = (\<lambda>f. slip_total f slips) in
     t st_gross - t st_net - t st_pf_employee - t st_esi_employee - t st_pt - t st_tds)"

definition payroll_lines :: "pay_slip list \<Rightarrow> string \<Rightarrow> jline list" where
  "payroll_lines slips credit_acct =
    (let t = (\<lambda>f. slip_total f slips) in
     [dr ''5800'' (t st_gross + t st_pf_employer + t st_pf_admin + t st_edli + t st_esi_employer) None]
     @ credit_line ''2261'' (t st_pf_employee + t st_pf_employer + t st_pf_admin + t st_edli)
     @ credit_line ''2262'' (t st_esi_employee + t st_esi_employer)
     @ credit_line ''2263'' (t st_pt)
     @ credit_line ''2265'' (t st_tds)
     @ credit_line ''1260'' (recovered slips)
     @ credit_line credit_acct (t st_net))"

text \<open>The account credited with the net pay; codes that are looked up (and seeded) rather than stored.\<close>

definition pay_credit_account :: "pay_run \<Rightarrow> bool option \<Rightarrow> string option \<Rightarrow> string \<times> string list" where
  "pay_credit_account pr from_cash credit =
    (case credit of
       Some c \<Rightarrow> (c, [])
     | None \<Rightarrow>
        (case pr_bank pr of
           Some c \<Rightarrow> (c, [])
         | None \<Rightarrow> if pr_from_cash pr = Some False \<or> from_cash = Some False then (''2150'', [''2150''])
             else (''1100'', [''1100''])))"

definition payroll_source :: "pay_run \<Rightarrow> posting_source" where
  "payroll_source pr = (''PAY_RUN'', pr_id pr, ''PAYROLL'')"

definition post_run ::
  "gl_company \<Rightarrow> date \<Rightarrow> int \<Rightarrow> ledger \<Rightarrow> pay_run \<Rightarrow> bool option \<Rightarrow> string option \<Rightarrow> (bool \<times> ledger) res" where
  "post_run co today new_id lg pr from_cash credit =
    (if \<not> posts_to_ledger co \<or> slip_total st_gross (pr_slips pr) \<le> 0 then Inr (False, lg)
     else let (account, looked_up) = pay_credit_account pr from_cash credit in
     bind_res (resolve_accounts ([''5800''] @ looked_up @ [''2261'', ''2262'', ''2263'', ''2265'', ''1260''])
         (ensure_chart (lg_chart lg))) (\<lambda>chart.
     bind_res (pay_period_month_end (pr_period pr)) (\<lambda>d.
     bind_res (post co today new_id (lg\<lparr>lg_chart := chart\<rparr>) (payroll_source pr) d
         (payroll_lines (pr_slips pr) account) False False) (\<lambda>(_, lg'). Inr (True, lg')))))"

section \<open>Completing, posting late, cancelling\<close>

definition complete_pay_run ::
  "pay_company \<Rightarrow> employee list \<Rightarrow> date \<Rightarrow> int \<Rightarrow> ledger \<Rightarrow> pay_run \<Rightarrow> bool option \<Rightarrow> string option
    \<Rightarrow> (pay_run \<times> ledger) res" where
  "complete_pay_run co es today new_id lg pr from_cash bank =
    guard_res (pr_status pr = Run_Completed) (Business_Rule ''Pay run already completed.'') (
    bind_res (disbursement_account (lg_chart lg) from_cash bank) (\<lambda>(credit, cash).
    guard_res (old_regime_without_rate es) (Business_Rule ''Old-regime TDS needs an explicit rate'') (
    bind_res (pay_period_month_end (pr_period pr)) (\<lambda>d.
    bind_res (assert_period_allows_money_amend (py_gl co) lg d False) (\<lambda>_.
      let pr1 = pr\<lparr>pr_slips := complete_slips co es (d_year d, d_month d) (pr_slips pr),
                pr_from_cash := Some cash, pr_bank := credit\<rparr> in
      bind_res (post_run (py_gl co) today new_id lg pr1 None credit) (\<lambda>(_, lg').
        Inr (pr1\<lparr>pr_status := Run_Completed\<rparr>, lg')))))))"

definition payroll_entry :: "ledger \<Rightarrow> pay_run \<Rightarrow> jentry option" where
  "payroll_entry lg pr = find (same_posting (payroll_source pr)) (lg_entries lg)"

definition post_pay_run_gl :: "gl_company \<Rightarrow> date \<Rightarrow> int \<Rightarrow> ledger \<Rightarrow> pay_run \<Rightarrow> ledger res" where
  "post_pay_run_gl co today new_id lg pr =
    guard_res (pr_status pr \<noteq> Run_Completed) (Business_Rule ''Only completed pay runs can be posted to the GL.'') (
    guard_res (\<not> posts_to_ledger co) (Business_Rule ''Enable accounting for this company first.'') (
    guard_res (payroll_entry lg pr \<noteq> None) (Business_Rule ''This pay run is already posted to the GL.'') (
    bind_res (pay_period_month_end (pr_period pr)) (\<lambda>d.
    bind_res (assert_period_allows_money_amend co lg d False) (\<lambda>_.
    bind_res (post_run co today new_id lg pr None None) (\<lambda>(posted, lg').
    guard_res (\<not> posted) (Business_Rule ''Nothing to post: the pay run has no paid slips.'') (Inr lg')))))))"

definition cancel_pay_run :: "gl_company \<Rightarrow> date \<Rightarrow> int \<Rightarrow> ledger \<Rightarrow> pay_run \<Rightarrow> (pay_run \<times> ledger) res" where
  "cancel_pay_run co today new_id lg pr =
    guard_res (pr_status pr \<noteq> Run_Completed) (Business_Rule ''Only completed pay runs can be cancelled.'') (
    bind_res (pay_period_month_end (pr_period pr)) (\<lambda>d.
    bind_res (assert_period_allows_money_amend co lg d True) (\<lambda>_.
    bind_res
      (case payroll_entry lg pr of
         None \<Rightarrow> Inr lg
       | Some e \<Rightarrow> guard_res (\<not> posts_to_ledger co)
           (Business_Rule ''This pay run has a posted payroll journal.'')
           (bind_res (reverse co today new_id lg e None None) (\<lambda>(_, lg1). Inr lg1)))
      (\<lambda>lg'. Inr (pr\<lparr>pr_status := Run_Draft\<rparr>, lg')))))"

section \<open>The journal balances\<close>

text \<open>
  A stored slip is sound when its amounts are non-negative paise and what was kept back from the gross covers
  what is owed to the authorities.
\<close>

definition slip_amounts_ok :: "statutory \<Rightarrow> bool" where
  "slip_amounts_ok s = list_all nonneg_paise [st_gross s, st_pf_employee s, st_eps s, st_epf s, st_pf_admin s, st_edli s,
      st_esi_employee s, st_esi_employer s, st_pt s, st_tds s, st_deductions s, st_net s]"


definition components_ok :: "pay_slip \<Rightarrow> bool" where
  "components_ok s = list_all (\<lambda>(_, x). 0 \<le> x) (sl_components s)"



lemma slip_total_paise:
  assumes "\<And>s. s \<in> set slips \<Longrightarrow> nonneg_paise (f (sl_stat s))"
  shows "nonneg_paise (slip_total f slips)"
  using assms by (auto simp: nonneg_paise_def slip_total_def intro!: paisa.fixed_sum_list sum_list_nonneg_mem)



lemma slip_amounts_parts:
  assumes "slip_amounts_ok s"
  shows "nonneg_paise (st_gross s)" "nonneg_paise (st_net s)" "nonneg_paise (st_pf_employee s)"
    "nonneg_paise (st_pf_employer s)" "nonneg_paise (st_pf_admin s)" "nonneg_paise (st_edli s)"
    "nonneg_paise (st_esi_employee s)" "nonneg_paise (st_esi_employer s)" "nonneg_paise (st_pt s)" "nonneg_paise (st_tds s)"
proof -
  have "nonneg_paise (st_eps s)" "nonneg_paise (st_epf s)" using assms by (simp_all add: slip_amounts_ok_def)
  then show "nonneg_paise (st_pf_employer s)" unfolding st_pf_employer_def by (intro q2_paise) (simp add: nonneg_paise_def)
qed (use assms in \<open>simp_all add: slip_amounts_ok_def\<close>)

lemma run_totals:
  assumes "list_all (\<lambda>s. slip_amounts_ok (sl_stat s)) slips"
  shows "nonneg_paise (slip_total st_gross slips)" "nonneg_paise (slip_total st_net slips)"
    "nonneg_paise (slip_total st_pf_employee slips)" "nonneg_paise (slip_total st_pf_employer slips)"
    "nonneg_paise (slip_total st_pf_admin slips)" "nonneg_paise (slip_total st_edli slips)"
    "nonneg_paise (slip_total st_esi_employee slips)" "nonneg_paise (slip_total st_esi_employer slips)"
    "nonneg_paise (slip_total st_pt slips)" "nonneg_paise (slip_total st_tds slips)"
  using assms by (auto simp: list_all_iff intro!: slip_total_paise slip_amounts_parts)

lemma credit_line_simps [voucher_simps]:
  "excess (credit_line a x) = - max 0 x" "net (credit_line a x) b = (if a = b then - max 0 x else 0)"
  by (simp_all add: credit_line_def excess_def net_def on_side_def)

lemma credit_line_fits: "q2 x = x \<Longrightarrow> list_all line_fits (credit_line a x)"
  by (simp add: credit_line_def side_fits)

lemma payroll_excess:
  assumes "list_all (\<lambda>s. slip_amounts_ok (sl_stat s)) slips"
  shows "excess (payroll_lines slips a) = min 0 (recovered slips)"
  using run_totals [OF assms]
  by (simp add: payroll_lines_def Let_def voucher_simps nonneg_paise_def) (simp add: recovered_def Let_def)

lemma payroll_fits:
  assumes "list_all (\<lambda>s. slip_amounts_ok (sl_stat s)) slips"
  shows "list_all line_fits (payroll_lines slips a)"
proof -
  note t = run_totals [OF assms]
  have "q2 (recovered slips) = recovered slips"
    using t by (simp add: recovered_def Let_def nonneg_paise_def paisa.fixed_diff)
  then show ?thesis
    using t by (simp add: payroll_lines_def Let_def credit_line_fits side_fits nonneg_paise_def paisa.fixed_add)
qed


section \<open>The slips of a completed run\<close>

lemma update_first_keep:
  "(\<And>x. P x \<Longrightarrow> g (f x) = g x) \<Longrightarrow> map g (update_first P f xs) = map g xs"
  by (induction xs) auto

lemma update_first_mem:
  "y \<in> set (update_first P f xs) \<Longrightarrow> y \<in> set xs \<or> (\<exists>x. find P xs = Some x \<and> y = f x)"
  by (induction xs) (auto split: if_splits)

lemma update_first_hit:
  assumes "distinct (map g xs)" and "\<And>x. P x \<longleftrightarrow> g x = k" and "y \<in> set (update_first P f xs)"
  shows "(\<exists>x. find P xs = Some x \<and> y = f x) \<or> (y \<in> set xs \<and> g y \<noteq> k)"
  using assms(1,3)
proof (induction xs)
  case (Cons x xs)
  then show ?case
    by (cases "g x = k") (auto simp: assms(2) image_iff)
qed simp

lemma update_first_none: "find P xs = None \<Longrightarrow> update_first P f xs = xs"
  by (induction xs) (auto split: if_splits)

lemma complete_slip_ids:
  "sl_employee ` set (complete_slip co p days e slips) = insert (em_id e) (sl_employee ` set slips)"
  "distinct (map sl_employee slips) \<Longrightarrow> distinct (map sl_employee (complete_slip co p days e slips))"
proof -
  let ?mine = "\<lambda>s. sl_employee s = em_id e"
  have m: "map sl_employee (update_first ?mine (\<lambda>s. s\<lparr>sl_stat := v s, sl_period_days := Some days\<rparr>) slips)
      = map sl_employee slips" for v
    by (rule update_first_keep) simp
  have i: "sl_employee ` set (update_first ?mine (\<lambda>s. s\<lparr>sl_stat := v s, sl_period_days := Some days\<rparr>) slips)
      = sl_employee ` set slips" for v
    using m [of v] by (metis list.set_map)
  show "sl_employee ` set (complete_slip co p days e slips) = insert (em_id e) (sl_employee ` set slips)"
    by (auto simp: complete_slip_def Let_def i image_iff split: option.splits dest!: find_mem) (metis find_mem)
  show "distinct (map sl_employee slips) \<Longrightarrow> distinct (map sl_employee (complete_slip co p days e slips))"
    by (auto simp: complete_slip_def Let_def m find_None_iff split: option.splits)
qed

lemma complete_slip_mem:
  assumes "distinct (map sl_employee slips)" and "s \<in> set (complete_slip co p days e slips)"
  shows "(sl_stat s = completed_stat co p days e (find (\<lambda>s. sl_employee s = em_id e) slips)) \<or>
    (s \<in> set slips \<and> sl_employee s \<noteq> em_id e)"
proof (cases "find (\<lambda>s. sl_employee s = em_id e) slips")
  case None
  then have "\<forall>t\<in>set slips. sl_employee t \<noteq> em_id e" by (auto simp: find_None_iff)
  then show ?thesis using assms(2) None by (auto simp: complete_slip_def Let_def)
next
  case (Some t)
  then show ?thesis
    using assms(2) update_first_hit [OF assms(1), where P = "\<lambda>s. sl_employee s = em_id e" and k = "em_id e"]
    by (fastforce simp: complete_slip_def Let_def)
qed

lemma complete_slip_components:
  "list_all components_ok slips \<Longrightarrow> list_all components_ok (complete_slip co p days e slips)"
  by (fastforce simp: complete_slip_def Let_def list_all_iff components_ok_def split: option.splits
      dest!: update_first_mem find_mem)

lemma completed_slips_mem:
  assumes "distinct (map sl_employee slips)" and "list_all components_ok slips"
    and "s \<in> set (fold (complete_slip co p days) es slips)"
  shows "(\<exists>e\<in>set es. \<exists>x. (case x of None \<Rightarrow> True | Some t \<Rightarrow> components_ok t) \<and> sl_stat s = completed_stat co p days e x)
    \<or> (s \<in> set slips \<and> sl_employee s \<notin> em_id ` set es)"
  using assms
proof (induction es arbitrary: slips)
  case Nil
  then show ?case by simp
next
  case (Cons e es)
  have "(\<exists>e\<in>set es. \<exists>x. (case x of None \<Rightarrow> True | Some t \<Rightarrow> components_ok t) \<and> sl_stat s = completed_stat co p days e x)
    \<or> (s \<in> set (complete_slip co p days e slips) \<and> sl_employee s \<notin> em_id ` set es)"
    using Cons.prems by (intro Cons.IH complete_slip_ids complete_slip_components) simp_all
  moreover have "case find (\<lambda>s. sl_employee s = em_id e) slips of None \<Rightarrow> True | Some t \<Rightarrow> components_ok t"
    using Cons.prems(2) by (auto simp: list_all_iff split: option.splits dest!: find_mem)
  ultimately show ?case using complete_slip_mem [OF Cons.prems(1), of s co p days e] by auto
qed








text \<open>An unbalanced list of well-formed lines is refused by the ledger.\<close>

lemma post_unbalanced:
  assumes "posts_to_ledger co" and "src \<notin> set (posted_sources (lg_entries lg))"
    and "list_all line_fits ls" and "excess ls \<noteq> 0"
  shows "\<exists>e. post co today i lg src d ls soft pre = Inl e"
proof -
  let ?kept = "filter (\<lambda>l. jl_debit l \<noteq> 0 \<or> jl_credit l \<noteq> 0) ls"
  have same: "map normalize_line ls = ls" using assms(3) by (simp add: list_all_iff map_idI fits_normal)
  have "debits ?kept = debits ls \<and> credits ?kept = credits ls"
    unfolding debits_def credits_def by (induction ls) auto
  then have ne: "debits ?kept \<noteq> credits ?kept" using assms(4) by (simp add: excess_zero)
  then have "?kept \<noteq> []" by (auto simp: debits_def credits_def)
  then have "post_new co today i lg src d ls allow
      = Inl (Business_Rule ''Journal posting must contain balanced debit and credit lines.'')" for allow
    using ne by (simp add: post_new_def same Let_def)
  moreover have "find (same_posting src) (lg_entries lg) = None" using assms(2) by (simp add: find_same_posting)
  ultimately show ?thesis using assms(1) by (auto simp: post_def Let_def guard_res_def)
qed

text \<open>
  A run whose slips owe the authorities more than was kept back cannot be completed: the clamp of the net pay
  at zero leaves the recovered amount negative, its line is left out, and the unbalanced journal is refused.
\<close>

theorem overdrawn_run_refused:
  assumes "posts_to_ledger (py_gl co)" and "payroll_source pr \<notin> set (posted_sources (lg_entries lg))"
    and month: "pay_period_month_end (pr_period pr) = Inr d"
    and slips: "slips = complete_slips co es (d_year d, d_month d) (pr_slips pr)"
    and ok: "list_all (\<lambda>s. slip_amounts_ok (sl_stat s)) slips" and "0 < slip_total st_gross slips"
    and neg: "recovered slips < 0"
  shows "\<exists>e. complete_pay_run co es today i lg pr from_cash bank = Inl e"
proof (rule ccontr)
  assume "\<not> ?thesis"
  then obtain r where "complete_pay_run co es today i lg pr from_cash bank = Inr r"
    by (cases "complete_pay_run co es today i lg pr from_cash bank") auto
  then obtain pr1 credit x where "post_run (py_gl co) today i lg pr1 None credit = Inr x" and pr1: "pr_slips pr1 = slips"
      "payroll_source pr1 = payroll_source pr"
    by (auto simp: complete_pay_run_def guard_res_Inr_iff bind_res_Inr_iff month Let_def slips payroll_source_def)
  then obtain account chart d' y where "post (py_gl co) today i (lg\<lparr>lg_chart := chart\<rparr>) (payroll_source pr) d'
      (payroll_lines slips account) False False = Inr y"
    using assms(1,6) by (auto simp: post_run_def bind_res_Inr_iff split: if_splits prod.splits)
  moreover have "excess (payroll_lines slips account) \<noteq> 0" using neg by (simp add: payroll_excess [OF ok])
  ultimately show False
    using post_unbalanced [OF assms(1) _ payroll_fits [OF ok], of "payroll_source pr" "lg\<lparr>lg_chart := chart\<rparr>" account
        today i d' False False] assms(2) by auto
qed

section \<open>Cancelling and completing again\<close>

lemma find_append_one: "find P xs = None \<Longrightarrow> P y \<Longrightarrow> find P (xs @ [y]) = Some y"
  by (induction xs) (auto split: if_splits)

lemma run_entry_after:
  assumes reach: "ledger_reachable co lg" "posts_to_ledger co" and fresh: "i \<notin> je_id ` set (lg_entries lg)"
    and new: "payroll_source pr \<notin> set (posted_sources (lg_entries lg))"
    and p: "post_run co today i lg pr from_cash credit = Inr (b, lg1)"
  obtains "lg1 = lg" | "lg_entries lg1 = lg_entries lg" "balances lg1 = balances lg" "ledger_reachable co lg1"
  | e where "lg_entries lg1 = lg_entries lg @ [e]" "je_source e = payroll_source pr" "je_status e = POSTED" "je_id e = i"
      "balances lg1 = apply_voucher (je_lines e) (balances lg)" "ledger_reachable co lg1"
proof (cases "slip_total st_gross (pr_slips pr) \<le> 0")
  case True
  then show thesis using p that(1) by (simp add: post_run_def)
next
  case False
  then obtain account chart d y where q: "post co today i (lg\<lparr>lg_chart := chart\<rparr>) (payroll_source pr) d
      (payroll_lines (pr_slips pr) account) False False = Inr (y, lg1)"
    using p reach(2) by (auto simp: post_run_def bind_res_Inr_iff split: if_splits prod.splits)
  let ?lg = "lg\<lparr>lg_chart := chart\<rparr>"
  have r: "ledger_reachable co ?lg"
    by (rule ledger_reachable.step [OF reach(1)]) (rule ledger_step.administration, simp)
  have same: "balances ?lg = balances lg" by (simp add: balances_def fun_eq_iff)
  have reach1: "ledger_reachable co lg1"
    by (rule ledger_reachable.step [OF r]) (rule ledger_step.posting [OF q], use fresh in \<open>auto simp: payroll_source_def\<close>)
  note bal = posting_balances [OF r reach(2) q]
  show thesis
  proof (rule post_elim [OF q books_ok_reachable [OF r reach(2)]], goal_cases)
    case 1
    then have "balances lg1 = balances lg" by (simp add: balances_def fun_eq_iff)
    then show thesis using 1 that(2) reach1 by simp
  next
    case (2 e)
    then have "payroll_source pr \<in> set (posted_sources (lg_entries lg))"
      by (force simp: same_posting_def posted_sources_def)
    then show thesis using new by blast
  next
    case (3 e)
    have "net (je_lines e) a = net (map normalize_line (payroll_lines (pr_slips pr) account)) a" for a
      unfolding 3(4) by (rule net_nonzero)
    then have "balances lg1 = apply_voucher (je_lines e) (balances lg)"
      using bal new by (simp add: same apply_voucher_def fun_eq_iff)
    then show thesis using 3 that(3) [of e] reach1 by simp
  qed
qed

text \<open>
  The counter-entry carries the date of the entry it reverses, the end of the pay month, not the day of the
  cancellation.
\<close>

lemma cancel_keeps_entry_date:
  assumes reach: "ledger_reachable co lg" "posts_to_ledger co" and e: "payroll_entry lg pr = Some e"
    and undone: "cancel_pay_run co today j lg pr = Inr (pr2, lg2)" and j: "j \<notin> je_id ` set (lg_entries lg)"
  shows "\<exists>x\<in>set (lg_entries lg2). je_source x = reversal_source (je_id e) \<and> je_date x = je_date e"
proof -
  obtain r where rv: "reverse co today j lg e None None = Inr (r, lg2)"
    using undone e reach(2) by (auto simp: cancel_pay_run_def guard_res_Inr_iff bind_res_Inr_iff)
  have mem: "e \<in> set (lg_entries lg)" using e by (auto simp: payroll_entry_def find_Some_iff)
  show ?thesis
  proof (rule reverse_effect [OF reach mem rv j], goal_cases)
    case (1 x)
    then show ?case by (intro bexI [of _ "mark_reversed e r x"]) (auto simp: mark_reversed_def)
  qed
qed

text \<open>
  C32. Cancelling a completed run undoes its journal: every balance is as it was before the run was completed, the
  run is a draft again with its slips kept and no live payroll entry, and the entry it had is countered line by line.
\<close>

theorem cancelled_run_undone:
  assumes reach: "ledger_reachable (py_gl co) lg" "posts_to_ledger (py_gl co)"
    and new: "payroll_source pr \<notin> set (posted_sources (lg_entries lg))"
    and finished: "complete_pay_run co es today i lg pr from_cash bank = Inr (pr1, lg1)" and i: "i \<notin> je_id ` set (lg_entries lg)"
    and undone: "cancel_pay_run (py_gl co) today' j lg1 pr1 = Inr (pr2, lg2)" and j: "j \<notin> je_id ` set (lg_entries lg1)"
  shows "balances lg2 = balances lg \<and> pr2 = pr1\<lparr>pr_status := Run_Draft\<rparr> \<and> payroll_entry lg2 pr2 = None \<and>
    (\<forall>e. payroll_entry lg1 pr1 = Some e \<longrightarrow> (\<exists>x\<in>set (lg_entries lg2). je_source x = reversal_source (je_id e) \<and>
       je_lines x = map swap_line (je_lines e)))"
proof -
  obtain cash credit d where p: "post_run (py_gl co) today i lg (pr1\<lparr>pr_status := pr_status pr\<rparr>) None credit = Inr (cash, lg1)"
    and src: "payroll_source pr1 = payroll_source pr"
    using finished by (auto simp: complete_pay_run_def guard_res_Inr_iff bind_res_Inr_iff Let_def payroll_source_def)
  have src': "payroll_source (pr1\<lparr>pr_status := x\<rparr>) = payroll_source pr" for x using src by (simp add: payroll_source_def)
  have pr2: "pr2 = pr1\<lparr>pr_status := Run_Draft\<rparr>"
    using undone by (auto simp: cancel_pay_run_def guard_res_Inr_iff bind_res_Inr_iff)
  have entry: "payroll_entry lgx (pr1\<lparr>pr_status := x\<rparr>) = payroll_entry lgx pr1" for lgx x
    by (simp add: payroll_entry_def src src')
  have new': "payroll_source (pr1\<lparr>pr_status := pr_status pr\<rparr>) \<notin> set (posted_sources (lg_entries lg))"
    using new by (simp add: src')
  have quiet: "?thesis" if e: "lg_entries lg1 = lg_entries lg" and b: "balances lg1 = balances lg"
  proof -
    have "payroll_entry lg1 pr1 = None" using new e by (simp add: payroll_entry_def find_same_posting src)
    moreover from this have "lg2 = lg1" using undone by (auto simp: cancel_pay_run_def guard_res_Inr_iff bind_res_Inr_iff)
    ultimately show ?thesis using b pr2 by (simp add: entry)
  qed
  show ?thesis
  proof (rule run_entry_after [OF reach i new' p], goal_cases)
    case 1
    then show ?case by (intro quiet) simp_all
  next
    case 2
    then show ?case by (intro quiet)
  next
    case (3 e)
    note ok = books_ok_reachable [OF reach]
    have f: "find (same_posting (payroll_source pr)) (lg_entries lg) = None" using new by (simp add: find_same_posting)
    have e1: "payroll_entry lg1 pr1 = Some e"
      using f 3 unfolding payroll_entry_def src by (simp add: find_append_one same_posting_def src')
    then obtain r where rv: "reverse (py_gl co) today' j lg1 e None None = Inr (r, lg2)"
      using undone reach(2) by (auto simp: cancel_pay_run_def guard_res_Inr_iff bind_res_Inr_iff)
    have mem: "e \<in> set (lg_entries lg1)" using 3 by simp
    show ?case
    proof (rule reverse_effect [OF 3(6) reach(2) mem rv j], goal_cases)
      case (1 x)
      have bal: "balances lg2 = balances lg" using 1(8) 3(5) by (simp add: apply_voucher_def fun_eq_iff)
      have "payroll_source pr \<notin> set (posted_sources (lg_entries lg2))"
      proof
        assume "payroll_source pr \<in> set (posted_sources (lg_entries lg2))"
        then obtain y where y: "y \<in> set (lg_entries lg1 @ [x])" "je_source y = payroll_source pr"
          "je_status (mark_reversed e r y) = POSTED"
          unfolding 1(2) posted_sources_def by (force split: if_splits)
        have "je_source x \<noteq> payroll_source pr" using 1(5) by (auto simp: reversal_source_def payroll_source_def)
        then have "y \<in> set (lg_entries lg) \<or> y = e" using y 3(1) by auto
        moreover have "je_status y = POSTED" "je_id y \<noteq> je_id e" using y(3) by (auto simp: mark_reversed_status split: if_splits)
        ultimately show False using new y(2) by (force simp: posted_sources_def)
      qed
      then have "payroll_entry lg2 pr2 = None" by (simp add: pr2 entry payroll_entry_def find_same_posting src src')
      moreover have "mark_reversed e r x \<in> set (lg_entries lg2)" using 1(2) by simp
      ultimately show ?case using bal pr2 1 e1
        by (intro conjI) (auto intro!: bexI [of _ "mark_reversed e r x"])
    qed
  qed
qed

text \<open>Amounts of pay, in paise and of a storable size.\<close>

definition pay_amount :: "rat \<Rightarrow> bool" where
  "pay_amount x = (nonneg_paise x \<and> x < 10 ^ 12)"

lemma full_month_gross:
  assumes "nonneg_paise b" and "b < 10 ^ 20"
  shows "st_gross (compute_statutory co e (Some b) month None days period) = b"
proof -
  have b: "q2 b = b" "0 \<le> b" using assms(1) by (simp_all add: nonneg_paise_def)
  have "dmul b 1 = b" using ctx28_paise [OF b(1)] b(2) assms(2) by (simp add: dmul_def)
  then show ?thesis
    using b by (auto simp: compute_statutory_def Let_def proration_def no_pay_def split: prod.splits)
qed

text \<open>What a fresh computation of a slip reads: the stored gross, the days and the components.\<close>

lemma completed_stat_cong:
  "st_gross (sl_stat s) = st_gross (sl_stat t) \<Longrightarrow> sl_paid_days s = sl_paid_days t \<Longrightarrow> sl_components s = sl_components t
    \<Longrightarrow> completed_stat co p days e (Some s) = completed_stat co p days e (Some t)"
  by (simp add: completed_stat_def component_totals_def)

lemma completed_stat_again:
  assumes sal: "pay_amount (em_salary e)"
    and s: "case x of None \<Rightarrow> sl_paid_days s = None \<and> sl_components s = []
      | Some t \<Rightarrow> pay_amount (st_gross (sl_stat t)) \<and> sl_paid_days s = sl_paid_days t \<and> sl_components s = sl_components t"
    and new: "sl_stat s = completed_stat co p days e x"
  shows "completed_stat co p days e (Some s) = completed_stat co p days e x"
proof -
  define paid where "paid = (case x of None \<Rightarrow> None | Some t \<Rightarrow> sl_paid_days t)"
  define stored where "stored = map_option (\<lambda>t. st_gross (sl_stat t)) x"
  obtain arrear bonus advance where t: "component_totals x = (arrear, bonus, advance)" by (cases "component_totals x") auto
  have t': "component_totals (Some s) = (arrear, bonus, advance)"
    using t s by (auto simp: component_totals_def component_total_def split: option.splits)
  have paid': "sl_paid_days s = paid" using s by (auto simp: paid_def split: option.splits)
  define w where "w = (\<lambda>g. if paid \<noteq> None \<or> g = Some 0 \<or> arrear \<noteq> 0 \<or> bonus \<noteq> 0 then em_salary e
      else (case g of Some y \<Rightarrow> y | None \<Rightarrow> em_salary e))"
  define F where "F = (\<lambda>base. let c = compute_statutory co e (Some (q2 (base + arrear))) (Some (snd p)) paid (of_int days) (Some p);
         g = q2 (st_gross c + bonus); d = q2 (st_deductions c + advance)
     in c\<lparr>st_gross := g, st_deductions := d, st_net := max 0 (q2 (g - d))\<rparr>)"
  have old: "completed_stat co p days e x = F (w stored)"
    unfolding completed_stat_def t prod.case paid_def [symmetric] stored_def [symmetric] F_def w_def Let_def by simp
  have new': "completed_stat co p days e (Some s) = F (w (Some (st_gross (sl_stat s))))"
    unfolding completed_stat_def t' prod.case F_def w_def Let_def by (simp add: paid')
  have "w (Some (st_gross (sl_stat s))) = w stored"
  proof (cases "paid \<noteq> None \<or> arrear \<noteq> 0 \<or> bonus \<noteq> 0")
    case True
    then show ?thesis by (auto simp: w_def)
  next
    case False
    have amt: "pay_amount (w stored)"
      using sal s by (auto simp: w_def stored_def split: option.splits)
    then have q: "q2 (w stored) = w stored" "w stored < 10 ^ 20" by (simp_all add: pay_amount_def nonneg_paise_def)
    have "st_gross (sl_stat s) = w stored"
      using full_month_gross [of "w stored"] False amt q
      by (simp add: new old F_def Let_def pay_amount_def)
    then show ?thesis using False by (auto simp: w_def split: option.splits)
  qed
  then show ?thesis by (simp add: old new')
qed

text \<open>With one slip per employee an update of the first match is a map.\<close>

lemma update_first_map:
  "distinct (map g xs) \<Longrightarrow> update_first (\<lambda>x. g x = k) f xs = map (\<lambda>x. if g x = k then f x else x) xs"
proof (induction xs)
  case (Cons x xs)
  then have "map (\<lambda>x. if g x = k then f x else x) xs = xs" if "g x = k"
    using that by (intro map_idI) (force simp: image_iff)
  then show ?case using Cons by auto
qed simp

lemma find_unique:
  "distinct (map g xs) \<Longrightarrow> s \<in> set xs \<Longrightarrow> find (\<lambda>x. g x = g s) xs = Some s"
  by (induction xs) (auto simp: image_iff)

definition settled :: "pay_company \<Rightarrow> pay_period \<Rightarrow> int \<Rightarrow> pay_slip list \<Rightarrow> employee \<Rightarrow> bool" where
  "settled co p days slips e = (\<exists>s\<in>set slips. sl_employee s = em_id e \<and>
     sl_stat s = completed_stat co p days e (Some s) \<and> sl_period_days s = Some days)"

lemma complete_slip_found:
  assumes "distinct (map sl_employee slips)" and "s \<in> set slips" and "sl_employee s = em_id e"
  shows "complete_slip co p days e slips = map (\<lambda>t. if sl_employee t = em_id e
    then t\<lparr>sl_stat := completed_stat co p days e (Some t), sl_period_days := Some days\<rparr> else t) slips"
  using find_unique [OF assms(1,2)] update_first_map [OF assms(1)]
  by (simp add: complete_slip_def assms(3))

lemma settled_fixed:
  assumes "distinct (map sl_employee slips)" and "settled co p days slips e"
  shows "complete_slip co p days e slips = slips"
proof -
  obtain s where s: "s \<in> set slips" "sl_employee s = em_id e" "sl_stat s = completed_stat co p days e (Some s)"
    "sl_period_days s = Some days" using assms(2) by (auto simp: settled_def)
  have "t = s" if "t \<in> set slips" "sl_employee t = em_id e" for t
    using that s(1,2) assms(1) by (metis distinct_map inj_onD)
  moreover have "s\<lparr>sl_stat := completed_stat co p days e (Some s), sl_period_days := Some days\<rparr> = s"
    unfolding s(3) [symmetric] s(4) [symmetric] by simp
  ultimately show ?thesis unfolding complete_slip_found [OF assms(1) s(1,2)] by (auto intro!: map_idI)
qed

lemma settles:
  assumes dist: "distinct (map sl_employee slips)" and sal: "pay_amount (em_salary e)"
    and stored: "\<And>s. s \<in> set slips \<Longrightarrow> sl_employee s = em_id e \<Longrightarrow> pay_amount (st_gross (sl_stat s))"
  shows "settled co p days (complete_slip co p days e slips) e"
proof (cases "find (\<lambda>s. sl_employee s = em_id e) slips")
  case None
  let ?s = "\<lparr>sl_employee = em_id e, sl_stat = completed_stat co p days e None, sl_paid_days = None,
    sl_period_days = Some days, sl_components = []\<rparr>"
  have "completed_stat co p days e (Some ?s) = completed_stat co p days e None"
    by (rule completed_stat_again [OF sal]) simp_all
  then show ?thesis using None by (auto simp: settled_def complete_slip_def)
next
  case (Some t)
  then have t: "t \<in> set slips" "sl_employee t = em_id e" by (auto dest: find_mem)
  let ?s = "t\<lparr>sl_stat := completed_stat co p days e (Some t), sl_period_days := Some days\<rparr>"
  have "completed_stat co p days e (Some ?s) = completed_stat co p days e (Some t)"
    by (rule completed_stat_again [OF sal]) (use stored [OF t] in simp_all)
  then show ?thesis unfolding settled_def complete_slip_found [OF dist t]
    using t by (intro bexI [of _ ?s]) auto
qed

lemma other_slips_kept:
  assumes "distinct (map sl_employee slips)" and "sl_employee s \<noteq> em_id e"
  shows "s \<in> set (complete_slip co p days e slips) \<longleftrightarrow> s \<in> set slips"
proof (cases "find (\<lambda>s. sl_employee s = em_id e) slips")
  case None
  then show ?thesis using assms(2) by (auto simp: complete_slip_def)
next
  case (Some t)
  then have t: "t \<in> set slips" "sl_employee t = em_id e" by (auto dest: find_mem)
  show ?thesis unfolding complete_slip_found [OF assms(1) t] using assms(2) by (auto simp: image_iff)
qed

lemma fold_other_kept:
  assumes "distinct (map sl_employee slips)" and "sl_employee s \<notin> em_id ` set es"
  shows "s \<in> set (fold (complete_slip co p days) es slips) \<longleftrightarrow> s \<in> set slips"
  using assms
  by (induction es arbitrary: slips) (auto simp: complete_slip_ids other_slips_kept)

lemma fold_distinct:
  "distinct (map sl_employee slips) \<Longrightarrow> distinct (map sl_employee (fold (complete_slip co p days) es slips))"
  by (induction es arbitrary: slips) (auto simp: complete_slip_ids)

lemma fold_settles:
  assumes "distinct (map sl_employee slips)" and "distinct (map em_id es)"
    and "\<And>e. e \<in> set es \<Longrightarrow> pay_amount (em_salary e)"
    and "\<And>s. s \<in> set slips \<Longrightarrow> sl_employee s \<in> em_id ` set es \<Longrightarrow> pay_amount (st_gross (sl_stat s))"
    and "e \<in> set es"
  shows "settled co p days (fold (complete_slip co p days) es slips) e"
  using assms
proof (induction es arbitrary: slips)
  case (Cons f es)
  let ?c = "complete_slip co p days f slips"
  have d: "distinct (map sl_employee ?c)" using Cons.prems(1) by (rule complete_slip_ids)
  show ?case
  proof (cases "e = f")
    case True
    have "settled co p days ?c f" using Cons.prems by (intro settles) auto
    then obtain s where s: "s \<in> set ?c" "sl_employee s = em_id f" "sl_stat s = completed_stat co p days f (Some s)"
      "sl_period_days s = Some days" by (auto simp: settled_def)
    then have "s \<in> set (fold (complete_slip co p days) es ?c)"
      using Cons.prems(2) by (simp add: fold_other_kept [OF d])
    then show ?thesis using s True by (auto simp: settled_def)
  next
    case False
    have "pay_amount (st_gross (sl_stat s))" if "s \<in> set ?c" "sl_employee s \<in> em_id ` set es" for s
    proof -
      have "sl_employee s \<noteq> em_id f" using that(2) Cons.prems(2) by auto
      then show ?thesis using that Cons.prems(4) other_slips_kept [OF Cons.prems(1)] by auto
    qed
    then show ?thesis using Cons.IH [OF d] Cons.prems(2,3,5) False by simp
  qed
qed simp

text \<open>The floor touches one slip; a settled employee's slip is restored, another's keeps the raised charge.\<close>

definition raised :: "int \<Rightarrow> rat \<Rightarrow> pay_slip \<Rightarrow> pay_slip" where
  "raised k a s = (if sl_employee s = k then s\<lparr>sl_stat := (sl_stat s)\<lparr>st_pf_admin := a\<rparr>\<rparr> else s)"

lemma raised_simps [simp]:
  "sl_employee (raised k a s) = sl_employee s" "sl_components (raised k a s) = sl_components s"
  "sl_paid_days (raised k a s) = sl_paid_days s" "sl_period_days (raised k a s) = sl_period_days s"
  "st_gross (sl_stat (raised k a s)) = st_gross (sl_stat s)" "st_net (sl_stat (raised k a s)) = st_net (sl_stat s)"
  by (simp_all add: raised_def)

lemma settled_restores:
  assumes dist: "distinct (map sl_employee slips)" and e: "settled co p days slips e"
  shows "complete_slip co p days e (map (raised k a) slips) = (if em_id e = k then slips else map (raised k a) slips)"
proof -
  obtain s where s: "s \<in> set slips" "sl_employee s = em_id e" "sl_stat s = completed_stat co p days e (Some s)"
    "sl_period_days s = Some days" using e by (auto simp: settled_def)
  have d: "distinct (map sl_employee (map (raised k a) slips))" using dist by (simp add: comp_def)
  have one: "t = s" if "t \<in> set slips" "sl_employee t = em_id e" for t
    using that s(1,2) dist by (metis distinct_map inj_onD)
  have c: "completed_stat co p days e (Some (raised k a s)) = sl_stat s"
    unfolding s(3) by (rule completed_stat_cong) simp_all
  have "s\<lparr>sl_stat := sl_stat s, sl_period_days := Some days\<rparr> = s" using s(4) by (cases s) simp
  then have r: "(raised k a s)\<lparr>sl_stat := sl_stat s, sl_period_days := Some days\<rparr> = s" by (simp add: raised_def)
  have "complete_slip co p days e (map (raised k a) slips) = map (\<lambda>t. if sl_employee t = em_id e then t else raised k a t) slips"
  proof -
    have m: "raised k a s \<in> set (map (raised k a) slips)" "sl_employee (raised k a s) = em_id e" using s(1,2) by simp_all
    show ?thesis unfolding complete_slip_found [OF d m] map_map
    proof (rule map_cong [OF refl])
      fix t assume t: "t \<in> set slips"
      show "((\<lambda>t. if sl_employee t = em_id e then t\<lparr>sl_stat := completed_stat co p days e (Some t), sl_period_days := Some days\<rparr>
          else t) \<circ> raised k a) t = (if sl_employee t = em_id e then t else raised k a t)"
        using one [OF t] r by (auto simp: c)
    qed
  qed
  also have "\<dots> = (if em_id e = k then slips else map (raised k a) slips)"
    by (auto simp: raised_def intro!: map_idI)
  finally show ?thesis .
qed

lemma fold_restores:
  assumes "distinct (map sl_employee slips)" and "\<And>e. e \<in> set es \<Longrightarrow> settled co p days slips e"
  shows "fold (complete_slip co p days) es (map (raised k a) slips) = (if k \<in> em_id ` set es then slips else map (raised k a) slips)"
proof -
  have stay: "fold (complete_slip co p days) es slips = slips" if "\<And>e. e \<in> set es \<Longrightarrow> settled co p days slips e" for es
    using that by (induction es) (simp_all add: settled_fixed [OF assms(1)])
  show ?thesis using assms(2) stay
    by (induction es) (auto simp: settled_restores [OF assms(1)])
qed

lemma raised_other: "k \<notin> sl_employee ` set slips \<Longrightarrow> map (raised k a) slips = slips"
  by (induction slips) (auto simp: raised_def)

lemma raised_hit: "sl_employee s = k \<Longrightarrow> raised k a s = s\<lparr>sl_stat := (sl_stat s)\<lparr>st_pf_admin := a\<rparr>\<rparr>"
  and raised_miss: "sl_employee s \<noteq> k \<Longrightarrow> raised k a s = s"
  by (simp_all add: raised_def)

lemma raised_list:
  assumes "distinct (map sl_employee slips)" and "find P slips = Some t"
  shows "update_first P (\<lambda>s. s\<lparr>sl_stat := (sl_stat s)\<lparr>st_pf_admin := f s\<rparr>\<rparr>) slips = map (raised (sl_employee t) (f t)) slips"
  using assms
proof (induction slips)
  case (Cons s slips)
  show ?case
  proof (cases "P s")
    case True
    then have "map (raised (sl_employee t) (f t)) slips = slips"
      using Cons.prems by (intro raised_other) auto
    then show ?thesis using True Cons.prems by (simp add: raised_hit)
  next
    case False
    then have f: "find P slips = Some t" using Cons.prems(2) by simp
    then have "sl_employee s \<noteq> sl_employee t" using Cons.prems(1) find_mem [OF f] by auto
    then show ?thesis using False Cons.IH [OF _ f] Cons.prems(1) by (simp add: raised_miss)
  qed
qed simp

lemma raised_total:
  assumes "distinct (map sl_employee slips)" and "find (pays_pf es) slips = Some t" and "0 < a"
  shows "(\<Sum>s\<leftarrow>filter (pays_pf es) (map (raised (sl_employee t) a) slips). st_pf_admin (sl_stat s))
    = (\<Sum>s\<leftarrow>filter (pays_pf es) slips. st_pf_admin (sl_stat s)) - st_pf_admin (sl_stat t) + a"
  using assms(1,2)
proof (induction slips)
  case (Cons s slips)
  show ?case
  proof (cases "pays_pf es s")
    case True
    then have "map (raised (sl_employee t) a) slips = slips"
      using Cons.prems by (intro raised_other) auto
    moreover have "pays_pf es (raised (sl_employee t) a t)"
      using True Cons.prems(2) assms(3) by (auto simp: pays_pf_def raised_def split: if_splits)
    ultimately show ?thesis using True Cons.prems(2) by (simp add: raised_hit)
  next
    case False
    then have f: "find (pays_pf es) slips = Some t" using Cons.prems(2) by simp
    then have "sl_employee s \<noteq> sl_employee t" using Cons.prems(1) find_mem [OF f] by auto
    then show ?thesis using False Cons.IH [OF _ f] Cons.prems(1) by (simp add: raised_miss)
  qed
qed simp

lemma floor_raises:
  assumes dist: "distinct (map sl_employee slips)" and paise: "\<And>s. s \<in> set slips \<Longrightarrow> q2 (st_pf_admin (sl_stat s)) = st_pf_admin (sl_stat s)"
    and nn: "\<And>s. s \<in> set slips \<Longrightarrow> 0 \<le> st_pf_admin (sl_stat s)"
  obtains "apply_pf_admin_floor es slips = slips"
  | k a where "apply_pf_admin_floor es slips = map (raised k a) slips"
      "apply_pf_admin_floor es (map (raised k a) slips) = map (raised k a) slips"
proof -
  let ?w = "filter (pays_pf es) slips"
  let ?total = "\<Sum>s\<leftarrow>?w. st_pf_admin (sl_stat s)"
  show thesis
  proof (cases "?w = [] \<or> ?total \<le> 0 \<or> 500 \<le> ?total")
    case True
    then show thesis by (intro that(1)) (auto simp: apply_pf_admin_floor_def PF_ADMIN_MIN_ESTABLISHMENT_def Let_def)
  next
    case False
    then obtain t where t: "find (pays_pf es) slips = Some t" by (cases "find (pays_pf es) slips") (auto simp: find_None_iff filter_empty_conv)
    then have m: "t \<in> set slips" by (auto dest: find_mem)
    let ?a = "q2 (st_pf_admin (sl_stat t) + (500 - ?total))"
    have "q2 ?total = ?total" using paise by (intro paisa.fixed_sum_list) auto
    moreover have "q2 500 = 500" by (simp add: q_eval)
    ultimately have a: "?a = st_pf_admin (sl_stat t) + (500 - ?total)"
      using paise [OF m] by (intro paisa.fixed_add paisa.fixed_diff)
    have "0 < ?a" unfolding a using nn [OF m] False by simp
    from raised_total [OF dist t this] have "(\<Sum>s\<leftarrow>filter (pays_pf es) (map (raised (sl_employee t) ?a) slips). st_pf_admin (sl_stat s)) = 500"
      unfolding a by simp
    then have "apply_pf_admin_floor es (map (raised (sl_employee t) ?a) slips) = map (raised (sl_employee t) ?a) slips"
      by (simp add: apply_pf_admin_floor_def PF_ADMIN_MIN_ESTABLISHMENT_def Let_def)
    moreover have "apply_pf_admin_floor es slips = map (raised (sl_employee t) ?a) slips"
      using False raised_list [OF dist t, of "\<lambda>s. q2 (st_pf_admin (sl_stat s) + (500 - ?total))"]
      by (simp add: apply_pf_admin_floor_def PF_ADMIN_MIN_ESTABLISHMENT_def Let_def)
    ultimately show thesis using that(2) by blast
  qed
qed

lemma completed_admin:
  assumes "employee_ok e" "config_ok (py_slabs co)"
  shows "nonneg_paise (st_pf_admin (completed_stat co p days e x))"
proof -
  obtain arrear bonus advance where t: "component_totals x = (arrear, bonus, advance)" by (cases "component_totals x") auto
  obtain base paid where "st_pf_admin (completed_stat co p days e x)
      = st_pf_admin (compute_statutory co e (Some base) (Some (snd p)) paid (of_int days) (Some p))"
    unfolding completed_stat_def t Let_def by simp
  then show ?thesis using statutory_facts [OF assms, where gross = "Some base" and month = "Some (snd p)" and paid_days = paid
      and period_days = "of_int days" and period = "Some p"] unfolding Let_def by simp
qed

text \<open>
  Completing again changes no slip: a run that is completed, cancelled and completed with the same employees gives
  every employee the same pay and the same charges, with prorated months, arrears, bonuses and advances counted
  once, slips of people who left kept, and the minimum administration charge raised once.
\<close>

theorem completing_again_same:
  assumes ids: "distinct (map em_id es)" and one: "distinct (map sl_employee slips)"
    and ok: "list_all employee_ok (filter em_active es)" "config_ok (py_slabs co)" "list_all components_ok slips"
    and sal: "list_all (\<lambda>e. pay_amount (em_salary e)) (filter em_active es)"
    and stored: "list_all (\<lambda>s. pay_amount (st_gross (sl_stat s)) \<and> nonneg_paise (st_pf_admin (sl_stat s))) slips"
  shows "complete_slips co es p (complete_slips co es p slips) = complete_slips co es p slips"
proof -
  define active where "active = filter em_active es"
  define days where "days = days_in_month (fst p) (snd p)"
  define keep where "keep = (\<lambda>s :: pay_slip. sl_employee s \<in> em_id ` set active \<or> st_net (sl_stat s) \<noteq> 0)"
  let ?go = "fold (complete_slip co p days) active"
  define L where "L = ?go (filter keep slips)"
  have all: "complete_slips co es p xs = apply_pf_admin_floor es (?go (filter keep xs))" for xs
    by (simp add: complete_slips_def Let_def active_def days_def keep_def)
  have d0: "distinct (map sl_employee (filter keep slips))" using one by (rule distinct_map_filter)
  have dL: "distinct (map sl_employee L)" unfolding L_def using d0 by (rule fold_distinct)
  have act: "distinct (map em_id active)" unfolding active_def using ids by (rule distinct_map_filter)
  have settled: "settled co p days L e" if "e \<in> set active" for e
    unfolding L_def using sal stored that
    by (intro fold_settles [OF d0 act]) (auto simp: list_all_iff active_def)
  have keepL: "filter keep (map (raised k a) L) = map (raised k a) L" "filter keep L = L" for k a
  proof -
    have "keep s" if "s \<in> set L" for s
    proof (cases "sl_employee s \<in> em_id ` set active")
      case False
      then show ?thesis using that fold_other_kept [OF d0 False] by (simp add: L_def)
    qed (simp add: keep_def)
    moreover have "keep (raised k a s) = keep s" for s by (simp add: keep_def)
    ultimately show "filter keep (map (raised k a) L) = map (raised k a) L" "filter keep L = L"
      by (simp_all add: filter_id_conv)
  qed
  have adminL: "nonneg_paise (st_pf_admin (sl_stat s))" if "s \<in> set L" for s
    using completed_slips_mem [OF d0 _ that [unfolded L_def]] ok stored completed_admin [OF _ ok(2), where p = p and days = days]
    by (auto simp: list_all_iff active_def)
  have restore: "?go (map (raised k a) L) = (if k \<in> em_id ` set active then L else map (raised k a) L)" "?go L = L" for k a
  proof -
    show "?go (map (raised k a) L) = (if k \<in> em_id ` set active then L else map (raised k a) L)"
      by (rule fold_restores [OF dL settled])
    show "?go L = L" using settled by (induction active) (simp_all add: settled_fixed [OF dL])
  qed
  show ?thesis unfolding all L_def [symmetric]
  proof (rule floor_raises [OF dL, where es = es], goal_cases)
    case (1 s)
    then show ?case using adminL by (simp add: nonneg_paise_def)
  next
    case (2 s)
    then show ?case using adminL by (simp add: nonneg_paise_def)
  next
    case 3
    then show ?case by (simp add: keepL restore)
  next
    case (4 k a)
    then show ?case by (simp add: keepL restore)
  qed
qed

section \<open>Worked examples\<close>

definition sample_run :: "pay_slip list \<Rightarrow> pay_run" where
  "sample_run slips = \<lparr>pr_id = 9, pr_period = ''2025-05'', pr_status = Run_Draft, pr_from_cash = None, pr_bank = None,
     pr_slips = slips\<rparr>"

definition sample_slip :: pay_slip where
  "sample_slip = \<lparr>sl_employee = 1, sl_stat = sample_stat\<lparr>st_pf_admin := 500\<rparr>, sl_paid_days = None,
     sl_period_days = Some 31, sl_components = []\<rparr>"

lemma sample_completed:
  assumes "slips = [] \<or> slips = [sample_slip]"
  shows "complete_slips sample_pay_company [sample_employee] (2025, 5) slips = [sample_slip]"
proof -
  have q: "q2 20000 = 20000" "q2 2150 = 2150" "q2 17850 = 17850" "q2 500 = 500" by (simp_all add: q_eval)
  have new: "completed_stat sample_pay_company (2025, 5) 31 sample_employee x = sample_stat"
    if "x = None \<or> x = Some sample_slip" for x
    using that
    by (auto simp: completed_stat_def component_totals_def component_total_def Let_def sample_slip_def q sample_statutory)
      (simp_all add: sample_stat_def sample_employee_def q sample_statutory [unfolded sample_stat_def sample_employee_def])
  have e: "em_active sample_employee" "em_id sample_employee = 1" "em_pf sample_employee"
    by (simp_all add: sample_employee_def)
  have "fold (complete_slip sample_pay_company (2025, 5) 31) [sample_employee] slips = [sample_slip\<lparr>sl_stat := sample_stat\<rparr>]"
    using assms new by (auto simp: complete_slip_def Let_def e) (simp_all add: sample_slip_def)
  then show ?thesis
    using assms by (auto simp: complete_slips_def Let_def days_in_month_def e)
      (simp_all add: apply_pf_admin_floor_def Let_def pays_pf_def e sample_slip_def sample_stat_def
        PF_ADMIN_MIN_ESTABLISHMENT_def q)
qed

theorem completing_again_same_witness:
  "complete_slips sample_pay_company [sample_employee] (2025, 5)
     (complete_slips sample_pay_company [sample_employee] (2025, 5) [sample_slip]) = [sample_slip]"
proof -
  have q: "q2 20000 = 20000" "q2 500 = 500" by (simp_all add: q_eval)
  have "complete_slips sample_pay_company [sample_employee] (2025, 5)
     (complete_slips sample_pay_company [sample_employee] (2025, 5) [sample_slip])
    = complete_slips sample_pay_company [sample_employee] (2025, 5) [sample_slip]"
    by (rule completing_again_same)
      (simp_all add: sample_slip_def sample_stat_def sample_employee_def sample_pay_company_def employee_ok_def config_ok_def
        components_ok_def pay_amount_def nonneg_paise_def q)
  then show ?thesis by (simp add: sample_completed)
qed

lemma may_month_end: "pay_period_month_end ''2025-05'' = Inr (Date 2025 5 31)"
  by code_simp

lemma sample_books_open:
  "assert_period_allows_money_amend example_books new_ledger (Date 2025 5 31) b = Inr ()"
  by (cases b; code_simp)






definition half_day_employee :: employee where
  "half_day_employee = sample_employee\<lparr>em_pf := False, em_esi := False\<rparr>"

definition short_slip :: "statutory \<Rightarrow> pay_slip" where
  "short_slip s = \<lparr>sl_employee = 1, sl_stat = s, sl_paid_days = Some (28/100), sl_period_days = Some 28, sl_components = []\<rparr>"

definition short_stat :: statutory where
  "short_stat = no_pay\<lparr>st_gross := 200, st_pt := 300, st_deductions := 300\<rparr>"

lemma short_month:
  "complete_slips sample_pay_company [half_day_employee] (2026, 2) [short_slip no_pay] = [short_slip short_stat]"
proof -
  have c: "ctx28 (1/100) = 1/100" "ctx28 200 = 200" by (rule ctx28_paise; simp add: q_eval)+
  have t: "salary_tds half_day_employee 20000 200 = 0"
    by (simp add: salary_tds_def half_day_employee_def sample_employee_def annual_tax_unfold tax_below_cap
        NEW_REGIME_STD_DEDUCTION_def q_eval ddiv_def py_upper_def to_upper_def ch_lower_def ch_code_def)
  have pt: "pt_amount 20000 (resolve_pt_slabs (py_slabs sample_pay_company) (em_pt_state half_day_employee)
      (py_state sample_pay_company)) (Some 2) = 300"
    by (simp add: sample_pay_company_def half_day_employee_def sample_employee_def maharashtra_slabs slab_def q_eval)
  have n: "pf_parts half_day_employee g r = (0, 0, 0, 0, 0)" "esi_parts co half_day_employee f g p = (0, 0)" for g r f co p
    by (simp_all add: pf_parts_def esi_parts_def half_day_employee_def)
  have q: "q2 20000 = 20000" "q2 200 = 200" "q2 300 = 300" "q2 (- 100) = - 100" by (simp_all add: q_eval)
  have s: "compute_statutory sample_pay_company half_day_employee (Some 20000) (Some 2) (Some (28/100)) 28 (Some (2026, 2)) = short_stat"
    by (simp add: compute_statutory_def Let_def proration_def ddiv_def dmul_def c q t pt n short_stat_def no_pay_def)
  have "completed_stat sample_pay_company (2026, 2) 28 half_day_employee (Some (short_slip no_pay)) = short_stat"
    using s by (simp add: completed_stat_def component_totals_def component_total_def Let_def short_slip_def q)
      (simp add: half_day_employee_def sample_employee_def q, simp add: short_stat_def no_pay_def q)
  then show ?thesis
    by (simp add: complete_slips_def Let_def days_in_month_def is_leap_def complete_slip_def half_day_employee_def
        sample_employee_def apply_pf_admin_floor_def pays_pf_def short_slip_def short_stat_def no_pay_def)
qed

theorem overdrawn_run_refused_witness:
  "\<exists>e. complete_pay_run sample_pay_company [half_day_employee] (Date 2026 3 1) 1 new_ledger
     ((sample_run [short_slip no_pay])\<lparr>pr_period := ''2026-02''\<rparr>) (Some True) None = Inl e"
proof (rule overdrawn_run_refused [where d = "Date 2026 2 28" and slips = "[short_slip short_stat]"], goal_cases)
  case 3
  show ?case by (simp add: sample_run_def) code_simp
qed (simp_all add: sample_pay_company_def example_books_def posts_to_ledger_def new_ledger_def posted_sources_def
    sample_run_def short_month [unfolded sample_pay_company_def example_books_def],
    simp_all add: short_slip_def short_stat_def no_pay_def slip_amounts_ok_def nonneg_paise_def q_eval slip_total_def recovered_def)

lemma sample_run_round_trip:
  obtains pr1 lg1 pr2 lg2 where
    "complete_pay_run sample_pay_company [sample_employee] (Date 2025 5 2) 1 new_ledger (sample_run []) (Some True) None = Inr (pr1, lg1)"
    "cancel_pay_run example_books (Date 2025 6 5) 2 lg1 pr1 = Inr (pr2, lg2)" "map je_id (lg_entries lg1) = [1]"
proof -
  let ?pr = "(sample_run [])\<lparr>pr_slips := [sample_slip], pr_from_cash := Some True, pr_bank := None\<rparr>"
  have c: "case post_run example_books (Date 2025 5 2) 1 new_ledger ?pr None None of Inl _ \<Rightarrow> False
    | Inr (_, lg1) \<Rightarrow> map je_id (lg_entries lg1) = [1] \<and>
       (case cancel_pay_run example_books (Date 2025 6 5) 2 lg1 (?pr\<lparr>pr_status := Run_Completed\<rparr>) of Inl _ \<Rightarrow> False | Inr _ \<Rightarrow> True)"
    by code_simp
  then obtain b lg1 where p1: "post_run example_books (Date 2025 5 2) 1 new_ledger ?pr None None = Inr (b, lg1)"
    by (cases "post_run example_books (Date 2025 5 2) 1 new_ledger ?pr None None") auto
  then have "map je_id (lg_entries lg1) = [1]"
    "case cancel_pay_run example_books (Date 2025 6 5) 2 lg1 (?pr\<lparr>pr_status := Run_Completed\<rparr>) of Inl _ \<Rightarrow> False | Inr _ \<Rightarrow> True"
    using c by simp_all
  moreover from this(2) obtain pr2 lg2 where
    "cancel_pay_run example_books (Date 2025 6 5) 2 lg1 (?pr\<lparr>pr_status := Run_Completed\<rparr>) = Inr (pr2, lg2)"
    by (cases "cancel_pay_run example_books (Date 2025 6 5) 2 lg1 (?pr\<lparr>pr_status := Run_Completed\<rparr>)") auto
  moreover note p1
  ultimately have p: "post_run example_books (Date 2025 5 2) 1 new_ledger ?pr None None = Inr (b, lg1)"
    "cancel_pay_run example_books (Date 2025 6 5) 2 lg1 (?pr\<lparr>pr_status := Run_Completed\<rparr>) = Inr (pr2, lg2)"
    "map je_id (lg_entries lg1) = [1]" by simp_all
  have "complete_pay_run sample_pay_company [sample_employee] (Date 2025 5 2) 1 new_ledger (sample_run []) (Some True) None
      = Inr (?pr\<lparr>pr_status := Run_Completed\<rparr>, lg1)"
    using p(1) sample_books_open
    by (simp add: complete_pay_run_def sample_run_def disbursement_account_def old_regime_without_rate_def may_month_end
        sample_completed) (simp add: sample_employee_def sample_pay_company_def)
  from that [OF this p(2,3)] show thesis .
qed

theorem cancelled_run_undone_witness:
  "\<exists>pr1 lg1 pr2 lg2. complete_pay_run sample_pay_company [sample_employee] (Date 2025 5 2) 1 new_ledger (sample_run []) (Some True) None
      = Inr (pr1, lg1) \<and> cancel_pay_run example_books (Date 2025 6 5) 2 lg1 pr1 = Inr (pr2, lg2) \<and>
    balances lg2 = balances new_ledger \<and> pr_status pr2 = Run_Draft"
proof (rule sample_run_round_trip)
  fix pr1 lg1 pr2 lg2
  assume p: "complete_pay_run sample_pay_company [sample_employee] (Date 2025 5 2) 1 new_ledger (sample_run []) (Some True) None = Inr (pr1, lg1)"
    "cancel_pay_run example_books (Date 2025 6 5) 2 lg1 pr1 = Inr (pr2, lg2)" "map je_id (lg_entries lg1) = [1]"
  have b: "py_gl sample_pay_company = example_books" by (simp add: sample_pay_company_def)
  have r: "ledger_reachable example_books new_ledger" by (rule ledger_reachable.start) (simp add: new_ledger_def)
  have "(1::int) # [] = map je_id (lg_entries lg1)" using p(3) by simp
  then have "2 \<notin> je_id ` set (lg_entries lg1)" by (metis empty_iff insert_iff list.set list.set_map numeral_eq_one_iff num.distinct(1))
  then have "balances lg2 = balances new_ledger \<and> pr2 = pr1\<lparr>pr_status := Run_Draft\<rparr>"
    using cancelled_run_undone [of sample_pay_company, unfolded b, OF r _ _ p(1) _ p(2)]
    by (simp add: example_books_def posts_to_ledger_def new_ledger_def posted_sources_def)
  then show ?thesis using p by (intro exI [of _ pr1] exI [of _ lg1] exI [of _ pr2] exI [of _ lg2]) simp
qed

end
