(* ===== verification/Bill_Of_Materials.thy ===== *)
theory Bill_Of_Materials
  imports Py_Date Py_Decimal "HOL-Library.Multiset" "HOL-Library.Product_Lexorder"
begin

text \<open>
  Bills of materials (\<open>manufacturing/services/bom.py\<close>): the cycle check, the choice of the recipe in force, and
  the life of a revision (draft, active, archived).  The recipes of a company are a list in the order of their
  ids; their lines and outputs are part of them.
\<close>

section \<open>Recipes\<close>

record mfg_product =
  mp_id :: int
  mp_unit :: "int option"
  mp_alt_unit :: "int option"
  mp_conversion :: "rat option"

record bom_line =
  bln_component :: mfg_product
  bln_qty :: rat
  bln_unit :: "int option"
  bln_scrap :: rat
  bln_optional :: bool
  bln_phantom :: bool

datatype output_kind = CO_PRODUCT | BY_PRODUCT | SCRAP_OUT

record bom_output =
  bo_product :: int
  bo_kind :: output_kind
  bo_share :: rat

datatype bom_status = BOM_DRAFT | BOM_ACTIVE | BOM_ARCHIVED

record bom =
  bom_id :: int
  bom_product :: int
  bom_status :: bom_status
  bom_revision :: nat
  bom_from :: "date option"
  bom_to :: "date option"
  bom_default :: bool
  bom_customer :: "int option"
  bom_parent :: "int option"
  bom_locked :: bool
  bom_output_qty :: rat
  bom_yield :: rat
  bom_lines :: "bom_line list"
  bom_outputs :: "bom_output list"

section \<open>The cycle check\<close>

text \<open>Pairs of finished good and component.\<close>

type_synonym bom_edges = "(int \<times> int) list"

definition children_of :: "bom_edges \<Rightarrow> int \<Rightarrow> int list" where
  "children_of edges n = remdups (map snd (filter (\<lambda>(parent, _). parent = n) edges))"

definition active_edges :: "bom list \<Rightarrow> int option \<Rightarrow> bom_edges" where
  "active_edges boms ignored =
    concat (map (\<lambda>b. map (\<lambda>l. (bom_product b, mp_id (bln_component l))) (bom_lines b))
      (filter (\<lambda>b. bom_status b = BOM_ACTIVE \<and> Some (bom_id b) \<noteq> ignored) boms))"

text \<open>The walk of the code: a stack of nodes, each with the path that led to it.\<close>

function bom_walk :: "bom_edges \<Rightarrow> (int \<times> int list) list \<Rightarrow> bool" where
  "bom_walk edges [] = True"
| "bom_walk edges ((node, path) # stack) =
    (if list_ex (\<lambda>c. c \<in> set path) (children_of edges node) then False
     else bom_walk edges (rev (map (\<lambda>c. (c, c # path)) (children_of edges node)) @ stack))"
  by pat_completeness auto

definition room :: "bom_edges \<Rightarrow> int list \<Rightarrow> nat" where
  "room edges path = card (set (map snd edges) - set path)"

lemma children_iff: "c \<in> set (children_of edges n) \<longleftrightarrow> (n, c) \<in> set edges"
  by (force simp: children_of_def)

lemma room_less: "(n, c) \<in> set edges \<Longrightarrow> c \<notin> set path \<Longrightarrow> room edges (c # path) < room edges path"
  unfolding room_def by (intro psubset_card_mono) force+

termination bom_walk
proof (relation "inv_image (mult less_than) (\<lambda>(edges, stack). mset (map (room edges \<circ> snd) stack))")
  show "wf (inv_image (mult less_than) (\<lambda>(edges, stack). mset (map (room edges \<circ> snd) stack)))"
    by (intro wf_inv_image wf_mult) simp
next
  fix edges :: bom_edges and node :: int and path :: "int list" and stack :: "(int \<times> int list) list"
  assume no: "\<not> list_ex (\<lambda>c. c \<in> set path) (children_of edges node)"
  let ?new = "map (\<lambda>c. (c, c # path)) (children_of edges node)"
  let ?rest = "mset (map (room edges \<circ> snd) stack)"
  have "(?rest + mset (map (room edges \<circ> snd) ?new), ?rest + {#room edges path#}) \<in> mult less_than"
    using no by (intro one_step_implies_mult) (auto simp: list_ex_iff children_iff intro: room_less)
  then show "((edges, rev ?new @ stack), (edges, (node, path) # stack))
      \<in> inv_image (mult less_than) (\<lambda>(edges, stack). mset (map (room edges \<circ> snd) stack))"
    by (simp add: union_commute multiset.map_comp comp_def flip: rev_map)
qed

definition assert_no_bom_cycle :: "bom list \<Rightarrow> int \<Rightarrow> int list \<Rightarrow> int option \<Rightarrow> unit res" where
  "assert_no_bom_cycle boms fg components ignored =
    guard_res (list_ex (\<lambda>c. c = fg) components) (Business_Rule ''MFG_BOM_SELF_COMPONENT'') (
      let edges = filter (\<lambda>(parent, _). parent \<noteq> fg) (active_edges boms ignored) @ map (Pair fg) components in
      guard_res (\<not> bom_walk edges [(fg, [fg])]) (Business_Rule ''MFG_BOM_CYCLE'') (Inr ()))"

section \<open>The recipe in force\<close>

definition DATE_MIN :: date where "DATE_MIN = Date 1 1 1"

definition in_force :: "date \<Rightarrow> bom \<Rightarrow> bool" where
  "in_force d b = ((case bom_from b of None \<Rightarrow> True | Some f \<Rightarrow> f \<le> d) \<and> (case bom_to b of None \<Rightarrow> True | Some t \<Rightarrow> d \<le> t))"

definition bom_rank :: "bom \<Rightarrow> date \<times> bool \<times> nat" where
  "bom_rank b = ((case bom_from b of None \<Rightarrow> DATE_MIN | Some f \<Rightarrow> f), bom_default b, bom_revision b)"

definition pick_bom :: "date \<Rightarrow> bom list \<Rightarrow> bom option" where
  "pick_bom d qs = (let rows = sort_key bom_rank (filter (in_force d) qs) in if rows = [] then None else Some (last rows))"

definition active_of :: "bom list \<Rightarrow> int \<Rightarrow> int option \<Rightarrow> bom list" where
  "active_of boms p c = filter (\<lambda>b. bom_product b = p \<and> bom_status b = BOM_ACTIVE \<and> bom_customer b = c) boms"

definition resolve_bom :: "bom list \<Rightarrow> int \<Rightarrow> date \<Rightarrow> int option \<Rightarrow> bom res" where
  "resolve_bom boms p d customer =
    (let own = (case customer of None \<Rightarrow> None | Some _ \<Rightarrow> pick_bom d (active_of boms p customer)) in
     case (case own of None \<Rightarrow> pick_bom d (active_of boms p None) | Some b \<Rightarrow> Some b) of
       None \<Rightarrow> Inl (Business_Rule ''MFG_NO_ACTIVE_BOM'')
     | Some b \<Rightarrow> Inr b)"

section \<open>Revisions\<close>

definition next_revision_no :: "bom list \<Rightarrow> int \<Rightarrow> nat" where
  "next_revision_no boms p = foldr max (map bom_revision (filter (\<lambda>b. bom_product b = p) boms)) 0 + 1"

definition find_bom :: "bom list \<Rightarrow> int \<Rightarrow> bom option" where
  "find_bom boms i = find (\<lambda>b. bom_id b = i) boms"

definition put_bom :: "bom \<Rightarrow> bom list \<Rightarrow> bom list" where
  "put_bom b boms = map (\<lambda>x. if bom_id x = bom_id b then b else x) boms"

definition lock_bom :: "int \<Rightarrow> bom list \<Rightarrow> bom list" where
  "lock_bom i boms = map (\<lambda>b. if bom_id b = i then b\<lparr>bom_locked := True\<rparr> else b) boms"

definition assert_editable :: "bom \<Rightarrow> unit res" where
  "assert_editable b = guard_res (bom_locked b) (Business_Rule ''MFG_BOM_LOCKED'') (Inr ())"

definition create_revision :: "int \<Rightarrow> int \<Rightarrow> bom list \<Rightarrow> (bom \<times> bom list) res" where
  "create_revision new_id i boms =
    (case find_bom boms i of
       None \<Rightarrow> Inl (Runtime_Error ''DoesNotExist'')
     | Some source \<Rightarrow>
        let new = source\<lparr>bom_id := new_id, bom_status := BOM_DRAFT,
              bom_revision := next_revision_no boms (bom_product source), bom_from := None, bom_to := None,
              bom_default := False, bom_parent := Some (bom_id source), bom_locked := False\<rparr>
        in Inr (new, boms @ [new]))"

text \<open>The unique constraints on active defaults, for one product and customer (or none).\<close>

definition one_default :: "bom list \<Rightarrow> bool" where
  "one_default boms = distinct (map (\<lambda>b. (bom_product b, bom_customer b))
     (filter (\<lambda>b. bom_status b = BOM_ACTIVE \<and> bom_default b) boms))"

definition is_sibling :: "bom \<Rightarrow> bom \<Rightarrow> bool" where
  "is_sibling b x = (bom_product x = bom_product b \<and> bom_customer x = bom_customer b
     \<and> bom_status x = BOM_ACTIVE \<and> bom_id x \<noteq> bom_id b)"

definition close_window :: "date \<Rightarrow> bool \<Rightarrow> bom \<Rightarrow> bom" where
  "close_window start make_default x =
    x\<lparr>bom_to := (if bom_from x \<noteq> Some start \<and> (case bom_to x of None \<Rightarrow> True | Some t \<Rightarrow> start \<le> t)
         then Some (prev_day start) else bom_to x),
      bom_default := bom_default x \<and> \<not> make_default\<rparr>"

definition activate_revision ::
  "date \<Rightarrow> int \<Rightarrow> bool \<Rightarrow> date option \<Rightarrow> bom list \<Rightarrow> (bom \<times> bom list) res" where
  "activate_revision today i make_default effective_from boms =
    (case find_bom boms i of
       None \<Rightarrow> Inl (Runtime_Error ''DoesNotExist'')
     | Some b \<Rightarrow>
        guard_res (bom_lines b = []) (Business_Rule ''MFG_BOM_EMPTY'') (
        let start = (case effective_from of Some f \<Rightarrow> f | None \<Rightarrow> (case bom_from b of Some f \<Rightarrow> f | None \<Rightarrow> today)) in
        guard_res (list_ex (\<lambda>x. is_sibling b x \<and> (case bom_from x of None \<Rightarrow> False | Some f \<Rightarrow> start < f)) boms)
          (Business_Rule ''MFG_REVISION_OVERLAP'') (
        let b' = b\<lparr>bom_status := BOM_ACTIVE, bom_from := Some start, bom_default := bom_default b \<or> make_default\<rparr>;
            boms' = put_bom b' (map (\<lambda>x. if is_sibling b x then close_window start make_default x else x) boms) in
        guard_res (\<not> one_default boms') (Runtime_Error ''IntegrityError'') (Inr (b', boms')))))"

definition archive_revision :: "int \<Rightarrow> bom list \<Rightarrow> (bom \<times> bom list) res" where
  "archive_revision i boms =
    (case find_bom boms i of
       None \<Rightarrow> Inl (Runtime_Error ''DoesNotExist'')
     | Some b \<Rightarrow> let b' = b\<lparr>bom_status := BOM_ARCHIVED, bom_default := False\<rparr> in Inr (b', put_bom b' boms))"

section \<open>Checking a payload\<close>

record line_payload =
  lp_component :: mfg_product
  lp_unit :: "int option"
  lp_scrap :: "rat option"

definition check_line :: "line_payload \<Rightarrow> unit res" where
  "check_line l =
    guard_res (case lp_unit l of None \<Rightarrow> False
        | Some u \<Rightarrow> mp_unit (lp_component l) \<noteq> Some u \<and> mp_alt_unit (lp_component l) \<noteq> Some u)
      (Business_Rule ''MFG_BAD_LINE_UNIT'') (
    guard_res (\<not> (0 \<le> or0 (lp_scrap l) \<and> or0 (lp_scrap l) < 100)) (Business_Rule ''MFG_BAD_SCRAP_PCT'') (Inr ()))"

definition check_output :: "int \<Rightarrow> int set \<Rightarrow> bom_output \<Rightarrow> rat \<Rightarrow> rat res" where
  "check_output fg components out shares =
    guard_res (bo_product out = fg) (Business_Rule ''MFG_OUTPUT_IS_MAIN'') (
    guard_res (bo_product out \<in> components) (Business_Rule ''MFG_OUTPUT_IS_COMPONENT'') (
    if bo_kind out = CO_PRODUCT then Inr (shares + bo_share out)
    else guard_res (bo_share out \<noteq> 0) (Business_Rule ''MFG_BAD_COST_SHARE'') (Inr shares)))"

definition validate_content ::
  "bom list \<Rightarrow> int \<Rightarrow> line_payload list \<Rightarrow> bom_output list \<Rightarrow> rat option \<Rightarrow> rat option \<Rightarrow> unit res" where
  "validate_content boms fg ls outs output_qty yield_pct =
    guard_res (case output_qty of None \<Rightarrow> False | Some q \<Rightarrow> q \<le> 0) (Business_Rule ''MFG_BAD_BATCH_SIZE'') (
    guard_res (case yield_pct of None \<Rightarrow> False | Some y \<Rightarrow> \<not> (0 < y \<and> y \<le> 100)) (Business_Rule ''MFG_BAD_YIELD'') (
    bind_res (assert_no_bom_cycle boms fg (map (mp_id \<circ> lp_component) ls) None) (\<lambda>_.
    bind_res (map_res check_line ls) (\<lambda>_.
    bind_res (fold_res (check_output fg (set (map (mp_id \<circ> lp_component) ls))) outs 0) (\<lambda>shares.
    guard_res (100 < shares) (Business_Rule ''MFG_BAD_COST_SHARE'') (Inr ()))))))"

section \<open>The check finds exactly the cycles\<close>

text \<open>A node is doomed on a path when some walk from it comes back to the path or to itself.\<close>

inductive doomed :: "bom_edges \<Rightarrow> int \<Rightarrow> int set \<Rightarrow> bool" for edges where
  hit: "(n, c) \<in> set edges \<Longrightarrow> c \<in> path \<Longrightarrow> doomed edges n path"
| on: "(n, c) \<in> set edges \<Longrightarrow> doomed edges c (insert c path) \<Longrightarrow> doomed edges n path"

inductive_simps doomed_iff: "doomed edges n path"

lemma walk_doomed: "bom_walk edges stack \<longleftrightarrow> (\<forall>(n, path)\<in>set stack. \<not> doomed edges n (set path))"
proof (induction edges stack rule: bom_walk.induct)
  case (2 edges node path stack)
  show ?case
  proof (cases "list_ex (\<lambda>c. c \<in> set path) (children_of edges node)")
    case True
    then have "doomed edges node (set path)" by (auto simp: list_ex_iff children_iff intro: doomed.hit)
    then show ?thesis using True by simp
  next
    case False
    have "doomed edges node (set path) \<longleftrightarrow> (\<exists>c\<in>set (children_of edges node). doomed edges c (insert c (set path)))"
      using False by (subst doomed_iff) (auto simp: list_ex_iff children_iff)
    moreover have "bom_walk edges ((node, path) # stack) \<longleftrightarrow>
        (\<forall>c\<in>set (children_of edges node). \<not> doomed edges c (insert c (set path))) \<and>
        (\<forall>(n, path)\<in>set stack. \<not> doomed edges n (set path))"
      using False 2 by (simp add: ball_Un)
    ultimately show ?thesis by auto
  qed
qed simp

lemma doomed_cycle:
  assumes "doomed edges n path" and "\<forall>x\<in>path. (x, n) \<in> (set edges)\<^sup>*"
  shows "\<exists>c. (n, c) \<in> (set edges)\<^sup>+ \<and> (c, c) \<in> (set edges)\<^sup>+"
  using assms
proof (induction rule: doomed.induct)
  case (hit n c path)
  then have "(c, c) \<in> (set edges)\<^sup>+" by (meson rtrancl_into_trancl1)
  then show ?case using hit.hyps(1) by blast
next
  case (on n c path)
  have "\<forall>x\<in>insert c path. (x, c) \<in> (set edges)\<^sup>*"
    using on.hyps(1) on.prems by (auto intro: rtrancl_into_rtrancl)
  then obtain m where "(c, m) \<in> (set edges)\<^sup>+" "(m, m) \<in> (set edges)\<^sup>+" using on.IH by blast
  then show ?case using on.hyps(1) by (meson r_into_trancl trancl_trans)
qed

text \<open>A node from which a cycle can be reached always has a successor of the same kind.\<close>

lemma endless_step:
  assumes "(n, m) \<in> R\<^sup>*" and "(m, m) \<in> R\<^sup>+"
  obtains c where "(n, c) \<in> R" "(c, m) \<in> R\<^sup>*"
proof -
  have "(n, m) \<in> R\<^sup>+" using assms by (meson rtrancl_trancl_trancl)
  then show thesis using that by (meson tranclD)
qed

lemma cycle_doomed:
  assumes "(n, m) \<in> (set edges)\<^sup>*" and "(m, m) \<in> (set edges)\<^sup>+" and "finite path"
  shows "doomed edges n path"
  using assms(1,3)
proof (induction "card (set (map snd edges) - path)" arbitrary: n path rule: less_induct)
  case less
  obtain c where c: "(n, c) \<in> set edges" "(c, m) \<in> (set edges)\<^sup>*"
    using endless_step [OF less.prems(1) assms(2)] by blast
  show ?case
  proof (cases "c \<in> path")
    case True
    then show ?thesis using c(1) by (rule doomed.hit [rotated])
  next
    case False
    have "c \<in> set (map snd edges)" using c(1) by force
    then have "card (set (map snd edges) - insert c path) < card (set (map snd edges) - path)"
      using False by (intro psubset_card_mono) auto
    then have "doomed edges c (insert c path)" using less.hyps c(2) less.prems(2) by blast
    then show ?thesis using c(1) by (rule doomed.on [rotated])
  qed
qed

definition recipe_graph :: "bom list \<Rightarrow> int \<Rightarrow> int list \<Rightarrow> int option \<Rightarrow> (int \<times> int) set" where
  "recipe_graph boms fg components ignored =
    {(a, b). (a = fg \<and> b \<in> set components) \<or> (a \<noteq> fg \<and> (\<exists>x\<in>set boms. bom_status x = BOM_ACTIVE
       \<and> Some (bom_id x) \<noteq> ignored \<and> bom_product x = a \<and> b \<in> (mp_id \<circ> bln_component) ` set (bom_lines x)))}"

text \<open>
  C21. The cycle check always ends and accepts a list of components exactly when, in the graph of the active recipes with
  the finished good's own recipe replaced by the new list, no cycle can be reached from the finished good.
\<close>

theorem bom_check_exact:
  "assert_no_bom_cycle boms fg components ignored = Inr () \<longleftrightarrow>
    (let G = recipe_graph boms fg components ignored in \<nexists>n. (fg, n) \<in> G\<^sup>* \<and> (n, n) \<in> G\<^sup>+)"
proof -
  define edges where "edges = filter (\<lambda>(parent, _). parent \<noteq> fg) (active_edges boms ignored) @ map (Pair fg) components"
  have G: "recipe_graph boms fg components ignored = set edges"
    by (auto simp: recipe_graph_def edges_def active_edges_def image_iff)
  have walk: "bom_walk edges [(fg, [fg])] \<longleftrightarrow> (\<nexists>n. (fg, n) \<in> (set edges)\<^sup>* \<and> (n, n) \<in> (set edges)\<^sup>+)"
  proof -
    have "doomed edges fg {fg} \<longleftrightarrow> (\<exists>n. (fg, n) \<in> (set edges)\<^sup>* \<and> (n, n) \<in> (set edges)\<^sup>+)"
      using doomed_cycle [of edges fg "{fg}"] cycle_doomed [of fg _ edges "{fg}"]
      by (auto intro: trancl_into_rtrancl)
    then show ?thesis by (simp add: walk_doomed)
  qed
  have self: "(fg, fg) \<in> (set edges)\<^sup>+" if "fg \<in> set components"
    using that by (auto simp: edges_def)
  show ?thesis
    unfolding G Let_def using walk self
    by (auto simp: assert_no_bom_cycle_def edges_def [symmetric] guard_res_def list_ex_iff)
qed

section \<open>Which recipe is in force\<close>

lemma pick_facts:
  assumes "pick_bom d qs = Some b"
  shows "b \<in> set qs" "in_force d b" "\<And>x. x \<in> set qs \<Longrightarrow> in_force d x \<Longrightarrow> bom_rank x \<le> bom_rank b"
proof -
  let ?rows = "sort_key bom_rank (filter (in_force d) qs)"
  have r: "?rows \<noteq> []" "b = last ?rows" using assms by (auto simp: pick_bom_def Let_def split: if_splits)
  then have "b \<in> set ?rows" using last_in_set [OF r(1)] by (simp only:)
  then show "b \<in> set qs" "in_force d b" unfolding set_sort by simp_all
  obtain rs where rs: "?rows = rs @ [b]" using r by (metis append_butlast_last_id)
  have "sorted (map bom_rank ?rows)" by simp
  then have "\<forall>x\<in>set rs. bom_rank x \<le> bom_rank b" unfolding rs by (simp add: sorted_append)
  moreover have "x \<in> set ?rows" if "x \<in> set qs" "in_force d x" for x using that by simp
  ultimately show "bom_rank x \<le> bom_rank b" if "x \<in> set qs" "in_force d x" for x
    using that unfolding rs by (metis Un_iff empty_iff insert_iff list.set(1,2) order_refl set_append)
qed

lemma pick_none: "pick_bom d qs = None \<longleftrightarrow> (\<forall>x\<in>set qs. \<not> in_force d x)"
proof -
  have "sort_key bom_rank (filter (in_force d) qs) = [] \<longleftrightarrow> filter (in_force d) qs = []"
    by (metis length_0_conv length_sort)
  then show ?thesis by (simp add: pick_bom_def Let_def filter_empty_conv)
qed

lemma pick_best:
  assumes "b \<in> set qs" "in_force d b" "\<And>x. x \<in> set qs \<Longrightarrow> in_force d x \<Longrightarrow> x \<noteq> b \<Longrightarrow> bom_rank x < bom_rank b"
  shows "pick_bom d qs = Some b"
proof (cases "pick_bom d qs")
  case None
  then show ?thesis using assms(1,2) by (simp add: pick_none)
next
  case (Some x)
  have "bom_rank b \<le> bom_rank x" using pick_facts(3) [OF Some assms(1,2)] .
  then have "x = b" using assms(3) [OF pick_facts(1,2) [OF Some]] by (meson not_le)
  then show ?thesis using Some by simp
qed

section \<open>What activation does\<close>

lemma find_bom_mem: "find_bom boms i = Some b \<Longrightarrow> b \<in> set boms \<and> bom_id b = i"
  by (auto simp: find_bom_def find_Some_iff)

lemma close_window_simps [simp]:
  "bom_id (close_window s m x) = bom_id x" "bom_product (close_window s m x) = bom_product x"
  "bom_customer (close_window s m x) = bom_customer x" "bom_status (close_window s m x) = bom_status x"
  "bom_from (close_window s m x) = bom_from x" "bom_revision (close_window s m x) = bom_revision x"
  "bom_lines (close_window s m x) = bom_lines x" "bom_default (close_window s m x) \<longleftrightarrow> bom_default x \<and> \<not> m"
  by (simp_all add: close_window_def)

lemma activate_elim:
  assumes "activate_revision today i m ef boms = Inr (b, boms')"
  obtains b0 start where "find_bom boms i = Some b0" "bom_lines b0 \<noteq> []" "bom_from b = Some start"
    "\<And>x. x \<in> set boms \<Longrightarrow> is_sibling b0 x \<Longrightarrow> (case bom_from x of None \<Rightarrow> True | Some f \<Rightarrow> f \<le> start)"
    "b = b0\<lparr>bom_status := BOM_ACTIVE, bom_from := Some start, bom_default := bom_default b0 \<or> m\<rparr>"
    "boms' = put_bom b (map (\<lambda>x. if is_sibling b0 x then close_window start m x else x) boms)" "one_default boms'"
proof (cases "find_bom boms i")
  case None
  then show thesis using assms by (simp add: activate_revision_def)
next
  case (Some b0)
  define start where "start = (case ef of Some f \<Rightarrow> f | None \<Rightarrow> (case bom_from b0 of Some f \<Rightarrow> f | None \<Rightarrow> today))"
  let ?b = "b0\<lparr>bom_status := BOM_ACTIVE, bom_from := Some start, bom_default := bom_default b0 \<or> m\<rparr>"
  let ?l = "put_bom ?b (map (\<lambda>x. if is_sibling b0 x then close_window start m x else x) boms)"
  let ?late = "list_ex (\<lambda>x. is_sibling b0 x \<and> (case bom_from x of None \<Rightarrow> False | Some f \<Rightarrow> start < f)) boms"
  have "bom_lines b0 \<noteq> [] \<and> \<not> ?late \<and> one_default ?l \<and> ?b = b \<and> ?l = boms'"
    using assms unfolding activate_revision_def Some option.case Let_def start_def [symmetric]
      guard_res_Inr_iff not_not sum.inject prod.inject by blast
  then have r: "bom_lines b0 \<noteq> []" "one_default ?l" "b = ?b" "boms' = ?l" "\<not> ?late" by blast+
  have "case bom_from x of None \<Rightarrow> True | Some f \<Rightarrow> f \<le> start" if "x \<in> set boms" "is_sibling b0 x" for x
    using r(5) that by (auto simp: list_ex_iff not_less split: option.splits)
  then show thesis using that [of b0 start] Some r(1-4) by simp
qed

text \<open>The active recipes of the product after an activation: the new one, and its siblings with their windows closed.\<close>

lemma activated_list:
  assumes a: "activate_revision today i m ef boms = Inr (b, boms')" and dist: "distinct (map bom_id boms)"
    and s: "bom_from b = Some start"
  shows "set (active_of boms' (bom_product b) (bom_customer b)) =
    insert b (close_window start m ` {x \<in> set (active_of boms (bom_product b) (bom_customer b)). bom_id x \<noteq> i})"
proof (rule activate_elim [OF a])
  fix b0 start'
  assume b0: "find_bom boms i = Some b0" and s': "bom_from b = Some start'"
    and b: "b = b0\<lparr>bom_status := BOM_ACTIVE, bom_from := Some start', bom_default := bom_default b0 \<or> m\<rparr>"
    and boms': "boms' = put_bom b (map (\<lambda>x. if is_sibling b0 x then close_window start' m x else x) boms)"
  have st: "start' = start" using s s' by simp
  have i: "bom_id b0 = i" "b0 \<in> set boms" using find_bom_mem [OF b0] by auto
  let ?f = "\<lambda>x. if is_sibling b0 x then close_window start m x else x"
  let ?A = "{x \<in> set (active_of boms (bom_product b) (bom_customer b)). bom_id x \<noteq> i}"
  have k: "bom_id b = i" "bom_product b = bom_product b0" "bom_customer b = bom_customer b0" "bom_status b = BOM_ACTIVE"
    using i by (simp_all add: b)
  have mem: "y \<in> set boms' \<longleftrightarrow> (\<exists>x\<in>set boms. y = (if bom_id x = i then b else ?f x))" for y
  proof -
    have "bom_id (?f x) = bom_id x" for x by simp
    then show ?thesis unfolding boms' put_bom_def st k(1) set_map image_image image_iff by presburger
  qed
  have sib: "is_sibling b0 x \<longleftrightarrow> x \<in> ?A" if "x \<in> set boms" for x
    using that i by (auto simp: is_sibling_def active_of_def k)
  show ?thesis
  proof (intro set_eqI iffI)
    fix y assume "y \<in> set (active_of boms' (bom_product b) (bom_customer b))"
    then obtain x where x: "x \<in> set boms" "y = (if bom_id x = i then b else ?f x)" and
      y: "bom_product y = bom_product b" "bom_status y = BOM_ACTIVE" "bom_customer y = bom_customer b"
      using mem by (auto simp: active_of_def)
    show "y \<in> insert b (close_window start m ` ?A)"
    proof (cases "bom_id x = i")
      case False
      then have "x \<in> ?A" using x y by (auto simp: active_of_def split: if_splits)
      then show ?thesis using x False sib by auto
    qed (use x in simp)
  next
    fix y assume "y \<in> insert b (close_window start m ` ?A)"
    then consider "y = b" | x where "x \<in> ?A" "y = close_window start m x" by blast
    then show "y \<in> set (active_of boms' (bom_product b) (bom_customer b))"
    proof cases
      case 1
      then show ?thesis using i k mem by (auto simp: active_of_def)
    next
      case (2 x)
      then have x: "x \<in> set boms" "bom_id x \<noteq> i" by (auto simp: active_of_def)
      then have "y \<in> set boms'" unfolding mem using 2 sib [OF x(1)] by (intro bexI [of _ x]) auto
      then show ?thesis using 2 by (auto simp: active_of_def)
    qed
  qed
qed

lemma date_min_le: "1 \<le> d_year d \<Longrightarrow> valid_date d \<Longrightarrow> DATE_MIN \<le> d"
  by (cases d) (auto simp: DATE_MIN_def less_eq_date_def valid_date_def)

lemma closed_not_in_force:
  assumes "valid_date start" and "start \<le> d" and "bom_from x \<noteq> Some start"
  shows "\<not> in_force d (close_window start m x)"
proof -
  have "prev_day start < start" using assms(1) by (rule prev_day_less)
  then show ?thesis using assms(2,3) by (auto simp: in_force_def close_window_def split: option.splits)
qed

lemma window_before:
  assumes "valid_date start" and "valid_date d" and "d < start"
  shows "in_force d (close_window start m x) = in_force d x"
  using assms le_prev_day_iff [OF assms(2,1)]
  by (auto simp: in_force_def close_window_def split: option.splits)

lemma resolve_generic:
  "resolve_bom boms p d None = (case pick_bom d (active_of boms p None) of None \<Rightarrow> Inl (Business_Rule ''MFG_NO_ACTIVE_BOM'') | Some b \<Rightarrow> Inr b)"
  by (simp add: resolve_bom_def)

lemma resolve_own:
  "pick_bom d (active_of boms p c) = Some b \<Longrightarrow> resolve_bom boms p d c = Inr b"
  by (cases c) (simp_all add: resolve_bom_def)

text \<open>
  Activating a revision as the default hands over cleanly: from its start on the product (for that customer) resolves
  to it, and every earlier day still resolves to the revision that was in force then, as long as no two active
  revisions start on the same day.
\<close>

theorem activation_hands_over:
  assumes a: "activate_revision today i True ef boms = Inr (b, boms')" and "distinct (map bom_id boms)"
    and "bom_to b = None" and start: "bom_from b = Some start" "valid_date start"
  shows "(\<forall>d\<ge>start. resolve_bom boms' (bom_product b) d (bom_customer b) = Inr b) \<and>
    (\<forall>d x. valid_date d \<and> d < start \<and> bom_customer b = None \<and> i \<notin> bom_id ` set (active_of boms (bom_product b) None) \<and>
       distinct (map (fst \<circ> bom_rank) (active_of boms (bom_product b) None)) \<and>
       resolve_bom boms (bom_product b) d None = Inr x \<longrightarrow>
       (\<exists>x'. resolve_bom boms' (bom_product b) d None = Inr x' \<and> bom_id x' = bom_id x \<and> bom_lines x' = bom_lines x))"
proof (intro conjI allI impI)
  note mem = activated_list [OF a assms(2) start(1)]
  have def: "bom_default b" by (rule activate_elim [OF a]) simp
  fix d
  assume d: "start \<le> d"
  have "pick_bom d (active_of boms' (bom_product b) (bom_customer b)) = Some b"
  proof (rule pick_best)
    show "b \<in> set (active_of boms' (bom_product b) (bom_customer b))" using mem by simp
    show "in_force d b" using d assms(3) start(1) by (simp add: in_force_def)
    fix x assume "x \<in> set (active_of boms' (bom_product b) (bom_customer b))" "in_force d x" "x \<noteq> b"
    then obtain y where y: "x = close_window start True y" using mem by auto
    then have "bom_from y = Some start" using closed_not_in_force [OF start(2) d] \<open>in_force d x\<close> by blast
    then show "bom_rank x < bom_rank b" using start(1) def by (simp add: bom_rank_def y less_prod_def)
  qed
  then show "resolve_bom boms' (bom_product b) d (bom_customer b) = Inr b" by (rule resolve_own)
next
  note mem = activated_list [OF a assms(2) start(1)]
  fix d x
  assume "valid_date d \<and> d < start \<and> bom_customer b = None \<and> i \<notin> bom_id ` set (active_of boms (bom_product b) None) \<and>
       distinct (map (fst \<circ> bom_rank) (active_of boms (bom_product b) None)) \<and>
       resolve_bom boms (bom_product b) d None = Inr x"
  then have d: "valid_date d" "d < start" and c: "bom_customer b = None"
    and i: "i \<notin> bom_id ` set (active_of boms (bom_product b) None)"
    and dist: "distinct (map (fst \<circ> bom_rank) (active_of boms (bom_product b) None))"
    and x: "pick_bom d (active_of boms (bom_product b) None) = Some x"
    by (auto simp: resolve_generic split: option.splits)
  have inj: "y = z" if "y \<in> set (active_of boms (bom_product b) None)" "z \<in> set (active_of boms (bom_product b) None)"
    "fst (bom_rank y) = fst (bom_rank z)" for y z
    using that dist by (metis comp_apply distinct_map inj_onD)
  let ?x = "close_window start True x"
  have "pick_bom d (active_of boms' (bom_product b) None) = Some ?x"
  proof (rule pick_best)
    show "?x \<in> set (active_of boms' (bom_product b) None)"
      using pick_facts(1) [OF x] i mem unfolding c by auto
    show "in_force d ?x" using pick_facts(2) [OF x] window_before [OF start(2) d] by simp
    fix y assume y: "y \<in> set (active_of boms' (bom_product b) None)" "in_force d y" "y \<noteq> ?x"
    have "\<not> in_force d b" using d(2) start(1) by (auto simp: in_force_def)
    then obtain z where z: "y = close_window start True z" "z \<in> set (active_of boms (bom_product b) None)"
      using y mem unfolding c by auto
    then have "in_force d z" "z \<noteq> x" using y window_before [OF start(2) d] by auto
    then have "fst (bom_rank z) \<le> fst (bom_rank x)" "fst (bom_rank z) \<noteq> fst (bom_rank x)"
      using pick_facts(3) [OF x z(2)] inj [OF z(2) pick_facts(1) [OF x]] by (auto simp: less_eq_prod_def)
    then have "fst (bom_rank y) < fst (bom_rank ?x)" by (simp add: z(1) bom_rank_def)
    then show "bom_rank y < bom_rank ?x" by (auto simp: less_prod_def)
  qed
  then show "\<exists>x'. resolve_bom boms' (bom_product b) d None = Inr x' \<and> bom_id x' = bom_id x \<and> bom_lines x' = bom_lines x"
    by (intro exI [of _ ?x]) (simp add: resolve_generic)
qed

text \<open>
  Bringing back a revision whose window was closed leaves the product without a recipe: activation keeps its
  old end date, so from the new start on neither it nor the siblings it closed are in force.
\<close>

theorem reactivated_revision_unusable:
  assumes a: "activate_revision today i m ef boms = Inr (b, boms')" and "distinct (map bom_id boms)"
    and start: "bom_from b = Some start" "valid_date start" and old: "bom_to b = Some t" "t < start"
    and "bom_customer b = None" and "list_all (\<lambda>x. bom_from x \<noteq> Some start) (active_of boms (bom_product b) None)"
    and d: "start \<le> d"
  shows "resolve_bom boms' (bom_product b) d None = Inl (Business_Rule ''MFG_NO_ACTIVE_BOM'')"
proof -
  note mem = activated_list [OF a assms(2) start(1)]
  have "\<not> in_force d b" using old d by (auto simp: in_force_def)
  moreover have "\<not> in_force d (close_window start m x)" if "x \<in> set (active_of boms (bom_product b) None)" for x
    using closed_not_in_force [OF start(2) d] assms(8) that by (auto simp: list_all_iff)
  ultimately have "pick_bom d (active_of boms' (bom_product b) None) = None"
    using mem assms(7) by (auto simp: pick_none)
  then show ?thesis by (simp add: resolve_generic)
qed

section \<open>Revisions stay well formed\<close>

inductive bom_step :: "bom list \<Rightarrow> bom list \<Rightarrow> bool" where
  drafting: "bom_id b \<notin> bom_id ` set boms \<Longrightarrow> bom_revision b = next_revision_no boms (bom_product b) \<Longrightarrow>
     bom_status b = BOM_DRAFT \<Longrightarrow> bom_step boms (boms @ [b])"
| revising: "create_revision new_id i boms = Inr (b, boms') \<Longrightarrow> new_id \<notin> bom_id ` set boms \<Longrightarrow> bom_step boms boms'"
| activating: "activate_revision today i m ef boms = Inr (b, boms') \<Longrightarrow> bom_step boms boms'"
| archiving: "archive_revision i boms = Inr (b, boms') \<Longrightarrow> bom_step boms boms'"
| locking: "bom_step boms (lock_bom i boms)"

inductive bom_reachable :: "bom list \<Rightarrow> bool" where
  none: "bom_reachable []"
| step: "bom_reachable boms \<Longrightarrow> bom_step boms boms' \<Longrightarrow> bom_reachable boms'"

definition boms_ok :: "bom list \<Rightarrow> bool" where
  "boms_ok boms = (distinct (map bom_id boms) \<and> distinct (map (\<lambda>b. (bom_product b, bom_revision b)) boms) \<and> one_default boms)"

lemma next_revision_fresh: "x \<in> set boms \<Longrightarrow> bom_product x = p \<Longrightarrow> bom_revision x < next_revision_no boms p"
proof -
  have "n \<le> foldr max ns (0::nat)" if "n \<in> set ns" for n ns using that by (induction ns) auto
  then show "x \<in> set boms \<Longrightarrow> bom_product x = p \<Longrightarrow> bom_revision x < next_revision_no boms p"
    by (force simp: next_revision_no_def less_Suc_eq_le)
qed

lemma draft_ok:
  assumes "boms_ok boms" "bom_id b \<notin> bom_id ` set boms" "bom_revision b = next_revision_no boms (bom_product b)" "bom_status b = BOM_DRAFT"
  shows "boms_ok (boms @ [b])"
  using assms next_revision_fresh [of _ boms "bom_product b"] by (force simp: boms_ok_def one_default_def)

lemma map_keys:
  assumes "\<And>x. x \<in> set boms \<Longrightarrow> bom_id (h x) = bom_id x \<and> bom_product (h x) = bom_product x \<and> bom_revision (h x) = bom_revision x"
    and "boms_ok boms" and "one_default (map h boms)"
  shows "boms_ok (map h boms)"
proof -
  have m: "map bom_id (map h boms) = map bom_id boms" "map (\<lambda>b. (bom_product b, bom_revision b)) (map h boms)
      = map (\<lambda>b. (bom_product b, bom_revision b)) boms"
    using assms(1) by simp_all
  then show ?thesis using assms(2,3) unfolding boms_ok_def m by blast
qed

lemma one_default_map:
  assumes "one_default boms" and "\<And>x. x \<in> set boms \<Longrightarrow> bom_product (h x) = bom_product x \<and> bom_customer (h x) = bom_customer x"
    and "\<And>x. x \<in> set boms \<Longrightarrow> bom_status (h x) = BOM_ACTIVE \<and> bom_default (h x) \<Longrightarrow> bom_status x = BOM_ACTIVE \<and> bom_default x"
  shows "one_default (map h boms)"
proof -
  let ?P = "\<lambda>b. bom_status b = BOM_ACTIVE \<and> bom_default b" and ?k = "\<lambda>b. (bom_product b, bom_customer b)"
  have "map ?k (filter ?P (map h boms)) = map ?k (filter (\<lambda>x. ?P (h x)) boms)"
    using assms(2) by (auto simp: filter_map comp_def)
  also have "filter (\<lambda>x. ?P (h x)) boms = filter (\<lambda>x. ?P (h x)) (filter ?P boms)"
    using assms(3) by (auto simp: intro!: filter_cong)
  finally have "map ?k (filter ?P (map h boms)) = map ?k (filter (\<lambda>x. ?P (h x)) (filter ?P boms))" .
  moreover have "distinct (map ?k (filter ?P boms))" using assms(1) unfolding one_default_def .
  ultimately show ?thesis unfolding one_default_def by (simp only: distinct_map_filter)
qed

lemma same_bom:
  assumes "distinct (map bom_id boms)" and "find_bom boms i = Some b0" and "x \<in> set boms" and "bom_id x = bom_id b0"
  shows "x = b0"
  using assms find_bom_mem by (auto simp: distinct_map dest: inj_onD)

lemma boms_ok_step:
  assumes "bom_step boms boms'" and ok: "boms_ok boms"
  shows "boms_ok boms'"
  using assms(1)
proof cases
  case (drafting b)
  then show ?thesis using draft_ok [OF ok] by simp
next
  case (revising new_id i b)
  then obtain s where "find_bom boms i = Some s" by (auto simp: create_revision_def split: option.splits)
  then show ?thesis using revising by (auto simp: create_revision_def Let_def intro!: draft_ok [OF ok])
next
  case (activating today i m ef b)
  show ?thesis
  proof (rule activate_elim [OF activating])
    fix b0 start
    assume b0: "find_bom boms i = Some b0"
      and b: "b = b0\<lparr>bom_status := BOM_ACTIVE, bom_from := Some start, bom_default := bom_default b0 \<or> m\<rparr>"
      and l: "boms' = put_bom b (map (\<lambda>x. if is_sibling b0 x then close_window start m x else x) boms)" and od: "one_default boms'"
    have i: "x = b0" if "x \<in> set boms" "bom_id x = bom_id b0" for x
      using same_bom [OF _ b0 that] ok by (simp add: boms_ok_def)
    let ?h = "\<lambda>x. if bom_id x = bom_id b0 then b else if is_sibling b0 x then close_window start m x else x"
    have "bom_id b = bom_id b0" by (simp add: b)
    then have eq: "boms' = map ?h boms" unfolding l put_bom_def map_map by (intro map_cong) simp_all
    show ?thesis unfolding eq
    proof (rule map_keys [OF _ ok])
      fix x assume x: "x \<in> set boms"
      show "bom_id (?h x) = bom_id x \<and> bom_product (?h x) = bom_product x \<and> bom_revision (?h x) = bom_revision x"
        using i [OF x] by (cases "bom_id x = bom_id b0") (auto simp: b)
    qed (use od eq in simp)
  qed
next
  case (archiving i b)
  then obtain b0 where b0: "find_bom boms i = Some b0" "b = b0\<lparr>bom_status := BOM_ARCHIVED, bom_default := False\<rparr>"
    "boms' = put_bom b boms" by (auto simp: archive_revision_def Let_def split: option.splits)
  have i: "x = b0" if "x \<in> set boms" "bom_id x = bom_id b0" for x
    using same_bom [OF _ b0(1) that] ok by (simp add: boms_ok_def)
  have od: "one_default boms" using ok by (simp add: boms_ok_def)
  have "one_default boms'" unfolding b0(3) put_bom_def
    by (rule one_default_map [OF od]) (auto simp: b0(2) dest: i split: if_splits)
  then show ?thesis unfolding b0(3) put_bom_def
    by (intro map_keys [OF _ ok]) (auto simp: b0(2) dest: i)
next
  case (locking i)
  have od: "one_default boms" using ok by (simp add: boms_ok_def)
  have "one_default boms'" unfolding locking lock_bom_def by (rule one_default_map [OF od]) (auto split: if_splits)
  then show ?thesis unfolding locking lock_bom_def by (intro map_keys [OF _ ok]) auto
qed

text \<open>
  However recipes are drafted, revised, activated, archived and locked, revision numbers stay unique per product
  and a product has at most one active default per customer; and activating never trips the
  database constraint on defaults: it is refused only for a recipe without materials or a later sibling.
\<close>

theorem revisions_well_formed:
  assumes "bom_reachable boms"
  shows "distinct (map (\<lambda>b. (bom_product b, bom_revision b)) boms) \<and> one_default boms \<and>
    (\<forall>today i ef e. activate_revision today i True ef boms = Inl e \<longrightarrow>
       e \<in> {Runtime_Error ''DoesNotExist'', Business_Rule ''MFG_BOM_EMPTY'', Business_Rule ''MFG_REVISION_OVERLAP''})"
proof -
  have ok: "boms_ok boms" using assms
    by induction (auto simp: boms_ok_step, simp add: boms_ok_def one_default_def)
  have "one_default (put_bom b (map (\<lambda>x. if is_sibling b0 x then close_window start True x else x) boms))"
    if b0: "find_bom boms i = Some b0" and b: "b = b0\<lparr>bom_status := BOM_ACTIVE, bom_from := Some start, bom_default := True\<rparr>"
    for i b0 b start
  proof -
    let ?P = "\<lambda>b. bom_status b = BOM_ACTIVE \<and> bom_default b" and ?k = "\<lambda>b. (bom_product b, bom_customer b)"
    let ?h = "\<lambda>x. if bom_id x = bom_id b0 then b else if is_sibling b0 x then close_window start True x else x"
    have dist: "distinct (map bom_id boms)" and od: "distinct (map ?k (filter ?P boms))"
      using ok by (simp_all add: boms_ok_def one_default_def)
    have i: "x = b0" if "x \<in> set boms" "bom_id x = bom_id b0" for x
      by (rule same_bom [OF dist b0 that])
    have eq: "put_bom b (map (\<lambda>x. if is_sibling b0 x then close_window start True x else x) boms) = map ?h boms"
      unfolding put_bom_def map_map by (rule map_cong) (auto simp: b)
    have key: "?k (?h x) = ?k x" if "x \<in> set boms" for x using i [OF that] by (auto simp: b)
    have "inj_on ?k (set (filter (\<lambda>x. ?P (?h x)) boms))"
    proof (rule inj_onI)
      fix x y
      assume x: "x \<in> set (filter (\<lambda>x. ?P (?h x)) boms)" and y: "y \<in> set (filter (\<lambda>x. ?P (?h x)) boms)" and k: "?k x = ?k y"
      show "x = y"
      proof (cases "bom_id x = bom_id b0 \<or> bom_id y = bom_id b0")
        case True
        have "bom_id x = bom_id b0 \<Longrightarrow> x = b0" "bom_id y = bom_id b0 \<Longrightarrow> y = b0" using i x y by auto
        then show ?thesis using True x y k by (auto simp: is_sibling_def split: if_splits)
      next
        case False
        then have "x \<in> set (filter ?P boms)" "y \<in> set (filter ?P boms)" using x y by (auto split: if_splits)
        then show ?thesis using od k by (simp add: distinct_map inj_on_def)
      qed
    qed
    moreover have "map ?k (filter ?P (map ?h boms)) = map ?k (filter (\<lambda>x. ?P (?h x)) boms)"
      unfolding filter_map map_map comp_def using key by (auto intro!: map_cong)
    ultimately show ?thesis unfolding one_default_def eq
      using dist by (simp add: distinct_map)
  qed
  then have "e \<in> {Runtime_Error ''DoesNotExist'', Business_Rule ''MFG_BOM_EMPTY'', Business_Rule ''MFG_REVISION_OVERLAP''}"
    if "activate_revision today i True ef boms = Inl e" for today i ef e
    using that by (auto simp: activate_revision_def guard_res_def Let_def split: option.splits if_splits)
  then show ?thesis using ok by (auto simp: boms_ok_def)
qed

section \<open>Worked examples\<close>

definition sample_material :: "int \<Rightarrow> bom_line" where
  "sample_material p = \<lparr>bln_component = \<lparr>mp_id = p, mp_unit = Some 1, mp_alt_unit = None, mp_conversion = None\<rparr>,
     bln_qty = 2, bln_unit = None, bln_scrap = 0, bln_optional = False, bln_phantom = False\<rparr>"

definition sample_draft :: "int \<Rightarrow> int \<Rightarrow> nat \<Rightarrow> int \<Rightarrow> bom" where
  "sample_draft i p n c = \<lparr>bom_id = i, bom_product = p, bom_status = BOM_DRAFT, bom_revision = n, bom_from = None, bom_to = None,
     bom_default = False, bom_customer = None, bom_parent = None, bom_locked = False, bom_output_qty = 1, bom_yield = 100,
     bom_lines = [sample_material c], bom_outputs = []\<rparr>"

text \<open>
  The check of a payload looks at active recipes only and activation checks nothing: two drafts that each pass can be
  activated one after the other and then form a cycle.
\<close>

lemma drafts_activate_into_cycle:
  "validate_content [] 1 [\<lparr>lp_component = bln_component (sample_material 2), lp_unit = None, lp_scrap = None\<rparr>] [] None None = Inr ()"
  "validate_content [sample_draft 10 1 1 2] 2 [\<lparr>lp_component = bln_component (sample_material 1), lp_unit = None, lp_scrap = None\<rparr>] [] None None
    = Inr ()"
  "case activate_revision (Date 2025 4 1) 10 True None [sample_draft 10 1 1 2, sample_draft 11 2 1 1] of Inl _ \<Rightarrow> False
   | Inr (_, boms1) \<Rightarrow> (case activate_revision (Date 2025 4 1) 11 True None boms1 of Inl _ \<Rightarrow> False
     | Inr (_, boms2) \<Rightarrow> assert_no_bom_cycle boms2 1 [2] None = Inl (Business_Rule ''MFG_BOM_CYCLE''))"
  by code_simp+

definition old_and_new :: "bom list" where
  "old_and_new = [(sample_draft 10 1 1 2)\<lparr>bom_status := BOM_ACTIVE, bom_from := Some (Date 2025 1 1), bom_default := True\<rparr>,
     sample_draft 11 1 2 3]"

lemma activated_example:
  obtains b boms' where "activate_revision (Date 2025 6 1) 11 True None old_and_new = Inr (b, boms')" "bom_to b = None"
    "bom_from b = Some (Date 2025 6 1)" "bom_product b = 1" "bom_customer b = None" "bom_id b = 11"
proof -
  have "case activate_revision (Date 2025 6 1) 11 True None old_and_new of Inl _ \<Rightarrow> False | Inr (b, _) \<Rightarrow>
     bom_to b = None \<and> bom_from b = Some (Date 2025 6 1) \<and> bom_product b = 1 \<and> bom_customer b = None \<and> bom_id b = 11"
    by code_simp
  then show thesis using that by (cases "activate_revision (Date 2025 6 1) 11 True None old_and_new") auto
qed

theorem activation_hands_over_witness:
  "\<exists>b boms' x'. activate_revision (Date 2025 6 1) 11 True None old_and_new = Inr (b, boms') \<and>
    resolve_bom boms' 1 (Date 2025 7 1) None = Inr b \<and> resolve_bom boms' 1 (Date 2025 5 31) None = Inr x' \<and> bom_id x' = 10"
proof (rule activated_example)
  fix b boms'
  assume b: "activate_revision (Date 2025 6 1) 11 True None old_and_new = Inr (b, boms')" "bom_to b = None"
    "bom_from b = Some (Date 2025 6 1)" "bom_product b = 1" "bom_customer b = None" "bom_id b = 11"
  have dist: "distinct (map bom_id old_and_new)" by (simp add: old_and_new_def sample_draft_def)
  have v: "valid_date (Date 2025 6 1)" "valid_date (Date 2025 5 31)" by (simp_all add: valid_date_def days_in_month_def)
  have act: "active_of old_and_new 1 None = [hd old_and_new]" by (simp add: active_of_def old_and_new_def sample_draft_def)
  obtain x where x: "resolve_bom old_and_new 1 (Date 2025 5 31) None = Inr x" "bom_id x = 10"
  proof -
    have "case resolve_bom old_and_new 1 (Date 2025 5 31) None of Inl _ \<Rightarrow> False | Inr x \<Rightarrow> bom_id x = 10" by code_simp
    then show thesis using that by (cases "resolve_bom old_and_new 1 (Date 2025 5 31) None") auto
  qed
  note h = activation_hands_over [OF b(1) dist b(2,3) v(1)]
  have "resolve_bom boms' 1 (Date 2025 7 1) None = Inr b"
    using h b(4,5) by (simp add: less_eq_date_def)
  moreover have "\<exists>x'. resolve_bom boms' (bom_product b) (Date 2025 5 31) None = Inr x' \<and> bom_id x' = bom_id x \<and> bom_lines x' = bom_lines x"
    using h v(2) b(4,5) act x(1)
    by (intro conjunct2 [OF h, rule_format]) (auto simp: less_date_def less_eq_date_def old_and_new_def sample_draft_def)
  ultimately show ?thesis using b x(2) by auto
qed

theorem reactivated_revision_unusable_witness:
  "case activate_revision (Date 2025 6 1) 11 True None old_and_new of Inl _ \<Rightarrow> False | Inr (_, boms1) \<Rightarrow>
    (case activate_revision (Date 2025 7 1) 10 True (Some (Date 2025 7 1)) boms1 of Inl _ \<Rightarrow> False
     | Inr (_, boms2) \<Rightarrow> resolve_bom boms2 1 (Date 2025 7 1) None = Inl (Business_Rule ''MFG_NO_ACTIVE_BOM''))"
proof -
  have "case activate_revision (Date 2025 6 1) 11 True None old_and_new of Inl _ \<Rightarrow> False | Inr (_, boms1) \<Rightarrow>
    distinct (map bom_id boms1) \<and> list_all (\<lambda>x. bom_from x \<noteq> Some (Date 2025 7 1)) (active_of boms1 1 None) \<and>
    (case activate_revision (Date 2025 7 1) 10 True (Some (Date 2025 7 1)) boms1 of Inl _ \<Rightarrow> False
     | Inr (b, _) \<Rightarrow> bom_from b = Some (Date 2025 7 1) \<and> bom_to b = Some (Date 2025 5 31) \<and> bom_customer b = None \<and> bom_product b = 1)"
    by code_simp
  then obtain c boms1 b boms2 where p: "activate_revision (Date 2025 6 1) 11 True None old_and_new = Inr (c, boms1)"
    "activate_revision (Date 2025 7 1) 10 True (Some (Date 2025 7 1)) boms1 = Inr (b, boms2)"
    "distinct (map bom_id boms1)" "list_all (\<lambda>x. bom_from x \<noteq> Some (Date 2025 7 1)) (active_of boms1 1 None)"
    "bom_from b = Some (Date 2025 7 1)" "bom_to b = Some (Date 2025 5 31)" "bom_customer b = None" "bom_product b = 1"
    unfolding returned by auto
  have "resolve_bom boms2 (bom_product b) (Date 2025 7 1) None = Inl (Business_Rule ''MFG_NO_ACTIVE_BOM'')"
    by (rule reactivated_revision_unusable [OF p(2,3,5) _ p(6)])
      (use p in \<open>simp_all add: valid_date_def days_in_month_def less_date_def less_eq_date_def\<close>)
  then show ?thesis using p by simp
qed

theorem revisions_well_formed_witness:
  "\<exists>boms. bom_reachable boms \<and> length boms = 1 \<and> one_default boms"
proof -
  have "bom_step [] ([] @ [sample_draft 10 1 1 2])"
    by (rule bom_step.drafting) (simp_all add: sample_draft_def next_revision_no_def)
  then have "bom_reachable [sample_draft 10 1 1 2]" using bom_reachable.step [OF bom_reachable.none] by simp
  then show ?thesis using revisions_well_formed by (intro exI [of _ "[sample_draft 10 1 1 2]"]) simp
qed

end
