(* ===== verification/Production.thy ===== *)
theory Production
  imports Bill_Of_Materials
begin

text \<open>
  Production arithmetic (\<open>manufacturing/services/common.py\<close>, \<open>planning.py\<close>, \<open>bom.py\<close>): the quantity of a component an
  order needs, the material lines of an order with kits looked through, the indented explosion of a recipe, and
  the valuation of a production receipt.
\<close>

section \<open>Requirements\<close>

definition qty3 :: "rat \<Rightarrow> rat" where "qty3 value = quantize_up 3 value"

definition unit_factor :: "mfg_product \<Rightarrow> int option \<Rightarrow> rat res" where
  "unit_factor p u =
    (case u of
       None \<Rightarrow> Inr 1
     | Some _ \<Rightarrow>
        if mp_alt_unit p = u then
          (let rate = (case mp_conversion p of None \<Rightarrow> 1 | Some r \<Rightarrow> r) in
           guard_res (rate \<le> 0) (Business_Rule ''MFG_BAD_CONVERSION'') (Inr rate))
        else Inr 1)"

definition required_qty :: "rat \<Rightarrow> rat \<Rightarrow> rat \<Rightarrow> rat \<Rightarrow> rat \<Rightarrow> rat \<Rightarrow> rat res" where
  "required_qty line_qty batch_size wo_qty scrap_pct factor yield_pct =
    guard_res (batch_size \<le> 0) (Business_Rule ''MFG_BAD_BATCH_SIZE'') (
    let yld = (if yield_pct = 0 then 100 else yield_pct) in
    guard_res (yld \<le> 0) (Business_Rule ''MFG_BAD_YIELD'')
      (Inr (qty3 (dmul (dmul (dmul (dmul line_qty (ddiv wo_qty batch_size)) (1 + scrap_pct / 100)) factor)
        (ddiv 100 yld)))))"

definition line_need :: "bom \<Rightarrow> rat \<Rightarrow> bom_line \<Rightarrow> (rat \<times> rat) res" where
  "line_need b need l =
    bind_res (unit_factor (bln_component l) (bln_unit l)) (\<lambda>factor.
    bind_res (required_qty (bln_qty l) (bom_output_qty b) need (bln_scrap l) factor (bom_yield b)) (\<lambda>q. Inr (factor, q)))"

section \<open>The material lines of an order\<close>

record snapshot_line =
  sn_component :: mfg_product
  sn_qty :: rat
  sn_per_unit :: rat
  sn_unit :: "int option"
  sn_scrap :: rat
  sn_optional :: bool

definition MAX_PHANTOM_DEPTH :: nat where "MAX_PHANTOM_DEPTH = 8"

lemma bind_res_cong [fundef_cong]:
  "m = m' \<Longrightarrow> (\<And>x. m' = Inr x \<Longrightarrow> f x = g x) \<Longrightarrow> bind_res m f = bind_res m' g"
  by (cases m') auto

lemma map_res_cong [fundef_cong]:
  "xs = ys \<Longrightarrow> (\<And>x. x \<in> set ys \<Longrightarrow> f x = g x) \<Longrightarrow> map_res f xs = map_res g ys"
  by (induction ys arbitrary: xs) auto

lemma map_res_mem: "map_res f xs = Inr ys \<Longrightarrow> y \<in> set ys \<Longrightarrow> \<exists>x\<in>set xs. f x = Inr y"
  by (induction xs arbitrary: ys) (auto simp: bind_res_Inr_iff)

function snapshot_lines :: "bom list \<Rightarrow> date \<Rightarrow> nat \<Rightarrow> int list \<Rightarrow> bom \<Rightarrow> rat \<Rightarrow> snapshot_line list res" where
  "snapshot_lines boms d depth path b wo_qty =
    (if MAX_PHANTOM_DEPTH < depth \<or> bom_id b \<in> set path then Inl (Business_Rule ''MFG_BOM_CYCLE'')
     else bind_res (map_res (\<lambda>l.
       bind_res (line_need b wo_qty l) (\<lambda>(factor, q).
         if bln_phantom l then
           bind_res (resolve_bom boms (mp_id (bln_component l)) d None) (\<lambda>child.
             snapshot_lines boms d (depth + 1) (path @ [bom_id b]) child q)
         else Inr [\<lparr>sn_component = bln_component l, sn_qty = q,
             sn_per_unit = ddiv (dmul (bln_qty l) factor) (bom_output_qty b), sn_unit = bln_unit l,
             sn_scrap = bln_scrap l, sn_optional = bln_optional l\<rparr>])) (bom_lines b)) (\<lambda>parts. Inr (concat parts)))"
  by pat_completeness auto

termination
  by (relation "measure (\<lambda>(boms, d, depth, path, b, q). MAX_PHANTOM_DEPTH + 1 - depth)") auto

declare snapshot_lines.simps [simp del]

section \<open>The indented explosion\<close>

datatype expand_mode = Expand_All | Expand_Phantom | Expand_None

record explode_row =
  xr_level :: nat
  xr_product :: mfg_product
  xr_qty :: rat
  xr_parent :: int
  xr_has_bom :: bool
  xr_phantom :: bool
  xr_optional :: bool

definition MAX_DEPTH :: nat where "MAX_DEPTH = 10"

definition try_bom :: "bom list \<Rightarrow> int \<Rightarrow> date \<Rightarrow> bom option" where
  "try_bom boms p d = (case resolve_bom boms p d None of Inl _ \<Rightarrow> None | Inr b \<Rightarrow> Some b)"

text \<open>An open node of the explosion: recipe, quantity, level, path of products, parent.\<close>

type_synonym explode_node = "bom \<times> rat \<times> nat \<times> int list \<times> int"

definition explode_line ::
  "bom list \<Rightarrow> date \<Rightarrow> expand_mode \<Rightarrow> explode_node \<Rightarrow> bom_line \<Rightarrow> (explode_row \<times> explode_node list) res" where
  "explode_line boms d mode node l =
    (let (b, need, level, path, parent) = node; p = mp_id (bln_component l) in
     bind_res (line_need b need l) (\<lambda>(_, q).
       let sub = try_bom boms p d;
           row = \<lparr>xr_level = level, xr_product = bln_component l, xr_qty = q, xr_parent = parent,
             xr_has_bom = (sub \<noteq> None), xr_phantom = bln_phantom l, xr_optional = bln_optional l\<rparr> in
       case sub of
         None \<Rightarrow> Inr (row, [])
       | Some child \<Rightarrow>
           if mode = Expand_All \<or> (mode = Expand_Phantom \<and> bln_phantom l)
           then guard_res (p \<in> set path) (Business_Rule ''MFG_BOM_CYCLE'') (Inr (row, [(child, q, level + 1, path @ [p], p)]))
           else Inr (row, [])))"

function explode_loop ::
  "bom list \<Rightarrow> date \<Rightarrow> expand_mode \<Rightarrow> explode_node list \<Rightarrow> explode_row list \<Rightarrow> explode_row list res" where
  "explode_loop boms d mode [] rows = Inr rows"
| "explode_loop boms d mode (node # stack) rows =
    (if MAX_DEPTH < fst (snd (snd node)) then Inl (Business_Rule ''MFG_BOM_TOO_DEEP'')
     else case map_res (explode_line boms d mode node) (bom_lines (fst node)) of
         Inl e \<Rightarrow> Inl e
       | Inr found \<Rightarrow> explode_loop boms d mode (concat (map snd found) @ stack) (rows @ map fst found))"
  by pat_completeness auto

definition node_level :: "explode_node \<Rightarrow> nat" where "node_level node = fst (snd (snd node))"

lemma explode_line_level:
  "explode_line boms d mode node l = Inr (row, kids) \<Longrightarrow> k \<in> set kids \<Longrightarrow> node_level k = node_level node + 1"
  by (auto simp: explode_line_def Let_def node_level_def bind_res_Inr_iff guard_res_Inr_iff split: prod.splits option.splits if_splits)

termination explode_loop
proof (relation "inv_image (mult less_than) (\<lambda>(boms, d, mode, stack, rows). mset (map (\<lambda>n. MAX_DEPTH + 1 - node_level n) stack))")
  show "wf (inv_image (mult less_than) (\<lambda>(boms :: bom list, d :: date, mode :: expand_mode, stack, rows :: explode_row list).
      mset (map (\<lambda>n. MAX_DEPTH + 1 - node_level n) stack)))"
    by (intro wf_inv_image wf_mult) simp
next
  fix boms d mode node stack rows found
  assume lev: "\<not> MAX_DEPTH < fst (snd (snd node))"
    and found: "map_res (explode_line boms d mode node) (bom_lines (fst node)) = Inr found"
  let ?m = "\<lambda>n. MAX_DEPTH + 1 - node_level n"
  let ?kids = "concat (map snd found)"
  have "node_level k = node_level node + 1" if k: "k \<in> set ?kids" for k
  proof -
    obtain row kids where "(row, kids) \<in> set found" "k \<in> set kids" using k by auto
    then show ?thesis using map_res_mem [OF found] explode_line_level by blast
  qed
  then have "(mset (map ?m stack) + mset (map ?m ?kids), mset (map ?m stack) + {#?m node#}) \<in> mult less_than"
    using lev by (intro one_step_implies_mult) (auto simp: node_level_def)
  then show "((boms, d, mode, ?kids @ stack, rows @ map fst found), (boms, d, mode, node # stack, rows))
      \<in> inv_image (mult less_than) (\<lambda>(boms, d, mode, stack, rows). mset (map ?m stack))"
    by (simp add: union_commute)
qed

definition explode :: "bom list \<Rightarrow> int \<Rightarrow> rat \<Rightarrow> date \<Rightarrow> int option \<Rightarrow> expand_mode \<Rightarrow> explode_row list res" where
  "explode boms p q d customer mode =
    bind_res (resolve_bom boms p d customer) (\<lambda>b. explode_loop boms d mode [(b, q, 1, [p], p)] [])"

section \<open>The value of a receipt\<close>

datatype receipt_kind = Main | Co_Product | By_Product | Scrap

record cost_line =
  cl_kind :: receipt_kind
  cl_qty :: rat
  cl_est_unit :: rat
  cl_share :: rat
  cl_recovery :: rat

definition costed :: "cost_line \<Rightarrow> bool" where "costed l = (cl_kind l = Main \<or> cl_kind l = Co_Product)"

definition recovery_amount :: "cost_line \<Rightarrow> rat" where "recovery_amount l = q2 (cl_qty l * cl_recovery l)"

definition estimated :: "cost_line \<Rightarrow> rat" where "estimated l = q2 (cl_est_unit l * cl_qty l)"

definition recovery_total :: "cost_line list \<Rightarrow> rat" where
  "recovery_total ls = (\<Sum>l\<leftarrow>filter (\<lambda>l. \<not> costed l) ls. recovery_amount l)"

text \<open>The remaining pool by share; the last costed line takes what is left.\<close>

fun allot :: "rat \<Rightarrow> rat \<Rightarrow> rat \<Rightarrow> cost_line list \<Rightarrow> rat list" where
  "allot remaining shares allotted [] = []"
| "allot remaining shares allotted (l # ls) =
    (if \<not> costed l then recovery_amount l # allot remaining shares allotted ls
     else if list_ex costed ls
     then let a = q2 (ddiv (remaining * cl_share l) shares) in a # allot remaining shares (allotted + a) ls
     else q2 (remaining - allotted) # allot remaining shares allotted ls)"

fun take_off_first :: "(cost_line \<Rightarrow> bool) \<Rightarrow> rat \<Rightarrow> cost_line list \<Rightarrow> rat list \<Rightarrow> rat list" where
  "take_off_first P x (l # ls) (a # as) = (if P l then q2 (a - x) # as else a # take_off_first P x ls as)"
| "take_off_first P x _ as = as"

definition costed_total :: "cost_line list \<Rightarrow> rat list \<Rightarrow> rat" where
  "costed_total ls as = (\<Sum>(l, a)\<leftarrow>filter (\<lambda>(l, a). costed l) (zip ls as). a)"

definition share_base :: "cost_line list \<Rightarrow> rat" where
  "share_base ls = (let s = \<Sum>l\<leftarrow>filter costed ls. cl_share l in if s = 0 then 100 else s)"

text \<open>The line an excess is taken off: the first main line, or the first costed one.\<close>

definition main_line :: "cost_line list \<Rightarrow> cost_line \<Rightarrow> bool" where
  "main_line ls l = (if list_ex (\<lambda>l. cl_kind l = Main) ls then cl_kind l = Main else costed l)"

definition cost_receipt :: "rat \<Rightarrow> cost_line list \<Rightarrow> bool \<Rightarrow> rat option \<Rightarrow> rat list \<times> rat \<times> bool" where
  "cost_receipt pool ls is_final tolerance =
    (if is_final then
       (let remaining = max 0 (pool - recovery_total ls);
            amounts = allot remaining (share_base ls) 0 ls in
        case tolerance of
          None \<Rightarrow> (amounts, 0, False)
        | Some pct \<Rightarrow>
           (let expected = (\<Sum>l\<leftarrow>filter costed ls. estimated l);
                band = q2 (expected * pct / 100);
                total = costed_total ls amounts;
                residual = total - (expected + band) in
            if list_ex costed ls \<and> 0 < expected \<and> expected + band < total
            then (take_off_first (main_line ls) residual ls amounts, residual, False)
            else (amounts, 0, False)))
     else
       (let amounts = map (\<lambda>l. if costed l then estimated l else recovery_amount l) ls in
        (amounts, 0, pool + 5/1000 < sum_list amounts)))"

section \<open>The explosion is the recursive one\<close>

text \<open>The specification: the rows of a recipe, then the explosions of the sub-assemblies opened on it.\<close>

function expand :: "bom list \<Rightarrow> date \<Rightarrow> expand_mode \<Rightarrow> explode_node \<Rightarrow> explode_row list res" where
  "expand boms d mode node =
    (if MAX_DEPTH < node_level node then Inl (Business_Rule ''MFG_BOM_TOO_DEEP'')
     else bind_res (map_res (explode_line boms d mode node) (bom_lines (fst node))) (\<lambda>found.
       bind_res (map_res (\<lambda>k. if node_level k = node_level node + 1 then expand boms d mode k else Inr []) (concat (map snd found)))
         (\<lambda>parts. Inr (map fst found @ concat parts))))"
  by pat_completeness auto

termination
  by (relation "measure (\<lambda>(boms, d, mode, node). MAX_DEPTH + 1 - node_level node)") auto

declare expand.simps [simp del]

lemma map_res_append: "map_res f (xs @ ys) = bind_res (map_res f xs) (\<lambda>as. bind_res (map_res f ys) (\<lambda>bs. Inr (as @ bs)))"
  by (induction xs) (auto simp: bind_res_def split: sum.splits)

lemma expand_unfold:
  "expand boms d mode node =
    (if MAX_DEPTH < node_level node then Inl (Business_Rule ''MFG_BOM_TOO_DEEP'')
     else bind_res (map_res (explode_line boms d mode node) (bom_lines (fst node))) (\<lambda>found.
       bind_res (map_res (expand boms d mode) (concat (map snd found))) (\<lambda>parts. Inr (map fst found @ concat parts))))"
proof -
  have "map_res (\<lambda>k. if node_level k = node_level node + 1 then expand boms d mode k else Inr []) (concat (map snd found))
      = map_res (expand boms d mode) (concat (map snd found))"
    if found: "map_res (explode_line boms d mode node) (bom_lines (fst node)) = Inr found" for found
  proof (rule map_res_cong [OF refl])
    fix k assume k: "k \<in> set (concat (map snd found))"
    obtain row kids where "(row, kids) \<in> set found" "k \<in> set kids" using k by auto
    then have "node_level k = node_level node + 1" using map_res_mem [OF found] explode_line_level by blast
    then show "(if node_level k = node_level node + 1 then expand boms d mode k else Inr []) = expand boms d mode k" by simp
  qed
  then show ?thesis by (subst expand.simps) (auto intro!: bind_res_cong)
qed

lemma explode_loop_expand:
  "explode_loop boms d mode stack rows = bind_res (map_res (expand boms d mode) stack) (\<lambda>parts. Inr (rows @ concat parts))"
proof (induction boms d mode stack rows rule: explode_loop.induct)
  case (2 boms d mode node stack rows)
  show ?case
  proof (cases "MAX_DEPTH < node_level node")
    case True
    then show ?thesis by (simp add: expand_unfold node_level_def)
  next
    case False
    show ?thesis
    proof (cases "map_res (explode_line boms d mode node) (bom_lines (fst node))")
      case (Inl e)
      then show ?thesis using False by (simp add: expand_unfold [of boms d mode node] node_level_def)
    next
      case (Inr found)
      have "explode_loop boms d mode (node # stack) rows
          = bind_res (map_res (expand boms d mode) (concat (map snd found) @ stack)) (\<lambda>parts. Inr ((rows @ map fst found) @ concat parts))"
        using 2 Inr False by (simp add: node_level_def)
      also have "\<dots> = bind_res (map_res (expand boms d mode) (node # stack)) (\<lambda>parts. Inr (rows @ concat parts))"
        using False by (simp add: map_res_append expand_unfold [of boms d mode node] Inr)
          (auto simp: bind_res_def split: sum.splits)
      finally show ?thesis .
    qed
  qed
qed simp

text \<open>
  C40. The iterative explosion of a recipe always ends and gives exactly the recursive one: the rows of the recipe in its own
  order, then depth first the rows of every sub-assembly that is opened, or the first error in that order
  (a loop, or more than ten levels).
\<close>

theorem explode_is_recursive:
  "explode boms p q d customer mode = bind_res (resolve_bom boms p d customer) (\<lambda>b. expand boms d mode (b, q, 1, [p], p))"
proof -
  have "bind_res (bind_res r (\<lambda>part. Inr [part])) (\<lambda>parts. Inr (concat parts)) = r" for r :: "explode_row list res"
    by (cases r) simp_all
  then show ?thesis
    unfolding explode_def explode_loop_expand by (cases "resolve_bom boms p d customer") simp_all
qed

section \<open>A final receipt conserves the pool\<close>

lemma allot_length [simp]: "length (allot r s a ls) = length ls"
  by (induction r s a ls rule: allot.induct) (simp_all add: Let_def)

lemma allot_sum:
  assumes "q2 r = r" and "q2 a = a" and "list_ex costed ls"
  shows "sum_list (allot r s a ls) = recovery_total ls + (r - a)"
  using assms
proof (induction r s a ls rule: allot.induct)
  case (2 remaining shares allotted l ls)
  have rest: "sum_list (allot remaining shares x ls) = recovery_total ls" if "\<not> list_ex costed ls" for x
    using that by (induction ls arbitrary: x) (simp_all add: recovery_total_def)
  show ?case
  proof (cases "costed l")
    case False
    then show ?thesis using 2 by (simp add: recovery_total_def)
  next
    case True
    show ?thesis
    proof (cases "list_ex costed ls")
      case True
      then show ?thesis using 2 \<open>costed l\<close> by (simp add: recovery_total_def Let_def paisa.fixed_add)
    next
      case False
      then show ?thesis using 2 \<open>costed l\<close> rest by (simp add: recovery_total_def paisa.fixed_diff)
    qed
  qed
qed simp

lemma allot_paise: "x \<in> set (allot r s a ls) \<Longrightarrow> q2 x = x"
  by (induction r s a ls rule: allot.induct) (auto simp: Let_def recovery_amount_def split: if_splits)

lemma costed_total_split:
  "length as = length ls \<Longrightarrow> sum_list as = costed_total ls as + (\<Sum>(l, a)\<leftarrow>filter (\<lambda>(l, a). \<not> costed l) (zip ls as). a)"
  by (induction ls as rule: list_induct2') (auto simp: costed_total_def)

lemma allot_recoveries:
  "(\<Sum>(l, a)\<leftarrow>filter (\<lambda>(l, a). \<not> costed l) (zip ls (allot r s x ls)). a) = recovery_total ls"
  by (induction r s x ls rule: allot.induct) (auto simp: Let_def recovery_total_def)

lemma take_off_sum:
  assumes "length as = length ls" and "list_ex P ls" and "\<And>x. x \<in> set as \<Longrightarrow> q2 x = x" and "q2 y = y"
  shows "sum_list (take_off_first P y ls as) = sum_list as - y"
  using assms
proof (induction P y ls as rule: take_off_first.induct)
  case (1 P x l ls a as)
  then show ?case by (cases "P l") (auto simp: paisa.fixed_diff)
qed auto

text \<open>
  C24. The final receipt of a work order conserves its pool to the paisa: the amounts of its lines and the residual left for
  the variance account add up to the pool, whatever the shares, the rounding and the tolerance, unless
  by-products alone recover more than the pool, and then the costed lines share nothing.
\<close>

theorem final_receipt_conserves:
  assumes "cost_receipt pool ls True tolerance = (amounts, residual, exceeds)" and "list_ex costed ls" and "q2 pool = pool"
  shows "sum_list amounts + residual = max pool (recovery_total ls) \<and> 0 \<le> residual \<and> \<not> exceeds \<and> length amounts = length ls"
proof -
  let ?r = "max 0 (pool - recovery_total ls)" and ?s = "share_base ls" and ?P = "main_line ls"
  let ?a = "allot ?r ?s 0 ls"
  have rec: "q2 (recovery_total ls) = recovery_total ls"
    unfolding recovery_total_def by (intro paisa.fixed_sum_list) (simp add: recovery_amount_def)
  then have "q2 ?r = ?r" using assms(3) by (simp add: paisa.fixed_max paisa.fixed_diff)
  then have sum: "sum_list ?a = max pool (recovery_total ls)"
    using allot_sum [of ?r 0 ls ?s] assms(2) by simp
  show ?thesis
  proof (cases tolerance)
    case None
    then show ?thesis using assms(1) sum by (auto simp: cost_receipt_def Let_def)
  next
    case (Some pct)
    let ?e = "\<Sum>l\<leftarrow>filter costed ls. estimated l"
    let ?t = "?e + q2 (?e * pct / 100)" and ?c = "costed_total ls ?a"
    have "q2 ?e = ?e" by (intro paisa.fixed_sum_list) (simp add: estimated_def)
    then have t: "q2 ?t = ?t" by (simp add: paisa.fixed_add)
    have "?c = sum_list ?a - recovery_total ls"
      using costed_total_split [of ?a ls] allot_recoveries [of ls ?r ?s 0] by simp
    then have c: "q2 ?c = ?c" using sum rec assms(3) by (simp add: paisa.fixed_diff paisa.fixed_max)
    have P: "list_ex ?P ls" using assms(2) by (auto simp: list_ex_iff main_line_def)
    have off: "sum_list (take_off_first ?P (?c - ?t) ls ?a) = sum_list ?a - (?c - ?t)"
      by (rule take_off_sum [OF allot_length P _ paisa.fixed_diff [OF c t]]) (rule allot_paise)
    have len: "length (take_off_first P y ls as) = length as" for P y as
      by (induction P y ls as rule: take_off_first.induct) simp_all
    show ?thesis
    proof (cases "0 < ?e \<and> ?t < ?c")
      case True
      then have "cost_receipt pool ls True tolerance = (take_off_first ?P (?c - ?t) ls ?a, ?c - ?t, False)"
        using assms(2) Some by (simp add: cost_receipt_def Let_def)
      then have "amounts = take_off_first ?P (?c - ?t) ls ?a" "residual = ?c - ?t" "\<not> exceeds"
        unfolding assms(1) by blast+
      then show ?thesis using sum off True by (simp add: len)
    next
      case False
      then have "amounts = ?a" "residual = 0" "\<not> exceeds"
        using assms(1,2) Some by (auto simp: cost_receipt_def Let_def)
      then show ?thesis using sum by simp
    qed
  qed
qed

text \<open>With a tolerance the excess is taken off the main line alone, however small its share: its value can turn negative.\<close>

lemma main_line_below_zero:
  "cost_receipt 1000 [\<lparr>cl_kind = Main, cl_qty = 1, cl_est_unit = 10, cl_share = 10, cl_recovery = 0\<rparr>,
      \<lparr>cl_kind = Co_Product, cl_qty = 1, cl_est_unit = 90, cl_share = 90, cl_recovery = 0\<rparr>] True (Some 5)
    = ([- 795, 900], 895, False)"
proof -
  have d: "ddiv 10000 100 = 100" by (simp add: ddiv_def ctx28_paise q_eval)
  show ?thesis
    by (simp add: cost_receipt_def Let_def recovery_total_def costed_def d estimated_def costed_total_def share_base_def main_line_def) (simp add: q_eval)
qed

theorem final_receipt_conserves_witness:
  "(\<exists>as res. cost_receipt 1000 [\<lparr>cl_kind = Main, cl_qty = 1, cl_est_unit = 10, cl_share = 10,
      cl_recovery = 0\<rparr>, \<lparr>cl_kind = Co_Product, cl_qty = 1, cl_est_unit = 90, cl_share = 90, cl_recovery = 0\<rparr>] True (Some 5)
      = (as, res, False) \<and> sum_list as + res = 1000)"
proof -
  have "q2 1000 = 1000" by (simp add: q_eval)
  then show ?thesis using final_receipt_conserves [OF main_line_below_zero] main_line_below_zero
    by (simp add: costed_def recovery_total_def)
qed

end
