(* ===== verification/Audit_Chain.thy ===== *)
theory Audit_Chain
  imports Py_String "HOL-Library.Multiset" "HOL-Library.Product_Lexorder"
begin

text \<open>
  The hash chain over audit events (\<open>core/services/audit_chain.py\<close>): the canonical text of an event, sealing in batches,
  verification, and the comparison with an exported tip.  SHA-256 is the parameter \<open>sha\<close>; the metadata of an event
  is its JSON text, and its time the ISO text in UTC.
\<close>

section \<open>The canonical text of an event\<close>

record audit_event =
  ae_id :: nat
  ae_company :: "int option"
  ae_action :: string
  ae_entity_type :: string
  ae_entity_id :: string
  ae_description :: string
  ae_metadata :: string
  ae_created :: string
  ae_sealed :: bool            \<comment> \<open>\<open>sealed_at\<close> is set\<close>
  ae_seq :: nat
  ae_prev :: string
  ae_hash :: string

definition hex_digit :: "nat \<Rightarrow> char" where
  "hex_digit n = char_of (if n < 10 then 48 + n else 87 + n)"

text \<open>\<open>json.dumps\<close> of a string with \<open>ensure_ascii=False\<close>.\<close>

definition json_escape :: "char \<Rightarrow> string" where
  "json_escape c =
    (let n = ch_code c in
     if n = 34 then [char_of (92::nat), char_of (34::nat)]
     else if n = 92 then [char_of (92::nat), char_of (92::nat)]
     else if n = 10 then [char_of (92::nat), CHR ''n'']
     else if n = 13 then [char_of (92::nat), CHR ''r'']
     else if n = 9 then [char_of (92::nat), CHR ''t'']
     else if n = 12 then [char_of (92::nat), CHR ''f'']
     else if n = 8 then [char_of (92::nat), CHR ''b'']
     else if n < 32 then [char_of (92::nat), CHR ''u'', CHR ''0'', CHR ''0'', hex_digit (n div 16), hex_digit (n mod 16)]
     else [c])"

definition json_string :: "string \<Rightarrow> string" where
  "json_string s = CHR 0x22 # concat (map json_escape s) @ [CHR 0x22]"

text \<open>The keys in sorted order, without spaces.\<close>

definition canonical :: "audit_event \<Rightarrow> nat \<Rightarrow> string" where
  \<open>canonical e seq =
    ''{"action":'' @ json_string (ae_action e) @ '',"created_at":'' @ json_string (ae_created e)
    @ '',"description":'' @ json_string (ae_description e) @ '',"entity_id":'' @ json_string (ae_entity_id e)
    @ '',"entity_type":'' @ json_string (ae_entity_type e) @ '',"id":'' @ show_nat (ae_id e)
    @ '',"metadata":'' @ ae_metadata e @ '',"seq":'' @ show_nat seq @ ''}''\<close>

definition compute_hash :: "(string \<Rightarrow> string) \<Rightarrow> string \<Rightarrow> audit_event \<Rightarrow> nat \<Rightarrow> string" where
  "compute_hash sha prev e seq = sha (prev @ [char_of (10::nat)] @ canonical e seq)"

section \<open>Sealing\<close>

definition sealed_rows :: "audit_event list \<Rightarrow> int option \<Rightarrow> audit_event list" where
  "sealed_rows events c = sort_key (\<lambda>e. (ae_seq e, ae_id e)) (filter (\<lambda>e. ae_company e = c \<and> ae_sealed e) events)"

definition unsealed_rows :: "audit_event list \<Rightarrow> int option \<Rightarrow> audit_event list" where
  "unsealed_rows events c = sort_key ae_id (filter (\<lambda>e. ae_company e = c \<and> \<not> ae_sealed e) events)"

definition chain_tip :: "audit_event list \<Rightarrow> int option \<Rightarrow> string \<times> nat" where
  "chain_tip events c = (let rows = sealed_rows events c in if rows = [] then ([], 0) else (ae_hash (last rows), ae_seq (last rows)))"

fun chain_rows :: "(string \<Rightarrow> string) \<Rightarrow> string \<Rightarrow> nat \<Rightarrow> audit_event list \<Rightarrow> audit_event list" where
  "chain_rows sha prev seq [] = []"
| "chain_rows sha prev seq (e # es) =
    (let h = compute_hash sha prev e (seq + 1) in
     e\<lparr>ae_sealed := True, ae_seq := seq + 1, ae_prev := prev, ae_hash := h\<rparr> # chain_rows sha h (seq + 1) es)"

definition write_rows :: "audit_event list \<Rightarrow> audit_event list \<Rightarrow> audit_event list" where
  "write_rows rows events = map (\<lambda>e. case find (\<lambda>r. ae_id r = ae_id e) rows of Some r \<Rightarrow> r | None \<Rightarrow> e) events"

definition seal_batch :: "(string \<Rightarrow> string) \<Rightarrow> int option \<Rightarrow> nat \<Rightarrow> audit_event list \<Rightarrow> audit_event list" where
  "seal_batch sha c batch events =
    (let (prev, seq) = chain_tip events c in
     write_rows (chain_rows sha prev seq (take batch (unsealed_rows events c))) events)"

text \<open>One batch after the other until a short one; the count of sealed rows is returned.\<close>

function seal :: "(string \<Rightarrow> string) \<Rightarrow> int option \<Rightarrow> nat \<Rightarrow> audit_event list \<Rightarrow> nat \<times> audit_event list" where
  "seal sha c batch events =
    (let rows = take batch (unsealed_rows events c) in
     if rows = [] then (0, events)
     else if length rows < batch then (length rows, seal_batch sha c batch events)
     else let (n, events') = seal sha c batch (seal_batch sha c batch events) in (length rows + n, events'))"
  by pat_completeness auto

lemma chain_rows_ids: "map ae_id (chain_rows sha p s rows) = map ae_id rows"
  by (induction sha p s rows rule: chain_rows.induct) (simp_all add: Let_def)

lemma chain_rows_sealed: "r \<in> set (chain_rows sha p s rows) \<Longrightarrow> ae_sealed r"
  by (induction sha p s rows rule: chain_rows.induct) (auto simp: Let_def)

lemma filter_shrinks:
  assumes "\<And>x. Q x \<Longrightarrow> P x" and "x \<in> set xs" "P x" "\<not> Q x"
  shows "length (filter Q xs) < length (filter P xs)"
proof -
  obtain ys zs where xs: "xs = ys @ x # zs" using assms(2) by (meson split_list)
  have le: "length (filter Q l) \<le> length (filter P l)" for l
    using assms(1) by (induction l) (auto simp: le_SucI)
  show ?thesis using le [of ys] le [of zs] assms(3,4) by (simp add: xs)
qed

lemma write_shrinks:
  assumes "\<And>r. r \<in> set rows \<Longrightarrow> ae_sealed r" and "x \<in> set events" "\<not> ae_sealed x" "ae_company x = c" "ae_id x \<in> ae_id ` set rows"
  shows "length (filter (\<lambda>e. ae_company e = c \<and> \<not> ae_sealed e) (write_rows rows events))
    < length (filter (\<lambda>e. ae_company e = c \<and> \<not> ae_sealed e) events)"
proof -
  let ?P = "\<lambda>e. ae_company e = c \<and> \<not> ae_sealed e" and ?w = "\<lambda>e. case find (\<lambda>r. ae_id r = ae_id e) rows of Some r \<Rightarrow> r | None \<Rightarrow> e"
  have keep: "?P e" if "?P (?w e)" for e
    using that assms(1) by (auto simp: find_Some_iff split: option.splits)
  have hit: "\<not> ?P (?w x)"
    using assms by (auto simp: find_Some_iff find_None_iff split: option.splits)
  have "length (filter ?P (map ?w events)) = length (filter (\<lambda>e. ?P (?w e)) events)" by (simp add: filter_map comp_def)
  also have "\<dots> < length (filter ?P events)"
    by (rule filter_shrinks [where x = x]) (use assms(2-4) keep hit in \<open>blast+\<close>)
  finally show ?thesis by (simp add: write_rows_def)
qed

termination seal
proof (relation "measure (\<lambda>(sha, c, batch, events). length (filter (\<lambda>e. ae_company e = c \<and> \<not> ae_sealed e) events))", simp)
  fix sha :: "string \<Rightarrow> string" and c batch events rows
  assume rows: "rows = take batch (unsealed_rows events c)" "rows \<noteq> []"
  have x: "hd rows \<in> set rows" using rows(2) by simp
  then have "hd rows \<in> set (unsealed_rows events c)" unfolding rows(1) by (rule in_set_takeD)
  then have "hd rows \<in> set events" "\<not> ae_sealed (hd rows)" "ae_company (hd rows) = c" by (simp_all add: unsealed_rows_def)
  then show "((sha, c, batch, seal_batch sha c batch events), sha, c, batch, events)
    \<in> measure (\<lambda>(sha, c, batch, events). length (filter (\<lambda>e. ae_company e = c \<and> \<not> ae_sealed e) events))"
    using x unfolding seal_batch_def rows(1) [symmetric]
    by (auto split: prod.splits intro!: write_shrinks [OF chain_rows_sealed]) (metis chain_rows_ids image_eqI image_set)
qed

declare seal.simps [simp del]

section \<open>Verification\<close>

datatype chain_problem = Altered nat | Missing nat | Broken_Link nat

fun check_rows :: "(string \<Rightarrow> string) \<Rightarrow> bool \<Rightarrow> string \<Rightarrow> nat \<Rightarrow> audit_event list \<Rightarrow> chain_problem list" where
  "check_rows sha linked prev expected [] = []"
| "check_rows sha linked prev expected (e # es) =
    (if compute_hash sha (ae_prev e) e (ae_seq e) \<noteq> ae_hash e then [Altered (ae_id e)] else [])
    @ (if linked \<and> ae_seq e \<noteq> expected then [Missing (ae_id e)] else [])
    @ (if linked \<and> ae_prev e \<noteq> prev then [Broken_Link (ae_id e)] else [])
    @ check_rows sha linked (ae_hash e) ((if linked \<and> ae_seq e \<noteq> expected then ae_seq e else expected) + 1) es"

definition verify_one :: "(string \<Rightarrow> string) \<Rightarrow> audit_event list \<Rightarrow> int option \<Rightarrow> chain_problem list" where
  "verify_one sha events c = check_rows sha (c \<noteq> None) [] 1 (sealed_rows events c)"

definition sealed_companies :: "audit_event list \<Rightarrow> int option list" where
  "sealed_companies events = remdups (map ae_company (filter ae_sealed events))"

definition verify_all :: "(string \<Rightarrow> string) \<Rightarrow> audit_event list \<Rightarrow> chain_problem list" where
  "verify_all sha events = concat (map (verify_one sha events) (sealed_companies events))"

section \<open>Tips\<close>

type_synonym tip = "int option \<times> nat \<times> string"

definition export_tip_payload :: "audit_event list \<Rightarrow> tip list" where
  "export_tip_payload events =
    concat (map (\<lambda>c. let rows = sealed_rows events c in
       if rows = [] then [] else [(c, ae_seq (last rows), ae_hash (last rows))]) (sealed_companies events))"

datatype tip_failure = Tip_Mismatch "int option" | Chain_Shorter "int option" | Not_In_File "int option"

definition compare_row :: "audit_event list \<Rightarrow> tip \<Rightarrow> tip_failure list" where
  "compare_row events t =
    (let (c, seq, hash) = t in
     case find (\<lambda>e. ae_seq e = seq) (sealed_rows events c) of
       None \<Rightarrow> [Tip_Mismatch c]
     | Some e \<Rightarrow> if ae_hash e \<noteq> hash then [Tip_Mismatch c]
         else if snd (chain_tip events c) < seq then [Chain_Shorter c] else [])"

definition compare_tip :: "audit_event list \<Rightarrow> tip list \<Rightarrow> bool \<Rightarrow> tip_failure list \<times> tip_failure list" where
  "compare_tip events payload strict =
    (let failures = concat (map (compare_row events) payload);
         extra = map Not_In_File (filter (\<lambda>c. c \<notin> fst ` set payload) (sealed_companies events)) in
     if strict then (failures @ extra, []) else (failures, extra))"

section \<open>The canonical text determines the event\<close>

lemma ch_code_inject [simp]: "ch_code c = ch_code d \<longleftrightarrow> c = d"
  by (metis char_of_ch_code)

lemma hex_digit_inject: "a < 16 \<Longrightarrow> b < 16 \<Longrightarrow> hex_digit a = hex_digit b \<longleftrightarrow> a = b"
proof -
  assume ab: "a < 16" "b < 16"
  have "ch_code (hex_digit n) = (if n < 10 then 48 + n else 87 + n)" if "n < 16" for n
    using that by (simp add: hex_digit_def ch_code_char_of)
  then have "ch_code (hex_digit a) = ch_code (hex_digit b) \<longleftrightarrow> a = b" using ab by auto
  then show ?thesis by simp
qed

text \<open>A plain character stands for itself; an escape begins with a backslash and its kind.\<close>

definition plain_char :: "char \<Rightarrow> bool" where
  "plain_char c = (32 \<le> ch_code c \<and> ch_code c \<noteq> 34 \<and> ch_code c \<noteq> 92)"

lemma escape_plain: "plain_char c \<Longrightarrow> json_escape c = [c]"
  by (auto simp: plain_char_def json_escape_def Let_def)

definition escape_tail :: "nat \<Rightarrow> string" where
  "escape_tail n =
    (if n = 34 then [char_of (34::nat)] else if n = 92 then [char_of (92::nat)] else if n = 10 then [CHR ''n'']
     else if n = 13 then [CHR ''r''] else if n = 9 then [CHR ''t''] else if n = 12 then [CHR ''f''] else if n = 8 then [CHR ''b'']
     else [CHR ''u'', CHR ''0'', CHR ''0'', hex_digit (n div 16), hex_digit (n mod 16)])"

lemma escape_special: "\<not> plain_char c \<Longrightarrow> json_escape c = char_of (92::nat) # escape_tail (ch_code c)"
  by (auto simp: plain_char_def json_escape_def escape_tail_def Let_def)

lemma escape_tail_split:
  assumes "escape_tail m @ r = escape_tail n @ r'" and "m < 32 \<or> m = 34 \<or> m = 92" and "n < 32 \<or> n = 34 \<or> n = 92"
  shows "m = n \<and> r = r'"
proof -
  have kinds: "(char_of (34::nat) :: char) = CHR 0x22" "(char_of (92::nat) :: char) = CHR 0x5C" by code_simp+
  have hex: "m = n" if "m < 32" "n < 32" "hex_digit (m div 16) = hex_digit (n div 16)" "hex_digit (m mod 16) = hex_digit (n mod 16)"
  proof -
    have "m div 16 < 16" "n div 16 < 16" using that(1,2) by (simp_all add: less_mult_imp_div_less)
    then have "m div 16 = n div 16" "m mod 16 = n mod 16" using that(3,4) by (simp_all add: hex_digit_inject)
    then show ?thesis by (metis div_mult_mod_eq)
  qed
  show ?thesis using assms hex
    by (auto simp: escape_tail_def kinds split: if_splits)
qed

lemma escape_split:
  assumes "json_escape c @ r = json_escape d @ r'"
  shows "c = d \<and> r = r'"
proof -
  have bs: "\<not> plain_char (char_of (92::nat))" by (simp add: plain_char_def ch_code_char_of)
  have special: "ch_code x < 32 \<or> ch_code x = 34 \<or> ch_code x = 92" if "\<not> plain_char x" for x
    using that by (auto simp: plain_char_def)
  show ?thesis
  proof (cases "plain_char c"; cases "plain_char d")
    assume "\<not> plain_char c" "\<not> plain_char d"
    then show ?thesis using assms escape_tail_split [OF _ special special] by (simp add: escape_special)
  qed (use assms bs in \<open>auto simp: escape_plain escape_special\<close>)
qed

lemma escape_not_quote: "json_escape c \<noteq> [] \<and> hd (json_escape c) \<noteq> CHR 0x22"
proof -
  have "(char_of (92::nat) :: char) \<noteq> CHR 0x22" "ch_code CHR 0x22 = 34" by code_simp+
  then show ?thesis
    by (cases "plain_char c") (auto simp: escape_plain escape_special plain_char_def)
qed

lemma json_string_split:
  assumes "json_string s @ r = json_string t @ r'"
  shows "s = t \<and> r = r'"
proof -
  have "concat (map json_escape s) @ CHR 0x22 # r = concat (map json_escape t) @ CHR 0x22 # r'"
    using assms by (simp add: json_string_def)
  then show ?thesis
  proof (induction s arbitrary: t)
    case Nil
    then show ?case using escape_not_quote by (cases t) (auto, metis append_is_Nil_conv hd_append2 list.sel(1))
  next
    case (Cons c s)
    show ?case
    proof (cases t)
      case Nil
      then show ?thesis using Cons.prems escape_not_quote [of c] by (auto, metis append_is_Nil_conv hd_append2 list.sel(1))
    next
      case (Cons d t')
      then have "c = d \<and> concat (map json_escape s) @ CHR 0x22 # r = concat (map json_escape t') @ CHR 0x22 # r'"
        using Cons.prems escape_split [of c _ d] by simp
      then show ?thesis using Cons.IH Cons by simp
    qed
  qed
qed

lemma digits_split:
  assumes "show_nat m @ r = show_nat n @ r'" and "r = [] \<or> \<not> ch_digit (hd r)" and "r' = [] \<or> \<not> ch_digit (hd r')"
  shows "m = n \<and> r = r'"
proof -
  have tw: "takeWhile ch_digit (show_nat k @ s) = show_nat k" if "s = [] \<or> \<not> ch_digit (hd s)" for k s
    using that show_nat_digits [of k] by (cases s) (auto simp: list_all_iff takeWhile_append2 takeWhile_eq_all_conv)
  have "show_nat m = show_nat n" using tw [OF assms(2), of m] tw [OF assms(3), of n] assms(1) by simp
  then show ?thesis using assms(1) by (metis nat_of_digits_show same_append_eq)
qed

definition audit_facts :: "audit_event \<Rightarrow> nat \<times> string \<times> string \<times> string \<times> string \<times> string \<times> string" where
  "audit_facts e = (ae_id e, ae_action e, ae_entity_type e, ae_entity_id e, ae_description e, ae_metadata e, ae_created e)"

lemma canonical_inject:
  assumes "canonical e m = canonical e' n"
  shows "audit_facts e = audit_facts e' \<and> m = n"
proof -
  have nd: "\<not> ch_digit CHR 0x2C" "\<not> ch_digit CHR 0x3A" by code_simp+
  note eq = assms [unfolded canonical_def]
  have 1: "ae_action e = ae_action e'" using eq by (auto dest: json_string_split)
  note eq1 = eq [unfolded 1, simplified]
  have 2: "ae_created e = ae_created e'" using eq1 by (auto dest: json_string_split)
  note eq2 = eq1 [unfolded 2, simplified]
  have 3: "ae_description e = ae_description e'" using eq2 by (auto dest: json_string_split)
  note eq3 = eq2 [unfolded 3, simplified]
  have 4: "ae_entity_id e = ae_entity_id e'" using eq3 by (auto dest: json_string_split)
  note eq4 = eq3 [unfolded 4, simplified]
  have 5: "ae_entity_type e = ae_entity_type e'" using eq4 by (auto dest: json_string_split)
  note eq5 = eq4 [unfolded 5, simplified]
  have 6: "ae_id e = ae_id e'" using eq5 nd by (auto dest!: digits_split)
  note eq6 = eq5 [unfolded 6, simplified]
  have tl: "rev (show_nat m) @ CHR 0x3A # x = rev (show_nat n) @ CHR 0x3A # y \<Longrightarrow> m = n \<and> x = y" for x y
  proof -
    assume h: "rev (show_nat m) @ CHR 0x3A # x = rev (show_nat n) @ CHR 0x3A # y"
    have tw: "takeWhile ch_digit (rev (show_nat k) @ CHR 0x3A # s) = rev (show_nat k)" for k s
      using show_nat_digits [of k] nd takeWhile_append2 [of "rev (show_nat k)" ch_digit "CHR 0x3A # s"]
      by (simp add: list_all_iff)
    have "rev (show_nat m) = rev (show_nat n)" using arg_cong [OF h, of "takeWhile ch_digit"] by (simp add: tw)
    then show "m = n \<and> x = y" using h by (metis append_same_eq list.inject nat_of_digits_show rev_swap same_append_eq)
  qed
  have "m = n \<and> ae_metadata e = ae_metadata e'"
    using arg_cong [OF eq6, of rev] tl by (auto dest!: tl)
  then show ?thesis using 1 2 3 4 5 6 by (simp add: audit_facts_def)
qed

section \<open>Chains\<close>

text \<open>
  What is assumed of the hash: no collisions, and hexadecimal output (no line break).  Everything else is proved
  of the text that is hashed.
\<close>

definition good_hash :: "(string \<Rightarrow> string) \<Rightarrow> bool" where
  "good_hash sha = (inj sha \<and> (\<forall>m. char_of (10::nat) \<notin> set (sha m)))"

lemma split_at_first: "p @ c # x = q @ c # y \<Longrightarrow> c \<notin> set p \<Longrightarrow> c \<notin> set q \<Longrightarrow> p = q \<and> x = y"
proof (induction p arbitrary: q)
  case Nil
  then show ?case by (cases q) auto
next
  case (Cons a p)
  then show ?case by (cases q) auto
qed

lemma compute_hash_inject:
  assumes "good_hash sha" and "compute_hash sha p e m = compute_hash sha p' e' n"
    and "char_of (10::nat) \<notin> set p" "char_of (10::nat) \<notin> set p'"
  shows "p = p' \<and> audit_facts e = audit_facts e' \<and> m = n"
proof -
  have "p @ char_of (10::nat) # canonical e m = p' @ char_of (10::nat) # canonical e' n"
    using assms(1,2) by (simp add: good_hash_def compute_hash_def inj_eq)
  then have "p = p' \<and> canonical e m = canonical e' n"
    using assms(3,4) by (rule split_at_first)
  then show ?thesis using canonical_inject by blast
qed

fun chained :: "(string \<Rightarrow> string) \<Rightarrow> string \<Rightarrow> nat \<Rightarrow> audit_event list \<Rightarrow> bool" where
  "chained sha p k [] = True"
| "chained sha p k (e # es) \<longleftrightarrow> ae_seq e = k \<and> ae_prev e = p \<and> ae_hash e = compute_hash sha p e k \<and> chained sha (ae_hash e) (k + 1) es"

lemma check_rows_chained: "check_rows sha True p k rows = [] \<longleftrightarrow> chained sha p k rows"
  by (induction sha True p k rows rule: check_rows.induct) auto

lemma verify_chained: "verify_one sha events (Some c) = [] \<longleftrightarrow> chained sha [] 1 (sealed_rows events (Some c))"
  by (simp add: verify_one_def check_rows_chained)

fun end_hash :: "string \<Rightarrow> audit_event list \<Rightarrow> string" where
  "end_hash p [] = p"
| "end_hash p (e # es) = end_hash (ae_hash e) es"

lemma end_hash_last: "rows \<noteq> [] \<Longrightarrow> end_hash p rows = ae_hash (last rows)"
  by (induction rows arbitrary: p) auto

lemma chained_append:
  "chained sha p k (xs @ ys) \<longleftrightarrow> chained sha p k xs \<and> chained sha (end_hash p xs) (k + length xs) ys"
  by (induction xs arbitrary: p k) auto

lemma chained_seq: "chained sha p k rows \<Longrightarrow> i < length rows \<Longrightarrow> ae_seq (rows ! i) = k + i"
  by (induction rows arbitrary: p k i) (auto simp: nth_Cons split: nat.splits)

lemma end_hash_clean:
  assumes "good_hash sha" and "chained sha [] k rows"
  shows "char_of (10::nat) \<notin> set (end_hash [] rows)"
proof (cases "rows = []")
  case False
  then obtain xs e where rows: "rows = xs @ [e]" by (metis append_butlast_last_id)
  then have "ae_hash e = compute_hash sha (end_hash [] xs) e (k + length xs)" using assms(2) by (simp add: chained_append)
  then show ?thesis using assms(1) False by (simp add: end_hash_last rows good_hash_def compute_hash_def)
qed simp

text \<open>Two chains that end in the same hash hold the same events.\<close>

lemma same_end_same_events:
  assumes "good_hash sha" and "chained sha [] 1 xs" and "chained sha [] 1 ys" and "length xs = length ys"
    and "end_hash [] xs = end_hash [] ys"
  shows "map audit_facts xs = map audit_facts ys"
  using assms(2-5)
proof (induction xs arbitrary: ys rule: rev_induct)
  case Nil
  then show ?case by simp
next
  case (snoc x xs)
  then obtain zs y where ys: "ys = zs @ [y]" by (cases ys rule: rev_cases) auto
  have len: "length xs = length zs" using snoc.prems(3) ys by simp
  have x: "chained sha [] 1 xs" "ae_hash x = compute_hash sha (end_hash [] xs) x (1 + length xs)"
    using snoc.prems(1) by (simp_all add: chained_append)
  have y: "chained sha [] 1 zs" "ae_hash y = compute_hash sha (end_hash [] zs) y (1 + length zs)"
    using snoc.prems(2) by (simp_all add: chained_append ys)
  have "ae_hash x = ae_hash y" using snoc.prems(4) by (simp add: ys end_hash_last)
  then have "end_hash [] xs = end_hash [] zs \<and> audit_facts x = audit_facts y"
    using compute_hash_inject [OF assms(1)] end_hash_clean [OF assms(1) x(1)] end_hash_clean [OF assms(1) y(1)]
    by (metis x(2) y(2))
  then show ?case using snoc.IH [OF x(1) y(1) len] by (simp add: ys)
qed

text \<open>
  C14. A tip file proves the history of a company: if the chain verified when the tip was exported and verifies now,
  and the tip file still matches, then every event sealed before the export is still there, in the same
  place and with the same facts: nothing was edited, removed, inserted or reordered.
\<close>

theorem tip_proves_history:
  assumes hash: "good_hash sha" and old: "verify_one sha before (Some c) = []" and new: "verify_one sha now (Some c) = []"
    and tip: "fst (compare_tip now (export_tip_payload before) strict) = []"
  shows "\<exists>later. map audit_facts (sealed_rows now (Some c)) = map audit_facts (sealed_rows before (Some c)) @ later"
proof (cases "sealed_rows before (Some c) = []")
  case True
  then show ?thesis by simp
next
  case False
  let ?xs = "sealed_rows before (Some c)" and ?ys = "sealed_rows now (Some c)"
  note xs = old [unfolded verify_chained] and ys = new [unfolded verify_chained]
  let ?t = "(Some c, ae_seq (last ?xs), ae_hash (last ?xs))"
  obtain x where x: "x \<in> set ?xs" using False by (cases ?xs) auto
  then have "Some c \<in> set (sealed_companies before)" by (force simp: sealed_rows_def sealed_companies_def)
  then have "?t \<in> set (export_tip_payload before)" using False by (force simp: export_tip_payload_def Let_def)
  then have "compare_row now ?t = []" using tip by (auto simp: compare_tip_def Let_def split: if_splits)
  then obtain e where e: "find (\<lambda>e. ae_seq e = ae_seq (last ?xs)) ?ys = Some e" "ae_hash e = ae_hash (last ?xs)"
    by (auto simp: compare_row_def Let_def split: option.splits if_splits)
  have n: "ae_seq (last ?xs) = length ?xs"
    using chained_seq [OF xs, of "length ?xs - 1"] False by (simp add: last_conv_nth)
  obtain i where i: "i < length ?ys" "e = ?ys ! i" "ae_seq e = length ?xs"
    using e(1) n by (auto simp: find_Some_iff)
  then have i': "Suc i = length ?xs" using chained_seq [OF ys i(1)] by simp
  let ?zs = "take (length ?xs) ?ys"
  have len: "length ?xs = length ?zs" using i(1) i' by simp
  have zs: "chained sha [] 1 ?zs"
    using ys chained_append [of sha "[]" 1 ?zs "drop (length ?xs) ?ys"] by simp
  have "?zs \<noteq> []" using len False by (metis length_0_conv)
  moreover have "length ?xs - 1 = i" "min (length ?ys) (length ?xs) = length ?xs" using i(1) i' by simp_all
  ultimately have "end_hash [] ?zs = ae_hash (?ys ! i)" using i(1) i' by (simp add: end_hash_last last_conv_nth)
  then have "end_hash [] ?xs = end_hash [] ?zs" using e(2) i(2) False by (simp add: end_hash_last)
  then have "map audit_facts ?xs = map audit_facts ?zs" by (rule same_end_same_events [OF hash xs zs len])
  then have "map audit_facts ?ys = map audit_facts ?xs @ map audit_facts (drop (length ?xs) ?ys)"
    by (metis append_take_drop_id map_append)
  then show ?thesis ..
qed

section \<open>Sealing extends the chain\<close>

lemma chain_rows_chained:
  "chained sha prev (Suc seq) (chain_rows sha prev seq rows)"
proof (induction rows arbitrary: prev seq)
  case (Cons e es)
  have "compute_hash sha prev (e\<lparr>ae_sealed := a, ae_seq := b, ae_prev := q, ae_hash := h\<rparr>) n = compute_hash sha prev e n" for a b q h n
    by (simp add: compute_hash_def canonical_def)
  then show ?case using Cons by (simp add: Let_def)
qed simp

lemma chain_rows_facts: "map audit_facts (chain_rows sha p s rows) = map audit_facts rows"
  by (induction sha p s rows rule: chain_rows.induct) (simp_all add: Let_def audit_facts_def)

lemma chain_rows_company: "map ae_company (chain_rows sha p s rows) = map ae_company rows"
  by (induction sha p s rows rule: chain_rows.induct) (simp_all add: Let_def)

lemma write_rows_set:
  assumes "distinct (map ae_id events)" and "ae_id ` set rows \<subseteq> ae_id ` set events" and "distinct (map ae_id rows)"
  shows "set (write_rows rows events) = set rows \<union> {e \<in> set events. ae_id e \<notin> ae_id ` set rows}"
    and "map ae_id (write_rows rows events) = map ae_id events"
proof -
  have hit: "find (\<lambda>r. ae_id r = ae_id e) rows = Some r \<longleftrightarrow> r \<in> set rows \<and> ae_id r = ae_id e" for r e
    using assms(3) by (induction rows) (auto simp: image_iff)
  show "map ae_id (write_rows rows events) = map ae_id events"
    by (auto simp: write_rows_def hit split: option.splits)
  show "set (write_rows rows events) = set rows \<union> {e \<in> set events. ae_id e \<notin> ae_id ` set rows}" (is "?l = ?r")
  proof (intro set_eqI iffI)
    fix x assume "x \<in> ?l"
    then show "x \<in> ?r" by (auto simp: write_rows_def hit find_None_iff split: option.splits)
  next
    fix x assume "x \<in> ?r"
    then consider "x \<in> set rows" | "x \<in> set events" "ae_id x \<notin> ae_id ` set rows" by blast
    then show "x \<in> ?l"
    proof cases
      case 1
      then obtain e where e: "e \<in> set events" "ae_id x = ae_id e" using assms(2) by auto
      then have "find (\<lambda>r. ae_id r = ae_id e) rows = Some x" using 1 hit [of e x] by blast
      then show ?thesis using e(1) unfolding write_rows_def by force
    next
      case 2
      then have "find (\<lambda>r. ae_id r = ae_id x) rows = None" by (simp add: find_None_iff image_iff) metis
      then show ?thesis using 2(1) unfolding write_rows_def by force
    qed
  qed
qed

text \<open>A sorted list with the right elements is the sorted view of the table.\<close>

lemma sorted_view:
  fixes f :: "'a \<Rightarrow> 'k::linorder"
  assumes "distinct xs" and "distinct ys" and "set xs = set ys" and "inj_on f (set xs)" and "sorted (map f ys)"
  shows "sort_key f xs = ys"
proof (rule sort_key_inj_key_eq)
  show "mset xs = mset ys" using assms(1-3) by (simp add: set_eq_iff_mset_eq_distinct)
qed (use assms in simp_all)

lemma chained_sorted:
  "chained sha p k rows \<Longrightarrow> sorted (map (\<lambda>e. (ae_seq e, ae_id e)) rows) \<and> (\<forall>e\<in>set rows. k \<le> ae_seq e) \<and> distinct rows"
proof (induction rows arbitrary: p k)
  case (Cons e es)
  then have "sorted (map (\<lambda>e. (ae_seq e, ae_id e)) es)" "\<forall>x\<in>set es. k + 1 \<le> ae_seq x" "distinct es" "ae_seq e = k"
    by auto
  moreover from this(2) have "e \<notin> set es" using \<open>ae_seq e = k\<close> by force
  moreover have "\<forall>x\<in>set es. (ae_seq e, ae_id e) \<le> (ae_seq x, ae_id x)"
    using calculation(2,4) by (auto simp: less_eq_prod_def)
  ultimately show ?case by (auto simp: Suc_le_eq)
qed simp

lemma distinct_ids: "distinct (map ae_id xs) \<Longrightarrow> distinct xs"
  by (metis distinct_map)

lemma batch_effect:
  assumes ids: "distinct (map ae_id events)" and ok: "chained sha [] 1 (sealed_rows events c)"
    and events'_def: "events' = seal_batch sha c batch events" and rows_def: "rows = take batch (unsealed_rows events c)"
  shows "\<exists>new. sealed_rows events' c = sealed_rows events c @ new \<and> map audit_facts new = map audit_facts rows"
    and "chained sha [] 1 (sealed_rows events' c)" and "unsealed_rows events' c = drop batch (unsealed_rows events c)"
    and "map ae_id events' = map ae_id events"
proof -
  obtain prev seq where tip: "chain_tip events c = (prev, seq)" by (cases "chain_tip events c") auto
  define new where "new = chain_rows sha prev seq rows"
  let ?S = "sealed_rows events c" and ?U = "unsealed_rows events c"
  have tip': "prev = end_hash [] ?S" "seq = length ?S"
    using tip chained_seq [OF ok, of "length ?S - 1"]
    by (auto simp: chain_tip_def Let_def end_hash_last last_conv_nth split: if_splits)
  have ev': "events' = write_rows new events" by (simp add: events'_def seal_batch_def tip new_def rows_def)
  have dist: "distinct events" "inj_on ae_id (set events)" using ids by (auto simp: distinct_map)
  have setS: "set ?S = {e \<in> set events. ae_company e = c \<and> ae_sealed e}"
    and setU: "set ?U = {e \<in> set events. ae_company e = c \<and> \<not> ae_sealed e}"
    by (auto simp: sealed_rows_def unsealed_rows_def)
  have rowsU: "set rows \<subseteq> set ?U" by (simp add: rows_def set_take_subset)
  have idn: "map ae_id new = map ae_id rows" by (simp add: new_def chain_rows_ids)
  then have idn': "ae_id ` set new = ae_id ` set rows" by (metis list.set_map)
  have dU: "distinct (map ae_id ?U)"
  proof -
    have "distinct ?U" using dist(1) by (simp add: unsealed_rows_def)
    moreover have "inj_on ae_id (set ?U)" by (rule inj_on_subset [OF dist(2)]) (auto simp: setU)
    ultimately show ?thesis by (simp add: distinct_map)
  qed
  then have "distinct (map ae_id rows)" unfolding rows_def take_map [symmetric] by (rule distinct_take)
  then have dn: "distinct (map ae_id new)" by (simp only: idn)
  have sub: "ae_id ` set new \<subseteq> ae_id ` set events" using rowsU setU unfolding idn' by auto
  note w = write_rows_set [OF ids sub dn, folded ev']
  show "map ae_id events' = map ae_id events" by (rule w(2))
  then have ids': "distinct (map ae_id events')" using ids by simp
  have newP: "ae_company r = c \<and> ae_sealed r" if "r \<in> set new" for r
  proof -
    have "ae_company ` set new = ae_company ` set rows"
      using chain_rows_company [of sha prev seq rows] unfolding new_def by (metis list.set_map)
    then have "ae_company r \<in> ae_company ` set rows" using that by blast
    then show ?thesis using rowsU setU that by (auto simp: new_def dest: chain_rows_sealed)
  qed
  have old: "ae_id e \<notin> ae_id ` set new" if "e \<in> set events" "ae_company e = c \<longrightarrow> ae_sealed e" for e
    using that rowsU setU dist(2) unfolding idn' by (auto dest: inj_onD)
  have ch: "chained sha [] 1 (?S @ new)"
    using ok chain_rows_chained [of sha prev seq rows] unfolding chained_append new_def tip' by simp
  have "sealed_rows events' c = ?S @ new"
    unfolding sealed_rows_def [of events']
  proof (rule sorted_view)
    show "distinct (filter (\<lambda>e. ae_company e = c \<and> ae_sealed e) events')" using distinct_ids [OF ids'] by simp
    show "distinct (?S @ new)" "sorted (map (\<lambda>e. (ae_seq e, ae_id e)) (?S @ new))" using chained_sorted [OF ch] by blast+
    show "set (filter (\<lambda>e. ae_company e = c \<and> ae_sealed e) events') = set (?S @ new)"
      using newP old by (auto simp: w(1) setS)
    show "inj_on (\<lambda>e. (ae_seq e, ae_id e)) (set (filter (\<lambda>e. ae_company e = c \<and> ae_sealed e) events'))"
      using ids' by (auto simp: distinct_map inj_on_def)
  qed
  moreover have "map audit_facts new = map audit_facts rows" by (simp add: new_def chain_rows_facts)
  ultimately show "\<exists>new. sealed_rows events' c = ?S @ new \<and> map audit_facts new = map audit_facts rows"
    "chained sha [] 1 (sealed_rows events' c)" using ch by auto
  show "unsealed_rows events' c = drop batch ?U"
    unfolding unsealed_rows_def [of events']
  proof (rule sorted_view)
    have UU: "?U = rows @ drop batch ?U" by (simp add: rows_def)
    have nodup: "ae_id e \<notin> ae_id ` set rows" if "e \<in> set (drop batch ?U)" for e
    proof -
      have "distinct (map ae_id rows @ map ae_id (drop batch ?U))" using dU UU by (metis map_append)
      then show ?thesis using that by auto
    qed
    show "distinct (filter (\<lambda>e. ae_company e = c \<and> \<not> ae_sealed e) events')" using distinct_ids [OF ids'] by simp
    show "distinct (drop batch ?U)" using distinct_ids [OF dU] by simp
    show "sorted (map ae_id (drop batch ?U))" unfolding drop_map [symmetric]
      by (rule sorted_wrt_drop) (simp add: unsealed_rows_def)
    have split: "e \<in> set rows \<or> e \<in> set (drop batch ?U)" if "e \<in> set ?U" for e using that UU by (metis Un_iff set_append)
    show "set (filter (\<lambda>e. ae_company e = c \<and> \<not> ae_sealed e) events') = set (drop batch ?U)"
    proof (intro set_eqI iffI)
      fix e assume "e \<in> set (filter (\<lambda>e. ae_company e = c \<and> \<not> ae_sealed e) events')"
      then have "e \<in> set ?U" "ae_id e \<notin> ae_id ` set rows" using newP by (auto simp: w(1) setU idn')
      then show "e \<in> set (drop batch ?U)" using split [of e] by blast
    next
      fix e assume "e \<in> set (drop batch ?U)"
      then have "e \<in> set ?U" "ae_id e \<notin> ae_id ` set rows" using nodup set_drop_subset [of batch ?U] by blast+
      then show "e \<in> set (filter (\<lambda>e. ae_company e = c \<and> \<not> ae_sealed e) events')" by (simp add: w(1) setU idn')
    qed
    show "inj_on ae_id (set (filter (\<lambda>e. ae_company e = c \<and> \<not> ae_sealed e) events'))"
      using ids' by (auto simp: distinct_map inj_on_def)
  qed
qed

lemma sealing:
  assumes "distinct (map ae_id events)" and "chained sha [] 1 (sealed_rows events c)" and "0 < batch"
  shows "chained sha [] 1 (sealed_rows (snd (seal sha c batch events)) c) \<and> unsealed_rows (snd (seal sha c batch events)) c = [] \<and>
    fst (seal sha c batch events) = length (unsealed_rows events c) \<and>
    (\<exists>new. sealed_rows (snd (seal sha c batch events)) c = sealed_rows events c @ new \<and>
       map audit_facts new = map audit_facts (unsealed_rows events c))"
  using assms
proof (induction sha c batch events rule: seal.induct)
  case (1 sha c batch events)
  define rows where "rows = take batch (unsealed_rows events c)"
  let ?ev = "seal_batch sha c batch events" and ?U = "unsealed_rows events c"
  note b = batch_effect [OF 1(2,3) refl rows_def]
  note eq = seal.simps [of sha c batch events, unfolded Let_def, folded rows_def]
  obtain new where new: "sealed_rows ?ev c = sealed_rows events c @ new" "map audit_facts new = map audit_facts rows" using b(1) by blast
  consider "rows = []" | "rows \<noteq> []" "length rows < batch" | "rows \<noteq> []" "length rows = batch"
    using le_neq_implies_less by (fastforce simp: rows_def)
  then show ?case
  proof cases
    case 1
    then show ?thesis using eq \<open>chained sha [] 1 (sealed_rows events c)\<close> \<open>0 < batch\<close> by (simp add: rows_def)
  next
    case 2
    then have "rows = ?U" "drop batch ?U = []" by (simp_all add: rows_def)
    then show ?thesis using eq 2 b new by auto
  next
    case 3
    have ids: "distinct (map ae_id ?ev)" using b(4) 1(2) by simp
    obtain n fin where r: "seal sha c batch ?ev = (n, fin)" by (cases "seal sha c batch ?ev") auto
    have res: "seal sha c batch events = (length rows + n, fin)" using eq 3 r by simp
    have ih: "chained sha [] 1 (sealed_rows fin c) \<and> unsealed_rows fin c = [] \<and> n = length (unsealed_rows ?ev c) \<and>
        (\<exists>new. sealed_rows fin c = sealed_rows ?ev c @ new \<and> map audit_facts new = map audit_facts (unsealed_rows ?ev c))"
      using 1(1) [OF rows_def _ _ ids b(2) 1(4)] 3 r by simp
    then obtain new2 where n2: "sealed_rows fin c = sealed_rows ?ev c @ new2" "map audit_facts new2 = map audit_facts (drop batch ?U)"
      using b(3) by auto
    have "map audit_facts (new @ new2) = map audit_facts ?U"
      using new(2) n2(2) by (simp add: rows_def) (metis append_take_drop_id map_append)
    then show ?thesis using ih b(3) new(1) n2(1) 3 res by (auto simp: rows_def)
  qed
qed

text \<open>
  C25. Sealing always ends, seals every event of the company that was not sealed, counts them, leaves the rows sealed before
  in place, appends the new ones in the order of their ids, and a chain that verified still verifies.
\<close>

theorem sealing_extends_chain:
  assumes "distinct (map ae_id events)" and "verify_one sha events (Some c) = []" and "0 < batch"
    and "seal sha (Some c) batch events = (n, events')"
  shows "verify_one sha events' (Some c) = [] \<and> unsealed_rows events' (Some c) = [] \<and> n = length (unsealed_rows events (Some c)) \<and>
    (\<exists>new. sealed_rows events' (Some c) = sealed_rows events (Some c) @ new \<and>
       map audit_facts new = map audit_facts (unsealed_rows events (Some c)))"
  using sealing [OF assms(1) assms(2) [unfolded verify_chained] assms(3)] assms(4) by (simp add: verify_chained)

text \<open>Removing the newest sealed event of a company leaves a chain that verifies: only a tip file shows the loss.\<close>

lemma tail_loss_unnoticed:
  assumes "distinct (map ae_id events)" and "verify_one sha events (Some c) = []" and "sealed_rows events (Some c) \<noteq> []"
  shows "verify_one sha (filter (\<lambda>e. ae_id e \<noteq> ae_id (last (sealed_rows events (Some c)))) events) (Some c) = []"
proof -
  let ?rows = "sealed_rows events (Some c)"
  obtain xs x where rows: "?rows = xs @ [x]" using assms(3) by (metis append_butlast_last_id)
  have "distinct ?rows" using distinct_ids [OF assms(1)] by (simp add: sealed_rows_def)
  moreover have "inj_on ae_id (set ?rows)"
    using assms(1) by (auto simp: distinct_map sealed_rows_def intro: inj_on_subset)
  ultimately have "distinct (map ae_id (xs @ [x]))" unfolding rows [symmetric] by (simp add: distinct_map)
  then have "filter (\<lambda>e. ae_id e \<noteq> ae_id x) (xs @ [x]) = xs"
    by (auto simp: filter_id_conv image_iff)
  moreover have "sealed_rows (filter (\<lambda>e. ae_id e \<noteq> ae_id x) events) (Some c) = filter (\<lambda>e. ae_id e \<noteq> ae_id x) ?rows"
    unfolding sealed_rows_def filter_sort by (simp add: conj_commute conj_left_commute)
  ultimately have "sealed_rows (filter (\<lambda>e. ae_id e \<noteq> ae_id (last ?rows)) events) (Some c) = xs"
    by (simp add: rows)
  then show ?thesis using assms(2) by (simp add: verify_chained rows chained_append)
qed

section \<open>Worked examples\<close>

text \<open>A hash that satisfies the assumption: the text in hexadecimal.\<close>

definition hex_of :: "string \<Rightarrow> string" where
  "hex_of s = concat (map (\<lambda>c. [hex_digit (ch_code c div 16), hex_digit (ch_code c mod 16)]) s)"

lemma hex_good: "good_hash hex_of"
proof -
  have code: "48 \<le> ch_code (hex_digit n)" if "n < 16" for n
    using that by (simp add: hex_digit_def ch_code_char_of)
  have lt: "ch_code c div 16 < 16" for c using ch_code_lt [of c] by (simp add: less_mult_imp_div_less)
  have "char_of (10::nat) \<noteq> hex_digit n" if "n < 16" for n
  proof
    assume "char_of (10::nat) = hex_digit n"
    then have "ch_code (hex_digit n) = ch_code (char_of (10::nat))" by simp
    also have "\<dots> = 10" by (rule ch_code_char_of) simp
    finally have "ch_code (hex_digit n) = 10" .
    then show False using code [OF that] by simp
  qed
  then have "char_of (10::nat) \<notin> set (hex_of m)" for m using lt by (auto simp: hex_of_def)
  moreover have "hex_of a = hex_of b \<Longrightarrow> a = b" for a b
  proof (induction a arbitrary: b)
    case Nil
    then show ?case by (cases b) (auto simp: hex_of_def)
  next
    case (Cons c a)
    then obtain d b' where b: "b = d # b'" by (cases b) (auto simp: hex_of_def)
    have "ch_code c div 16 = ch_code d div 16" "ch_code c mod 16 = ch_code d mod 16"
      using Cons.prems lt by (simp_all add: b hex_of_def hex_digit_inject)
    then have "ch_code c = ch_code d" by (metis div_mult_mod_eq)
    then show ?case using Cons by (simp add: b hex_of_def)
  qed
  ultimately show ?thesis by (auto simp: good_hash_def intro: injI)
qed

definition sample_event :: "nat \<Rightarrow> string \<Rightarrow> audit_event" where
  "sample_event i what = \<lparr>ae_id = i, ae_company = Some 1, ae_action = ''UPDATE'', ae_entity_type = ''Customer'', ae_entity_id = ''7'',
     ae_description = what, ae_metadata = ''{}'', ae_created = ''2025-05-02T10:00:00+00:00'', ae_sealed = False, ae_seq = 0,
     ae_prev = [], ae_hash = []\<rparr>"

definition sealed_sample :: "audit_event list" where
  "sealed_sample = chain_rows hex_of [] 0 [sample_event 3 ''credit limit'']"

lemma sealed_sample_rows: "sealed_rows sealed_sample (Some 1) = sealed_sample"
  by (simp add: sealed_sample_def sealed_rows_def Let_def sample_event_def)

lemma sealed_sample_verified: "verify_one hex_of sealed_sample (Some 1) = []"
  using chain_rows_chained [of hex_of "[]" 0 "[sample_event 3 ''credit limit'']", folded sealed_sample_def]
  by (simp add: verify_chained sealed_sample_rows)

theorem tip_proves_history_witness:
  "\<exists>later. map audit_facts (sealed_rows sealed_sample (Some 1)) = map audit_facts (sealed_rows sealed_sample (Some 1)) @ later
    \<and> sealed_rows sealed_sample (Some 1) \<noteq> []"
proof -
  have "sealed_companies sealed_sample = [Some 1]" by (simp add: sealed_companies_def sealed_sample_def Let_def sample_event_def)
  then have "compare_tip sealed_sample (export_tip_payload sealed_sample) False = ([], [])"
    by (simp add: compare_tip_def export_tip_payload_def Let_def sealed_sample_rows compare_row_def chain_tip_def)
      (simp add: sealed_sample_def Let_def)
  then have "\<exists>later. map audit_facts (sealed_rows sealed_sample (Some 1)) = map audit_facts (sealed_rows sealed_sample (Some 1)) @ later"
    using tip_proves_history [OF hex_good sealed_sample_verified sealed_sample_verified, of False] by simp
  then show ?thesis by (simp add: sealed_sample_rows) (simp add: sealed_sample_def Let_def)
qed

theorem sealing_extends_chain_witness:
  "\<exists>n events'. seal hex_of (Some 1) 2000 (sample_event 4 ''address'' # sealed_sample) = (n, events') \<and> n = 1 \<and>
    verify_one hex_of events' (Some 1) = []"
proof -
  let ?ev = "sample_event 4 ''address'' # sealed_sample"
  obtain n events' where s: "seal hex_of (Some 1) 2000 ?ev = (n, events')" by (cases "seal hex_of (Some 1) 2000 ?ev") auto
  have rows: "sealed_rows ?ev (Some 1) = sealed_sample" "unsealed_rows ?ev (Some 1) = [sample_event 4 ''address'']"
    by (simp_all add: sealed_sample_def sealed_rows_def unsealed_rows_def Let_def sample_event_def)
  have "verify_one hex_of ?ev (Some 1) = []"
    using sealed_sample_verified by (simp add: verify_chained rows sealed_sample_rows)
  moreover have "distinct (map ae_id ?ev)" by (simp add: sealed_sample_def Let_def sample_event_def)
  ultimately show ?thesis
    using sealing_extends_chain [OF _ _ _ s] s rows(2) by simp
qed

end
