(* ===== verification/Depreciation.thy ===== *)
theory Depreciation
  imports Vouchers
begin

text \<open>
  Fixed assets (\<open>accounting/depreciation.py\<close>, \<open>accounting/tasks.py\<close>, \<open>FixedAsset\<close> in \<open>accounting/models.py\<close> and
  the disposal of \<open>FixedAssetViewSet\<close>): the charge of a month, the run an owner starts, the nightly task, the
  part month of a disposal and the disposal itself.  The assets are those of one company, in the order of their
  ids; \<open>key lg\<close> is the primary key the database gives the next journal entry.
\<close>

section \<open>Days and months\<close>

text \<open>\<open>date.toordinal\<close>: the difference of two dates in days is the difference of their ordinals.\<close>

definition days_before_year :: "int \<Rightarrow> int" where
  "days_before_year y = (y - 1) * 365 + (y - 1) div 4 - (y - 1) div 100 + (y - 1) div 400"

definition ordinal :: "date \<Rightarrow> int" where
  "ordinal d = days_before_year (d_year d) + (\<Sum>m\<leftarrow>[1..d_month d - 1]. days_in_month (d_year d) m) + d_day d"

definition first_of :: "date \<Rightarrow> date" where
  "first_of d = Date (d_year d) (d_month d) 1"

text \<open>\<open>_month_end\<close>: thirty-two days after the first of a month lie in the next one.\<close>

definition month_end_of :: "date \<Rightarrow> date" where
  "month_end_of d = prev_day (first_of (add_days 32 (first_of d)))"

definition last_completed_month_end :: "date \<Rightarrow> date" where
  "last_completed_month_end today = prev_day (first_of today)"

definition month_key :: "date \<Rightarrow> string" where
  "month_key cm = pad_nat 4 (nat (d_year cm)) @ ''-'' @ pad_nat 2 (nat (d_month cm))"

section \<open>Assets\<close>

datatype asset_status = Asset_Active | Asset_Disposed

datatype dep_method = SLM | WDV

record fixed_asset =
  fa_id :: int
  fa_asset_account :: string
  fa_accumulated_account :: string
  fa_expense_account :: string
  fa_acquired :: date
  fa_cost :: rat
  fa_life :: nat
  fa_depreciated :: rat
  fa_last_error :: string
  fa_status :: asset_status
  fa_disposed_at :: "date option"
  fa_method :: dep_method
  fa_salvage :: rat
  fa_rate :: rat
  fa_catchup :: string           \<comment> \<open>months still to charge, \<open>YYYY-MM\<close>, separated by commas\<close>

definition depreciable_base :: "fixed_asset \<Rightarrow> rat" where
  "depreciable_base a = (let base = fa_cost a - fa_salvage a in if 0 < base then base else 0)"

definition written_down_value :: "fixed_asset \<Rightarrow> rat" where
  "written_down_value a = fa_cost a - fa_depreciated a"

definition monthly_depreciation :: "fixed_asset \<Rightarrow> rat" where
  "monthly_depreciation a =
    (case fa_method a of
       WDV \<Rightarrow>
         if fa_rate a \<le> 0 then 0
         else let opening = written_down_value a; room = opening - fa_salvage a in
           if room \<le> 0 then 0
           else let charge = quantize_even 2 (ddiv (ddiv (dmul opening (fa_rate a)) 100) 12) in
             if 0 < charge then min charge room else 0
     | SLM \<Rightarrow> if fa_life a = 0 then 0 else quantize_even 2 (ddiv (depreciable_base a) (of_nat (fa_life a))))"

text \<open>The acquisition and the disposal month are charged by days in service.\<close>

definition prorate_days_in_service :: "fixed_asset \<Rightarrow> date \<Rightarrow> rat \<Rightarrow> rat" where
  "prorate_days_in_service a cm amount =
    (let days_in_month = ordinal cm - ordinal (first_of cm) + 1;
         begin_day = (if month_end_of (fa_acquired a) = cm \<and> first_of cm < fa_acquired a then fa_acquired a
                      else first_of cm);
         end_day = (case fa_disposed_at a of
              None \<Rightarrow> cm
            | Some d \<Rightarrow> if month_end_of d = cm \<and> d < cm then d else cm)
     in if end_day < begin_day \<or> days_in_month \<le> 0 then 0
        else let days = ordinal end_day - ordinal begin_day + 1 in
          if 0 < days \<and> days < days_in_month
          then q2 (ddiv (dmul amount (of_int days)) (of_int days_in_month)) else amount)"

definition month_amount :: "fixed_asset \<Rightarrow> date \<Rightarrow> rat" where
  "month_amount a cm =
    (let remaining = fa_cost a - fa_depreciated a - fa_salvage a in
     if remaining \<le> 0 then 0
     else let amount = min (monthly_depreciation a) remaining in
       if amount \<le> 0 then 0
       else let amount = prorate_days_in_service a cm amount in
         if amount \<le> 0 then 0
         else if remaining - amount \<le> 1 then remaining else amount)"

section \<open>Planning\<close>

definition MAX_SCHEDULE_MONTHS :: nat where "MAX_SCHEDULE_MONTHS = 600"

fun months_from :: "nat \<Rightarrow> date \<Rightarrow> date \<Rightarrow> date list" where
  "months_from 0 cm through = []"
| "months_from (Suc fuel) cm through =
    (if cm \<le> through then cm # months_from fuel (month_end_of (next_day cm)) through else [])"

definition month_ends :: "date \<Rightarrow> date \<Rightarrow> date list" where
  "month_ends start through = months_from MAX_SCHEDULE_MONTHS (month_end_of start) through"

definition dep_purpose :: "date \<Rightarrow> string" where
  "dep_purpose cm = ''DEPRECIATION-'' @ month_key cm"

definition dep_source :: "fixed_asset \<Rightarrow> date \<Rightarrow> posting_source" where
  "dep_source a cm = (''FIXED_ASSET'', fa_id a, dep_purpose cm)"

definition already_charged :: "jentry list \<Rightarrow> fixed_asset \<Rightarrow> date \<Rightarrow> bool" where
  "already_charged es a cm = list_ex (\<lambda>e. fst (je_source e) = ''FIXED_ASSET'' \<and> fst (snd (je_source e)) = fa_id a \<and>
     je_status e = POSTED \<and>
     (snd (snd (je_source e)) = dep_purpose cm \<or>
      (starts_with (snd (snd (je_source e))) ''DEPRECIATION-'' \<and> first_of cm \<le> je_date e \<and> je_date e \<le> cm))) es"

fun plan_months :: "jentry list \<Rightarrow> fixed_asset \<Rightarrow> date list \<Rightarrow> (date \<times> rat) list" where
  "plan_months es a [] = []"
| "plan_months es a (cm # cms) =
    (if already_charged es a cm then plan_months es a cms
     else let amount = month_amount a cm in
       if amount \<le> 0 then plan_months es a cms
       else (cm, amount) # plan_months es (a\<lparr>fa_depreciated := fa_depreciated a + amount\<rparr>) cms)"

definition plan_asset :: "jentry list \<Rightarrow> fixed_asset \<Rightarrow> date \<Rightarrow> (date \<times> rat) list" where
  "plan_asset es a through = plan_months es a (month_ends (fa_acquired a) through)"

definition plan_company :: "jentry list \<Rightarrow> fixed_asset list \<Rightarrow> date \<Rightarrow> (fixed_asset \<times> (date \<times> rat) list) list" where
  "plan_company es assets through = filter (\<lambda>(a, rows). rows \<noteq> [])
     (map (\<lambda>a. (a, plan_asset es a through)) (filter (\<lambda>a. fa_status a = Asset_Active) assets))"

section \<open>Charging\<close>

definition charge_lines :: "fixed_asset \<Rightarrow> rat \<Rightarrow> jline list" where
  "charge_lines a amount = [dr (fa_expense_account a) amount None, cr (fa_accumulated_account a) amount None]"

definition post_month ::
  "gl_company \<Rightarrow> date \<Rightarrow> (ledger \<Rightarrow> int) \<Rightarrow> date \<Rightarrow> fixed_asset \<times> ledger \<Rightarrow> (rat \<times> fixed_asset \<times> ledger) res" where
  "post_month co today key cm s =
    (let (a, lg) = s; amount = month_amount a cm in
     if amount \<le> 0 then Inr (0, a, lg)
     else bind_res (post co today (key lg) lg (dep_source a cm) cm (charge_lines a amount) False False)
       (\<lambda>(entry, lg'). if entry = None then Inr (0, a, lg')
          else Inr (amount, a\<lparr>fa_depreciated := fa_depreciated a + amount\<rparr>, lg')))"

datatype month_status = Would_Post | Month_Posted | Month_Blocked

type_synonym month_row = "string \<times> rat \<times> month_status"

text \<open>A month that raises \<open>BusinessRuleError\<close> is reported and the next ones go on; any other error ends the run.\<close>

fun run_months ::
  "gl_company \<Rightarrow> date \<Rightarrow> (ledger \<Rightarrow> int) \<Rightarrow> (date \<times> rat) list \<Rightarrow> fixed_asset \<times> ledger
    \<Rightarrow> (month_row list \<times> string list \<times> fixed_asset \<times> ledger) res" where
  "run_months co today key [] s = Inr ([], [], s)"
| "run_months co today key ((cm, planned) # rest) s =
    (case post_month co today key cm s of
       Inl (Business_Rule m) \<Rightarrow> bind_res (run_months co today key rest s)
         (\<lambda>(rows, errors, s'). Inr ((month_key cm, planned, Month_Blocked) # rows, (month_key cm @ '': '' @ m) # errors, s'))
     | Inl e \<Rightarrow> Inl e
     | Inr (amount, s1) \<Rightarrow> bind_res (run_months co today key rest s1)
         (\<lambda>(rows, errors, s'). Inr (if 0 < amount then (month_key cm, amount, Month_Posted) # rows else rows, errors, s')))"

record asset_report =
  ar_asset :: int
  ar_months :: "month_row list"
  ar_errors :: "string list"

definition posted_rows :: "month_row list \<Rightarrow> month_row list" where
  "posted_rows rows = filter (\<lambda>(k, x, st). st = Month_Posted) rows"

definition run_asset ::
  "gl_company \<Rightarrow> date \<Rightarrow> (ledger \<Rightarrow> int) \<Rightarrow> date \<Rightarrow> fixed_asset \<Rightarrow> ledger \<Rightarrow> (asset_report \<times> fixed_asset \<times> ledger) res" where
  "run_asset co today key through a lg =
    bind_res (run_months co today key (plan_asset (lg_entries lg) a through) (a, lg))
      (\<lambda>(rows, errors, a', lg').
        let keys = map fst (posted_rows rows);
            still = filter (\<lambda>k. k \<noteq> [] \<and> k \<notin> set keys) (split_on CHR '','' (fa_catchup a'))
        in Inr (\<lparr>ar_asset = fa_id a, ar_months = rows, ar_errors = errors\<rparr>,
                a'\<lparr>fa_catchup := take 800 (join_with '','' still), fa_last_error := take 500 (join_with ''; '' errors)\<rparr>,
                lg'))"

text \<open>
  The assets with something to charge were chosen before the first of them was charged.  Each asset is
  charged in a transaction of its own: an error other than a business rule ends the run and leaves what
  the assets before it charged.
\<close>

fun run_assets ::
  "gl_company \<Rightarrow> date \<Rightarrow> (ledger \<Rightarrow> int) \<Rightarrow> date \<Rightarrow> int list \<Rightarrow> fixed_asset list \<Rightarrow> ledger
    \<Rightarrow> asset_report list \<times> err option \<times> fixed_asset list \<times> ledger" where
  "run_assets co today key through chosen [] lg = ([], None, [], lg)"
| "run_assets co today key through chosen (a # rest) lg =
    (if fa_id a \<notin> set chosen
     then let (reports, stop, as, lg') = run_assets co today key through chosen rest lg in (reports, stop, a # as, lg')
     else case run_asset co today key through a lg of
       Inl e \<Rightarrow> ([], Some e, a # rest, lg)
     | Inr (r, a', lg1) \<Rightarrow>
         let (reports, stop, as, lg') = run_assets co today key through chosen rest lg1
         in (r # reports, stop, a' # as, lg'))"

record run_result =
  rr_posted :: nat
  rr_total :: rat
  rr_assets :: "asset_report list"

definition run_summary :: "asset_report list \<Rightarrow> run_result" where
  "run_summary reports =
    (let rows = concat (map (\<lambda>r. posted_rows (ar_months r)) reports) in
     \<lparr>rr_posted = length rows, rr_total = (\<Sum>(k, x, st)\<leftarrow>rows. x), rr_assets = reports\<rparr>)"

definition preview_report :: "fixed_asset \<times> (date \<times> rat) list \<Rightarrow> asset_report" where
  "preview_report = (\<lambda>(a, rows). \<lparr>ar_asset = fa_id a,
     ar_months = map (\<lambda>(cm, x). (month_key cm, x, Would_Post)) rows, ar_errors = []\<rparr>)"

definition run_company ::
  "gl_company \<Rightarrow> date \<Rightarrow> (ledger \<Rightarrow> int) \<Rightarrow> fixed_asset list \<Rightarrow> ledger \<Rightarrow> date \<Rightarrow> bool
    \<Rightarrow> run_result res \<times> fixed_asset list \<times> ledger" where
  "run_company co today key assets lg through dry_run =
    (if last_completed_month_end today < through
     then (Inl (Business_Rule ''Depreciation can be run only for months that have ended.''), assets, lg)
     else let plan = plan_company (lg_entries lg) assets through in
     if dry_run then (Inr (run_summary (map preview_report plan)), assets, lg)
     else let (reports, stop, as, lg') = run_assets co today key through (map (\<lambda>(a, rows). fa_id a) plan) assets lg
       in (case stop of None \<Rightarrow> Inr (run_summary reports) | Some e \<Rightarrow> Inl e, as, lg'))"

section \<open>The nightly task\<close>

definition MAX_CATCHUP_MONTHS :: nat where "MAX_CATCHUP_MONTHS = 3"

fun months_back :: "nat \<Rightarrow> date \<Rightarrow> date list" where
  "months_back 0 cur = []"
| "months_back (Suc n) cur = cur # months_back n (month_end_of (prev_day (first_of cur)))"

definition pending_charge_months :: "date \<Rightarrow> date list" where
  "pending_charge_months charge_date = months_back MAX_CATCHUP_MONTHS charge_date"

fun older_months :: "nat \<Rightarrow> date \<Rightarrow> date \<Rightarrow> date list" where
  "older_months 0 cur earliest = []"
| "older_months (Suc guard) cur earliest =
    (if earliest \<le> cur then cur # older_months guard (month_end_of (prev_day (first_of cur))) earliest else [])"

definition months_before_window :: "date \<Rightarrow> date \<Rightarrow> date list" where
  "months_before_window charge_date earliest =
    (case pending_charge_months charge_date of
       [] \<Rightarrow> []
     | w # ws \<Rightarrow> rev (older_months 120 (month_end_of (prev_day (first_of (last (w # ws))))) earliest))"

text \<open>
  One asset, the months of the window oldest first; \<open>skipped\<close> are the messages of the months that were closed.
  The count of posted months survives an error that rolls the asset back, as the local variable does.
\<close>

fun nightly_months ::
  "gl_company \<Rightarrow> date \<Rightarrow> (ledger \<Rightarrow> int) \<Rightarrow> date \<Rightarrow> date list \<Rightarrow> string list \<Rightarrow> nat \<Rightarrow> fixed_asset \<Rightarrow> ledger
    \<Rightarrow> nat \<times> (fixed_asset \<times> ledger) res" where
  "nightly_months co today key charge_date [] skipped count a lg = (count, Inr (a, lg))"
| "nightly_months co today key charge_date (cm # cms) skipped count a lg =
    (if charge_date < cm \<or> cm < month_end_of (fa_acquired a) \<or> already_charged (lg_entries lg) a cm
     then nightly_months co today key charge_date cms skipped count a lg
     else let remaining = fa_cost a - fa_depreciated a - fa_salvage a; amount = min (monthly_depreciation a) remaining in
       if remaining \<le> 0 \<or> amount \<le> 0 then (count, Inr (a, lg))
       else let part = prorate_days_in_service a cm amount in
         if part \<le> 0 then nightly_months co today key charge_date cms skipped count a lg
         else let charge = (if remaining - part \<le> 1 then remaining else part) in
           case post co today (key lg) lg (dep_source a cm) cm (charge_lines a charge) False False of
             Inl (Business_Rule m) \<Rightarrow>
               let skipped' = skipped @ [month_key cm @ '': '' @ m] in
               nightly_months co today key charge_date cms skipped' count
                 (a\<lparr>fa_last_error := take 500 (join_with ''; '' skipped')\<rparr>) lg
           | Inl e \<Rightarrow> (count, Inl e)
           | Inr (None, lg') \<Rightarrow> nightly_months co today key charge_date cms skipped count a lg'
           | Inr (Some _, lg') \<Rightarrow> nightly_months co today key charge_date cms skipped (Suc count)
               (a\<lparr>fa_depreciated := fa_depreciated a + charge,
                  fa_last_error := (if skipped = [] then [] else take 500 (join_with ''; '' skipped))\<rparr>) lg')"

definition remember_older :: "date \<Rightarrow> ledger \<Rightarrow> fixed_asset \<Rightarrow> fixed_asset" where
  "remember_older charge_date lg a = a\<lparr>fa_catchup := take 800 (join_with '',''
     (map month_key (filter (\<lambda>cm. \<not> already_charged (lg_entries lg) a cm)
       (months_before_window charge_date (month_end_of (fa_acquired a))))))\<rparr>"

definition err_text :: "err \<Rightarrow> string" where
  "err_text e = (case e of Business_Rule m \<Rightarrow> m | Value_Error m \<Rightarrow> m | Validation_Error m \<Rightarrow> m | Runtime_Error m \<Rightarrow> m)"

text \<open>An error of one asset rolls back that asset alone and is kept on it.\<close>

definition nightly_asset ::
  "gl_company \<Rightarrow> date \<Rightarrow> (ledger \<Rightarrow> int) \<Rightarrow> nat \<times> fixed_asset list \<times> ledger \<Rightarrow> fixed_asset
    \<Rightarrow> nat \<times> fixed_asset list \<times> ledger" where
  "nightly_asset co today key = (\<lambda>(count, as, lg) a.
    let charge_date = last_completed_month_end today in
    if fa_status a \<noteq> Asset_Active then (count, as @ [a], lg)
    else case nightly_months co today key charge_date (rev (pending_charge_months charge_date)) [] count a lg of
      (count', Inl e) \<Rightarrow> (count', as @ [a\<lparr>fa_last_error := err_text e\<rparr>], lg)
    | (count', Inr (a', lg')) \<Rightarrow> (count', as @ [remember_older charge_date lg' a'], lg'))"

definition depreciate_company_assets ::
  "gl_company \<Rightarrow> date \<Rightarrow> (ledger \<Rightarrow> int) \<Rightarrow> fixed_asset list \<Rightarrow> ledger \<Rightarrow> nat \<times> fixed_asset list \<times> ledger" where
  "depreciate_company_assets co today key assets lg = foldl (nightly_asset co today key) (0, [], lg) assets"

section \<open>The months before the window\<close>

definition key_month :: "string \<Rightarrow> date res" where
  "key_month k = (let y = take 4 k; m = take 2 (drop 5 k); month = int (nat_of_digits m) in
     guard_res (\<not> py_isdigit y \<or> \<not> py_isdigit m \<or> nat_of_digits y = 0 \<or> month < 1 \<or> 12 < month)
       (Value_Error ''invalid month'') (Inr (month_end_of (Date (int (nat_of_digits y)) month 1))))"

fun backfill_months ::
  "gl_company \<Rightarrow> date \<Rightarrow> (ledger \<Rightarrow> int) \<Rightarrow> string list \<Rightarrow> string list \<Rightarrow> nat \<Rightarrow> fixed_asset \<Rightarrow> ledger
    \<Rightarrow> (nat \<times> fixed_asset \<times> ledger) res" where
  "backfill_months co today key [] still count a lg =
    Inr (count, a\<lparr>fa_catchup := take 800 (join_with '','' still)\<rparr>, lg)"
| "backfill_months co today key (k # ks) still count a lg =
    bind_res (key_month k) (\<lambda>cm.
    if already_charged (lg_entries lg) a cm then backfill_months co today key ks still count a lg
    else let remaining = fa_cost a - fa_depreciated a - fa_salvage a; amount = min (monthly_depreciation a) remaining in
      if remaining \<le> 0 then backfill_months co today key ks still count a lg
      else if amount \<le> 0 then backfill_months co today key ks (still @ [k]) count a lg
      else let part = prorate_days_in_service a cm amount in
        if part \<le> 0 then backfill_months co today key ks still count a lg
        else let charge = (if remaining - part \<le> 1 then remaining else part) in
          case post co today (key lg) lg (''FIXED_ASSET'', fa_id a, ''DEPRECIATION-'' @ k) cm (charge_lines a charge)
              False False of
            Inl (Business_Rule m) \<Rightarrow> backfill_months co today key ks (still @ [k]) count
              (a\<lparr>fa_last_error := take 500 (k @ '': '' @ m)\<rparr>) lg
          | Inl e \<Rightarrow> Inl e
          | Inr (None, lg') \<Rightarrow> backfill_months co today key ks (still @ [k]) count a lg'
          | Inr (Some _, lg') \<Rightarrow> backfill_months co today key ks still (Suc count)
              (a\<lparr>fa_depreciated := fa_depreciated a + charge\<rparr>) lg')"

text \<open>An error leaves the assets before the failing one posted: each has a transaction of its own.\<close>

fun backfill_catchup ::
  "gl_company \<Rightarrow> date \<Rightarrow> (ledger \<Rightarrow> int) \<Rightarrow> nat \<Rightarrow> fixed_asset list \<Rightarrow> ledger
    \<Rightarrow> err option \<times> nat \<times> fixed_asset list \<times> ledger" where
  "backfill_catchup co today key count [] lg = (None, count, [], lg)"
| "backfill_catchup co today key count (a # rest) lg =
    (let keys = filter (\<lambda>k. k \<noteq> []) (split_on CHR '','' (fa_catchup a)) in
     if fa_status a \<noteq> Asset_Active \<or> keys = []
     then let (e, n, as, lg') = backfill_catchup co today key count rest lg in (e, n, a # as, lg')
     else case backfill_months co today key keys [] count a lg of
         Inl e \<Rightarrow> (Some e, count, a # rest, lg)
       | Inr (n1, a', lg1) \<Rightarrow> let (e, n, as, lg') = backfill_catchup co today key n1 rest lg1 in (e, n, a' # as, lg'))"

section \<open>Disposal\<close>

definition post_disposal_month ::
  "gl_company \<Rightarrow> date \<Rightarrow> (ledger \<Rightarrow> int) \<Rightarrow> date \<Rightarrow> fixed_asset \<times> ledger \<Rightarrow> (rat \<times> fixed_asset \<times> ledger) res" where
  "post_disposal_month co today key disposal_date s =
    (let (a, lg) = s; cm = month_end_of disposal_date; sold = a\<lparr>fa_disposed_at := Some disposal_date\<rparr> in
     if already_charged (lg_entries lg) sold cm then Inr (0, a, lg)
     else bind_res (post_month co today key cm (sold, lg))
       (\<lambda>(amount, a', lg'). Inr (amount, a'\<lparr>fa_disposed_at := fa_disposed_at a\<rparr>, lg')))"

record disposal_request =
  dq_confirm :: bool
  dq_proceeds :: rat
  dq_date :: "date option"
  dq_part_month :: bool
  dq_bank :: "int option"
  dq_cash_code :: "string option"

text \<open>The ledger that takes the proceeds; \<open>banks\<close> are the ids of the company's bank accounts.\<close>

definition proceeds_account ::
  "gl_company \<Rightarrow> int list \<Rightarrow> ledger \<Rightarrow> disposal_request \<Rightarrow> date \<Rightarrow> (string \<times> ledger) res" where
  "proceeds_account co banks lg rq d =
    (case dq_bank rq of
       Some b \<Rightarrow> guard_res (b \<notin> set banks) (Business_Rule ''Unknown bank account.'')
         (bind_res (bank_gl_account co (lg_chart lg) (Some b) (Some d)) (\<lambda>(code, chart). Inr (code, lg\<lparr>lg_chart := chart\<rparr>)))
     | None \<Rightarrow> (let code = (case dq_cash_code rq of None \<Rightarrow> ''1100'' | Some c \<Rightarrow> if c = [] then ''1100'' else c) in
         guard_res (code \<notin> set [''1100'', ''1500'']) (Business_Rule ''cash_account_code must be 1100 (Cash) or 1500 (Bank).'')
           (Inr (code, lg))))"

definition disposal_lines :: "fixed_asset \<times> string \<times> rat \<Rightarrow> jline list" where
  "disposal_lines = (\<lambda>(a, cash, proceeds).
    let loss = fa_cost a - fa_depreciated a - proceeds in
    (if 0 < fa_depreciated a then [dr (fa_accumulated_account a) (fa_depreciated a) None] else []) @
    (if 0 < proceeds then [dr cash proceeds None] else []) @
    (if 0 < loss then [dr ''5600'' loss None] else if loss < 0 then [cr ''5700'' \<bar>loss\<bar> None] else []) @
    [cr (fa_asset_account a) (fa_cost a) None])"

definition dispose ::
  "gl_company \<Rightarrow> date \<Rightarrow> (ledger \<Rightarrow> int) \<Rightarrow> int list \<Rightarrow> disposal_request \<Rightarrow> fixed_asset \<Rightarrow> ledger
    \<Rightarrow> (fixed_asset \<times> ledger) res" where
  "dispose co today key banks rq a lg =
    guard_res (\<not> dq_confirm rq) (Business_Rule ''confirm must be true to dispose a fixed asset.'') (
    guard_res (fa_status a \<noteq> Asset_Active) (Business_Rule ''Asset has already been disposed.'') (
    guard_res (fa_depreciated a < 0 \<or> fa_cost a < fa_depreciated a)
      (Business_Rule ''Accumulated depreciation is invalid for disposal.'') (
    guard_res (dq_proceeds rq < 0) (Business_Rule ''proceeds cannot be negative.'') (
    let proceeds = quantize_even 2 (dq_proceeds rq);
        d = (case dq_date rq of None \<Rightarrow> today | Some d \<Rightarrow> d) in
    guard_res (today < d) (Business_Rule ''disposal_date cannot be in the future.'') (
    guard_res (d < fa_acquired a) (Business_Rule ''disposal_date cannot be before the acquisition date.'') (
    bind_res (if dq_part_month rq then post_disposal_month co today key d (a, lg) else Inr (0, a, lg)) (\<lambda>(_, a1, lg1).
    let lg2 = lg1\<lparr>lg_chart := seed_chart_of_accounts (lg_chart lg1)\<rparr> in
    bind_res (if 0 < proceeds then proceeds_account co banks lg2 rq d else Inr ([], lg2)) (\<lambda>(cash, lg3).
    bind_res (post co today (key lg3) lg3 (''FIXED_ASSET'', fa_id a, ''DISPOSAL'') d (disposal_lines (a1, cash, proceeds))
        False False) (\<lambda>(_, lg4).
    Inr (a1\<lparr>fa_status := Asset_Disposed, fa_disposed_at := Some d\<rparr>, lg4))))))))))"

section \<open>Months\<close>

lemma add_days_in_month:
  "d + int n \<le> days_in_month y m \<Longrightarrow> add_days n (Date y m d) = Date y m (d + int n)"
  unfolding add_days_def by (induction n) (simp_all add: next_day_def)

lemma add_days_add: "add_days (k + n) d = add_days k (add_days n d)"
  by (simp add: add_days_def funpow_add)

text \<open>The arithmetic with thirty-two days finds the end of the month.\<close>

lemma month_end_of_eq:
  assumes "valid_date d"
  shows "month_end_of d = month_end d"
proof -
  define y m D where "y = d_year d" and "m = d_month d" and "D = days_in_month y m"
  define next_first where "next_first = next_day (Date y m D)"
  have D: "28 \<le> D" "D \<le> 31" by (simp_all add: D_def days_in_month_bounds)
  have v: "valid_date (Date y m D)" using assms D by (simp add: valid_date_def y_def m_def D_def)
  have nf: "next_first = Date (d_year next_first) (d_month next_first) 1"
    by (simp add: next_first_def next_day_def D_def)
  have "add_days (nat (D - 1)) (first_of d) = Date y m D"
    using add_days_in_month [of 1 "nat (D - 1)" y m] D by (simp add: first_of_def y_def m_def D_def)
  then have "add_days (1 + nat (D - 1)) (first_of d) = next_first"
    by (simp only: add_days_add) (simp add: add_days_def next_first_def)
  moreover have "32 = nat (32 - D) + (1 + nat (D - 1))" using D by simp
  ultimately have "add_days 32 (first_of d) = add_days (nat (32 - D)) next_first"
    by (metis add_days_add)
  also have "\<dots> = Date (d_year next_first) (d_month next_first) (1 + (32 - D))"
    using add_days_in_month [of 1 "nat (32 - D)" "d_year next_first" "d_month next_first"]
      days_in_month_bounds(1) [of "d_year next_first" "d_month next_first"] D nf by simp
  finally have "first_of (add_days 32 (first_of d)) = next_first" using nf by (simp add: first_of_def)
  then have "month_end_of d = prev_day next_first" by (simp add: month_end_of_def)
  also have "\<dots> = Date y m D" unfolding next_first_def by (rule prev_next_day [OF v])
  finally show ?thesis by (simp add: month_end_def y_def m_def D_def)
qed

definition month_end_day :: "date \<Rightarrow> bool" where
  "month_end_day cm = (valid_date cm \<and> 1 \<le> d_year cm \<and> month_end cm = cm)"

lemma month_end_is_end: "valid_date d \<Longrightarrow> 1 \<le> d_year d \<Longrightarrow> month_end_day (month_end d)"
  using month_end_valid [of d] by (simp add: month_end_day_def month_end_def)

lemma next_month_end:
  assumes "month_end_day cm"
  shows "month_end_day (month_end_of (next_day cm))" "cm < month_end_of (next_day cm)"
proof -
  have v: "valid_date cm" "valid_date (next_day cm)" using assms by (auto simp: month_end_day_def)
  have "1 \<le> d_year (next_day cm)" using assms by (auto simp: month_end_day_def next_day_def)
  then show "month_end_day (month_end_of (next_day cm))" using v by (simp add: month_end_of_eq month_end_is_end)
  have "cm < next_day cm" by (rule less_next_day [OF v(1)])
  also have "next_day cm \<le> month_end (next_day cm)" by (rule le_month_end [OF v(2)])
  finally show "cm < month_end_of (next_day cm)" using v by (simp add: month_end_of_eq)
qed

lemma month_key_inject:
  assumes "month_end_day a" "month_end_day b" "month_key a = month_key b"
  shows "a = b"
proof -
  have len: "length (pad_nat 2 n) = 2" if "n < 100" for n
    using that by (cases "n < 10") (simp_all add: pad_nat_def Let_def show_nat.simps)
  have m: "nat (d_month a) < 100" "nat (d_month b) < 100"
    using assms(1,2) by (auto simp: month_end_day_def valid_date_def)
  have "pad_nat 4 (nat (d_year a)) = pad_nat 4 (nat (d_year b)) \<and> ''-'' @ pad_nat 2 (nat (d_month a)) = ''-'' @ pad_nat 2 (nat (d_month b))"
    using assms(3) len [OF m(1)] len [OF m(2)] unfolding month_key_def by (subst (asm) append_eq_append_conv) auto
  then have "nat (d_year a) = nat (d_year b)" "nat (d_month a) = nat (d_month b)" by (auto simp del: nat_eq_iff)
  then have "d_year a = d_year b" "d_month a = d_month b"
    using assms(1,2) by (auto simp: month_end_day_def valid_date_def)
  then show ?thesis using assms(1,2) unfolding month_end_day_def month_end_def by metis
qed

lemma months_from_ends:
  assumes "month_end_day cm"
  shows "sorted_wrt (<) (months_from n cm through) \<and> (\<forall>c\<in>set (months_from n cm through). month_end_day c \<and> cm \<le> c)"
  using assms
proof (induction n arbitrary: cm)
  case (Suc n)
  note next_end = next_month_end [OF Suc.prems]
  show ?case using Suc.IH [OF next_end(1)] next_end(2) Suc.prems by fastforce
qed simp

lemma month_ends_ends:
  assumes "valid_date d" and "1 \<le> d_year d"
  shows "distinct (month_ends d through)" "\<forall>c\<in>set (month_ends d through). month_end_day c"
  using months_from_ends [OF month_end_is_end [OF assms], of MAX_SCHEDULE_MONTHS through]
  by (auto simp: month_ends_def month_end_of_eq [OF assms(1)] strict_sorted_iff)

section \<open>The amount of a month\<close>

text \<open>An asset in order: paise, within the column's sixteen digits, and not written off below its salvage value.\<close>

definition asset_ok :: "fixed_asset \<Rightarrow> bool" where
  "asset_ok a = (q2 (fa_cost a) = fa_cost a \<and> q2 (fa_depreciated a) = fa_depreciated a \<and>
     q2 (fa_salvage a) = fa_salvage a \<and> fa_cost a < 10 ^ 14 \<and> 0 \<le> fa_salvage a \<and> 0 \<le> fa_depreciated a \<and>
     fa_depreciated a + fa_salvage a \<le> fa_cost a \<and> valid_date (fa_acquired a) \<and> 1 \<le> d_year (fa_acquired a))"

definition room :: "fixed_asset \<Rightarrow> rat" where
  "room a = fa_cost a - fa_depreciated a - fa_salvage a"

lemma even_paise [simp]: "q2 (quantize_even 2 x) = quantize_even 2 x"
proof -
  obtain k where "quantize_even 2 x = of_int k * (1 / 100)" using paisa_even.on_grid by blast
  then show ?thesis using paisa.fix_grid by metis
qed

lemma room_paise: "asset_ok a \<Longrightarrow> q2 (room a) = room a"
  by (simp add: asset_ok_def room_def paisa_fixed)

lemma monthly_paise: "asset_ok a \<Longrightarrow> q2 (monthly_depreciation a) = monthly_depreciation a"
  using room_paise [of a] unfolding room_def
  by (auto simp: monthly_depreciation_def Let_def paisa.fixed_min written_down_value_def split: dep_method.splits)

lemma prorate_bounds:
  assumes "valid_date cm" and x: "q2 x = x" "0 \<le> x" "x < 10 ^ 14"
  shows "0 \<le> prorate_days_in_service a cm x" "prorate_days_in_service a cm x \<le> x"
    "q2 (prorate_days_in_service a cm x) = prorate_days_in_service a cm x"
proof -
  have dim: "ordinal cm - ordinal (first_of cm) + 1 = d_day cm" by (simp add: ordinal_def first_of_def)
  have le31: "d_day cm \<le> 31" using assms(1) days_in_month_bounds(2) [of "d_year cm" "d_month cm"] by (simp add: valid_date_def)
  have part: "0 \<le> q2 (ddiv (dmul x (of_int n)) (of_int m)) \<and> q2 (ddiv (dmul x (of_int n)) (of_int m)) \<le> x"
    if "0 < n" "n < m" "m \<le> 31" for n m :: int
  proof
    obtain k where k: "x = of_int k * (1 / 100)" using paisa.on_grid [of x] x(1) by metis
    have big: "x * of_int n < 10 ^ 20"
    proof -
      have "x * of_int n \<le> 10 ^ 14 * 31" using that x by (intro mult_mono) (auto simp: of_int_le_numeral_iff)
      then show ?thesis by simp
    qed
    have fix_n: "q2 (x * of_int n) = x * of_int n" unfolding k using paisa.fix_grid [of "k * n"] by (simp add: mult.assoc mult.left_commute)
    have m: "dmul x (of_int n) = x * of_int n"
      unfolding dmul_def using fix_n big x(2) that by (intro ctx28_paise) (auto simp: abs_mult)
    show nn: "0 \<le> q2 (ddiv (dmul x (of_int n)) (of_int m))"
      using x(2) that by (intro paisa.nonneg ddiv_nonneg dmul_nonneg) auto
    have "x * of_int n / of_int m \<le> x"
      using that x(2) by (simp add: divide_le_eq mult_left_mono)
    then have "ddiv (dmul x (of_int n)) (of_int m) \<le> ctx28 x"
      unfolding m ddiv_def using x(2) that by (intro ctx28_mono) auto
    also have "ctx28 x = x" using x by (intro ctx28_paise) auto
    finally show "q2 (ddiv (dmul x (of_int n)) (of_int m)) \<le> x" by (rule paisa.le_fixed [OF x(1)])
  qed
  define b where "b = (if month_end_of (fa_acquired a) = cm \<and> first_of cm < fa_acquired a then fa_acquired a else first_of cm)"
  define e where "e = (case fa_disposed_at a of None \<Rightarrow> cm | Some d \<Rightarrow> if month_end_of d = cm \<and> d < cm then d else cm)"
  define n where "n = ordinal e - ordinal b + 1"
  have "prorate_days_in_service a cm x = (if e < b \<or> d_day cm \<le> 0 then 0
      else if 0 < n \<and> n < d_day cm then q2 (ddiv (dmul x (of_int n)) (of_int (d_day cm))) else x)"
    unfolding prorate_days_in_service_def Let_def dim b_def e_def n_def by (rule refl)
  then show "0 \<le> prorate_days_in_service a cm x" "prorate_days_in_service a cm x \<le> x"
    "q2 (prorate_days_in_service a cm x) = prorate_days_in_service a cm x"
    using part [of n "d_day cm"] x le31 by auto
qed

lemma month_amount_room:
  "month_amount a cm = (if room a \<le> 0 then 0 else let m = min (monthly_depreciation a) (room a) in
     if m \<le> 0 then 0 else let p = prorate_days_in_service a cm m in
     if p \<le> 0 then 0 else if room a - p \<le> 1 then room a else p)"
  unfolding month_amount_def room_def Let_def by (rule refl)

lemma month_amount_bounds:
  assumes "asset_ok a" and "valid_date cm"
  shows "0 \<le> month_amount a cm" "month_amount a cm \<le> room a" "q2 (month_amount a cm) = month_amount a cm"
proof -
  define m where "m = min (monthly_depreciation a) (room a)"
  have r: "0 \<le> room a" "room a < 10 ^ 14" using assms(1) by (auto simp: asset_ok_def room_def)
  have fm: "q2 m = m" using assms(1) by (simp add: m_def paisa.fixed_min monthly_paise room_paise)
  have m: "m \<le> room a" by (simp add: m_def)
  then have "m < 10 ^ 14" using r by linarith
  note p = prorate_bounds [OF assms(2) fm _ this, of a]
  show "0 \<le> month_amount a cm" "month_amount a cm \<le> room a" "q2 (month_amount a cm) = month_amount a cm"
    using p m r room_paise [OF assms(1)] by (auto simp: month_amount_room Let_def m_def [symmetric])
qed

section \<open>Charging keeps the register and the ledger together\<close>

text \<open>
  What every route does to one asset and the books: charges that fit what is left of the asset, each posted
  under a source of its own, and remarks on the asset.
\<close>

definition remarked :: "fixed_asset \<Rightarrow> fixed_asset \<Rightarrow> bool" where
  "remarked a a' = (a' = a\<lparr>fa_last_error := fa_last_error a', fa_catchup := fa_catchup a'\<rparr>)"

inductive charges :: "gl_company \<Rightarrow> date \<Rightarrow> (ledger \<Rightarrow> int) \<Rightarrow> fixed_asset \<times> ledger \<Rightarrow> fixed_asset \<times> ledger \<Rightarrow> bool"
  for co today key s where
  stay: "charges co today key s s"
| remark: "charges co today key s (a, lg) \<Longrightarrow> remarked a a' \<Longrightarrow> charges co today key s (a', lg)"
| charge: "charges co today key s (a, lg) \<Longrightarrow>
    post co today (key lg) lg (''FIXED_ASSET'', fa_id a, p) d (charge_lines a x) False False = Inr (Some e, lg') \<Longrightarrow>
    (''FIXED_ASSET'', fa_id a, p) \<notin> set (posted_sources (lg_entries lg)) \<Longrightarrow> 0 < x \<Longrightarrow> x \<le> room a \<Longrightarrow> q2 x = x \<Longrightarrow>
    charges co today key s (a\<lparr>fa_depreciated := fa_depreciated a + x\<rparr>, lg')"

text \<open>The fields of an asset that charging leaves alone.\<close>

definition same_asset :: "fixed_asset \<Rightarrow> fixed_asset \<Rightarrow> bool" where
  "same_asset a a' = (a' = a\<lparr>fa_depreciated := fa_depreciated a', fa_last_error := fa_last_error a', fa_catchup := fa_catchup a'\<rparr>)"

definition own_entry :: "fixed_asset \<Rightarrow> jentry \<Rightarrow> bool" where
  "own_entry a e = (fst (je_source e) = ''FIXED_ASSET'' \<and> fst (snd (je_source e)) = fa_id a \<and> je_status e = POSTED)"

lemma same_asset_fields:
  assumes "same_asset a a'"
  shows "fa_id a' = fa_id a" "fa_cost a' = fa_cost a" "fa_salvage a' = fa_salvage a" "fa_acquired a' = fa_acquired a"
    "fa_expense_account a' = fa_expense_account a" "fa_accumulated_account a' = fa_accumulated_account a"
    "fa_disposed_at a' = fa_disposed_at a" "fa_status a' = fa_status a" "fa_asset_account a' = fa_asset_account a"
    "fa_method a' = fa_method a" "fa_rate a' = fa_rate a" "fa_life a' = fa_life a"
  using assms by (cases a, cases a', simp add: same_asset_def)+

lemma same_asset_trans: "same_asset a b \<Longrightarrow> same_asset b c \<Longrightarrow> same_asset a c"
  by (cases a; cases b; cases c) (simp add: same_asset_def)

lemma same_asset_refl [simp]: "same_asset a a"
  by (simp add: same_asset_def)

lemma same_asset_remark: "remarked a a' \<Longrightarrow> same_asset a a' \<and> fa_depreciated a' = fa_depreciated a"
  by (cases a; cases a') (simp add: same_asset_def remarked_def)

lemma same_asset_charge: "same_asset a (a\<lparr>fa_depreciated := x\<rparr>)"
  by (simp add: same_asset_def)

lemma charge_lines_normal: "q2 x = x \<Longrightarrow> map normalize_line (charge_lines a x) = charge_lines a x"
  using paisa_even_fixed [of x] by (simp add: charge_lines_def normalize_line_def on_side_def)

definition charge_effect :: "fixed_asset \<Rightarrow> rat \<Rightarrow> string \<Rightarrow> rat" where
  "charge_effect a x acc = (if acc = fa_expense_account a then x else 0) - (if acc = fa_accumulated_account a then x else 0)"

lemma charge_net: "net (charge_lines a x) acc = charge_effect a x acc"
  by (simp add: charge_lines_def charge_effect_def net_def on_side_def)

lemma charge_effect_add: "charge_effect a (x + y) acc = charge_effect a x acc + charge_effect a y acc"
  by (simp add: charge_effect_def)

lemma charge_effect_same: "same_asset a a' \<Longrightarrow> charge_effect a' = charge_effect a"
  using same_asset_fields [of a a'] by (simp add: charge_effect_def fun_eq_iff)

definition charged :: "gl_company \<Rightarrow> fixed_asset \<times> ledger \<Rightarrow> fixed_asset \<times> ledger \<Rightarrow> bool" where
  "charged co s t = (asset_ok (fst t) \<and> same_asset (fst s) (fst t) \<and> fa_depreciated (fst s) \<le> fa_depreciated (fst t) \<and>
     ledger_reachable co (snd t) \<and>
     (\<forall>acc. balances (snd t) acc = balances (snd s) acc + charge_effect (fst s) (fa_depreciated (fst t) - fa_depreciated (fst s)) acc) \<and>
     (\<exists>new. lg_entries (snd t) = lg_entries (snd s) @ new \<and> list_all (own_entry (fst s)) new))"

lemma asset_ok_charge:
  "asset_ok a \<Longrightarrow> 0 < x \<Longrightarrow> x \<le> room a \<Longrightarrow> q2 x = x \<Longrightarrow> asset_ok (a\<lparr>fa_depreciated := fa_depreciated a + x\<rparr>)"
  by (simp add: asset_ok_def room_def paisa_fixed)

lemma charges_charged:
  assumes "charges co today key s t"
    and ok: "asset_ok (fst s)" "ledger_reachable co (snd s)" "posts_to_ledger co" "fresh_keys key"
  shows "charged co s t"
  using assms(1)
proof induction
  case stay
  then show ?case using ok by (simp add: charged_def charge_effect_def)
next
  case (remark a lg a')
  have "same_asset a a'" "fa_depreciated a' = fa_depreciated a" using same_asset_remark [OF remark.hyps(2)] by auto
  moreover have "asset_ok a'"
    using remark.IH calculation same_asset_fields [of a a'] by (simp add: charged_def asset_ok_def)
  ultimately show ?case using remark.IH same_asset_trans by (auto simp: charged_def)
next
  case (charge a lg p d x e lg')
  let ?a = "a\<lparr>fa_depreciated := fa_depreciated a + x\<rparr>"
  have r: "ledger_reachable co lg" and same: "same_asset (fst s) a" and a: "asset_ok a" using charge.IH by (simp_all add: charged_def)
  note ok_books = books_ok_reachable [OF r ok(3)]
  have fresh: "key lg \<notin> je_id ` set (lg_entries lg)" using ok(4) by (simp add: fresh_keys_def)
  have r': "ledger_reachable co lg'"
    by (rule ledger_reachable.step [OF r ledger_step.posting [OF charge.hyps(2) _ fresh]]) simp
  have "balances lg' = apply_voucher (charge_lines a x) (balances lg)"
    using posting_balances [OF r ok(3) charge.hyps(2)] charge.hyps(3) charge_lines_normal [OF charge.hyps(6)] by simp
  then have bal: "balances lg' acc = balances lg acc + charge_effect (fst s) x acc" for acc
    using charge_effect_same [OF same] by (simp add: apply_voucher_def charge_net)
  have "lg_entries lg' = lg_entries lg @ [e] \<and> own_entry a e"
    by (rule post_elim [OF charge.hyps(2) ok_books])
      (use charge.hyps(3) in \<open>auto simp: same_posting_def posted_sources_def own_entry_def image_iff\<close>)
  then have new: "lg_entries lg' = lg_entries lg @ [e] \<and> own_entry (fst s) e"
    using same_asset_fields(1) [OF same] by (simp add: own_entry_def)
  have dep: "fa_depreciated a + x - fa_depreciated (fst s) = (fa_depreciated a - fa_depreciated (fst s)) + x" by simp
  show ?case unfolding charged_def
    using charge.IH r' bal new asset_ok_charge [OF a charge.hyps(4-6)] charge.hyps(4) same_asset_trans [OF same same_asset_charge]
    by (auto simp: charged_def dep charge_effect_add)
qed

lemma charges_trans:
  assumes "charges co today key t u" and "charges co today key s t"
  shows "charges co today key s u"
  using assms
proof induction
  case (remark a lg a')
  show ?case by (rule charges.remark [OF remark.IH [OF remark.prems] remark.hyps(2)])
next
  case (charge a lg p d x e lg')
  show ?case by (rule charges.charge [OF charge.IH [OF charge.prems] charge.hyps(2-6)])
qed

lemma one_charge:
  assumes "post co today (key lg) lg (''FIXED_ASSET'', fa_id a, p) d (charge_lines a x) False False = Inr (Some e, lg')"
    and "(''FIXED_ASSET'', fa_id a, p) \<notin> set (posted_sources (lg_entries lg))" "0 < x" "x \<le> room a" "q2 x = x"
  shows "charges co today key (a, lg) (a\<lparr>fa_depreciated := fa_depreciated a + x\<rparr>, lg')"
  using assms by (rule charges.charge [OF charges.stay])

lemma one_remark: "remarked a a' \<Longrightarrow> charges co today key (a, lg) (a', lg)"
  by (rule charges.remark [OF charges.stay])

lemma no_entry_no_change:
  "post co today i lg src d lines soft pre = Inr (None, lg') \<Longrightarrow> books_ok (lg_entries lg) \<Longrightarrow> posts_to_ledger co \<Longrightarrow>
    filter (\<lambda>l. jl_debit l \<noteq> 0 \<or> jl_credit l \<noteq> 0) (map normalize_line lines) = []"
  by (erule post_elim) auto

lemma charge_makes_entry:
  assumes "post co today i lg src d (charge_lines a x) soft pre = Inr (r, lg')" "q2 x = x" "0 < x"
    and "ledger_reachable co lg" "posts_to_ledger co"
  obtains e where "r = Some e"
proof (cases r)
  case None
  then have "filter (\<lambda>l. jl_debit l \<noteq> 0 \<or> jl_credit l \<noteq> 0) (map normalize_line (charge_lines a x)) = []"
    using no_entry_no_change [of co today i lg src d "charge_lines a x" soft pre lg'] assms(1,5) books_ok_reachable [OF assms(4,5)] by simp
  then show thesis using assms(2,3) charge_lines_normal [of x a] by (simp add: charge_lines_def on_side_def)
qed

lemma charged_facts:
  assumes "charged co (a, lg) (a', lg')"
  shows "asset_ok a'" "same_asset a a'" "fa_depreciated a \<le> fa_depreciated a'" "ledger_reachable co lg'"
    "set (posted_sources (lg_entries lg)) \<subseteq> set (posted_sources (lg_entries lg'))"
  using assms by (auto simp: charged_def posted_sources_def)

lemma post_month_charges:
  assumes "post_month co today key cm (a, lg) = Inr (x, a', lg')" and "asset_ok a" "valid_date cm"
    and "ledger_reachable co lg" "posts_to_ledger co" and "dep_source a cm \<notin> set (posted_sources (lg_entries lg))"
  shows "charges co today key (a, lg) (a', lg')" "fa_depreciated a' = fa_depreciated a + x" "0 \<le> x"
    "set (posted_sources (lg_entries lg')) \<subseteq> insert (dep_source a cm) (set (posted_sources (lg_entries lg)))"
    "month_amount a cm \<le> 0 \<or> dep_source a cm \<in> set (posted_sources (lg_entries lg'))"
proof -
  note amt = month_amount_bounds [OF assms(2,3)]
  have "charges co today key (a, lg) (a', lg') \<and> fa_depreciated a' = fa_depreciated a + x \<and> 0 \<le> x \<and>
    set (posted_sources (lg_entries lg')) \<subseteq> insert (dep_source a cm) (set (posted_sources (lg_entries lg))) \<and>
    (month_amount a cm \<le> 0 \<or> dep_source a cm \<in> set (posted_sources (lg_entries lg')))"
  proof (cases "month_amount a cm \<le> 0")
    case True
    then show ?thesis using assms(1) charges.stay by (auto simp: post_month_def Let_def)
  next
    case False
    then obtain r where p: "post co today (key lg) lg (dep_source a cm) cm (charge_lines a (month_amount a cm)) False False = Inr (r, lg')"
      and a': "if r = None then x = 0 \<and> a' = a else x = month_amount a cm \<and> a' = a\<lparr>fa_depreciated := fa_depreciated a + x\<rparr>"
      using assms(1) by (auto simp: post_month_def Let_def bind_res_Inr_iff split: if_splits)
    obtain e where e: "r = Some e"
      using charge_makes_entry [OF p amt(3) _ assms(4,5)] False by auto
    have "charges co today key (a, lg) (a', lg')"
      using one_charge [of co today key lg a "dep_purpose cm" cm "month_amount a cm" e lg'] p e a' assms(6) amt False
      by (simp add: dep_source_def)
    moreover have "lg_entries lg' = lg_entries lg @ [e] \<and> je_source e = dep_source a cm \<and> je_status e = POSTED"
      by (rule post_elim [OF p books_ok_reachable [OF assms(4,5)]])
        (use assms(6) e in \<open>auto simp: same_posting_def posted_sources_def image_iff\<close>)
    ultimately show ?thesis using a' e False by (auto simp: posted_sources_def)
  qed
  then show "charges co today key (a, lg) (a', lg')" "fa_depreciated a' = fa_depreciated a + x" "0 \<le> x"
    "set (posted_sources (lg_entries lg')) \<subseteq> insert (dep_source a cm) (set (posted_sources (lg_entries lg)))"
    "month_amount a cm \<le> 0 \<or> dep_source a cm \<in> set (posted_sources (lg_entries lg'))" by auto
qed

section \<open>What a run leaves\<close>

lemma prorate_mono:
  assumes "0 \<le> x" "x \<le> y" "valid_date cm"
  shows "prorate_days_in_service a cm x \<le> prorate_days_in_service a cm y"
proof -
  define b where "b = (if month_end_of (fa_acquired a) = cm \<and> first_of cm < fa_acquired a then fa_acquired a else first_of cm)"
  define e where "e = (case fa_disposed_at a of None \<Rightarrow> cm | Some d \<Rightarrow> if month_end_of d = cm \<and> d < cm then d else cm)"
  define n m where "n = ordinal e - ordinal b + 1" and "m = ordinal cm - ordinal (first_of cm) + 1"
  have p: "prorate_days_in_service a cm z = (if e < b \<or> m \<le> 0 then 0
      else if 0 < n \<and> n < m then q2 (ddiv (dmul z (of_int n)) (of_int m)) else z)" for z
    unfolding prorate_days_in_service_def Let_def b_def e_def n_def m_def by (rule refl)
  have "q2 (ddiv (dmul x (of_int n)) (of_int m)) \<le> q2 (ddiv (dmul y (of_int n)) (of_int m))" if "0 < n" "n < m"
    using that assms(1,2) by (intro paisa.mono_q ddiv_mono dmul_mono dmul_nonneg) auto
  then show ?thesis using assms(2) by (auto simp: p)
qed

lemma monthly_antitone:
  assumes "same_asset a a'" "fa_depreciated a \<le> fa_depreciated a'" "asset_ok a'"
  shows "monthly_depreciation a' \<le> monthly_depreciation a"
proof (cases "fa_method a")
  case SLM
  then show ?thesis using same_asset_fields [OF assms(1)] by (simp add: monthly_depreciation_def depreciable_base_def)
next
  case WDV
  note f = same_asset_fields [OF assms(1)]
  let ?c = "\<lambda>v. quantize_even 2 (ddiv (ddiv (dmul v (fa_rate a)) 100) 12)"
  have "?c (written_down_value a') \<le> ?c (written_down_value a)" if "0 < fa_rate a"
    using that assms f by (intro paisa_even.mono_q ddiv_mono dmul_mono dmul_nonneg ddiv_nonneg) (auto simp: written_down_value_def asset_ok_def)
  then show ?thesis using WDV f assms(2)
    by (auto simp: monthly_depreciation_def Let_def written_down_value_def)
qed

lemma nothing_left_stays:
  assumes "same_asset a a'" "fa_depreciated a \<le> fa_depreciated a'" "asset_ok a" "asset_ok a'" "valid_date cm"
    and "month_amount a cm \<le> 0"
  shows "month_amount a' cm \<le> 0"
proof -
  note f = same_asset_fields [OF assms(1)]
  define m m' where "m = min (monthly_depreciation a) (room a)" and "m' = min (monthly_depreciation a') (room a')"
  have r: "room a' \<le> room a" "0 \<le> room a'" using assms(2,4) f by (auto simp: room_def asset_ok_def)
  have m: "m' \<le> m" using monthly_antitone [OF assms(1,2,4)] r by (auto simp: m_def m'_def)
  have p: "prorate_days_in_service a' cm x = prorate_days_in_service a cm x" for x
    using f by (simp add: prorate_days_in_service_def)
  have "m' \<le> 0 \<or> prorate_days_in_service a cm m' \<le> prorate_days_in_service a cm m"
    using prorate_mono [OF _ m assms(5), of a] by linarith
  then show ?thesis using assms(6) r m
    by (auto simp: month_amount_room Let_def m_def [symmetric] m'_def [symmetric] p split: if_splits)
qed

definition settled :: "jentry list \<Rightarrow> fixed_asset \<Rightarrow> date \<Rightarrow> bool" where
  "settled es a cm = (month_amount a cm \<le> 0 \<or> already_charged es a cm)"

lemma posted_is_charged: "dep_source a cm \<in> set (posted_sources es) \<Longrightarrow> already_charged es a cm"
  by (auto simp: posted_sources_def already_charged_def dep_source_def list_ex_iff) (metis fst_conv snd_conv)

lemma charged_settled:
  assumes "charged co (a, lg) (a', lg')" "asset_ok a" "valid_date cm" "settled (lg_entries lg) a cm"
  shows "settled (lg_entries lg') a' cm"
proof -
  have "already_charged (lg_entries lg') a' cm" if "already_charged (lg_entries lg) a cm"
    using that assms(1) same_asset_fields [OF charged_facts(2) [OF assms(1)]] by (auto simp: charged_def already_charged_def)
  then show ?thesis
    using assms(4) nothing_left_stays [OF charged_facts(2,3) [OF assms(1)] assms(2) charged_facts(1) [OF assms(1)] assms(3)]
    by (auto simp: settled_def)
qed

lemma run_months_charges:
  assumes "run_months co today key plan (a, lg) = Inr (rows, errors, a', lg')"
    and "asset_ok a" "ledger_reachable co lg" "posts_to_ledger co" "fresh_keys key"
    and "list_all (\<lambda>(cm, x). month_end_day cm \<and> dep_source a cm \<notin> set (posted_sources (lg_entries lg))) plan"
    and "distinct (map fst plan)"
  shows "charges co today key (a, lg) (a', lg') \<and>
    (\<Sum>(k, x, st)\<leftarrow>posted_rows rows. x) = fa_depreciated a' - fa_depreciated a \<and>
    (\<forall>(cm, x)\<in>set plan. settled (lg_entries lg') a' cm \<or> (month_key cm, x, Month_Blocked) \<in> set rows)"
  using assms
proof (induction plan arbitrary: a lg rows errors a' lg')
  case Nil
  then show ?case by (simp add: charges.stay posted_rows_def)
next
  case (Cons pl plan)
  obtain cm x where pl: "pl = (cm, x)" by (cases pl)
  have cm: "month_end_day cm" "valid_date cm" "dep_source a cm \<notin> set (posted_sources (lg_entries lg))"
    using Cons.prems(6) by (auto simp: pl month_end_day_def)
  show ?case
  proof (cases "post_month co today key cm (a, lg)")
    case (Inl e)
    then obtain m rows' errors' where e: "e = Business_Rule m" and
      go: "run_months co today key plan (a, lg) = Inr (rows', errors', a', lg')"
      and rows: "rows = (month_key cm, x, Month_Blocked) # rows'"
      using Cons.prems(1) by (auto simp: pl bind_res_Inr_iff split: err.splits)
    show ?thesis using Cons.IH [OF go Cons.prems(2-5)] Cons.prems(6,7)
      by (auto simp: rows pl posted_rows_def)
  next
    case (Inr res)
    obtain y a1 lg1 where res: "res = (y, a1, lg1)" by (cases res)
    note pm = Inr [unfolded res]
    note one = post_month_charges [OF pm Cons.prems(2) cm(2) Cons.prems(3,4) cm(3)]
    obtain rows' where go: "run_months co today key plan (a1, lg1) = Inr (rows', errors, a', lg')"
      and rows: "rows = (if 0 < y then (month_key cm, y, Month_Posted) # rows' else rows')"
      using Cons.prems(1) by (auto simp: pl pm bind_res_Inr_iff)
    have ch: "charged co (a, lg) (a1, lg1)" using charges_charged [OF one(1)] Cons.prems(2-5) by simp
    note f = charged_facts [OF ch]
    have src: "dep_source a1 c = dep_source a c" for c using same_asset_fields(1) [OF f(2)] by (simp add: dep_source_def)
    have "list_all (\<lambda>(cm, x). month_end_day cm \<and> dep_source a1 cm \<notin> set (posted_sources (lg_entries lg1))) plan"
    proof -
      have "dep_source a c \<noteq> dep_source a cm" if "(c, z) \<in> set plan" "month_end_day c" for c z
        using that Cons.prems(7) month_key_inject [OF that(2) cm(1)] by (force simp: pl dep_source_def dep_purpose_def)
      then show ?thesis using Cons.prems(6) one(4) by (fastforce simp: pl list_all_iff src)
    qed
    note ih = Cons.IH [OF go f(1,4) Cons.prems(4,5) this] 
    have ih: "charges co today key (a1, lg1) (a', lg')"
      "(\<Sum>(k, x, st)\<leftarrow>posted_rows rows'. x) = fa_depreciated a' - fa_depreciated a1"
      "\<forall>(cm, x)\<in>set plan. settled (lg_entries lg') a' cm \<or> (month_key cm, x, Month_Blocked) \<in> set rows'"
      using ih Cons.prems(7) by (auto simp: pl)
    have ch': "charged co (a1, lg1) (a', lg')" using charges_charged [OF ih(1)] f(1,4) Cons.prems(4,5) by simp
    have "settled (lg_entries lg1) a1 cm"
      using one(5) nothing_left_stays [OF f(2,3) Cons.prems(2) f(1) cm(2)] posted_is_charged [of a1 cm] src
      by (auto simp: settled_def)
    then have "settled (lg_entries lg') a' cm" by (rule charged_settled [OF ch' f(1) cm(2)])
    then show ?thesis using charges_trans [OF ih(1) one(1)] ih(2,3) one(2,3)
      by (auto simp: rows pl posted_rows_def)
  qed
qed

lemma plan_months_rows:
  "(cm, x) \<in> set (plan_months es a cms) \<Longrightarrow> cm \<in> set cms \<and> \<not> already_charged es a cm"
proof (induction cms arbitrary: a)
  case (Cons c cms)
  have id: "already_charged es (a\<lparr>fa_depreciated := y\<rparr>) cm = already_charged es a cm" for y
    by (simp add: already_charged_def)
  show ?case
    using Cons.prems Cons.IH [of a] Cons.IH [of "a\<lparr>fa_depreciated := fa_depreciated a + month_amount a c\<rparr>"] id
    by (auto simp: Let_def split: if_splits)
qed simp

lemma plan_months_distinct: "distinct cms \<Longrightarrow> distinct (map fst (plan_months es a cms))"
  by (induction cms arbitrary: a) (auto simp: Let_def dest!: plan_months_rows)

lemma plan_asset_rows:
  assumes "asset_ok a"
  shows "list_all (\<lambda>(cm, x). month_end_day cm \<and> dep_source a cm \<notin> set (posted_sources es)) (plan_asset es a through)"
    "distinct (map fst (plan_asset es a through))"
  using month_ends_ends [of "fa_acquired a" through] assms plan_months_distinct posted_is_charged [of a]
  by (auto simp: plan_asset_def list_all_iff asset_ok_def dest!: plan_months_rows)

definition as_posted :: "date \<times> rat \<Rightarrow> month_row" where
  "as_posted = (\<lambda>(cm, x). (month_key cm, x, Month_Posted))"

text \<open>Months that do not depend on the entries made meanwhile, as far as one asset is concerned.\<close>

definition covers_plan :: "jentry list \<Rightarrow> fixed_asset \<Rightarrow> date list \<Rightarrow> rat \<Rightarrow> bool" where
  "covers_plan es a cms x = (\<forall>cm\<in>set cms. \<forall>a'. same_asset a a' \<and> asset_ok a' \<and> x \<le> fa_depreciated a' \<longrightarrow>
     settled es a' cm \<or> cm \<in> fst ` set (plan_months es a cms))"

lemma plan_months_cover:
  assumes "asset_ok a" "\<forall>cm\<in>set cms. valid_date cm"
  shows "covers_plan es a cms (fa_depreciated a + (\<Sum>(cm, x)\<leftarrow>plan_months es a cms. x)) \<and>
    0 \<le> (\<Sum>(cm, x)\<leftarrow>plan_months es a cms. x)"
  using assms
proof (induction cms arbitrary: a)
  case (Cons c cms)
  show ?case
  proof (cases "already_charged es a c \<or> month_amount a c \<le> 0")
    case True
    then have p: "plan_months es a (c # cms) = plan_months es a cms" by (auto simp: Let_def)
    note ih = Cons.IH [OF Cons.prems(1)]
    have "settled es a' c" if "same_asset a a'" "asset_ok a'" "fa_depreciated a \<le> fa_depreciated a'" for a'
      using True that nothing_left_stays [OF that(1,3) Cons.prems(1) that(2)] Cons.prems(2) same_asset_fields(1) [OF that(1)]
      by (auto simp: settled_def already_charged_def)
    then show ?thesis using ih Cons.prems(2) unfolding covers_plan_def p by auto
  next
    case False
    let ?a = "a\<lparr>fa_depreciated := fa_depreciated a + month_amount a c\<rparr>"
    have p: "plan_months es a (c # cms) = (c, month_amount a c) # plan_months es ?a cms"
      using False by (simp add: Let_def)
    note amt = month_amount_bounds [OF Cons.prems(1), of c]
    have ok: "asset_ok ?a" using asset_ok_charge [OF Cons.prems(1)] amt False Cons.prems(2) by simp
    have same: "same_asset ?a a'" if "same_asset a a'" for a'
      using that by (cases a; cases a') (simp add: same_asset_def)
    show ?thesis using Cons.IH [OF ok] Cons.prems(2) same amt(1) unfolding covers_plan_def p
      by (auto simp: add.assoc)
  qed
qed (simp add: covers_plan_def)

lemma run_plan_posts:
  assumes "run_months co today key (plan_months es a cms) (a, lg) = Inr (rows, [], a', lg')"
    and "asset_ok a" "ledger_reachable co lg" "posts_to_ledger co" "fresh_keys key" "\<forall>cm\<in>set cms. valid_date cm"
    and "list_all (\<lambda>(cm, x). month_end_day cm \<and> dep_source a cm \<notin> set (posted_sources (lg_entries lg))) (plan_months es a cms)"
    and "distinct cms"
  shows "rows = map as_posted (plan_months es a cms) \<and>
    fa_depreciated a' = fa_depreciated a + (\<Sum>(cm, x)\<leftarrow>plan_months es a cms. x)"
  using assms
proof (induction cms arbitrary: a lg rows)
  case (Cons c cms)
  show ?case
  proof (cases "already_charged es a c \<or> month_amount a c \<le> 0")
    case True
    then have p: "plan_months es a (c # cms) = plan_months es a cms" by (auto simp: Let_def)
    show ?thesis using Cons.IH [of a lg rows] Cons.prems unfolding p by simp
  next
    case False
    let ?x = "month_amount a c" let ?a = "a\<lparr>fa_depreciated := fa_depreciated a + ?x\<rparr>"
    have p: "plan_months es a (c # cms) = (c, ?x) # plan_months es ?a cms"
      using False by (simp add: Let_def)
    have c: "month_end_day c" "valid_date c" "dep_source a c \<notin> set (posted_sources (lg_entries lg))"
      using Cons.prems(6) Cons.prems(7) [unfolded p] by auto
    obtain y a1 lg1 where pm: "post_month co today key c (a, lg) = Inr (y, a1, lg1)"
      using Cons.prems(1) [unfolded p] by (cases "post_month co today key c (a, lg)") (auto simp: bind_res_Inr_iff split: err.splits)
    obtain rows' where go: "run_months co today key (plan_months es ?a cms) (a1, lg1) = Inr (rows', [], a', lg')"
      and rows: "rows = (if 0 < y then (month_key c, y, Month_Posted) # rows' else rows')"
      using Cons.prems(1) [unfolded p] by (auto simp: pm bind_res_Inr_iff)
    note one = post_month_charges [OF pm Cons.prems(2) c(2) Cons.prems(3,4) c(3)]
    have ch: "charged co (a, lg) (a1, lg1)" using charges_charged [OF one(1)] Cons.prems(2-5) by simp
    note f = charged_facts [OF ch]
    have "dep_source a c \<in> set (posted_sources (lg_entries lg1))" using one(5) False by simp
    then have y: "y = ?x" "a1 = ?a"
      using pm False c(3) by (auto simp: post_month_def Let_def bind_res_Inr_iff split: if_splits)
        (metis (no_types, lifting) Cons.prems(2-4) c(2) charge_makes_entry month_amount_bounds(3) not_le option.distinct(1))+
    have "dep_source a z \<noteq> dep_source a c" if "z \<in> set cms" "month_end_day z" for z
      using that Cons.prems(8) month_key_inject [OF that(2) c(1)] by (auto simp: dep_source_def dep_purpose_def)
    then have rest: "list_all (\<lambda>(cm, x). month_end_day cm \<and> dep_source ?a cm \<notin> set (posted_sources (lg_entries lg1))) (plan_months es ?a cms)"
      using Cons.prems(7) [unfolded p] one(4) by (fastforce simp: list_all_iff dep_source_def dest: plan_months_rows)
    have "rows' = map as_posted (plan_months es ?a cms) \<and>
        fa_depreciated a' = fa_depreciated ?a + (\<Sum>(cm, x)\<leftarrow>plan_months es ?a cms. x)"
      using Cons.IH [of ?a lg1 rows'] go rest f Cons.prems(4-8) y(2) by simp
    then show ?thesis using False unfolding p rows y(1) by (simp add: as_posted_def)
  qed
qed (simp add: as_posted_def)

lemma plan_needs_unsettled:
  assumes "(cm, x) \<in> set (plan_months es a cms)" "asset_ok a" "\<forall>c\<in>set cms. valid_date c"
  shows "\<not> settled es a cm"
  using assms
proof (induction cms arbitrary: a)
  case (Cons c cms)
  show ?case
  proof (cases "already_charged es a c \<or> month_amount a c \<le> 0")
    case True
    then have "plan_months es a (c # cms) = plan_months es a cms" by (auto simp: Let_def)
    then show ?thesis using Cons by simp
  next
    case False
    let ?a = "a\<lparr>fa_depreciated := fa_depreciated a + month_amount a c\<rparr>"
    have p: "plan_months es a (c # cms) = (c, month_amount a c) # plan_months es ?a cms"
      using False by (simp add: Let_def)
    note amt = month_amount_bounds [OF Cons.prems(2), of c]
    have ok: "asset_ok ?a" using asset_ok_charge [OF Cons.prems(2)] amt False Cons.prems(3) by simp
    have "\<not> settled es a cm" if r: "(cm, x) \<in> set (plan_months es ?a cms)"
    proof -
      have v: "valid_date cm" using plan_months_rows [OF r] Cons.prems(3) by auto
      have "\<not> settled es ?a cm" using Cons.IH [OF r ok] Cons.prems(3) by simp
      then show ?thesis
        using nothing_left_stays [OF same_asset_charge _ Cons.prems(2) ok v] amt(1) Cons.prems(3) by (auto simp: settled_def already_charged_def)
    qed
    then show ?thesis using Cons.prems(1) False unfolding p by (auto simp: settled_def)
  qed
qed simp

lemma settled_plan_empty:
  assumes "\<forall>c\<in>set cms. settled es a c \<and> valid_date c" "asset_ok a"
  shows "plan_months es a cms = []"
proof (rule ccontr)
  assume "plan_months es a cms \<noteq> []"
  then obtain cm x where r: "(cm, x) \<in> set (plan_months es a cms)" by (metis ex_in_conv set_empty surj_pair)
  then show False using plan_needs_unsettled [OF r assms(2)] plan_months_rows [OF r] assms(1) by blast
qed

lemma month_amount_remark:
  assumes "remarked a a'"
  shows "month_amount a' = month_amount a" "prorate_days_in_service a' = prorate_days_in_service a"
    "monthly_depreciation a' = monthly_depreciation a"
proof -
  obtain x y where a': "a' = a\<lparr>fa_last_error := x, fa_catchup := y\<rparr>" using assms by (auto simp: remarked_def)
  show m: "monthly_depreciation a' = monthly_depreciation a"
    by (cases "fa_method a"; simp add: a' monthly_depreciation_def depreciable_base_def written_down_value_def Let_def)
  show p: "prorate_days_in_service a' = prorate_days_in_service a"
    by (simp add: a' prorate_days_in_service_def fun_eq_iff)
  have "room a' = room a" by (simp add: a' room_def)
  then show "month_amount a' = month_amount a" using m p by (intro ext) (simp only: month_amount_room)
qed

lemma settled_remark: "remarked a a' \<Longrightarrow> settled es a' cm = settled es a cm"
  using month_amount_remark(1) [of a a'] same_asset_remark [of a a'] same_asset_fields(1) [of a a']
  by (simp add: settled_def already_charged_def)

lemma run_asset_charges:
  assumes "run_asset co today key through a lg = Inr (r, a', lg')"
    and "asset_ok a" "ledger_reachable co lg" "posts_to_ledger co" "fresh_keys key"
  shows "charges co today key (a, lg) (a', lg')" "ar_asset r = fa_id a"
    "(\<Sum>(k, x, st)\<leftarrow>posted_rows (ar_months r). x) = fa_depreciated a' - fa_depreciated a"
    "ar_errors r = [] \<Longrightarrow> ar_months r = map as_posted (plan_asset (lg_entries lg) a through) \<and>
       plan_asset (lg_entries lg') a' through = []"
proof -
  let ?plan = "plan_asset (lg_entries lg) a through" let ?cms = "month_ends (fa_acquired a) through"
  obtain rows errors a1 where go: "run_months co today key ?plan (a, lg) = Inr (rows, errors, a1, lg')"
    and r: "r = \<lparr>ar_asset = fa_id a, ar_months = rows, ar_errors = errors\<rparr>" and rm: "remarked a1 a'"
    using assms(1) by (auto simp: run_asset_def bind_res_Inr_iff Let_def remarked_def)
  note rows = plan_asset_rows [OF assms(2), of "lg_entries lg" through]
  have ends: "distinct ?cms" "\<forall>c\<in>set ?cms. valid_date c"
    using month_ends_ends [of "fa_acquired a" through] assms(2) by (auto simp: asset_ok_def month_end_day_def)
  note run = run_months_charges [OF go assms(2-5) rows]
  have dep: "fa_depreciated a' = fa_depreciated a1" using same_asset_remark [OF rm] by simp
  have ch: "charges co today key (a, lg) (a1, lg')" using run by simp
  show all: "charges co today key (a, lg) (a', lg')" by (rule charges.remark [OF ch rm])
  show "ar_asset r = fa_id a" "(\<Sum>(k, x, st)\<leftarrow>posted_rows (ar_months r). x) = fa_depreciated a' - fa_depreciated a"
    using run by (simp_all add: r dep)
  show "ar_months r = map as_posted ?plan \<and> plan_asset (lg_entries lg') a' through = []" if "ar_errors r = []"
  proof -
    have go': "run_months co today key (plan_months (lg_entries lg) a ?cms) (a, lg) = Inr (rows, [], a1, lg')"
      using go that by (simp add: r plan_asset_def)
    note post = run_plan_posts [OF go' assms(2-5) ends(2) rows(1) [unfolded plan_asset_def] ends(1)]
    have c1: "charged co (a, lg) (a1, lg')" using charges_charged [OF ch] assms(2-5) by simp
    note f = charged_facts [OF c1]
    have "settled (lg_entries lg') a1 c" if c: "c \<in> set ?cms" for c
    proof -
      have v: "valid_date c" using ends c by auto
      have "settled (lg_entries lg) a1 c \<or> c \<in> fst ` set (plan_months (lg_entries lg) a ?cms)"
        using plan_months_cover [OF assms(2) ends(2), of "lg_entries lg"] post f(1,2) c by (simp add: covers_plan_def)
      then show ?thesis
      proof
        assume "settled (lg_entries lg) a1 c"
        then show ?thesis using c1 by (auto simp: settled_def already_charged_def charged_def)
      next
        assume "c \<in> fst ` set (plan_months (lg_entries lg) a ?cms)"
        then obtain x where "(c, x) \<in> set ?plan" by (auto simp: plan_asset_def)
        then have "settled (lg_entries lg') a1 c \<or> (month_key c, x, Month_Blocked) \<in> set rows" using run by auto
        moreover have "(month_key c, x, Month_Blocked) \<notin> set rows" using post by (auto simp: as_posted_def)
        ultimately show ?thesis by simp
      qed
    qed
    then have s: "\<forall>c\<in>set ?cms. settled (lg_entries lg') a' c \<and> valid_date c" using ends(2) settled_remark [OF rm] by blast
    have "asset_ok a'" "fa_acquired a' = fa_acquired a"
      using charges_charged [OF all] assms(2-5) charged_facts [of co a lg a' lg'] same_asset_fields(4) by auto
    then show ?thesis using settled_plan_empty [OF s] post by (simp add: r plan_asset_def)
  qed
qed

lemma other_asset_plan:
  assumes "list_all (\<lambda>e. \<exists>b. own_entry b e \<and> fa_id b \<noteq> fa_id a) new"
  shows "plan_asset (es @ new) a through = plan_asset es a through"
proof -
  have "already_charged (es @ new) b cm = already_charged es b cm" if "fa_id b = fa_id a" for b cm
    using assms that by (auto simp: already_charged_def own_entry_def list_all_iff list_ex_iff)
  then have "plan_months (es @ new) b cms = plan_months es b cms" if "fa_id b = fa_id a" for b cms
    using that by (induction cms arbitrary: b) (simp_all add: Let_def)
  then show ?thesis by (simp add: plan_asset_def)
qed

lemma charge_effect_zero [simp]: "charge_effect a 0 acc = 0"
  by (simp add: charge_effect_def)

definition growth :: "fixed_asset \<times> fixed_asset \<Rightarrow> rat" where
  "growth = (\<lambda>(a, a'). fa_depreciated a' - fa_depreciated a)"

definition kept_order :: "int list \<Rightarrow> fixed_asset \<Rightarrow> fixed_asset \<Rightarrow> bool" where
  "kept_order chosen a a' = (asset_ok a' \<and> same_asset a a' \<and> fa_depreciated a \<le> fa_depreciated a' \<and>
     (fa_id a \<notin> set chosen \<longrightarrow> a' = a))"

lemma run_assets_all:
  assumes "run_assets co today key through chosen assets lg = (reports, stop, as, lg')"
    and "list_all asset_ok assets" "distinct (map fa_id assets)"
    and "ledger_reachable co lg" "posts_to_ledger co" "fresh_keys key"
  shows "ledger_reachable co lg' \<and> list_all2 (kept_order chosen) assets as \<and>
    (\<forall>acc. balances lg' acc = balances lg acc + (\<Sum>(a, a')\<leftarrow>zip assets as. charge_effect a (growth (a, a')) acc)) \<and>
    (\<Sum>(k, x, st)\<leftarrow>concat (map (\<lambda>r. posted_rows (ar_months r)) reports). x) = (\<Sum>p\<leftarrow>zip assets as. growth p) \<and>
    (\<exists>new. lg_entries lg' = lg_entries lg @ new \<and> list_all (\<lambda>e. \<exists>b\<in>set assets. fa_id b \<in> set chosen \<and> own_entry b e) new) \<and>
    (stop = None \<and> list_all (\<lambda>r. ar_errors r = []) reports \<longrightarrow>
       reports = map (\<lambda>a. \<lparr>ar_asset = fa_id a, ar_months = map as_posted (plan_asset (lg_entries lg) a through), ar_errors = []\<rparr>)
         (filter (\<lambda>a. fa_id a \<in> set chosen) assets) \<and>
       (\<forall>a'\<in>set as. fa_id a' \<in> set chosen \<longrightarrow> plan_asset (lg_entries lg') a' through = []))"
  using assms
proof (induction assets arbitrary: lg reports as)
  case (Cons a rest)
  consider "fa_id a \<notin> set chosen" | e where "fa_id a \<in> set chosen" "run_asset co today key through a lg = Inl e"
    | r a' lg1 where "fa_id a \<in> set chosen" "run_asset co today key through a lg = Inr (r, a', lg1)"
    by (cases "run_asset co today key through a lg") auto
  then show ?case
  proof cases
    case 1
    then obtain as' where go: "run_assets co today key through chosen rest lg = (reports, stop, as', lg')" and as: "as = a # as'"
      using Cons.prems(1) by (auto simp: Let_def split: prod.splits)
    show ?thesis using Cons.IH [OF go] Cons.prems(2-6) 1 by (auto simp: as growth_def kept_order_def)
  next
    case (2 e)
    then have "reports = []" "stop = Some e" "as = a # rest" "lg' = lg" using Cons.prems(1) by auto
    moreover have "zip rest rest = map (\<lambda>x. (x, x)) rest" by (simp add: zip_same_conv_map)
    ultimately show ?thesis using Cons.prems(2,4)
      by (simp add: kept_order_def growth_def list_all2_same list_all_iff comp_def)
  next
    case (3 r a' lg1)
    note True = 3(1) and one = 3(2)
    obtain reports' as' where go: "run_assets co today key through chosen rest lg1 = (reports', stop, as', lg')"
      and out: "reports = r # reports'" "as = a' # as'"
      using Cons.prems(1) 3 by (auto simp: Let_def split: prod.splits)
    have ok: "asset_ok a" using Cons.prems(2) by simp
    note ra = run_asset_charges [OF one ok Cons.prems(4-6)]
    have ch: "charged co (a, lg) (a', lg1)" using charges_charged [OF ra(1)] ok Cons.prems(4-6) by simp
    note f = charged_facts [OF ch]
    note id = same_asset_fields(1) [OF f(2)]
    have bal: "balances lg1 acc = balances lg acc + charge_effect a (growth (a, a')) acc" for acc
      using ch by (simp add: charged_def growth_def)
    obtain new1 where new1: "lg_entries lg1 = lg_entries lg @ new1" "list_all (own_entry a) new1" using ch by (auto simp: charged_def)
    note ih = Cons.IH [OF go _ _ f(4) Cons.prems(5,6)]
    then obtain new2 where new2: "lg_entries lg' = lg_entries lg1 @ new2" "list_all (\<lambda>e. \<exists>b\<in>set rest. fa_id b \<in> set chosen \<and> own_entry b e) new2"
      using Cons.prems(2,3) by auto
    have later: "plan_asset (lg_entries lg1) b through = plan_asset (lg_entries lg) b through" if "b \<in> set rest" for b
      unfolding new1(1) using that new1(2) Cons.prems(3) by (intro other_asset_plan) (auto simp: list_all_iff)
    have "plan_asset (lg_entries lg') a' through = plan_asset (lg_entries lg1) a' through"
      unfolding new2(1)
    proof (rule other_asset_plan)
      have "\<forall>b\<in>set rest. fa_id b \<noteq> fa_id a'" using Cons.prems(3) unfolding id by (auto simp: image_iff)
      then show "list_all (\<lambda>e. \<exists>b. own_entry b e \<and> fa_id b \<noteq> fa_id a') new2"
        using new2(2) unfolding list_all_iff by blast
    qed
    then have done_a: "ar_errors r = [] \<Longrightarrow> plan_asset (lg_entries lg') a' through = []" using ra(4) by simp
    have entries: "\<exists>new. lg_entries lg' = lg_entries lg @ new \<and> list_all (\<lambda>e. \<exists>b\<in>set (a # rest). fa_id b \<in> set chosen \<and> own_entry b e) new"
      using new1 new2 True by (intro exI [of _ "new1 @ new2"]) (auto simp: list_all_iff)
    have r: "ar_errors r = [] \<Longrightarrow> r = \<lparr>ar_asset = fa_id a, ar_months = map as_posted (plan_asset (lg_entries lg) a through), ar_errors = []\<rparr>"
      using ra(2,4) by (cases r) simp
    have reports: "stop = None \<Longrightarrow> list_all (\<lambda>r. ar_errors r = []) reports \<Longrightarrow>
      reports = map (\<lambda>a. \<lparr>ar_asset = fa_id a, ar_months = map as_posted (plan_asset (lg_entries lg) a through), ar_errors = []\<rparr>)
         (filter (\<lambda>a. fa_id a \<in> set chosen) (a # rest)) \<and>
       (\<forall>a'\<in>set as. fa_id a' \<in> set chosen \<longrightarrow> plan_asset (lg_entries lg') a' through = [])"
      using ih Cons.prems(2,3) r done_a later True by (auto simp: out)
    show ?thesis
      using ih Cons.prems(2,3) ra(3) bal f entries reports True by (auto simp: out kept_order_def growth_def)
  qed
qed simp

lemma chosen_assets:
  assumes "distinct (map fa_id assets)"
  shows "filter (\<lambda>a. fa_id a \<in> set (map (\<lambda>(a, rows). fa_id a) (plan_company es assets through))) assets
    = map fst (plan_company es assets through)"
proof -
  have "fa_id a \<in> set (map (\<lambda>(a, rows). fa_id a) (plan_company es assets through)) \<longleftrightarrow>
      fa_status a = Asset_Active \<and> plan_asset es a through \<noteq> []" if "a \<in> set assets" for a
    using assms that by (auto simp: plan_company_def distinct_map inj_on_def image_iff)
  then have "filter (\<lambda>a. fa_id a \<in> set (map (\<lambda>(a, rows). fa_id a) (plan_company es assets through))) assets
      = filter (\<lambda>a. fa_status a = Asset_Active \<and> plan_asset es a through \<noteq> []) assets"
    by (intro filter_cong) auto
  also have "\<dots> = map fst (plan_company es assets through)"
    unfolding plan_company_def by (induction assets) auto
  finally show ?thesis .
qed

lemma plan_company_rows:
  "(a, rows) \<in> set (plan_company es assets through) \<Longrightarrow> rows = plan_asset es a through"
  by (auto simp: plan_company_def)

lemma run_company_elim:
  assumes "run_company co today key assets lg through False = (x, as, lg')"
  obtains (late) "x = Inl (Business_Rule ''Depreciation can be run only for months that have ended.'')" "as = assets" "lg' = lg"
  | (ran) reports stop where "\<not> last_completed_month_end today < through"
      "run_assets co today key through (map (\<lambda>(a, rows). fa_id a) (plan_company (lg_entries lg) assets through)) assets lg
         = (reports, stop, as, lg')"
      "x = (case stop of None \<Rightarrow> Inr (run_summary reports) | Some e \<Rightarrow> Inl e)"
  using assms by (auto simp: run_company_def Let_def split: if_splits prod.splits)

text \<open>
  C15. The register of fixed assets and the ledger move together: a depreciation run, also one that an error ends
  half-way, adds to every asset what it posts for it, debiting the expense account and crediting the accumulated
  depreciation of that asset, in paise; nothing else of the asset changes, no asset is written off below its salvage
  value, and the total a finished run reports is what it added.
\<close>

theorem depreciation_run_books:
  assumes "ledger_reachable co lg" and "posts_to_ledger co" and "fresh_keys key"
    and "list_all asset_ok assets" and "distinct (map fa_id assets)"
    and "run_company co today key assets lg through False = (x, as, lg')"
  shows "ledger_reachable co lg' \<and>
    list_all2 (\<lambda>a a'. asset_ok a' \<and> same_asset a a' \<and> fa_depreciated a \<le> fa_depreciated a') assets as \<and>
    (\<forall>acc. balances lg' acc = balances lg acc +
      (\<Sum>(a, a')\<leftarrow>zip assets as. charge_effect a (fa_depreciated a' - fa_depreciated a) acc)) \<and>
    (\<forall>r. x = Inr r \<longrightarrow> rr_total r = (\<Sum>(a, a')\<leftarrow>zip assets as. fa_depreciated a' - fa_depreciated a))"
proof (rule run_company_elim [OF assms(6)], goal_cases)
  case 1
  then show ?case using assms(1,4)
    by (simp add: list_all2_same list_all_iff zip_same_conv_map comp_def)
next
  case (2 reports stop)
  note run = run_assets_all [OF 2(2) assms(4,5,1,2,3)]
  have "list_all2 (\<lambda>a a'. asset_ok a' \<and> same_asset a a' \<and> fa_depreciated a \<le> fa_depreciated a') assets as"
    using run by (auto elim!: list_all2_mono simp: kept_order_def)
  then show ?case using run
    by (auto simp: 2(3) run_summary_def Let_def growth_def cong: map_cong split: option.splits)
qed

text \<open>What a preview row becomes when it is posted.\<close>

definition now_posted :: "asset_report \<Rightarrow> asset_report" where
  "now_posted p = p\<lparr>ar_months := map (\<lambda>(k, x, st). (k, x, Month_Posted)) (ar_months p)\<rparr>"

text \<open>
  C23. The preview tells the truth: a run that reports no errors posts exactly the months and amounts the preview
  shows for the same books, and afterwards nothing is left to charge up to that month, so running again does
  nothing.
\<close>

theorem preview_is_posted:
  assumes "ledger_reachable co lg" and "posts_to_ledger co" and "fresh_keys key"
    and "list_all asset_ok assets" and "distinct (map fa_id assets)"
    and "run_company co today key assets lg through False = (Inr r, as, lg')"
    and "list_all (\<lambda>x. ar_errors x = []) (rr_assets r)"
  shows "(\<exists>p. run_company co today key assets lg through True = (Inr p, assets, lg) \<and>
      rr_assets r = map now_posted (rr_assets p)) \<and>
    plan_company (lg_entries lg') as through = []"
proof
  let ?plan = "plan_company (lg_entries lg) assets through"
  let ?chosen = "map (\<lambda>(a, rows). fa_id a) ?plan"
  obtain reports where go: "run_assets co today key through ?chosen assets lg = (reports, None, as, lg')"
    and r: "r = run_summary reports" and late: "\<not> last_completed_month_end today < through"
    by (rule run_company_elim [OF assms(6)]) (auto split: option.splits)
  note run = run_assets_all [OF go assms(4,5,1,2,3)]
  have none: "list_all (\<lambda>r. ar_errors r = []) reports" using assms(7) by (simp add: r run_summary_def Let_def)
  have reports: "reports = map (\<lambda>a. \<lparr>ar_asset = fa_id a, ar_months = map as_posted (plan_asset (lg_entries lg) a through),
      ar_errors = []\<rparr>) (map fst ?plan)"
    using run none unfolding chosen_assets [OF assms(5)] by blast
  have "rr_assets r = map now_posted (map preview_report ?plan)"
    unfolding r run_summary_def Let_def reports
    by (auto simp: now_posted_def preview_report_def as_posted_def dest: plan_company_rows)
  then show "\<exists>p. run_company co today key assets lg through True = (Inr p, assets, lg) \<and>
      rr_assets r = map now_posted (rr_assets p)"
    using late by (auto simp: run_company_def Let_def run_summary_def)
  have "plan_asset (lg_entries lg') a' through = []" if k: "a' \<in> set as" "fa_status a' = Asset_Active" for a'
  proof (cases "fa_id a' \<in> set ?chosen")
    case True
    then show ?thesis using run none k(1) by blast
  next
    case False
    have "list_all2 (kept_order ?chosen) assets as" using run by simp
    then obtain a where a: "a \<in> set assets" "kept_order ?chosen a a'"
      using k(1) unfolding list_all2_conv_all_nth in_set_conv_nth by metis
    then have a': "a' = a" using False same_asset_fields(1) by (auto simp: kept_order_def)
    have "plan_asset (lg_entries lg) a through = []"
      using False a(1) k(2) unfolding a' by (auto simp: plan_company_def image_iff)
    moreover obtain new where "lg_entries lg' = lg_entries lg @ new"
      "list_all (\<lambda>e. \<exists>b\<in>set assets. fa_id b \<in> set ?chosen \<and> own_entry b e) new" using run by blast
    ultimately show ?thesis
      using other_asset_plan [of a new "lg_entries lg" through] False unfolding a' list_all_iff by metis
  qed
  then show "plan_company (lg_entries lg') as through = []" by (auto simp: plan_company_def filter_empty_conv)
qed

section \<open>The nightly task charges what the screen charges\<close>

text \<open>The reference: the screen's \<open>post_month\<close> for each month of the window that is due.\<close>

fun catch_up ::
  "gl_company \<Rightarrow> date \<Rightarrow> (ledger \<Rightarrow> int) \<Rightarrow> date \<Rightarrow> date list \<Rightarrow> fixed_asset \<times> ledger \<Rightarrow> (nat \<times> fixed_asset \<times> ledger) res" where
  "catch_up co today key charge_date [] s = Inr (0, s)"
| "catch_up co today key charge_date (cm # cms) s =
    (if charge_date < cm \<or> cm < month_end_of (fa_acquired (fst s)) \<or> already_charged (lg_entries (snd s)) (fst s) cm
     then catch_up co today key charge_date cms s
     else case post_month co today key cm s of
       Inl (Business_Rule m) \<Rightarrow> catch_up co today key charge_date cms s
     | Inl e \<Rightarrow> Inl e
     | Inr (x, s1) \<Rightarrow> bind_res (catch_up co today key charge_date cms s1)
         (\<lambda>(n, s'). Inr (if 0 < x then Suc n else n, s')))"

lemma remarked_simps [simp]: "remarked a a" "remarked a (a\<lparr>fa_last_error := e\<rparr>)"
  by (simp_all add: remarked_def)

lemma remarked_trans: "remarked a b \<Longrightarrow> remarked b c \<Longrightarrow> remarked a c"
  by (cases a; cases b; cases c) (simp add: remarked_def)

lemma remarked_dep: "remarked a b \<Longrightarrow> remarked (a\<lparr>fa_depreciated := x\<rparr>) (b\<lparr>fa_depreciated := x, fa_last_error := e\<rparr>)"
  by (cases a; cases b) (simp add: remarked_def)

lemma catch_up_nothing:
  assumes "\<forall>cm. month_amount a cm \<le> 0"
  shows "catch_up co today key charge_date cms (a, lg) = Inr (0, a, lg)"
  using assms by (induction cms) (simp_all add: post_month_def)

definition not_due :: "date \<Rightarrow> ledger \<Rightarrow> fixed_asset \<Rightarrow> date \<Rightarrow> bool" where
  "not_due charge_date lg a cm =
    (charge_date < cm \<or> cm < month_end_of (fa_acquired a) \<or> already_charged (lg_entries lg) a cm)"

lemma nightly_step:
  "nightly_months co today key charge_date (cm # cms) skipped count a lg =
    (if not_due charge_date lg a cm then nightly_months co today key charge_date cms skipped count a lg
     else if room a \<le> 0 \<or> min (monthly_depreciation a) (room a) \<le> 0 then (count, Inr (a, lg))
     else if month_amount a cm \<le> 0 then nightly_months co today key charge_date cms skipped count a lg
     else case post co today (key lg) lg (dep_source a cm) cm (charge_lines a (month_amount a cm)) False False of
       Inl (Business_Rule m) \<Rightarrow> nightly_months co today key charge_date cms (skipped @ [month_key cm @ '': '' @ m]) count
         (a\<lparr>fa_last_error := take 500 (join_with ''; '' (skipped @ [month_key cm @ '': '' @ m]))\<rparr>) lg
     | Inl e \<Rightarrow> (count, Inl e)
     | Inr (None, lg') \<Rightarrow> nightly_months co today key charge_date cms skipped count a lg'
     | Inr (Some _, lg') \<Rightarrow> nightly_months co today key charge_date cms skipped (Suc count)
         (a\<lparr>fa_depreciated := fa_depreciated a + month_amount a cm,
            fa_last_error := (if skipped = [] then [] else take 500 (join_with ''; '' skipped))\<rparr>) lg')"
proof -
  have r: "fa_cost a - fa_depreciated a - fa_salvage a = room a" by (simp add: room_def)
  let ?m = "min (monthly_depreciation a) (room a)" let ?p = "prorate_days_in_service a cm ?m"
  consider "not_due charge_date lg a cm" | "\<not> not_due charge_date lg a cm" "room a \<le> 0 \<or> ?m \<le> 0"
    | "\<not> not_due charge_date lg a cm" "\<not> (room a \<le> 0 \<or> ?m \<le> 0)" by blast
  then show ?thesis
  proof cases
    case 3
    have "month_amount a cm = (if ?p \<le> 0 then 0 else if room a - ?p \<le> 1 then room a else ?p)"
      using 3(2) unfolding month_amount_room Let_def by (simp only: if_False de_Morgan_disj)
    then show ?thesis using 3 unfolding nightly_months.simps r Let_def not_due_def by (cases "?p \<le> 0") (simp_all only: if_False if_True, auto)
  qed (simp_all only: nightly_months.simps r Let_def not_due_def if_True if_False)
qed

lemma catch_up_step:
  "catch_up co today key charge_date (cm # cms) (a, lg) =
    (if not_due charge_date lg a cm \<or> month_amount a cm \<le> 0 then catch_up co today key charge_date cms (a, lg)
     else case post co today (key lg) lg (dep_source a cm) cm (charge_lines a (month_amount a cm)) False False of
       Inl (Business_Rule m) \<Rightarrow> catch_up co today key charge_date cms (a, lg)
     | Inl e \<Rightarrow> Inl e
     | Inr (None, lg') \<Rightarrow> catch_up co today key charge_date cms (a, lg')
     | Inr (Some _, lg') \<Rightarrow> bind_res
         (catch_up co today key charge_date cms (a\<lparr>fa_depreciated := fa_depreciated a + month_amount a cm\<rparr>, lg'))
         (\<lambda>(n, s'). Inr (Suc n, s')))"
proof -
  have id: "bind_res m Inr = m" for m :: "(nat \<times> fixed_asset \<times> ledger) res" by (cases m) auto
  show ?thesis
    by (auto simp: not_due_def post_month_def Let_def id bind_res_def [of "post _ _ _ _ _ _ _ _ _"] simp del: split_paired_All
        split: sum.split option.split err.split)
qed

lemma nightly_is_catch_up:
  assumes "remarked b a"
  shows "case nightly_months co today key charge_date cms skipped count a lg of
      (n, Inl e) \<Rightarrow> catch_up co today key charge_date cms (b, lg) = Inl e
    | (n, Inr (a', lg')) \<Rightarrow> \<exists>b' k. remarked b' a' \<and> n = count + k \<and> catch_up co today key charge_date cms (b, lg) = Inr (k, b', lg')"
  using assms
proof (induction cms arbitrary: skipped count a b lg)
  case (Cons cm cms)
  note same = same_asset_fields [OF conjunct1 [OF same_asset_remark [OF Cons.prems]]]
  have dep: "fa_depreciated a = fa_depreciated b" using same_asset_remark [OF Cons.prems] by simp
  have src: "dep_source a cm = dep_source b cm" "charge_lines a x = charge_lines b x" "room a = room b" for x
    using same dep by (simp_all add: dep_source_def charge_lines_def room_def)
  have due: "not_due charge_date lg a cm = not_due charge_date lg b cm" using same by (simp add: not_due_def already_charged_def)
  note am = month_amount_remark [OF Cons.prems]
  note steps = nightly_step [of co today key charge_date cm cms skipped count a lg, unfolded due am src]
    catch_up_step [of co today key charge_date cm cms b lg]
  consider "not_due charge_date lg b cm"
    | "\<not> not_due charge_date lg b cm" "room b \<le> 0 \<or> min (monthly_depreciation b) (room b) \<le> 0"
    | "\<not> not_due charge_date lg b cm" "\<not> (room b \<le> 0 \<or> min (monthly_depreciation b) (room b) \<le> 0)" "month_amount b cm \<le> 0"
    | "\<not> not_due charge_date lg b cm" "\<not> (room b \<le> 0 \<or> min (monthly_depreciation b) (room b) \<le> 0)" "\<not> month_amount b cm \<le> 0" by blast
  then show ?case
  proof cases
    case 1
    then show ?thesis using Cons.IH [OF Cons.prems, where skipped = skipped and count = count and lg = lg] unfolding steps by simp
  next
    case 2
    then have "\<forall>cm. month_amount b cm \<le> 0" by (auto simp: month_amount_room Let_def)
    then have "catch_up co today key charge_date (cm # cms) (b, lg) = Inr (0, b, lg)" by (rule catch_up_nothing)
    then show ?thesis using 2 Cons.prems unfolding steps(1) by (simp only: if_False if_True) auto
  next
    case 3
    show ?thesis unfolding steps if_not_P [OF 3(1)] if_not_P [OF 3(2)] if_P [OF 3(3)] if_P [OF disjI2 [OF 3(3)]]
      by (rule Cons.IH [OF Cons.prems])
  next
    case 4
    note steps = steps [unfolded if_not_P [OF 4(1)] if_not_P [OF 4(2)] if_not_P [OF 4(3)]]
    have 5: "\<not> (not_due charge_date lg b cm \<or> month_amount b cm \<le> 0)" using 4 by simp
    let ?post = "post co today (key lg) lg (dep_source b cm) cm (charge_lines b (month_amount b cm)) False False"
    show ?thesis
    proof (cases ?post)
      case (Inl e)
      have "remarked b (a\<lparr>fa_last_error := x\<rparr>)" for x using remarked_trans [OF Cons.prems remarked_simps(2)] .
      then have "?thesis" if "e = Business_Rule m" for m
        unfolding steps if_not_P [OF 5] Inl that sum.case err.case by (rule Cons.IH)
      then show ?thesis by (cases e) (auto simp only: steps if_not_P [OF 5] Inl sum.case err.case prod.case)
    next
      case (Inr s)
      obtain r lg' where s: "s = (r, lg')" by (cases s)
      show ?thesis
      proof (cases r)
        case None
        show ?thesis unfolding steps if_not_P [OF 5] Inr s None sum.case prod.case option.case by (rule Cons.IH [OF Cons.prems])
      next
        case (Some e)
        let ?a = "a\<lparr>fa_depreciated := fa_depreciated b + month_amount b cm,
            fa_last_error := (if skipped = [] then [] else take 500 (join_with ''; '' skipped))\<rparr>"
        let ?b = "b\<lparr>fa_depreciated := fa_depreciated b + month_amount b cm\<rparr>"
        obtain n res where night: "nightly_months co today key charge_date cms skipped (Suc count) ?a lg' = (n, res)" by fastforce
        note ih = Cons.IH [OF remarked_dep [OF Cons.prems, of "fa_depreciated b + month_amount b cm"
            "if skipped = [] then [] else take 500 (join_with ''; '' skipped)"],
            where skipped = skipped and count = "Suc count" and lg = lg', unfolded night prod.case]
        show ?thesis unfolding steps if_not_P [OF 5] Inr s Some sum.case prod.case option.case dep night
          using ih by (cases res) auto
      qed
    qed
  qed
qed simp

text \<open>
  The nightly task charges what the screen charges: its own copy of the monthly charge, with its early exits,
  posts for each month of the window exactly what \<open>post_month\<close> posts, skips the months that are closed, and
  leaves the same asset (up to the remarks on it), the same books and the same count.
\<close>

theorem nightly_charges_like_screen:
  "case nightly_months co today key charge_date cms [] 0 a lg of
      (n, Inl e) \<Rightarrow> catch_up co today key charge_date cms (a, lg) = Inl e
    | (n, Inr (a', lg')) \<Rightarrow> \<exists>b. remarked b a' \<and> catch_up co today key charge_date cms (a, lg) = Inr (n, b, lg')"
proof -
  have "remarked a a" by simp
  from nightly_is_catch_up [OF this, where skipped = "[]" and count = 0 and lg = lg and cms = cms and co = co and today = today
      and key = key and charge_date = charge_date] show ?thesis
    by (auto split: prod.splits sum.splits)
qed

section \<open>A disposal clears the asset\<close>

lemma seed_only_chart [simp]: "lg_entries (lg\<lparr>lg_chart := c\<rparr>) = lg_entries lg"
  by simp

lemma balances_chart [simp]: "balances (lg\<lparr>lg_chart := c\<rparr>) = balances lg"
  by (simp add: balances_def fun_eq_iff)

lemma chart_reachable: "ledger_reachable co lg \<Longrightarrow> ledger_reachable co (lg\<lparr>lg_chart := c\<rparr>)"
  by (rule ledger_reachable.step [OF _ ledger_step.administration]) simp_all

lemma proceeds_account_chart:
  "proceeds_account co banks lg rq d = Inr (cash, lg') \<Longrightarrow> \<exists>c. lg' = lg\<lparr>lg_chart := c\<rparr>"
proof -
  have "lg = lg\<lparr>lg_chart := lg_chart lg\<rparr>" by simp
  moreover assume "proceeds_account co banks lg rq d = Inr (cash, lg')"
  ultimately show ?thesis
    by (auto simp: proceeds_account_def Let_def guard_res_Inr_iff bind_res_Inr_iff split: option.splits
        intro: exI [of _ "lg_chart lg'"])
qed

text \<open>The asset as far as its amounts are concerned, sold or not.\<close>

lemma asset_ok_sold [simp]: "asset_ok (a\<lparr>fa_disposed_at := d\<rparr>) = asset_ok a" "asset_ok (a\<lparr>fa_status := s, fa_disposed_at := d\<rparr>) = asset_ok a"
  "asset_ok (a\<lparr>fa_status := s\<rparr>) = asset_ok a"
  by (simp_all add: asset_ok_def)

lemma disposal_month_effect:
  assumes "post_disposal_month co today key d (a, lg) = Inr (x, a', lg')" and "asset_ok a" "valid_date d" "1 \<le> d_year d"
    and "ledger_reachable co lg" "posts_to_ledger co" "fresh_keys key"
  shows "asset_ok a'" "a' = a\<lparr>fa_depreciated := fa_depreciated a'\<rparr>" "fa_depreciated a \<le> fa_depreciated a'" "ledger_reachable co lg'"
    "balances lg' acc = balances lg acc + charge_effect a (fa_depreciated a' - fa_depreciated a) acc"
    "\<exists>new. lg_entries lg' = lg_entries lg @ new \<and> (\<forall>e\<in>set new. snd (snd (je_source e)) \<noteq> ''DISPOSAL'')"
proof -
  let ?cm = "month_end_of d" let ?sold = "a\<lparr>fa_disposed_at := Some d\<rparr>"
  have cm: "valid_date ?cm" by (simp add: month_end_of_eq assms(3) month_end_valid)
  have src: "dep_source ?sold ?cm = dep_source a ?cm" by (simp add: dep_source_def)
  have "asset_ok a' \<and> a' = a\<lparr>fa_depreciated := fa_depreciated a'\<rparr> \<and> fa_depreciated a \<le> fa_depreciated a' \<and> ledger_reachable co lg' \<and>
    (\<forall>acc. balances lg' acc = balances lg acc + charge_effect a (fa_depreciated a' - fa_depreciated a) acc) \<and>
    (\<exists>new. lg_entries lg' = lg_entries lg @ new \<and> (\<forall>e\<in>set new. snd (snd (je_source e)) \<noteq> ''DISPOSAL''))"
  proof (cases "already_charged (lg_entries lg) ?sold ?cm")
    case True
    then show ?thesis using assms(1,2,5) by (auto simp: post_disposal_month_def Let_def)
  next
    case False
    then obtain a1 where pm: "post_month co today key ?cm (?sold, lg) = Inr (x, a1, lg')"
      and a': "a' = a1\<lparr>fa_disposed_at := fa_disposed_at a\<rparr>"
      using assms(1) by (auto simp: post_disposal_month_def Let_def bind_res_Inr_iff)
    have new_src: "dep_source ?sold ?cm \<notin> set (posted_sources (lg_entries lg))"
      using False posted_is_charged by blast
    have ok: "asset_ok ?sold" using assms(2) by simp
    note one = post_month_charges [OF pm ok cm assms(5,6) new_src]
    have ch: "charged co (?sold, lg) (a1, lg')" using charges_charged [OF one(1)] ok assms(5-7) by simp
    note f = charged_facts [OF ch]
    have a1: "a1 = ?sold\<lparr>fa_depreciated := fa_depreciated a1\<rparr>"
      using pm by (auto simp: post_month_def Let_def bind_res_Inr_iff split: if_splits)
    have fields: "fa_depreciated a' = fa_depreciated a1" "asset_ok a'" using f(1) by (simp_all add: a')
    have "a' = a\<lparr>fa_depreciated := fa_depreciated a'\<rparr>" using a1 unfolding a' by (cases a; cases a1) simp
    moreover have "charge_effect ?sold = charge_effect a" by (simp add: charge_effect_def fun_eq_iff)
    moreover have "\<exists>new. lg_entries lg' = lg_entries lg @ new \<and> (\<forall>e\<in>set new. snd (snd (je_source e)) \<noteq> ''DISPOSAL'')"
    proof (cases "month_amount ?sold ?cm \<le> 0")
      case True
      then show ?thesis using pm by (simp add: post_month_def)
    next
      case nz: False
      then obtain r where p: "post co today (key lg) lg (dep_source ?sold ?cm) ?cm (charge_lines ?sold (month_amount ?sold ?cm)) False False = Inr (r, lg')"
        using pm by (auto simp: post_month_def Let_def bind_res_Inr_iff split: if_splits)
      show ?thesis
        by (rule post_elim [OF p books_ok_reachable [OF assms(5,6)]])
          (use new_src in \<open>auto simp: dep_source_def dep_purpose_def\<close>)
    qed
    ultimately show ?thesis using ch f(3,4) fields by (auto simp: charged_def)
  qed
  then show "asset_ok a'" "a' = a\<lparr>fa_depreciated := fa_depreciated a'\<rparr>" "fa_depreciated a \<le> fa_depreciated a'" "ledger_reachable co lg'"
    "balances lg' acc = balances lg acc + charge_effect a (fa_depreciated a' - fa_depreciated a) acc"
    "\<exists>new. lg_entries lg' = lg_entries lg @ new \<and> (\<forall>e\<in>set new. snd (snd (je_source e)) \<noteq> ''DISPOSAL'')"
    by auto
qed

definition disposal_fits :: "fixed_asset \<times> string \<times> rat \<Rightarrow> bool" where
  "disposal_fits = (\<lambda>(a, cash, p). asset_ok a \<and> q2 p = p \<and> 0 \<le> p)"

interpretation disposal: voucher_builder disposal_lines disposal_fits
proof
  fix x assume "disposal_fits x"
  then obtain a cash p where x: "x = (a, cash, p)" "asset_ok a" "q2 p = p" "0 \<le> p" by (cases x) (auto simp: disposal_fits_def)
  have amounts: "0 \<le> fa_depreciated a" "fa_depreciated a \<le> fa_cost a" "0 \<le> fa_cost a"
    "q2 (fa_depreciated a) = fa_depreciated a" "q2 (fa_cost a) = fa_cost a"
    using x(2) by (auto simp: asset_ok_def)
  then have loss: "q2 (fa_cost a - fa_depreciated a - p) = fa_cost a - fa_depreciated a - p" using x(3) by (simp add: paisa_fixed)
  show "excess (disposal_lines x) = 0" using amounts x(4) by (auto simp: x(1) disposal_lines_def Let_def voucher_simps)
  show "list_all line_fits (disposal_lines x)"
    using amounts x(3,4) loss paisa.fixed_minus [OF loss] by (auto simp: x(1) disposal_lines_def Let_def voucher_simps abs_if)
qed

lemma fits_normal_all: "list_all line_fits ls \<Longrightarrow> map normalize_line ls = ls"
  by (induction ls) (simp_all add: fits_normal)

definition only_at :: "string \<Rightarrow> rat \<Rightarrow> string \<Rightarrow> rat" where
  "only_at a x acc = (if acc = a then x else 0)"

lemma disposal_net:
  assumes "asset_ok a" "0 \<le> p"
  shows "net (disposal_lines (a, cash, p)) acc = only_at (fa_accumulated_account a) (fa_depreciated a) acc + only_at cash p acc +
    only_at ''5600'' (max 0 (fa_cost a - fa_depreciated a - p)) acc - only_at ''5700'' (max 0 (p - (fa_cost a - fa_depreciated a))) acc -
    only_at (fa_asset_account a) (fa_cost a) acc"
proof -
  have one: "net [dr c x None] acc = only_at c x acc" "net [cr c x None] acc = - only_at c x acc" for c x
    by (simp_all add: net_def on_side_def only_at_def)
  have none: "net [] acc = 0" "only_at c 0 acc = 0" for c by (simp_all add: net_def only_at_def)
  let ?loss = "fa_cost a - fa_depreciated a - p"
  have dep: "(if 0 < fa_depreciated a then only_at (fa_accumulated_account a) (fa_depreciated a) acc else 0)
      = only_at (fa_accumulated_account a) (fa_depreciated a) acc"
    using assms(1) none(2) by (auto simp: asset_ok_def not_less)
  have cash: "(if 0 < p then only_at cash p acc else 0) = only_at cash p acc"
    using assms(2) none(2) by (auto simp: not_less)
  have loss: "(if 0 < ?loss then only_at ''5600'' ?loss acc else if ?loss < 0 then - only_at ''5700'' \<bar>?loss\<bar> acc else 0)
      = only_at ''5600'' (max 0 ?loss) acc - only_at ''5700'' (max 0 (p - (fa_cost a - fa_depreciated a))) acc"
  proof (cases "0 < ?loss")
    case False
    have "\<bar>?loss\<bar> = p - (fa_cost a - fa_depreciated a)" "max 0 (p - (fa_cost a - fa_depreciated a)) = p - (fa_cost a - fa_depreciated a)"
      "max 0 ?loss = 0" using False by linarith+
    moreover have "?loss < 0 \<or> p - (fa_cost a - fa_depreciated a) = 0" using False by linarith
    ultimately show ?thesis using False none(2) by auto
  next
    case True
    then have "max 0 (p - (fa_cost a - fa_depreciated a)) = 0" "max 0 ?loss = ?loss" by linarith+
    then show ?thesis using True none(2) by simp
  qed
  show ?thesis
    unfolding disposal_lines_def Let_def prod.case net_simps(3) if_distrib [of "\<lambda>ls. net ls acc"] one none(1) dep cash loss
    by simp
qed

text \<open>
  C22. A disposal takes the asset off the books: after the part month is charged (when asked for), the accumulated
  depreciation of the asset is debited in full, its cost is credited to the asset account, the proceeds are debited
  to cash or bank, and the difference between book value and proceeds, no more and no less, is a loss (5600) or a
  gain (5700); the asset is marked disposed on that day.
\<close>

theorem disposal_clears_asset:
  assumes "ledger_reachable co lg" and "posts_to_ledger co" and "fresh_keys key" and "asset_ok a"
    and "(''FIXED_ASSET'', fa_id a, ''DISPOSAL'') \<notin> set (posted_sources (lg_entries lg))"
    and "d = (case dq_date rq of None \<Rightarrow> today | Some d \<Rightarrow> d)" and "valid_date d" and "1 \<le> d_year d"
    and "dispose co today key banks rq a lg = Inr (a', lg')"
  shows "a' = a\<lparr>fa_depreciated := fa_depreciated a', fa_status := Asset_Disposed, fa_disposed_at := Some d\<rparr> \<and>
    asset_ok a' \<and> fa_depreciated a \<le> fa_depreciated a' \<and> ledger_reachable co lg' \<and>
    (\<exists>cash. \<forall>acc. balances lg' acc = balances lg acc + charge_effect a (fa_depreciated a' - fa_depreciated a) acc +
      only_at (fa_accumulated_account a) (fa_depreciated a') acc + only_at cash (quantize_even 2 (dq_proceeds rq)) acc +
      only_at ''5600'' (max 0 (written_down_value a' - quantize_even 2 (dq_proceeds rq))) acc -
      only_at ''5700'' (max 0 (quantize_even 2 (dq_proceeds rq) - written_down_value a')) acc -
      only_at (fa_asset_account a) (fa_cost a) acc)"
proof -
  let ?p = "quantize_even 2 (dq_proceeds rq)"
  obtain x a1 lg1 cash lg3 r where part: "(if dq_part_month rq then post_disposal_month co today key d (a, lg) else Inr (0, a, lg)) = Inr (x, a1, lg1)"
    and cash: "(if 0 < ?p then proceeds_account co banks (lg1\<lparr>lg_chart := seed_chart_of_accounts (lg_chart lg1)\<rparr>) rq d
        else Inr ([], lg1\<lparr>lg_chart := seed_chart_of_accounts (lg_chart lg1)\<rparr>)) = Inr (cash, lg3)"
    and p: "post co today (key lg3) lg3 (''FIXED_ASSET'', fa_id a, ''DISPOSAL'') d (disposal_lines (a1, cash, ?p)) False False = Inr (r, lg')"
    and a': "a' = a1\<lparr>fa_status := Asset_Disposed, fa_disposed_at := Some d\<rparr>" and nonneg: "0 \<le> dq_proceeds rq"
    using assms(9) unfolding dispose_def Let_def assms(6) [symmetric] by (auto simp: guard_res_Inr_iff bind_res_Inr_iff)
  have p0: "0 \<le> ?p" "q2 ?p = ?p" using nonneg by (simp_all add: paisa_even.nonneg)
  have one: "asset_ok a1 \<and> a1 = a\<lparr>fa_depreciated := fa_depreciated a1\<rparr> \<and> fa_depreciated a \<le> fa_depreciated a1 \<and> ledger_reachable co lg1 \<and>
     (\<forall>acc. balances lg1 acc = balances lg acc + charge_effect a (fa_depreciated a1 - fa_depreciated a) acc) \<and>
     (\<exists>new. lg_entries lg1 = lg_entries lg @ new \<and> (\<forall>e\<in>set new. snd (snd (je_source e)) \<noteq> ''DISPOSAL''))"
  proof (cases "dq_part_month rq")
    case True
    then have "post_disposal_month co today key d (a, lg) = Inr (x, a1, lg1)" using part by simp
    from disposal_month_effect [OF this assms(4,7,8,1,2,3)] show ?thesis by blast
  next
    case False
    then show ?thesis using part assms(1,4) by simp
  qed
  obtain c where lg3: "lg3 = lg1\<lparr>lg_chart := c\<rparr>" using cash proceeds_account_chart by (fastforce split: if_splits)
  have r3: "ledger_reachable co lg3" using one chart_reachable unfolding lg3 by blast
  have src: "(''FIXED_ASSET'', fa_id a, ''DISPOSAL'') \<notin> set (posted_sources (lg_entries lg3))"
  proof
    let ?src = "(''FIXED_ASSET'', fa_id a, ''DISPOSAL'')"
    assume "?src \<in> set (posted_sources (lg_entries lg3))"
    then obtain e where e: "e \<in> set (lg_entries lg1)" "je_source e = ?src" "je_status e = POSTED"
      by (auto simp: lg3 posted_sources_def)
    obtain new where new: "lg_entries lg1 = lg_entries lg @ new" "\<forall>e\<in>set new. snd (snd (je_source e)) \<noteq> ''DISPOSAL''"
      using one by blast
    have "e \<notin> set new" using new(2) e(2) by auto
    then have "?src \<in> set (posted_sources (lg_entries lg))" using e new(1) by (force simp: posted_sources_def)
    then show False using assms(5) by simp
  qed
  have fits: "disposal_fits (a1, cash, ?p)" using one p0 by (simp add: disposal_fits_def)
  have "balances lg' = apply_voucher (disposal_lines (a1, cash, ?p)) (balances lg3)"
    using posting_balances [OF r3 assms(2) p] src by (simp add: fits_normal_all [OF disposal.fits [OF fits]])
  then have bal: "balances lg' acc = balances lg1 acc + net (disposal_lines (a1, cash, ?p)) acc" for acc
    by (simp add: apply_voucher_def lg3)
  have r': "ledger_reachable co lg'"
    by (rule ledger_reachable.step [OF r3 ledger_step.posting [OF p]]) (use assms(3) in \<open>simp_all add: fresh_keys_def\<close>)
  have same: "fa_accumulated_account a1 = fa_accumulated_account a" "fa_asset_account a1 = fa_asset_account a" "fa_cost a1 = fa_cost a"
    "fa_depreciated a' = fa_depreciated a1" "fa_cost a' = fa_cost a1"
  proof -
    obtain y where "a1 = a\<lparr>fa_depreciated := y\<rparr>" using one by metis
    then show "fa_accumulated_account a1 = fa_accumulated_account a" "fa_asset_account a1 = fa_asset_account a"
      "fa_cost a1 = fa_cost a" "fa_depreciated a' = fa_depreciated a1" "fa_cost a' = fa_cost a1" by (simp_all add: a')
  qed
  have "a' = a\<lparr>fa_depreciated := fa_depreciated a', fa_status := Asset_Disposed, fa_disposed_at := Some d\<rparr>"
    using one unfolding a' by (cases a; cases a1) simp
  moreover have "asset_ok a'" using one unfolding a' by simp
  moreover have "fa_depreciated a \<le> fa_depreciated a'" using one same(4) by simp
  moreover have "balances lg1 acc = balances lg acc + charge_effect a (fa_depreciated a' - fa_depreciated a) acc" for acc
    using one unfolding same(4) by blast
  ultimately show ?thesis using r' bal disposal_net [OF conjunct1 [OF one] p0(1), of cash]
    by (intro conjI exI [of _ cash] allI) (simp_all add: same written_down_value_def)
qed

section \<open>Witnesses\<close>

definition demo_computer :: fixed_asset where
  "demo_computer = \<lparr>fa_id = 7, fa_asset_account = ''1600'', fa_accumulated_account = ''1650'', fa_expense_account = ''5300'',
     fa_acquired = Date 2025 5 1, fa_cost = 36000, fa_life = 36, fa_depreciated = 0, fa_last_error = [],
     fa_status = Asset_Active, fa_disposed_at = None, fa_method = SLM, fa_salvage = 0, fa_rate = 0, fa_catchup = []\<rparr>"

lemma demo_ok: "asset_ok demo_computer"
  by (simp add: asset_ok_def demo_computer_def q_eval valid_date_def days_in_month_def)

lemma add_days_code [code]: "add_days n d = (if n = 0 then d else add_days (n - 1) (next_day d))"
  by (cases n) (simp_all add: add_days_def funpow_swap1)

lemma new_reachable: "ledger_reachable example_books new_ledger" "posts_to_ledger example_books"
  by (rule ledger_reachable.start) (simp_all add: new_ledger_def example_books_def posts_to_ledger_def)

lemma demo_run:
  "case run_company example_books (Date 2025 7 3) next_key [demo_computer] new_ledger (Date 2025 6 30) False of
     (Inl _, _, _) \<Rightarrow> False
   | (Inr r, as, lg) \<Rightarrow> list_all (\<lambda>x. ar_errors x = []) (rr_assets r) \<and> map fa_depreciated as = [2000] \<and> rr_posted r = 2"
  by code_simp

theorem depreciation_run_books_witness:
  "\<exists>r as lg'. run_company example_books (Date 2025 7 3) next_key [demo_computer] new_ledger (Date 2025 6 30) False
      = (Inr r, as, lg') \<and> rr_total r = 2000 \<and> balances lg' ''1650'' = -2000 \<and> list_all asset_ok as"
proof -
  obtain r as lg' where run: "run_company example_books (Date 2025 7 3) next_key [demo_computer] new_ledger (Date 2025 6 30) False
      = (Inr r, as, lg')" and as: "map fa_depreciated as = [2000]"
    using demo_run by (auto split: prod.splits sum.splits)
  obtain a where a: "as = [a]" "fa_depreciated a = 2000" using as by auto
  have "list_all2 (\<lambda>a a'. asset_ok a' \<and> same_asset a a' \<and> fa_depreciated a \<le> fa_depreciated a') [demo_computer] as \<and>
    (\<forall>acc. balances lg' acc = balances new_ledger acc +
      (\<Sum>(a, a')\<leftarrow>zip [demo_computer] as. charge_effect a (fa_depreciated a' - fa_depreciated a) acc)) \<and>
    (\<forall>x. (Inr r :: run_result res) = Inr x \<longrightarrow>
       rr_total x = (\<Sum>(a, a')\<leftarrow>zip [demo_computer] as. fa_depreciated a' - fa_depreciated a))"
    using depreciation_run_books [OF new_reachable next_key_fresh _ _ run] demo_ok by simp
  then show ?thesis using run a
    by (auto simp: charge_effect_def demo_computer_def balances_def new_ledger_def)
qed

theorem preview_is_posted_witness:
  "\<exists>r as lg'. run_company example_books (Date 2025 7 3) next_key [demo_computer] new_ledger (Date 2025 6 30) False
      = (Inr r, as, lg') \<and> rr_posted r = 2 \<and> plan_company (lg_entries lg') as (Date 2025 6 30) = []"
proof -
  obtain r as lg' where run: "run_company example_books (Date 2025 7 3) next_key [demo_computer] new_ledger (Date 2025 6 30) False
      = (Inr r, as, lg')" and r: "list_all (\<lambda>x. ar_errors x = []) (rr_assets r)" "rr_posted r = 2"
    using demo_run by (auto split: prod.splits sum.splits)
  then show ?thesis
    using preview_is_posted [OF new_reachable next_key_fresh _ _ run r(1)] demo_ok by simp
qed

definition demo_sale :: disposal_request where
  "demo_sale = \<lparr>dq_confirm = True, dq_proceeds = 30000, dq_date = Some (Date 2025 6 30), dq_part_month = True,
     dq_bank = None, dq_cash_code = None\<rparr>"

lemma demo_disposal:
  "case dispose example_books (Date 2025 7 3) next_key [] demo_sale demo_computer new_ledger of
     Inl _ \<Rightarrow> False | Inr (a, lg) \<Rightarrow> fa_depreciated a = 1000 \<and> balances lg ''1600'' = -36000"
  by code_simp

theorem disposal_clears_asset_witness:
  "\<exists>a lg. dispose example_books (Date 2025 7 3) next_key [] demo_sale demo_computer new_ledger = Inr (a, lg) \<and>
    fa_status a = Asset_Disposed \<and> balances lg ''1600'' = -36000 \<and> asset_ok a \<and> ledger_reachable example_books lg"
proof -
  obtain a lg where run: "dispose example_books (Date 2025 7 3) next_key [] demo_sale demo_computer new_ledger = Inr (a, lg)"
    and b: "balances lg ''1600'' = -36000" using demo_disposal by (auto simp: returned)
  have "a = demo_computer\<lparr>fa_depreciated := fa_depreciated a, fa_status := Asset_Disposed, fa_disposed_at := Some (Date 2025 6 30)\<rparr> \<and>
    asset_ok a \<and> ledger_reachable example_books lg"
    using disposal_clears_asset [OF new_reachable next_key_fresh demo_ok _ _ _ _ run, of "Date 2025 6 30"]
    by (simp add: demo_sale_def valid_date_def days_in_month_def new_ledger_def posted_sources_def)
  then obtain y where "a = demo_computer\<lparr>fa_depreciated := y, fa_status := Asset_Disposed, fa_disposed_at := Some (Date 2025 6 30)\<rparr>"
    and ok: "asset_ok a" "ledger_reachable example_books lg" by blast
  then have "fa_status a = Asset_Disposed" by simp
  then show ?thesis using run b ok by blast
qed

text \<open>
  A sale may be dated before months that are already charged: a computer bought on 1 May with two months charged
  is disposed of on 10 May, and the charge of both months stands.
\<close>

definition early_sale :: disposal_request where
  "early_sale = \<lparr>dq_confirm = True, dq_proceeds = 30000, dq_date = Some (Date 2025 5 10), dq_part_month = False,
     dq_bank = None, dq_cash_code = None\<rparr>"

lemma sale_before_charged_months:
  "case dispose example_books (Date 2025 7 3) next_key [] early_sale (demo_computer\<lparr>fa_depreciated := 2000\<rparr>) new_ledger of
     Inl _ \<Rightarrow> False
   | Inr (a, lg) \<Rightarrow> fa_depreciated a = 2000 \<and> balances lg ''5600'' = 4000"
  unfolding demo_computer_def fixed_asset.update_convs by code_simp

end
