(* ===== verification/Money_Documents.thy ===== *)
theory Money_Documents
  imports Receipts Amend_Postings
begin

text \<open>
  Money documents from entry to void (\<open>payments/services.py\<close>): customer receipts, advance refunds,
  supplier payments and their allocations, with the journals each operation posts or reverses and the
  cheque states.  The state is the rows of one company with its ledger; every operation returns the new
  state or the error it raises, which rolls the whole transaction back.  The key of a row is its
  position in its table.  \<open>key\<close> supplies the keys of journal entries, \<open>today\<close> is the local date.
  Audit records, notifications, counters, event subscribers and the dishonour notice (a PDF) are left out,
  and so are the columns no rule here reads: cheque date and image, TDS section, the GST rate of an
  advance, authors and time stamps.  Error messages are shortened where they quote values.
\<close>

section \<open>Rows\<close>

datatype receipt_status = Rc_Posted | Rc_Refunded | Rc_Voided

datatype cheque_status = No_Cheque | Pending_Clearance | Cleared | Bounced

record payer =
  cu_id :: int
  cu_company :: int
  cu_walk_in :: bool

record payee =
  su_id :: int
  su_company :: int
  su_cancelled :: "date option"        \<comment> \<open>\<open>gstin_cancelled_on\<close>\<close>

record bank_account =
  ba_id :: int
  ba_company :: int
  ba_active :: bool
  ba_default :: bool
  ba_cash_box :: bool

record till =
  tl_id :: int
  tl_cashier :: int
  tl_open :: bool

record customer_receipt =
  cr_customer :: payer
  cr_number :: string
  cr_amount :: rat
  cr_discount :: rat
  cr_tds :: rat
  cr_tendered :: rat
  cr_change :: rat
  cr_mode :: string
  cr_date :: date
  cr_reference :: string
  cr_utr :: string
  cr_notes :: string
  cr_status :: receipt_status
  cr_till :: "int option"
  cr_bank :: "bank_account option"
  cr_gateway_source :: bool
  cr_gateway :: "rat option"           \<comment> \<open>the fee of the linked gateway payment\<close>
  cr_cheque_number :: string
  cr_cheque_bank :: string
  cr_cheque :: cheque_status
  cr_fee :: rat                        \<comment> \<open>\<open>dishonour_fee\<close>\<close>
  cr_certificate :: "(date \<times> string) option"
  cr_on_clear :: bool
  cr_wanted_bill :: "int option"
  cr_wanted_amount :: "rat option"
  cr_void_reason :: string

record advance_refund =
  ar_receipt :: nat
  ar_number :: string
  ar_amount :: rat
  ar_mode :: string
  ar_date :: date
  ar_bank :: "bank_account option"
  ar_utr :: string
  ar_reason :: string
  ar_posted :: bool
  ar_till :: "int option"
  ar_from_till :: bool
  ar_void_reason :: string

record paid_out =
  so_supplier :: payee
  so_number :: string
  so_amount :: rat
  so_tds :: rat
  so_tds_rate :: rat
  so_mode :: string
  so_date :: date
  so_reference :: string
  so_utr :: string
  so_notes :: string
  so_posted :: bool
  so_bank :: "bank_account option"
  so_cheque :: cheque_status

record bank_match =
  bm_line :: int
  bm_receipt :: nat
  bm_review :: bool

text \<open>
  \<open>ms_money\<close> holds the allocations and the notes on invoices; its column of refunds is read from
  \<open>ms_refunds\<close> (\<open>money_tables\<close>).
\<close>

record money_state =
  ms_receipts :: "customer_receipt list"
  ms_refunds :: "advance_refund list"
  ms_payments :: "paid_out list"
  ms_money :: money_db
  ms_matches :: "bank_match list"      \<comment> \<open>\<open>recon_matches\<close> of receipts\<close>
  ms_feeds :: "nat list"               \<comment> \<open>receipts with \<open>aa_transactions\<close>\<close>
  ms_tills :: "till list"
  ms_banks :: "bank_account list"
  ms_ledger :: ledger

text \<open>A charge as it is given: missing, blank text, a number, or text that is none.\<close>

datatype raw_charge = Missing | Blank | Charge rat | Not_A_Number

record money_company =
  mc_id :: int
  mc_books :: gl_company
  mc_hold_cheques :: bool              \<comment> \<open>\<open>cheque_allocation_on_clearance\<close>\<close>
  mc_269st :: string                   \<comment> \<open>\<open>cash_269st_mode\<close>\<close>
  mc_need_reference :: bool            \<comment> \<open>\<open>require_payment_reference\<close>\<close>
  mc_dishonour_charge :: raw_charge

section \<open>What the other components see\<close>

definition money_tables :: "money_state \<Rightarrow> money_db" where
  "money_tables st = (ms_money st)\<lparr>db_refunds :=
     map (\<lambda>r. (int (ar_receipt r), ar_posted r, ar_amount r)) (ms_refunds st)\<rparr>"

definition money_gate :: "money_company \<Rightarrow> money_state \<Rightarrow> date \<Rightarrow> bool \<Rightarrow> unit res" where
  "money_gate co st d soft = assert_period_allows_money_amend (mc_books co) (ms_ledger st) d soft"

definition cheque_blocks_allocation :: "money_company \<Rightarrow> customer_receipt \<Rightarrow> bool" where
  "cheque_blocks_allocation co r =
    (mc_hold_cheques co \<and> cr_mode r = ''CHEQUE'' \<and> cr_cheque r = Pending_Clearance)"

definition receipt_view :: "money_company \<Rightarrow> money_state \<Rightarrow> nat \<Rightarrow> receipt" where
  "receipt_view co st i =
    (let r = ms_receipts st ! i in
     \<lparr>rc_pk = int i, rc_company = mc_id co, rc_customer = cu_id (cr_customer r), rc_amount = cr_amount r,
      rc_discount = cr_discount r, rc_tds = cr_tds r, rc_posted = (cr_status r = Rc_Posted),
      rc_cheque_blocks = cheque_blocks_allocation co r,
      rc_period_locked = (money_gate co st (cr_date r) False \<noteq> Inr ())\<rparr>)"

definition payment_view :: "money_company \<Rightarrow> money_state \<Rightarrow> nat \<Rightarrow> supplier_payment" where
  "payment_view co st i =
    (let p = ms_payments st ! i in
     \<lparr>sp_pk = int i, sp_company = mc_id co, sp_supplier = su_id (so_supplier p), sp_amount = so_amount p,
      sp_tds = so_tds p, sp_posted = so_posted p,
      sp_period_locked = (money_gate co st (so_date p) False \<noteq> Inr ())\<rparr>)"

definition receipt_voucher :: "nat \<Rightarrow> customer_receipt \<Rightarrow> posted_receipt" where
  "receipt_voucher i r = \<lparr>pr_id = int i, pr_amount = cr_amount r, pr_tds = cr_tds r, pr_fee = cr_gateway r,
     pr_customer = Some (cu_id (cr_customer r)), pr_bank = map_option ba_id (cr_bank r), pr_date = cr_date r\<rparr>"

definition payment_voucher :: "nat \<Rightarrow> paid_out \<Rightarrow> posted_payment" where
  "payment_voucher i p = \<lparr>py_id = int i, py_amount = so_amount p, py_tds = so_tds p,
     py_supplier = Some (su_id (so_supplier p)), py_bank = map_option ba_id (so_bank p), py_date = so_date p\<rparr>"

definition set_receipt :: "nat \<Rightarrow> (customer_receipt \<Rightarrow> customer_receipt) \<Rightarrow> money_state \<Rightarrow> money_state" where
  "set_receipt i f st = st\<lparr>ms_receipts := (ms_receipts st)[i := f (ms_receipts st ! i)]\<rparr>"

definition set_refund :: "nat \<Rightarrow> (advance_refund \<Rightarrow> advance_refund) \<Rightarrow> money_state \<Rightarrow> money_state" where
  "set_refund i f st = st\<lparr>ms_refunds := (ms_refunds st)[i := f (ms_refunds st ! i)]\<rparr>"

definition set_payment :: "nat \<Rightarrow> (paid_out \<Rightarrow> paid_out) \<Rightarrow> money_state \<Rightarrow> money_state" where
  "set_payment i f st = st\<lparr>ms_payments := (ms_payments st)[i := f (ms_payments st ! i)]\<rparr>"

text \<open>\<open>if posts_to_ledger(company): ...\<close>\<close>

definition book :: "money_company \<Rightarrow> (ledger \<Rightarrow> (jentry option \<times> ledger) res) \<Rightarrow> money_state \<Rightarrow> money_state res" where
  "book co f st =
    (if posts_to_ledger (mc_books co)
     then bind_res (f (ms_ledger st)) (\<lambda>(_, lg). Inr (st\<lparr>ms_ledger := lg\<rparr>))
     else Inr st)"

definition unbook :: "money_company \<Rightarrow> (ledger \<Rightarrow> ledger res) \<Rightarrow> money_state \<Rightarrow> money_state res" where
  "unbook co f st =
    (if posts_to_ledger (mc_books co) then bind_res (f (ms_ledger st)) (\<lambda>lg. Inr (st\<lparr>ms_ledger := lg\<rparr>))
     else Inr st)"

section \<open>Checks\<close>

definition MIN_VOID_REASON_LENGTH :: nat where "MIN_VOID_REASON_LENGTH = 3"

definition MAX_VOID_REASON_LENGTH :: nat where "MAX_VOID_REASON_LENGTH = 500"

text \<open>\<open>" ".join(str(reason or "").split())\<close>, then its length.\<close>

definition check_reason :: "string \<Rightarrow> string \<Rightarrow> string \<Rightarrow> string res" where
  "check_reason short_code long_code reason0 =
    (let reason = join_with '' '' (py_split reason0) in
     guard_res (length reason < MIN_VOID_REASON_LENGTH) (Business_Rule short_code) (
     guard_res (MAX_VOID_REASON_LENGTH < length reason) (Business_Rule long_code) (Inr reason)))"

definition normalize_utr :: "string \<Rightarrow> string" where
  "normalize_utr s = filter (\<lambda>c. c \<noteq> CHR '' '') (py_upper (py_strip s))"

definition live_receipt :: "customer_receipt \<Rightarrow> bool" where
  "live_receipt r = (cr_status r \<noteq> Rc_Voided \<and> cr_status r \<noteq> Rc_Refunded)"

definition utr_on_receipt :: "money_state \<Rightarrow> string \<Rightarrow> nat option \<Rightarrow> bool" where
  "utr_on_receipt st utr except =
    list_ex (\<lambda>i. let r = ms_receipts st ! i in cr_utr r = utr \<and> live_receipt r \<and> except \<noteq> Some i)
      [0..<length (ms_receipts st)]"

definition utr_on_payment :: "money_state \<Rightarrow> string \<Rightarrow> nat option \<Rightarrow> bool" where
  "utr_on_payment st utr except =
    list_ex (\<lambda>i. let p = ms_payments st ! i in so_utr p = utr \<and> so_posted p \<and> except \<noteq> Some i)
      [0..<length (ms_payments st)]"

definition check_utr_duplicate :: "money_state \<Rightarrow> string \<Rightarrow> nat option \<Rightarrow> nat option \<Rightarrow> string option" where
  "check_utr_duplicate st utr0 except_receipt except_payment =
    (let utr = normalize_utr utr0 in
     if utr = [] then None
     else if utr_on_receipt st utr except_receipt then Some ''UTR was already used on another receipt.''
     else if utr_on_payment st utr except_payment then Some ''UTR was already used on a supplier payment.''
     else None)"

definition assert_utr_unique :: "money_state \<Rightarrow> string \<Rightarrow> nat option \<Rightarrow> nat option \<Rightarrow> unit res" where
  "assert_utr_unique st utr except_receipt except_payment =
    (case check_utr_duplicate st utr except_receipt except_payment of
       None \<Rightarrow> Inr () | Some warn \<Rightarrow> Inl (Business_Rule warn))"

definition require_cheque_details :: "string \<Rightarrow> string \<Rightarrow> string \<Rightarrow> unit res" where
  "require_cheque_details mode number bank =
    (if py_upper mode \<noteq> ''CHEQUE'' then Inr ()
     else guard_res (py_strip number = [] \<or> py_strip bank = [])
       (Business_Rule ''Cheque number and bank name are required for cheque payments.'') (Inr ()))"

definition CASH_269ST_LIMIT :: rat where "CASH_269ST_LIMIT = 200000"

definition BANK_MODES :: "string list" where "BANK_MODES = [''UPI'', ''BANK'', ''CARD'']"

text \<open>The default bank account, else the only one that is active; a cash box is no bank.\<close>

definition default_receipt_bank_account :: "money_company \<Rightarrow> money_state \<Rightarrow> bank_account option" where
  "default_receipt_bank_account co st =
    (let accounts = filter (\<lambda>b. ba_company b = mc_id co \<and> ba_active b \<and> \<not> ba_cash_box b) (ms_banks st) in
     case find ba_default accounts of
       Some b \<Rightarrow> Some b
     | None \<Rightarrow> (case accounts of [b] \<Rightarrow> Some b | _ \<Rightarrow> None))"

definition cash_same_day :: "money_state \<Rightarrow> int \<Rightarrow> date \<Rightarrow> rat" where
  "cash_same_day st customer d =
    (\<Sum>r\<leftarrow>filter (\<lambda>r. cu_id (cr_customer r) = customer \<and> cr_mode r = ''CASH'' \<and> cr_date r = d \<and> live_receipt r)
       (ms_receipts st). cr_amount r)"

definition cash_269st_check :: "money_company \<Rightarrow> money_state \<Rightarrow> int \<Rightarrow> rat \<Rightarrow> date \<Rightarrow> string option res" where
  "cash_269st_check co st customer amount d =
    (let mode = (if mc_269st co = [] then ''warn'' else mc_269st co) in
     if mode = ''off'' then Inr None
     else if cash_same_day st customer d + amount < CASH_269ST_LIMIT then Inr None
     else guard_res (mode = ''block'') (Business_Rule ''cash_269st_limit'')
       (Inr (Some ''Cash receipts from this customer reach Rs 2,00,000 on this date.'')))"

section \<open>Creating a receipt\<close>

record receipt_request =
  rq_customer :: payer
  rq_amount :: rat
  rq_mode :: string
  rq_date :: "date option"
  rq_reference :: string
  rq_notes :: string
  rq_bank :: "bank_account option"
  rq_utr :: string
  rq_gateway_source :: bool
  rq_gateway :: "rat option"
  rq_warn_utr :: bool
  rq_bypass_gate :: bool
  rq_cheque_number :: string
  rq_cheque_bank :: string
  rq_discount :: rat
  rq_tds :: rat
  rq_tendered :: "rat option"
  rq_change :: rat
  rq_need_bank :: bool
  rq_on_clear :: bool
  rq_wanted_bill :: "int option"
  rq_wanted_amount :: "rat option"

definition request_utr :: "string \<Rightarrow> string \<Rightarrow> string \<Rightarrow> string" where
  "request_utr mode utr reference =
    normalize_utr (if mode \<in> {''UPI'', ''BANK''} then (if utr \<noteq> [] then utr else reference) else utr)"

definition money_number :: "money_company \<Rightarrow> date \<Rightarrow> money_state \<Rightarrow> string \<Rightarrow> date \<Rightarrow> (string \<times> doc_series list) res" where
  "money_number co today st doc_type d =
    (let numbering = gc_numbering (mc_books co); g = resolve_series_gstin numbering None in
     next_number True numbering today (lg_series (ms_ledger st)) doc_type g
       (if g \<noteq> None then Some d else None))"

definition request_bank :: "money_company \<Rightarrow> money_state \<Rightarrow> receipt_request \<Rightarrow> bank_account option res" where
  "request_bank co st rq =
    guard_res (case rq_bank rq of None \<Rightarrow> False | Some b \<Rightarrow> ba_company b \<noteq> mc_id co)
      (Business_Rule ''Invalid bank account.'') (
    if rq_need_bank rq \<and> py_upper (rq_mode rq) \<in> set BANK_MODES \<and> rq_bank rq = None
    then (case default_receipt_bank_account co st of
        None \<Rightarrow> Inl (Business_Rule ''bank_account_required'') | Some b \<Rightarrow> Inr (Some b))
    else Inr (rq_bank rq))"

definition receipt_row :: "receipt_request \<Rightarrow> date \<Rightarrow> string \<Rightarrow> bank_account option \<Rightarrow> string \<Rightarrow> customer_receipt" where
  "receipt_row rq d utr bank number =
    (let amount = quantize_even 2 (rq_amount rq) in
     \<lparr>cr_customer = rq_customer rq, cr_number = number, cr_amount = amount,
      cr_discount = quantize_even 2 (rq_discount rq), cr_tds = quantize_even 2 (rq_tds rq),
      cr_tendered = quantize_even 2 (case rq_tendered rq of None \<Rightarrow> amount | Some t \<Rightarrow> t),
      cr_change = quantize_even 2 (rq_change rq), cr_mode = rq_mode rq, cr_date = d,
      cr_reference = rq_reference rq, cr_utr = utr, cr_notes = rq_notes rq, cr_status = Rc_Posted,
      cr_till = None, cr_bank = bank, cr_gateway_source = rq_gateway_source rq, cr_gateway = rq_gateway rq,
      cr_cheque_number = py_strip (rq_cheque_number rq), cr_cheque_bank = py_strip (rq_cheque_bank rq),
      cr_cheque = (if py_upper (rq_mode rq) = ''CHEQUE'' then Pending_Clearance else No_Cheque),
      cr_fee = 0, cr_certificate = None, cr_on_clear = rq_on_clear rq, cr_wanted_bill = rq_wanted_bill rq,
      cr_wanted_amount = rq_wanted_amount rq, cr_void_reason = []\<rparr>)"

text \<open>
  \<open>create_receipt\<close>: the new state with the warnings about a used UTR and about the cash limit.  The row
  is refused by the database when its number, or its UTR among the live receipts, is taken.
\<close>

definition create_receipt ::
  "money_company \<Rightarrow> date \<Rightarrow> (ledger \<Rightarrow> int) \<Rightarrow> receipt_request \<Rightarrow> money_state
    \<Rightarrow> (money_state \<times> string option \<times> string option) res" where
  "create_receipt co today key rq st =
    (let amount = quantize_even 2 (rq_amount rq); discount = quantize_even 2 (rq_discount rq);
         tds = quantize_even 2 (rq_tds rq); d = opt_arg today (rq_date rq) in
     guard_res (amount \<le> 0) (Business_Rule ''Receipt amount must be greater than zero.'') (
     guard_res (py_upper (rq_mode rq) = ''CREDIT'') (Business_Rule ''receipt_mode_invalid'') (
     guard_res (discount < 0 \<or> tds < 0) (Business_Rule ''settlement_discount_invalid'') (
     guard_res (amount < discount) (Business_Rule ''settlement_discount_invalid'') (
     guard_res (amount < tds) (Business_Rule ''tds_invalid'') (
     guard_res (cu_company (rq_customer rq) \<noteq> mc_id co) (Business_Rule ''Invalid customer reference.'') (
     bind_res (if rq_bypass_gate rq then Inr () else money_gate co st d False) (\<lambda>_.
     let utr = request_utr (rq_mode rq) (rq_utr rq) (rq_reference rq) in
     guard_res (mc_need_reference co \<and> rq_mode rq \<in> {''UPI'', ''BANK''} \<and> utr = [])
       (Business_Rule ''UTR / payment reference is required for UPI and Bank receipts.'') (
     bind_res (require_cheque_details (rq_mode rq) (rq_cheque_number rq) (rq_cheque_bank rq)) (\<lambda>_.
     bind_res (request_bank co st rq) (\<lambda>bank.
     bind_res (if py_upper (rq_mode rq) = ''CASH''
               then cash_269st_check co st (cu_id (rq_customer rq)) amount d else Inr None) (\<lambda>cash_warning.
     bind_res (if rq_warn_utr rq then Inr (check_utr_duplicate st utr None None)
               else bind_res (assert_utr_unique st utr None None) (\<lambda>_. Inr None)) (\<lambda>warn.
     bind_res (money_number co today st ''CUSTOMER_RECEIPT'' d) (\<lambda>(number, series).
     guard_res (number \<in> set (map cr_number (ms_receipts st)) \<or> (utr \<noteq> [] \<and> utr_on_receipt st utr None))
       (Runtime_Error ''IntegrityError'') (
     let row = receipt_row rq d utr bank number; i = length (ms_receipts st);
         st1 = st\<lparr>ms_receipts := ms_receipts st @ [row], ms_ledger := (ms_ledger st)\<lparr>lg_series := series\<rparr>\<rparr> in
     bind_res (book co (\<lambda>lg. post_receipt (mc_books co) today (key lg) lg (receipt_voucher i row)) st1) (\<lambda>st2.
     Inr (st2, warn, cash_warning)))))))))))))))))"

section \<open>Applying receipts\<close>

definition allocation_voucher :: "nat \<Rightarrow> customer_receipt \<Rightarrow> allocation \<Rightarrow> posted_allocation" where
  "allocation_voucher k r a = \<lparr>pa_id = int k, pa_amount = al_amount a, pa_discount = al_discount a,
     pa_tds = al_tds a, pa_customer = Some (cu_id (cr_customer r)), pa_receipt_date = Some (cr_date r)\<rparr>"

text \<open>\<open>allocate_receipt\<close> with its posting, dated like the receipt.\<close>

definition apply_receipt ::
  "money_company \<Rightarrow> date \<Rightarrow> (ledger \<Rightarrow> int) \<Rightarrow> nat \<Rightarrow> sales_bill \<Rightarrow> rat \<Rightarrow> money_state \<Rightarrow> (money_state \<times> allocation) res" where
  "apply_receipt co today key i bill amount st =
    bind_res (allocate_receipt (money_tables st) (receipt_view co st i) bill amount) (\<lambda>(db, a).
      let k = length (db_allocs (ms_money st));
          st1 = st\<lparr>ms_money := (ms_money st)\<lparr>db_allocs := db_allocs db\<rparr>\<rparr> in
      bind_res (book co (\<lambda>lg. post_receipt_allocation (mc_books co) today (key lg) lg
                  (allocation_voucher k (ms_receipts st ! i) a)) st1) (\<lambda>st2.
      Inr (st2, a)))"

text \<open>The loop of \<open>allocate_receipt_oldest_first\<close> over the open invoices in their order.\<close>

fun apply_all ::
  "money_company \<Rightarrow> date \<Rightarrow> (ledger \<Rightarrow> int) \<Rightarrow> nat \<Rightarrow> sales_bill list \<Rightarrow> rat \<Rightarrow> money_state
    \<Rightarrow> (money_state \<times> allocation list) res" where
  "apply_all co today key i [] remaining st = Inr (st, [])"
| "apply_all co today key i (bill # bills) remaining st =
    (if remaining \<le> 0 then Inr (st, [])
     else let rc = receipt_view co st i; db = money_tables st; owed = sales_invoice_outstanding db bill in
       if owed \<le> 0 then apply_all co today key i bills remaining st
       else let take = max_cash_for_balance rc owed remaining (live_totals_of db rc) (refunded_total db rc) in
         if take \<le> 0 then apply_all co today key i bills remaining st
         else bind_res (apply_receipt co today key i bill take st) (\<lambda>(st', a).
                bind_res (apply_all co today key i bills (remaining - take) st') (\<lambda>(st'', created).
                  Inr (st'', a # created))))"

definition apply_oldest_first ::
  "money_company \<Rightarrow> date \<Rightarrow> (ledger \<Rightarrow> int) \<Rightarrow> nat \<Rightarrow> sales_bill list \<Rightarrow> money_state
    \<Rightarrow> (money_state \<times> allocation list) res" where
  "apply_oldest_first co today key i bills st =
    (let rc = receipt_view co st i in
     if rc_cheque_blocks rc then Inr (st, [])
     else apply_all co today key i
       (sort_key bill_order (filter (\<lambda>b. sb_company b = rc_company rc \<and> sb_customer b = rc_customer rc
          \<and> sb_open b) bills))
       (cash_available (money_tables st) rc) st)"

text \<open>What the invoice screen collected: a receipt of today over the amount due, applied to the invoice.\<close>

definition settle_completed_invoice_payment ::
  "money_company \<Rightarrow> date \<Rightarrow> (ledger \<Rightarrow> int) \<Rightarrow> payer \<Rightarrow> sales_bill \<Rightarrow> rat \<Rightarrow> string \<Rightarrow> string \<Rightarrow> string \<Rightarrow> money_state
    \<Rightarrow> money_state res" where
  "settle_completed_invoice_payment co today key customer bill tendered mode0 cheque_number cheque_bank st =
    bind_res (settlement_amounts tendered mode0 (sales_invoice_outstanding (money_tables st) bill)) (\<lambda>plan.
    case plan of None \<Rightarrow> Inr st
    | Some (amount, change) \<Rightarrow>
        let rq = \<lparr>rq_customer = customer, rq_amount = amount,
              rq_mode = py_upper (if mode0 = [] then ''CASH'' else mode0), rq_date = Some today,
              rq_reference = [], rq_notes = (if 0 < change then ''Tendered'' else []), rq_bank = None, rq_utr = [],
              rq_gateway_source = False, rq_gateway = None, rq_warn_utr = False, rq_bypass_gate = False,
              rq_cheque_number = cheque_number, rq_cheque_bank = cheque_bank, rq_discount = 0, rq_tds = 0,
              rq_tendered = Some (quantize_even 2 tendered), rq_change = change, rq_need_bank = False,
              rq_on_clear = False, rq_wanted_bill = None, rq_wanted_amount = None\<rparr> in
        bind_res (create_receipt co today key rq st) (\<lambda>(st1, _).
        bind_res (apply_receipt co today key (length (ms_receipts st)) bill amount st1) (\<lambda>(st2, _). Inr st2)))"

section \<open>Taking journals back\<close>

text \<open>The posted journal of a source, if any, is reversed with the date \<open>d\<close> gives.\<close>

definition reverse_posted ::
  "money_company \<Rightarrow> date \<Rightarrow> (ledger \<Rightarrow> int) \<Rightarrow> (jentry \<Rightarrow> date) \<Rightarrow> posting_source \<Rightarrow> ledger \<Rightarrow> ledger res" where
  "reverse_posted co today key d src lg =
    (case find (same_posting src) (lg_entries lg) of
       None \<Rightarrow> Inr lg
     | Some e \<Rightarrow> bind_res (reverse (mc_books co) today (key lg) lg e (Some (d e)) None) (\<lambda>(_, lg'). Inr lg'))"

definition reverse_allocation_journals ::
  "money_company \<Rightarrow> date \<Rightarrow> (ledger \<Rightarrow> int) \<Rightarrow> nat \<Rightarrow> money_state \<Rightarrow> money_state res" where
  "reverse_allocation_journals co today key k st =
    unbook co (fold_res (\<lambda>purpose. reverse_posted co today key je_date (''PAYMENT_ALLOCATION'', int k, purpose))
      [''ALLOCATE_RECEIPT'', ''ALLOCATE_PAYMENT'']) st"

definition reverse_money_document_journal ::
  "money_company \<Rightarrow> date \<Rightarrow> (ledger \<Rightarrow> int) \<Rightarrow> string \<Rightarrow> nat \<Rightarrow> date \<Rightarrow> money_state \<Rightarrow> money_state res" where
  "reverse_money_document_journal co today key source_type i d st =
    unbook co (reverse_posted co today key (\<lambda>_. d) (source_type, int i, ''CREATE'')) st"

text \<open>The correction journals of a receipt, newest first.\<close>

definition correction_of :: "nat \<Rightarrow> jentry \<Rightarrow> bool" where
  "correction_of i e = (case je_source e of (t, n, purpose) \<Rightarrow>
     t = ''CUSTOMER_RECEIPT'' \<and> n = int i
     \<and> (starts_with purpose ''BANK_REPOINT_'' \<or> starts_with purpose ''REASSIGN_''))"

definition corrections_posted :: "nat \<Rightarrow> ledger \<Rightarrow> jentry list" where
  "corrections_posted i lg =
    rev (sort_key (\<lambda>e. (je_date e, je_id e))
      (filter (\<lambda>e. je_status e = POSTED \<and> correction_of i e) (lg_entries lg)))"

definition reverse_bank_repoints ::
  "money_company \<Rightarrow> date \<Rightarrow> (ledger \<Rightarrow> int) \<Rightarrow> nat \<Rightarrow> date \<Rightarrow> money_state \<Rightarrow> money_state res" where
  "reverse_bank_repoints co today key i d st =
    unbook co (\<lambda>lg0. fold_res (\<lambda>e lg. bind_res (reverse (mc_books co) today (key lg) lg e (Some d) None)
        (\<lambda>(_, lg'). Inr lg')) (corrections_posted i lg0) lg0) st"

section \<open>Unallocating and voiding\<close>

definition allocation_date :: "money_state \<Rightarrow> allocation \<Rightarrow> date option" where
  "allocation_date st a = (case al_receipt a of
     Some r \<Rightarrow> Some (cr_date (ms_receipts st ! nat r))
   | None \<Rightarrow> map_option (\<lambda>p. so_date (ms_payments st ! nat p)) (al_payment a))"

definition unallocate ::
  "money_company \<Rightarrow> date \<Rightarrow> (ledger \<Rightarrow> int) \<Rightarrow> nat \<Rightarrow> money_state \<Rightarrow> money_state res" where
  "unallocate co today key k st =
    (let a = db_allocs (ms_money st) ! k in
     if al_reversed a then Inr st
     else bind_res (case allocation_date st a of None \<Rightarrow> Inr () | Some d \<Rightarrow> money_gate co st d False) (\<lambda>_.
          bind_res (reverse_allocation_journals co today key k st) (\<lambda>st1.
          bind_res (reverse_allocation (ms_money st1) k False) (\<lambda>db. Inr (st1\<lparr>ms_money := db\<rparr>)))))"

text \<open>The live allocations of a receipt or a supplier payment, newest first.\<close>

definition live_allocations :: "(allocation \<Rightarrow> bool) \<Rightarrow> money_state \<Rightarrow> nat list" where
  "live_allocations mine st =
    rev (filter (\<lambda>k. let a = db_allocs (ms_money st) ! k in mine a \<and> \<not> al_reversed a)
      [0..<length (db_allocs (ms_money st))])"

definition bank_matched :: "money_state \<Rightarrow> nat \<Rightarrow> bool" where
  "bank_matched st i = (list_ex (\<lambda>m. bm_receipt m = i) (ms_matches st) \<or> i \<in> set (ms_feeds st))"

definition till_closed :: "money_state \<Rightarrow> int option \<Rightarrow> bool" where
  "till_closed st t = (t \<noteq> None \<and> list_ex (\<lambda>x. Some (tl_id x) = t \<and> \<not> tl_open x) (ms_tills st))"

definition has_refunds :: "money_state \<Rightarrow> nat \<Rightarrow> bool" where
  "has_refunds st i = list_ex (\<lambda>r. ar_receipt r = i \<and> ar_posted r) (ms_refunds st)"

definition void_receipt ::
  "money_company \<Rightarrow> date \<Rightarrow> (ledger \<Rightarrow> int) \<Rightarrow> nat \<Rightarrow> string \<Rightarrow> bool \<Rightarrow> bool \<Rightarrow> money_state \<Rightarrow> money_state res" where
  "void_receipt co today key i reason0 allow_bank_matched allow_closed_till st =
    (let rec = ms_receipts st ! i in
     if cr_status rec = Rc_Voided then Inr st
     else
     bind_res (check_reason ''void_reason_required'' ''void_reason_too_long'' reason0) (\<lambda>reason.
     guard_res (cr_status rec = Rc_Refunded) (Business_Rule ''Refunded receipts cannot be voided.'') (
     guard_res (cr_gateway rec \<noteq> None \<or> cr_gateway_source rec)
       (Business_Rule ''Gateway receipts must be refunded, not voided.'') (
     guard_res (has_refunds st i) (Business_Rule ''receipt_has_refunds'') (
     guard_res (\<not> allow_bank_matched \<and> bank_matched st i) (Business_Rule ''receipt_bank_matched'') (
     guard_res (till_closed st (cr_till rec) \<and> \<not> allow_closed_till) (Business_Rule ''receipt_till_closed'') (
     bind_res (money_gate co st (cr_date rec) True) (\<lambda>_.
     bind_res (fold_res (unallocate co today key) (live_allocations (\<lambda>a. al_receipt a = Some (int i)) st) st) (\<lambda>st1.
     bind_res (reverse_money_document_journal co today key ''CUSTOMER_RECEIPT'' i today st1) (\<lambda>st2.
     bind_res (reverse_bank_repoints co today key i today st2) (\<lambda>st3.
     Inr (set_receipt i (\<lambda>r. r\<lparr>cr_status := Rc_Voided, cr_void_reason := reason\<rparr>) st3))))))))))))"

section \<open>Corrections\<close>

definition correction_sequence :: "nat \<Rightarrow> string \<Rightarrow> ledger \<Rightarrow> nat" where
  "correction_sequence i stem lg =
    length (filter (\<lambda>e. case je_source e of (t, n, purpose) \<Rightarrow>
       t = ''CUSTOMER_RECEIPT'' \<and> n = int i \<and> starts_with purpose stem) (lg_entries lg)) + 1"

definition reassign_receipt_customer ::
  "money_company \<Rightarrow> date \<Rightarrow> (ledger \<Rightarrow> int) \<Rightarrow> nat \<Rightarrow> payer \<Rightarrow> string \<Rightarrow> money_state \<Rightarrow> money_state res" where
  "reassign_receipt_customer co today key i new_customer reason0 st =
    (let rec = ms_receipts st ! i in
     bind_res (check_reason ''reassign_reason_required'' ''reassign_reason_too_long'' reason0) (\<lambda>reason.
     guard_res (cr_status rec \<noteq> Rc_Posted) (Business_Rule ''reassign_status'') (
     guard_res (\<not> cu_walk_in (cr_customer rec)) (Business_Rule ''reassign_not_walk_in'') (
     guard_res (cu_company new_customer \<noteq> mc_id co \<or> cu_walk_in new_customer) (Business_Rule ''reassign_customer'') (
     guard_res (live_allocations (\<lambda>a. al_receipt a = Some (int i)) st \<noteq> [] \<or> has_refunds st i)
       (Business_Rule ''reassign_applied'') (
     bind_res (money_gate co st (cr_date rec) False) (\<lambda>_.
     bind_res (book co (\<lambda>lg. post_receipt_party_transfer (mc_books co) today (key lg) lg (receipt_voucher i rec)
         (Some (cu_id (cr_customer rec))) (Some (cu_id new_customer)) (correction_sequence i ''REASSIGN_'' lg)) st) (\<lambda>st1.
     Inr (set_receipt i (\<lambda>r. r\<lparr>cr_customer := new_customer\<rparr>) st1)))))))))"

record receipt_changes =
  ch_unknown :: "string list"          \<comment> \<open>keys that are not editable\<close>
  ch_notes :: "string option"
  ch_reference :: "string option"
  ch_utr :: "string option"
  ch_bank :: "int option option"

definition edit_utr :: "money_state \<Rightarrow> nat \<Rightarrow> string option \<Rightarrow> customer_receipt \<Rightarrow> customer_receipt res" where
  "edit_utr st i change r =
    (case change of None \<Rightarrow> Inr r
     | Some utr0 \<Rightarrow> let utr = normalize_utr utr0 in
        if utr = cr_utr r then Inr r
        else guard_res (bank_matched st i) (Business_Rule ''receipt_reconciled'') (
             bind_res (assert_utr_unique st utr (Some i) None) (\<lambda>_. Inr (r\<lparr>cr_utr := utr\<rparr>))))"

text \<open>The new bank account, when it is another one than the receipt's.\<close>

definition edit_bank ::
  "money_company \<Rightarrow> money_state \<Rightarrow> nat \<Rightarrow> int option option \<Rightarrow> customer_receipt \<Rightarrow> bank_account option res" where
  "edit_bank co st i change r =
    (case change of None \<Rightarrow> Inr None
     | Some new_pk \<Rightarrow>
        let new_bank = (case new_pk of None \<Rightarrow> None
              | Some pk \<Rightarrow> find (\<lambda>b. ba_id b = pk \<and> ba_company b = mc_id co) (ms_banks st)) in
        guard_res (new_pk \<noteq> None \<and> new_bank = None) (Business_Rule ''Invalid bank account.'') (
        if map_option ba_id new_bank = map_option ba_id (cr_bank r) then Inr None
        else guard_res (cr_mode r = ''CASH'') (Business_Rule ''receipt_bank_edit_refused'') (
        case new_bank of None \<Rightarrow> Inl (Business_Rule ''receipt_bank_edit_refused'')
        | Some b \<Rightarrow>
            guard_res (\<not> ba_active b) (Business_Rule ''receipt_bank_edit_refused'') (
            guard_res (cr_gateway_source r \<or> cr_gateway r \<noteq> None) (Business_Rule ''receipt_bank_edit_refused'') (
            guard_res (bank_matched st i) (Business_Rule ''receipt_reconciled'') (
            guard_res (cr_mode r = ''CHEQUE'' \<and> cr_cheque r = Cleared) (Business_Rule ''receipt_bank_edit_refused'') (
            bind_res (money_gate co st (cr_date r) False) (\<lambda>_. Inr (Some b)))))))))"

definition edit_receipt ::
  "money_company \<Rightarrow> date \<Rightarrow> (ledger \<Rightarrow> int) \<Rightarrow> nat \<Rightarrow> receipt_changes \<Rightarrow> money_state \<Rightarrow> money_state res" where
  "edit_receipt co today key i ch st =
    (let r0 = ms_receipts st ! i in
     guard_res (ch_unknown ch \<noteq> []) (Business_Rule ''receipt_field_not_editable'') (
     guard_res (cr_status r0 \<noteq> Rc_Posted) (Business_Rule ''receipt_not_editable'') (
     let r1 = (case ch_notes ch of None \<Rightarrow> r0 | Some s \<Rightarrow> r0\<lparr>cr_notes := take 5000 s\<rparr>);
         r2 = (case ch_reference ch of None \<Rightarrow> r1 | Some s \<Rightarrow> r1\<lparr>cr_reference := take 100 (py_strip s)\<rparr>) in
     bind_res (edit_utr st i (ch_utr ch) r2) (\<lambda>r3.
     bind_res (edit_bank co st i (ch_bank ch) r3) (\<lambda>bank.
     bind_res (case bank of None \<Rightarrow> Inr st
       | Some b \<Rightarrow> book co (\<lambda>lg. post_receipt_bank_repoint (mc_books co) today (key lg) lg (receipt_voucher i r3)
           (map_option ba_id (cr_bank r3)) (Some (ba_id b)) (correction_sequence i ''BANK_REPOINT_'' lg)) st) (\<lambda>st1.
     Inr (set_receipt i (\<lambda>_. case bank of None \<Rightarrow> r3 | Some b \<Rightarrow> r3\<lparr>cr_bank := Some b\<rparr>) st1)))))))"

section \<open>Advance refunds\<close>

record refund_request =
  rr_amount :: rat
  rr_mode :: string
  rr_reason :: string
  rr_date :: "date option"
  rr_bank :: "bank_account option"
  rr_utr :: string
  rr_from_till :: bool
  rr_user :: int

definition mark_paid_from_till :: "money_state \<Rightarrow> int \<Rightarrow> advance_refund \<Rightarrow> advance_refund res" where
  "mark_paid_from_till st user row =
    (let own = filter (\<lambda>t. tl_open t \<and> tl_cashier t = user) (ms_tills st);
         opens = (if own = [] then filter tl_open (ms_tills st) else own) in
     guard_res (1 < length opens) (Business_Rule ''pos_till_ambiguous'')
       (Inr (case opens of [t] \<Rightarrow> row\<lparr>ar_till := Some (tl_id t), ar_from_till := True\<rparr>
             | _ \<Rightarrow> row\<lparr>ar_from_till := True\<rparr>)))"

definition refund_bank :: "money_company \<Rightarrow> money_state \<Rightarrow> string \<Rightarrow> bank_account option \<Rightarrow> bank_account option res" where
  "refund_bank co st mode chosen =
    (if mode = ''CASH'' then Inr None
     else case (if chosen \<noteq> None then chosen else default_receipt_bank_account co st) of
         None \<Rightarrow> Inl (Business_Rule ''bank_account_required'')
       | Some b \<Rightarrow> guard_res (ba_company b \<noteq> mc_id co) (Business_Rule ''Invalid bank account.'') (Inr (Some b)))"

definition refund_advance ::
  "money_company \<Rightarrow> date \<Rightarrow> (ledger \<Rightarrow> int) \<Rightarrow> nat \<Rightarrow> refund_request \<Rightarrow> money_state \<Rightarrow> money_state res" where
  "refund_advance co today key i rr st =
    (let rec = ms_receipts st ! i; amount = q2 (rr_amount rr) in
     guard_res (amount \<le> 0) (Business_Rule ''advance_refund_amount'') (
     bind_res (check_reason ''advance_refund_reason_required'' ''advance_refund_reason_too_long'' (rr_reason rr)) (\<lambda>reason.
     let mode = py_upper (if rr_mode rr = [] then ''CASH'' else rr_mode rr) in
     guard_res (mode \<notin> {''CASH'', ''UPI'', ''BANK''}) (Business_Rule ''advance_refund_mode'') (
     guard_res (cr_status rec \<noteq> Rc_Posted) (Business_Rule ''advance_refund_status'') (
     guard_res (cr_gateway rec \<noteq> None \<or> cr_gateway_source rec) (Business_Rule ''advance_refund_gateway'') (
     guard_res (cu_walk_in (cr_customer rec)) (Business_Rule ''advance_refund_walk_in'') (
     guard_res (cr_mode rec = ''CHEQUE'' \<and> cr_cheque rec \<noteq> Cleared) (Business_Rule ''advance_refund_cheque'') (
     guard_res (0 < cr_tds rec) (Business_Rule ''advance_refund_tds'') (
     guard_res (cash_available (money_tables st) (receipt_view co st i) < amount)
       (Business_Rule ''advance_refund_exceeds'') (
     let d = opt_arg today (rr_date rr) in
     guard_res (today < d) (Business_Rule ''advance_refund_date'') (
     guard_res (d < cr_date rec) (Business_Rule ''advance_refund_date'') (
     bind_res (money_gate co st d False) (\<lambda>_.
     bind_res (refund_bank co st mode (rr_bank rr)) (\<lambda>bank.
     bind_res (money_number co today st ''CUSTOMER_ADVANCE_REFUND'' d) (\<lambda>(number, series).
     let row = \<lparr>ar_receipt = i, ar_number = number, ar_amount = amount, ar_mode = mode, ar_date = d, ar_bank = bank,
                ar_utr = normalize_utr (rr_utr rr), ar_reason = reason, ar_posted = True, ar_till = None,
                ar_from_till = False, ar_void_reason = []\<rparr> in
     bind_res (if mode = ''CASH'' \<and> rr_from_till rr then mark_paid_from_till st (rr_user rr) row else Inr row) (\<lambda>row'.
     let j = length (ms_refunds st);
         st1 = st\<lparr>ms_refunds := ms_refunds st @ [row'], ms_ledger := (ms_ledger st)\<lparr>lg_series := series\<rparr>\<rparr> in
     book co (\<lambda>lg. post_advance_refund (mc_books co) today (key lg) lg (int j) amount mode (map_option ba_id bank)
        (Some (cu_id (cr_customer rec))) d) st1))))))))))))))))"

definition void_advance_refund ::
  "money_company \<Rightarrow> date \<Rightarrow> (ledger \<Rightarrow> int) \<Rightarrow> nat \<Rightarrow> string \<Rightarrow> money_state \<Rightarrow> money_state res" where
  "void_advance_refund co today key j reason0 st =
    (let row = ms_refunds st ! j in
     if \<not> ar_posted row then Inr st
     else
     bind_res (check_reason ''void_reason_required'' ''void_reason_too_long'' reason0) (\<lambda>reason.
     guard_res (till_closed st (ar_till row)) (Business_Rule ''receipt_till_closed'') (
     bind_res (money_gate co st (ar_date row) True) (\<lambda>_.
     bind_res (reverse_money_document_journal co today key ''CUSTOMER_ADVANCE_REFUND'' j today st) (\<lambda>st1.
     Inr (set_refund j (\<lambda>r. r\<lparr>ar_posted := False, ar_void_reason := reason\<rparr>) st1))))))"

section \<open>Cheques\<close>

text \<open>The charge of the bank on this bounce, else the company's; nothing configured is no fee.\<close>

definition dishonour_fee_amount :: "money_company \<Rightarrow> raw_charge \<Rightarrow> rat res" where
  "dishonour_fee_amount co bank_charge =
    (case (if bank_charge = Missing then mc_dishonour_charge co else bank_charge) of
       Missing \<Rightarrow> Inr 0
     | Blank \<Rightarrow> Inr 0
     | Not_A_Number \<Rightarrow> Inl (Business_Rule ''The bank charge must be a number.'')
     | Charge x \<Rightarrow> guard_res (q2 x < 0) (Business_Rule ''Dishonour fee cannot be negative.'') (Inr (q2 x)))"

definition post_dishonour_fee ::
  "money_company \<Rightarrow> date \<Rightarrow> (ledger \<Rightarrow> int) \<Rightarrow> nat \<Rightarrow> customer_receipt \<Rightarrow> rat \<Rightarrow> ledger \<Rightarrow> (jentry option \<times> ledger) res" where
  "post_dishonour_fee co today key i r fee lg =
    bind_res (resolve_accounts [''1200'', ''5200''] (ensure_chart (lg_chart lg))) (\<lambda>chart.
      post (mc_books co) today (key lg) (lg\<lparr>lg_chart := chart\<rparr>) (''CHEQUE_DISHONOUR'', int i, ''DISHONOUR_FEE'') today
        [of_customer (Some (cu_id (cr_customer r))) (dr ''1200'' fee None), cr ''5200'' fee None] True False)"

definition bounce_cheque ::
  "money_company \<Rightarrow> date \<Rightarrow> (ledger \<Rightarrow> int) \<Rightarrow> nat \<Rightarrow> raw_charge \<Rightarrow> money_state \<Rightarrow> money_state res" where
  "bounce_cheque co today key i bank_charge st =
    bind_res (void_receipt co today key i ''Cheque bounced'' True False st) (\<lambda>st1.
    let st2 = st1\<lparr>ms_matches := map (\<lambda>m. if bm_receipt m = i then m\<lparr>bm_review := True\<rparr> else m) (ms_matches st1)\<rparr> in
    bind_res (dishonour_fee_amount co bank_charge) (\<lambda>fee.
    let st3 = set_receipt i (\<lambda>r. r\<lparr>cr_cheque := Bounced, cr_fee := fee\<rparr>) st2 in
    if 0 < fee then book co (post_dishonour_fee co today key i (ms_receipts st3 ! i) fee) st3 else Inr st3))"

text \<open>A cleared cheque goes where the person entering it wanted: to one bill, or oldest first.\<close>

definition apply_intent_on_clear ::
  "money_company \<Rightarrow> date \<Rightarrow> (ledger \<Rightarrow> int) \<Rightarrow> nat \<Rightarrow> sales_bill list \<Rightarrow> money_state \<Rightarrow> money_state res" where
  "apply_intent_on_clear co today key i bills st =
    (let r = ms_receipts st ! i; rc = receipt_view co st i; db = money_tables st in
     case cr_wanted_bill r of
       None \<Rightarrow> bind_res (apply_oldest_first co today key i bills st) (\<lambda>(st', _). Inr st')
     | Some pk \<Rightarrow>
        (case find (\<lambda>b. sb_pk b = pk \<and> sb_company b = mc_id co \<and> sb_customer b = cu_id (cr_customer r) \<and> sb_open b) bills of
           None \<Rightarrow> Inr st
         | Some bill \<Rightarrow>
             let want = (case cr_wanted_amount r of None \<Rightarrow> cr_amount r | Some w \<Rightarrow> if w = 0 then cr_amount r else w);
                 take = max_cash_for_balance rc (sales_invoice_outstanding db bill)
                   (min want (cash_available db rc)) (live_totals_of db rc) (refunded_total db rc) in
             if take \<le> 0 then Inr st
             else bind_res (apply_receipt co today key i bill take st) (\<lambda>(st', _). Inr st')))"

text \<open>Only a business rule that stops the application is swallowed; any other error ends the call.\<close>

definition set_cheque_status ::
  "money_company \<Rightarrow> date \<Rightarrow> (ledger \<Rightarrow> int) \<Rightarrow> nat \<Rightarrow> cheque_status \<Rightarrow> raw_charge \<Rightarrow> sales_bill list \<Rightarrow> money_state
    \<Rightarrow> money_state res" where
  "set_cheque_status co today key i new bank_charge bills st =
    (let rec = ms_receipts st ! i in
     guard_res (cr_mode rec \<noteq> ''CHEQUE'') (Business_Rule ''Cheque status only applies to cheque receipts.'') (
     if new = Bounced
     then guard_res (cr_cheque rec = Bounced) (Business_Rule ''This cheque receipt has already been bounced.'')
            (bounce_cheque co today key i bank_charge st)
     else
     guard_res (new = No_Cheque) (Business_Rule ''Invalid cheque status.'') (
     guard_res (cr_cheque rec = Bounced)
       (Business_Rule ''This cheque already bounced and cannot be re-cleared.'') (
     let st1 = set_receipt i (\<lambda>r. r\<lparr>cr_cheque := new\<rparr>) st in
     if new = Cleared \<and> cr_cheque rec = Pending_Clearance \<and> cr_status rec = Rc_Posted
        \<and> mc_hold_cheques co \<and> cr_on_clear rec
     then (case apply_intent_on_clear co today key i bills st1 of
             Inr st2 \<Rightarrow> Inr st2
           | Inl (Business_Rule _) \<Rightarrow> Inr st1
           | Inl e \<Rightarrow> Inl e)
     else Inr st1))))"

definition set_tds_certificate ::
  "date \<Rightarrow> nat \<Rightarrow> bool \<Rightarrow> date option \<Rightarrow> string \<Rightarrow> money_state \<Rightarrow> money_state res" where
  "set_tds_certificate today i received received_on reference st =
    (let rec = ms_receipts st ! i; d = opt_arg today received_on in
     guard_res (cr_status rec \<noteq> Rc_Posted)
       (Business_Rule ''Only a live receipt can have a TDS certificate recorded.'') (
     guard_res (cr_tds rec \<le> 0) (Business_Rule ''This receipt has no TDS deducted.'') (
     guard_res (received \<and> today < d) (Business_Rule ''The certificate cannot be received in the future.'') (
     Inr (set_receipt i (\<lambda>r. r\<lparr>cr_certificate :=
       if received then Some (d, take 64 (py_strip reference)) else None\<rparr>) st)))))"

section \<open>Supplier payments\<close>

definition fold_tds_from_rate :: "rat option \<Rightarrow> rat option \<Rightarrow> rat \<Rightarrow> rat" where
  "fold_tds_from_rate tds_rate tds_amount taxable =
    (let rate = or0 tds_rate; amount = or0 tds_amount in
     if 0 < rate \<and> amount = 0 then q2 (ddiv (dmul taxable rate) 100) else q2 amount)"

record payment_request =
  pq_supplier :: payee
  pq_amount :: rat
  pq_mode :: string
  pq_date :: "date option"
  pq_reference :: string
  pq_notes :: string
  pq_bank :: "bank_account option"
  pq_utr :: string
  pq_tds_rate :: "rat option"
  pq_tds_amount :: "rat option"
  pq_cheque_number :: string
  pq_cheque_bank :: string
  pq_override :: bool                  \<comment> \<open>\<open>gstin_hold_override\<close>\<close>
  pq_override_reason :: string
  pq_may_override :: bool              \<comment> \<open>the user is an owner or accountant of the company\<close>

text \<open>A supplier whose GSTIN is cancelled is not paid unless an owner or accountant gives a reason.\<close>

definition gstin_hold :: "payment_request \<Rightarrow> date \<Rightarrow> unit res" where
  "gstin_hold pq pay_on =
    (case su_cancelled (pq_supplier pq) of None \<Rightarrow> Inr ()
     | Some cancelled_on \<Rightarrow>
        guard_res (cancelled_on \<le> pay_on \<and> \<not> pq_override pq) (Business_Rule ''SUPPLIER_GSTIN_CANCELLED'') (
        if cancelled_on \<le> pay_on
        then guard_res (py_strip (pq_override_reason pq) = []) (Business_Rule ''An override needs a reason.'') (
             guard_res (\<not> pq_may_override pq)
               (Business_Rule ''Only an Owner or Accountant can release a cancelled-GSTIN hold.'') (Inr ()))
        else Inr ()))"

definition create_supplier_payment ::
  "money_company \<Rightarrow> date \<Rightarrow> (ledger \<Rightarrow> int) \<Rightarrow> purchase_bill list \<Rightarrow> payment_request \<Rightarrow> money_state \<Rightarrow> money_state res" where
  "create_supplier_payment co today key bills pq st =
    (let amount = quantize_even 2 (pq_amount pq); d = opt_arg today (pq_date pq); supplier = pq_supplier pq in
     guard_res (amount \<le> 0) (Business_Rule ''Payment amount must be greater than zero.'') (
     guard_res (su_company supplier \<noteq> mc_id co) (Business_Rule ''Invalid supplier reference.'') (
     bind_res (gstin_hold pq d) (\<lambda>_.
     bind_res (money_gate co st d False) (\<lambda>_.
     let utr = request_utr (pq_mode pq) (pq_utr pq) (pq_reference pq) in
     guard_res (mc_need_reference co \<and> pq_mode pq \<in> {''UPI'', ''BANK''} \<and> utr = [])
       (Business_Rule ''UTR / payment reference is required for UPI and Bank payments.'') (
     bind_res (require_cheque_details (pq_mode pq) (pq_cheque_number pq) (pq_cheque_bank pq)) (\<lambda>_.
     guard_res (case pq_bank pq of None \<Rightarrow> False | Some b \<Rightarrow> ba_company b \<noteq> mc_id co)
       (Business_Rule ''Invalid bank account.'') (
     bind_res (assert_utr_unique st utr None None) (\<lambda>_.
     let tds = fold_tds_from_rate (pq_tds_rate pq) (pq_tds_amount pq) amount in
     guard_res (tds < 0 \<or> or0 (pq_tds_rate pq) < 0) (Business_Rule ''TDS rate/amount cannot be negative.'') (
     guard_res (amount < tds) (Business_Rule ''TDS amount cannot exceed the payment amount.'') (
     guard_res (0 < tds \<and> list_ex (\<lambda>b. pb_company b = mc_id co \<and> pb_supplier b = su_id supplier \<and> 0 < pb_tds b \<and> pb_open b) bills)
       (Business_Rule ''This supplier already has invoices with TDS.'') (
     bind_res (money_number co today st ''SUPPLIER_PAYMENT'' d) (\<lambda>(number, series).
     guard_res (number \<in> set (map so_number (ms_payments st))) (Runtime_Error ''IntegrityError'') (
     let row = \<lparr>so_supplier = supplier, so_number = number, so_amount = amount, so_tds = tds,
                so_tds_rate = or0 (pq_tds_rate pq), so_mode = pq_mode pq, so_date = d, so_reference = pq_reference pq,
                so_utr = utr, so_notes = pq_notes pq, so_posted = True, so_bank = pq_bank pq,
                so_cheque = (if py_upper (pq_mode pq) = ''CHEQUE'' then Pending_Clearance else No_Cheque)\<rparr>;
         i = length (ms_payments st);
         st1 = st\<lparr>ms_payments := ms_payments st @ [row], ms_ledger := (ms_ledger st)\<lparr>lg_series := series\<rparr>\<rparr> in
     book co (\<lambda>lg. post_supplier_payment (mc_books co) today (key lg) lg (payment_voucher i row)) st1))))))))))))))"

definition apply_payment ::
  "money_company \<Rightarrow> date \<Rightarrow> (ledger \<Rightarrow> int) \<Rightarrow> nat \<Rightarrow> purchase_bill \<Rightarrow> rat \<Rightarrow> money_state \<Rightarrow> money_state res" where
  "apply_payment co today key i bill amount st =
    bind_res (allocate_supplier_payment (money_tables st) (payment_view co st i) bill amount) (\<lambda>(db, a).
      let k = length (db_allocs (ms_money st)); p = ms_payments st ! i;
          st1 = st\<lparr>ms_money := (ms_money st)\<lparr>db_allocs := db_allocs db\<rparr>\<rparr> in
      book co (\<lambda>lg. post_supplier_payment_allocation (mc_books co) today (key lg) lg (int k) (al_amount a)
        (Some (Some (su_id (so_supplier p)), so_date p))) st1)"

definition void_note :: "string \<Rightarrow> string \<Rightarrow> string" where
  "void_note notes reason =
    (let kept = py_strip notes; added = ''VOIDED'' @ (if reason \<noteq> [] then '': '' @ reason else []) in
     if kept \<noteq> [] then py_strip (kept @ [CHR 0x0A] @ added) else added)"

definition void_supplier_payment ::
  "money_company \<Rightarrow> date \<Rightarrow> (ledger \<Rightarrow> int) \<Rightarrow> nat \<Rightarrow> string \<Rightarrow> money_state \<Rightarrow> money_state res" where
  "void_supplier_payment co today key i reason st =
    (let pay = ms_payments st ! i in
     if \<not> so_posted pay then Inr st
     else
     bind_res (money_gate co st (so_date pay) True) (\<lambda>_.
     bind_res (fold_res (unallocate co today key) (live_allocations (\<lambda>a. al_payment a = Some (int i)) st) st) (\<lambda>st1.
     bind_res (reverse_money_document_journal co today key ''SUPPLIER_PAYMENT'' i today st1) (\<lambda>st2.
     Inr (set_payment i (\<lambda>p. p\<lparr>so_posted := False, so_notes := void_note (so_notes p) reason\<rparr>) st2)))))"

definition set_supplier_cheque_status ::
  "money_company \<Rightarrow> date \<Rightarrow> (ledger \<Rightarrow> int) \<Rightarrow> nat \<Rightarrow> cheque_status \<Rightarrow> money_state \<Rightarrow> money_state res" where
  "set_supplier_cheque_status co today key i new st =
    (let pay = ms_payments st ! i in
     guard_res (so_mode pay \<noteq> ''CHEQUE'') (Business_Rule ''Cheque status only applies to cheque payments.'') (
     if new = Bounced
     then bind_res (void_supplier_payment co today key i ''Cheque bounced'' st) (\<lambda>st1.
            Inr (set_payment i (\<lambda>p. p\<lparr>so_cheque := Bounced\<rparr>) st1))
     else
     guard_res (new = No_Cheque) (Business_Rule ''Invalid cheque status.'') (
     guard_res (so_cheque pay = Bounced)
       (Business_Rule ''This cheque already bounced and cannot be re-cleared.'') (
     Inr (set_payment i (\<lambda>p. p\<lparr>so_cheque := new\<rparr>) st)))))"

end
