(* ===== verification/Control_Accounts.thy ===== *)
theory Control_Accounts
  imports Amend_Postings "HOL-Library.Multiset"
begin

text \<open>
  Control accounts.  An account of the ledger is controlled by a set of documents when each document
  has one live journal whose effect on the account is the document's amount, no other journal of the
  component that owns the documents moves the account, and so its balance is the sum over the documents
  plus what the live journals of other components leave there (\<open>foreign\<close>).  The contract is a locale
  over the account, the sources of its documents and the sources the component owns; posting a document
  adds it, reversing its journal takes it away, and journals of others count under \<open>foreign\<close> only.
\<close>

definition tracked_docs ::
  "(posting_source \<Rightarrow> bool) \<Rightarrow> string \<Rightarrow> ledger \<Rightarrow> (posting_source \<times> rat) list" where
  "tracked_docs tracked a lg = map (\<lambda>e. (je_source e, net (je_lines e) a))
     (filter (\<lambda>e. je_status e = POSTED \<and> tracked (je_source e)) (lg_entries lg))"

text \<open>The other journals of the component itself leave the account alone.\<close>

definition others_quiet :: "(posting_source \<Rightarrow> bool) \<Rightarrow> (posting_source \<Rightarrow> bool) \<Rightarrow> string \<Rightarrow> ledger \<Rightarrow> bool" where
  "others_quiet own tracked a lg = (\<forall>e\<in>set (lg_entries lg).
     je_status e = POSTED \<and> own (je_source e) \<and> \<not> tracked (je_source e) \<longrightarrow> net (je_lines e) a = 0)"

text \<open>What the live journals of other documents leave in the account.\<close>

definition outside :: "(posting_source \<Rightarrow> bool) \<Rightarrow> jentry \<Rightarrow> bool" where
  "outside own e = (je_status e = POSTED \<and> \<not> own (je_source e) \<and> fst (je_source e) \<noteq> ''JOURNAL_REVERSAL'')"

definition foreign :: "(posting_source \<Rightarrow> bool) \<Rightarrow> string \<Rightarrow> ledger \<Rightarrow> rat" where
  "foreign own a lg = (\<Sum>e\<leftarrow>filter (outside own) (lg_entries lg). net (je_lines e) a)"

text \<open>No bank account is kept in the controlled account.\<close>

definition chart_keeps :: "string \<Rightarrow> gl_account list \<Rightarrow> bool" where
  "chart_keeps a chart = (\<forall>x\<in>set chart. ga_bank x \<noteq> None \<longrightarrow> ga_code x \<noteq> a)"

definition control ::
  "gl_company \<Rightarrow> (posting_source \<Rightarrow> bool) \<Rightarrow> (posting_source \<Rightarrow> bool) \<Rightarrow> string \<Rightarrow> ledger
    \<Rightarrow> (posting_source \<times> rat) multiset \<Rightarrow> bool" where
  "control co own tracked a lg D =
    (ledger_reachable co lg \<and> others_quiet own tracked a lg \<and> chart_keeps a (lg_chart lg) \<and>
     mset (tracked_docs tracked a lg) = D \<and> balances lg a = (\<Sum>d\<in>#D. snd d) + foreign own a lg)"

section \<open>Charts\<close>

lemma keeps_seed: "chart_keeps a chart \<Longrightarrow> chart_keeps a (seed_chart_of_accounts chart)"
  by (auto simp: chart_keeps_def seed_chart_of_accounts_def)

lemma keeps_ensure: "chart_keeps a chart \<Longrightarrow> chart_keeps a (ensure_chart chart)"
  by (simp add: ensure_chart_def keeps_seed)

lemma keeps_map:
  assumes "chart_keeps a chart" and "\<And>x. ga_code (f x) = ga_code x"
    and "\<And>x. ga_bank (f x) = ga_bank x \<or> ga_code x \<noteq> a"
  shows "chart_keeps a (map f chart)"
  unfolding chart_keeps_def
proof
  fix y assume "y \<in> set (map f chart)"
  then obtain x where "x \<in> set chart" "y = f x" by auto
  then show "ga_bank y \<noteq> None \<longrightarrow> ga_code y \<noteq> a"
    using assms(1) assms(2,3) [of x] unfolding chart_keeps_def by metis
qed

lemma keeps_activate:
  "chart_keeps a chart \<Longrightarrow> chart_keeps a (map (\<lambda>x. if P x then x\<lparr>ga_active := True\<rparr> else x) chart)"
  by (rule keeps_map) auto

lemma keeps_use:
  assumes "use_account code chart = Inr chart'" and "chart_keeps a chart"
  shows "chart_keeps a chart'"
  using assms keeps_seed [OF assms(2)] keeps_activate [OF keeps_seed [OF assms(2)]]
  by (auto simp: use_account_def Let_def split: if_splits option.splits)

lemma keeps_resolve:
  "resolve_accounts codes chart = Inr chart' \<Longrightarrow> chart_keeps a chart \<Longrightarrow> chart_keeps a chart'"
  by (induction codes arbitrary: chart) (auto simp: bind_res_Inr_iff intro: keeps_use)

lemma find_account_code: "find_account P code chart = Some x \<Longrightarrow> x \<in> set chart \<and> ga_code x = code"
  by (auto simp: find_account_def find_Some_iff)

lemma keeps_bank:
  assumes "bank_gl_account co chart bank d = Inr (code, chart')" and "chart_keeps a chart"
    and "take 4 a \<noteq> ''1500''"
  shows "code \<noteq> a \<and> chart_keeps a chart'"
proof (cases "bank = None \<or> (case (gc_books_start co, d) of (Some cutover, Some d) \<Rightarrow> d < cutover | _ \<Rightarrow> False)")
  case True
  then have "code = ''1500''" "use_account ''1500'' chart = Inr chart'"
    using assms(1) by (auto simp: bank_gl_account_def Let_def bind_res_Inr_iff split: option.splits)
  then show ?thesis using keeps_use assms(2,3) by auto
next
  case False
  then obtain b where b: "bank = Some b" by auto
  show ?thesis
  proof (cases "find (\<lambda>a. ga_bank a = Some b) chart")
    case (Some x)
    then have "x \<in> set chart" "ga_bank x = Some b" by (auto simp: find_Some_iff)
    then have "ga_code x \<noteq> a" using assms(2) by (auto simp: chart_keeps_def)
    moreover have "code = ga_code x"
      "chart' = map (\<lambda>y. if ga_code y = ga_code x then y\<lparr>ga_active := True\<rparr> else y) chart"
      using assms(1) False Some b by (auto simp: bank_gl_account_def Let_def split: option.splits if_splits)
    ultimately show ?thesis using keeps_activate [OF assms(2)] by simp
  next
    case None
    let ?code = "''1500-'' @ show_nat (nat b)"
    have ne: "?code \<noteq> a" using assms(3) by auto
    obtain chart1 where c1: "use_account ''1500'' chart = Inr chart1" "code = ?code"
      "chart' = chart1 @ [\<lparr>ga_code = ?code, ga_active = True, ga_system = True, ga_bank = Some b\<rparr>] \<or>
       chart' = map (\<lambda>x. if ga_code x = ?code then x\<lparr>ga_bank := Some b, ga_active := True\<rparr> else x) chart1 \<or>
       chart' = chart1"
      using assms(1) False None b
      by (auto simp: bank_gl_account_def Let_def bind_res_Inr_iff split: option.splits if_splits)
    have "chart_keeps a chart1" by (rule keeps_use [OF c1(1) assms(2)])
    moreover from this have "chart_keeps a (map (\<lambda>x. if ga_code x = ?code then x\<lparr>ga_bank := Some b, ga_active := True\<rparr> else x) chart1)"
      using ne by (intro keeps_map) auto
    ultimately show ?thesis using c1(2,3) ne by (auto simp: chart_keeps_def [of _ "_ @ _"] chart_keeps_def [of _ chart1])
  qed
qed

lemma keeps_money_account:
  assumes "money_account co lg bank d = Inr (code, lg')" and "chart_keeps a (lg_chart lg)"
    and "take 4 a \<noteq> ''1500''" and "a \<noteq> ''1100''"
  shows "code \<noteq> a \<and> chart_keeps a (lg_chart lg') \<and> lg_entries lg' = lg_entries lg \<and> lg_periods lg' = lg_periods lg \<and> lg_gst lg' = lg_gst lg"
  using assms(1,4) keeps_bank [OF _ keeps_ensure [OF assms(2)] assms(3), of co bank "Some d" code] assms(2)
  by (auto simp: money_account_def Let_def bind_res_Inr_iff keeps_ensure split: option.splits)

section \<open>The contract\<close>

lemma post_chart: "post co today i lg src d ls soft pre = Inr (r, lg') \<Longrightarrow> lg_chart lg' = lg_chart lg"
  by (auto simp: post_def post_new_def Let_def guard_res_Inr_iff bind_res_Inr_iff
      split: if_splits option.splits)

lemma reverse_chart: "reverse co today i lg e d soft = Inr (r, lg') \<Longrightarrow> lg_chart lg' = lg_chart lg"
  by (auto simp: reverse_def Let_def guard_res_Inr_iff bind_res_Inr_iff dest: post_chart)

locale control_account =
  fixes own tracked :: "posting_source \<Rightarrow> bool" and acct :: string
  assumes originals: "own src \<Longrightarrow> fst src \<noteq> ''JOURNAL_REVERSAL''" and tracked_own: "tracked src \<Longrightarrow> own src"
    and no_bank: "take 4 acct \<noteq> ''1500''" and no_cash: "acct \<noteq> ''1100''"
begin

lemma keeps:
  assumes "control co own tracked acct lg D" and "lg_entries lg' = lg_entries lg" and "chart_keeps acct (lg_chart lg')"
  shows "control co own tracked acct lg' D"
proof -
  have "ledger_reachable co lg'"
    using assms(1,2) by (auto simp: control_def intro: ledger_reachable.step ledger_step.administration)
  then show ?thesis using assms by (simp add: control_def others_quiet_def tracked_docs_def balances_def foreign_def)
qed

lemma doc_posted:
  assumes "control co own tracked acct lg D" and "(src, x) \<in># D"
  obtains e where "find (same_posting src) (lg_entries lg) = Some e" "e \<in> set (lg_entries lg)"
    "je_source e = src" "je_status e = POSTED"
proof -
  have "(src, x) \<in> set (tracked_docs tracked acct lg)"
    using assms by (metis control_def set_mset_mset)
  then obtain e0 where "e0 \<in> set (lg_entries lg)" "same_posting src e0"
    by (auto simp: tracked_docs_def same_posting_def)
  then have "find (same_posting src) (lg_entries lg) \<noteq> None" by (auto simp: find_None_iff)
  then obtain e where "find (same_posting src) (lg_entries lg) = Some e" by auto
  moreover from this have "e \<in> set (lg_entries lg)" "same_posting src e" by (auto simp: find_Some_iff)
  ultimately show thesis using that by (auto simp: same_posting_def)
qed

lemma posted_doc:
  assumes "control co own tracked acct lg D" and "e \<in> set (lg_entries lg)" "je_status e = POSTED" "tracked (je_source e)"
  shows "(je_source e, net (je_lines e) acct) \<in># D"
proof -
  have "(je_source e, net (je_lines e) acct) \<in> set (tracked_docs tracked acct lg)"
    using assms(2-) by (auto simp: tracked_docs_def)
  then show ?thesis using assms(1) by (metis control_def set_mset_mset)
qed

lemma posting_adds:
  assumes c: "control co own tracked acct lg D" "posts_to_ledger co"
    and p: "post co today i lg src d ls soft pre = Inr (r, lg')"
    and i: "i \<notin> je_id ` set (lg_entries lg)" and t: "tracked src" "src \<notin> fst ` set_mset D"
    and x: "net (map normalize_line ls) acct = x" "x \<noteq> 0"
  shows "control co own tracked acct lg' (add_mset (src, x) D)"
proof -
  have reach: "ledger_reachable co lg" using c(1) by (simp add: control_def)
  have new: "src \<notin> set (posted_sources (lg_entries lg))"
  proof
    assume "src \<in> set (posted_sources (lg_entries lg))"
    then obtain e where "e \<in> set (lg_entries lg)" "je_status e = POSTED" "je_source e = src"
      by (auto simp: posted_sources_def)
    then show False using posted_doc [OF c(1)] t by force
  qed
  have step: "ledger_reachable co lg'"
    by (rule ledger_reachable.step [OF reach]) (rule ledger_step.posting [OF p originals [OF tracked_own [OF t(1)]] i])
  have bal: "balances lg' acct = balances lg acct + x"
    using posting_balances [OF reach c(2) p] new x(1) by (simp add: apply_voucher_def)
  show ?thesis
  proof (rule post_elim [OF p books_ok_reachable [OF reach c(2)]], goal_cases)
    case 1
    then have "net (map normalize_line ls) acct = 0"
      using net_nonzero [of "map normalize_line ls" acct] c(2) by (simp add: net_def)
    then show ?case using x by simp
  next
    case (2 e)
    then show ?case using new by (auto simp: posted_sources_def same_posting_def)
  next
    case (3 e)
    have "net (je_lines e) acct = x" unfolding 3(4) using x(1) net_nonzero by simp
    then show ?case using c(1) step bal 3(2,6,7) t(1) tracked_own [OF t(1)] post_chart [OF p]
      by (auto simp: control_def others_quiet_def tracked_docs_def foreign_def outside_def)
  qed
qed

lemma posting_elsewhere:
  assumes c: "control co own tracked acct lg D" "posts_to_ledger co"
    and p: "post co today i lg src d ls soft pre = Inr (r, lg')"
    and i: "i \<notin> je_id ` set (lg_entries lg)" and t: "\<not> tracked src" "fst src \<noteq> ''JOURNAL_REVERSAL''"
    and x: "own src \<Longrightarrow> net (map normalize_line ls) acct = 0"
  shows "control co own tracked acct lg' D"
proof -
  have reach: "ledger_reachable co lg" using c(1) by (simp add: control_def)
  have step: "ledger_reachable co lg'"
    by (rule ledger_reachable.step [OF reach]) (rule ledger_step.posting [OF p t(2) i])
  show ?thesis
  proof (rule post_elim [OF p books_ok_reachable [OF reach c(2)]], goal_cases)
    case 1
    then have "net (map normalize_line ls) acct = 0"
      using net_nonzero [of "map normalize_line ls" acct] c(2) by (simp add: net_def)
    then have "balances lg' acct = balances lg acct"
      using posting_balances [OF reach c(2) p] by (auto simp: apply_voucher_def split: if_splits)
    then show ?case using c(1) step 1 post_chart [OF p]
      by (auto simp: control_def others_quiet_def tracked_docs_def foreign_def)
  next
    case (2 e)
    then show ?case using c(1) by simp
  next
    case (3 e)
    have e: "net (je_lines e) acct = net (map normalize_line ls) acct" unfolding 3(4) using net_nonzero by simp
    have bal: "balances lg' acct = balances lg acct + net (je_lines e) acct"
      using 3(2,6,7) by (simp add: balances_def net_def)
    have "foreign own acct lg' = foreign own acct lg + (if own src then 0 else net (je_lines e) acct)"
      using 3(2,6,7) t(2) by (simp add: foreign_def outside_def)
    then show ?case using c(1) step bal 3(2,6,7) t(1) x e post_chart [OF p]
      by (auto simp: control_def others_quiet_def tracked_docs_def)
  qed
qed

lemma foreign_marked:
  assumes ok: "distinct (map je_id (lg_entries lg))" and e: "e \<in> set (lg_entries lg)" "je_status e = POSTED"
    and x: "fst (je_source x) = ''JOURNAL_REVERSAL''" "je_id x \<noteq> je_id e"
    and lg': "lg_entries lg' = map (mark_reversed e r) (lg_entries lg @ [x])"
  shows "foreign own acct lg' = foreign own acct lg - (if outside own e then net (je_lines e) acct else 0)"
proof -
  obtain as bs where es: "lg_entries lg = as @ e # bs" using e(1) by (auto dest: split_list)
  have other: "je_id y \<noteq> je_id e" if "y \<in> set as \<union> set bs" for y
    using ok that unfolding es by (auto simp: image_iff)
  have same: "map (mark_reversed e r) ys = ys" if "set ys \<subseteq> set as \<union> set bs" for ys
    using that other by (intro map_idI) (auto simp: mark_reversed_def)
  have "\<not> outside own (mark_reversed e r e)" "\<not> outside own (mark_reversed e r x)"
    using x by (simp_all add: outside_def mark_reversed_def)
  then show ?thesis unfolding foreign_def lg' es
    using same [of as] same [of bs] by simp
qed

lemma tracked_docs_marked:
  assumes ok: "distinct (map je_id (lg_entries lg))" and e: "e \<in> set (lg_entries lg)" "je_status e = POSTED"
    and x: "\<not> tracked (je_source x)" "je_id x \<noteq> je_id e"
    and lg': "lg_entries lg' = map (mark_reversed e r) (lg_entries lg @ [x])"
  shows "mset (tracked_docs tracked acct lg')
    = mset (tracked_docs tracked acct lg) - (if tracked (je_source e) then {#(je_source e, net (je_lines e) acct)#} else {#})"
proof -
  obtain as bs where es: "lg_entries lg = as @ e # bs" using e(1) by (auto dest: split_list)
  have other: "je_id y \<noteq> je_id e" if "y \<in> set as \<union> set bs" for y
    using ok that unfolding es by (auto simp: image_iff)
  have same: "map (mark_reversed e r) ys = ys" if "set ys \<subseteq> set as \<union> set bs" for ys
    using that other by (intro map_idI) (auto simp: mark_reversed_def)
  show ?thesis unfolding tracked_docs_def lg' es
    using same [of as] same [of bs] e(2) x by (simp add: mark_reversed_status)
qed

lemma reversing_removes:
  assumes c: "control co own tracked acct lg D" "posts_to_ledger co" and e: "e \<in> set (lg_entries lg)"
    and rv: "reverse co today i lg e d soft = Inr (r, lg')" and i: "i \<notin> je_id ` set (lg_entries lg)"
    and orig: "fst (je_source e) \<noteq> ''JOURNAL_REVERSAL''"
  shows "control co own tracked acct lg'
    (if tracked (je_source e) then D - {#(je_source e, net (je_lines e) acct)#} else D)"
proof -
  have reach: "ledger_reachable co lg" using c(1) by (simp add: control_def)
  have post: "je_status e = POSTED" using rv by (auto simp: reverse_def guard_res_Inr_iff)
  have ok: "distinct (map je_id (lg_entries lg))"
    using books_ok_reachable [OF reach c(2)] by (simp add: books_ok_def)
  show ?thesis
  proof (rule reverse_effect [OF reach c(2) e rv i], goal_cases)
    case (1 x)
    have rs: "\<not> tracked (je_source x)" "fst (je_source x) = ''JOURNAL_REVERSAL''"
      using originals [of "je_source x"] tracked_own [of "je_source x"] 1(5) by (auto simp: reversal_source_def)
    have "je_id e \<in> je_id ` set (lg_entries lg)" using e by (rule imageI)
    then have ne: "je_id x \<noteq> je_id e" using i 1(4) by metis
    have docs: "mset (tracked_docs tracked acct lg')
      = D - (if tracked (je_source e) then {#(je_source e, net (je_lines e) acct)#} else {#})"
      using tracked_docs_marked [OF ok e post rs(1) ne 1(2)] c(1) by (simp add: control_def)
    have bal: "balances lg' acct = balances lg acct - net (je_lines e) acct"
      unfolding 1(8) by (simp add: apply_voucher_def)
    have quiet: "others_quiet own tracked acct lg'"
      using c(1) rs(2) originals [of "je_source x"] unfolding others_quiet_def 1(2) control_def
      by (auto simp: mark_reversed_status others_quiet_def)
    have out: "foreign own acct lg' = foreign own acct lg - (if outside own e then net (je_lines e) acct else 0)"
      by (rule foreign_marked [OF ok e post rs(2) ne 1(2)])
    show ?case
    proof (cases "tracked (je_source e)")
      case True
      then have "(je_source e, net (je_lines e) acct) \<in># D" using posted_doc [OF c(1) e post] by simp
      then have "(\<Sum>d\<in>#D. snd d) = net (je_lines e) acct + (\<Sum>d\<in>#D - {#(je_source e, net (je_lines e) acct)#}. snd d)"
        by (subst insert_DiffM [symmetric, of _ D]) auto
      moreover have "\<not> outside own e" using tracked_own [OF True] by (simp add: outside_def)
      ultimately show ?thesis using c(1) 1(7) bal quiet docs out True reverse_chart [OF rv] by (auto simp: control_def)
    next
      case False
      have "outside own e \<or> net (je_lines e) acct = 0"
        using c(1) e post orig False by (auto simp: control_def others_quiet_def outside_def)
      then show ?thesis using c(1) 1(7) bal quiet docs out False reverse_chart [OF rv] by (auto simp: control_def)
    qed
  qed
qed

end

section \<open>Controlled ledgers\<close>

context control_account
begin

lemma doc_keys_distinct:
  assumes "control co own tracked acct lg D" and "posts_to_ledger co" and "(src, x) \<in># D"
  shows "D - {#(src, x)#} = filter_mset (\<lambda>d. fst d \<noteq> src) D"
proof -
  let ?docs = "tracked_docs tracked acct lg"
  have "distinct (posted_sources (lg_entries lg))"
    using books_ok_reachable [of co lg] assms(1,2) by (simp add: control_def books_ok_def)
  moreover have "map fst ?docs = filter tracked (posted_sources (lg_entries lg))"
    by (simp add: tracked_docs_def posted_sources_def filter_map comp_def conj_commute)
  ultimately have d: "distinct (map fst ?docs)" by simp
  have D: "D = mset ?docs" using assms(1) by (simp add: control_def)
  then have "(src, x) \<in> set ?docs" using assms(3) by simp
  then obtain as bs where ab: "?docs = as @ (src, x) # bs" by (auto dest: split_list)
  then have "\<forall>d\<in>set as \<union> set bs. fst d \<noteq> src" using d by force
  then have "filter (\<lambda>d. fst d \<noteq> src) as = as" "filter (\<lambda>d. fst d \<noteq> src) bs = bs"
    by (auto simp: filter_id_conv)
  then show ?thesis unfolding D ab by (simp flip: mset_filter)
qed

lemma doc_absent:
  assumes "src \<notin> fst ` set_mset D"
  shows "filter_mset (\<lambda>d. fst d \<noteq> src) D = D"
  using assms by (intro multiset_eqI) (auto simp: count_eq_zero_iff image_iff)

lemma reversing_filters:
  assumes c: "control co own tracked acct lg D" "posts_to_ledger co" and e: "e \<in> set (lg_entries lg)"
    and rv: "reverse co today i lg e d soft = Inr (r, lg')" and i: "i \<notin> je_id ` set (lg_entries lg)"
    and orig: "fst (je_source e) \<noteq> ''JOURNAL_REVERSAL''"
  shows "control co own tracked acct lg' (filter_mset (\<lambda>d. fst d \<noteq> je_source e) D)"
proof (cases "tracked (je_source e)")
  case True
  have "je_status e = POSTED" using rv by (auto simp: reverse_def guard_res_Inr_iff)
  from doc_keys_distinct [OF c posted_doc [OF c(1) e this True]] show ?thesis
    using reversing_removes [OF c e rv i orig] True by simp
next
  case False
  have "je_source e \<notin> fst ` set_mset D"
  proof
    assume "je_source e \<in> fst ` set_mset D"
    then have "je_source e \<in> fst ` set (tracked_docs tracked acct lg)" using c(1) by (auto simp: control_def)
    then show False using False by (auto simp: tracked_docs_def)
  qed
  then show ?thesis using reversing_removes [OF c e rv i orig] False by (simp add: doc_absent)
qed

lemma unposted_filters:
  assumes "control co own tracked acct lg D" and "find (same_posting src) (lg_entries lg) = None"
  shows "filter_mset (\<lambda>d. fst d \<noteq> src) D = D"
proof (rule doc_absent)
  show "src \<notin> fst ` set_mset D"
  proof
    assume "src \<in> fst ` set_mset D"
    then obtain x where "(src, x) \<in># D" by auto
    from doc_posted [OF assms(1) this] assms(2) show False by auto
  qed
qed

lemma post_lines_adds:
  assumes c: "control co own tracked acct lg D" "posts_to_ledger co"
    and p: "post_lines co today i lg src d ls = Inr (r, lg')"
    and i: "i \<notin> je_id ` set (lg_entries lg)" and t: "tracked src" "src \<notin> fst ` set_mset D"
    and x: "net (map normalize_line ls) acct = x" "x \<noteq> 0"
  shows "control co own tracked acct lg' (add_mset (src, x) D)"
proof -
  obtain chart where ch: "resolve_accounts (map jl_account ls) (ensure_chart (lg_chart lg)) = Inr chart"
    and q: "post co today i (lg\<lparr>lg_chart := chart\<rparr>) src d ls False False = Inr (r, lg')"
    using p by (auto simp: post_lines_def bind_res_Inr_iff)
  have "chart_keeps acct (lg_chart lg)" using c(1) by (simp add: control_def)
  then have "control co own tracked acct (lg\<lparr>lg_chart := chart\<rparr>) D"
    using keeps_resolve [OF ch keeps_ensure] by (intro keeps [OF c(1)]) simp_all
  from posting_adds [OF this c(2) q _ t x] i show ?thesis by simp
qed

lemma post_lines_elsewhere:
  assumes c: "control co own tracked acct lg D" "posts_to_ledger co"
    and p: "post_lines co today i lg src d ls = Inr (r, lg')"
    and i: "i \<notin> je_id ` set (lg_entries lg)" and t: "\<not> tracked src" "fst src \<noteq> ''JOURNAL_REVERSAL''"
    and x: "own src \<Longrightarrow> net (map normalize_line ls) acct = 0"
  shows "control co own tracked acct lg' D"
proof -
  obtain chart where ch: "resolve_accounts (map jl_account ls) (ensure_chart (lg_chart lg)) = Inr chart"
    and q: "post co today i (lg\<lparr>lg_chart := chart\<rparr>) src d ls False False = Inr (r, lg')"
    using p by (auto simp: post_lines_def bind_res_Inr_iff)
  have "chart_keeps acct (lg_chart lg)" using c(1) by (simp add: control_def)
  then have "control co own tracked acct (lg\<lparr>lg_chart := chart\<rparr>) D"
    using keeps_resolve [OF ch keeps_ensure] by (intro keeps [OF c(1)]) simp_all
  from posting_elsewhere [OF this c(2) q _ t x] i show ?thesis by simp
qed

end

end
