(* ===== verification/Money_Invariant.thy ===== *)
theory Money_Invariant
  imports Money_Documents Control_Accounts
begin

text \<open>
  What holds of the money documents at rest.  Each live receipt, refund, payment and allocation is the
  source of one journal that moves a control account: 2300 (customer advances) or 1250 (supplier
  advances).  \<open>advances\<close> and \<open>prepayments\<close> interpret \<open>control_account\<close> on these two accounts, so the
  balance of each is read off its documents; \<open>money_ok\<close> joins this with the well-formedness of the tables.
\<close>

section \<open>Documents of a table\<close>

text \<open>The journals a table of documents should have: one for each live row, keyed by its position.\<close>

definition docs_of ::
  "string \<Rightarrow> string \<Rightarrow> ('r \<Rightarrow> bool) \<Rightarrow> ('r \<Rightarrow> rat) \<Rightarrow> 'r list \<Rightarrow> (posting_source \<times> rat) list" where
  "docs_of t p live amt rows =
    map (\<lambda>i. ((t, int i, p), amt (rows ! i))) (filter (\<lambda>i. live (rows ! i)) [0..<length rows])"

lemma docs_of_append:
  "docs_of t p live amt (rows @ [r])
    = docs_of t p live amt rows @ (if live r then [((t, int (length rows), p), amt r)] else [])"
proof -
  have "filter (\<lambda>i. live ((rows @ [r]) ! i)) [0..<length rows] = filter (\<lambda>i. live (rows ! i)) [0..<length rows]"
    by (rule filter_cong) (simp_all add: nth_append)
  then show ?thesis unfolding docs_of_def by (auto simp: nth_append)
qed

lemma docs_of_update_same:
  assumes "i < length rows" and "live r = live (rows ! i)" and "amt r = amt (rows ! i)"
  shows "docs_of t p live amt (rows[i := r]) = docs_of t p live amt rows"
proof -
  have "live (rows[i := r] ! j) = live (rows ! j)" "amt (rows[i := r] ! j) = amt (rows ! j)" for j
    using assms by (cases "i = j"; simp)+
  then show ?thesis by (simp add: docs_of_def)
qed

lemma docs_of_update_dead:
  assumes "i < length rows" and "\<not> live r"
  shows "docs_of t p live amt (rows[i := r]) = filter (\<lambda>d. fst d \<noteq> (t, int i, p)) (docs_of t p live amt rows)"
proof -
  have "filter (\<lambda>j. live (rows[i := r] ! j)) [0..<length rows] = filter (\<lambda>j. j \<noteq> i \<and> live (rows ! j)) [0..<length rows]"
    by (rule filter_cong) (use assms in \<open>auto simp: nth_list_update\<close>)
  moreover have "filter (\<lambda>d. fst d \<noteq> (t, int i, p)) (docs_of t p live amt rows)
      = map (\<lambda>j. ((t, int j, p), amt (rows ! j))) (filter (\<lambda>j. j \<noteq> i \<and> live (rows ! j)) [0..<length rows])"
    by (simp add: docs_of_def filter_map comp_def conj_commute)
  moreover have "amt (rows[i := r] ! j) = amt (rows ! j)" if "j \<noteq> i" for j using that by simp
  ultimately show ?thesis by (simp add: docs_of_def)
qed

lemma docs_of_other:
  assumes "(t', p') \<noteq> (t, p)"
  shows "filter (\<lambda>d. fst d \<noteq> (t', n, p')) (docs_of t p live amt rows) = docs_of t p live amt rows"
  using assms by (auto simp: docs_of_def filter_id_conv)

lemma docs_of_absent:
  assumes "n \<in> int ` {i. i < length rows \<and> live (rows ! i)} \<Longrightarrow> (t', p') \<noteq> (t, p)"
  shows "(t', n, p') \<notin> fst ` set (docs_of t p live amt rows)"
  using assms by (auto simp: docs_of_def)

lemma docs_of_sum: "(\<Sum>d\<leftarrow>docs_of t p live amt rows. snd d) = (\<Sum>r\<leftarrow>filter live rows. amt r)"
proof -
  have "filter live rows = map ((!) rows) (filter (\<lambda>i. live (rows ! i)) [0..<length rows])"
    by (subst map_nth [symmetric, of rows]) (simp add: filter_map comp_def)
  then show ?thesis by (simp add: docs_of_def comp_def)
qed

section \<open>The two control accounts\<close>

definition customer_doc :: "posting_source \<Rightarrow> bool" where
  "customer_doc src = (case src of (t, _, p) \<Rightarrow>
     (t, p) \<in> {(''CUSTOMER_RECEIPT'', ''CREATE''), (''PAYMENT_ALLOCATION'', ''ALLOCATE_RECEIPT''),
                (''CUSTOMER_ADVANCE_REFUND'', ''CREATE'')})"

definition supplier_doc :: "posting_source \<Rightarrow> bool" where
  "supplier_doc src = (case src of (t, _, p) \<Rightarrow>
     (t, p) \<in> {(''SUPPLIER_PAYMENT'', ''CREATE''), (''PAYMENT_ALLOCATION'', ''ALLOCATE_PAYMENT'')})"

text \<open>The journals of the money documents; every other source belongs to another component.\<close>

definition money_doc :: "posting_source \<Rightarrow> bool" where
  "money_doc src = (case src of (t, _, p) \<Rightarrow>
     (t = ''CUSTOMER_RECEIPT'' \<and> (p = ''CREATE'' \<or> starts_with p ''BANK_REPOINT_'' \<or> starts_with p ''REASSIGN_'')) \<or>
     t \<in> {''PAYMENT_ALLOCATION'', ''CUSTOMER_ADVANCE_REFUND'', ''SUPPLIER_PAYMENT'', ''CHEQUE_DISHONOUR''})"

lemma doc_is_money: "customer_doc src \<Longrightarrow> money_doc src" "supplier_doc src \<Longrightarrow> money_doc src"
  by (auto simp: customer_doc_def supplier_doc_def money_doc_def)

interpretation advances: control_account money_doc customer_doc "''2300''"
  by unfold_locales (auto simp: customer_doc_def money_doc_def)

interpretation prepayments: control_account money_doc supplier_doc "''1250''"
  by unfold_locales (auto simp: supplier_doc_def money_doc_def)

definition booked ::
  "gl_company \<Rightarrow> ledger \<Rightarrow> (posting_source \<times> rat) multiset \<Rightarrow> (posting_source \<times> rat) multiset \<Rightarrow> bool" where
  "booked co lg C S = (control co money_doc customer_doc ''2300'' lg C \<and> control co money_doc supplier_doc ''1250'' lg S)"

lemma booked_keeps:
  assumes "booked co lg C S" and "lg_entries lg' = lg_entries lg"
    and "chart_keeps ''2300'' (lg_chart lg')" "chart_keeps ''1250'' (lg_chart lg')"
  shows "booked co lg' C S"
  using assms advances.keeps [of co lg C lg'] prepayments.keeps [of co lg S lg'] by (simp add: booked_def)

lemma booked_charts:
  "booked co lg C S \<Longrightarrow> chart_keeps ''2300'' (lg_chart lg) \<and> chart_keeps ''1250'' (lg_chart lg)"
  by (simp add: booked_def control_def)

lemma booked_series: "booked co lg C S \<Longrightarrow> booked co (lg\<lparr>lg_series := s\<rparr>) C S"
  by (rule booked_keeps [of co lg C S]) (simp_all add: booked_charts [of co lg C S])

lemma booked_money_account:
  assumes "booked co lg C S" and "money_account co lg bank d = Inr (code, lg')"
  shows "booked co lg' C S \<and> code \<noteq> ''2300'' \<and> code \<noteq> ''1250'' \<and> lg_entries lg' = lg_entries lg"
  using booked_charts [OF assms(1)] keeps_money_account [OF assms(2), of "''2300''"]
    keeps_money_account [OF assms(2), of "''1250''"] booked_keeps [OF assms(1), of lg'] by simp

lemma normal_net [simp]:
  "net [] a = 0"
  "net (normalize_line l # ls) a
    = (if jl_account l = a then quantize_even 2 (jl_debit l) - quantize_even 2 (jl_credit l) else 0) + net ls a"
  by (simp_all add: net_def normalize_line_def)

text \<open>The lines a document posts leave the other control account alone.\<close>

lemmas built_line = on_side_def of_customer_def of_supplier_def

lemma booked_posts:
  assumes b: "booked co lg C S" "posts_to_ledger co" and p: "post_lines co today i lg src d ls = Inr (r, lg')"
    and i: "i \<notin> je_id ` set (lg_entries lg)" and o: "fst src \<noteq> ''JOURNAL_REVERSAL''"
  shows "customer_doc src \<Longrightarrow> src \<notin> fst ` set_mset C \<Longrightarrow> net (map normalize_line ls) ''2300'' = x \<Longrightarrow> x \<noteq> 0
      \<Longrightarrow> net (map normalize_line ls) ''1250'' = 0 \<Longrightarrow> booked co lg' (add_mset (src, x) C) S"
    and "supplier_doc src \<Longrightarrow> src \<notin> fst ` set_mset S \<Longrightarrow> net (map normalize_line ls) ''1250'' = x \<Longrightarrow> x \<noteq> 0
      \<Longrightarrow> net (map normalize_line ls) ''2300'' = 0 \<Longrightarrow> booked co lg' C (add_mset (src, x) S)"
    and "\<not> customer_doc src \<Longrightarrow> \<not> supplier_doc src \<Longrightarrow> net (map normalize_line ls) ''2300'' = 0
      \<Longrightarrow> net (map normalize_line ls) ''1250'' = 0 \<Longrightarrow> booked co lg' C S"
proof -
  have apart: "\<not> (customer_doc src \<and> supplier_doc src)" by (auto simp: customer_doc_def supplier_doc_def)
  note c = b [unfolded booked_def]
  note adds = advances.post_lines_adds [OF conjunct1 [OF c(1)] c(2) p i]
    prepayments.post_lines_adds [OF conjunct2 [OF c(1)] c(2) p i]
  note leaves = advances.post_lines_elsewhere [OF conjunct1 [OF c(1)] c(2) p i _ o]
    prepayments.post_lines_elsewhere [OF conjunct2 [OF c(1)] c(2) p i _ o]
  show "booked co lg' (add_mset (src, x) C) S" if "customer_doc src" "src \<notin> fst ` set_mset C"
    "net (map normalize_line ls) ''2300'' = x" "x \<noteq> 0" "net (map normalize_line ls) ''1250'' = 0"
    using that adds(1) leaves(2) apart unfolding booked_def by blast
  show "booked co lg' C (add_mset (src, x) S)" if "supplier_doc src" "src \<notin> fst ` set_mset S"
    "net (map normalize_line ls) ''1250'' = x" "x \<noteq> 0" "net (map normalize_line ls) ''2300'' = 0"
    using that adds(2) leaves(1) apart unfolding booked_def by blast
  show "booked co lg' C S" if "\<not> customer_doc src" "\<not> supplier_doc src"
    "net (map normalize_line ls) ''2300'' = 0" "net (map normalize_line ls) ''1250'' = 0"
    using that leaves unfolding booked_def by blast
qed

lemma even_fixed_sum: "q2 x = x \<Longrightarrow> q2 y = y \<Longrightarrow> quantize_even 2 (x + y) = x + y"
  by (intro paisa_even_fixed paisa.fixed_add)

lemma booked_receipt:
  assumes b: "booked co lg C S" "posts_to_ledger co" and p: "post_receipt co today i lg v = Inr (r, lg')"
    and i: "i \<notin> je_id ` set (lg_entries lg)"
    and v: "q2 (pr_amount v) = pr_amount v" "0 < pr_amount v" "q2 (pr_tds v) = pr_tds v" "0 \<le> pr_tds v"
    and new: "(''CUSTOMER_RECEIPT'', pr_id v, ''CREATE'') \<notin> fst ` set_mset C"
  shows "booked co lg' (add_mset ((''CUSTOMER_RECEIPT'', pr_id v, ''CREATE''), - (pr_amount v + pr_tds v)) C) S"
proof -
  obtain bank lg1 where m: "money_account co lg (pr_bank v) (pr_date v) = Inr (bank, lg1)"
    and q: "post_lines co today i lg1 (''CUSTOMER_RECEIPT'', pr_id v, ''CREATE'') (pr_date v) (receipt_lines v bank) = Inr (r, lg')"
    using p by (auto simp: post_receipt_def bind_res_Inr_iff)
  note b1 = booked_money_account [OF b(1) m]
  have n: "net (map normalize_line (receipt_lines v bank)) ''2300'' = - (pr_amount v + pr_tds v)"
    "net (map normalize_line (receipt_lines v bank)) ''1250'' = 0"
    using b1 v even_fixed_sum [OF v(1,3)] paisa_even_fixed [OF v(1)]
    by (simp_all add: receipt_lines_def Let_def built_line paisa_even.zero)
  show ?thesis
    by (rule booked_posts(1) [OF conjunct1 [OF b1] b(2) q]) (use b1 i new n v in \<open>simp_all add: customer_doc_def\<close>)
qed

lemma booked_allocation:
  assumes b: "booked co lg C S" "posts_to_ledger co" and p: "post_receipt_allocation co today i lg v = Inr (r, lg')"
    and i: "i \<notin> je_id ` set (lg_entries lg)"
    and v: "q2 (pa_amount v) = pa_amount v" "0 < pa_amount v" "q2 (pa_tds v) = pa_tds v" "0 \<le> pa_tds v"
    and new: "(''PAYMENT_ALLOCATION'', pa_id v, ''ALLOCATE_RECEIPT'') \<notin> fst ` set_mset C"
  shows "booked co lg' (add_mset ((''PAYMENT_ALLOCATION'', pa_id v, ''ALLOCATE_RECEIPT''), pa_amount v + pa_tds v) C) S"
proof -
  have q: "post_lines co today i lg (''PAYMENT_ALLOCATION'', pa_id v, ''ALLOCATE_RECEIPT'')
      (opt_arg today (pa_receipt_date v)) (allocation_lines v) = Inr (r, lg')"
    using p v(2) by (simp add: post_receipt_allocation_def)
  have n: "net (map normalize_line (allocation_lines v)) ''2300'' = pa_amount v + pa_tds v"
    "net (map normalize_line (allocation_lines v)) ''1250'' = 0"
    using even_fixed_sum [OF v(1,3)] by (simp_all add: allocation_lines_def built_line paisa_even.zero)
  show ?thesis
    by (rule booked_posts(1) [OF b q i]) (use new n v in \<open>simp_all add: customer_doc_def\<close>)
qed

lemma booked_refund:
  assumes b: "booked co lg C S" "posts_to_ledger co"
    and p: "post_advance_refund co today i lg j amount mode bank customer d = Inr (r, lg')"
    and i: "i \<notin> je_id ` set (lg_entries lg)" and v: "q2 amount = amount" "0 < amount"
    and new: "(''CUSTOMER_ADVANCE_REFUND'', j, ''CREATE'') \<notin> fst ` set_mset C"
  shows "booked co lg' (add_mset ((''CUSTOMER_ADVANCE_REFUND'', j, ''CREATE''), amount) C) S"
proof -
  obtain out lg1 where m: "money_account co lg (if py_upper mode = ''CASH'' then None else bank) d = Inr (out, lg1)"
    and q: "post_lines co today i lg1 (''CUSTOMER_ADVANCE_REFUND'', j, ''CREATE'') d
         [of_customer customer (dr ''2300'' amount None), cr out amount None] = Inr (r, lg')"
    using p v(2) by (auto simp: post_advance_refund_def bind_res_Inr_iff)
  note b1 = booked_money_account [OF b(1) m]
  show ?thesis
    by (rule booked_posts(1) [OF conjunct1 [OF b1] b(2) q])
      (use b1 i new v in \<open>simp_all add: customer_doc_def built_line paisa_even.zero paisa_even_fixed\<close>)
qed

lemma booked_payment:
  assumes b: "booked co lg C S" "posts_to_ledger co" and p: "post_supplier_payment co today i lg v = Inr (r, lg')"
    and i: "i \<notin> je_id ` set (lg_entries lg)"
    and v: "q2 (py_amount v) = py_amount v" "0 < py_amount v" "q2 (py_tds v) = py_tds v" "0 \<le> py_tds v"
    and new: "(''SUPPLIER_PAYMENT'', py_id v, ''CREATE'') \<notin> fst ` set_mset S"
  shows "booked co lg' C (add_mset ((''SUPPLIER_PAYMENT'', py_id v, ''CREATE''), py_amount v + py_tds v) S)"
proof -
  obtain bank lg1 where m: "money_account co lg (py_bank v) (py_date v) = Inr (bank, lg1)"
    and q: "post_lines co today i lg1 (''SUPPLIER_PAYMENT'', py_id v, ''CREATE'') (py_date v)
      (supplier_payment_lines v bank) = Inr (r, lg')"
    using p by (auto simp: post_supplier_payment_def bind_res_Inr_iff)
  note b1 = booked_money_account [OF b(1) m]
  have n: "net (map normalize_line (supplier_payment_lines v bank)) ''1250'' = py_amount v + py_tds v"
    "net (map normalize_line (supplier_payment_lines v bank)) ''2300'' = 0"
    using b1 v even_fixed_sum [OF v(1,3)]
    by (simp_all add: supplier_payment_lines_def Let_def built_line paisa_even.zero)
  show ?thesis
    by (rule booked_posts(2) [OF conjunct1 [OF b1] b(2) q]) (use b1 i new n v in \<open>simp_all add: supplier_doc_def\<close>)
qed

lemma booked_supplier_allocation:
  assumes b: "booked co lg C S" "posts_to_ledger co"
    and p: "post_supplier_payment_allocation co today i lg k amount pay = Inr (r, lg')"
    and i: "i \<notin> je_id ` set (lg_entries lg)" and v: "q2 amount = amount" "0 < amount"
    and new: "(''PAYMENT_ALLOCATION'', k, ''ALLOCATE_PAYMENT'') \<notin> fst ` set_mset S"
  shows "booked co lg' C (add_mset ((''PAYMENT_ALLOCATION'', k, ''ALLOCATE_PAYMENT''), - amount) S)"
proof -
  define supplier where "supplier = (case pay of None \<Rightarrow> None | Some (s, _) \<Rightarrow> s)"
  obtain d where q: "post_lines co today i lg (''PAYMENT_ALLOCATION'', k, ''ALLOCATE_PAYMENT'') d
         [of_supplier supplier (dr ''2100'' amount None), of_supplier supplier (cr ''1250'' amount None)] = Inr (r, lg')"
    using p v(2) by (auto simp: post_supplier_payment_allocation_def Let_def supplier_def)
  show ?thesis
    by (rule booked_posts(2) [OF b q i])
      (use new v in \<open>simp_all add: supplier_doc_def built_line paisa_even.zero paisa_even_fixed\<close>)
qed

lemma booked_transfer:
  assumes b: "booked co lg C S" "posts_to_ledger co"
    and p: "post_receipt_party_transfer co today i lg v old new n = Inr (r, lg')"
    and i: "i \<notin> je_id ` set (lg_entries lg)"
  shows "booked co lg' C S"
proof (cases "pr_amount v + pr_tds v \<le> 0")
  case True
  then have "lg' = lg\<lparr>lg_chart := ensure_chart (lg_chart lg)\<rparr>"
    using p by (simp add: post_receipt_party_transfer_def Let_def)
  then show ?thesis using booked_charts [OF b(1)]
    by (intro booked_keeps [OF b(1)]) (simp_all add: keeps_ensure)
next
  case False
  then have q: "post_lines co today i lg (''CUSTOMER_RECEIPT'', pr_id v, ''REASSIGN_'' @ show_nat n) today
      [of_customer old (dr ''2300'' (pr_amount v + pr_tds v) None),
       of_customer new (cr ''2300'' (pr_amount v + pr_tds v) None)] = Inr (r, lg')"
    using p by (simp add: post_receipt_party_transfer_def Let_def)
  show ?thesis
    by (rule booked_posts(3) [OF b q i]) (simp_all add: customer_doc_def supplier_doc_def built_line paisa_even.zero)
qed

lemma booked_repoint:
  assumes b: "booked co lg C S" "posts_to_ledger co"
    and p: "post_receipt_bank_repoint co today i lg v old new n = Inr (r, lg')"
    and i: "i \<notin> je_id ` set (lg_entries lg)"
  shows "booked co lg' C S"
proof (cases "pr_amount v - gateway_fee v \<le> 0")
  case True
  then have "lg' = lg\<lparr>lg_chart := ensure_chart (lg_chart lg)\<rparr>"
    using p by (simp add: post_receipt_bank_repoint_def Let_def)
  then show ?thesis using booked_charts [OF b(1)]
    by (intro booked_keeps [OF b(1)]) (simp_all add: keeps_ensure)
next
  case False
  then obtain old_acct lg1 new_acct lg2 where m1: "money_account co lg old (pr_date v) = Inr (old_acct, lg1)"
    and m2: "money_account co lg1 new (pr_date v) = Inr (new_acct, lg2)"
    and q: "(if old_acct = new_acct then Inr (None, lg2)
       else post_lines co today i lg2 (''CUSTOMER_RECEIPT'', pr_id v, ''BANK_REPOINT_'' @ show_nat n) (pr_date v)
              [dr new_acct (pr_amount v - gateway_fee v) None, cr old_acct (pr_amount v - gateway_fee v) None]) = Inr (r, lg')"
    using p by (auto simp: post_receipt_bank_repoint_def Let_def bind_res_Inr_iff)
  note b1 = booked_money_account [OF b(1) m1]
  note b2 = booked_money_account [OF conjunct1 [OF b1] m2]
  show ?thesis
  proof (cases "old_acct = new_acct")
    case True
    then show ?thesis using q b2 by simp
  next
    case False
    then have "post_lines co today i lg2 (''CUSTOMER_RECEIPT'', pr_id v, ''BANK_REPOINT_'' @ show_nat n) (pr_date v)
        [dr new_acct (pr_amount v - gateway_fee v) None, cr old_acct (pr_amount v - gateway_fee v) None] = Inr (r, lg')"
      using q by simp
    then show ?thesis
      by (rule booked_posts(3) [OF conjunct1 [OF b2] b(2)])
        (use b1 b2 i in \<open>simp_all add: customer_doc_def supplier_doc_def built_line paisa_even.zero\<close>)
  qed
qed

lemma booked_elsewhere:
  assumes b: "booked co lg C S" "posts_to_ledger co" and p: "post co today i lg src d ls soft pre = Inr (r, lg')"
    and i: "i \<notin> je_id ` set (lg_entries lg)"
    and src: "\<not> customer_doc src" "\<not> supplier_doc src" "fst src \<noteq> ''JOURNAL_REVERSAL''"
    and ls: "money_doc src \<Longrightarrow> net (map normalize_line ls) ''2300'' = 0 \<and> net (map normalize_line ls) ''1250'' = 0"
  shows "booked co lg' C S"
  using b p i src ls advances.posting_elsewhere [of co lg C today i src d ls soft pre r lg']
    prepayments.posting_elsewhere [of co lg S today i src d ls soft pre r lg']
  by (simp add: booked_def)

lemma booked_fee:
  assumes b: "booked (mc_books co) lg C S" "posts_to_ledger (mc_books co)"
    and p: "post_dishonour_fee co today key i v fee lg = Inr (r, lg')" and k: "fresh_keys key"
  shows "booked (mc_books co) lg' C S"
proof -
  obtain chart where ch: "resolve_accounts [''1200'', ''5200''] (ensure_chart (lg_chart lg)) = Inr chart"
    and q: "post (mc_books co) today (key lg) (lg\<lparr>lg_chart := chart\<rparr>) (''CHEQUE_DISHONOUR'', int i, ''DISHONOUR_FEE'')
      today [of_customer (Some (cu_id (cr_customer v))) (dr ''1200'' fee None), cr ''5200'' fee None] True False = Inr (r, lg')"
    using p by (auto simp: post_dishonour_fee_def bind_res_Inr_iff)
  have "booked (mc_books co) (lg\<lparr>lg_chart := chart\<rparr>) C S"
    using booked_charts [OF b(1)] keeps_resolve [OF ch keeps_ensure] by (intro booked_keeps [OF b(1)]) simp_all
  then show ?thesis
    by (rule booked_elsewhere [OF _ b(2) q])
      (use k in \<open>simp_all add: fresh_keys_def customer_doc_def supplier_doc_def built_line\<close>)
qed

section \<open>Taking journals back\<close>

text \<open>Books without the documents of one source, and without those of a list of sources.\<close>

abbreviation without :: "posting_source \<Rightarrow> (posting_source \<times> rat) multiset \<Rightarrow> (posting_source \<times> rat) multiset" where
  "without src \<equiv> filter_mset (\<lambda>d. fst d \<noteq> src)"

lemma booked_reverse:
  assumes b: "booked co lg C S" "posts_to_ledger co" and e: "e \<in> set (lg_entries lg)"
    and rv: "reverse co today i lg e d soft = Inr (r, lg')" and i: "i \<notin> je_id ` set (lg_entries lg)"
    and o: "fst (je_source e) \<noteq> ''JOURNAL_REVERSAL''"
  shows "booked co lg' (without (je_source e) C) (without (je_source e) S)"
  using b advances.reversing_filters [OF _ b(2) e rv i o] prepayments.reversing_filters [OF _ b(2) e rv i o]
  by (simp add: booked_def)

lemma booked_reverse_posted:
  assumes b: "booked (mc_books co) lg C S" "posts_to_ledger (mc_books co)"
    and rv: "reverse_posted co today key d src lg = Inr lg'" and k: "fresh_keys key"
    and o: "fst src \<noteq> ''JOURNAL_REVERSAL''"
  shows "booked (mc_books co) lg' (without src C) (without src S)"
proof (cases "find (same_posting src) (lg_entries lg)")
  case None
  then have "lg' = lg" using rv by (simp add: reverse_posted_def)
  then show ?thesis
    using b(1) None advances.unposted_filters [of "mc_books co" lg C src]
      prepayments.unposted_filters [of "mc_books co" lg S src] by (simp add: booked_def)
next
  case (Some e)
  then have e: "e \<in> set (lg_entries lg)" "je_source e = src"
    by (auto simp: find_Some_iff same_posting_def)
  obtain r where "reverse (mc_books co) today (key lg) lg e (Some (d e)) None = Inr (r, lg')"
    using rv Some by (auto simp: reverse_posted_def bind_res_Inr_iff)
  from booked_reverse [OF b e(1) this] show ?thesis using k o e(2) by (simp add: fresh_keys_def)
qed

lemma reverse_leaves_others:
  assumes "ledger_reachable co lg" "posts_to_ledger co" "e \<in> set (lg_entries lg)"
    and "reverse co today i lg e d soft = Inr (r, lg')" "i \<notin> je_id ` set (lg_entries lg)"
    and "x \<in> set (lg_entries lg)" "x \<noteq> e"
  shows "x \<in> set (lg_entries lg')"
proof (rule reverse_effect [OF assms(1-5)], goal_cases)
  case (1 y)
  have "je_id x \<noteq> je_id e"
    using books_ok_reachable [OF assms(1,2)] assms(3,6,7) by (auto simp: books_ok_def distinct_map inj_on_def)
  then have "mark_reversed e r x = x" by (simp add: mark_reversed_def)
  then show ?case unfolding 1(2) using assms(6) by force
qed

lemma booked_reverse_other:
  assumes b: "booked co lg C S" "posts_to_ledger co" and e: "e \<in> set (lg_entries lg)"
    and rv: "reverse co today i lg e d soft = Inr (r, lg')" and i: "i \<notin> je_id ` set (lg_entries lg)"
    and src: "\<not> customer_doc (je_source e)" "\<not> supplier_doc (je_source e)" "fst (je_source e) \<noteq> ''JOURNAL_REVERSAL''"
  shows "booked co lg' C S"
  using b(1) advances.reversing_removes [OF _ b(2) e rv i src(3)]
    prepayments.reversing_removes [OF _ b(2) e rv i src(3)] src(1,2) by (simp add: booked_def)

lemma booked_reverse_list:
  assumes "booked (mc_books co) lg C S" "posts_to_ledger (mc_books co)" "fresh_keys key"
    and "fold_res (\<lambda>e lg. bind_res (reverse (mc_books co) today (key lg) lg e (Some d) None) (\<lambda>(_, lg'). Inr lg')) es lg = Inr lg'"
    and "set es \<subseteq> set (lg_entries lg)" "distinct es"
    and "\<And>e. e \<in> set es \<Longrightarrow> \<not> customer_doc (je_source e) \<and> \<not> supplier_doc (je_source e) \<and> fst (je_source e) \<noteq> ''JOURNAL_REVERSAL''"
  shows "booked (mc_books co) lg' C S"
  using assms(1,4-)
proof (induction es arbitrary: lg)
  case Nil
  then show ?case by simp
next
  case (Cons e es)
  then obtain r lg1 where rv: "reverse (mc_books co) today (key lg) lg e (Some d) None = Inr (r, lg1)"
    and rest: "fold_res (\<lambda>e lg. bind_res (reverse (mc_books co) today (key lg) lg e (Some d) None) (\<lambda>(_, lg'). Inr lg')) es lg1 = Inr lg'"
    by (auto simp: bind_res_Inr_iff)
  have e: "e \<in> set (lg_entries lg)" "key lg \<notin> je_id ` set (lg_entries lg)"
    using Cons.prems(3) assms(3) by (auto simp: fresh_keys_def)
  have reach: "ledger_reachable (mc_books co) lg" using Cons.prems(1) by (simp add: booked_def control_def)
  have src: "\<not> customer_doc (je_source e)" "\<not> supplier_doc (je_source e)" "fst (je_source e) \<noteq> ''JOURNAL_REVERSAL''"
    using Cons.prems(5) by auto
  have "booked (mc_books co) lg1 C S"
    by (rule booked_reverse_other [OF Cons.prems(1) assms(2) e(1) rv e(2) src])
  moreover have "set es \<subseteq> set (lg_entries lg1)"
  proof
    fix x assume "x \<in> set es"
    then show "x \<in> set (lg_entries lg1)"
      using reverse_leaves_others [OF reach assms(2) e(1) rv e(2)] Cons.prems(3,4) by auto
  qed
  ultimately show ?case using Cons.IH [OF _ rest] Cons.prems(4,5) by simp
qed

section \<open>Well-formed money\<close>

definition customer_docs :: "money_state \<Rightarrow> (posting_source \<times> rat) list" where
  "customer_docs st =
    docs_of ''CUSTOMER_RECEIPT'' ''CREATE'' (\<lambda>r. cr_status r = Rc_Posted) (\<lambda>r. - (cr_amount r + cr_tds r)) (ms_receipts st)
    @ docs_of ''PAYMENT_ALLOCATION'' ''ALLOCATE_RECEIPT'' (\<lambda>a. al_receipt a \<noteq> None \<and> \<not> al_reversed a)
        (\<lambda>a. al_amount a + al_tds a) (db_allocs (ms_money st))
    @ docs_of ''CUSTOMER_ADVANCE_REFUND'' ''CREATE'' ar_posted ar_amount (ms_refunds st)"

definition supplier_docs :: "money_state \<Rightarrow> (posting_source \<times> rat) list" where
  "supplier_docs st =
    docs_of ''SUPPLIER_PAYMENT'' ''CREATE'' so_posted (\<lambda>p. so_amount p + so_tds p) (ms_payments st)
    @ docs_of ''PAYMENT_ALLOCATION'' ''ALLOCATE_PAYMENT'' (\<lambda>a. al_payment a \<noteq> None \<and> \<not> al_reversed a)
        (\<lambda>a. - al_amount a) (db_allocs (ms_money st))"

definition paise :: "rat \<Rightarrow> bool" where
  "paise x = (q2 x = x \<and> 0 \<le> x)"

definition receipt_fine :: "customer_receipt \<Rightarrow> bool" where
  "receipt_fine r = (paise (cr_amount r) \<and> 0 < cr_amount r \<and> paise (cr_tds r) \<and> paise (cr_discount r)
     \<and> (cr_cheque r = Bounced \<longrightarrow> cr_status r = Rc_Voided))"

definition payment_fine :: "paid_out \<Rightarrow> bool" where
  "payment_fine p = (paise (so_amount p) \<and> 0 < so_amount p \<and> paise (so_tds p)
     \<and> (so_cheque p = Bounced \<longrightarrow> \<not> so_posted p))"

definition posted_receipt_at :: "money_state \<Rightarrow> int \<Rightarrow> bool" where
  "posted_receipt_at st n =
    (0 \<le> n \<and> nat n < length (ms_receipts st) \<and> cr_status (ms_receipts st ! nat n) = Rc_Posted)"

definition posted_payment_at :: "money_state \<Rightarrow> int \<Rightarrow> bool" where
  "posted_payment_at st n = (0 \<le> n \<and> nat n < length (ms_payments st) \<and> so_posted (ms_payments st ! nat n))"

text \<open>A live allocation belongs to one posted document of one side.\<close>

definition allocation_fine :: "money_state \<Rightarrow> allocation \<Rightarrow> bool" where
  "allocation_fine st a =
    ((al_receipt a = None) = (al_payment a \<noteq> None) \<and>
     (\<not> al_reversed a \<longrightarrow> paise (al_amount a) \<and> 0 < al_amount a \<and> paise (al_tds a) \<and> paise (al_discount a) \<and>
        (\<forall>n. al_receipt a = Some n \<longrightarrow> posted_receipt_at st n) \<and>
        (\<forall>n. al_payment a = Some n \<longrightarrow> posted_payment_at st n)))"

definition refund_fine :: "money_state \<Rightarrow> advance_refund \<Rightarrow> bool" where
  "refund_fine st f = (ar_posted f \<longrightarrow> paise (ar_amount f) \<and> 0 < ar_amount f \<and> posted_receipt_at st (int (ar_receipt f)))"

text \<open>No receipt and no payment is spent beyond what it holds.\<close>

definition never_overspent :: "money_company \<Rightarrow> money_state \<Rightarrow> bool" where
  "never_overspent co st =
    ((\<forall>i<length (ms_receipts st). receipt_ok (money_tables st) (receipt_view co st i)) \<and>
     (\<forall>i<length (ms_payments st). supplier_allocated (money_tables st) (payment_view co st i)
        \<le> so_amount (ms_payments st ! i) + so_tds (ms_payments st ! i)))"

definition tables_ok :: "money_company \<Rightarrow> money_state \<Rightarrow> bool" where
  "tables_ok co st =
    (list_all receipt_fine (ms_receipts st) \<and> list_all payment_fine (ms_payments st) \<and>
     list_all (allocation_fine st) (db_allocs (ms_money st)) \<and> list_all (refund_fine st) (ms_refunds st) \<and>
     never_overspent co st)"

definition books_agree :: "money_company \<Rightarrow> money_state \<Rightarrow> bool" where
  "books_agree co st = booked (mc_books co) (ms_ledger st) (mset (customer_docs st)) (mset (supplier_docs st))"

definition money_ok :: "money_company \<Rightarrow> money_state \<Rightarrow> bool" where
  "money_ok co st = (tables_ok co st \<and> books_agree co st)"

section \<open>Facts about the tables\<close>

lemma money_tables_simps [simp]:
  "db_allocs (money_tables st) = db_allocs (ms_money st)"
  "db_refunds (money_tables st) = map (\<lambda>r. (int (ar_receipt r), ar_posted r, ar_amount r)) (ms_refunds st)"
  by (simp_all add: money_tables_def)

lemma receipt_view_simps [simp]:
  "rc_pk (receipt_view co st i) = int i" "rc_amount (receipt_view co st i) = cr_amount (ms_receipts st ! i)"
  "rc_discount (receipt_view co st i) = cr_discount (ms_receipts st ! i)"
  "rc_tds (receipt_view co st i) = cr_tds (ms_receipts st ! i)"
  "rc_posted (receipt_view co st i) = (cr_status (ms_receipts st ! i) = Rc_Posted)"
  by (simp_all add: receipt_view_def Let_def)

lemma payment_view_simps [simp]:
  "sp_pk (payment_view co st i) = int i" "sp_amount (payment_view co st i) = so_amount (ms_payments st ! i)"
  "sp_tds (payment_view co st i) = so_tds (ms_payments st ! i)"
  "sp_posted (payment_view co st i) = so_posted (ms_payments st ! i)"
  by (simp_all add: payment_view_def Let_def)

lemma refunded_of_state:
  "refunded_total (money_tables st) rc
    = (\<Sum>f\<leftarrow>filter (\<lambda>f. int (ar_receipt f) = rc_pk rc \<and> ar_posted f) (ms_refunds st). ar_amount f)"
  unfolding refunded_total_def by (simp add: filter_map comp_def)

lemma live_totals_cong:
  "rc_pk rc = rc_pk rc' \<Longrightarrow> db_allocs db = db_allocs db' \<Longrightarrow> live_totals_of db rc = live_totals_of db' rc'"
  by (simp add: live_totals_of_def)

lemma refunded_cong:
  "rc_pk rc = rc_pk rc' \<Longrightarrow> db_refunds db = db_refunds db' \<Longrightarrow> refunded_total db rc = refunded_total db' rc'"
  by (simp add: refunded_total_def)

lemma receipt_ok_cong:
  assumes "rc_pk rc = rc_pk rc'" "rc_amount rc = rc_amount rc'" "rc_discount rc = rc_discount rc'" "rc_tds rc = rc_tds rc'"
    and "db_allocs db = db_allocs db'" "db_refunds db = db_refunds db'"
  shows "receipt_ok db rc = receipt_ok db' rc'"
  using live_totals_cong [OF assms(1,5)] refunded_cong [OF assms(1,6)] assms(2-4)
  by (simp add: receipt_ok_def)

text \<open>Changes that leave the amounts, the statuses and the rows of the other tables alone.\<close>

definition alike :: "money_state \<Rightarrow> money_state \<Rightarrow> bool" where
  "alike st st' =
    (ms_refunds st' = ms_refunds st \<and> db_allocs (ms_money st') = db_allocs (ms_money st) \<and>
     list_all2 (\<lambda>r r'. cr_amount r' = cr_amount r \<and> cr_tds r' = cr_tds r \<and> cr_discount r' = cr_discount r
       \<and> cr_status r' = cr_status r \<and> (cr_cheque r' = Bounced \<longrightarrow> cr_cheque r = Bounced \<or> cr_status r = Rc_Voided))
       (ms_receipts st) (ms_receipts st') \<and>
     list_all2 (\<lambda>p p'. so_amount p' = so_amount p \<and> so_tds p' = so_tds p \<and> so_posted p' = so_posted p
       \<and> (so_cheque p' = Bounced \<longrightarrow> so_cheque p = Bounced \<or> \<not> so_posted p))
       (ms_payments st) (ms_payments st'))"

lemma docs_of_cong:
  assumes "list_all2 (\<lambda>r r'. live r' = live r \<and> amt r' = amt r) rows rows'"
  shows "docs_of t p live amt rows' = docs_of t p live amt rows"
proof -
  have len: "length rows' = length rows" and each: "\<And>i. i < length rows \<Longrightarrow> live (rows' ! i) = live (rows ! i) \<and> amt (rows' ! i) = amt (rows ! i)"
    using assms by (auto simp: list_all2_conv_all_nth)
  have "filter (\<lambda>i. live (rows' ! i)) [0..<length rows] = filter (\<lambda>i. live (rows ! i)) [0..<length rows]"
    by (rule filter_cong) (simp_all add: each)
  then show ?thesis unfolding docs_of_def len by (auto simp: each)
qed

lemma alike_docs:
  assumes "alike st st'"
  shows "customer_docs st' = customer_docs st" "supplier_docs st' = supplier_docs st"
proof -
  have "list_all2 (\<lambda>r r'. (cr_status r' = Rc_Posted) = (cr_status r = Rc_Posted)
      \<and> - (cr_amount r' + cr_tds r') = - (cr_amount r + cr_tds r)) (ms_receipts st) (ms_receipts st')"
    "list_all2 (\<lambda>p p'. so_posted p' = so_posted p \<and> so_amount p' + so_tds p' = so_amount p + so_tds p)
      (ms_payments st) (ms_payments st')"
    using assms unfolding alike_def by (auto elim!: list_all2_mono)
  from docs_of_cong [OF this(1)] docs_of_cong [OF this(2)] assms
  show "customer_docs st' = customer_docs st" "supplier_docs st' = supplier_docs st"
    by (simp_all add: customer_docs_def supplier_docs_def alike_def)
qed

lemma alike_tables:
  assumes "alike st st'" and "tables_ok co st"
  shows "tables_ok co st'"
proof -
  have len: "length (ms_receipts st') = length (ms_receipts st)" "length (ms_payments st') = length (ms_payments st)"
    and r: "\<And>i. i < length (ms_receipts st) \<Longrightarrow> cr_amount (ms_receipts st' ! i) = cr_amount (ms_receipts st ! i)
       \<and> cr_tds (ms_receipts st' ! i) = cr_tds (ms_receipts st ! i) \<and> cr_discount (ms_receipts st' ! i) = cr_discount (ms_receipts st ! i)
       \<and> cr_status (ms_receipts st' ! i) = cr_status (ms_receipts st ! i)
       \<and> (cr_cheque (ms_receipts st' ! i) = Bounced \<longrightarrow> cr_cheque (ms_receipts st ! i) = Bounced \<or> cr_status (ms_receipts st ! i) = Rc_Voided)"
    and p: "\<And>i. i < length (ms_payments st) \<Longrightarrow> so_amount (ms_payments st' ! i) = so_amount (ms_payments st ! i)
       \<and> so_tds (ms_payments st' ! i) = so_tds (ms_payments st ! i) \<and> so_posted (ms_payments st' ! i) = so_posted (ms_payments st ! i)
       \<and> (so_cheque (ms_payments st' ! i) = Bounced \<longrightarrow> so_cheque (ms_payments st ! i) = Bounced \<or> \<not> so_posted (ms_payments st ! i))"
    and same: "ms_refunds st' = ms_refunds st" "db_allocs (ms_money st') = db_allocs (ms_money st)"
    using assms(1) by (auto simp: alike_def list_all2_conv_all_nth)
  have at: "posted_receipt_at st' = posted_receipt_at st" "posted_payment_at st' = posted_payment_at st"
    by (auto simp: posted_receipt_at_def posted_payment_at_def fun_eq_iff len r p)
  have "allocation_fine st' = allocation_fine st" "refund_fine st' = refund_fine st"
    by (simp_all add: fun_eq_iff allocation_fine_def refund_fine_def at)
  moreover have "list_all receipt_fine (ms_receipts st')" "list_all payment_fine (ms_payments st')"
    using assms(2) r p unfolding tables_ok_def list_all_length len
    by (auto simp: receipt_fine_def payment_fine_def)
  moreover have "receipt_ok (money_tables st') (receipt_view co st' i) = receipt_ok (money_tables st) (receipt_view co st i)"
    if "i < length (ms_receipts st)" for i
    by (rule receipt_ok_cong) (simp_all add: r that same)
  moreover have "supplier_allocated (money_tables st') (payment_view co st' i) = supplier_allocated (money_tables st) (payment_view co st i)"
    for i by (simp add: supplier_allocated_def same)
  ultimately show ?thesis using assms(2) by (simp add: tables_ok_def never_overspent_def same len p)
qed

lemma alike_money:
  assumes "alike st st'" and "money_ok co st" and "ms_ledger st' = ms_ledger st"
  shows "money_ok co st'"
  using assms alike_tables [OF assms(1)] alike_docs [OF assms(1)] by (simp add: money_ok_def books_agree_def)

section \<open>New rows\<close>

lemma book_elim:
  assumes "book co f st = Inr st'" and "posts_to_ledger (mc_books co)"
  obtains r lg where "f (ms_ledger st) = Inr (r, lg)" "st' = st\<lparr>ms_ledger := lg\<rparr>"
  using assms by (auto simp: book_def bind_res_Inr_iff)

lemma unbook_elim:
  assumes "unbook co f st = Inr st'" and "posts_to_ledger (mc_books co)"
  obtains lg where "f (ms_ledger st) = Inr lg" "st' = st\<lparr>ms_ledger := lg\<rparr>"
  using assms by (auto simp: unbook_def bind_res_Inr_iff)

text \<open>The ledger plays no part in the tables.\<close>

lemma ledger_apart [simp]:
  "money_tables (st\<lparr>ms_ledger := lg\<rparr>) = money_tables st" "customer_docs (st\<lparr>ms_ledger := lg\<rparr>) = customer_docs st"
  "supplier_docs (st\<lparr>ms_ledger := lg\<rparr>) = supplier_docs st"
  by (simp_all add: money_tables_def customer_docs_def supplier_docs_def)

lemma tables_ledger [simp]: "tables_ok co (st\<lparr>ms_ledger := lg\<rparr>) = tables_ok co st"
proof -
  have "alike st (st\<lparr>ms_ledger := lg\<rparr>)" "alike (st\<lparr>ms_ledger := lg\<rparr>) st"
    by (simp_all add: alike_def list_all2_refl)
  then show ?thesis using alike_tables by blast
qed

lemma no_live_beyond:
  assumes "tables_ok co st" "length (ms_receipts st) \<le> i"
  shows "filter (\<lambda>a. al_receipt a = Some (int i) \<and> \<not> al_reversed a) (db_allocs (ms_money st)) = []"
    and "filter (\<lambda>f. int (ar_receipt f) = int i \<and> ar_posted f) (ms_refunds st) = []"
proof -
  show "filter (\<lambda>a. al_receipt a = Some (int i) \<and> \<not> al_reversed a) (db_allocs (ms_money st)) = []"
    using assms by (auto simp: filter_empty_conv tables_ok_def list_all_iff allocation_fine_def posted_receipt_at_def)
  show "filter (\<lambda>f. int (ar_receipt f) = int i \<and> ar_posted f) (ms_refunds st) = []"
    using assms by (auto simp: filter_empty_conv tables_ok_def list_all_iff refund_fine_def posted_receipt_at_def)
qed

lemma tables_add_receipt:
  assumes ok: "tables_ok co st" and row: "receipt_fine row"
  shows "tables_ok co (st\<lparr>ms_receipts := ms_receipts st @ [row]\<rparr>)"
proof -
  let ?st = "st\<lparr>ms_receipts := ms_receipts st @ [row]\<rparr>"
  have at: "posted_receipt_at st n \<Longrightarrow> posted_receipt_at ?st n" "posted_payment_at ?st n = posted_payment_at st n" for n
    by (auto simp: posted_receipt_at_def posted_payment_at_def nth_append)
  have "allocation_fine st a \<Longrightarrow> allocation_fine ?st a" "refund_fine st f \<Longrightarrow> refund_fine ?st f" for a f
    using at by (auto simp: allocation_fine_def refund_fine_def)
  moreover have "receipt_ok (money_tables ?st) (receipt_view co ?st i)" if "i < length (ms_receipts ?st)" for i
  proof (cases "i < length (ms_receipts st)")
    case True
    have "receipt_ok (money_tables ?st) (receipt_view co ?st i) = receipt_ok (money_tables st) (receipt_view co st i)"
      by (rule receipt_ok_cong) (simp_all add: nth_append True)
    then show ?thesis using ok True by (simp add: tables_ok_def never_overspent_def)
  next
    case False
    then have i: "i = length (ms_receipts st)" using that by simp
    note none = no_live_beyond [OF ok, of i, unfolded i, OF order_refl]
    have "refunded_total (money_tables ?st) (receipt_view co ?st i) = 0"
      unfolding refunded_of_state using none(2) i by simp
    then show ?thesis using none(1) row i
      by (simp add: receipt_ok_def live_totals_of_def receipt_fine_def paise_def)
  qed
  moreover have "supplier_allocated (money_tables ?st) (payment_view co ?st i) = supplier_allocated (money_tables st) (payment_view co st i)"
    for i by (simp add: supplier_allocated_def)
  ultimately show ?thesis using ok row by (auto simp: tables_ok_def never_overspent_def list_all_iff)
qed

lemma even_is_paise: "paise (quantize_even 2 x) \<longleftrightarrow> 0 \<le> quantize_even 2 x"
proof -
  have "q2 (quantize_even 2 x) = quantize_even 2 x" by (metis paisa.fix_grid paisa_even.on_grid)
  then show ?thesis by (simp add: paise_def)
qed

lemma receipt_row_fields:
  "cr_amount (receipt_row rq d utr bank number) = quantize_even 2 (rq_amount rq)"
  "cr_customer (receipt_row rq d utr bank number) = rq_customer rq"
  "cr_tds (receipt_row rq d utr bank number) = quantize_even 2 (rq_tds rq)"
  "cr_discount (receipt_row rq d utr bank number) = quantize_even 2 (rq_discount rq)"
  "cr_date (receipt_row rq d utr bank number) = d" "cr_mode (receipt_row rq d utr bank number) = rq_mode rq"
  "cr_status (receipt_row rq d utr bank number) = Rc_Posted"
  "cr_cheque (receipt_row rq d utr bank number) \<noteq> Bounced"
  by (simp_all add: receipt_row_def Let_def)

lemma receipt_row_fine:
  assumes "0 < quantize_even 2 (rq_amount rq)" "0 \<le> quantize_even 2 (rq_discount rq)" "0 \<le> quantize_even 2 (rq_tds rq)"
  shows "receipt_fine (receipt_row rq d utr bank number)"
  using assms by (simp add: receipt_fine_def receipt_row_def Let_def even_is_paise)

lemma fresh_key: "fresh_keys key \<Longrightarrow> key lg \<notin> je_id ` set (lg_entries lg)"
  by (simp add: fresh_keys_def)

lemma create_receipt_elim:
  assumes "create_receipt co today key rq st = Inr (st', w)"
  obtains row series where "receipt_fine row" "cr_status row = Rc_Posted" "cr_cheque row \<noteq> Bounced"
    "book co (\<lambda>lg. post_receipt (mc_books co) today (key lg) lg (receipt_voucher (length (ms_receipts st)) row))
       (st\<lparr>ms_receipts := ms_receipts st @ [row], ms_ledger := (ms_ledger st)\<lparr>lg_series := series\<rparr>\<rparr>) = Inr st'"
    "cr_amount row = quantize_even 2 (rq_amount rq)" "cr_customer row = rq_customer rq" "cr_tds row = quantize_even 2 (rq_tds rq)"
    "cr_discount row = quantize_even 2 (rq_discount rq)" "cr_date row = opt_arg today (rq_date rq)" "cr_mode row = rq_mode rq"
proof -
  obtain utr bank number series where
    "0 < quantize_even 2 (rq_amount rq)" "0 \<le> quantize_even 2 (rq_discount rq)" "0 \<le> quantize_even 2 (rq_tds rq)"
    "book co (\<lambda>lg. post_receipt (mc_books co) today (key lg) lg
        (receipt_voucher (length (ms_receipts st)) (receipt_row rq (opt_arg today (rq_date rq)) utr bank number)))
       (st\<lparr>ms_receipts := ms_receipts st @ [receipt_row rq (opt_arg today (rq_date rq)) utr bank number],
           ms_ledger := (ms_ledger st)\<lparr>lg_series := series\<rparr>\<rparr>) = Inr st'"
    using assms unfolding create_receipt_def Let_def guard_res_Inr_iff bind_res_Inr_iff
    by (auto simp: not_le not_less guard_res_Inr_iff bind_res_Inr_iff)
  then show thesis
    by (intro that [of "receipt_row rq (opt_arg today (rq_date rq)) utr bank number" series])
      (simp_all add: receipt_row_fine receipt_row_fields)
qed

lemma create_receipt_keeps:
  assumes "create_receipt co today key rq st = Inr (st', w)" and ok: "money_ok co st"
    and co: "posts_to_ledger (mc_books co)" "fresh_keys key"
  shows "money_ok co st'"
proof (rule create_receipt_elim [OF assms(1)], goal_cases)
  case (1 row series)
  let ?i = "length (ms_receipts st)"
  let ?src = "(''CUSTOMER_RECEIPT'', int ?i, ''CREATE'')"
  let ?lg = "(ms_ledger st)\<lparr>lg_series := series\<rparr>"
  obtain r lg where p: "post_receipt (mc_books co) today (key ?lg) ?lg (receipt_voucher ?i row) = Inr (r, lg)"
    and st': "st' = st\<lparr>ms_receipts := ms_receipts st @ [row], ms_ledger := lg\<rparr>"
    by (rule book_elim [OF 1(4) co(1)]) simp
  have b: "booked (mc_books co) ?lg (mset (customer_docs st)) (mset (supplier_docs st))"
    using ok by (simp add: money_ok_def books_agree_def booked_series)
  have new: "?src \<notin> fst ` set (customer_docs st)"
    by (auto simp: customer_docs_def docs_of_def)
  have "booked (mc_books co) lg (add_mset (?src, - (cr_amount row + cr_tds row)) (mset (customer_docs st))) (mset (supplier_docs st))"
    using booked_receipt [OF b co(1) p fresh_key [OF co(2)]] 1(1) new
    by (simp add: receipt_voucher_def receipt_fine_def paise_def)
  moreover have "mset (customer_docs st') = add_mset (?src, - (cr_amount row + cr_tds row)) (mset (customer_docs st))"
    "supplier_docs st' = supplier_docs st"
    unfolding st' customer_docs_def supplier_docs_def by (simp_all add: docs_of_append 1(2))
  moreover have "tables_ok co st'"
    using tables_add_receipt [OF _ 1(1), of co st] ok unfolding st' money_ok_def by simp
  ultimately show ?case unfolding st' money_ok_def books_agree_def by simp
qed

end
