(* ===== verification/Money_Operations.thy ===== *)
theory Money_Operations
  imports Money_Invariant
begin

text \<open>
  Every operation on money documents keeps \<open>money_ok\<close>: applying, unapplying, voiding, correcting,
  refunding, cheques, and the supplier side.  Each operation has an elimination lemma that names the
  states it passes through and a lemma \<open>..._keeps\<close>; refusals raise an error and leave no state.
\<close>

section \<open>Allocations\<close>

lemma shares_paise:
  assumes "shares_for rc c live r = (d, t)" and "paise (rc_discount rc)" "paise (rc_tds rc)"
    and "q2 (lt_discount live) = lt_discount live" "q2 (lt_tds live) = lt_tds live"
  shows "paise d \<and> paise t"
proof -
  have "paise (one_share b cash base tot applied)" if "paise tot" "q2 applied = applied" for b cash base tot applied
    using that one_share_bounds(1) [of b cash base tot applied]
    by (auto simp: one_share_def Let_def paise_def paisa.fixed_diff paisa.fixed_min paisa.fixed_max)
  then show ?thesis using assms by (auto simp: shares_for_def Let_def paise_def split: if_splits)
qed

lemma live_totals_paise:
  assumes "tables_ok co st"
  shows "q2 (lt_discount (live_totals_of (money_tables st) rc)) = lt_discount (live_totals_of (money_tables st) rc)"
    and "q2 (lt_tds (live_totals_of (money_tables st) rc)) = lt_tds (live_totals_of (money_tables st) rc)"
proof -
  have "q2 (al_discount a) = al_discount a \<and> q2 (al_tds a) = al_tds a"
    if "a \<in> set (filter (\<lambda>a. al_receipt a = Some (rc_pk rc) \<and> \<not> al_reversed a) (db_allocs (ms_money st)))" for a
    using assms that by (auto simp: tables_ok_def list_all_iff allocation_fine_def paise_def)
  then show "q2 (lt_discount (live_totals_of (money_tables st) rc)) = lt_discount (live_totals_of (money_tables st) rc)"
    "q2 (lt_tds (live_totals_of (money_tables st) rc)) = lt_tds (live_totals_of (money_tables st) rc)"
    by (auto simp: live_totals_of_def Let_def intro!: paisa.fixed_sum_list)
qed

lemma live_totals_other:
  assumes "al_receipt a \<noteq> Some (rc_pk rc)" "db_allocs db' = db_allocs db @ [a]"
  shows "live_totals_of db' rc = live_totals_of db rc"
  using assms by (simp add: live_totals_of_def)

lemma tables_add_allocation:
  assumes ok: "tables_ok co st" and a: "allocation_fine st a"
    and r: "\<And>i. i < length (ms_receipts st) \<Longrightarrow> al_receipt a = Some (int i)
      \<Longrightarrow> receipt_ok ((money_tables st)\<lparr>db_allocs := db_allocs (ms_money st) @ [a]\<rparr>) (receipt_view co st i)"
    and p: "\<And>i. i < length (ms_payments st) \<Longrightarrow> al_payment a = Some (int i)
      \<Longrightarrow> supplier_allocated ((money_tables st)\<lparr>db_allocs := db_allocs (ms_money st) @ [a]\<rparr>) (payment_view co st i)
        \<le> so_amount (ms_payments st ! i) + so_tds (ms_payments st ! i)"
  shows "tables_ok co (st\<lparr>ms_money := (ms_money st)\<lparr>db_allocs := db_allocs (ms_money st) @ [a]\<rparr>\<rparr>)"
proof -
  let ?st = "st\<lparr>ms_money := (ms_money st)\<lparr>db_allocs := db_allocs (ms_money st) @ [a]\<rparr>\<rparr>"
  let ?db = "(money_tables st)\<lparr>db_allocs := db_allocs (ms_money st) @ [a]\<rparr>"
  have db: "money_tables ?st = ?db" by (simp add: money_tables_def)
  have at: "posted_receipt_at ?st = posted_receipt_at st" "posted_payment_at ?st = posted_payment_at st"
    by (simp_all add: posted_receipt_at_def posted_payment_at_def fun_eq_iff)
  have "allocation_fine ?st = allocation_fine st" "refund_fine ?st = refund_fine st"
    by (simp_all add: fun_eq_iff allocation_fine_def refund_fine_def at)
  moreover have "receipt_ok (money_tables ?st) (receipt_view co ?st i)" if i: "i < length (ms_receipts st)" for i
  proof -
    have v: "receipt_ok (money_tables ?st) (receipt_view co ?st i) = receipt_ok ?db (receipt_view co st i)"
      unfolding db by (rule receipt_ok_cong) simp_all
    show ?thesis
    proof (cases "al_receipt a = Some (int i)")
      case True
      then show ?thesis using v r i by simp
    next
      case False
      then have "live_totals_of ?db (receipt_view co st i) = live_totals_of (money_tables st) (receipt_view co st i)"
        by (intro live_totals_other [of a]) simp_all
      moreover have "refunded_total ?db (receipt_view co st i) = refunded_total (money_tables st) (receipt_view co st i)"
        by (rule refunded_cong) simp_all
      ultimately show ?thesis using v ok i by (simp add: tables_ok_def never_overspent_def receipt_ok_def)
    qed
  qed
  moreover have "supplier_allocated (money_tables ?st) (payment_view co ?st i)
      \<le> so_amount (ms_payments st ! i) + so_tds (ms_payments st ! i)" if i: "i < length (ms_payments st)" for i
  proof (cases "al_payment a = Some (int i)")
    case True
    then show ?thesis using p [OF i] by (simp add: supplier_allocated_def)
  next
    case False
    then have "supplier_allocated (money_tables ?st) (payment_view co ?st i)
        = supplier_allocated (money_tables st) (payment_view co st i)"
      by (simp add: supplier_allocated_def)
    then show ?thesis using ok i by (simp add: tables_ok_def never_overspent_def)
  qed
  ultimately show ?thesis using ok a by (simp add: tables_ok_def never_overspent_def)
qed

lemma apply_receipt_elim:
  assumes "apply_receipt co today key i bill amount st = Inr (st', a)"
  obtains "allocate_receipt (money_tables st) (receipt_view co st i) bill amount
      = Inr ((money_tables st)\<lparr>db_allocs := db_allocs (ms_money st) @ [a]\<rparr>, a)"
    "book co (\<lambda>lg. post_receipt_allocation (mc_books co) today (key lg) lg
        (allocation_voucher (length (db_allocs (ms_money st))) (ms_receipts st ! i) a))
       (st\<lparr>ms_money := (ms_money st)\<lparr>db_allocs := db_allocs (ms_money st) @ [a]\<rparr>\<rparr>) = Inr st'"
proof -
  obtain db where al: "allocate_receipt (money_tables st) (receipt_view co st i) bill amount = Inr (db, a)"
    and b: "book co (\<lambda>lg. post_receipt_allocation (mc_books co) today (key lg) lg
        (allocation_voucher (length (db_allocs (ms_money st))) (ms_receipts st ! i) a))
       (st\<lparr>ms_money := (ms_money st)\<lparr>db_allocs := db_allocs db\<rparr>\<rparr>) = Inr st'"
    using assms by (auto simp: apply_receipt_def Let_def bind_res_Inr_iff)
  have "db = (money_tables st)\<lparr>db_allocs := db_allocs (ms_money st) @ [a]\<rparr>"
    using allocate_receipt_elim(1) [OF al] by simp
  then show thesis using that al b by simp
qed

lemma apply_receipt_keeps:
  assumes ap: "apply_receipt co today key i bill amount st = Inr (st', a)" and ok: "money_ok co st"
    and co: "posts_to_ledger (mc_books co)" "fresh_keys key" and i: "i < length (ms_receipts st)"
  shows "money_ok co st'"
proof (rule apply_receipt_elim [OF ap], goal_cases)
  case 1
  let ?k = "length (db_allocs (ms_money st))"
  let ?src = "(''PAYMENT_ALLOCATION'', int ?k, ''ALLOCATE_RECEIPT'')"
  let ?st = "st\<lparr>ms_money := (ms_money st)\<lparr>db_allocs := db_allocs (ms_money st) @ [a]\<rparr>\<rparr>"
  note e = allocate_receipt_elim [OF 1(1), simplified]
  have tab: "tables_ok co st" using ok by (simp add: money_ok_def)
  have rok: "receipt_ok (money_tables st) (receipt_view co st i)" and fine: "receipt_fine (ms_receipts st ! i)"
    using tab i by (simp_all add: tables_ok_def never_overspent_def list_all_length)
  have sh: "paise (al_discount a) \<and> paise (al_tds a)"
    by (rule shares_paise [OF e(5) [symmetric]]) (use fine live_totals_paise [OF tab] in \<open>simp_all add: receipt_fine_def\<close>)
  have amt: "paise (al_amount a)" using e(2,3) by (simp add: paise_def)
  have af: "allocation_fine st a"
    using e sh amt i by (simp add: allocation_fine_def posted_receipt_at_def)
  have t: "tables_ok co ?st"
  proof (rule tables_add_allocation [OF tab af])
    fix j assume "j < length (ms_receipts st)" "al_receipt a = Some (int j)"
    then have "j = i" using e(7) by simp
    then show "receipt_ok ((money_tables st)\<lparr>db_allocs := db_allocs (ms_money st) @ [a]\<rparr>) (receipt_view co st j)"
      using allocation_step [OF 1(1) rok] by simp
  next
    fix j assume "al_payment a = Some (int j)"
    then show "supplier_allocated ((money_tables st)\<lparr>db_allocs := db_allocs (ms_money st) @ [a]\<rparr>) (payment_view co st j)
        \<le> so_amount (ms_payments st ! j) + so_tds (ms_payments st ! j)" using e(9) by simp
  qed
  obtain r lg where p: "post_receipt_allocation (mc_books co) today (key (ms_ledger st)) (ms_ledger st)
      (allocation_voucher ?k (ms_receipts st ! i) a) = Inr (r, lg)" and st': "st' = ?st\<lparr>ms_ledger := lg\<rparr>"
    by (rule book_elim [OF 1(2) co(1)]) simp
  have "?src \<notin> fst ` set (customer_docs st)" by (auto simp: customer_docs_def docs_of_def)
  then have "booked (mc_books co) lg (add_mset (?src, al_amount a + al_tds a) (mset (customer_docs st))) (mset (supplier_docs st))"
    using booked_allocation [OF _ co(1) p fresh_key [OF co(2)], of "mset (customer_docs st)" "mset (supplier_docs st)"]
      ok sh amt e(2) by (simp add: allocation_voucher_def money_ok_def books_agree_def paise_def)
  moreover have "mset (customer_docs ?st) = add_mset (?src, al_amount a + al_tds a) (mset (customer_docs st))"
    "supplier_docs ?st = supplier_docs st"
    using e(7,9,10) by (simp_all add: customer_docs_def supplier_docs_def docs_of_append)
  ultimately show ?case using t unfolding st' money_ok_def books_agree_def by simp
qed

lemma apply_receipt_frame:
  assumes "apply_receipt co today key i bill amount st = Inr (st', a)"
  shows "ms_receipts st' = ms_receipts st" "ms_refunds st' = ms_refunds st" "ms_payments st' = ms_payments st"
  using assms by (auto simp: apply_receipt_def book_def Let_def bind_res_Inr_iff split: if_splits)

lemma apply_all_keeps:
  assumes "apply_all co today key i bills remaining st = Inr (st', created)" and "money_ok co st"
    and co: "posts_to_ledger (mc_books co)" "fresh_keys key" and "i < length (ms_receipts st)"
  shows "money_ok co st' \<and> ms_receipts st' = ms_receipts st"
  using assms(1,2,5)
proof (induction bills arbitrary: remaining st created)
  case Nil
  then show ?case by simp
next
  case (Cons bill bills)
  define take where "take = max_cash_for_balance (receipt_view co st i) (sales_invoice_outstanding (money_tables st) bill)
    remaining (live_totals_of (money_tables st) (receipt_view co st i)) (refunded_total (money_tables st) (receipt_view co st i))"
  show ?case
  proof (cases "remaining \<le> 0 \<or> sales_invoice_outstanding (money_tables st) bill \<le> 0 \<or> take \<le> 0")
    case True
    then show ?thesis using Cons by (auto simp: Let_def take_def [symmetric] split: if_splits)
  next
    case False
    then obtain st1 a created' where s: "apply_receipt co today key i bill take st = Inr (st1, a)"
      "apply_all co today key i bills (remaining - take) st1 = Inr (st', created')"
      using Cons.prems(1) by (auto simp: Let_def take_def [symmetric] bind_res_Inr_iff)
    have "money_ok co st1" "ms_receipts st1 = ms_receipts st"
      using apply_receipt_keeps [OF s(1) Cons.prems(2) co Cons.prems(3)] apply_receipt_frame [OF s(1)] by auto
    then show ?thesis using Cons.IH [OF s(2)] Cons.prems(3) by simp
  qed
qed

lemma apply_oldest_keeps:
  assumes "apply_oldest_first co today key i bills st = Inr (st', created)" and "money_ok co st"
    and "posts_to_ledger (mc_books co)" "fresh_keys key" and "i < length (ms_receipts st)"
  shows "money_ok co st' \<and> ms_receipts st' = ms_receipts st"
  using assms apply_all_keeps [OF _ assms(2-5)]
  by (auto simp: apply_oldest_first_def Let_def split: if_splits)

section \<open>Unallocating\<close>

lemma sum_filter_kill:
  fixes f :: "'a \<Rightarrow> rat"
  assumes "k < length xs" and "\<not> P y"
  shows "(\<Sum>a\<leftarrow>filter P (xs[k := y]). f a) = (\<Sum>a\<leftarrow>filter P xs. f a) - (if P (xs ! k) then f (xs ! k) else 0)"
proof -
  have "(\<Sum>a\<leftarrow>filter P zs. f a) = (\<Sum>a\<leftarrow>zs. if P a then f a else 0)" for zs by (induction zs) auto
  then show ?thesis using sum_list_update_map [OF assms(1), of "\<lambda>a. if P a then f a else 0" y] assms(2) by simp
qed

definition reversed_at :: "nat \<Rightarrow> money_state \<Rightarrow> money_state" where
  "reversed_at k st = st\<lparr>ms_money := (ms_money st)\<lparr>db_allocs :=
     (db_allocs (ms_money st))[k := (db_allocs (ms_money st) ! k)\<lparr>al_reversed := True\<rparr>]\<rparr>\<rparr>"

lemma reversed_at_simps [simp]:
  "ms_receipts (reversed_at k st) = ms_receipts st" "ms_refunds (reversed_at k st) = ms_refunds st"
  "ms_payments (reversed_at k st) = ms_payments st" "ms_ledger (reversed_at k st) = ms_ledger st"
  "length (db_allocs (ms_money (reversed_at k st))) = length (db_allocs (ms_money st))"
  by (simp_all add: reversed_at_def)

lemma reversed_at_docs:
  assumes "k < length (db_allocs (ms_money st))"
  shows "mset (customer_docs (reversed_at k st))
      = without (''PAYMENT_ALLOCATION'', int k, ''ALLOCATE_RECEIPT'') (mset (customer_docs st))"
    and "mset (supplier_docs (reversed_at k st))
      = without (''PAYMENT_ALLOCATION'', int k, ''ALLOCATE_PAYMENT'') (mset (supplier_docs st))"
  using assms
  by (simp_all add: customer_docs_def supplier_docs_def reversed_at_def docs_of_update_dead docs_of_other flip: mset_filter)

lemma reversed_at_totals:
  assumes ok: "list_all (allocation_fine st) (db_allocs (ms_money st))" and k: "k < length (db_allocs (ms_money st))"
    and o: "receipt_ok (money_tables st) rc"
  shows "receipt_ok (money_tables (reversed_at k st)) rc"
proof -
  let ?as = "db_allocs (ms_money st)"
  let ?a' = "(?as ! k)\<lparr>al_reversed := True\<rparr>"
  let ?P = "\<lambda>a. al_receipt a = Some (rc_pk rc) \<and> \<not> al_reversed a"
  have fine: "0 \<le> al_amount a \<and> 0 \<le> al_discount a \<and> 0 \<le> al_tds a" if "a \<in> set ?as" "?P a" for a
    using ok that by (auto simp: list_all_iff allocation_fine_def paise_def)
  have less: "(\<Sum>a\<leftarrow>filter ?P (?as[k := ?a']). f a) \<le> (\<Sum>a\<leftarrow>filter ?P ?as. f a)"
    "0 \<le> (\<Sum>a\<leftarrow>filter ?P (?as[k := ?a']). f a)" if f: "f \<in> {al_amount, al_discount, al_tds}" for f
  proof -
    have e: "(\<Sum>a\<leftarrow>filter ?P (?as[k := ?a']). f a) = (\<Sum>a\<leftarrow>filter ?P ?as. f a) - (if ?P (?as ! k) then f (?as ! k) else 0)"
      using k by (rule sum_filter_kill) simp
    moreover have "0 \<le> f (?as ! k)" if "?P (?as ! k)" using fine [of "?as ! k"] that f k by auto
    ultimately show "(\<Sum>a\<leftarrow>filter ?P (?as[k := ?a']). f a) \<le> (\<Sum>a\<leftarrow>filter ?P ?as. f a)" by auto
    have "set (filter ?P (?as[k := ?a'])) \<subseteq> set (filter ?P ?as)"
      using set_update_subset_insert [of ?as k ?a'] by auto
    then show "0 \<le> (\<Sum>a\<leftarrow>filter ?P (?as[k := ?a']). f a)"
      using fine f by (intro sum_list_nonneg) (auto simp: subset_iff)
  qed
  have "refunded_total (money_tables (reversed_at k st)) rc = refunded_total (money_tables st) rc"
    by (rule refunded_cong) simp_all
  then show ?thesis using o less [of al_amount] less [of al_discount] less [of al_tds]
    by (simp add: receipt_ok_def live_totals_of_def Let_def reversed_at_def)
qed

lemma reversed_at_supplier:
  assumes ok: "list_all (allocation_fine st) (db_allocs (ms_money st))" and k: "k < length (db_allocs (ms_money st))"
  shows "supplier_allocated (money_tables (reversed_at k st)) pay \<le> supplier_allocated (money_tables st) pay"
proof -
  let ?as = "db_allocs (ms_money st)"
  let ?P = "\<lambda>a. al_payment a = Some (sp_pk pay) \<and> \<not> al_reversed a"
  have "0 \<le> al_amount (?as ! k)" if "?P (?as ! k)"
    using ok k that by (auto simp: list_all_length allocation_fine_def)
  then show ?thesis
    using sum_filter_kill [OF k, of ?P "(?as ! k)\<lparr>al_reversed := True\<rparr>" al_amount]
    by (simp add: supplier_allocated_def reversed_at_def split: if_splits)
qed

lemma tables_reverse:
  assumes ok: "tables_ok co st" and k: "k < length (db_allocs (ms_money st))"
  shows "tables_ok co (reversed_at k st)"
proof -
  let ?st = "reversed_at k st"
  have all: "list_all (allocation_fine st) (db_allocs (ms_money st))" using ok by (simp add: tables_ok_def)
  have at: "posted_receipt_at ?st = posted_receipt_at st" "posted_payment_at ?st = posted_payment_at st"
    by (simp_all add: posted_receipt_at_def posted_payment_at_def fun_eq_iff)
  have f: "allocation_fine ?st = allocation_fine st" "refund_fine ?st = refund_fine st"
    by (simp_all add: fun_eq_iff allocation_fine_def refund_fine_def at)
  have "allocation_fine st ((db_allocs (ms_money st) ! k)\<lparr>al_reversed := True\<rparr>)"
    using all k by (simp add: list_all_length allocation_fine_def)
  then have "list_all (allocation_fine st) (db_allocs (ms_money ?st))"
    using all set_update_subset_insert [of "db_allocs (ms_money st)" k]
    by (fastforce simp: list_all_iff reversed_at_def)
  moreover have "receipt_ok (money_tables ?st) (receipt_view co ?st i) = receipt_ok (money_tables ?st) (receipt_view co st i)" for i
    by (rule receipt_ok_cong) simp_all
  moreover have "supplier_allocated (money_tables ?st) (payment_view co ?st i) = supplier_allocated (money_tables ?st) (payment_view co st i)" for i
    by (simp add: supplier_allocated_def)
  ultimately show ?thesis
    using ok reversed_at_totals [OF all k] order_trans [OF reversed_at_supplier [OF all k]]
    unfolding tables_ok_def never_overspent_def f by simp
qed

lemma unallocate_elim:
  assumes "unallocate co today key k st = Inr st'" and "posts_to_ledger (mc_books co)"
  obtains (already) "al_reversed (db_allocs (ms_money st) ! k)" "st' = st"
  | (reversed) lg1 lg2 where "\<not> al_reversed (db_allocs (ms_money st) ! k)"
      "case allocation_date st (db_allocs (ms_money st) ! k) of None \<Rightarrow> True | Some d \<Rightarrow> money_gate co st d False = Inr ()"
      "reverse_posted co today key je_date (''PAYMENT_ALLOCATION'', int k, ''ALLOCATE_RECEIPT'') (ms_ledger st) = Inr lg1"
      "reverse_posted co today key je_date (''PAYMENT_ALLOCATION'', int k, ''ALLOCATE_PAYMENT'') lg1 = Inr lg2"
      "st' = (reversed_at k st)\<lparr>ms_ledger := lg2\<rparr>"
proof (cases "al_reversed (db_allocs (ms_money st) ! k)")
  case True
  then have "st' = st" using assms(1) by (simp add: unallocate_def)
  then show thesis by (rule already [OF True])
next
  case False
  have "bind_res (case allocation_date st (db_allocs (ms_money st) ! k) of None \<Rightarrow> Inr () | Some d \<Rightarrow> money_gate co st d False)
      (\<lambda>_. bind_res (reverse_allocation_journals co today key k st) (\<lambda>st1.
        bind_res (reverse_allocation (ms_money st1) k False) (\<lambda>db. Inr (st1\<lparr>ms_money := db\<rparr>)))) = Inr st'"
    using assms(1) False by (simp add: unallocate_def Let_def)
  then obtain u st1 db where g: "(case allocation_date st (db_allocs (ms_money st) ! k) of None \<Rightarrow> Inr () | Some d \<Rightarrow> money_gate co st d False) = Inr u"
    and s: "reverse_allocation_journals co today key k st = Inr st1" "reverse_allocation (ms_money st1) k False = Inr db"
    "Inr (st1\<lparr>ms_money := db\<rparr>) = (Inr st' :: money_state res)"
    unfolding bind_res_Inr_iff by blast
  have gate: "case allocation_date st (db_allocs (ms_money st) ! k) of None \<Rightarrow> True | Some d \<Rightarrow> money_gate co st d False = Inr ()"
    using g by (cases "allocation_date st (db_allocs (ms_money st) ! k)") simp_all
  obtain lg1 lg2 where l: "reverse_posted co today key je_date (''PAYMENT_ALLOCATION'', int k, ''ALLOCATE_RECEIPT'') (ms_ledger st) = Inr lg1"
    "reverse_posted co today key je_date (''PAYMENT_ALLOCATION'', int k, ''ALLOCATE_PAYMENT'') lg1 = Inr lg2"
    "st1 = st\<lparr>ms_ledger := lg2\<rparr>"
    using s(1) assms(2) unfolding reverse_allocation_journals_def unbook_def
    by (auto simp: bind_res_Inr_iff)
  have "st' = (reversed_at k st)\<lparr>ms_ledger := lg2\<rparr>"
    using s(2,3) False unfolding l(3) by (auto simp: reverse_allocation_def reversed_at_def)
  then show thesis using reversed [OF False gate l(1,2)] by simp
qed

lemma unallocate_keeps:
  assumes u: "unallocate co today key k st = Inr st'" and ok: "money_ok co st"
    and co: "posts_to_ledger (mc_books co)" "fresh_keys key" and k: "k < length (db_allocs (ms_money st))"
  shows "money_ok co st'"
proof (rule unallocate_elim [OF u co(1)], goal_cases)
  case 1
  then show ?case using ok by simp
next
  case (2 lg1 lg2)
  let ?R = "(''PAYMENT_ALLOCATION'', int k, ''ALLOCATE_RECEIPT'')"
  let ?P = "(''PAYMENT_ALLOCATION'', int k, ''ALLOCATE_PAYMENT'')"
  have "booked (mc_books co) (ms_ledger st) (mset (customer_docs st)) (mset (supplier_docs st))"
    using ok by (simp add: money_ok_def books_agree_def)
  from booked_reverse_posted [OF this co(1) 2(3) co(2)]
  have b1: "booked (mc_books co) lg1 (without ?R (mset (customer_docs st))) (without ?R (mset (supplier_docs st)))" by simp
  from booked_reverse_posted [OF b1 co(1) 2(4) co(2)]
  have b2: "booked (mc_books co) lg2 (without ?P (without ?R (mset (customer_docs st)))) (without ?P (without ?R (mset (supplier_docs st))))" by simp
  have "?P \<notin> fst ` set (customer_docs st)" "?R \<notin> fst ` set (supplier_docs st)"
    by (auto simp: customer_docs_def supplier_docs_def docs_of_def)
  then have "without ?P (without ?R (mset (customer_docs st))) = without ?R (mset (customer_docs st))"
    "without ?R (mset (supplier_docs st)) = mset (supplier_docs st)"
    by (intro advances.doc_absent; auto)+
  then show ?case
    using b2 tables_reverse [OF _ k] ok reversed_at_docs [OF k] unfolding 2(5) money_ok_def books_agree_def by simp
qed

section \<open>Voiding\<close>

lemma unallocate_frame:
  assumes "unallocate co today key k st = Inr st'" and "posts_to_ledger (mc_books co)"
  shows "ms_receipts st' = ms_receipts st" "ms_refunds st' = ms_refunds st" "ms_payments st' = ms_payments st"
    "length (db_allocs (ms_money st')) = length (db_allocs (ms_money st))"
    "k < length (db_allocs (ms_money st)) \<Longrightarrow> al_reversed (db_allocs (ms_money st') ! k)"
    "j \<noteq> k \<Longrightarrow> db_allocs (ms_money st') ! j = db_allocs (ms_money st) ! j"
    "al_receipt (db_allocs (ms_money st') ! j) = al_receipt (db_allocs (ms_money st) ! j)"
    "al_payment (db_allocs (ms_money st') ! j) = al_payment (db_allocs (ms_money st) ! j)"
proof -
  have *: "ms_receipts st' = ms_receipts st \<and> ms_refunds st' = ms_refunds st \<and> ms_payments st' = ms_payments st
    \<and> length (db_allocs (ms_money st')) = length (db_allocs (ms_money st))
    \<and> (k < length (db_allocs (ms_money st)) \<longrightarrow> al_reversed (db_allocs (ms_money st') ! k))
    \<and> (\<forall>j. (j \<noteq> k \<longrightarrow> db_allocs (ms_money st') ! j = db_allocs (ms_money st) ! j)
        \<and> al_receipt (db_allocs (ms_money st') ! j) = al_receipt (db_allocs (ms_money st) ! j)
        \<and> al_payment (db_allocs (ms_money st') ! j) = al_payment (db_allocs (ms_money st) ! j))"
  proof (rule unallocate_elim [OF assms], goal_cases)
    case 1
    then show ?case by simp
  next
    case (2 lg1 lg2)
    have "xs[k := x] ! j = (if j = k \<and> k < length xs then x else xs ! j)" for xs and x :: allocation and j
      by (cases "k < length xs") (auto simp: nth_list_update not_less list_update_beyond)
    then show ?case unfolding 2(5) by (simp add: reversed_at_def)
  qed
  then show "ms_receipts st' = ms_receipts st" "ms_refunds st' = ms_refunds st" "ms_payments st' = ms_payments st"
    "length (db_allocs (ms_money st')) = length (db_allocs (ms_money st))"
    "k < length (db_allocs (ms_money st)) \<Longrightarrow> al_reversed (db_allocs (ms_money st') ! k)"
    "j \<noteq> k \<Longrightarrow> db_allocs (ms_money st') ! j = db_allocs (ms_money st) ! j"
    "al_receipt (db_allocs (ms_money st') ! j) = al_receipt (db_allocs (ms_money st) ! j)"
    "al_payment (db_allocs (ms_money st') ! j) = al_payment (db_allocs (ms_money st) ! j)" by auto
qed

lemma unallocate_all:
  assumes "fold_res (unallocate co today key) ks st = Inr st'" and "money_ok co st"
    and co: "posts_to_ledger (mc_books co)" "fresh_keys key"
    and "\<forall>k\<in>set ks. k < length (db_allocs (ms_money st))"
  shows "money_ok co st' \<and> ms_receipts st' = ms_receipts st \<and> ms_refunds st' = ms_refunds st
    \<and> ms_payments st' = ms_payments st \<and> length (db_allocs (ms_money st')) = length (db_allocs (ms_money st))
    \<and> (\<forall>j. (j \<notin> set ks \<longrightarrow> db_allocs (ms_money st') ! j = db_allocs (ms_money st) ! j)
        \<and> (j \<in> set ks \<or> al_reversed (db_allocs (ms_money st) ! j) \<longrightarrow> al_reversed (db_allocs (ms_money st') ! j))
        \<and> al_receipt (db_allocs (ms_money st') ! j) = al_receipt (db_allocs (ms_money st) ! j)
        \<and> al_payment (db_allocs (ms_money st') ! j) = al_payment (db_allocs (ms_money st) ! j))"
  using assms(1,2,5)
proof (induction ks arbitrary: st)
  case Nil
  then show ?case by simp
next
  case (Cons k ks)
  then obtain st1 where u: "unallocate co today key k st = Inr st1"
    and rest: "fold_res (unallocate co today key) ks st1 = Inr st'" by (auto simp: bind_res_Inr_iff)
  have k: "k < length (db_allocs (ms_money st))" using Cons.prems(3) by simp
  note f = unallocate_frame [OF u co(1)]
  have "money_ok co st1" by (rule unallocate_keeps [OF u Cons.prems(2) co k])
  moreover have "\<forall>k\<in>set ks. k < length (db_allocs (ms_money st1))" using Cons.prems(3) f(4) by simp
  ultimately have r: "money_ok co st' \<and> ms_receipts st' = ms_receipts st1 \<and> ms_refunds st' = ms_refunds st1
    \<and> ms_payments st' = ms_payments st1 \<and> length (db_allocs (ms_money st')) = length (db_allocs (ms_money st1))
    \<and> (\<forall>j. (j \<notin> set ks \<longrightarrow> db_allocs (ms_money st') ! j = db_allocs (ms_money st1) ! j)
        \<and> (j \<in> set ks \<or> al_reversed (db_allocs (ms_money st1) ! j) \<longrightarrow> al_reversed (db_allocs (ms_money st') ! j))
        \<and> al_receipt (db_allocs (ms_money st') ! j) = al_receipt (db_allocs (ms_money st1) ! j)
        \<and> al_payment (db_allocs (ms_money st') ! j) = al_payment (db_allocs (ms_money st1) ! j))"
    by (rule Cons.IH [OF rest])
  have "al_reversed (db_allocs (ms_money st) ! j) \<Longrightarrow> al_reversed (db_allocs (ms_money st1) ! j)" for j
    using f(5) [OF k] f(6) [of j] by (cases "j = k") auto
  then show ?case using r f(1-3,4,6-8) f(5) [OF k] by (metis list.set_intros(1,2) set_ConsD)
qed

lemma live_allocations_all:
  assumes "fold_res (unallocate co today key) (live_allocations mine st) st = Inr st'" and "money_ok co st"
    and co: "posts_to_ledger (mc_books co)" "fresh_keys key"
    and mine: "mine = (\<lambda>a. al_receipt a = r \<and> r \<noteq> None) \<or> mine = (\<lambda>a. al_payment a = r \<and> r \<noteq> None)"
  shows "money_ok co st'" "ms_receipts st' = ms_receipts st" "ms_refunds st' = ms_refunds st"
    "ms_payments st' = ms_payments st" "\<forall>a\<in>set (db_allocs (ms_money st')). mine a \<longrightarrow> al_reversed a"
proof -
  have ks: "set (live_allocations mine st)
      = {k. k < length (db_allocs (ms_money st)) \<and> mine (db_allocs (ms_money st) ! k) \<and> \<not> al_reversed (db_allocs (ms_money st) ! k)}"
    by (auto simp: live_allocations_def Let_def)
  have r: "money_ok co st' \<and> ms_receipts st' = ms_receipts st \<and> ms_refunds st' = ms_refunds st
    \<and> ms_payments st' = ms_payments st \<and> length (db_allocs (ms_money st')) = length (db_allocs (ms_money st))
    \<and> (\<forall>j. (j \<notin> set (live_allocations mine st) \<longrightarrow> db_allocs (ms_money st') ! j = db_allocs (ms_money st) ! j)
        \<and> (j \<in> set (live_allocations mine st) \<or> al_reversed (db_allocs (ms_money st) ! j) \<longrightarrow> al_reversed (db_allocs (ms_money st') ! j))
        \<and> al_receipt (db_allocs (ms_money st') ! j) = al_receipt (db_allocs (ms_money st) ! j)
        \<and> al_payment (db_allocs (ms_money st') ! j) = al_payment (db_allocs (ms_money st) ! j))"
    by (rule unallocate_all [OF assms(1,2) co]) (simp add: ks)
  then show "money_ok co st'" "ms_receipts st' = ms_receipts st" "ms_refunds st' = ms_refunds st"
    "ms_payments st' = ms_payments st" by auto
  show "\<forall>a\<in>set (db_allocs (ms_money st')). mine a \<longrightarrow> al_reversed a"
  proof (intro ballI impI)
    fix a assume "a \<in> set (db_allocs (ms_money st'))" and m: "mine a"
    then obtain j where j: "j < length (db_allocs (ms_money st'))" "a = db_allocs (ms_money st') ! j"
      by (auto simp: in_set_conv_nth)
    have "mine (db_allocs (ms_money st) ! j)" using m mine r unfolding j(2) by auto
    then show "al_reversed a" using r j unfolding ks by auto
  qed
qed

lemma correction_untracked:
  assumes "correction_of i e"
  shows "\<not> customer_doc (je_source e) \<and> \<not> supplier_doc (je_source e) \<and> fst (je_source e) \<noteq> ''JOURNAL_REVERSAL''"
  using assms
  by (auto simp: correction_of_def customer_doc_def supplier_doc_def starts_with_def split: prod.splits)

lemma corrections_distinct:
  assumes "ledger_reachable co lg" "posts_to_ledger co"
  shows "distinct (corrections_posted i lg)" and "set (corrections_posted i lg) \<subseteq> set (lg_entries lg)"
    and "e \<in> set (corrections_posted i lg) \<Longrightarrow> correction_of i e"
proof -
  have "distinct (lg_entries lg)"
    using books_ok_reachable [OF assms] by (auto simp: books_ok_def distinct_map)
  then show "distinct (corrections_posted i lg)" by (simp add: corrections_posted_def)
qed (auto simp: corrections_posted_def)

definition voided_at :: "nat \<Rightarrow> string \<Rightarrow> money_state \<Rightarrow> money_state" where
  "voided_at i reason st = set_receipt i (\<lambda>r. r\<lparr>cr_status := Rc_Voided, cr_void_reason := reason\<rparr>) st"

lemma tables_void:
  assumes ok: "tables_ok co st" and i: "i < length (ms_receipts st)"
    and free: "\<forall>a\<in>set (db_allocs (ms_money st)). al_receipt a = Some (int i) \<longrightarrow> al_reversed a" "\<not> has_refunds st i"
  shows "tables_ok co (voided_at i reason st)"
proof -
  let ?st = "voided_at i reason st"
  have same: "ms_refunds ?st = ms_refunds st" "ms_payments ?st = ms_payments st" "ms_money ?st = ms_money st"
    "ms_receipts ?st = (ms_receipts st)[i := (ms_receipts st ! i)\<lparr>cr_status := Rc_Voided, cr_void_reason := reason\<rparr>]"
    by (simp_all add: voided_at_def set_receipt_def)
  have at: "posted_payment_at ?st = posted_payment_at st" "n \<noteq> int i \<Longrightarrow> posted_receipt_at st n \<Longrightarrow> posted_receipt_at ?st n" for n
    by (auto simp: posted_payment_at_def posted_receipt_at_def same fun_eq_iff nth_list_update)
  have "list_all (allocation_fine ?st) (db_allocs (ms_money st))"
    using ok free(1) at by (fastforce simp: tables_ok_def list_all_iff allocation_fine_def)
  moreover have "list_all (refund_fine ?st) (ms_refunds st)"
    using ok free(2) at by (fastforce simp: tables_ok_def list_all_iff refund_fine_def has_refunds_def list_ex_iff)
  moreover have "list_all receipt_fine (ms_receipts ?st)"
    using ok i by (auto simp: tables_ok_def list_all_length same nth_list_update receipt_fine_def)
  moreover have "receipt_ok (money_tables ?st) (receipt_view co ?st j) = receipt_ok (money_tables st) (receipt_view co st j)" for j
  proof (rule receipt_ok_cong)
    have "cr_amount (ms_receipts ?st ! j) = cr_amount (ms_receipts st ! j) \<and> cr_tds (ms_receipts ?st ! j) = cr_tds (ms_receipts st ! j)
      \<and> cr_discount (ms_receipts ?st ! j) = cr_discount (ms_receipts st ! j)"
      using i by (auto simp: same nth_list_update)
    then show "rc_amount (receipt_view co ?st j) = rc_amount (receipt_view co st j)"
      "rc_discount (receipt_view co ?st j) = rc_discount (receipt_view co st j)"
      "rc_tds (receipt_view co ?st j) = rc_tds (receipt_view co st j)" by simp_all
  qed (simp_all add: same)
  moreover have "supplier_allocated (money_tables ?st) (payment_view co ?st j) = supplier_allocated (money_tables st) (payment_view co st j)"
    for j by (simp add: supplier_allocated_def same)
  ultimately show ?thesis using ok by (simp add: tables_ok_def never_overspent_def same)
qed

lemma void_receipt_elim:
  assumes "void_receipt co today key i reason0 over_match over_till st = Inr st'"
  obtains (already) "cr_status (ms_receipts st ! i) = Rc_Voided" "st' = st"
  | (voids) reason st1 st2 st3 where "cr_status (ms_receipts st ! i) = Rc_Posted" "\<not> has_refunds st i"
      "fold_res (unallocate co today key) (live_allocations (\<lambda>a. al_receipt a = Some (int i)) st) st = Inr st1"
      "reverse_money_document_journal co today key ''CUSTOMER_RECEIPT'' i today st1 = Inr st2"
      "reverse_bank_repoints co today key i today st2 = Inr st3" "st' = voided_at i reason st3"
proof (cases "cr_status (ms_receipts st ! i) = Rc_Voided")
  case True
  then have "st' = st" using assms by (simp add: void_receipt_def)
  then show thesis by (rule already [OF True])
next
  case False
  then obtain reason u st1 st2 st3 where v: "cr_status (ms_receipts st ! i) \<noteq> Rc_Refunded" "\<not> has_refunds st i"
      "fold_res (unallocate co today key) (live_allocations (\<lambda>a. al_receipt a = Some (int i)) st) st = Inr st1"
      "reverse_money_document_journal co today key ''CUSTOMER_RECEIPT'' i today st1 = Inr st2"
      "reverse_bank_repoints co today key i today st2 = Inr st3"
      "(Inr (set_receipt i (\<lambda>r. r\<lparr>cr_status := Rc_Voided, cr_void_reason := reason\<rparr>) st3) :: money_state res) = Inr st'"
    using assms unfolding void_receipt_def Let_def if_not_P [OF False] bind_res_Inr_iff guard_res_Inr_iff by blast
  moreover have "cr_status (ms_receipts st ! i) = Rc_Posted"
    using False v(1) by (cases "cr_status (ms_receipts st ! i)") simp_all
  moreover have "st' = voided_at i reason st3" using v(6) by (simp add: voided_at_def)
  ultimately show thesis by (intro voids)
qed

lemma journal_reversal_frame:
  assumes "reverse_money_document_journal co today key t i d st = Inr st'" and "posts_to_ledger (mc_books co)"
  obtains lg where "reverse_posted co today key (\<lambda>_. d) (t, int i, ''CREATE'') (ms_ledger st) = Inr lg" "st' = st\<lparr>ms_ledger := lg\<rparr>"
  using assms unbook_elim unfolding reverse_money_document_journal_def by blast

lemma voided_at_docs:
  assumes "i < length (ms_receipts st)"
  shows "mset (customer_docs (voided_at i reason st)) = without (''CUSTOMER_RECEIPT'', int i, ''CREATE'') (mset (customer_docs st))"
    and "supplier_docs (voided_at i reason st) = supplier_docs st"
  using assms
  by (simp_all add: customer_docs_def supplier_docs_def voided_at_def set_receipt_def docs_of_update_dead docs_of_other flip: mset_filter)

lemma void_receipt_keeps:
  assumes v: "void_receipt co today key i reason0 over_match over_till st = Inr st'" and ok: "money_ok co st"
    and co: "posts_to_ledger (mc_books co)" "fresh_keys key" and i: "i < length (ms_receipts st)"
  shows "money_ok co st'"
proof (rule void_receipt_elim [OF v], goal_cases)
  case 1
  then show ?case using ok by simp
next
  case (2 reason st1 st2 st3)
  note u = live_allocations_all [OF 2(3) ok co, of "Some (int i)"]
  let ?C = "mset (customer_docs st1)" let ?S = "mset (supplier_docs st1)"
  let ?src = "(''CUSTOMER_RECEIPT'', int i, ''CREATE'')"
  have b1: "booked (mc_books co) (ms_ledger st1) ?C ?S" using u(1) by (simp add: money_ok_def books_agree_def)
  obtain lg2 where l2: "reverse_posted co today key (\<lambda>_. today) ?src (ms_ledger st1) = Inr lg2" "st2 = st1\<lparr>ms_ledger := lg2\<rparr>"
    using journal_reversal_frame [OF 2(4) co(1)] by blast
  have b2: "booked (mc_books co) lg2 (without ?src ?C) (without ?src ?S)"
    by (rule booked_reverse_posted [OF b1 co(1) l2(1) co(2)]) simp
  have "?src \<notin> fst ` set (supplier_docs st1)" by (auto simp: supplier_docs_def docs_of_def)
  then have S: "without ?src ?S = ?S" by (intro advances.doc_absent) simp
  obtain lg3 where l3: "fold_res (\<lambda>e lg. bind_res (reverse (mc_books co) today (key lg) lg e (Some today) None) (\<lambda>(_, lg'). Inr lg'))
      (corrections_posted i lg2) lg2 = Inr lg3" "st3 = st2\<lparr>ms_ledger := lg3\<rparr>"
    using 2(5) co(1) l2(2) unfolding reverse_bank_repoints_def by (elim unbook_elim) simp_all
  have reach: "ledger_reachable (mc_books co) lg2" using b2 by (simp add: booked_def control_def)
  note cd = corrections_distinct [OF reach co(1)]
  have b3: "booked (mc_books co) lg3 (without ?src ?C) (without ?src ?S)"
    by (rule booked_reverse_list [OF b2 co l3(1) cd(2,1)]) (use cd(3) correction_untracked in blast)
  have st3: "st3 = st1\<lparr>ms_ledger := lg3\<rparr>" using l2(2) l3(2) by simp
  have i1: "i < length (ms_receipts st3)" using u(2) i by (simp add: st3)
  have "tables_ok co (voided_at i reason st3)"
    by (rule tables_void [OF _ i1]) (use u 2(2) in \<open>simp_all add: st3 money_ok_def has_refunds_def\<close>)
  moreover have "booked (mc_books co) (ms_ledger (voided_at i reason st3)) (mset (customer_docs (voided_at i reason st3)))
      (mset (supplier_docs (voided_at i reason st3)))"
    unfolding voided_at_docs [OF i1] using b3 S by (simp add: st3 voided_at_def set_receipt_def)
  ultimately show ?case unfolding 2(6) money_ok_def books_agree_def by simp
qed

section \<open>Corrections, refunds, cheques\<close>

lemma alike_set_receipt:
  assumes "i < length (ms_receipts st)"
    and "cr_amount (f (ms_receipts st ! i)) = cr_amount (ms_receipts st ! i)" "cr_tds (f (ms_receipts st ! i)) = cr_tds (ms_receipts st ! i)"
    and "cr_discount (f (ms_receipts st ! i)) = cr_discount (ms_receipts st ! i)" "cr_status (f (ms_receipts st ! i)) = cr_status (ms_receipts st ! i)"
    and "cr_cheque (f (ms_receipts st ! i)) = Bounced \<longrightarrow> cr_cheque (ms_receipts st ! i) = Bounced \<or> cr_status (ms_receipts st ! i) = Rc_Voided"
  shows "alike st (set_receipt i f st)"
  using assms by (simp add: alike_def set_receipt_def list_all2_conv_all_nth nth_list_update)

lemma money_ledger:
  assumes "money_ok co st" and "booked (mc_books co) lg (mset (customer_docs st)) (mset (supplier_docs st))"
  shows "money_ok co (st\<lparr>ms_ledger := lg\<rparr>)"
  using assms by (simp add: money_ok_def books_agree_def)

lemma money_booked:
  "money_ok co st \<Longrightarrow> booked (mc_books co) (ms_ledger st) (mset (customer_docs st)) (mset (supplier_docs st))"
  by (simp add: money_ok_def books_agree_def)

lemma set_receipt_keeps:
  assumes "alike st (set_receipt i f st)" and "money_ok co st"
  shows "money_ok co (set_receipt i f st)"
  by (rule alike_money [OF assms]) (simp add: set_receipt_def)

lemma reassign_elim:
  assumes "reassign_receipt_customer co today key i c reason st = Inr st'"
  obtains st1 where "book co (\<lambda>lg. post_receipt_party_transfer (mc_books co) today (key lg) lg
        (receipt_voucher i (ms_receipts st ! i)) (Some (cu_id (cr_customer (ms_receipts st ! i)))) (Some (cu_id c))
        (correction_sequence i ''REASSIGN_'' lg)) st = Inr st1"
    "st' = set_receipt i (\<lambda>r. r\<lparr>cr_customer := c\<rparr>) st1"
proof -
  obtain st1 where "book co (\<lambda>lg. post_receipt_party_transfer (mc_books co) today (key lg) lg
        (receipt_voucher i (ms_receipts st ! i)) (Some (cu_id (cr_customer (ms_receipts st ! i)))) (Some (cu_id c))
        (correction_sequence i ''REASSIGN_'' lg)) st = Inr st1"
    "(Inr (set_receipt i (\<lambda>r. r\<lparr>cr_customer := c\<rparr>) st1) :: money_state res) = Inr st'"
    using assms unfolding reassign_receipt_customer_def Let_def bind_res_Inr_iff guard_res_Inr_iff by blast
  then show thesis using that by simp
qed

lemma reassign_keeps:
  assumes r: "reassign_receipt_customer co today key i c reason st = Inr st'" and ok: "money_ok co st"
    and co: "posts_to_ledger (mc_books co)" "fresh_keys key" and i: "i < length (ms_receipts st)"
  shows "money_ok co st'"
proof (rule reassign_elim [OF r], goal_cases)
  case (1 st1)
  obtain e lg where p: "post_receipt_party_transfer (mc_books co) today (key (ms_ledger st)) (ms_ledger st)
        (receipt_voucher i (ms_receipts st ! i)) (Some (cu_id (cr_customer (ms_receipts st ! i)))) (Some (cu_id c))
        (correction_sequence i ''REASSIGN_'' (ms_ledger st)) = Inr (e, lg)" and st1: "st1 = st\<lparr>ms_ledger := lg\<rparr>"
    using book_elim [OF 1(1) co(1)] by blast
  have "money_ok co st1" unfolding st1
    by (rule money_ledger [OF ok booked_transfer [OF money_booked [OF ok] co(1) p fresh_key [OF co(2)]]])
  then show ?case using 1(2) i
    by (auto intro!: set_receipt_keeps alike_set_receipt simp: st1)
qed

text \<open>An edit replaces the row by one with the same money, status and cheque state.\<close>

definition same_money :: "customer_receipt \<Rightarrow> customer_receipt \<Rightarrow> bool" where
  "same_money r r' = (cr_amount r' = cr_amount r \<and> cr_tds r' = cr_tds r \<and> cr_discount r' = cr_discount r
     \<and> cr_status r' = cr_status r \<and> cr_cheque r' = cr_cheque r)"

lemma edit_receipt_elim:
  assumes e: "edit_receipt co today key i ch st = Inr st'"
  obtains r st1 where "same_money (ms_receipts st ! i) r" "st' = set_receipt i (\<lambda>_. r) st1"
    "st1 = st \<or> (\<exists>v old new. book co (\<lambda>lg. post_receipt_bank_repoint (mc_books co) today (key lg) lg v old new
        (correction_sequence i ''BANK_REPOINT_'' lg)) st = Inr st1)"
proof -
  define r2 where "r2 = (let r0 = ms_receipts st ! i;
     r1 = (case ch_notes ch of None \<Rightarrow> r0 | Some s \<Rightarrow> r0\<lparr>cr_notes := take 5000 s\<rparr>)
   in case ch_reference ch of None \<Rightarrow> r1 | Some s \<Rightarrow> r1\<lparr>cr_reference := take 100 (py_strip s)\<rparr>)"
  have same2: "same_money (ms_receipts st ! i) r2"
    by (auto simp: r2_def Let_def same_money_def split: option.splits)
  obtain r3 bank st1 where s: "edit_utr st i (ch_utr ch) r2 = Inr r3" "edit_bank co st i (ch_bank ch) r3 = Inr bank"
    "(case bank of None \<Rightarrow> Inr st
       | Some b \<Rightarrow> book co (\<lambda>lg. post_receipt_bank_repoint (mc_books co) today (key lg) lg (receipt_voucher i r3)
           (map_option ba_id (cr_bank r3)) (Some (ba_id b)) (correction_sequence i ''BANK_REPOINT_'' lg)) st) = Inr st1"
    "(Inr (set_receipt i (\<lambda>_. case bank of None \<Rightarrow> r3 | Some b \<Rightarrow> r3\<lparr>cr_bank := Some b\<rparr>) st1) :: money_state res) = Inr st'"
    using e unfolding edit_receipt_def Let_def bind_res_Inr_iff guard_res_Inr_iff r2_def by blast
  have same3: "same_money r2 r3"
    using s(1) by (auto simp: edit_utr_def Let_def bind_res_Inr_iff guard_res_Inr_iff same_money_def split: option.splits if_splits)
  let ?r = "case bank of None \<Rightarrow> r3 | Some b \<Rightarrow> r3\<lparr>cr_bank := Some b\<rparr>"
  have "same_money (ms_receipts st ! i) ?r"
    using same2 same3 by (auto simp: same_money_def split: option.splits)
  moreover have "st1 = st \<or> (\<exists>v old new. book co (\<lambda>lg. post_receipt_bank_repoint (mc_books co) today (key lg) lg v old new
        (correction_sequence i ''BANK_REPOINT_'' lg)) st = Inr st1)"
    using s(3) by (cases bank) auto
  ultimately show thesis using that [of ?r st1] s(4) by simp
qed

lemma edit_receipt_keeps:
  assumes e: "edit_receipt co today key i ch st = Inr st'" and ok: "money_ok co st"
    and co: "posts_to_ledger (mc_books co)" "fresh_keys key" and i: "i < length (ms_receipts st)"
  shows "money_ok co st'"
proof (rule edit_receipt_elim [OF e], goal_cases)
  case (1 r st1)
  have st1: "money_ok co st1 \<and> (\<exists>lg. st1 = st\<lparr>ms_ledger := lg\<rparr>)"
    using 1(3)
  proof
    assume "st1 = st"
    then show ?thesis using ok by (auto intro!: exI [of _ "ms_ledger st"])
  next
    assume "\<exists>v old new. book co (\<lambda>lg. post_receipt_bank_repoint (mc_books co) today (key lg) lg v old new
        (correction_sequence i ''BANK_REPOINT_'' lg)) st = Inr st1"
    then obtain v old new e lg where p: "post_receipt_bank_repoint (mc_books co) today (key (ms_ledger st)) (ms_ledger st) v old new
        (correction_sequence i ''BANK_REPOINT_'' (ms_ledger st)) = Inr (e, lg)" and st1: "st1 = st\<lparr>ms_ledger := lg\<rparr>"
      by (auto elim: book_elim [OF _ co(1)])
    show ?thesis unfolding st1
      using money_ledger [OF ok booked_repoint [OF money_booked [OF ok] co(1) p fresh_key [OF co(2)]]] by blast
  qed
  have "alike st1 (set_receipt i (\<lambda>_. r) st1)"
    by (rule alike_set_receipt) (use st1 i 1(1) in \<open>auto simp: same_money_def\<close>)
  from set_receipt_keeps [OF this] st1 1(2) show ?case by simp
qed

lemma tables_add_refund:
  assumes ok: "tables_ok co st" and f: "refund_fine st f" "ar_posted f" "ar_receipt f = i"
    and room: "ar_amount f \<le> cash_available (money_tables st) (receipt_view co st i)"
  shows "tables_ok co (st\<lparr>ms_refunds := ms_refunds st @ [f]\<rparr>)"
proof -
  let ?st = "st\<lparr>ms_refunds := ms_refunds st @ [f]\<rparr>"
  have at: "posted_receipt_at ?st = posted_receipt_at st" "posted_payment_at ?st = posted_payment_at st"
    by (simp_all add: posted_receipt_at_def posted_payment_at_def fun_eq_iff)
  have fine: "allocation_fine ?st = allocation_fine st" "refund_fine ?st = refund_fine st"
    by (simp_all add: fun_eq_iff allocation_fine_def refund_fine_def at)
  have pos: "0 < ar_amount f" using f by (simp add: refund_fine_def)
  have "receipt_ok (money_tables ?st) (receipt_view co ?st j)" if j: "j < length (ms_receipts st)" for j
  proof -
    have o: "receipt_ok (money_tables st) (receipt_view co st j)"
      using ok j by (simp add: tables_ok_def never_overspent_def)
    have lt: "live_totals_of (money_tables ?st) (receipt_view co ?st j) = live_totals_of (money_tables st) (receipt_view co st j)"
      by (rule live_totals_cong) simp_all
    have rf: "refunded_total (money_tables ?st) (receipt_view co ?st j)
        = refunded_total (money_tables st) (receipt_view co st j) + (if j = i then ar_amount f else 0)"
      unfolding refunded_of_state using f(2,3) by simp
    have "lt_cash (live_totals_of (money_tables st) (receipt_view co st j)) + refunded_total (money_tables ?st) (receipt_view co ?st j)
        \<le> cr_amount (ms_receipts st ! j)"
      using o room pos unfolding rf by (auto simp: receipt_ok_def Let_def cash_available_def)
    then show ?thesis using o unfolding receipt_ok_def Let_def lt by simp
  qed
  moreover have "supplier_allocated (money_tables ?st) (payment_view co ?st j) = supplier_allocated (money_tables st) (payment_view co st j)"
    for j by (simp add: supplier_allocated_def)
  ultimately show ?thesis using ok f by (simp add: tables_ok_def never_overspent_def fine)
qed

lemma refund_advance_elim:
  assumes "refund_advance co today key i rr st = Inr st'"
  obtains row series where "ar_receipt row = i" "ar_posted row" "ar_amount row = q2 (rr_amount rr)" "0 < ar_amount row"
    "cr_status (ms_receipts st ! i) = Rc_Posted" "ar_amount row \<le> cash_available (money_tables st) (receipt_view co st i)"
    "book co (\<lambda>lg. post_advance_refund (mc_books co) today (key lg) lg (int (length (ms_refunds st))) (ar_amount row)
        (ar_mode row) (map_option ba_id (ar_bank row)) (Some (cu_id (cr_customer (ms_receipts st ! i)))) (ar_date row))
      (st\<lparr>ms_refunds := ms_refunds st @ [row], ms_ledger := (ms_ledger st)\<lparr>lg_series := series\<rparr>\<rparr>) = Inr st'"
proof -
  let ?mode = "py_upper (if rr_mode rr = [] then ''CASH'' else rr_mode rr)"
  let ?d = "opt_arg today (rr_date rr)"
  obtain reason u bank num row' where v: "\<not> q2 (rr_amount rr) \<le> 0" "\<not> cr_status (ms_receipts st ! i) \<noteq> Rc_Posted"
    "\<not> cash_available (money_tables st) (receipt_view co st i) < q2 (rr_amount rr)"
    and row: "(if ?mode = ''CASH'' \<and> rr_from_till rr then mark_paid_from_till st (rr_user rr)
         \<lparr>ar_receipt = i, ar_number = fst num, ar_amount = q2 (rr_amount rr), ar_mode = ?mode, ar_date = ?d, ar_bank = bank,
                ar_utr = normalize_utr (rr_utr rr), ar_reason = reason, ar_posted = True, ar_till = None,
                ar_from_till = False, ar_void_reason = []\<rparr>
       else Inr \<lparr>ar_receipt = i, ar_number = fst num, ar_amount = q2 (rr_amount rr), ar_mode = ?mode, ar_date = ?d, ar_bank = bank,
                ar_utr = normalize_utr (rr_utr rr), ar_reason = reason, ar_posted = True, ar_till = None,
                ar_from_till = False, ar_void_reason = []\<rparr>) = Inr row'"
    and b: "book co (\<lambda>lg. post_advance_refund (mc_books co) today (key lg) lg (int (length (ms_refunds st))) (q2 (rr_amount rr))
        ?mode (map_option ba_id bank) (Some (cu_id (cr_customer (ms_receipts st ! i)))) ?d)
      (st\<lparr>ms_refunds := ms_refunds st @ [row'], ms_ledger := (ms_ledger st)\<lparr>lg_series := snd num\<rparr>\<rparr>) = Inr st'"
    using assms unfolding refund_advance_def Let_def bind_res_Inr_iff guard_res_Inr_iff case_prod_beta by blast
  have f: "ar_receipt row' = i" "ar_posted row'" "ar_amount row' = q2 (rr_amount rr)" "ar_mode row' = ?mode"
    "ar_bank row' = bank" "ar_date row' = ?d"
    using row by (auto simp: mark_paid_from_till_def Let_def guard_res_Inr_iff split: if_splits list.splits)
  show thesis by (rule that [of row' "snd num"]) (use f v b in \<open>simp_all add: not_le not_less\<close>)
qed

lemma refund_advance_keeps:
  assumes r: "refund_advance co today key i rr st = Inr st'" and ok: "money_ok co st"
    and co: "posts_to_ledger (mc_books co)" "fresh_keys key" and i: "i < length (ms_receipts st)"
  shows "money_ok co st'"
proof (rule refund_advance_elim [OF r], goal_cases)
  case (1 row series)
  let ?j = "length (ms_refunds st)"
  let ?src = "(''CUSTOMER_ADVANCE_REFUND'', int ?j, ''CREATE'')"
  let ?lg = "(ms_ledger st)\<lparr>lg_series := series\<rparr>"
  obtain e lg where p: "post_advance_refund (mc_books co) today (key ?lg) ?lg (int ?j) (ar_amount row)
      (ar_mode row) (map_option ba_id (ar_bank row)) (Some (cu_id (cr_customer (ms_receipts st ! i)))) (ar_date row) = Inr (e, lg)"
    and st': "st' = st\<lparr>ms_refunds := ms_refunds st @ [row], ms_ledger := lg\<rparr>"
    by (rule book_elim [OF 1(7) co(1)]) simp
  have amt: "paise (ar_amount row)" using 1(3,4) by (simp add: paise_def)
  have new: "?src \<notin> fst ` set (customer_docs st)" by (auto simp: customer_docs_def docs_of_def)
  have "booked (mc_books co) lg (add_mset (?src, ar_amount row) (mset (customer_docs st))) (mset (supplier_docs st))"
    using booked_refund [OF booked_series [OF money_booked [OF ok]] co(1) p fresh_key [OF co(2)]] amt 1(4) new
    by (simp add: paise_def)
  moreover have "mset (customer_docs st') = add_mset (?src, ar_amount row) (mset (customer_docs st))"
    "supplier_docs st' = supplier_docs st"
    unfolding st' customer_docs_def supplier_docs_def by (simp_all add: docs_of_append 1(2))
  moreover have "refund_fine st row" using amt 1(1,4,5) i by (simp add: refund_fine_def posted_receipt_at_def)
  then have "tables_ok co (st\<lparr>ms_refunds := ms_refunds st @ [row]\<rparr>)"
    using tables_add_refund [OF _ _ 1(2,1,6)] ok by (simp add: money_ok_def)
  ultimately show ?case unfolding st' money_ok_def books_agree_def by simp
qed

lemma sum_filter_nonneg_drop:
  fixes f :: "'a \<Rightarrow> rat"
  assumes "k < length xs" and "\<not> P y" and "\<And>x. x \<in> set xs \<Longrightarrow> P x \<Longrightarrow> 0 \<le> f x"
  shows "(\<Sum>a\<leftarrow>filter P (xs[k := y]). f a) \<le> (\<Sum>a\<leftarrow>filter P xs. f a)"
  using sum_filter_kill [where P = P and f = f, OF assms(1,2)] assms(1,3) by simp

lemma tables_void_refund:
  assumes ok: "tables_ok co st" and j: "j < length (ms_refunds st)"
  shows "tables_ok co (set_refund j (\<lambda>r. r\<lparr>ar_posted := False, ar_void_reason := reason\<rparr>) st)"
proof -
  let ?st = "set_refund j (\<lambda>r. r\<lparr>ar_posted := False, ar_void_reason := reason\<rparr>) st"
  let ?f = "(ms_refunds st ! j)\<lparr>ar_posted := False, ar_void_reason := reason\<rparr>"
  have same: "ms_receipts ?st = ms_receipts st" "ms_payments ?st = ms_payments st" "ms_money ?st = ms_money st"
    "ms_refunds ?st = (ms_refunds st)[j := ?f]"
    by (simp_all add: set_refund_def)
  have at: "posted_receipt_at ?st = posted_receipt_at st" "posted_payment_at ?st = posted_payment_at st"
    by (simp_all add: posted_receipt_at_def posted_payment_at_def fun_eq_iff same)
  have fine: "allocation_fine ?st = allocation_fine st" "refund_fine ?st = refund_fine st"
    by (simp_all add: fun_eq_iff allocation_fine_def refund_fine_def at)
  have "receipt_ok (money_tables ?st) (receipt_view co ?st i)" if i: "i < length (ms_receipts st)" for i
  proof -
    have o: "receipt_ok (money_tables st) (receipt_view co st i)"
      using ok i by (simp add: tables_ok_def never_overspent_def)
    have lt: "live_totals_of (money_tables ?st) (receipt_view co ?st i) = live_totals_of (money_tables st) (receipt_view co st i)"
      by (rule live_totals_cong) (simp_all add: same)
    have "refunded_total (money_tables ?st) (receipt_view co ?st i) \<le> refunded_total (money_tables st) (receipt_view co st i)"
      unfolding refunded_of_state same
      using sum_filter_nonneg_drop [OF j, of "\<lambda>f. int (ar_receipt f) = int i \<and> ar_posted f" ?f ar_amount] ok
      by (auto simp: tables_ok_def list_all_iff refund_fine_def paise_def)
    then show ?thesis using o unfolding receipt_ok_def Let_def lt by (simp add: same)
  qed
  moreover have "supplier_allocated (money_tables ?st) (payment_view co ?st i) = supplier_allocated (money_tables st) (payment_view co st i)"
    for i by (simp add: supplier_allocated_def same)
  moreover have "list_all (refund_fine st) ((ms_refunds st)[j := ?f])"
    using ok j by (auto simp: tables_ok_def list_all_length nth_list_update refund_fine_def)
  ultimately show ?thesis using ok by (simp add: tables_ok_def never_overspent_def fine same)
qed

lemma void_advance_refund_keeps:
  assumes v: "void_advance_refund co today key j reason0 st = Inr st'" and ok: "money_ok co st"
    and co: "posts_to_ledger (mc_books co)" "fresh_keys key" and j: "j < length (ms_refunds st)"
  shows "money_ok co st'"
proof (cases "ar_posted (ms_refunds st ! j)")
  case False
  then show ?thesis using v ok by (simp add: void_advance_refund_def)
next
  case True
  let ?src = "(''CUSTOMER_ADVANCE_REFUND'', int j, ''CREATE'')"
  obtain reason st1 where r: "reverse_money_document_journal co today key ''CUSTOMER_ADVANCE_REFUND'' j today st = Inr st1"
    and st': "(Inr (set_refund j (\<lambda>r. r\<lparr>ar_posted := False, ar_void_reason := reason\<rparr>) st1) :: money_state res) = Inr st'"
    using v True by (auto simp: void_advance_refund_def Let_def bind_res_Inr_iff guard_res_Inr_iff)
  obtain lg where l: "reverse_posted co today key (\<lambda>_. today) ?src (ms_ledger st) = Inr lg" "st1 = st\<lparr>ms_ledger := lg\<rparr>"
    using journal_reversal_frame [OF r co(1)] by blast
  have b: "booked (mc_books co) lg (without ?src (mset (customer_docs st))) (without ?src (mset (supplier_docs st)))"
    by (rule booked_reverse_posted [OF money_booked [OF ok] co(1) l(1) co(2)]) simp
  have "?src \<notin> fst ` set (supplier_docs st)" by (auto simp: supplier_docs_def docs_of_def)
  then have S: "without ?src (mset (supplier_docs st)) = mset (supplier_docs st)"
    by (intro advances.doc_absent) simp
  let ?st = "set_refund j (\<lambda>r. r\<lparr>ar_posted := False, ar_void_reason := reason\<rparr>) st1"
  have "mset (customer_docs ?st) = without ?src (mset (customer_docs st))" "supplier_docs ?st = supplier_docs st"
    using j unfolding l(2)
    by (simp_all add: customer_docs_def supplier_docs_def set_refund_def docs_of_update_dead docs_of_other flip: mset_filter)
  moreover have "tables_ok co ?st" using tables_void_refund [of co st1 j] ok j unfolding l(2) by (simp add: money_ok_def)
  moreover have "ms_ledger ?st = lg" by (simp add: l(2) set_refund_def)
  ultimately show ?thesis using b S st' by (simp add: money_ok_def books_agree_def)
qed

lemma void_receipt_voids:
  assumes "void_receipt co today key i reason0 over_match over_till st = Inr st'" and "money_ok co st"
    and co: "posts_to_ledger (mc_books co)" "fresh_keys key" and i: "i < length (ms_receipts st)"
  shows "length (ms_receipts st') = length (ms_receipts st)" "cr_status (ms_receipts st' ! i) = Rc_Voided"
    "cr_cheque (ms_receipts st' ! i) = cr_cheque (ms_receipts st ! i)"
    "j \<noteq> i \<Longrightarrow> ms_receipts st' ! j = ms_receipts st ! j"
proof -
  have "length (ms_receipts st') = length (ms_receipts st) \<and> cr_status (ms_receipts st' ! i) = Rc_Voided
    \<and> cr_cheque (ms_receipts st' ! i) = cr_cheque (ms_receipts st ! i) \<and> (j \<noteq> i \<longrightarrow> ms_receipts st' ! j = ms_receipts st ! j)"
  proof (rule void_receipt_elim [OF assms(1)], goal_cases)
    case 1
    then show ?case by simp
  next
    case (2 reason st1 st2 st3)
    note u = live_allocations_all [OF 2(3) assms(2) co, of "Some (int i)"]
    have "ms_receipts st3 = ms_receipts st2" "ms_receipts st2 = ms_receipts st1"
      using 2(4,5) by (auto simp: reverse_bank_repoints_def reverse_money_document_journal_def unbook_def bind_res_Inr_iff split: if_splits)
    then have "ms_receipts st3 = ms_receipts st" using u(2) by simp
    then show ?case unfolding 2(6) using i by (simp add: voided_at_def set_receipt_def)
  qed
  then show "length (ms_receipts st') = length (ms_receipts st)" "cr_status (ms_receipts st' ! i) = Rc_Voided"
    "cr_cheque (ms_receipts st' ! i) = cr_cheque (ms_receipts st ! i)"
    "j \<noteq> i \<Longrightarrow> ms_receipts st' ! j = ms_receipts st ! j" by auto
qed

lemma alike_matches: "alike st (st\<lparr>ms_matches := m\<rparr>)"
  by (simp add: alike_def list_all2_refl)

lemma bounce_cheque_elim:
  assumes b: "bounce_cheque co today key i charge st = Inr st'" and co: "posts_to_ledger (mc_books co)"
  obtains st1 fee m lg where "void_receipt co today key i ''Cheque bounced'' True False st = Inr st1"
    "st' = (set_receipt i (\<lambda>r. r\<lparr>cr_cheque := Bounced, cr_fee := fee\<rparr>) (st1\<lparr>ms_matches := m\<rparr>))\<lparr>ms_ledger := lg\<rparr>"
    "lg = ms_ledger st1 \<or> (\<exists>r v. post_dishonour_fee co today key i v fee (ms_ledger st1) = Inr (r, lg))"
proof -
  obtain st1 fee where v: "void_receipt co today key i ''Cheque bounced'' True False st = Inr st1"
    and rest: "(let st2 = st1\<lparr>ms_matches := map (\<lambda>m. if bm_receipt m = i then m\<lparr>bm_review := True\<rparr> else m) (ms_matches st1)\<rparr>;
         st3 = set_receipt i (\<lambda>r. r\<lparr>cr_cheque := Bounced, cr_fee := fee\<rparr>) st2
       in if 0 < fee then book co (post_dishonour_fee co today key i (ms_receipts st3 ! i) fee) st3 else Inr st3) = Inr st'"
    using b by (auto simp: bounce_cheque_def Let_def bind_res_Inr_iff)
  define st3 where "st3 = set_receipt i (\<lambda>r. r\<lparr>cr_cheque := Bounced, cr_fee := fee\<rparr>)
    (st1\<lparr>ms_matches := map (\<lambda>m. if bm_receipt m = i then m\<lparr>bm_review := True\<rparr> else m) (ms_matches st1)\<rparr>)"
  have l: "ms_ledger st3 = ms_ledger st1" by (simp add: st3_def set_receipt_def)
  show thesis
  proof (cases "0 < fee")
    case False
    then have "st' = st3\<lparr>ms_ledger := ms_ledger st1\<rparr>" using rest l by (simp add: st3_def [symmetric] Let_def)
    then show thesis using that [where fee = fee and lg = "ms_ledger st1", OF v] by (simp add: st3_def)
  next
    case True
    then have "book co (post_dishonour_fee co today key i (ms_receipts st3 ! i) fee) st3 = Inr st'"
      using rest by (simp add: st3_def Let_def)
    then obtain r lg where "post_dishonour_fee co today key i (ms_receipts st3 ! i) fee (ms_ledger st1) = Inr (r, lg)"
      "st' = st3\<lparr>ms_ledger := lg\<rparr>" using book_elim [OF _ co] l by metis
    then show thesis using that [where fee = fee and lg = lg, OF v] by (auto simp: st3_def)
  qed
qed

lemma bounce_cheque_keeps:
  assumes b: "bounce_cheque co today key i charge st = Inr st'" and ok: "money_ok co st"
    and co: "posts_to_ledger (mc_books co)" "fresh_keys key" and i: "i < length (ms_receipts st)"
  shows "money_ok co st'"
proof (rule bounce_cheque_elim [OF b co(1)], goal_cases)
  case (1 st1 fee m lg)
  have ok1: "money_ok co st1" by (rule void_receipt_keeps [OF 1(1) ok co i])
  note v = void_receipt_voids [OF 1(1) ok co i]
  let ?st2 = "st1\<lparr>ms_matches := m\<rparr>"
  let ?st3 = "set_receipt i (\<lambda>r. r\<lparr>cr_cheque := Bounced, cr_fee := fee\<rparr>) ?st2"
  have "money_ok co ?st2" by (rule alike_money [OF alike_matches ok1]) simp
  moreover have "alike ?st2 ?st3" by (rule alike_set_receipt) (use v(1,2) i in simp_all)
  ultimately have ok3: "money_ok co ?st3" using set_receipt_keeps by blast
  have l3: "ms_ledger ?st3 = ms_ledger st1" by (simp add: set_receipt_def)
  have "booked (mc_books co) lg (mset (customer_docs ?st3)) (mset (supplier_docs ?st3))"
    using 1(3)
  proof
    assume "lg = ms_ledger st1"
    then show ?thesis using money_booked [OF ok3] l3 by simp
  next
    assume "\<exists>r v. post_dishonour_fee co today key i v fee (ms_ledger st1) = Inr (r, lg)"
    then show ?thesis using booked_fee [OF money_booked [OF ok3] co(1) _ co(2)] unfolding l3 by blast
  qed
  then show ?case unfolding 1(2) by (rule money_ledger [OF ok3])
qed

lemma apply_intent_keeps:
  assumes a: "apply_intent_on_clear co today key i bills st = Inr st'" and ok: "money_ok co st"
    and co: "posts_to_ledger (mc_books co)" "fresh_keys key" and i: "i < length (ms_receipts st)"
  shows "money_ok co st' \<and> ms_receipts st' = ms_receipts st"
proof (cases "cr_wanted_bill (ms_receipts st ! i)")
  case None
  then obtain created where "apply_oldest_first co today key i bills st = Inr (st', created)"
    using a by (auto simp: apply_intent_on_clear_def Let_def bind_res_Inr_iff)
  then show ?thesis using apply_oldest_keeps ok co i by blast
next
  case (Some pk)
  have "st' = st \<or> (\<exists>bill take al. apply_receipt co today key i bill take st = Inr (st', al))"
    using a Some by (auto simp: apply_intent_on_clear_def Let_def bind_res_Inr_iff split: option.splits if_splits)
  then show ?thesis using ok apply_receipt_keeps [OF _ ok co i] apply_receipt_frame(1) by metis
qed

lemma set_cheque_elim:
  assumes "set_cheque_status co today key i new charge bills st = Inr st'"
  obtains (bounced) "new = Bounced" "bounce_cheque co today key i charge st = Inr st'"
  | (marked) "new \<noteq> Bounced" "cr_cheque (ms_receipts st ! i) \<noteq> Bounced" "st' = set_receipt i (\<lambda>r. r\<lparr>cr_cheque := new\<rparr>) st"
  | (applied) "new \<noteq> Bounced" "cr_cheque (ms_receipts st ! i) \<noteq> Bounced"
      "apply_intent_on_clear co today key i bills (set_receipt i (\<lambda>r. r\<lparr>cr_cheque := new\<rparr>) st) = Inr st'"
proof (cases "new = Bounced")
  case True
  then show thesis using assms bounced by (auto simp: set_cheque_status_def Let_def guard_res_Inr_iff)
next
  case False
  let ?st1 = "set_receipt i (\<lambda>r. r\<lparr>cr_cheque := new\<rparr>) st"
  have nb: "cr_cheque (ms_receipts st ! i) \<noteq> Bounced"
    and c: "st' = ?st1 \<or> apply_intent_on_clear co today key i bills ?st1 = Inr st'"
    using assms False
    by (auto simp: set_cheque_status_def Let_def guard_res_Inr_iff split: if_splits sum.splits err.splits)
  from c show thesis using marked [OF False nb] applied [OF False nb] by blast
qed

lemma set_cheque_keeps:
  assumes s: "set_cheque_status co today key i new charge bills st = Inr st'" and ok: "money_ok co st"
    and co: "posts_to_ledger (mc_books co)" "fresh_keys key" and i: "i < length (ms_receipts st)"
  shows "money_ok co st'"
proof -
  let ?st1 = "set_receipt i (\<lambda>r. r\<lparr>cr_cheque := new\<rparr>) st"
  have ok1: "money_ok co ?st1" if "new \<noteq> Bounced"
    by (rule set_receipt_keeps [OF alike_set_receipt ok]) (use i that in simp_all)
  have i1: "i < length (ms_receipts ?st1)" using i by (simp add: set_receipt_def)
  show ?thesis
  proof (rule set_cheque_elim [OF s], goal_cases)
    case 1
    then show ?case using bounce_cheque_keeps [OF _ ok co i] by blast
  next
    case 2
    then show ?case using ok1 by simp
  next
    case 3
    then show ?case using apply_intent_keeps [OF 3(3) ok1 [OF 3(1)] co i1] by blast
  qed
qed

lemma certificate_keeps:
  assumes "set_tds_certificate today i received on_date ref st = Inr st'" and "money_ok co st" and "i < length (ms_receipts st)"
  shows "money_ok co st'"
proof -
  obtain c where "st' = set_receipt i (\<lambda>r. r\<lparr>cr_certificate := c\<rparr>) st"
    using assms(1) by (auto simp: set_tds_certificate_def Let_def guard_res_Inr_iff)
  then show ?thesis using set_receipt_keeps [OF alike_set_receipt assms(2)] assms(3) by simp
qed

lemma settle_elim:
  assumes "settle_completed_invoice_payment co today key c bill tendered mode n b st = Inr st'"
  obtains (nothing_due) "st' = st"
  | (collected) rq st1 w amount a where "create_receipt co today key rq st = Inr (st1, w)"
      "apply_receipt co today key (length (ms_receipts st)) bill amount st1 = Inr (st', a)"
  using assms by (fastforce simp: settle_completed_invoice_payment_def Let_def bind_res_Inr_iff split: option.splits)

lemma created_receipt:
  assumes "create_receipt co today key rq st = Inr (st', w)"
  obtains row where "ms_receipts st' = ms_receipts st @ [row]"
  by (rule create_receipt_elim [OF assms]) (auto simp: book_def bind_res_Inr_iff intro: that split: if_splits)

lemma settle_keeps:
  assumes s: "settle_completed_invoice_payment co today key c bill tendered mode n b st = Inr st'" and ok: "money_ok co st"
    and co: "posts_to_ledger (mc_books co)" "fresh_keys key"
  shows "money_ok co st'"
proof (rule settle_elim [OF s], goal_cases)
  case 1
  then show ?case using ok by simp
next
  case (2 rq st1 w amount a)
  have "length (ms_receipts st) < length (ms_receipts st1)"
    by (rule created_receipt [OF 2(1)]) simp
  then show ?case using apply_receipt_keeps [OF 2(2) create_receipt_keeps [OF 2(1) ok co] co] by simp
qed

section \<open>The supplier side\<close>

lemma tables_add_payment:
  assumes ok: "tables_ok co st" and row: "payment_fine row"
  shows "tables_ok co (st\<lparr>ms_payments := ms_payments st @ [row]\<rparr>)"
proof -
  let ?st = "st\<lparr>ms_payments := ms_payments st @ [row]\<rparr>"
  have at: "posted_receipt_at ?st = posted_receipt_at st" "posted_payment_at st n \<Longrightarrow> posted_payment_at ?st n" for n
    by (auto simp: posted_receipt_at_def posted_payment_at_def nth_append fun_eq_iff)
  have "list_all (allocation_fine ?st) (db_allocs (ms_money st))"
    using ok at by (auto simp: tables_ok_def list_all_iff allocation_fine_def)
  moreover have "refund_fine ?st = refund_fine st" by (simp add: refund_fine_def fun_eq_iff at)
  moreover have "receipt_ok (money_tables ?st) (receipt_view co ?st i) = receipt_ok (money_tables st) (receipt_view co st i)" for i
    by (rule receipt_ok_cong) simp_all
  moreover have "supplier_allocated (money_tables ?st) (payment_view co ?st i)
      \<le> so_amount (ms_payments ?st ! i) + so_tds (ms_payments ?st ! i)" if "i < length (ms_payments ?st)" for i
  proof (cases "i < length (ms_payments st)")
    case True
    then show ?thesis using ok by (simp add: tables_ok_def never_overspent_def supplier_allocated_def nth_append)
  next
    case False
    then have i: "i = length (ms_payments st)" using that by simp
    have "filter (\<lambda>a. al_payment a = Some (int i) \<and> \<not> al_reversed a) (db_allocs (ms_money st)) = []"
      using ok unfolding i
      by (auto simp: filter_empty_conv tables_ok_def list_all_iff allocation_fine_def posted_payment_at_def)
    then show ?thesis using row i by (simp add: supplier_allocated_def payment_fine_def paise_def)
  qed
  ultimately show ?thesis using ok row by (simp add: tables_ok_def never_overspent_def)
qed

lemma fold_tds_paise: "q2 (fold_tds_from_rate r a t) = fold_tds_from_rate r a t"
  by (simp add: fold_tds_from_rate_def Let_def)

lemma create_payment_elim:
  assumes "create_supplier_payment co today key bills pq st = Inr st'"
  obtains row series where "payment_fine row" "so_posted row" "so_cheque row \<noteq> Bounced"
    "book co (\<lambda>lg. post_supplier_payment (mc_books co) today (key lg) lg (payment_voucher (length (ms_payments st)) row))
       (st\<lparr>ms_payments := ms_payments st @ [row], ms_ledger := (ms_ledger st)\<lparr>lg_series := series\<rparr>\<rparr>) = Inr st'"
proof -
  let ?amount = "quantize_even 2 (pq_amount pq)" let ?d = "opt_arg today (pq_date pq)"
  let ?tds = "fold_tds_from_rate (pq_tds_rate pq) (pq_tds_amount pq) ?amount"
  define row where "row = (\<lambda>number. \<lparr>so_supplier = pq_supplier pq, so_number = number, so_amount = ?amount, so_tds = ?tds,
                so_tds_rate = or0 (pq_tds_rate pq), so_mode = pq_mode pq, so_date = ?d, so_reference = pq_reference pq,
                so_utr = request_utr (pq_mode pq) (pq_utr pq) (pq_reference pq), so_notes = pq_notes pq, so_posted = True, so_bank = pq_bank pq,
                so_cheque = (if py_upper (pq_mode pq) = ''CHEQUE'' then Pending_Clearance else No_Cheque)\<rparr>)"
  obtain num where v: "\<not> ?amount \<le> 0" "\<not> (?tds < 0 \<or> or0 (pq_tds_rate pq) < 0)"
    and b: "book co (\<lambda>lg. post_supplier_payment (mc_books co) today (key lg) lg (payment_voucher (length (ms_payments st)) (row (fst num))))
       (st\<lparr>ms_payments := ms_payments st @ [row (fst num)], ms_ledger := (ms_ledger st)\<lparr>lg_series := snd num\<rparr>\<rparr>) = Inr st'"
    using assms unfolding create_supplier_payment_def Let_def bind_res_Inr_iff guard_res_Inr_iff case_prod_beta row_def by blast
  have "0 \<le> ?tds" "0 < ?amount" using v by auto
  then have "payment_fine (row n)" for n
    using even_is_paise [of "pq_amount pq"] fold_tds_paise by (simp add: payment_fine_def row_def paise_def)
  then show thesis using b by (intro that [of "row (fst num)" "snd num"]) (simp_all add: row_def)
qed

lemma create_payment_keeps:
  assumes "create_supplier_payment co today key bills pq st = Inr st'" and ok: "money_ok co st"
    and co: "posts_to_ledger (mc_books co)" "fresh_keys key"
  shows "money_ok co st'"
proof (rule create_payment_elim [OF assms(1)], goal_cases)
  case (1 row series)
  let ?i = "length (ms_payments st)"
  let ?src = "(''SUPPLIER_PAYMENT'', int ?i, ''CREATE'')"
  let ?lg = "(ms_ledger st)\<lparr>lg_series := series\<rparr>"
  obtain r lg where p: "post_supplier_payment (mc_books co) today (key ?lg) ?lg (payment_voucher ?i row) = Inr (r, lg)"
    and st': "st' = st\<lparr>ms_payments := ms_payments st @ [row], ms_ledger := lg\<rparr>"
    by (rule book_elim [OF 1(4) co(1)]) simp
  have new: "?src \<notin> fst ` set (supplier_docs st)" by (auto simp: supplier_docs_def docs_of_def)
  have "booked (mc_books co) lg (mset (customer_docs st)) (add_mset (?src, so_amount row + so_tds row) (mset (supplier_docs st)))"
    using booked_payment [OF booked_series [OF money_booked [OF ok]] co(1) p fresh_key [OF co(2)]] 1(1) new
    by (simp add: payment_voucher_def payment_fine_def paise_def)
  moreover have "mset (supplier_docs st') = add_mset (?src, so_amount row + so_tds row) (mset (supplier_docs st))"
    "customer_docs st' = customer_docs st"
    unfolding st' customer_docs_def supplier_docs_def by (simp_all add: docs_of_append 1(2))
  moreover have "tables_ok co (st\<lparr>ms_payments := ms_payments st @ [row]\<rparr>)"
    using tables_add_payment [OF _ 1(1)] ok by (simp add: money_ok_def)
  ultimately show ?case unfolding st' money_ok_def books_agree_def by simp
qed

lemma apply_payment_keeps:
  assumes ap: "apply_payment co today key i bill amount st = Inr st'" and ok: "money_ok co st"
    and co: "posts_to_ledger (mc_books co)" "fresh_keys key" and i: "i < length (ms_payments st)" and q: "q2 amount = amount"
  shows "money_ok co st'"
proof -
  let ?k = "length (db_allocs (ms_money st))"
  let ?src = "(''PAYMENT_ALLOCATION'', int ?k, ''ALLOCATE_PAYMENT'')"
  obtain db a where al: "allocate_supplier_payment (money_tables st) (payment_view co st i) bill amount = Inr (db, a)"
    and b: "book co (\<lambda>lg. post_supplier_payment_allocation (mc_books co) today (key lg) lg (int ?k) (al_amount a)
        (Some (Some (su_id (so_supplier (ms_payments st ! i))), so_date (ms_payments st ! i))))
      (st\<lparr>ms_money := (ms_money st)\<lparr>db_allocs := db_allocs db\<rparr>\<rparr>) = Inr st'"
    using ap by (auto simp: apply_payment_def Let_def bind_res_Inr_iff)
  have e: "db_allocs db = db_allocs (ms_money st) @ [a]" "0 < amount" "al_amount a = amount" "al_tds a = 0" "al_discount a = 0"
    "al_payment a = Some (int i)" "al_receipt a = None" "\<not> al_reversed a" "so_posted (ms_payments st ! i)"
    "db = (money_tables st)\<lparr>db_allocs := db_allocs (ms_money st) @ [a]\<rparr>"
    using al by (auto simp: allocate_supplier_payment_def guard_res_Inr_iff Let_def)
  let ?st = "st\<lparr>ms_money := (ms_money st)\<lparr>db_allocs := db_allocs (ms_money st) @ [a]\<rparr>\<rparr>"
  have tab: "tables_ok co st" using ok by (simp add: money_ok_def)
  have af: "allocation_fine st a"
    using e i q by (simp add: allocation_fine_def posted_payment_at_def paise_def)
  have t: "tables_ok co ?st"
  proof (rule tables_add_allocation [OF tab af])
    fix j assume "j < length (ms_payments st)" "al_payment a = Some (int j)"
    then have "j = i" using e(6) by simp
    moreover have "amount \<le> so_amount (ms_payments st ! i) + so_tds (ms_payments st ! i)
        - supplier_allocated (money_tables st) (payment_view co st i)"
      using al by (auto simp: allocate_supplier_payment_def guard_res_Inr_iff supplier_allocated_def)
    then have "supplier_allocated (money_tables st) (payment_view co st i) + amount
        \<le> so_amount (ms_payments st ! i) + so_tds (ms_payments st ! i)" by simp
    moreover have "supplier_allocated ((money_tables st)\<lparr>db_allocs := db_allocs (ms_money st) @ [a]\<rparr>) (payment_view co st i)
        = supplier_allocated (money_tables st) (payment_view co st i) + amount"
      using e(3,6,8) by (simp add: supplier_allocated_def)
    ultimately show "supplier_allocated ((money_tables st)\<lparr>db_allocs := db_allocs (ms_money st) @ [a]\<rparr>) (payment_view co st j)
        \<le> so_amount (ms_payments st ! j) + so_tds (ms_payments st ! j)" by simp
  qed (use e(7) in simp)
  obtain r lg where p: "post_supplier_payment_allocation (mc_books co) today (key (ms_ledger st)) (ms_ledger st) (int ?k) (al_amount a)
        (Some (Some (su_id (so_supplier (ms_payments st ! i))), so_date (ms_payments st ! i))) = Inr (r, lg)"
    and st': "st' = ?st\<lparr>ms_ledger := lg\<rparr>"
    by (rule book_elim [OF b co(1)]) (simp add: e(1))
  have new: "?src \<notin> fst ` set (supplier_docs st)" by (auto simp: supplier_docs_def docs_of_def)
  have "booked (mc_books co) lg (mset (customer_docs st)) (add_mset (?src, - al_amount a) (mset (supplier_docs st)))"
    using booked_supplier_allocation [OF money_booked [OF ok] co(1) p fresh_key [OF co(2)]] e q new by simp
  moreover have "mset (supplier_docs ?st) = add_mset (?src, - al_amount a) (mset (supplier_docs st))"
    "customer_docs ?st = customer_docs st"
    using e(6-8) by (simp_all add: customer_docs_def supplier_docs_def docs_of_append)
  ultimately show ?thesis using t unfolding st' money_ok_def books_agree_def by simp
qed

lemma alike_set_payment:
  assumes "i < length (ms_payments st)"
    and "so_amount (f (ms_payments st ! i)) = so_amount (ms_payments st ! i)" "so_tds (f (ms_payments st ! i)) = so_tds (ms_payments st ! i)"
    and "so_posted (f (ms_payments st ! i)) = so_posted (ms_payments st ! i)"
    and "so_cheque (f (ms_payments st ! i)) = Bounced \<longrightarrow> so_cheque (ms_payments st ! i) = Bounced \<or> \<not> so_posted (ms_payments st ! i)"
  shows "alike st (set_payment i f st)"
  using assms by (simp add: alike_def set_payment_def list_all2_conv_all_nth nth_list_update)

lemma tables_void_payment:
  assumes ok: "tables_ok co st" and i: "i < length (ms_payments st)"
    and free: "\<forall>a\<in>set (db_allocs (ms_money st)). al_payment a = Some (int i) \<longrightarrow> al_reversed a"
  shows "tables_ok co (set_payment i (\<lambda>p. p\<lparr>so_posted := False, so_notes := n p\<rparr>) st)"
proof -
  let ?st = "set_payment i (\<lambda>p. p\<lparr>so_posted := False, so_notes := n p\<rparr>) st"
  let ?p = "(ms_payments st ! i)\<lparr>so_posted := False, so_notes := n (ms_payments st ! i)\<rparr>"
  have same: "ms_refunds ?st = ms_refunds st" "ms_receipts ?st = ms_receipts st" "ms_money ?st = ms_money st"
    "ms_payments ?st = (ms_payments st)[i := ?p]"
    by (simp_all add: set_payment_def)
  have at: "posted_receipt_at ?st = posted_receipt_at st" "m \<noteq> int i \<Longrightarrow> posted_payment_at st m \<Longrightarrow> posted_payment_at ?st m" for m
    by (auto simp: posted_payment_at_def posted_receipt_at_def same fun_eq_iff nth_list_update)
  have "list_all (allocation_fine ?st) (db_allocs (ms_money st))"
    using ok free at by (fastforce simp: tables_ok_def list_all_iff allocation_fine_def)
  moreover have "refund_fine ?st = refund_fine st" by (simp add: refund_fine_def fun_eq_iff at)
  moreover have "list_all payment_fine (ms_payments ?st)"
    using ok i by (auto simp: tables_ok_def list_all_length same nth_list_update payment_fine_def)
  moreover have "receipt_ok (money_tables ?st) (receipt_view co ?st j) = receipt_ok (money_tables st) (receipt_view co st j)" for j
    by (rule receipt_ok_cong) (simp_all add: same)
  moreover have "supplier_allocated (money_tables ?st) (payment_view co ?st j) = supplier_allocated (money_tables st) (payment_view co st j)"
    for j by (simp add: supplier_allocated_def same)
  moreover have "so_amount (ms_payments ?st ! j) = so_amount (ms_payments st ! j)" "so_tds (ms_payments ?st ! j) = so_tds (ms_payments st ! j)" for j
    using i by (auto simp: same nth_list_update)
  ultimately show ?thesis using ok by (simp add: tables_ok_def never_overspent_def same)
qed

lemma void_payment_keeps:
  assumes v: "void_supplier_payment co today key i reason st = Inr st'" and ok: "money_ok co st"
    and co: "posts_to_ledger (mc_books co)" "fresh_keys key" and i: "i < length (ms_payments st)"
  shows "money_ok co st' \<and> length (ms_payments st') = length (ms_payments st) \<and> \<not> so_posted (ms_payments st' ! i)
    \<and> ms_receipts st' = ms_receipts st"
proof (cases "so_posted (ms_payments st ! i)")
  case False
  then show ?thesis using v ok by (simp add: void_supplier_payment_def)
next
  case True
  let ?src = "(''SUPPLIER_PAYMENT'', int i, ''CREATE'')"
  let ?f = "\<lambda>p. p\<lparr>so_posted := False, so_notes := void_note (so_notes p) reason\<rparr>"
  obtain st1 st2 where f: "fold_res (unallocate co today key) (live_allocations (\<lambda>a. al_payment a = Some (int i)) st) st = Inr st1"
    and r: "reverse_money_document_journal co today key ''SUPPLIER_PAYMENT'' i today st1 = Inr st2"
    and st': "st' = set_payment i ?f st2"
    using v True by (auto simp: void_supplier_payment_def Let_def bind_res_Inr_iff)
  note u = live_allocations_all [OF f ok co, of "Some (int i)"]
  obtain lg where l: "reverse_posted co today key (\<lambda>_. today) ?src (ms_ledger st1) = Inr lg" "st2 = st1\<lparr>ms_ledger := lg\<rparr>"
    using journal_reversal_frame [OF r co(1)] by blast
  have b: "booked (mc_books co) lg (without ?src (mset (customer_docs st1))) (without ?src (mset (supplier_docs st1)))"
    by (rule booked_reverse_posted [OF money_booked co(1) l(1) co(2)]) (use u in simp_all)
  have "?src \<notin> fst ` set (customer_docs st1)" by (auto simp: customer_docs_def docs_of_def)
  then have C: "without ?src (mset (customer_docs st1)) = mset (customer_docs st1)" by (intro advances.doc_absent) simp
  have i2: "i < length (ms_payments st2)" using u(4) i by (simp add: l(2))
  have "tables_ok co st'" unfolding st'
    by (rule tables_void_payment [OF _ i2]) (use u in \<open>simp_all add: l(2) money_ok_def\<close>)
  moreover have "mset (supplier_docs st') = without ?src (mset (supplier_docs st1))" "customer_docs st' = customer_docs st1"
    using i2 unfolding st' l(2)
    by (simp_all add: customer_docs_def supplier_docs_def set_payment_def docs_of_update_dead docs_of_other flip: mset_filter)
  ultimately have "money_ok co st'" using b C by (simp add: money_ok_def books_agree_def st' l(2) set_payment_def)
  then show ?thesis using i2 i u(2,4) by (simp add: st' l(2) set_payment_def)
qed

lemma supplier_cheque_keeps:
  assumes s: "set_supplier_cheque_status co today key i new st = Inr st'" and ok: "money_ok co st"
    and co: "posts_to_ledger (mc_books co)" "fresh_keys key" and i: "i < length (ms_payments st)"
  shows "money_ok co st' \<and> ms_receipts st' = ms_receipts st"
proof (cases "new = Bounced")
  case True
  then obtain st1 where v: "void_supplier_payment co today key i ''Cheque bounced'' st = Inr st1"
    and st': "st' = set_payment i (\<lambda>p. p\<lparr>so_cheque := Bounced\<rparr>) st1"
    using s by (auto simp: set_supplier_cheque_status_def Let_def bind_res_Inr_iff guard_res_Inr_iff)
  note v = void_payment_keeps [OF v ok co i]
  have "alike st1 st'" unfolding st' by (rule alike_set_payment) (use v i in simp_all)
  then have "money_ok co st'" by (rule alike_money) (use v in \<open>simp_all add: st' set_payment_def\<close>)
  then show ?thesis using v by (simp add: st' set_payment_def)
next
  case False
  then have st': "st' = set_payment i (\<lambda>p. p\<lparr>so_cheque := new\<rparr>) st"
    using s by (auto simp: set_supplier_cheque_status_def Let_def guard_res_Inr_iff)
  have "alike st st'" unfolding st' by (rule alike_set_payment) (use i False in simp_all)
  then have "money_ok co st'" by (rule alike_money [OF _ ok]) (simp add: st' set_payment_def)
  then show ?thesis by (simp add: st' set_payment_def)
qed

end
