(* ===== verification/Receipt_Spread.thy ===== *)
theory Receipt_Spread
  imports Money_Operations
begin

text \<open>
  Spreading a receipt with its journals.  The loop of \<open>allocate_receipt_oldest_first\<close> on the whole state
  follows the loop on the tables (\<open>Receipts\<close>), and when the journal takes entries of the receipt's date every
  application it makes is posted, so the call returns.  The contract of the vouchers (\<open>voucher_builder\<close>)
  is interpreted on the lines of an application.
\<close>

section \<open>The journal of an application\<close>

definition allocation_amounts_ok :: "posted_allocation \<Rightarrow> bool" where
  "allocation_amounts_ok v = (list_all nonneg_paise [pa_amount v, pa_tds v, pa_discount v] \<and> 0 < pa_amount v)"

interpretation application: voucher_builder allocation_lines allocation_amounts_ok
proof
  fix v assume "allocation_amounts_ok v"
  then have v: "nonneg_paise (pa_amount v)" "nonneg_paise (pa_tds v)" "nonneg_paise (pa_discount v)" "0 < pa_amount v"
    by (simp_all add: allocation_amounts_ok_def)
  show "excess (allocation_lines v) = 0"
    using v by (auto simp: allocation_lines_def voucher_simps nonneg_paise_def)
  show "list_all line_fits (allocation_lines v)"
    using v by (auto simp: allocation_lines_def built_line line_fits_def nonneg_paise_def paisa.fixed_add)
qed

text \<open>
  The journal takes applications dated \<open>d\<close>: the books have started, the accounts the applications use are
  active and the counter of the entries is ahead of the numbers given.  (The periods are the receipt's own
  gate.)
\<close>

definition APPLICATION_ACCOUNTS :: "string list" where
  "APPLICATION_ACCOUNTS = [''2300'', ''1200'', ''5150'']"

definition journal_numbers_ahead :: "gl_company \<Rightarrow> date \<Rightarrow> ledger \<Rightarrow> bool" where
  "journal_numbers_ahead co today lg =
    (case ensure_series (''JOURNAL_ENTRY'', resolve_keys (gc_numbering co) today None None) (lg_series lg) of
       Inl _ \<Rightarrow> False
     | Inr (s, _) \<Rightarrow> list_all (\<lambda>e. case shape_of s (je_number e) of None \<Rightarrow> True | Some n \<Rightarrow> n < sr_next s) (lg_entries lg))"

definition journal_takes :: "gl_company \<Rightarrow> date \<Rightarrow> ledger \<Rightarrow> date \<Rightarrow> bool" where
  "journal_takes co today lg d =
    ((case gc_books_start co of None \<Rightarrow> True | Some c \<Rightarrow> \<not> d < c) \<and>
     list_all (\<lambda>c. find_account ga_active c (ensure_chart (lg_chart lg)) \<noteq> None) APPLICATION_ACCOUNTS \<and>
     journal_numbers_ahead co today lg)"

lemma application_accounts: "set (map jl_account (allocation_lines v)) \<subseteq> set APPLICATION_ACCOUNTS"
  by (auto simp: allocation_lines_def built_line APPLICATION_ACCOUNTS_def)

lemma ensure_chart_keeps:
  assumes "find_account P c chart \<noteq> None"
  shows "find_account P c (ensure_chart chart) \<noteq> None"
  using assms by (auto simp: ensure_chart_def seed_chart_of_accounts_def find_account_def find_None_iff)

text \<open>What a posting leaves of the ledger: one entry more, under the next number.\<close>

lemma post_new_leaves:
  assumes "post_new co today i lg src d ls allow = Inr (Some e, lg')"
  obtains t where "next_number True (gc_numbering co) today (lg_series lg) ''JOURNAL_ENTRY'' None None = Inr (je_number e, t)"
    "lg' = lg\<lparr>lg_entries := lg_entries lg @ [e], lg_series := t\<rparr>"
proof -
  define kept where "kept = filter (\<lambda>l. jl_debit l \<noteq> 0 \<or> jl_credit l \<noteq> 0) (map normalize_line ls)"
  have some: "\<not> (map normalize_line ls \<noteq> [] \<and> kept = [])"
    using assms unfolding post_new_def Let_def kept_def [symmetric] by (auto simp del: map_is_Nil_conv)
  note n = assms [unfolded post_new_def Let_def, folded kept_def, unfolded if_not_P [OF some]]
  have "\<exists>nx. next_number True (gc_numbering co) today (lg_series lg) ''JOURNAL_ENTRY'' None None = Inr nx \<and>
      e = \<lparr>je_id = i, je_number = fst nx, je_source = src, je_date = d, je_status = POSTED, je_lines = kept, je_reversed = None\<rparr> \<and>
      lg' = lg\<lparr>lg_entries := lg_entries lg @ [e], lg_series := snd nx\<rparr>"
    using n unfolding guard_res_Inr_iff bind_res_Inr_iff
  proof (elim conjE exE, goal_cases)
    case (1 u nx)
    obtain num t where nx: "nx = (num, t)" by (cases nx)
    have "e = \<lparr>je_id = i, je_number = num, je_source = src, je_date = d, je_status = POSTED, je_lines = kept,
        je_reversed = None\<rparr>"
      and "lg' = lg\<lparr>lg_entries := lg_entries lg @ [\<lparr>je_id = i, je_number = num, je_source = src, je_date = d,
        je_status = POSTED, je_lines = kept, je_reversed = None\<rparr>], lg_series := t\<rparr>"
      using 1(5) unfolding nx prod.case guard_res_Inr_iff sum.inject prod.inject option.inject by (elim conjE, simp only:)+
    then show ?case using 1(4) nx by (intro exI [of _ nx]) simp
  qed
  then show thesis using that by (metis jentry.select_convs(2) surjective_pairing)
qed

lemma post_lines_leaves:
  assumes p: "post_lines co today i lg src d ls = Inr (Some e, lg')" and gl: "posts_to_ledger co"
    and new: "src \<notin> set (posted_sources (lg_entries lg))"
    and active: "list_all (\<lambda>c. find_account ga_active c (ensure_chart (lg_chart lg)) \<noteq> None) (map jl_account ls)"
  obtains t where "next_number True (gc_numbering co) today (lg_series lg) ''JOURNAL_ENTRY'' None None = Inr (je_number e, t)"
    "lg' = lg\<lparr>lg_chart := ensure_chart (lg_chart lg), lg_entries := lg_entries lg @ [e], lg_series := t\<rparr>"
proof -
  have q: "post co today i (lg\<lparr>lg_chart := ensure_chart (lg_chart lg)\<rparr>) src d ls False False = Inr (Some e, lg')"
    using p resolve_active [OF active] by (simp add: post_lines_def)
  have "find (same_posting src) (lg_entries lg) = None" using new by (simp add: find_same_posting)
  then have n: "post_new co today i (lg\<lparr>lg_chart := ensure_chart (lg_chart lg)\<rparr>) src d ls (\<not> gc_accounting_enabled co)
      = Inr (Some e, lg')"
    using q gl unfolding post_def Let_def by (simp add: guard_res_Inr_iff)
  obtain t where t: "next_number True (gc_numbering co) today (lg_series lg) ''JOURNAL_ENTRY'' None None = Inr (je_number e, t)"
    "lg' = lg\<lparr>lg_chart := ensure_chart (lg_chart lg), lg_entries := lg_entries lg @ [e], lg_series := t\<rparr>"
    by (rule post_new_leaves [OF n, simplified])
  show thesis by (rule that [OF t])
qed

lemma numbers_stay_ahead:
  assumes ok: "journal_numbers_ahead co today lg"
    and n: "next_number True (gc_numbering co) today (lg_series lg) ''JOURNAL_ENTRY'' None None = Inr (n, t)"
  shows "n \<notin> je_number ` set (lg_entries lg)"
    and "lg_entries lg' = lg_entries lg @ [e] \<Longrightarrow> je_number e = n \<Longrightarrow> lg_series lg' = t \<Longrightarrow> journal_numbers_ahead co today lg'"
proof -
  let ?k = "(''JOURNAL_ENTRY'', resolve_keys (gc_numbering co) today None None)"
  obtain s t1 where s: "ensure_series ?k (lg_series lg) = Inr (s, t1)" "n = number_of s (sr_next s)"
    "t = set_series ?k (\<lambda>s. s\<lparr>sr_next := sr_next s + 1\<rparr>) t1"
    by (rule next_number_elim [OF n]) blast
  have below: "m < sr_next s" if "x \<in> set (lg_entries lg)" "shape_of s (je_number x) = Some m" for x m
    using ok that by (auto simp: journal_numbers_ahead_def s(1) list_all_iff)
  show "n \<notin> je_number ` set (lg_entries lg)" using below s(2) by (metis imageE less_irrefl shape_of_number)
  have "find_series ?k t = Some (s\<lparr>sr_next := sr_next s + 1\<rparr>)"
    using ensure_series_spec(1) [OF s(1)] by (simp add: s(3) find_set_series)
  moreover have "map_of DEFAULT_PREFIXES ''JOURNAL_ENTRY'' \<noteq> None" by (simp add: DEFAULT_PREFIXES_def)
  ultimately have e: "ensure_series ?k t = Inr (s\<lparr>sr_next := sr_next s + 1\<rparr>, t)"
    by (cases "resolve_keys (gc_numbering co) today None None") (auto simp: ensure_series_def)
  show "journal_numbers_ahead co today lg'"
    if lg': "lg_entries lg' = lg_entries lg @ [e]" "je_number e = n" "lg_series lg' = t"
    unfolding journal_numbers_ahead_def lg'(3) e using below s(2) lg'(1,2)
    by (auto simp: list_all_iff less_Suc_eq split: option.splits)
qed

lemma application_posts:
  assumes ok: "journal_takes co today lg d" and gl: "posts_to_ledger co"
    and gate: "assert_period_allows_money_amend co lg d False = Inr ()"
    and v: "allocation_amounts_ok v" "pa_receipt_date v = Some d"
    and new: "(''PAYMENT_ALLOCATION'', pa_id v, ''ALLOCATE_RECEIPT'') \<notin> set (posted_sources (lg_entries lg))"
  obtains e lg' where "post_receipt_allocation co today i lg v = Inr (Some e, lg')"
    "journal_takes co today lg' d" "lg_gst lg' = lg_gst lg" "lg_periods lg' = lg_periods lg"
proof -
  let ?src = "(''PAYMENT_ALLOCATION'', pa_id v, ''ALLOCATE_RECEIPT'')"
  let ?next = "next_number True (gc_numbering co) today (lg_series lg) ''JOURNAL_ENTRY'' None None"
  have amt: "0 < pa_amount v" using v by (simp add: allocation_amounts_ok_def)
  have active: "list_all (\<lambda>c. find_account ga_active c (ensure_chart (lg_chart lg)) \<noteq> None) (map jl_account (allocation_lines v))"
    using ok application_accounts [of v] by (auto simp: journal_takes_def list_all_iff)
  obtain s t1 where s: "ensure_series (''JOURNAL_ENTRY'', resolve_keys (gc_numbering co) today None None) (lg_series lg) = Inr (s, t1)"
    using ok by (auto simp: journal_takes_def journal_numbers_ahead_def split: sum.splits)
  then obtain n t where n: "?next = Inr (n, t)" by (auto simp: next_number_def guard_res_def DEFAULT_PREFIXES_def)
  have "n \<notin> je_number ` set (lg_entries lg)"
    using ok n by (intro numbers_stay_ahead(1)) (simp_all add: journal_takes_def)
  moreover have "assert_period_allows_money_amend co lg d allow = Inr ()" for allow
    using gate by (auto simp: assert_period_allows_money_amend_def Let_def guard_res_Inr_iff blocking_def list_ex_iff)
  ultimately have "ready_for co today lg ?src d (allocation_lines v)"
    using ok gl new n resolve_active [OF active] active
    by (auto simp: ready_for_def journal_takes_def list_all_iff split: option.splits)
  moreover have "list_ex (\<lambda>l. jl_debit l \<noteq> 0 \<or> jl_credit l \<noteq> 0) (allocation_lines v)"
    using v by (auto simp: allocation_lines_def built_line allocation_amounts_ok_def nonneg_paise_def)
  ultimately obtain e lg' where e: "post_lines co today i lg ?src d (allocation_lines v) = Inr (Some e, lg')"
    using application.ledger_takes_it [OF v(1)] by blast
  obtain t' where t': "?next = Inr (je_number e, t')"
    "lg' = lg\<lparr>lg_chart := ensure_chart (lg_chart lg), lg_entries := lg_entries lg @ [e], lg_series := t'\<rparr>"
    by (rule post_lines_leaves [OF e gl new active])
  have "journal_numbers_ahead co today lg'"
    by (rule numbers_stay_ahead(2) [OF _ t'(1)]) (use ok t'(2) in \<open>simp_all add: journal_takes_def\<close>)
  moreover have "list_all (\<lambda>c. find_account ga_active c (ensure_chart (lg_chart lg')) \<noteq> None) APPLICATION_ACCOUNTS"
    using ok t'(2) ensure_chart_keeps unfolding journal_takes_def list_all_iff by force
  ultimately have "journal_takes co today lg' d" using ok by (simp add: journal_takes_def)
  moreover have "post_receipt_allocation co today i lg v = Inr (Some e, lg')"
    using e amt v(2) by (simp add: post_receipt_allocation_def opt_arg_def)
  ultimately show thesis using that t'(2) by simp
qed

section \<open>The loop with its journals\<close>

lemma tables_with_row:
  "money_tables (st\<lparr>ms_money := (ms_money st)\<lparr>db_allocs := db_allocs (ms_money st) @ rows\<rparr>\<rparr>) = with_rows (money_tables st) rows"
  by (simp add: money_tables_def with_rows_def)

lemma cash_paise:
  assumes "tables_ok co st" and "i < length (ms_receipts st)"
  shows "q2 (cash_available (money_tables st) (receipt_view co st i)) = cash_available (money_tables st) (receipt_view co st i)"
proof -
  have "q2 (lt_cash (live_totals_of (money_tables st) (receipt_view co st i)))
      = lt_cash (live_totals_of (money_tables st) (receipt_view co st i))"
    using assms(1) unfolding live_totals_of_def Let_def live_totals.select_convs
    by (intro paisa.fixed_sum_list) (auto simp: tables_ok_def list_all_iff allocation_fine_def paise_def)
  moreover have "q2 (refunded_total (money_tables st) (receipt_view co st i))
      = refunded_total (money_tables st) (receipt_view co st i)"
    using assms(1) unfolding refunded_of_state
    by (intro paisa.fixed_sum_list) (auto simp: tables_ok_def list_all_iff refund_fine_def paise_def)
  moreover have "q2 (cr_amount (ms_receipts st ! i)) = cr_amount (ms_receipts st ! i)"
    using assms by (simp add: tables_ok_def list_all_length receipt_fine_def paise_def)
  ultimately show ?thesis by (simp add: cash_available_def paisa.fixed_max paisa.fixed_diff)
qed

text \<open>One application: what the tables accept is posted, and the journal stays ready for the next.\<close>

lemma apply_receipt_succeeds:
  assumes al: "allocate_receipt (money_tables st) (receipt_view co st i) bill amount = Inr (db, a)" and ok: "money_ok co st"
    and co: "posts_to_ledger (mc_books co)" "fresh_keys key" and i: "i < length (ms_receipts st)"
    and j: "journal_takes (mc_books co) today (ms_ledger st) (cr_date (ms_receipts st ! i))"
  obtains st' where "apply_receipt co today key i bill amount st = Inr (st', a)"
    "money_tables st' = with_rows (money_tables st) [a]" "receipt_view co st' i = receipt_view co st i"
    "ms_receipts st' = ms_receipts st" "db_allocs (ms_money st') = db_allocs (ms_money st) @ [a]"
    "journal_takes (mc_books co) today (ms_ledger st') (cr_date (ms_receipts st ! i))"
proof -
  let ?k = "length (db_allocs (ms_money st))"
  let ?src = "(''PAYMENT_ALLOCATION'', int ?k, ''ALLOCATE_RECEIPT'')"
  let ?st = "st\<lparr>ms_money := (ms_money st)\<lparr>db_allocs := db_allocs (ms_money st) @ [a]\<rparr>\<rparr>"
  let ?v = "allocation_voucher ?k (ms_receipts st ! i) a"
  note e = allocate_receipt_elim [OF al, simplified]
  have tab: "tables_ok co st" and fine: "receipt_fine (ms_receipts st ! i)"
    using ok i by (simp_all add: money_ok_def tables_ok_def list_all_length)
  have "paise (al_discount a) \<and> paise (al_tds a)"
    by (rule shares_paise [OF e(5) [symmetric]]) (use fine live_totals_paise [OF tab] in \<open>simp_all add: receipt_fine_def\<close>)
  then have v: "allocation_amounts_ok ?v"
    using e(2,3) by (simp add: allocation_amounts_ok_def allocation_voucher_def paise_def nonneg_paise_def)
  have gate: "assert_period_allows_money_amend (mc_books co) (ms_ledger st) (cr_date (ms_receipts st ! i)) False = Inr ()"
    using e(16) by (simp add: receipt_view_def Let_def money_gate_def)
  have "?src \<notin> set (posted_sources (lg_entries (ms_ledger st)))"
  proof
    assume "?src \<in> set (posted_sources (lg_entries (ms_ledger st)))"
    then obtain x where x: "x \<in> set (lg_entries (ms_ledger st))" "je_status x = POSTED" "je_source x = ?src"
      by (auto simp: posted_sources_def)
    have "control (mc_books co) money_doc customer_doc ''2300'' (ms_ledger st) (mset (customer_docs st))"
      using ok by (simp add: money_ok_def books_agree_def booked_def)
    from advances.posted_doc [OF this x(1,2)] x(3) show False
      by (auto simp: customer_doc_def customer_docs_def docs_of_def)
  qed
  then obtain r lg where p: "post_receipt_allocation (mc_books co) today (key (ms_ledger st)) (ms_ledger st) ?v = Inr (Some r, lg)"
    and lg: "journal_takes (mc_books co) today lg (cr_date (ms_receipts st ! i))" "lg_gst lg = lg_gst (ms_ledger st)"
      "lg_periods lg = lg_periods (ms_ledger st)"
    using application_posts [OF j co(1) gate v, of "key (ms_ledger st)"] by (auto simp: allocation_voucher_def)
  have "apply_receipt co today key i bill amount st = Inr (?st\<lparr>ms_ledger := lg\<rparr>, a)"
    using p co(1) by (simp add: apply_receipt_def al e(1) book_def)
  moreover have "receipt_view co (?st\<lparr>ms_ledger := lg\<rparr>) i = receipt_view co st i"
    using lg(2,3) by (simp add: receipt_view_def Let_def money_gate_def assert_period_allows_money_amend_def)
  ultimately show thesis
    using that [of "?st\<lparr>ms_ledger := lg\<rparr>"] lg(1) by (simp add: tables_with_row)
qed

text \<open>The loop on the state makes exactly the applications of the loop on the tables.\<close>

definition applies_receipt :: "nat \<Rightarrow> allocation \<Rightarrow> bool" where
  "applies_receipt i a = (al_receipt a = Some (int i) \<and> \<not> al_reversed a)"

lemma apply_all_follows:
  assumes "allocate_all (receipt_view co st i) bills (money_tables st) remaining = Inr (db, created)"
    and "money_ok co st" and co: "posts_to_ledger (mc_books co)" "fresh_keys key" and "i < length (ms_receipts st)"
    and "journal_takes (mc_books co) today (ms_ledger st) (cr_date (ms_receipts st ! i))"
  shows "\<exists>st'. apply_all co today key i bills remaining st = Inr (st', created) \<and> money_ok co st' \<and>
    db_allocs (ms_money st') = db_allocs (ms_money st) @ created \<and> list_all (applies_receipt i) created"
  using assms(1,2,5,6)
proof (induction bills arbitrary: remaining st db created)
  case Nil
  then show ?case by simp
next
  case (Cons bill bills)
  define take where "take = max_cash_for_balance (receipt_view co st i) (sales_invoice_outstanding (money_tables st) bill)
    remaining (live_totals_of (money_tables st) (receipt_view co st i)) (refunded_total (money_tables st) (receipt_view co st i))"
  show ?case
  proof (cases "remaining \<le> 0 \<or> sales_invoice_outstanding (money_tables st) bill \<le> 0 \<or> take \<le> 0")
    case True
    then show ?thesis using Cons by (auto simp: Let_def take_def [symmetric] split: if_splits)
  next
    case False
    then obtain db1 a created' where s: "allocate_receipt (money_tables st) (receipt_view co st i) bill take = Inr (db1, a)"
      "allocate_all (receipt_view co st i) bills db1 (remaining - take) = Inr (db, created')" "created = a # created'"
      using Cons.prems(1) by (auto simp: Let_def take_def [symmetric] bind_res_Inr_iff)
    obtain st1 where st1: "apply_receipt co today key i bill take st = Inr (st1, a)"
      "money_tables st1 = with_rows (money_tables st) [a]" "receipt_view co st1 i = receipt_view co st i"
      "ms_receipts st1 = ms_receipts st" "db_allocs (ms_money st1) = db_allocs (ms_money st) @ [a]"
      "journal_takes (mc_books co) today (ms_ledger st1) (cr_date (ms_receipts st ! i))"
      by (rule apply_receipt_succeeds [OF s(1) Cons.prems(2) co Cons.prems(3,4)])
    have "db1 = money_tables st1"
      using allocate_receipt_elim(1) [OF s(1)] st1(2) by (simp add: with_rows_def)
    then have "allocate_all (receipt_view co st1 i) bills (money_tables st1) (remaining - take) = Inr (db, created')"
      using s(2) st1(3) by simp
    from Cons.IH [OF this apply_receipt_keeps [OF st1(1) Cons.prems(2) co Cons.prems(3)]] Cons.prems(3) st1(4,6)
    obtain st' where "apply_all co today key i bills (remaining - take) st1 = Inr (st', created')" "money_ok co st'"
      "db_allocs (ms_money st') = db_allocs (ms_money st1) @ created'" "list_all (applies_receipt i) created'"
      by auto
    moreover have "applies_receipt i a"
      using allocate_receipt_elim(7,10) [OF s(1)] by (simp add: applies_receipt_def)
    ultimately show ?thesis
      using False s(3) st1(1,5) by (auto simp: Let_def take_def [symmetric])
  qed
qed

lemma applications_booked:
  assumes "money_ok co st" and "db_allocs (ms_money st) = old @ created" and "list_all (applies_receipt i) created"
    and "k < length created"
  shows "\<exists>e\<in>set (lg_entries (ms_ledger st)). je_status e = POSTED \<and>
    je_source e = (''PAYMENT_ALLOCATION'', int (length old + k), ''ALLOCATE_RECEIPT'') \<and>
    net (je_lines e) ''2300'' = al_amount (created ! k) + al_tds (created ! k)"
proof -
  let ?src = "(''PAYMENT_ALLOCATION'', int (length old + k), ''ALLOCATE_RECEIPT'')"
  have "applies_receipt i (created ! k)" using assms(3,4) by (simp add: list_all_length)
  then have "(?src, al_amount (created ! k) + al_tds (created ! k)) \<in> set (customer_docs st)"
    using assms(2,4) by (auto simp: customer_docs_def docs_of_def applies_receipt_def nth_append image_iff
        intro!: exI [of _ "length old + k"])
  moreover have "mset (tracked_docs customer_doc ''2300'' (ms_ledger st)) = mset (customer_docs st)"
    using assms(1) by (simp add: money_ok_def books_agree_def booked_def control_def)
  ultimately have "(?src, al_amount (created ! k) + al_tds (created ! k)) \<in> set (tracked_docs customer_doc ''2300'' (ms_ledger st))"
    by (metis set_mset_mset)
  then show ?thesis by (auto simp: tracked_docs_def)
qed

lemma spreads_oldest_first:
  assumes ok: "money_ok co st" and co: "posts_to_ledger (mc_books co)" "fresh_keys key" and i: "i < length (ms_receipts st)"
    and rc: "cr_status (ms_receipts st ! i) = Rc_Posted" "\<not> cheque_blocks_allocation co (ms_receipts st ! i)"
    and takes: "money_gate co st (cr_date (ms_receipts st ! i)) False = Inr ()"
      "journal_takes (mc_books co) today (ms_ledger st) (cr_date (ms_receipts st ! i))"
    and bills: "distinct (map sb_pk bills)" "list_all (\<lambda>b. \<not> live_pair (money_tables st) (int i) (sb_pk b)) bills"
  shows "\<exists>st' created. apply_oldest_first co today key i bills st = Inr (st', created) \<and>
    db_allocs (ms_money st') = db_allocs (ms_money st) @ created \<and>
    served (receipt_view co st i) (sort_key bill_order (filter (can_allocate (receipt_view co st i)) bills))
      (money_tables st) created \<and>
    (\<forall>k<length created. \<exists>e\<in>set (lg_entries (ms_ledger st')). je_status e = POSTED \<and>
       je_source e = (''PAYMENT_ALLOCATION'', int (length (db_allocs (ms_money st)) + k), ''ALLOCATE_RECEIPT'') \<and>
       net (je_lines e) ''2300'' = al_amount (created ! k) + al_tds (created ! k))"
proof -
  let ?rc = "receipt_view co st i"
  have tab: "tables_ok co st" using ok by (simp add: money_ok_def)
  have view: "rc_posted ?rc" "\<not> rc_period_locked ?rc" "\<not> rc_cheque_blocks ?rc"
    using rc takes by (simp_all add: receipt_view_def Let_def)
  have "receipt_ok (money_tables st) ?rc" using tab i by (simp add: tables_ok_def never_overspent_def)
  then obtain created where c: "allocate_receipt_oldest_first (money_tables st) ?rc bills = Inr (with_rows (money_tables st) created, created)"
    and s: "served ?rc (sort_key bill_order (filter (can_allocate ?rc) bills)) (money_tables st) created"
    using oldest_first_serves [OF view _ cash_paise [OF tab i] bills(1)] bills(2) by auto
  have "allocate_all ?rc (sort_key bill_order (filter (can_allocate ?rc) bills)) (money_tables st)
      (cash_available (money_tables st) ?rc) = Inr (with_rows (money_tables st) created, created)"
    using c view(3) by (simp add: allocate_receipt_oldest_first_def eligible)
  from apply_all_follows [OF this ok co i takes(2)] obtain st' where st':
    "apply_all co today key i (sort_key bill_order (filter (can_allocate ?rc) bills)) (cash_available (money_tables st) ?rc) st
      = Inr (st', created)" "money_ok co st'" "db_allocs (ms_money st') = db_allocs (ms_money st) @ created"
    "list_all (applies_receipt i) created" by blast
  have "apply_oldest_first co today key i bills st = Inr (st', created)"
    using st'(1) view(3) by (simp add: apply_oldest_first_def eligible)
  then show ?thesis using st'(3) s applications_booked [OF st'(2,3,4)] by blast
qed

end
