(* ===== verification/Money_Books.thy ===== *)
theory Money_Books
  imports Receipt_Spread
begin

text \<open>
  The runs of the money documents.  \<open>money_step\<close> is one operation, a posting of another document or a
  change of the surroundings, \<open>money_reachable\<close> the states such steps reach from empty tables.  In every one
  of them the control accounts tie to the documents, nothing is spent twice, a bounced cheque is final and a
  receipt can be spread over the open bills.
\<close>

section \<open>Every way the money documents change\<close>

text \<open>
  The operations of the component; any posting or reversal of another document's journal, on whatever
  accounts (a purchase credit note on a paid bill and a counter refund use the two control accounts, a
  manual journal may); and changes of the surroundings (periods, bank matches, tills, bank accounts,
  notes on invoices, the chart) that leave the rows and the journal entries alone.  The refund of a
  gateway payment is not a step.
\<close>

inductive money_step :: "money_company \<Rightarrow> (ledger \<Rightarrow> int) \<Rightarrow> money_state \<Rightarrow> money_state \<Rightarrow> bool"
  for co :: money_company and key :: "ledger \<Rightarrow> int" where
  creates: "create_receipt co today key rq st = Inr (st', w) \<Longrightarrow> money_step co key st st'"
| settles: "settle_completed_invoice_payment co today key c bill tendered mode n b st = Inr st' \<Longrightarrow> money_step co key st st'"
| applies: "apply_receipt co today key i bill amount st = Inr (st', a) \<Longrightarrow> i < length (ms_receipts st) \<Longrightarrow>
     money_step co key st st'"
| spreads: "apply_oldest_first co today key i bills st = Inr (st', created) \<Longrightarrow> i < length (ms_receipts st) \<Longrightarrow>
     money_step co key st st'"
| unallocates: "unallocate co today key k st = Inr st' \<Longrightarrow> k < length (db_allocs (ms_money st)) \<Longrightarrow> money_step co key st st'"
| voids: "void_receipt co today key i reason over_match over_till st = Inr st' \<Longrightarrow> i < length (ms_receipts st) \<Longrightarrow>
     money_step co key st st'"
| reassigns: "reassign_receipt_customer co today key i c reason st = Inr st' \<Longrightarrow> i < length (ms_receipts st) \<Longrightarrow>
     money_step co key st st'"
| edits: "edit_receipt co today key i ch st = Inr st' \<Longrightarrow> i < length (ms_receipts st) \<Longrightarrow> money_step co key st st'"
| refunds: "refund_advance co today key i rr st = Inr st' \<Longrightarrow> i < length (ms_receipts st) \<Longrightarrow> money_step co key st st'"
| unrefunds: "void_advance_refund co today key j reason st = Inr st' \<Longrightarrow> j < length (ms_refunds st) \<Longrightarrow> money_step co key st st'"
| cheques: "set_cheque_status co today key i new charge bills st = Inr st' \<Longrightarrow> i < length (ms_receipts st) \<Longrightarrow>
     money_step co key st st'"
| certifies: "set_tds_certificate today i received d reference st = Inr st' \<Longrightarrow> i < length (ms_receipts st) \<Longrightarrow> money_step co key st st'"
| pays: "create_supplier_payment co today key pbills pq st = Inr st' \<Longrightarrow> money_step co key st st'"
| applies_payment: "apply_payment co today key i pbill amount st = Inr st' \<Longrightarrow> q2 amount = amount \<Longrightarrow>
     i < length (ms_payments st) \<Longrightarrow> money_step co key st st'"
| voids_payment: "void_supplier_payment co today key i reason st = Inr st' \<Longrightarrow> i < length (ms_payments st) \<Longrightarrow> money_step co key st st'"
| supplier_cheques: "set_supplier_cheque_status co today key i new st = Inr st' \<Longrightarrow> i < length (ms_payments st) \<Longrightarrow>
     money_step co key st st'"
| elsewhere: "post (mc_books co) today (key (ms_ledger st)) (ms_ledger st) src d ls soft pre = Inr (r, lg) \<Longrightarrow>
     \<not> money_doc src \<Longrightarrow> fst src \<noteq> ''JOURNAL_REVERSAL'' \<Longrightarrow> money_step co key st (st\<lparr>ms_ledger := lg\<rparr>)"
| reverses_elsewhere: "reverse (mc_books co) today (key (ms_ledger st)) (ms_ledger st) e d soft = Inr (r, lg) \<Longrightarrow>
     e \<in> set (lg_entries (ms_ledger st)) \<Longrightarrow> \<not> money_doc (je_source e) \<Longrightarrow> fst (je_source e) \<noteq> ''JOURNAL_REVERSAL'' \<Longrightarrow>
     money_step co key st (st\<lparr>ms_ledger := lg\<rparr>)"
| surroundings: "ms_receipts st' = ms_receipts st \<Longrightarrow> ms_refunds st' = ms_refunds st \<Longrightarrow> ms_payments st' = ms_payments st \<Longrightarrow>
     db_allocs (ms_money st') = db_allocs (ms_money st) \<Longrightarrow> lg_entries (ms_ledger st') = lg_entries (ms_ledger st) \<Longrightarrow>
     chart_keeps ''2300'' (lg_chart (ms_ledger st')) \<Longrightarrow> chart_keeps ''1250'' (lg_chart (ms_ledger st')) \<Longrightarrow>
     money_step co key st st'"

inductive money_reachable :: "money_company \<Rightarrow> (ledger \<Rightarrow> int) \<Rightarrow> money_state \<Rightarrow> bool"
  for co :: money_company and key :: "ledger \<Rightarrow> int" where
  opened: "ms_receipts st = [] \<Longrightarrow> ms_refunds st = [] \<Longrightarrow> ms_payments st = [] \<Longrightarrow> db_allocs (ms_money st) = [] \<Longrightarrow>
     lg_entries (ms_ledger st) = [] \<Longrightarrow> chart_keeps ''2300'' (lg_chart (ms_ledger st)) \<Longrightarrow>
     chart_keeps ''1250'' (lg_chart (ms_ledger st)) \<Longrightarrow> money_reachable co key st"
| moved: "money_reachable co key st \<Longrightarrow> money_step co key st st' \<Longrightarrow> money_reachable co key st'"

lemma step_keeps:
  assumes "money_step co key st st'" and ok: "money_ok co st"
    and co: "posts_to_ledger (mc_books co)" "fresh_keys key"
  shows "money_ok co st'"
  using assms(1)
proof (cases rule: money_step.cases)
  case (elsewhere today src d ls soft pre r lg)
  have "booked (mc_books co) lg (mset (customer_docs st)) (mset (supplier_docs st))"
    by (rule booked_elsewhere [OF money_booked [OF ok] co(1) elsewhere(2) fresh_key [OF co(2)]])
      (use elsewhere(3,4) doc_is_money [of src] in auto)
  then show ?thesis unfolding elsewhere(1) by (rule money_ledger [OF ok])
next
  case (reverses_elsewhere today e d soft r lg)
  have "booked (mc_books co) lg (mset (customer_docs st)) (mset (supplier_docs st))"
    by (rule booked_reverse_other [OF money_booked [OF ok] co(1) reverses_elsewhere(3,2) fresh_key [OF co(2)]])
      (use reverses_elsewhere(4,5) doc_is_money [of "je_source e"] in auto)
  then show ?thesis unfolding reverses_elsewhere(1) by (rule money_ledger [OF ok])
next
  case surroundings
  have "alike st st'" using surroundings(1-4) by (simp add: alike_def list_all2_refl)
  then have "tables_ok co st'" "customer_docs st' = customer_docs st" "supplier_docs st' = supplier_docs st"
    using alike_tables alike_docs ok by (auto simp: money_ok_def)
  moreover have "booked (mc_books co) (ms_ledger st') (mset (customer_docs st)) (mset (supplier_docs st))"
    by (rule booked_keeps [OF money_booked [OF ok] surroundings(5-7)])
  ultimately show ?thesis by (simp add: money_ok_def books_agree_def)
next
  case spreads
  then show ?thesis using apply_oldest_keeps [OF _ ok co] by blast
next
  case voids_payment
  then show ?thesis using void_payment_keeps [OF _ ok co] by blast
next
  case creates
  then show ?thesis by (rule create_receipt_keeps [OF _ ok co])
next
  case settles
  then show ?thesis by (rule settle_keeps [OF _ ok co])
next
  case applies
  then show ?thesis by (rule apply_receipt_keeps [OF _ ok co])
next
  case unallocates
  then show ?thesis by (rule unallocate_keeps [OF _ ok co])
next
  case voids
  then show ?thesis by (rule void_receipt_keeps [OF _ ok co])
next
  case reassigns
  then show ?thesis by (rule reassign_keeps [OF _ ok co])
next
  case edits
  then show ?thesis by (rule edit_receipt_keeps [OF _ ok co])
next
  case refunds
  then show ?thesis by (rule refund_advance_keeps [OF _ ok co])
next
  case unrefunds
  then show ?thesis by (rule void_advance_refund_keeps [OF _ ok co])
next
  case cheques
  then show ?thesis by (rule set_cheque_keeps [OF _ ok co])
next
  case certifies
  then show ?thesis by (rule certificate_keeps [OF _ ok])
next
  case pays
  then show ?thesis by (rule create_payment_keeps [OF _ ok co])
next
  case supplier_cheques
  then show ?thesis using supplier_cheque_keeps [OF _ ok co] by blast
next
  case applies_payment
  then show ?thesis using apply_payment_keeps [OF _ ok co] by blast
qed

lemma reachable_ok:
  assumes "money_reachable co key st" and co: "posts_to_ledger (mc_books co)" "fresh_keys key"
  shows "money_ok co st"
  using assms(1)
proof (induction rule: money_reachable.induct)
  case (opened st)
  have "ledger_reachable (mc_books co) (ms_ledger st)" using opened.hyps(5) by (rule ledger_reachable.start)
  then show ?case using opened.hyps
    by (simp add: money_ok_def books_agree_def tables_ok_def never_overspent_def booked_def control_def others_quiet_def
        tracked_docs_def balances_def foreign_def customer_docs_def supplier_docs_def docs_of_def)
next
  case (moved st st')
  then show ?case using step_keeps co by blast
qed

section \<open>The control accounts tie to the documents\<close>

lemma one_point: "distinct ks \<Longrightarrow> (\<Sum>k\<leftarrow>ks. if k = x then c else 0) = (if x \<in> set ks then c else (0::rat))"
  by (induction ks) auto

lemma sum_by_group:
  fixes f :: "'a \<Rightarrow> rat"
  assumes "distinct ks" and "\<And>x. x \<in> set xs \<Longrightarrow> P x \<Longrightarrow> g x \<in> set ks"
  shows "(\<Sum>k\<leftarrow>ks. \<Sum>x\<leftarrow>filter (\<lambda>x. g x = k \<and> P x) xs. f x) = (\<Sum>x\<leftarrow>filter P xs. f x)"
  using assms(2)
proof (induction xs)
  case Nil
  then show ?case by simp
next
  case (Cons y ys)
  have "(\<Sum>k\<leftarrow>ks. \<Sum>x\<leftarrow>filter (\<lambda>x. g x = k \<and> P x) (y # ys). f x)
      = (\<Sum>k\<leftarrow>ks. (if k = g y then (if P y then f y else 0) else 0) + (\<Sum>x\<leftarrow>filter (\<lambda>x. g x = k \<and> P x) ys. f x))"
    by (intro arg_cong [where f = sum_list] map_cong) auto
  also have "\<dots> = (\<Sum>k\<leftarrow>ks. if k = g y then (if P y then f y else 0) else 0)
      + (\<Sum>k\<leftarrow>ks. \<Sum>x\<leftarrow>filter (\<lambda>x. g x = k \<and> P x) ys. f x)"
    by (rule sum_list_addf)
  finally show ?case using Cons one_point [OF assms(1), of "g y"] by (cases "P y") auto
qed

definition posted_receipts :: "money_state \<Rightarrow> nat list" where
  "posted_receipts st = filter (\<lambda>i. cr_status (ms_receipts st ! i) = Rc_Posted) [0..<length (ms_receipts st)]"

definition posted_payments :: "money_state \<Rightarrow> nat list" where
  "posted_payments st = filter (\<lambda>i. so_posted (ms_payments st ! i)) [0..<length (ms_payments st)]"

lemma sum_docs_receipts:
  fixes f :: "customer_receipt \<Rightarrow> rat" and g :: "paid_out \<Rightarrow> rat"
  shows
  "(\<Sum>r\<leftarrow>filter (\<lambda>r. cr_status r = Rc_Posted) (ms_receipts st). f r) = (\<Sum>i\<leftarrow>posted_receipts st. f (ms_receipts st ! i))"
  "(\<Sum>p\<leftarrow>filter so_posted (ms_payments st). g p) = (\<Sum>i\<leftarrow>posted_payments st. g (ms_payments st ! i))"
  using docs_of_sum [of "[]" "[]" "\<lambda>r. cr_status r = Rc_Posted" f "ms_receipts st"]
    docs_of_sum [of "[]" "[]" so_posted g "ms_payments st"]
  by (simp_all add: docs_of_def posted_receipts_def posted_payments_def comp_def)

lemma posted_at_index:
  "posted_receipt_at st n \<longleftrightarrow> n \<in> int ` set (posted_receipts st)" "posted_payment_at st n \<longleftrightarrow> n \<in> int ` set (posted_payments st)"
  by (force simp: posted_receipt_at_def posted_receipts_def image_iff, force simp: posted_payment_at_def posted_payments_def image_iff)

lemma customer_docs_total:
  assumes "tables_ok co st"
  shows "(\<Sum>d\<leftarrow>customer_docs st. snd d)
    = - (\<Sum>i\<leftarrow>posted_receipts st. receipt_unallocated (money_tables st) (receipt_view co st i))"
proof -
  let ?is = "posted_receipts st"
  let ?live = "\<lambda>a. al_receipt a \<noteq> None \<and> \<not> al_reversed a"
  let ?of = "\<lambda>i a. al_receipt a = Some (int i) \<and> \<not> al_reversed a"
  have d: "distinct ?is" "distinct (map (\<lambda>i. Some (int i)) ?is)" "distinct (map int ?is)"
    by (simp_all add: posted_receipts_def distinct_map inj_on_def)
  have a: "(\<Sum>i\<leftarrow>?is. \<Sum>a\<leftarrow>filter (?of i) (db_allocs (ms_money st)). f a) = (\<Sum>a\<leftarrow>filter ?live (db_allocs (ms_money st)). f a)"
    for f :: "allocation \<Rightarrow> rat"
  proof -
    have "(\<Sum>k\<leftarrow>map (\<lambda>i. Some (int i)) ?is. \<Sum>a\<leftarrow>filter (\<lambda>a. al_receipt a = k \<and> ?live a) (db_allocs (ms_money st)). f a)
        = (\<Sum>a\<leftarrow>filter ?live (db_allocs (ms_money st)). f a)"
    proof (rule sum_by_group [OF d(2)])
      fix a assume "a \<in> set (db_allocs (ms_money st))" "?live a"
      then have "\<exists>n. al_receipt a = Some n \<and> posted_receipt_at st n"
        using assms by (auto simp: tables_ok_def list_all_iff allocation_fine_def)
      then show "al_receipt a \<in> set (map (\<lambda>i. Some (int i)) ?is)" by (auto simp: posted_at_index)
    qed
    moreover have pick: "filter (\<lambda>a. al_receipt a = Some (int i) \<and> ?live a) xs = filter (?of i) xs" for i xs
      by (rule filter_cong) auto
    ultimately show ?thesis unfolding map_map comp_def pick by blast
  qed
  have neg: "(\<Sum>i\<leftarrow>js. - f i - g i) = - (\<Sum>i\<leftarrow>js. f i) - (\<Sum>i\<leftarrow>js. g i)" for f g :: "nat \<Rightarrow> rat" and js
    by (induction js) simp_all
  have r: "(\<Sum>i\<leftarrow>?is. \<Sum>f\<leftarrow>filter (\<lambda>f. int (ar_receipt f) = int i \<and> ar_posted f) (ms_refunds st). ar_amount f)
      = (\<Sum>f\<leftarrow>filter ar_posted (ms_refunds st). ar_amount f)"
    using assms sum_by_group [OF d(3), of "ms_refunds st" ar_posted "\<lambda>f. int (ar_receipt f)" ar_amount]
    by (simp add: comp_def tables_ok_def list_all_iff refund_fine_def posted_at_index)
  have "(\<Sum>i\<leftarrow>?is. receipt_unallocated (money_tables st) (receipt_view co st i))
      = (\<Sum>i\<leftarrow>?is. cr_amount (ms_receipts st ! i) + cr_tds (ms_receipts st ! i)
          - (\<Sum>a\<leftarrow>filter (?of i) (db_allocs (ms_money st)). al_amount a)
          - (\<Sum>a\<leftarrow>filter (?of i) (db_allocs (ms_money st)). al_tds a)
          - (\<Sum>f\<leftarrow>filter (\<lambda>f. int (ar_receipt f) = int i \<and> ar_posted f) (ms_refunds st). ar_amount f))"
    by (simp add: receipt_unallocated_def live_totals_of_def Let_def refunded_of_state)
  also have "\<dots> = (\<Sum>i\<leftarrow>?is. cr_amount (ms_receipts st ! i) + cr_tds (ms_receipts st ! i))
      - (\<Sum>a\<leftarrow>filter ?live (db_allocs (ms_money st)). al_amount a) - (\<Sum>a\<leftarrow>filter ?live (db_allocs (ms_money st)). al_tds a)
      - (\<Sum>f\<leftarrow>filter ar_posted (ms_refunds st). ar_amount f)"
    unfolding sum_list_subtractf a r ..
  finally show ?thesis
    unfolding customer_docs_def by (simp add: docs_of_sum sum_docs_receipts sum_list_addf neg)
qed

lemma supplier_docs_total:
  assumes "tables_ok co st"
  shows "(\<Sum>d\<leftarrow>supplier_docs st. snd d)
    = (\<Sum>i\<leftarrow>posted_payments st. so_amount (ms_payments st ! i) + so_tds (ms_payments st ! i)
        - supplier_allocated (money_tables st) (payment_view co st i))"
proof -
  let ?is = "posted_payments st"
  let ?live = "\<lambda>a. al_payment a \<noteq> None \<and> \<not> al_reversed a"
  have d: "distinct (map (\<lambda>i. Some (int i)) ?is)"
    by (simp add: posted_payments_def distinct_map inj_on_def)
  have g: "(\<Sum>k\<leftarrow>map (\<lambda>i. Some (int i)) ?is. \<Sum>a\<leftarrow>filter (\<lambda>a. al_payment a = k \<and> ?live a) (db_allocs (ms_money st)). al_amount a)
      = (\<Sum>a\<leftarrow>filter ?live (db_allocs (ms_money st)). al_amount a)"
  proof (rule sum_by_group [OF d])
    fix a assume "a \<in> set (db_allocs (ms_money st))" "?live a"
    then have "\<exists>n. al_payment a = Some n \<and> posted_payment_at st n"
      using assms by (auto simp: tables_ok_def list_all_iff allocation_fine_def)
    then show "al_payment a \<in> set (map (\<lambda>i. Some (int i)) ?is)" by (auto simp: posted_at_index)
  qed
  have pick: "filter (\<lambda>a. al_payment a = Some (int i) \<and> ?live a) xs
      = filter (\<lambda>a. al_payment a = Some (int i) \<and> \<not> al_reversed a) xs" for i xs
    by (rule filter_cong) auto
  have a: "(\<Sum>i\<leftarrow>?is. supplier_allocated (money_tables st) (payment_view co st i))
      = (\<Sum>a\<leftarrow>filter ?live (db_allocs (ms_money st)). al_amount a)"
    using g unfolding map_map comp_def pick by (simp add: supplier_allocated_def)
  have neg: "(\<Sum>a\<leftarrow>xs. - al_amount a) = - (\<Sum>a\<leftarrow>xs. al_amount a)" for xs by (induction xs) simp_all
  show ?thesis
    unfolding supplier_docs_def sum_list_subtractf a by (simp add: docs_of_sum sum_docs_receipts neg)
qed

lemma sum_docs_mset: "(\<Sum>d\<in>#mset ds. snd d) = (\<Sum>d\<leftarrow>ds. snd d :: rat)"
  by (metis mset_map sum_mset_sum_list)

text \<open>
  C3. In every state the money documents can reach, the two control accounts of the books tie to the
  documents: account 2300 (customer advances) holds exactly what the posted receipts have not applied or
  handed back, account 1250 (supplier advances) what the posted payments have not applied, each plus what
  the live journals of other documents (counter refunds, purchase credit notes, manual journals) leave in
  it; where no other document posts to the account it equals the documents alone.  Posting to the ledger is
  on throughout; refunds of gateway payments are not among the steps.
\<close>

theorem control_accounts_tie:
  assumes "money_reachable co key st" and "posts_to_ledger (mc_books co)" and "fresh_keys key"
  shows "balances (ms_ledger st) ''2300''
      = foreign money_doc ''2300'' (ms_ledger st)
        - (\<Sum>i\<leftarrow>posted_receipts st. receipt_unallocated (money_tables st) (receipt_view co st i)) \<and>
    balances (ms_ledger st) ''1250''
      = foreign money_doc ''1250'' (ms_ledger st)
        + (\<Sum>i\<leftarrow>posted_payments st. so_amount (ms_payments st ! i) + so_tds (ms_payments st ! i)
          - supplier_allocated (money_tables st) (payment_view co st i))"
proof -
  note ok = reachable_ok [OF assms, unfolded money_ok_def books_agree_def booked_def control_def]
  then show ?thesis
    using customer_docs_total [of co st] supplier_docs_total [of co st] by (simp add: sum_docs_mset)
qed


lemma unposted_is_free:
  assumes "tables_ok co st" and "cr_status (ms_receipts st ! i) \<noteq> Rc_Posted"
  shows "lt_cash (live_totals_of (money_tables st) (receipt_view co st i)) = 0"
    and "refunded_total (money_tables st) (receipt_view co st i) = 0"
proof -
  have none: "filter (\<lambda>a. al_receipt a = Some (int i) \<and> \<not> al_reversed a) (db_allocs (ms_money st)) = []"
    "filter (\<lambda>f. int (ar_receipt f) = int i \<and> ar_posted f) (ms_refunds st) = []"
    using assms
    by (auto simp: filter_empty_conv tables_ok_def list_all_iff allocation_fine_def refund_fine_def posted_receipt_at_def)
  show "lt_cash (live_totals_of (money_tables st) (receipt_view co st i)) = 0"
    using none(1) by (simp add: live_totals_of_def Let_def)
  show "refunded_total (money_tables st) (receipt_view co st i) = 0"
    unfolding refunded_of_state using none(2) by simp
qed


section \<open>A bounced cheque stays bounced\<close>

text \<open>No step brings a voided receipt or a bounced cheque back.\<close>

definition settled_fate :: "money_state \<Rightarrow> money_state \<Rightarrow> bool" where
  "settled_fate st st' = (length (ms_receipts st) \<le> length (ms_receipts st') \<and>
     (\<forall>i<length (ms_receipts st).
        (cr_status (ms_receipts st ! i) = Rc_Voided \<longrightarrow> cr_status (ms_receipts st' ! i) = Rc_Voided) \<and>
        (cr_cheque (ms_receipts st ! i) = Bounced \<longrightarrow> cr_cheque (ms_receipts st' ! i) = Bounced)))"

lemma fate_same: "ms_receipts st' = ms_receipts st \<Longrightarrow> settled_fate st st'"
  by (simp add: settled_fate_def)

lemma fate_set:
  assumes "i < length (ms_receipts st)" "ms_receipts st' = (ms_receipts st)[i := r]"
    and "cr_status (ms_receipts st ! i) = Rc_Voided \<Longrightarrow> cr_status r = Rc_Voided"
    and "cr_cheque (ms_receipts st ! i) = Bounced \<Longrightarrow> cr_cheque r = Bounced"
  shows "settled_fate st st'"
  using assms by (simp add: settled_fate_def nth_list_update)

lemma fate_set_receipt:
  assumes "i < length (ms_receipts st)" "ms_receipts st1 = ms_receipts st"
    and "cr_status (ms_receipts st ! i) = Rc_Voided \<Longrightarrow> cr_status (f (ms_receipts st ! i)) = Rc_Voided"
    and "cr_cheque (ms_receipts st ! i) = Bounced \<Longrightarrow> cr_cheque (f (ms_receipts st ! i)) = Bounced"
  shows "settled_fate st (set_receipt i f st1)"
  by (rule fate_set [OF assms(1), where r = "f (ms_receipts st ! i)"]) (use assms in \<open>simp_all add: set_receipt_def\<close>)

lemma fate_append: "ms_receipts st' = ms_receipts st @ rs \<Longrightarrow> settled_fate st st'"
  by (simp add: settled_fate_def nth_append)

lemma fate_trans: "settled_fate a b \<Longrightarrow> settled_fate b c \<Longrightarrow> settled_fate a c"
  unfolding settled_fate_def by (meson order_trans less_le_trans)

lemma fate_void:
  assumes "void_receipt co today key i reason over_match over_till st = Inr st'" and "money_ok co st"
    and co: "posts_to_ledger (mc_books co)" "fresh_keys key" and i: "i < length (ms_receipts st)"
  shows "settled_fate st st'"
proof -
  note v = void_receipt_voids [OF assms]
  have "(cr_status (ms_receipts st ! j) = Rc_Voided \<longrightarrow> cr_status (ms_receipts st' ! j) = Rc_Voided) \<and>
    (cr_cheque (ms_receipts st ! j) = Bounced \<longrightarrow> cr_cheque (ms_receipts st' ! j) = Bounced)" for j
    using v(2,3) v(4) [of j] by (cases "j = i") auto
  then show ?thesis using v(1) by (simp add: settled_fate_def)
qed

lemma book_receipts: "book co f st = Inr st' \<Longrightarrow> ms_receipts st' = ms_receipts st"
  by (auto simp: book_def bind_res_Inr_iff split: if_splits)

lemma unbook_receipts: "unbook co f st = Inr st' \<Longrightarrow> ms_receipts st' = ms_receipts st"
  by (auto simp: unbook_def bind_res_Inr_iff split: if_splits)

lemma fate_mark:
  assumes "i < length (ms_receipts st)" "cr_cheque (ms_receipts st ! i) \<noteq> Bounced"
  shows "settled_fate st (set_receipt i (\<lambda>r. r\<lparr>cr_cheque := new\<rparr>) st)"
  using assms by (intro fate_set_receipt) simp_all

lemma fate_bounce:
  assumes b: "bounce_cheque co today key i charge st = Inr st'" and ok: "money_ok co st"
    and co: "posts_to_ledger (mc_books co)" "fresh_keys key" and i: "i < length (ms_receipts st)"
  shows "settled_fate st st'"
proof (rule bounce_cheque_elim [OF b co(1)], goal_cases)
  case (1 st1 fee m lg)
  have i1: "i < length (ms_receipts st1)" using void_receipt_voids(1) [OF 1(1) ok co i] i by simp
  have "settled_fate st1 st'" unfolding 1(2)
    by (rule fate_set [OF i1, where r = "(ms_receipts st1 ! i)\<lparr>cr_cheque := Bounced, cr_fee := fee\<rparr>"])
      (simp_all add: set_receipt_def)
  then show ?case by (rule fate_trans [OF fate_void [OF 1(1) ok co i]])
qed

lemma step_fate:
  assumes "money_step co key st st'" and ok: "money_ok co st"
    and co: "posts_to_ledger (mc_books co)" "fresh_keys key"
  shows "settled_fate st st'"
  using assms(1)
proof (cases rule: money_step.cases)
  case (creates today rq w)
  show ?thesis by (rule created_receipt [OF creates]) (rule fate_append)
next
  case (settles today c bill tendered mode n b)
  show ?thesis
  proof (rule settle_elim [OF settles], goal_cases)
    case 1
    then show ?case by (simp add: fate_same)
  next
    case (2 rq st1 w amount a)
    show ?case by (rule created_receipt [OF 2(1)]) (use apply_receipt_frame [OF 2(2)] in \<open>auto intro: fate_append\<close>)
  qed
next
  case (applies today i bill amount a)
  then show ?thesis using apply_receipt_frame by (intro fate_same) blast
next
  case (spreads today i bills created)
  then show ?thesis using apply_oldest_keeps [OF spreads(1) ok co spreads(2)] by (intro fate_same) blast
next
  case (unallocates today k)
  then show ?thesis using unallocate_frame [OF _ co(1)] by (intro fate_same) blast
next
  case (voids today i reason over_match over_till)
  then show ?thesis using fate_void [OF _ ok co] by blast
next
  case (reassigns today i c reason)
  show ?thesis
  proof (rule reassign_elim [OF reassigns(1)], goal_cases)
    case (1 st1)
    have "ms_receipts st1 = ms_receipts st" by (rule book_receipts [OF 1(1)])
    then show ?case unfolding 1(2) by (intro fate_set_receipt [OF reassigns(2)]) simp_all
  qed
next
  case (edits today i ch)
  show ?thesis
  proof (rule edit_receipt_elim [OF edits(1)], goal_cases)
    case (1 r st1)
    have "ms_receipts st1 = ms_receipts st" using 1(3) book_receipts by blast
    then show ?case unfolding 1(2)
      by (intro fate_set_receipt [OF edits(2)]) (use 1(1) in \<open>simp_all add: same_money_def\<close>)
  qed
next
  case (refunds today i rr)
  show ?thesis
    by (rule refund_advance_elim [OF refunds(1)], rule fate_same) (auto dest: book_receipts)
next
  case (unrefunds today j reason)
  then show ?thesis
    by (intro fate_same) (auto simp: void_advance_refund_def Let_def bind_res_Inr_iff guard_res_Inr_iff set_refund_def
        reverse_money_document_journal_def dest!: unbook_receipts split: if_splits)
next
  case (cheques today i new charge bills)
  show ?thesis
  proof (rule set_cheque_elim [OF cheques(1)], goal_cases)
    case 1
    then show ?case using fate_bounce [OF _ ok co cheques(2)] by blast
  next
    case 2
    then show ?case using fate_mark [OF cheques(2)] by simp
  next
    case 3
    let ?st1 = "set_receipt i (\<lambda>r. r\<lparr>cr_cheque := new\<rparr>) st"
    have "money_ok co ?st1"
      by (rule set_receipt_keeps [OF alike_set_receipt ok]) (use cheques(2) 3(1) in simp_all)
    then have "ms_receipts st' = ms_receipts ?st1"
      using apply_intent_keeps [OF 3(3) _ co] cheques(2) by (simp add: set_receipt_def)
    then show ?case using fate_trans [OF fate_mark [OF cheques(2) 3(2)] fate_same] by blast
  qed
next
  case (certifies today i received d reference)
  then show ?thesis
    by (auto simp: set_tds_certificate_def Let_def guard_res_Inr_iff set_receipt_def intro!: fate_set)
next
  case (pays today pbills pq)
  show ?thesis by (rule create_payment_elim [OF pays], rule fate_same) (auto dest: book_receipts)
next
  case (applies_payment today i pbill amount)
  then show ?thesis
    by (intro fate_same) (auto simp: apply_payment_def Let_def bind_res_Inr_iff dest!: book_receipts)
next
  case (voids_payment today i reason)
  then show ?thesis using void_payment_keeps [OF _ ok co] by (intro fate_same) blast
next
  case (supplier_cheques today i new)
  then show ?thesis using supplier_cheque_keeps [OF _ ok co] by (intro fate_same) blast
next
  case elsewhere
  then show ?thesis by (simp add: fate_same)
next
  case reverses_elsewhere
  then show ?thesis by (simp add: fate_same)
next
  case surroundings
  then show ?thesis by (simp add: fate_same)
qed

lemma bounced_is_voided:
  assumes "money_ok co st" and "i < length (ms_receipts st)" and "cr_cheque (ms_receipts st ! i) = Bounced"
  shows "cr_status (ms_receipts st ! i) = Rc_Voided"
  using assms by (auto simp: money_ok_def tables_ok_def list_all_length receipt_fine_def)

lemma settled_fate_onwards:
  assumes "(money_step co key)\<^sup>*\<^sup>* st st'" and ok: "money_ok co st"
    and co: "posts_to_ledger (mc_books co)" "fresh_keys key"
  shows "money_ok co st' \<and> settled_fate st st'"
  using assms(1)
proof (induction rule: rtranclp_induct)
  case base
  then show ?case using ok by (simp add: fate_same)
next
  case (step st1 st2)
  then show ?case using step_keeps [OF step.hyps(2) _ co] fate_trans [OF _ step_fate [OF step.hyps(2) _ co]] by blast
qed

text \<open>
  C13. A bounced cheque is final: whatever is done after it, the receipt stays voided and bounced, and none of its
  money is applied to a bill or handed back.
\<close>

theorem bounced_is_final:
  assumes "money_reachable co key st" and "posts_to_ledger (mc_books co)" and "fresh_keys key"
    and "i < length (ms_receipts st)" and "cr_cheque (ms_receipts st ! i) = Bounced"
    and "(money_step co key)\<^sup>*\<^sup>* st st'"
  shows "i < length (ms_receipts st') \<and> cr_cheque (ms_receipts st' ! i) = Bounced \<and>
    cr_status (ms_receipts st' ! i) = Rc_Voided \<and>
    lt_cash (live_totals_of (money_tables st') (receipt_view co st' i)) = 0 \<and>
    refunded_total (money_tables st') (receipt_view co st' i) = 0"
proof -
  have ok: "money_ok co st" by (rule reachable_ok [OF assms(1-3)])
  then have ok': "money_ok co st'" and fate: "settled_fate st st'"
    using settled_fate_onwards [OF assms(6) _ assms(2,3)] by auto
  have gone: "cr_status (ms_receipts st' ! i) = Rc_Voided"
    using fate bounced_is_voided [OF ok assms(4,5)] assms(4) by (simp add: settled_fate_def)
  then show ?thesis
    using fate assms(4,5) unposted_is_free [of co st' i] ok' by (simp add: settled_fate_def money_ok_def)
qed

section \<open>Spreading a receipt, oldest bill first\<close>

text \<open>
  C34. Spreading a receipt serves the oldest bills first.  In every reachable state, take a posted receipt
  that no pending cheque holds back, dated in an open month and period and not before the books start, that
  has no live allocation to the bills yet, and books that can take the entries (the accounts of an
  application are active and the counter of journal entries is ahead of the numbers given).  Then the call
  returns.  The bills of the customer that are open are served in order of due date, bill date and key:
  each takes the largest amount of paise that fits the cash left at its turn and, with the discount and TDS
  that amount carries, what the bill owes.  The rows it returns are the rows it adds, and each has a posted
  journal that moves its amount and TDS off the customer advances account.
\<close>

theorem oldest_first_served:
  assumes "money_reachable co key st" and "posts_to_ledger (mc_books co)" and "fresh_keys key"
    and "i < length (ms_receipts st)" and "cr_status (ms_receipts st ! i) = Rc_Posted"
    and "\<not> cheque_blocks_allocation co (ms_receipts st ! i)"
    and "money_gate co st (cr_date (ms_receipts st ! i)) False = Inr ()"
    and "journal_takes (mc_books co) today (ms_ledger st) (cr_date (ms_receipts st ! i))"
    and "distinct (map sb_pk bills)" and "list_all (\<lambda>b. \<not> live_pair (money_tables st) (int i) (sb_pk b)) bills"
  shows "\<exists>st' created. apply_oldest_first co today key i bills st = Inr (st', created) \<and>
    db_allocs (ms_money st') = db_allocs (ms_money st) @ created \<and>
    served (receipt_view co st i) (sort_key bill_order (filter (can_allocate (receipt_view co st i)) bills))
      (money_tables st) created \<and>
    (\<forall>k<length created. \<exists>e\<in>set (lg_entries (ms_ledger st')). je_status e = POSTED \<and>
       je_source e = (''PAYMENT_ALLOCATION'', int (length (db_allocs (ms_money st)) + k), ''ALLOCATE_RECEIPT'') \<and>
       net (je_lines e) ''2300'' = al_amount (created ! k) + al_tds (created ! k))"
  by (rule spreads_oldest_first [OF reachable_ok [OF assms(1-3)] assms(2-10)])

section \<open>A worked example\<close>

text \<open>
  A shop that holds cheques until they clear takes one for 100, to be applied with 30 to bill 5 when it
  clears; then the bank returns it and charges 50.
\<close>

definition demo_payer :: payer where
  "demo_payer = \<lparr>cu_id = 1, cu_company = 1, cu_walk_in = False\<rparr>"

definition demo_shop :: money_company where
  "demo_shop = \<lparr>mc_id = 1, mc_books = example_books, mc_hold_cheques = True, mc_269st = [],
     mc_need_reference = False, mc_dishonour_charge = Missing\<rparr>"

definition empty_shop :: money_state where
  "empty_shop = \<lparr>ms_receipts = [], ms_refunds = [], ms_payments = [], ms_money = empty_money, ms_matches = [],
     ms_feeds = [], ms_tills = [], ms_banks = [], ms_ledger = new_ledger\<rparr>"

definition demo_cheque :: receipt_request where
  "demo_cheque = \<lparr>rq_customer = demo_payer, rq_amount = 100, rq_mode = ''CHEQUE'', rq_date = Some (Date 2026 4 2),
     rq_reference = [], rq_notes = [], rq_bank = None, rq_utr = [], rq_gateway_source = False, rq_gateway = None,
     rq_warn_utr = False, rq_bypass_gate = False, rq_cheque_number = ''12'', rq_cheque_bank = ''SBI'',
     rq_discount = 0, rq_tds = 0, rq_tendered = None, rq_change = 0, rq_need_bank = False, rq_on_clear = True,
     rq_wanted_bill = Some 5, rq_wanted_amount = Some 30\<rparr>"

definition demo_day :: date where "demo_day = Date 2026 4 3"

definition reached :: "money_state res \<Rightarrow> money_state" where
  "reached r = (case r of Inr st \<Rightarrow> st | Inl _ \<Rightarrow> empty_shop)"

definition succeeds :: "'a res \<Rightarrow> bool" where
  "succeeds r = (case r of Inr _ \<Rightarrow> True | Inl _ \<Rightarrow> False)"

definition cheque_taken :: "money_state res" where
  "cheque_taken = bind_res (create_receipt demo_shop demo_day next_key demo_cheque empty_shop) (\<lambda>(st, _). Inr st)"

definition move_cheque :: "cheque_status \<Rightarrow> money_state \<Rightarrow> money_state res" where
  "move_cheque new = set_cheque_status demo_shop demo_day next_key 0 new Missing [Receipts.sample_bill]"

definition cheque_cleared :: "money_state res" where
  "cheque_cleared = bind_res cheque_taken (move_cheque Cleared)"

definition cheque_back :: "money_state res" where
  "cheque_back = bind_res cheque_cleared
     (set_cheque_status demo_shop demo_day next_key 0 Bounced (Charge 50) [])"

text \<open>One evaluation of the example gives every fact below.\<close>

definition failure :: "'a res \<Rightarrow> err option" where
  "failure r = (case r of Inr _ \<Rightarrow> None | Inl e \<Rightarrow> Some e)"

definition month_soft_closed :: "money_state \<Rightarrow> money_state" where
  "month_soft_closed st = st\<lparr>ms_ledger := (ms_ledger st)\<lparr>lg_gst :=
     (\<lambda>m. if m = (2026, 4) then SOFT_CLOSED else OPEN)\<rparr>\<rparr>"

definition void_in_may :: "money_state \<Rightarrow> money_state res" where
  "void_in_may st = void_receipt demo_shop (Date 2026 5 4) next_key 0 ''entered twice'' False False (month_soft_closed st)"

text \<open>A counter refund of 20: another component's journal on the customer advances account.\<close>

definition counter_refund :: "money_state \<Rightarrow> (jentry option \<times> ledger) res" where
  "counter_refund st = post example_books demo_day (next_key (ms_ledger st)) (ms_ledger st) (''POS_REFUND'', 1, ''REFUND'')
     demo_day [dr ''2300'' 20 None, cr ''1100'' 20 None] False False"

definition after_refund :: "money_state \<Rightarrow> money_state" where
  "after_refund st = (case counter_refund st of Inr (_, lg) \<Rightarrow> st\<lparr>ms_ledger := lg\<rparr> | Inl _ \<Rightarrow> st)"

text \<open>Two more open bills, the younger first in the list, for the 70 the cleared cheque has left.\<close>

definition more_bills :: "sales_bill list" where
  "more_bills = [Receipts.sample_bill\<lparr>sb_pk := 7, sb_grand := 50, sb_date := Date 2026 4 2\<rparr>,
     Receipts.sample_bill\<lparr>sb_pk := 6, sb_grand := 40\<rparr>]"

definition spread_over :: "money_state \<Rightarrow> (money_state \<times> allocation list) res" where
  "spread_over st = apply_oldest_first demo_shop demo_day next_key 0 more_bills st"

definition spread_facts :: "money_state \<Rightarrow> bool" where
  "spread_facts st = (cr_status (ms_receipts st ! 0) = Rc_Posted \<and> \<not> cheque_blocks_allocation demo_shop (ms_receipts st ! 0)
     \<and> money_gate demo_shop st (cr_date (ms_receipts st ! 0)) False = Inr ()
     \<and> journal_takes example_books demo_day (ms_ledger st) (cr_date (ms_receipts st ! 0))
     \<and> list_all (\<lambda>b. \<not> live_pair (money_tables st) 0 (sb_pk b)) more_bills
     \<and> (case spread_over st of Inr (_, created) \<Rightarrow>
           map (\<lambda>a. (al_sales a, al_amount a)) created = [(Some 6, 40), (Some 7, 30)] \<and>
           list_all (\<lambda>a. al_tds a = 0) created | Inl _ \<Rightarrow> False))"

definition taken_facts :: "money_state \<Rightarrow> bool" where
  "taken_facts st = (length (ms_receipts st) = 1 \<and> succeeds (void_in_may st))"

definition cleared_facts :: "money_state \<Rightarrow> bool" where
  "cleared_facts st = (length (ms_receipts st) = 1 \<and> cr_amount (ms_receipts st ! 0) = 100
     \<and> succeeds (counter_refund st) \<and> balances (ms_ledger (after_refund st)) ''2300'' = - 50
     \<and> foreign money_doc ''2300'' (ms_ledger (after_refund st)) = 20
     \<and> foreign money_doc ''1250'' (ms_ledger (after_refund st)) = 0
     \<and> posted_receipts (after_refund st) = [0] \<and> posted_payments (after_refund st) = []
     \<and> \<not> succeeds (void_in_may st) \<and> spread_facts st
     \<and> failure (bind_res (move_cheque Pending_Clearance st) (move_cheque Cleared)) = Some (Runtime_Error ''IntegrityError''))"

definition back_facts :: "money_state \<Rightarrow> bool" where
  "back_facts st = (length (ms_receipts st) = 1 \<and> cr_cheque (ms_receipts st ! 0) = Bounced
     \<and> cr_status (ms_receipts st ! 0) = Rc_Voided
     \<and> succeeds (create_receipt demo_shop demo_day next_key demo_cheque st))"

definition demo_run :: "bool res" where
  "demo_run = bind_res cheque_taken (\<lambda>st1. bind_res (move_cheque Cleared st1) (\<lambda>st2.
     bind_res (set_cheque_status demo_shop demo_day next_key 0 Bounced (Charge 50) [] st2) (\<lambda>st3.
     Inr (taken_facts st1 \<and> cleared_facts st2 \<and> back_facts st3))))"

lemma demo_evaluated: "demo_run = Inr True"
  by code_simp

lemma demo_facts:
  "cheque_taken = Inr (reached cheque_taken)" "taken_facts (reached cheque_taken)"
  "move_cheque Cleared (reached cheque_taken) = Inr (reached cheque_cleared)" "cleared_facts (reached cheque_cleared)"
  "set_cheque_status demo_shop demo_day next_key 0 Bounced (Charge 50) [] (reached cheque_cleared) = Inr (reached cheque_back)"
  "back_facts (reached cheque_back)"
proof -
  obtain st1 st2 st3 where r: "cheque_taken = Inr st1" "move_cheque Cleared st1 = Inr st2"
    "set_cheque_status demo_shop demo_day next_key 0 Bounced (Charge 50) [] st2 = Inr st3"
    "taken_facts st1" "cleared_facts st2" "back_facts st3"
    using demo_evaluated by (auto simp: demo_run_def bind_res_Inr_iff)
  have two: "cheque_cleared = Inr st2"
    unfolding cheque_cleared_def by (subst r(1)) (simp add: r(2))
  have three: "cheque_back = Inr st3"
    unfolding cheque_back_def by (subst two) (simp add: r(3))
  have "reached cheque_taken = st1" "reached cheque_cleared = st2" "reached cheque_back = st3"
    unfolding reached_def by (subst r(1) two three, simp)+
  then show "cheque_taken = Inr (reached cheque_taken)" "taken_facts (reached cheque_taken)"
    "move_cheque Cleared (reached cheque_taken) = Inr (reached cheque_cleared)" "cleared_facts (reached cheque_cleared)"
    "set_cheque_status demo_shop demo_day next_key 0 Bounced (Charge 50) [] (reached cheque_cleared) = Inr (reached cheque_back)"
    "back_facts (reached cheque_back)" using r by simp_all
qed

lemma demo_steps:
  "money_reachable demo_shop next_key (reached cheque_taken)"
  "money_reachable demo_shop next_key (reached cheque_cleared)"
  "money_reachable demo_shop next_key (reached cheque_back)"
proof -
  have o: "money_reachable demo_shop next_key empty_shop" by (rule opened) code_simp+
  obtain w where c: "create_receipt demo_shop demo_day next_key demo_cheque empty_shop = Inr (reached cheque_taken, w)"
    using demo_facts(1) by (subst (asm) cheque_taken_def) (auto simp: bind_res_Inr_iff)
  show taken: "money_reachable demo_shop next_key (reached cheque_taken)" by (rule moved [OF o creates [OF c]])
  show cleared: "money_reachable demo_shop next_key (reached cheque_cleared)"
    by (rule moved [OF taken cheques [OF demo_facts(3) [unfolded move_cheque_def]]])
      (use demo_facts(2) in \<open>simp add: taken_facts_def\<close>)
  show "money_reachable demo_shop next_key (reached cheque_back)"
    by (rule moved [OF cleared cheques [OF demo_facts(5)]]) (use demo_facts(4) in \<open>simp add: cleared_facts_def\<close>)
qed

lemma demo_shop_posts: "posts_to_ledger (mc_books demo_shop)"
  by (simp add: demo_shop_def example_books_def posts_to_ledger_def)

lemma demo_refund_step: "money_reachable demo_shop next_key (after_refund (reached cheque_cleared))"
proof -
  obtain e lg where p: "counter_refund (reached cheque_cleared) = Inr (e, lg)"
    using demo_facts(4) by (auto simp: cleared_facts_def succeeds_def split: sum.splits)
  have "money_step demo_shop next_key (reached cheque_cleared) ((reached cheque_cleared)\<lparr>ms_ledger := lg\<rparr>)"
    by (rule elsewhere) (use p in \<open>auto simp: counter_refund_def demo_shop_def money_doc_def\<close>)
  from moved [OF demo_steps(2) this] show ?thesis by (simp add: after_refund_def p)
qed

theorem control_accounts_tie_witness:
  "balances (ms_ledger (after_refund (reached cheque_cleared))) ''2300'' = - 50 \<and>
   receipt_unallocated (money_tables (after_refund (reached cheque_cleared)))
     (receipt_view demo_shop (after_refund (reached cheque_cleared)) 0) = 70 \<and>
   balances (ms_ledger (after_refund (reached cheque_cleared))) ''1250'' = 0"
proof -
  let ?st = "after_refund (reached cheque_cleared)"
  have f: "balances (ms_ledger ?st) ''2300'' = - 50" "foreign money_doc ''2300'' (ms_ledger ?st) = 20"
    "foreign money_doc ''1250'' (ms_ledger ?st) = 0" "posted_receipts ?st = [0]" "posted_payments ?st = []"
    using demo_facts(4) by (simp_all only: cleared_facts_def)
  show ?thesis using control_accounts_tie [OF demo_refund_step demo_shop_posts next_key_fresh] unfolding f by simp
qed


theorem bounced_is_final_witness:
  "\<exists>st w. create_receipt demo_shop demo_day next_key demo_cheque (reached cheque_back) = Inr (st, w) \<and>
     cr_cheque (ms_receipts st ! 0) = Bounced \<and> cr_status (ms_receipts st ! 0) = Rc_Voided"
proof -
  have f: "0 < length (ms_receipts (reached cheque_back))" "cr_cheque (ms_receipts (reached cheque_back) ! 0) = Bounced"
    using demo_facts(6) by (simp_all add: back_facts_def)
  obtain st w where s: "create_receipt demo_shop demo_day next_key demo_cheque (reached cheque_back) = Inr (st, w)"
    using demo_facts(6) by (auto simp: back_facts_def succeeds_def split: sum.splits)
  have "(money_step demo_shop next_key)\<^sup>*\<^sup>* (reached cheque_back) st" by (rule r_into_rtranclp) (rule creates [OF s])
  from bounced_is_final [OF demo_steps(3) demo_shop_posts next_key_fresh f this] s show ?thesis by blast
qed

theorem oldest_first_served_witness:
  "\<exists>st' created. spread_over (reached cheque_cleared) = Inr (st', created) \<and> map al_amount created = [40, 30] \<and>
     (\<exists>e\<in>set (lg_entries (ms_ledger st')). je_status e = POSTED \<and> net (je_lines e) ''2300'' = 40)"
proof -
  let ?st = "reached cheque_cleared"
  have f: "0 < length (ms_receipts ?st)" "spread_facts ?st"
    using demo_facts(4) by (simp_all add: cleared_facts_def)
  then have g: "cr_status (ms_receipts ?st ! 0) = Rc_Posted" "\<not> cheque_blocks_allocation demo_shop (ms_receipts ?st ! 0)"
    "money_gate demo_shop ?st (cr_date (ms_receipts ?st ! 0)) False = Inr ()"
    "journal_takes (mc_books demo_shop) demo_day (ms_ledger ?st) (cr_date (ms_receipts ?st ! 0))"
    "list_all (\<lambda>b. \<not> live_pair (money_tables ?st) (int 0) (sb_pk b)) more_bills"
    by (simp_all add: spread_facts_def demo_shop_def)
  have d: "distinct (map sb_pk more_bills)" by (simp add: more_bills_def)
  obtain st' created where r: "spread_over ?st = Inr (st', created)" and
    e: "\<forall>k<length created. \<exists>e\<in>set (lg_entries (ms_ledger st')). je_status e = POSTED \<and>
       je_source e = (''PAYMENT_ALLOCATION'', int (length (db_allocs (ms_money ?st)) + k), ''ALLOCATE_RECEIPT'') \<and>
       net (je_lines e) ''2300'' = al_amount (created ! k) + al_tds (created ! k)"
    using oldest_first_served [OF demo_steps(2) demo_shop_posts next_key_fresh f(1) g(1-4) d g(5)]
    unfolding spread_over_def by blast
  have c: "map (\<lambda>a. (al_sales a, al_amount a)) created = [(Some 6, 40), (Some 7, 30)]" "list_all (\<lambda>a. al_tds a = 0) created"
    using f(2) r by (auto simp: spread_facts_def)
  then have "map al_amount created = [40, 30]" by (auto simp: map_eq_Cons_conv)
  moreover from this have "0 < length created" "al_amount (created ! 0) = 40" "al_tds (created ! 0) = 0"
    using c(2) by (auto simp: map_eq_Cons_conv)
  ultimately show ?thesis using r e by fastforce
qed

text \<open>
  A cheque that was cleared, marked as pending again and cleared once more is refused with a database error when its
  bill has already been paid from it: only business errors are caught, although clearing is meant to succeed always.
\<close>

lemma recleared_cheque_fails:
  "failure (bind_res (move_cheque Pending_Clearance (reached cheque_cleared)) (move_cheque Cleared))
    = Some (Runtime_Error ''IntegrityError'')"
  using demo_facts(4) by (simp add: cleared_facts_def)

text \<open>
  A receipt of a soft-closed month can be voided, but not once a part of it is applied to a bill: taking the
  application back asks for an open month, and the void has no way to pass on its own permission.
\<close>

lemma soft_closed_void_refused_when_applied:
  "succeeds (void_in_may (reached cheque_taken))" "\<not> succeeds (void_in_may (reached cheque_cleared))"
  using demo_facts(2,4) by (simp_all add: taken_facts_def cleared_facts_def)

end
