(* ===== verification/Spec2Isabelle.thy ===== *)
theory Spec2Isabelle
  imports Tax_Document Py_Date Sales_Orders Receipts Cost_Layers Stock_Ledger Doc_Numbers Amend_Postings Financial_Statements Pay_Runs Bill_Of_Materials Production Audit_Chain Depreciation Money_Books
begin

text \<open>
  Bizboard: a verification library for the backend's accounting, tax, stock and production logic.

  Bizboard (\<open>backend/\<close>) is a Django application for small Indian businesses.  Its views parse requests and its
  models store rows; the rules that decide what is billed, taxed, shipped, made, paid and counted are service
  functions over decimals, dates, strings and lists of rows.  This library models those functions, one theory per
  component, and states what they promise.  A record stands for a row, a list for a table in the order of its keys,
  a function on states for an operation inside its database transaction, and an error value for an exception, which
  rolls the transaction back.

  Foundations.  \<open>Prelude\<close>: exceptions as values (\<open>err\<close>, \<open>'a res\<close>), fallible loops, sums over lists.
  \<open>Py_Decimal\<close>: \<open>Decimal\<close> as exact rationals, with \<open>quantize\<close> (\<open>q2\<close>, \<open>q_rupee\<close>, \<open>quantize_even\<close>) and the
  28-digit context rounding of divisions and products written out (\<open>ddiv\<close>, \<open>dmul\<close>); sums and comparisons of
  amounts are exact because they stay far below 28 digits.  The locale \<open>quantizer\<close> is the contract of a rounding
  function, interpreted on the paisa, the rupee and the cost grids.  \<open>Py_String\<close> and \<open>Py_Date\<close>: the string and
  date operations of the standard library that the sources use, on ASCII strings.  \<open>Take_Rows\<close>: the loop ``take
  from each row until the need is met'' as the locale \<open>row_taker\<close>, interpreted on cost layers and on stock rows.

  Tax.  \<open>Gst_State\<close> (\<open>core/services/place_of_supply.py\<close> and the state functions of
  \<open>core/services/tax_engine/india.py\<close>), \<open>Hsn_Rates\<close> (\<open>masters/hsn_catalog.py\<close>), \<open>Discount_Alloc\<close>, \<open>Tax_Lines\<close>
  and \<open>Tax_Document\<close> (the India tax engine): which state a supply belongs to, which rate applies, the tax of a
  line, the allocation of an invoice discount, the totals of a document, reverse charge, and the recomputation under
  another registration.  The lemmas show that totals foot, the discount is allocated to the paisa, and a stamped
  total is the one that is confirmed.

  Selling, receiving, numbering.  \<open>Sales_Orders\<close> (\<open>sales/order_quantities.py\<close>): quantities and status of an
  order as its shipments and invoices change.  \<open>Receipts\<close> (\<open>payments/receipt_math.py\<close>, \<open>ledgers/services.py\<close>,
  \<open>payments/services.py\<close>): the shares an allocation clears, open balances, allocations.  The locale
  \<open>downward_search\<close> is the contract of the search for the largest fitting amount.  \<open>Doc_Numbers\<close>
  (\<open>core/services/document_numbers.py\<close>, \<open>sequences.py\<close>): series, claiming and configuring numbers; the locale
  \<open>consecutive_numbers\<close> is interpreted on series and on plain counters.

  Stock.  \<open>Cost_Layers\<close> and \<open>Stock_Ledger\<close> (\<open>inventory/services.py\<close>): weighted average and FIFO layers, the
  movements with their balance cache, reservations and their expiry; the state machine of stock operations and its
  invariants.

  Books.  \<open>General_Ledger\<close> (\<open>PostingService\<close> in \<open>accounting/services.py\<close>, \<open>accounting/books.py\<close>): the chart of
  accounts, the period gate, posting and reversal, and \<open>ledger_reachable\<close>, every state the books can reach; \<open>lock_reason\<close> says which lock
  refuses a date, apart from the gate.
  \<open>Vouchers\<close> holds the helpers every posting uses and the locale \<open>voucher_builder\<close>: if the lines a builder makes
  balance, in paise, the ledger takes them.  It is interpreted on the documents in \<open>Sales_Postings\<close>,
  \<open>Purchase_Postings\<close>, \<open>Note_Postings\<close>, \<open>Pay_Runs\<close>, \<open>Depreciation\<close> and \<open>Receipt_Spread\<close>; \<open>Amend_Postings\<close> adds amendments, bank
  openings and manufacturing documents.  \<open>Ledger_Reports\<close> and \<open>Financial_Statements\<close> (\<open>accounting/reports.py\<close>):
  balances from the lines or from the monthly rollup, the statements and the year-end close.

  Money documents.  \<open>Money_Documents\<close> (\<open>PaymentService\<close> in \<open>payments/services.py\<close>): one company's receipts, advance
  refunds, supplier payments, allocations, bank matches, tills and ledger as \<open>money_state\<close>, and every operation on
  them: creating, applying, unapplying, voiding, reassigning, editing, refunding, the states of a cheque.  The key of a
  row is its position; \<open>key\<close> supplies journal keys and is only assumed fresh.  \<open>Control_Accounts\<close> is the contract
  of an account whose balance is the sum of its documents and of what other documents' journals leave there, a locale
  interpreted in \<open>Money_Invariant\<close> on the customer and the supplier advances account.  \<open>Money_Operations\<close> shows that
  each operation keeps the documents and the books in agreement, \<open>Receipt_Spread\<close> that the loop over the open bills does
  on the whole state what it does on the tables, with a journal for each row.  \<open>Money_Books\<close> closes the operations and
  any postings and reversals of other documents into \<open>money_reachable\<close>: the control accounts tie to the documents in
  every reachable state, nothing is spent twice, a bounced cheque is final, a spread receipt serves the oldest bills
  first.  \<open>Receipts\<close> has the checks and rows of an allocation, \<open>Money_Documents\<close> the whole operation with its journal.

  Payroll, fixed assets, production, audit.  \<open>Payroll\<close> and \<open>Pay_Runs\<close> (\<open>payroll/services.py\<close>): a slip's
  statutory amounts, completing and cancelling a run.  \<open>Depreciation\<close> (\<open>accounting/depreciation.py\<close>,
  \<open>accounting/tasks.py\<close>): the monthly charge, the owner's run (which keeps the
  work on the assets before one that raises) and its preview, the nightly task, backfill and
  disposal; \<open>charges\<close> is the closure of the steps every route takes, from which the agreement of register and
  ledger follows once.  \<open>Bill_Of_Materials\<close> and \<open>Production\<close> (\<open>manufacturing/services/\<close>): the cycle check,
  revisions, the recipe in force, requirements, the explosion, the value of a receipt.  \<open>Audit_Chain\<close>
  (\<open>core/services/audit_chain.py\<close>): sealing and verifying the hash chain of audit events.

  Bounds and fuel.  The residual loop of the discount allocation runs on the code's own guard (number of lines plus
  two); \<open>discount_allocation_complete\<close> shows the guard is enough up to a discount of 10 to the 20.  Kits are looked
  through to depth 8 and recipes opened to level 10, the code's own limits; the cycle check, the explosion and the
  sealing of batches carry termination proofs over multisets and over the rows left.  The months of an asset run on
  the code's guard of 600, and 120 for the months before the nightly window.

  Parameters.  What is not under \<open>src/\<close> is an argument: \<open>sha\<close> is SHA-256 (\<open>good_hash\<close>: it does not collide and
  prints no line break), \<open>key\<close> the primary key of the next row (\<open>fresh_keys\<close>), \<open>today\<close> the local date.

  Not modelled.  Request parsing, serializers, permissions, rendering (PDF, spreadsheets, print), notifications,
  imports and exports of files, background scheduling, row-level security, tenant backup, the payment gateway, the
  agents and the web client: they move data between these rules and the outside.  The GST returns, the bank
  matching, material planning, job work and work orders are rules of their own that build on the theories here.
\<close>

end
